(* ===== verification/Prelude.thy ===== *)
theory Prelude
  imports Main "HOL-Library.Signed_Division" "HOL-Library.Code_Target_Nat"
begin

text \<open>
  Shared vocabulary of the development.

  \<^item> Go's \<^verbatim>\<open>int64\<close> arithmetic: values are \<open>int\<close>, and \<open>wrap64\<close> is applied where the
    source adds, subtracts or multiplies, so wrap-around is written out. Go's \<^verbatim>\<open>/\<close> truncates
    towards zero: it is \<open>sdiv\<close> of \<^verbatim>\<open>HOL-Library.Signed_Division\<close>.
  \<^item> Error returns: \<open>'e + 'a\<close>, \<open>Inl\<close> for a non-nil \<^verbatim>\<open>error\<close>. \<open>for_each\<close> is a \<^verbatim>\<open>for\<close> loop
    whose body may return early with an error.
  \<^item> Tables: lists of row records in insertion order. \<open>update_where\<close> is SQL's
    \<^verbatim>\<open>UPDATE ... WHERE\<close>, \<open>List.find\<close> a single-row \<^verbatim>\<open>SELECT\<close>.
  \<^item> \<open>itoa\<close> is the \<^verbatim>\<open>%d\<close> verb of \<^verbatim>\<open>fmt.Sprintf\<close>; with it the idempotency keys are built as
    the strings the code builds.
  \<^item> \<open>json\<close> is a JSON value: \<^verbatim>\<open>json.Marshal\<close> and \<^verbatim>\<open>json.Unmarshal\<close> are modelled between Go
    structs and JSON values, not between values and bytes.
\<close>

named_theorems go_int \<open>rules that remove wrap-around under range facts\<close>
named_theorems key_simps \<open>facts about the characters of rendered keys\<close>

section \<open>Signed 64-bit integers\<close>

definition min_i64 :: int where
  "min_i64 = - (2 ^ 63)"

definition max_i64 :: int where
  "max_i64 = 2 ^ 63 - 1"

definition wrap64 :: "int \<Rightarrow> int" where
  "wrap64 x = (x + 2 ^ 63) mod 2 ^ 64 - 2 ^ 63"

definition is_i64 :: "int \<Rightarrow> bool" where
  "is_i64 x \<longleftrightarrow> min_i64 \<le> x \<and> x \<le> max_i64"

lemma wrap64_id [go_int]: "is_i64 x \<Longrightarrow> wrap64 x = x"
  by (simp add: wrap64_def is_i64_def min_i64_def max_i64_def)

lemma is_i64_wrap64 [simp]: "is_i64 (wrap64 x)"
  by (simp add: wrap64_def is_i64_def min_i64_def max_i64_def)

lemma wrap64_range: "min_i64 \<le> wrap64 x" "wrap64 x \<le> max_i64"
  using is_i64_wrap64 [of x] by (simp_all add: is_i64_def)

text \<open>Wrapping is a congruence: the operands of \<open>+\<close>, \<open>-\<close> and \<open>*\<close> may be wrapped or not.\<close>

lemma wrap64_cong: "a mod 2 ^ 64 = b mod 2 ^ 64 \<Longrightarrow> wrap64 a = wrap64 b"
  unfolding wrap64_def by (metis mod_add_left_eq)

lemma wrap64_mod: "wrap64 a mod 2 ^ 64 = a mod 2 ^ 64"
proof -
  have "((a + 2 ^ 63) mod 2 ^ 64 - 2 ^ 63) mod 2 ^ 64 = (a + 2 ^ 63 - 2 ^ 63) mod (2 ^ 64 :: int)"
    by (simp only: mod_diff_left_eq)
  then show ?thesis by (simp add: wrap64_def)
qed

lemma wrap64_add_left [simp]: "wrap64 (wrap64 a + b) = wrap64 (a + b)"
  by (rule wrap64_cong) (metis mod_add_left_eq wrap64_mod)

lemma wrap64_add_right [simp]: "wrap64 (a + wrap64 b) = wrap64 (a + b)"
  by (rule wrap64_cong) (metis mod_add_right_eq wrap64_mod)

lemma wrap64_diff_left [simp]: "wrap64 (wrap64 a - b) = wrap64 (a - b)"
  by (rule wrap64_cong) (metis mod_diff_left_eq wrap64_mod)

lemma wrap64_diff_right [simp]: "wrap64 (a - wrap64 b) = wrap64 (a - b)"
  by (rule wrap64_cong) (metis mod_diff_right_eq wrap64_mod)

lemma wrap64_mult_left [simp]: "wrap64 (wrap64 a * b) = wrap64 (a * b)"
  by (rule wrap64_cong) (metis mod_mult_left_eq wrap64_mod)

lemma wrap64_mult_right [simp]: "wrap64 (a * wrap64 b) = wrap64 (a * b)"
  by (rule wrap64_cong) (metis mod_mult_right_eq wrap64_mod)

lemma wrap64_wrap64 [simp]: "wrap64 (wrap64 a) = wrap64 a"
  by (rule wrap64_cong) (rule wrap64_mod)

lemma wrap64_0 [simp]: "wrap64 0 = 0"
  by (simp add: wrap64_def)

lemma is_i64_small: "\<bar>x\<bar> \<le> 10 ^ 18 \<Longrightarrow> is_i64 x"
  by (simp add: is_i64_def min_i64_def max_i64_def) arith

text \<open>A running total \<^verbatim>\<open>s += f(x)\<close> over a slice, wrapped at every step.\<close>

definition sum64 :: "('a \<Rightarrow> int) \<Rightarrow> 'a list \<Rightarrow> int" where
  "sum64 f xs = fold (\<lambda>x s. wrap64 (s + f x)) xs 0"

lemma fold_wrap64: "fold (\<lambda>x s. wrap64 (s + f x)) xs (wrap64 s) = wrap64 (s + sum_list (map f xs))"
  by (induction xs arbitrary: s) (simp_all add: add.assoc)

lemma sum64_eq: "sum64 f xs = wrap64 (sum_list (map f xs))"
  using fold_wrap64 [of f xs 0] by (simp add: sum64_def)

lemma sum64_Nil [simp]: "sum64 f [] = 0"
  by (simp add: sum64_def)

text \<open>Go's division by a positive constant agrees with \<open>div\<close> on non-negative dividends.\<close>

lemma sdiv_nonneg [go_int]: "0 \<le> (a :: int) \<Longrightarrow> 0 < b \<Longrightarrow> a sdiv b = a div b"
  by (cases "a = 0") (simp_all add: signed_divide_int_def)

section \<open>Loops with early return\<close>

fun for_each :: "('x \<Rightarrow> 's \<Rightarrow> 'e + 's) \<Rightarrow> 'x list \<Rightarrow> 's \<Rightarrow> 'e + 's" where
  "for_each f [] s = Inr s"
| "for_each f (x # xs) s = (case f x s of Inl e \<Rightarrow> Inl e | Inr s' \<Rightarrow> for_each f xs s')"

lemma for_each_append:
  "for_each f (xs @ ys) s = (case for_each f xs s of Inl e \<Rightarrow> Inl e | Inr s' \<Rightarrow> for_each f ys s')"
  by (induction xs arbitrary: s) (simp_all split: sum.split)

text \<open>An invariant of the body is an invariant of the loop.\<close>

lemma for_each_invariant:
  assumes "for_each f xs s = Inr s'" and "P s"
    and "\<And>x s s'. x \<in> set xs \<Longrightarrow> P s \<Longrightarrow> f x s = Inr s' \<Longrightarrow> P s'"
  shows "P s'"
  using assms
proof (induction xs arbitrary: s)
  case Nil
  then show ?case by simp
next
  case (Cons x xs)
  then obtain s1 where "f x s = Inr s1" and "for_each f xs s1 = Inr s'"
    by (auto split: sum.splits)
  then show ?case using Cons by (metis list.set_intros)
qed

section \<open>Tables\<close>

definition update_where :: "('r \<Rightarrow> bool) \<Rightarrow> ('r \<Rightarrow> 'r) \<Rightarrow> 'r list \<Rightarrow> 'r list" where
  "update_where p f rows = map (\<lambda>r. if p r then f r else r) rows"

definition rows_affected :: "('r \<Rightarrow> bool) \<Rightarrow> 'r list \<Rightarrow> nat" where
  "rows_affected p rows = length (filter p rows)"

lemma update_where_Nil [simp]: "update_where p f [] = []"
  by (simp add: update_where_def)

lemma update_where_Cons [simp]:
  "update_where p f (r # rs) = (if p r then f r else r) # update_where p f rs"
  by (simp add: update_where_def)

lemma update_where_append [simp]:
  "update_where p f (xs @ ys) = update_where p f xs @ update_where p f ys"
  by (simp add: update_where_def)

lemma length_update_where [simp]: "length (update_where p f rows) = length rows"
  by (simp add: update_where_def)

lemma set_update_where: "set (update_where p f rows) = (\<lambda>r. if p r then f r else r) ` set rows"
  by (simp add: update_where_def)

lemma update_where_none: "(\<And>r. r \<in> set rows \<Longrightarrow> \<not> p r) \<Longrightarrow> update_where p f rows = rows"
  by (induction rows) auto

text \<open>An update that keeps a column keeps its projection.\<close>

lemma map_update_where: "(\<And>r. g (f r) = g r) \<Longrightarrow> map g (update_where p f rows) = map g rows"
  by (simp add: update_where_def)

lemma find_None_iff2: "List.find p rows = None \<longleftrightarrow> (\<forall>r \<in> set rows. \<not> p r)"
  by (auto simp: find_None_iff)

lemma find_SomeD: "List.find p rows = Some r \<Longrightarrow> r \<in> set rows \<and> p r"
  by (induction rows) (auto split: if_splits)

lemma find_append:
  "List.find p (xs @ ys) = (case List.find p xs of Some r \<Rightarrow> Some r | None \<Rightarrow> List.find p ys)"
  by (induction xs) auto

lemma find_distinct_key:
  "distinct (map k rows) \<Longrightarrow> r \<in> set rows \<Longrightarrow> List.find (\<lambda>x. k x = k r) rows = Some r"
proof (induction rows)
  case Nil
  then show ?case by simp
next
  case (Cons x xs)
  then show ?case by (cases "x = r") (auto simp: image_iff)
qed

text \<open>\<^verbatim>\<open>BIGSERIAL\<close>: ids are handed out in increasing order and never reused.\<close>

definition fresh_ids :: "('r \<Rightarrow> int) \<Rightarrow> int \<Rightarrow> 'r list \<Rightarrow> bool" where
  "fresh_ids k nxt rows \<longleftrightarrow> 0 < nxt \<and> distinct (map k rows) \<and> (\<forall>i \<in> set (map k rows). 0 < i \<and> i < nxt)"

lemma fresh_ids_append:
  "fresh_ids k nxt rows \<Longrightarrow> k r = nxt \<Longrightarrow> fresh_ids k (nxt + 1) (rows @ [r])"
  by (auto simp: fresh_ids_def)

lemma fresh_ids_update:
  "(\<And>r. k (f r) = k r) \<Longrightarrow> fresh_ids k nxt (update_where p f rows) = fresh_ids k nxt rows"
  unfolding fresh_ids_def by (simp only: map_update_where)

lemma fresh_ids_mono: "fresh_ids k n rows \<Longrightarrow> n \<le> m \<Longrightarrow> fresh_ids k m rows"
  by (fastforce simp: fresh_ids_def)

section \<open>Maps\<close>

text \<open>
  A Go map built in a loop is an association list without duplicate keys; \<open>map_upd k f\<close> is
  \<^verbatim>\<open>m[k] = f(m[k])\<close>, where \<open>None\<close> is an absent key. \<^verbatim>\<open>range\<close> over a map visits the keys in an
  unspecified order: \<open>prio\<close> chooses it, and every order is the order of some priorities.
\<close>

fun map_upd :: "'k \<Rightarrow> ('v option \<Rightarrow> 'v) \<Rightarrow> ('k \<times> 'v) list \<Rightarrow> ('k \<times> 'v) list" where
  "map_upd k f [] = [(k, f None)]"
| "map_upd k f ((j, v) # m) = (if j = k then (j, f (Some v)) # m else (j, v) # map_upd k f m)"

definition range_map :: "('k \<Rightarrow> int) \<Rightarrow> ('k \<times> 'v) list \<Rightarrow> ('k \<times> 'v) list" where
  "range_map prio m = sort_key (\<lambda>e. prio (fst e)) m"

lemma map_of_map_upd: "map_of (map_upd k f m) = (map_of m)(k \<mapsto> f (map_of m k))"
  by (induction m rule: map_upd.induct) (auto simp: fun_eq_iff)

lemma dom_map_upd: "fst ` set (map_upd k f m) = insert k (fst ` set m)"
  by (induction k f m rule: map_upd.induct) auto

lemma distinct_map_upd: "distinct (map fst m) \<Longrightarrow> distinct (map fst (map_upd k f m))"
proof (induction k f m rule: map_upd.induct)
  case (2 k f j v m)
  then show ?case using dom_map_upd [of k f m] by auto
qed simp

lemma set_range_map [simp]: "set (range_map prio m) = set m"
  by (simp add: range_map_def)

lemma distinct_range_map [simp]: "distinct (map fst (range_map prio m)) = distinct (map fst m)"
  unfolding range_map_def by (simp add: distinct_map distinct_sort)

lemma range_map_Nil [simp]: "range_map prio m = [] \<longleftrightarrow> m = []"
  by (metis set_empty set_range_map)

section \<open>Decimal rendering\<close>

definition digit :: "nat \<Rightarrow> char" where
  "digit k = char_of (48 + k)"

fun nat_dec :: "nat \<Rightarrow> string" where
  "nat_dec n = (if n < 10 then [digit n] else nat_dec (n div 10) @ [digit (n mod 10)])"

declare nat_dec.simps [simp del]

definition itoa :: "int \<Rightarrow> string" where
  "itoa i = (if i < 0 then CHR ''-'' # nat_dec (nat (- i)) else nat_dec (nat i))"

definition dec_val :: "string \<Rightarrow> nat" where
  "dec_val s = foldl (\<lambda>a c. 10 * a + (of_char c - 48)) 0 s"

lemma dec_val_snoc: "dec_val (s @ [c]) = 10 * dec_val s + (of_char c - 48)"
  by (simp add: dec_val_def)

lemma of_char_digit: "k < 10 \<Longrightarrow> of_char (digit k) = 48 + k"
  by (simp add: digit_def)

lemma dec_val_nat_dec: "dec_val (nat_dec n) = n"
proof (induction n rule: nat_dec.induct)
  case (1 n)
  show ?case
  proof (cases "n < 10")
    case True
    then have "nat_dec n = [digit n]" by (subst nat_dec.simps) simp
    then show ?thesis using True by (simp add: dec_val_def of_char_digit)
  next
    case False
    then have "nat_dec n = nat_dec (n div 10) @ [digit (n mod 10)]" by (subst nat_dec.simps) simp
    then show ?thesis using 1 False by (simp add: dec_val_snoc of_char_digit)
  qed
qed

lemma nat_dec_inj [simp]: "nat_dec m = nat_dec n \<longleftrightarrow> m = n"
  by (metis dec_val_nat_dec)

lemma set_nat_dec: "set (nat_dec n) \<subseteq> digit ` {..<10}"
proof (induction n rule: nat_dec.induct)
  case (1 n)
  then show ?case
    by (cases "n < 10") (auto simp: nat_dec.simps [of n])
qed

lemma digit_range: "c \<in> digit ` {..<10} \<Longrightarrow> 48 \<le> (of_char c :: nat) \<and> (of_char c :: nat) < 58"
  by (auto simp: of_char_digit)

lemma nat_dec_no_char:
  "c \<in> set (nat_dec n) \<Longrightarrow> 48 \<le> (of_char c :: nat) \<and> (of_char c :: nat) < 58"
  using set_nat_dec digit_range by blast

lemma itoa_chars: "c \<in> set (itoa i) \<Longrightarrow> c = CHR ''-'' \<or> 48 \<le> (of_char c :: nat) \<and> (of_char c :: nat) < 58"
  using nat_dec_no_char by (auto simp: itoa_def split: if_splits)

lemma itoa_no_sep [key_simps]: "CHR '':'' \<notin> set (itoa i)" "CHR ''_'' \<notin> set (itoa i)"
  using itoa_chars [of "CHR '':''" i] itoa_chars [of "CHR ''_''" i] by auto

lemma itoa_inj [simp]: "itoa i = itoa j \<longleftrightarrow> i = j"
proof -
  have "nat_dec n \<noteq> CHR ''-'' # s" for n s
    using nat_dec_no_char [of "CHR ''-''" n] by auto
  then show ?thesis
    by (auto simp: itoa_def split: if_splits dest: sym)
qed

text \<open>Two keys with a separator that occurs in neither first part agree part by part.\<close>

lemma sep_inj:
  "c \<notin> set xs \<Longrightarrow> c \<notin> set ys \<Longrightarrow> xs @ c # zs = ys @ c # ws \<longleftrightarrow> xs = ys \<and> zs = ws"
proof (induction xs arbitrary: ys)
  case Nil
  then show ?case by (cases ys) auto
next
  case (Cons x xs)
  then show ?case by (cases ys) auto
qed

section \<open>JSON values\<close>

datatype json =
    JNull
  | JBool bool
  | JInt int
  | JStr string
  | JTime int
  | JArr "json list"
  | JObj "(string \<times> json) list"

text \<open>
  \<open>JTime t\<close> is the RFC 3339 string of the instant \<open>t\<close> (nanoseconds since the epoch), the form in
  which \<^verbatim>\<open>time.Time\<close> is marshalled.

  \<^verbatim>\<open>json.Unmarshal\<close> into a struct: an absent or \<^verbatim>\<open>null\<close> field leaves the zero value, a field of
  another JSON type is an error (\<open>None\<close>). The encoder never writes a key twice, so the first
  occurrence is the only one.
\<close>

fun jfield :: "string \<Rightarrow> json \<Rightarrow> json option" where
  "jfield k (JObj fs) = Some (case map_of fs k of None \<Rightarrow> JNull | Some v \<Rightarrow> v)"
| "jfield k _ = None"

fun as_int :: "json \<Rightarrow> int option" where
  "as_int (JInt i) = Some i"
| "as_int JNull = Some 0"
| "as_int _ = None"

fun as_str :: "json \<Rightarrow> string option" where
  "as_str (JStr s) = Some s"
| "as_str JNull = Some []"
| "as_str _ = None"

fun as_arr :: "json \<Rightarrow> json list option" where
  "as_arr (JArr xs) = Some xs"
| "as_arr JNull = Some []"
| "as_arr _ = None"

definition jint :: "string \<Rightarrow> json \<Rightarrow> int option" where
  "jint k j = Option.bind (jfield k j) as_int"

definition jstr :: "string \<Rightarrow> json \<Rightarrow> string option" where
  "jstr k j = Option.bind (jfield k j) as_str"

fun traverse :: "('a \<Rightarrow> 'b option) \<Rightarrow> 'a list \<Rightarrow> 'b list option" where
  "traverse f [] = Some []"
| "traverse f (x # xs) =
     (case f x of None \<Rightarrow> None
      | Some y \<Rightarrow> (case traverse f xs of None \<Rightarrow> None | Some ys \<Rightarrow> Some (y # ys)))"

definition jarr :: "(json \<Rightarrow> 'a option) \<Rightarrow> string \<Rightarrow> json \<Rightarrow> 'a list option" where
  "jarr f k j = Option.bind (Option.bind (jfield k j) as_arr) (traverse f)"

lemma traverse_map: "(\<And>x. x \<in> set xs \<Longrightarrow> f (g x) = Some (h x)) \<Longrightarrow> traverse f (map g xs) = Some (map h xs)"
  by (induction xs) auto

end
