(* ===== verification/Calendar.thy ===== *)
theory Calendar
  imports Prelude
begin

text \<open>
  Dates and the business-day calendar: \<^verbatim>\<open>pkg/timex\<close> and what the engines use of Go's
  \<^verbatim>\<open>time\<close> package. An instant is a number of nanoseconds since the Unix epoch, in UTC; a date
  is the day number \<open>day_of t\<close>. The proleptic Gregorian calendar is given by
  \<open>civil_of_days\<close> (the cycle decomposition of \<^verbatim>\<open>time.absDate\<close>: 400, 100, 4 and 1 years) and its
  inverse \<open>days_of_civil\<close>; years are counted from March so that the leap day is the last one.
  The business-day loop of \<open>AddBusinessDays\<close> is a terminating \<open>function\<close>: a finite list of
  holidays cannot hold every date, because the rendering of dates is injective.
\<close>

type_synonym instant = int
type_synonym day = int

definition ns_per_sec :: int where
  "ns_per_sec = 1000000000"

definition ns_per_day :: int where
  "ns_per_day = 86400 * ns_per_sec"

definition day_of :: "instant \<Rightarrow> day" where
  "day_of t = t div ns_per_day"

definition at_midnight :: "day \<Rightarrow> instant" where
  "at_midnight k = k * ns_per_day"

lemma day_of_at_midnight [simp]: "day_of (at_midnight k) = k"
  by (simp add: day_of_def at_midnight_def ns_per_day_def ns_per_sec_def)

lemma day_of_add_day: "day_of (t + ns_per_day) = day_of t + 1"
  by (simp add: day_of_def ns_per_day_def ns_per_sec_def)

section \<open>Civil dates\<close>

definition split_doe :: "int \<Rightarrow> int \<times> int" where
  "split_doe doe =
     (let c = min 3 (doe div 36524); r1 = doe - 36524 * c;
          q = r1 div 1461; r2 = r1 - 1461 * q;
          y = min 3 (r2 div 365)
      in (100 * c + 4 * q + y, r2 - 365 * y))"

definition civil_of_days :: "day \<Rightarrow> int \<times> int \<times> int" where
  "civil_of_days k =
     (let z = k + 719468;
          era = z div 146097;
          (yoe, doy) = split_doe (z mod 146097);
          mp = (5 * doy + 2) div 153;
          d = doy - (153 * mp + 2) div 5 + 1;
          m = (if mp < 10 then mp + 3 else mp - 9);
          y = yoe + era * 400 + (if m \<le> 2 then 1 else 0)
      in (y, m, d))"

definition days_of_civil :: "int \<Rightarrow> int \<Rightarrow> int \<Rightarrow> day" where
  "days_of_civil y m d =
     (let y' = (if m \<le> 2 then y - 1 else y);
          era = y' div 400;
          yoe = y' mod 400;
          mp = (if m > 2 then m - 3 else m + 9);
          doy = (153 * mp + 2) div 5 + d - 1;
          doe = yoe * 365 + yoe div 4 - yoe div 100 + doy
      in era * 146097 + doe - 719468)"

lemma split_doe_bounds:
  assumes "0 \<le> doe" "doe < 146097" "split_doe doe = (yoe, doy)"
  shows "0 \<le> yoe \<and> yoe < 400 \<and> 0 \<le> doy \<and> doy \<le> 365
    \<and> doe = yoe * 365 + yoe div 4 - yoe div 100 + doy"
proof -
  define c where "c = min 3 (doe div 36524)"
  define r1 where "r1 = doe - 36524 * c"
  define q where "q = r1 div 1461"
  define r2 where "r2 = r1 - 1461 * q"
  define y where "y = min 3 (r2 div 365)"
  have e: "yoe = 100 * c + 4 * q + y" "doy = r2 - 365 * y"
    using assms(3) by (simp_all add: split_doe_def Let_def c_def r1_def q_def r2_def y_def)
  have c: "0 \<le> c" "c \<le> 3" and r1: "0 \<le> r1" "r1 \<le> 36524"
    using assms(1,2) by (auto simp: c_def r1_def min_def)
  have q: "0 \<le> q" "q \<le> 24" and r2: "0 \<le> r2" "r2 \<le> 1460"
    using r1 by (auto simp: q_def r2_def)
  have y: "0 \<le> y" "y \<le> 3" and d: "0 \<le> r2 - 365 * y" "r2 - 365 * y \<le> 365"
    using r2 by (auto simp: y_def min_def)
  have "yoe div 4 = 25 * c + q" and "yoe div 100 = c"
    using c q y e(1) by (auto simp: )
  then show ?thesis
    using c q y d e by (auto simp: r1_def r2_def)
qed

lemma days_of_civil_of_days:
  assumes "civil_of_days k = (y, m, d)"
  shows "days_of_civil y m d = k"
proof -
  define z where "z = k + 719468"
  obtain yoe doy where s: "split_doe (z mod 146097) = (yoe, doy)" by fastforce
  note b = split_doe_bounds [OF _ _ s, simplified]
  define mp where "mp = (5 * doy + 2) div 153"
  have mp: "0 \<le> mp" "mp \<le> 11" using b by (auto simp: mp_def)
  have ymd: "d = doy - (153 * mp + 2) div 5 + 1" "m = (if mp < 10 then mp + 3 else mp - 9)"
    "y = yoe + z div 146097 * 400 + (if m \<le> 2 then 1 else 0)"
    using assms s by (auto simp: civil_of_days_def Let_def mp_def z_def)
  have y': "(if m \<le> 2 then y - 1 else y) = yoe + z div 146097 * 400"
    using ymd(3) by simp
  have m': "(if m > 2 then m - 3 else m + 9) = mp"
    using ymd(2) mp by auto
  have "days_of_civil y m d = z div 146097 * 146097 + z mod 146097 - 719468"
    unfolding days_of_civil_def Let_def y' m' using b ymd(1) by simp
  then show ?thesis by (simp add: z_def)
qed

lemma civil_of_days_inj: "civil_of_days j = civil_of_days k \<longleftrightarrow> j = k"
  by (metis days_of_civil_of_days prod_cases3)

lemma civil_of_days_range:
  assumes "civil_of_days k = (y, m, d)"
  shows "1 \<le> m \<and> m \<le> 12 \<and> 1 \<le> d \<and> d \<le> 31"
proof -
  obtain yoe doy where s: "split_doe ((k + 719468) mod 146097) = (yoe, doy)" by fastforce
  note b = split_doe_bounds [OF _ _ s, simplified]
  define mp where "mp = (5 * doy + 2) div 153"
  have mp: "0 \<le> mp" "mp \<le> 11" using b by (auto simp: mp_def)
  have "d = doy - (153 * mp + 2) div 5 + 1" "m = (if mp < 10 then mp + 3 else mp - 9)"
    using assms s by (auto simp: civil_of_days_def Let_def mp_def)
  moreover have "(153 * mp + 2) div 5 \<le> doy" "doy \<le> (153 * mp + 2) div 5 + 30"
    using b unfolding mp_def by linarith+
  ultimately show ?thesis using mp by auto
qed

text \<open>
  \<^verbatim>\<open>time.Date\<close> normalises months outside 1..12 and days outside the month: the 31st of a
  30-day month is the 1st of the next.
\<close>

definition go_date :: "int \<Rightarrow> int \<Rightarrow> int \<Rightarrow> day" where
  "go_date y m d = days_of_civil (y + (m - 1) div 12) ((m - 1) mod 12 + 1) 1 + (d - 1)"

definition add_date :: "day \<Rightarrow> int \<Rightarrow> int \<Rightarrow> day" where
  "add_date k months days = (case civil_of_days k of (y, m, d) \<Rightarrow> go_date y (m + months) (d + days))"

text \<open>Counting days inside a month is additive, so adding no months is adding days.\<close>

lemma days_of_civil_day: "days_of_civil y m 1 + (d - 1) = days_of_civil y m d"
  by (simp add: days_of_civil_def Let_def)

lemma add_date_days: "add_date k 0 n = k + n"
proof -
  obtain y m d where c: "civil_of_days k = (y, m, d)" by (metis prod_cases3)
  have "(m - 1) div 12 = 0" "(m - 1) mod 12 = m - 1"
    using civil_of_days_range [OF c] by auto
  then have "go_date y m (d + n) = days_of_civil y m d + n"
    using days_of_civil_day [of y m d] by (simp add: go_date_def)
  then show ?thesis
    using c days_of_civil_of_days [OF c] by (simp add: add_date_def)
qed

text \<open>\<^verbatim>\<open>time.Weekday\<close>: 0 is Sunday; day 0 (1970-01-01) was a Thursday.\<close>

definition weekday :: "day \<Rightarrow> int" where
  "weekday k = (k + 4) mod 7"

definition is_weekend :: "day \<Rightarrow> bool" where
  "is_weekend k \<longleftrightarrow> weekday k = 6 \<or> weekday k = 0"

section \<open>Rendering\<close>

definition pad_dec :: "nat \<Rightarrow> nat \<Rightarrow> string" where
  "pad_dec w n = replicate (w - length (nat_dec n)) (CHR ''0'') @ nat_dec n"

definition fmt_year :: "int \<Rightarrow> string" where
  "fmt_year y = (if y < 0 then CHR ''-'' # pad_dec 4 (nat (- y)) else pad_dec 4 (nat y))"

text \<open>\<^verbatim>\<open>t.Format("2006-01-02")\<close> and \<^verbatim>\<open>t.Format("20060102")\<close>.\<close>

definition fmt_date :: "day \<Rightarrow> string" where
  "fmt_date k = (case civil_of_days k of (y, m, d) \<Rightarrow>
     fmt_year y @ ''-'' @ pad_dec 2 (nat m) @ ''-'' @ pad_dec 2 (nat d))"

definition fmt_yyyymmdd :: "day \<Rightarrow> string" where
  "fmt_yyyymmdd k = (case civil_of_days k of (y, m, d) \<Rightarrow>
     fmt_year y @ pad_dec 2 (nat m) @ pad_dec 2 (nat d))"

lemma foldl_dec_zeros:
  "foldl (\<lambda>a c. 10 * a + (of_char c - 48)) (0::nat) (replicate n (CHR ''0'')) = 0"
  by (induction n) simp_all

lemma dec_val_pad_dec [simp]: "dec_val (pad_dec w n) = n"
  using dec_val_nat_dec [of n] by (simp add: dec_val_def pad_dec_def foldl_dec_zeros)

lemma pad_dec_inj [simp]: "pad_dec w m = pad_dec w n \<longleftrightarrow> m = n"
  by (metis dec_val_pad_dec)

lemma pad_dec_no_char: "c \<in> set (pad_dec w n) \<Longrightarrow> 48 \<le> (of_char c :: nat) \<and> (of_char c :: nat) < 58"
  using nat_dec_no_char by (auto simp: pad_dec_def)

lemma fmt_year_inj [simp]: "fmt_year y = fmt_year y' \<longleftrightarrow> y = y'"
proof -
  have "pad_dec 4 n \<noteq> CHR ''-'' # s" for n s
    using pad_dec_no_char [of "CHR ''-''" 4 n] by auto
  then show ?thesis
    by (auto simp: fmt_year_def split: if_splits dest: sym)
qed

lemma length_pad_dec_2: "n < 100 \<Longrightarrow> length (pad_dec 2 n) = 2"
  by (cases "n < 10") (auto simp: pad_dec_def nat_dec.simps [of n] nat_dec.simps [of "n div 10"])

text \<open>A date is its year followed by a tail of fixed length.\<close>

lemma date_tail_inj:
  assumes "1 \<le> m \<and> m \<le> 12 \<and> 1 \<le> d \<and> d \<le> 31" "1 \<le> m' \<and> m' \<le> 12 \<and> 1 \<le> d' \<and> d' \<le> 31"
    and "xs @ s @ pad_dec 2 (nat m) @ s @ pad_dec 2 (nat d) =
      ys @ s @ pad_dec 2 (nat m') @ s @ pad_dec 2 (nat d')"
  shows "xs = ys \<and> m = m' \<and> d = d'"
proof -
  have l: "length (pad_dec 2 (nat m)) = 2" "length (pad_dec 2 (nat m')) = 2"
    "length (pad_dec 2 (nat d)) = 2" "length (pad_dec 2 (nat d')) = 2"
    using assms(1,2) by (auto intro!: length_pad_dec_2)
  have "xs = ys \<and> s @ pad_dec 2 (nat m) @ s @ pad_dec 2 (nat d) =
      s @ pad_dec 2 (nat m') @ s @ pad_dec 2 (nat d')"
    using assms(3) by (subst (asm) append_eq_append_conv) (simp_all add: l)
  then show ?thesis using assms(1,2) l by (auto simp: append_eq_append_conv)
qed

lemma fmt_date_inj [simp]: "fmt_date j = fmt_date k \<longleftrightarrow> j = k"
proof
  assume eq: "fmt_date j = fmt_date k"
  obtain y m d y' m' d' where c: "civil_of_days j = (y, m, d)" "civil_of_days k = (y', m', d')"
    by (metis prod_cases3)
  then have "fmt_year y = fmt_year y' \<and> m = m' \<and> d = d'"
    using eq by (intro date_tail_inj [OF civil_of_days_range civil_of_days_range, of j y _ _ k y' _ _ _ "''-''"])
      (simp_all add: fmt_date_def)
  then show "j = k"
    using c by (simp flip: civil_of_days_inj)
qed simp

lemma fmt_yyyymmdd_inj [simp]: "fmt_yyyymmdd j = fmt_yyyymmdd k \<longleftrightarrow> j = k"
proof
  assume eq: "fmt_yyyymmdd j = fmt_yyyymmdd k"
  obtain y m d y' m' d' where c: "civil_of_days j = (y, m, d)" "civil_of_days k = (y', m', d')"
    by (metis prod_cases3)
  then have "fmt_year y = fmt_year y' \<and> m = m' \<and> d = d'"
    using eq by (intro date_tail_inj [OF civil_of_days_range civil_of_days_range, of j y _ _ k y' _ _ _ "[]"])
      (simp_all add: fmt_yyyymmdd_def)
  then show "j = k"
    using c by (simp flip: civil_of_days_inj)
qed simp

lemma fmt_yyyymmdd_no_colon [key_simps]: "CHR '':'' \<notin> set (fmt_yyyymmdd k)"
  using pad_dec_no_char [of "CHR '':''"]
  by (auto simp: fmt_yyyymmdd_def fmt_year_def split: prod.splits)

section \<open>Business days\<close>

text \<open>\<^verbatim>\<open>timex.Calendar\<close>: the keys of the \<^verbatim>\<open>Holidays\<close> map, as a list.\<close>

record calendar =
  cal_market :: string
  cal_holidays :: "string list"

definition is_holiday :: "calendar \<Rightarrow> day \<Rightarrow> bool" where
  "is_holiday cal k \<longleftrightarrow> fmt_date k \<in> set (cal_holidays cal)"

definition is_business_day :: "calendar \<Rightarrow> day \<Rightarrow> bool" where
  "is_business_day cal k \<longleftrightarrow> \<not> is_weekend k \<and> \<not> is_holiday cal k"

text \<open>
  The loop of \<^verbatim>\<open>AddBusinessDays\<close>: \<open>added\<close> counts up to \<open>n\<close>, \<open>current\<close> moves one day per turn.
\<close>

function abd_loop :: "int \<Rightarrow> calendar \<Rightarrow> int \<Rightarrow> instant \<Rightarrow> instant" where
  "abd_loop n cal added current =
     (if added < n
      then (let current' = current + ns_per_day in
            if is_weekend (day_of current') then abd_loop n cal added current'
            else if is_holiday cal (day_of current') then abd_loop n cal added current'
            else abd_loop n cal (added + 1) current')
      else current)"
  by pat_completeness auto

definition future_holidays :: "calendar \<Rightarrow> instant \<Rightarrow> day set" where
  "future_holidays cal t = {k. day_of t < k \<and> is_holiday cal k}"

definition weekend_left :: "instant \<Rightarrow> nat" where
  "weekend_left t = (if weekday (day_of t) = 5 then 2 else if weekday (day_of t) = 6 then 1 else 0)"

lemma finite_future_holidays: "finite (future_holidays cal t)"
proof (rule finite_subset)
  show "future_holidays cal t \<subseteq> fmt_date -` set (cal_holidays cal)"
    by (auto simp: future_holidays_def is_holiday_def)
  show "finite (fmt_date -` set (cal_holidays cal))"
    by (rule finite_vimageI) (auto intro: injI)
qed

lemma future_holidays_step:
  "card (future_holidays cal (t + ns_per_day)) \<le> card (future_holidays cal t)"
  "is_holiday cal (day_of (t + ns_per_day)) \<Longrightarrow>
     card (future_holidays cal (t + ns_per_day)) < card (future_holidays cal t)"
proof -
  have sub: "future_holidays cal (t + ns_per_day) \<subseteq> future_holidays cal t"
    by (auto simp: future_holidays_def day_of_add_day)
  then show "card (future_holidays cal (t + ns_per_day)) \<le> card (future_holidays cal t)"
    by (rule card_mono [OF finite_future_holidays])
  assume "is_holiday cal (day_of (t + ns_per_day))"
  then have "day_of (t + ns_per_day) \<in> future_holidays cal t - future_holidays cal (t + ns_per_day)"
    by (auto simp: future_holidays_def day_of_add_day)
  with sub show "card (future_holidays cal (t + ns_per_day)) < card (future_holidays cal t)"
    by (intro psubset_card_mono [OF finite_future_holidays]) auto
qed

lemma weekend_left_step:
  "is_weekend (day_of (t + ns_per_day)) \<Longrightarrow> weekend_left (t + ns_per_day) < weekend_left t"
  unfolding weekend_left_def is_weekend_def weekday_def day_of_add_day by auto presburger+

termination abd_loop
proof (relation "measures [\<lambda>(n, cal, added, t). nat (n - added),
    \<lambda>(n, cal, added, t). card (future_holidays cal t), \<lambda>(n, cal, added, t). weekend_left t]", goal_cases)
  case 1
  show ?case by simp
next
  case (2 n cal added current)
  then show ?case
    using future_holidays_step(1) [of cal current] weekend_left_step [of current] by auto
next
  case (3 n cal added current)
  then show ?case
    using future_holidays_step(2) [of cal current] by auto
next
  case (4 n cal added current)
  then show ?case by auto
qed

declare abd_loop.simps [simp del]

definition AddBusinessDays :: "instant \<Rightarrow> int \<Rightarrow> calendar \<Rightarrow> instant" where
  "AddBusinessDays start n cal = abd_loop n cal 0 start"

text \<open>What the loop returns: a whole number of days later, with exactly the days asked for.\<close>

definition business_days :: "calendar \<Rightarrow> day \<Rightarrow> day \<Rightarrow> day set" where
  "business_days cal a b = {k. a < k \<and> k \<le> b \<and> is_business_day cal k}"

lemma business_days_self [simp]: "business_days cal a a = {}"
  by (auto simp: business_days_def)

lemma finite_business_days [simp]: "finite (business_days cal a b)"
  by (rule finite_subset [of _ "{a..b}"]) (auto simp: business_days_def)

lemma business_days_step:
  assumes "day_of t + 1 \<le> b"
  shows "card (business_days cal (day_of t) b) =
    (if is_business_day cal (day_of t + 1) then 1 else 0) + card (business_days cal (day_of t + 1) b)"
proof -
  have "business_days cal (day_of t) b =
      (if is_business_day cal (day_of t + 1) then {day_of t + 1} else {}) \<union> business_days cal (day_of t + 1) b"
    using assms by (auto simp: business_days_def order_less_le zless_iff_Suc_zadd)
  moreover have "day_of t + 1 \<notin> business_days cal (day_of t + 1) b"
    by (auto simp: business_days_def)
  ultimately show ?thesis by simp
qed

lemma abd_loop_spec:
  assumes "added \<le> n"
  shows "\<exists>k. abd_loop n cal added t = t + int k * ns_per_day \<and>
    card (business_days cal (day_of t) (day_of (abd_loop n cal added t))) = nat (n - added) \<and>
    (added < n \<longrightarrow> 0 < k \<and> is_business_day cal (day_of (abd_loop n cal added t)))"
  using assms
proof (induction n cal added t rule: abd_loop.induct)
  case (1 n cal added t)
  define t' where "t' = t + ns_per_day"
  show ?case
  proof (cases "added < n")
    case False
    then have "abd_loop n cal added t = t" by (subst abd_loop.simps) simp
    then show ?thesis
      using False 1(4) by (auto simp: business_days_self intro!: exI [of _ 0])
  next
    case True
    define a' where "a' = (if is_business_day cal (day_of t') then added + 1 else added)"
    have unf: "abd_loop n cal added t = abd_loop n cal a' t'"
      using True by (subst abd_loop.simps) (auto simp: a'_def t'_def is_business_day_def Let_def)
    have "\<exists>k. abd_loop n cal a' t' = t' + int k * ns_per_day \<and>
        card (business_days cal (day_of t') (day_of (abd_loop n cal a' t'))) = nat (n - a') \<and>
        (a' < n \<longrightarrow> 0 < k \<and> is_business_day cal (day_of (abd_loop n cal a' t')))"
      using 1(1-3) True by (auto simp: a'_def t'_def is_business_day_def Let_def)
    then obtain k where k: "abd_loop n cal a' t' = t' + int k * ns_per_day"
      "card (business_days cal (day_of t') (day_of (abd_loop n cal a' t'))) = nat (n - a')"
      "a' < n \<Longrightarrow> 0 < k \<and> is_business_day cal (day_of (abd_loop n cal a' t'))" by blast
    have d': "day_of t' = day_of t + 1" by (simp add: t'_def day_of_add_day)
    have "day_of t + 1 \<le> day_of (abd_loop n cal a' t')"
      by (simp add: k(1) flip: d') (simp add: day_of_def ns_per_day_def ns_per_sec_def)
    then have "card (business_days cal (day_of t) (day_of (abd_loop n cal a' t'))) = nat (n - added)"
      using business_days_step [of t _ cal] k(2) True by (auto simp: d' a'_def split: if_splits)
    moreover have "is_business_day cal (day_of (abd_loop n cal a' t'))"
    proof (cases "a' < n")
      case False
      then have "abd_loop n cal a' t' = t'" by (subst abd_loop.simps) simp
      then show ?thesis using False True by (auto simp: a'_def split: if_splits)
    qed (use k(3) in blast)
    ultimately show ?thesis
      unfolding unf using k(1) by (intro exI [of _ "Suc k"]) (simp add: t'_def algebra_simps)
  qed
qed

section \<open>Periods\<close>

text \<open>\<^verbatim>\<open>timeToPeriod\<close> and \<^verbatim>\<open>periodToFirstDay\<close> of the cashback engine: \<^verbatim>\<open>YYYYMM\<close> integers.\<close>

definition timeToPeriod :: "day \<Rightarrow> int" where
  "timeToPeriod k = (case civil_of_days k of (y, m, d) \<Rightarrow> y * 100 + m)"

definition periodToFirstDay :: "int \<Rightarrow> day" where
  "periodToFirstDay period = go_date (period sdiv 100) (period smod 100) 1"

section \<open>Times in JSON\<close>

text \<open>The zero \<^verbatim>\<open>time.Time\<close> is the first of January of the year 1.\<close>

definition zero_time :: instant where
  "zero_time = at_midnight (days_of_civil 1 1 1)"

fun as_time :: "json \<Rightarrow> instant option" where
  "as_time (JTime t) = Some t"
| "as_time JNull = Some zero_time"
| "as_time _ = None"

definition jtime :: "string \<Rightarrow> json \<Rightarrow> instant option" where
  "jtime k j = Option.bind (jfield k j) as_time"

section \<open>Months as Postgres counts them\<close>

text \<open>\<^verbatim>\<open>date + n * INTERVAL '1 month'\<close> keeps the day of the month, cut to the length of the month.\<close>

definition days_in_month :: "int \<Rightarrow> int \<Rightarrow> int" where
  "days_in_month y m = (if m = 12 then days_of_civil (y + 1) 1 1 else days_of_civil y (m + 1) 1) - days_of_civil y m 1"

definition pg_add_months :: "day \<Rightarrow> int \<Rightarrow> day" where
  "pg_add_months k n =
     (case civil_of_days k of (y, m, d) \<Rightarrow>
        (let y' = y + (m - 1 + n) div 12; m' = (m - 1 + n) mod 12 + 1
         in days_of_civil y' m' (min d (days_in_month y' m'))))"

section \<open>The static calendar loader\<close>

definition static_Load :: "(string \<times> calendar) list \<Rightarrow> string \<Rightarrow> calendar option" where
  "static_Load cals market = map_of cals market"

text \<open>
  \<^verbatim>\<open>AddBusinessDays\<close> always returns, and returns what its comment says: for \<open>n \<ge> 0\<close> the result is a
  whole number of days after the start, exactly \<open>n\<close> business days (no weekend, no holiday) lie after
  the start up to and including it, and for \<open>n > 0\<close> it is a business day itself; so it is the
  \<open>n\<close>-th business day after the start.
\<close>

theorem AddBusinessDays_correct:
  assumes "0 \<le> n"
  shows "\<exists>k. AddBusinessDays t n cal = t + int k * ns_per_day \<and>
    card (business_days cal (day_of t) (day_of (AddBusinessDays t n cal))) = nat n \<and>
    (if n = 0 then k = 0 else is_business_day cal (day_of (AddBusinessDays t n cal)))"
proof (cases "n = 0")
  case True
  then have "AddBusinessDays t n cal = t" by (simp add: AddBusinessDays_def abd_loop.simps)
  then show ?thesis using True by simp
next
  case False
  then show ?thesis using assms abd_loop_spec [of 0 n cal t] by (auto simp: AddBusinessDays_def)
qed

lemmas calendar_eval = at_midnight_def day_of_def ns_per_day_def ns_per_sec_def days_of_civil_def
  civil_of_days_def split_doe_def is_weekend_def weekday_def is_holiday_def fmt_date_def fmt_year_def
  pad_dec_def nat_dec.simps digit_def

text \<open>Friday 2026-05-15, three business days, with the national holiday of Tuesday 2026-05-19.\<close>

theorem AddBusinessDays_correct_witness:
  "AddBusinessDays (at_midnight (days_of_civil 2026 5 15)) 3 \<lparr>cal_market = ''TR'', cal_holidays = [''2026-05-19'']\<rparr> =
     at_midnight (days_of_civil 2026 5 21) \<and>
   card (business_days \<lparr>cal_market = ''TR'', cal_holidays = [''2026-05-19'']\<rparr>
     (days_of_civil 2026 5 15) (days_of_civil 2026 5 21)) = 3"
proof -
  have v: "AddBusinessDays (at_midnight (days_of_civil 2026 5 15)) 3 \<lparr>cal_market = ''TR'', cal_holidays = [''2026-05-19'']\<rparr> =
     at_midnight (days_of_civil 2026 5 21)"
    by code_simp
  show ?thesis
    using AddBusinessDays_correct [of 3 "at_midnight (days_of_civil 2026 5 15)"
        "\<lparr>cal_market = ''TR'', cal_holidays = [''2026-05-19'']\<rparr>"] v by simp
qed

end
