(* ===== verification/Outbox.thy ===== *)
theory Outbox
  imports Calendar
begin

text \<open>
  The transactional outbox: \<^verbatim>\<open>internal/outbox\<close> (repository and relay worker) with the event type
  of \<^verbatim>\<open>internal/eventbus\<close>. An outbox table is a list of rows and its \<^verbatim>\<open>BIGSERIAL\<close> counter.
  The Redis stream is the list of events already \<^verbatim>\<open>XADD\<close>ed; it is not part of the database
  transaction, so a rollback does not remove them. What Redis and Postgres answer during one
  cycle is the record \<open>relay_env\<close>.
\<close>

section \<open>Rows, events and the repository\<close>

record outbox_row =
  o_id :: int
  o_aggregate :: string
  o_event_type :: string
  o_payload :: json
  o_idempotency_key :: string
  o_trace_id :: string
  o_span_id :: string
  o_market :: string
  o_currency :: string
  o_created_at :: instant
  o_published_at :: "instant option"

record event =
  ev_id :: string
  ev_type :: string
  ev_aggregate :: string
  ev_idempotency_key :: string
  ev_market :: string
  ev_currency :: string
  ev_trace_id :: string
  ev_span_id :: string
  ev_occurred_at :: instant
  ev_payload :: json

record outbox_tbl =
  ob_rows :: "outbox_row list"
  ob_next :: int

datatype outbox_error =
    OutboxDuplicateIdempotency
  | OutboxBegin
  | OutboxFetch
  | OutboxMark int
  | OutboxCommit

text \<open>
  \<^verbatim>\<open>Insert\<close>: \<^verbatim>\<open>id\<close> and \<^verbatim>\<open>created_at\<close> are the column defaults, \<^verbatim>\<open>published_at\<close> is NULL, and
  \<^verbatim>\<open>UNIQUE (idempotency_key)\<close> is the only constraint that can fire.
\<close>

definition outbox_Insert :: "instant \<Rightarrow> outbox_row \<Rightarrow> outbox_tbl \<Rightarrow> outbox_error + outbox_tbl" where
  "outbox_Insert now row t =
     (if List.find (\<lambda>r. o_idempotency_key r = o_idempotency_key row) (ob_rows t) \<noteq> None
      then Inl OutboxDuplicateIdempotency
      else Inr \<lparr>ob_rows = ob_rows t @
                 [row\<lparr>o_id := ob_next t, o_created_at := now, o_published_at := None\<rparr>],
                ob_next = ob_next t + 1\<rparr>)"

text \<open>\<^verbatim>\<open>ORDER BY id ASC LIMIT limit\<close>: insertion order is id order.\<close>

definition FetchUnpublished :: "nat \<Rightarrow> outbox_tbl \<Rightarrow> outbox_row list" where
  "FetchUnpublished limit t = take limit (filter (\<lambda>r. o_published_at r = None) (ob_rows t))"

definition MarkPublished :: "instant \<Rightarrow> int \<Rightarrow> outbox_tbl \<Rightarrow> outbox_tbl" where
  "MarkPublished now i t =
     t\<lparr>ob_rows := update_where (\<lambda>r. o_id r = i) (\<lambda>r. r\<lparr>o_published_at := Some now\<rparr>) (ob_rows t)\<rparr>"

definition rowToEvent :: "outbox_row \<Rightarrow> event" where
  "rowToEvent row =
     \<lparr>ev_id = o_idempotency_key row, ev_type = o_event_type row, ev_aggregate = o_aggregate row,
      ev_idempotency_key = o_idempotency_key row, ev_market = o_market row,
      ev_currency = o_currency row, ev_trace_id = o_trace_id row, ev_span_id = o_span_id row,
      ev_occurred_at = o_created_at row, ev_payload = o_payload row\<rparr>"

section \<open>The relay worker\<close>

definition minBatchSize :: nat where "minBatchSize = 100"
definition maxBatchSize :: nat where "maxBatchSize = 500"
definition initialBackoff :: int where "initialBackoff = ns_per_sec"
definition maxBackoff :: int where "maxBackoff = 60 * ns_per_sec"

record publisher =
  p_batchSize :: nat
  p_redisErrCount :: nat
  p_backoff :: int

definition NewPublisher :: publisher where
  "NewPublisher = \<lparr>p_batchSize = minBatchSize, p_redisErrCount = 0, p_backoff = 0\<rparr>"

text \<open>The answers of one cycle: which XADDs fail, which \<^verbatim>\<open>UPDATE\<close>s fail, begin, fetch and commit.\<close>

record relay_env =
  re_now :: instant
  re_begin_ok :: bool
  re_fetch_ok :: bool
  re_commit_ok :: bool
  re_xadd_ok :: "event \<Rightarrow> bool"
  re_mark_ok :: "int \<Rightarrow> bool"

text \<open>The state of the batch loop: table in the open transaction, stream, counters.\<close>

record batch_state =
  bs_tbl :: outbox_tbl
  bs_stream :: "event list"
  bs_errs :: nat
  bs_published :: nat

fun publish_rows :: "relay_env \<Rightarrow> outbox_row list \<Rightarrow> batch_state \<Rightarrow> (outbox_error option) \<times> batch_state" where
  "publish_rows env [] s = (None, s)"
| "publish_rows env (row # rows) s =
     (let ev = rowToEvent row in
      if \<not> re_xadd_ok env ev
      then publish_rows env rows (s\<lparr>bs_errs := bs_errs s + 1\<rparr>)
      else (let s1 = s\<lparr>bs_stream := bs_stream s @ [ev]\<rparr> in
            if \<not> re_mark_ok env (o_id row) then (Some (OutboxMark (o_id row)), s1)
            else publish_rows env rows
                   (s1\<lparr>bs_tbl := MarkPublished (re_now env) (o_id row) (bs_tbl s1),
                       bs_published := bs_published s1 + 1\<rparr>)))"

record relay =
  rl_tbl :: outbox_tbl
  rl_stream :: "event list"
  rl_pub :: publisher

text \<open>One cycle: result (error or number of rows published) and the state after it.\<close>

definition RunBatch :: "relay_env \<Rightarrow> relay \<Rightarrow> (outbox_error + nat) \<times> relay" where
  "RunBatch env s =
     (let s0 = s\<lparr>rl_pub := (rl_pub s)\<lparr>p_redisErrCount := 0\<rparr>\<rparr> in
      if \<not> re_begin_ok env then (Inl OutboxBegin, s0)
      else if \<not> re_fetch_ok env then (Inl OutboxFetch, s0)
      else (let rows = FetchUnpublished (p_batchSize (rl_pub s0)) (rl_tbl s0) in
            if rows = [] then (Inr 0, s0)
            else (case publish_rows env rows
                         \<lparr>bs_tbl = rl_tbl s0, bs_stream = rl_stream s0, bs_errs = 0, bs_published = 0\<rparr> of
                    (err, b) \<Rightarrow>
                      (let s1 = s0\<lparr>rl_stream := bs_stream b,
                                    rl_pub := (rl_pub s0)\<lparr>p_redisErrCount := bs_errs b\<rparr>\<rparr> in
                       (case err of
                          Some e \<Rightarrow> (Inl e, s1)
                        | None \<Rightarrow>
                            if re_commit_ok env then (Inr (bs_published b), s1\<lparr>rl_tbl := bs_tbl b\<rparr>)
                            else (Inl OutboxCommit, s1))))))"

definition updateBatchSize :: "publisher \<Rightarrow> publisher" where
  "updateBatchSize p =
     (if p_redisErrCount p > 0 then p\<lparr>p_batchSize := minBatchSize\<rparr>
      else (let next = p_batchSize p + p_batchSize p div 2 in
            p\<lparr>p_batchSize := (if next > maxBatchSize then maxBatchSize else next)\<rparr>))"

definition updateBackoff :: "publisher \<Rightarrow> publisher" where
  "updateBackoff p =
     (if p_redisErrCount p > 0
      then (if p_backoff p = 0 then p\<lparr>p_backoff := initialBackoff\<rparr>
            else (let b = wrap64 (p_backoff p * 2) in
                  p\<lparr>p_backoff := (if b > maxBackoff then maxBackoff else b)\<rparr>))
      else p\<lparr>p_backoff := 0\<rparr>)"

text \<open>One turn of \<^verbatim>\<open>Run\<close>: after a failed batch the sizes are left alone (\<^verbatim>\<open>continue\<close>).\<close>

definition Run_step :: "relay_env \<Rightarrow> relay \<Rightarrow> relay" where
  "Run_step env s =
     (case RunBatch env s of
        (Inl e, s1) \<Rightarrow> s1
      | (Inr n, s1) \<Rightarrow> s1\<lparr>rl_pub := updateBackoff (updateBatchSize (rl_pub s1))\<rparr>)"

text \<open>The wait before the next turn: the idle poll, the back-off, or nothing.\<close>

definition idlePollInterval :: int where "idlePollInterval = 5 * ns_per_sec"

definition Run_delay :: "outbox_error + nat \<Rightarrow> publisher \<Rightarrow> int" where
  "Run_delay res p =
     (case res of
        Inl e \<Rightarrow> idlePollInterval
      | Inr n \<Rightarrow> (if n = 0 then (if p_backoff p > idlePollInterval then p_backoff p else idlePollInterval)
                 else if p_backoff p > 0 then p_backoff p else 0))"

definition drainGraceful :: "relay_env \<Rightarrow> relay \<Rightarrow> relay" where
  "drainGraceful env s = snd (RunBatch env s)"

fun Run :: "relay_env list \<Rightarrow> relay_env \<Rightarrow> relay \<Rightarrow> relay" where
  "Run [] final s = drainGraceful final s"
| "Run (env # envs) final s = Run envs final (Run_step env s)"

section \<open>Well-formed tables and what a cycle keeps\<close>

definition outbox_ok :: "outbox_tbl \<Rightarrow> bool" where
  "outbox_ok t \<longleftrightarrow> fresh_ids o_id (ob_next t) (ob_rows t) \<and> distinct (map o_idempotency_key (ob_rows t))"

definition unpublished :: "outbox_tbl \<Rightarrow> outbox_row list" where
  "unpublished t = filter (\<lambda>r. o_published_at r = None) (ob_rows t)"

lemma FetchUnpublished_eq: "FetchUnpublished n t = take n (unpublished t)"
  by (simp add: FetchUnpublished_def unpublished_def)

lemma outbox_Insert_ok:
  assumes "outbox_ok t" "outbox_Insert now row t = Inr t'"
  shows "outbox_ok t'"
proof -
  have "o_idempotency_key row \<notin> o_idempotency_key ` set (ob_rows t)"
    using assms(2) by (auto simp: outbox_Insert_def find_None_iff2 split: if_splits)
  moreover have "t' = \<lparr>ob_rows = ob_rows t @
      [row\<lparr>o_id := ob_next t, o_created_at := now, o_published_at := None\<rparr>], ob_next = ob_next t + 1\<rparr>"
    using assms(2) by (simp add: outbox_Insert_def split: if_splits)
  ultimately show ?thesis
    using assms(1) by (auto simp: outbox_ok_def fresh_ids_append)
qed

lemma MarkPublished_ok: "outbox_ok (MarkPublished now i t) = outbox_ok t"
  by (simp add: outbox_ok_def MarkPublished_def fresh_ids_update map_update_where)

lemma rowToEvent_published [simp]: "rowToEvent (r\<lparr>o_published_at := p\<rparr>) = rowToEvent r"
  by (simp add: rowToEvent_def)

lemma MarkPublished_events: "map rowToEvent (ob_rows (MarkPublished now i t)) = map rowToEvent (ob_rows t)"
  by (simp add: MarkPublished_def map_update_where)

text \<open>
  The delivery invariant: what the table calls published is on the stream, and the stream holds
  nothing but events of rows.
\<close>

definition delivery_inv :: "outbox_tbl \<Rightarrow> event list \<Rightarrow> bool" where
  "delivery_inv t stream \<longleftrightarrow> outbox_ok t \<and>
     (\<forall>r \<in> set (ob_rows t). o_published_at r \<noteq> None \<longrightarrow> rowToEvent r \<in> set stream) \<and>
     set stream \<subseteq> rowToEvent ` set (ob_rows t)"

lemma delivery_inv_mark:
  assumes "delivery_inv t stream" "row \<in> set (ob_rows t)" "rowToEvent row \<in> set stream"
  shows "delivery_inv (MarkPublished now (o_id row) t) stream"
proof -
  have "distinct (map o_id (ob_rows t))"
    using assms(1) by (simp add: delivery_inv_def outbox_ok_def fresh_ids_def)
  then have same: "r = row" if "r \<in> set (ob_rows t)" "o_id r = o_id row" for r
    using that assms(2) by (auto simp: distinct_map dest: inj_onD)
  have pub: "rowToEvent r \<in> set stream"
    if "r \<in> set (ob_rows (MarkPublished now (o_id row) t))" "o_published_at r \<noteq> None" for r
    using that assms(1,3) same
    by (auto simp: MarkPublished_def set_update_where delivery_inv_def split: if_splits) metis
  have ev: "rowToEvent ` set (ob_rows (MarkPublished now (o_id row) t)) = rowToEvent ` set (ob_rows t)"
    using MarkPublished_events [of now "o_id row" t] by (metis set_map)
  show ?thesis
    using assms(1) pub unfolding delivery_inv_def ev MarkPublished_ok by blast
qed

lemma delivery_inv_append:
  "delivery_inv t stream \<Longrightarrow> row \<in> set (ob_rows t) \<Longrightarrow> delivery_inv t (stream @ [rowToEvent row])"
  by (auto simp: delivery_inv_def)

text \<open>Rows a cycle has fetched keep their identity while it marks others.\<close>

definition same_ids :: "outbox_row list \<Rightarrow> outbox_tbl \<Rightarrow> bool" where
  "same_ids rows t \<longleftrightarrow> (\<forall>row \<in> set rows. \<exists>r \<in> set (ob_rows t). o_id r = o_id row \<and> rowToEvent r = rowToEvent row)"

lemma same_ids_mark:
  assumes "same_ids rows t"
  shows "same_ids rows (MarkPublished now i t)"
  unfolding same_ids_def
proof
  fix row assume "row \<in> set rows"
  then obtain r where "r \<in> set (ob_rows t)" "o_id r = o_id row" "rowToEvent r = rowToEvent row"
    using assms by (auto simp: same_ids_def)
  then show "\<exists>r \<in> set (ob_rows (MarkPublished now i t)). o_id r = o_id row \<and> rowToEvent r = rowToEvent row"
    by (intro bexI [of _ "if o_id r = i then r\<lparr>o_published_at := Some now\<rparr> else r"])
      (auto simp: MarkPublished_def set_update_where)
qed

lemma publish_rows_inv:
  assumes "publish_rows env rows s = (err, s')" and "delivery_inv (bs_tbl s) (bs_stream s)"
    and "same_ids rows (bs_tbl s)"
  shows "delivery_inv (bs_tbl s') (bs_stream s') \<and> set (bs_stream s) \<subseteq> set (bs_stream s') \<and>
    rowToEvent ` set (ob_rows (bs_tbl s')) = rowToEvent ` set (ob_rows (bs_tbl s))"
  using assms
proof (induction rows arbitrary: s)
  case Nil
  then show ?case by simp
next
  case (Cons row rows)
  define s1 where "s1 = s\<lparr>bs_stream := bs_stream s @ [rowToEvent row]\<rparr>"
  define s2 where "s2 = s1\<lparr>bs_tbl := MarkPublished (re_now env) (o_id row) (bs_tbl s1),
    bs_published := bs_published s1 + 1\<rparr>"
  obtain r where r: "r \<in> set (ob_rows (bs_tbl s))" "o_id r = o_id row" "rowToEvent r = rowToEvent row"
    using Cons.prems(3) by (auto simp: same_ids_def)
  have rest: "same_ids rows (bs_tbl s)" using Cons.prems(3) by (simp add: same_ids_def)
  have i1: "delivery_inv (bs_tbl s1) (bs_stream s1)"
    using delivery_inv_append [OF Cons.prems(2) r(1)] r(3) by (simp add: s1_def)
  have i2: "delivery_inv (bs_tbl s2) (bs_stream s2)"
    using delivery_inv_mark [OF i1, of r] r by (simp add: s1_def s2_def)
  have e2: "rowToEvent ` set (ob_rows (bs_tbl s2)) = rowToEvent ` set (ob_rows (bs_tbl s))"
    using MarkPublished_events [of "re_now env" "o_id row" "bs_tbl s"]
    by (simp add: s1_def s2_def) (metis set_map)
  consider (skip) "\<not> re_xadd_ok env (rowToEvent row)"
    | (fail) "re_xadd_ok env (rowToEvent row)" "\<not> re_mark_ok env (o_id row)"
    | (mark) "re_xadd_ok env (rowToEvent row)" "re_mark_ok env (o_id row)" by blast
  then show ?case
  proof cases
    case skip
    then show ?thesis using Cons.IH [of "s\<lparr>bs_errs := bs_errs s + 1\<rparr>"] Cons.prems rest by (simp add: Let_def)
  next
    case fail
    then show ?thesis using Cons.prems(1) i1 by (auto simp: Let_def s1_def)
  next
    case mark
    then have "publish_rows env rows s2 = (err, s')"
      using Cons.prems(1) by (simp add: Let_def s1_def s2_def)
    moreover have "same_ids rows (bs_tbl s2)"
      using rest by (simp add: s1_def s2_def same_ids_mark)
    ultimately show ?thesis
      using Cons.IH [of s2] i2 e2 by (auto simp: s1_def s2_def)
  qed
qed

lemma same_ids_fetch: "same_ids (FetchUnpublished n t) t"
  unfolding same_ids_def FetchUnpublished_def using in_set_takeD by fastforce

text \<open>A rollback keeps the table: every fetched row is retried, and the stream only grew.\<close>

lemma RunBatch_delivery:
  assumes "RunBatch env s = (res, s')" "delivery_inv (rl_tbl s) (rl_stream s)"
  shows "delivery_inv (rl_tbl s') (rl_stream s')"
proof -
  define rows where "rows = FetchUnpublished (p_batchSize (rl_pub s)) (rl_tbl s)"
  define b0 where "b0 = \<lparr>bs_tbl = rl_tbl s, bs_stream = rl_stream s, bs_errs = 0, bs_published = 0\<rparr>"
  obtain err b where b: "publish_rows env rows b0 = (err, b)" by fastforce
  have pr: "delivery_inv (bs_tbl b) (bs_stream b) \<and> set (rl_stream s) \<subseteq> set (bs_stream b) \<and>
      rowToEvent ` set (ob_rows (bs_tbl b)) = rowToEvent ` set (ob_rows (rl_tbl s))"
    using publish_rows_inv [OF b] assms(2) same_ids_fetch by (simp add: b0_def rows_def)
  then have roll: "delivery_inv (rl_tbl s) (bs_stream b)"
    using assms(2) by (auto simp: delivery_inv_def)
  have "rl_tbl s' = rl_tbl s \<and> (rl_stream s' = rl_stream s \<or> rl_stream s' = bs_stream b)
      \<or> rl_tbl s' = bs_tbl b \<and> rl_stream s' = bs_stream b"
    using assms(1) b by (auto simp: RunBatch_def Let_def rows_def b0_def split: if_splits option.splits)
  then show ?thesis using pr roll assms(2) by auto
qed

section \<open>Clean cycles drain the table in order\<close>

definition clean_env :: "relay_env \<Rightarrow> bool" where
  "clean_env env \<longleftrightarrow> re_begin_ok env \<and> re_fetch_ok env \<and> re_commit_ok env \<and>
     re_xadd_ok env = (\<lambda>_. True) \<and> re_mark_ok env = (\<lambda>_. True)"

definition mark_all :: "instant \<Rightarrow> int list \<Rightarrow> outbox_tbl \<Rightarrow> outbox_tbl" where
  "mark_all now ids t = fold (MarkPublished now) ids t"

lemma publish_rows_clean:
  assumes "clean_env env"
  shows "publish_rows env rows s =
    (None, s\<lparr>bs_tbl := mark_all (re_now env) (map o_id rows) (bs_tbl s),
             bs_stream := bs_stream s @ map rowToEvent rows,
             bs_published := bs_published s + length rows\<rparr>)"
  using assms
  by (induction rows arbitrary: s) (simp_all add: clean_env_def Let_def mark_all_def)

lemma mark_all_ok: "outbox_ok (mark_all now ids t) = outbox_ok t"
  unfolding mark_all_def by (induction ids arbitrary: t) (simp_all add: MarkPublished_ok)

lemma unpublished_mark: "unpublished (MarkPublished now i t) = filter (\<lambda>r. o_id r \<noteq> i) (unpublished t)"
proof -
  have "filter (\<lambda>r. o_published_at r = None)
      (update_where (\<lambda>r. o_id r = i) (\<lambda>r. r\<lparr>o_published_at := Some now\<rparr>) rows) =
    filter (\<lambda>r. o_id r \<noteq> i) (filter (\<lambda>r. o_published_at r = None) rows)" for rows :: "outbox_row list"
    by (induction rows) auto
  then show ?thesis by (simp add: unpublished_def MarkPublished_def)
qed

lemma unpublished_mark_all:
  "unpublished (mark_all now ids t) = filter (\<lambda>r. o_id r \<notin> set ids) (unpublished t)"
  unfolding mark_all_def
  by (induction ids arbitrary: t) (simp_all add: unpublished_mark conj_commute)

lemma filter_notin_take:
  "distinct (map k xs) \<Longrightarrow> filter (\<lambda>x. k x \<notin> set (map k (take n xs))) xs = drop n xs"
proof (induction xs arbitrary: n)
  case Nil
  then show ?case by simp
next
  case (Cons x xs)
  show ?case
  proof (cases n)
    case 0
    then show ?thesis by simp
  next
    case (Suc m)
    have "filter (\<lambda>y. k y \<noteq> k x \<and> k y \<notin> set (map k (take m xs))) xs =
        filter (\<lambda>y. k y \<notin> set (map k (take m xs))) xs"
      using Cons.prems by (intro filter_cong) (auto simp: image_iff)
    then show ?thesis using Cons Suc by simp
  qed
qed

lemma distinct_unpublished: "outbox_ok t \<Longrightarrow> distinct (map o_id (unpublished t))"
  by (simp add: unpublished_def outbox_ok_def fresh_ids_def distinct_map_filter)

lemma RunBatch_clean:
  assumes "clean_env env" "outbox_ok (rl_tbl s)"
  defines "n \<equiv> p_batchSize (rl_pub s)"
  shows "\<exists>s'. RunBatch env s = (Inr (length (take n (unpublished (rl_tbl s)))), s') \<and>
    unpublished (rl_tbl s') = drop n (unpublished (rl_tbl s)) \<and>
    rl_stream s' = rl_stream s @ map rowToEvent (take n (unpublished (rl_tbl s))) \<and>
    outbox_ok (rl_tbl s') \<and> rl_pub s' = (rl_pub s)\<lparr>p_redisErrCount := 0\<rparr>"
proof (cases "take n (unpublished (rl_tbl s)) = []")
  case True
  moreover from this have "drop n (unpublished (rl_tbl s)) = unpublished (rl_tbl s)"
    by auto
  ultimately show ?thesis
    using assms by (auto simp: RunBatch_def clean_env_def FetchUnpublished_eq Let_def)
next
  case False
  then show ?thesis
    using assms publish_rows_clean [OF assms(1)]
      filter_notin_take [OF distinct_unpublished [OF assms(2)], of n]
    by (simp add: RunBatch_def clean_env_def FetchUnpublished_eq Let_def unpublished_mark_all mark_all_ok)
qed

section \<open>Adaptive batch size and back-off\<close>

definition publisher_ok :: "publisher \<Rightarrow> bool" where
  "publisher_ok p \<longleftrightarrow> minBatchSize \<le> p_batchSize p \<and> p_batchSize p \<le> maxBatchSize \<and>
     (p_backoff p = 0 \<or> initialBackoff \<le> p_backoff p \<and> p_backoff p \<le> maxBackoff)"

lemmas publisher_consts = minBatchSize_def maxBatchSize_def initialBackoff_def maxBackoff_def ns_per_sec_def

lemma publisher_ok_New: "publisher_ok NewPublisher"
  by (simp add: publisher_ok_def NewPublisher_def publisher_consts)

lemma updateBatchSize_ok: "publisher_ok p \<Longrightarrow> publisher_ok (updateBatchSize p)"
  by (auto simp: publisher_ok_def updateBatchSize_def Let_def publisher_consts)

lemma updateBackoff_ok: "publisher_ok p \<Longrightarrow> publisher_ok (updateBackoff p)"
proof -
  assume ok: "publisher_ok p"
  then have "wrap64 (p_backoff p * 2) = p_backoff p * 2"
    by (intro wrap64_id is_i64_small) (auto simp: publisher_ok_def publisher_consts)
  then show ?thesis using ok
    by (auto simp: publisher_ok_def updateBackoff_def Let_def publisher_consts)
qed

lemma RunBatch_publisher: "RunBatch env s = (res, s') \<Longrightarrow>
    p_batchSize (rl_pub s') = p_batchSize (rl_pub s) \<and> p_backoff (rl_pub s') = p_backoff (rl_pub s)"
  by (auto simp: RunBatch_def Let_def split: if_splits prod.splits option.splits)

lemma Run_step_publisher: "publisher_ok (rl_pub s) \<Longrightarrow> publisher_ok (rl_pub (Run_step env s))"
proof -
  assume ok: "publisher_ok (rl_pub s)"
  obtain res s1 where r: "RunBatch env s = (res, s1)" by fastforce
  then have "publisher_ok (rl_pub s1)"
    using RunBatch_publisher [OF r] ok by (simp add: publisher_ok_def)
  then show ?thesis
    by (simp add: Run_step_def r updateBackoff_ok updateBatchSize_ok split: sum.split)
qed

section \<open>Properties of the relay\<close>

lemma Run_step_delivery:
  assumes "delivery_inv (rl_tbl s) (rl_stream s)"
  shows "delivery_inv (rl_tbl (Run_step env s)) (rl_stream (Run_step env s))"
proof -
  obtain res s1 where r: "RunBatch env s = (res, s1)" by fastforce
  then show ?thesis
    using RunBatch_delivery [OF r assms] by (simp add: Run_step_def split: sum.split)
qed

text \<open>
  C18. Whatever Redis and Postgres answer during any number of cycles and the final drain, a row
  the relay has marked published is on the stream, the stream carries only events of outbox
  rows, and the table stays well formed: no event is lost by being marked without being sent.
\<close>

theorem Run_delivery:
  assumes "delivery_inv (rl_tbl s) (rl_stream s)"
  shows "delivery_inv (rl_tbl (Run envs final s)) (rl_stream (Run envs final s))"
  using assms
proof (induction envs arbitrary: s)
  case Nil
  then show ?case
    using RunBatch_delivery [of final s] by (simp add: drainGraceful_def) (metis prod.collapse)
next
  case (Cons env envs)
  then show ?case using Run_step_delivery by simp
qed

lemma Run_step_clean:
  assumes "clean_env env" "outbox_ok (rl_tbl s)"
  defines "n \<equiv> p_batchSize (rl_pub s)"
  shows "unpublished (rl_tbl (Run_step env s)) = drop n (unpublished (rl_tbl s)) \<and>
    rl_stream (Run_step env s) = rl_stream s @ map rowToEvent (take n (unpublished (rl_tbl s))) \<and>
    outbox_ok (rl_tbl (Run_step env s))"
  using RunBatch_clean [OF assms(1,2)] unfolding n_def by (auto simp: Run_step_def)

text \<open>
  Liveness and order: when no call fails, \<open>k\<close> cycles and the final drain publish any backlog of
  at most \<open>100 (k + 1)\<close> rows completely, each row exactly once and in id order.
\<close>

theorem Run_drains:
  assumes "\<forall>env \<in> set (final # envs). clean_env env" "outbox_ok (rl_tbl s)" "publisher_ok (rl_pub s)"
    and "length (unpublished (rl_tbl s)) \<le> minBatchSize * (length envs + 1)"
  shows "unpublished (rl_tbl (Run envs final s)) = [] \<and>
    rl_stream (Run envs final s) = rl_stream s @ map rowToEvent (unpublished (rl_tbl s))"
  using assms
proof (induction envs arbitrary: s)
  case Nil
  then have "length (unpublished (rl_tbl s)) \<le> p_batchSize (rl_pub s)"
    by (simp add: publisher_ok_def)
  then show ?case
    using RunBatch_clean [of final s] Nil by (auto simp: drainGraceful_def)
next
  case (Cons env envs)
  define n where "n = p_batchSize (rl_pub s)"
  define s1 where "s1 = Run_step env s"
  have step: "unpublished (rl_tbl s1) = drop n (unpublished (rl_tbl s))"
      "rl_stream s1 = rl_stream s @ map rowToEvent (take n (unpublished (rl_tbl s)))" "outbox_ok (rl_tbl s1)"
    using Run_step_clean [of env s] Cons.prems by (simp_all add: s1_def n_def)
  have "length (unpublished (rl_tbl s1)) \<le> minBatchSize * (length envs + 1)"
    using Cons.prems(3,4) by (auto simp: step n_def publisher_ok_def)
  then have "unpublished (rl_tbl (Run envs final s1)) = [] \<and>
      rl_stream (Run envs final s1) = rl_stream s1 @ map rowToEvent (unpublished (rl_tbl s1))"
    using Cons.prems Run_step_publisher step(3) by (intro Cons.IH) (simp_all add: s1_def)
  then show ?case
    using step(1,2) by (simp add: s1_def flip: map_append)
qed

text \<open>
  The adaptive sizes stay in range for ever: whatever fails, the batch size is between 100 and
  500 and the back-off is off or between one second and one minute (no 64-bit overflow when it
  doubles).
\<close>

theorem Run_publisher_bounds:
  "rl_pub s = NewPublisher \<Longrightarrow> publisher_ok (rl_pub (Run envs final s))"
proof -
  have "publisher_ok (rl_pub s) \<Longrightarrow> publisher_ok (rl_pub (Run envs final s))" for s
  proof (induction envs arbitrary: s)
    case Nil
    obtain res s1 where r: "RunBatch final s = (res, s1)" by fastforce
    then show ?case
      using RunBatch_publisher [OF r] Nil by (simp add: drainGraceful_def publisher_ok_def)
  next
    case (Cons env envs)
    then show ?case using Run_step_publisher by simp
  qed
  then show "rl_pub s = NewPublisher \<Longrightarrow> publisher_ok (rl_pub (Run envs final s))"
    using publisher_ok_New by simp
qed

text \<open>A concrete relay: two rows, a Redis that refuses the first one once, then a clean cycle.\<close>

definition row_ex :: "int \<Rightarrow> string \<Rightarrow> outbox_row" where
  "row_ex i k = \<lparr>o_id = i, o_aggregate = ''wallet'', o_event_type = ''fin.ledger.posted.v1'',
     o_payload = JNull, o_idempotency_key = k, o_trace_id = [], o_span_id = [], o_market = ''TR'',
     o_currency = ''TRY'', o_created_at = 0, o_published_at = None\<rparr>"

definition relay_ex :: relay where
  "relay_ex = \<lparr>rl_tbl = \<lparr>ob_rows = [row_ex 1 ''a'', row_ex 2 ''b''], ob_next = 3\<rparr>, rl_stream = [],
     rl_pub = NewPublisher\<rparr>"

definition clean_ex :: relay_env where
  "clean_ex = \<lparr>re_now = 5, re_begin_ok = True, re_fetch_ok = True, re_commit_ok = True,
     re_xadd_ok = (\<lambda>_. True), re_mark_ok = (\<lambda>_. True)\<rparr>"

definition flaky_ex :: relay_env where
  "flaky_ex = clean_ex\<lparr>re_xadd_ok := (\<lambda>ev. ev_id ev \<noteq> ''a'')\<rparr>"

lemmas relay_ex_defs = row_ex_def relay_ex_def clean_ex_def flaky_ex_def NewPublisher_def

lemma relay_ex_ok: "delivery_inv (rl_tbl relay_ex) (rl_stream relay_ex)"
  by (simp add: delivery_inv_def outbox_ok_def fresh_ids_def relay_ex_defs)

theorem Run_delivery_witness:
  "delivery_inv (rl_tbl (Run [flaky_ex] clean_ex relay_ex)) (rl_stream (Run [flaky_ex] clean_ex relay_ex))
   \<and> map ev_id (rl_stream (Run [flaky_ex] clean_ex relay_ex)) = [''b'', ''a'']"
  using Run_delivery [OF relay_ex_ok, of "[flaky_ex]" clean_ex]
  by (simp add: relay_ex_defs Run_step_def RunBatch_def drainGraceful_def FetchUnpublished_def Let_def
      MarkPublished_def updateBatchSize_def updateBackoff_def publisher_consts rowToEvent_def)

theorem Run_drains_witness:
  "unpublished (rl_tbl (Run [] clean_ex relay_ex)) = [] \<and>
   map ev_id (rl_stream (Run [] clean_ex relay_ex)) = [''a'', ''b'']"
proof -
  have "clean_env clean_ex" by (simp add: clean_env_def clean_ex_def)
  moreover have "outbox_ok (rl_tbl relay_ex)" using relay_ex_ok by (simp add: delivery_inv_def)
  moreover have "publisher_ok (rl_pub relay_ex)" using publisher_ok_New by (simp add: relay_ex_def)
  ultimately show ?thesis
    using Run_drains [of clean_ex "[]" relay_ex]
    by (simp add: unpublished_def relay_ex_defs minBatchSize_def rowToEvent_def)
qed

theorem Run_publisher_bounds_witness: "publisher_ok (rl_pub (Run [flaky_ex] clean_ex relay_ex))"
  using Run_publisher_bounds [of relay_ex "[flaky_ex]" clean_ex] by (simp add: relay_ex_def)

end
