(* ===== verification/Tx.thy ===== *)
theory Tx
  imports Prelude
begin

text \<open>
  Database transactions as the repositories run them. The body of a transaction maps the state it
  began on to an error or a result with a new state; it may also change a process-local part \<open>'c\<close>
  (a cache), which no rollback undoes. \<open>ok old new\<close> says whether the deferred constraints let COMMIT
  succeed. What the server does to each attempt is a list of outcomes, one per attempt; an empty
  list means that it interferes no more. A serialization failure (SQLSTATE 40001) is reported at
  COMMIT.

  The four \<^verbatim>\<open>WithTx\<close> of the ledger service are instances of \<open>with_retry\<close>: three attempts with
  COMMIT inside the loop (\<^verbatim>\<open>wallet\<close>, \<^verbatim>\<open>cashback\<close>), three attempts whose COMMIT is not
  retried (\<^verbatim>\<open>orderledger\<close>), and one attempt (\<^verbatim>\<open>sellerpayout\<close>, \<^verbatim>\<open>reconcile\<close>).
\<close>

datatype tx_outcome = TxOk | TxBeginFails | TxFnSerialization | TxCommitSerialization | TxCommitFails

datatype 'e tx_error = TxBegin | TxSerialization | TxCommit | TxFn 'e | TxMaxRetries

type_synonym ('s, 'c, 'e, 'a) tx_body = "'s \<Rightarrow> 'c \<Rightarrow> ('e + 'a \<times> 's) \<times> 'c"

definition next_outcome :: "tx_outcome list \<Rightarrow> tx_outcome" where
  "next_outcome outs = (case outs of [] \<Rightarrow> TxOk | x # xs \<Rightarrow> x)"

text \<open>
  \<open>retry_commit\<close>: whether a serialization failure at COMMIT starts another attempt. The first
  argument counts the attempts left; on the last one the failure itself is returned.
\<close>

fun with_retry :: "bool \<Rightarrow> nat \<Rightarrow> tx_outcome list \<Rightarrow> ('s \<Rightarrow> 's \<Rightarrow> bool) \<Rightarrow> ('s, 'c, 'e, 'a) tx_body
    \<Rightarrow> 's \<Rightarrow> 'c \<Rightarrow> ('e tx_error + 'a) \<times> 's \<times> 'c" where
  "with_retry rc 0 outs ok fn s c = (Inl TxMaxRetries, s, c)"
| "with_retry rc (Suc n) outs ok fn s c =
     (case next_outcome outs of
        TxBeginFails \<Rightarrow> (Inl TxBegin, s, c)
      | TxFnSerialization \<Rightarrow>
          (if n > 0 then with_retry rc n (tl outs) ok fn s c else (Inl TxSerialization, s, c))
      | out \<Rightarrow>
          (case fn s c of
             (Inl e, c') \<Rightarrow> (Inl (TxFn e), s, c')
           | (Inr (a, s'), c') \<Rightarrow>
               (if out = TxCommitSerialization
                then (if rc \<and> n > 0 then with_retry rc n (tl outs) ok fn s c' else (Inl TxSerialization, s, c'))
                else if out = TxCommitFails \<or> \<not> ok s s' then (Inl TxCommit, s, c')
                else (Inr a, s', c'))))"

declare with_retry.simps(2) [simp del]

text \<open>Atomicity: an error leaves the database as it was.\<close>

lemma with_retry_error:
  "with_retry rc n outs ok fn s c = (Inl e, s', c') \<Longrightarrow> s' = s"
proof (induction n arbitrary: outs c)
  case 0
  then show ?case by simp
next
  case (Suc n)
  then show ?case
    by (auto simp: with_retry.simps(2) split: tx_outcome.splits sum.splits prod.splits if_splits)
qed

text \<open>A success is one run of the body on the state the transaction began on, with its COMMIT.\<close>

lemma with_retry_success:
  "with_retry rc n outs ok fn s c = (Inr a, s', c') \<Longrightarrow> \<exists>c0. fn s c0 = (Inr (a, s'), c') \<and> ok s s'"
proof (induction n arbitrary: outs c)
  case 0
  then show ?case by simp
next
  case (Suc n)
  then show ?case
    by (auto simp: with_retry.simps(2) split: tx_outcome.splits sum.splits prod.splits if_splits)
qed

text \<open>An error of the body itself, not of the transaction machinery, was returned by some run.\<close>

lemma with_retry_fn_error:
  "with_retry rc n outs ok fn s c = (Inl (TxFn e), s', c') \<Longrightarrow> \<exists>c0. fn s c0 = (Inl e, c')"
proof (induction n arbitrary: outs c)
  case 0
  then show ?case by simp
next
  case (Suc n)
  then show ?case
    by (auto simp: with_retry.simps(2) split: tx_outcome.splits sum.splits prod.splits if_splits)
qed

text \<open>What every run keeps of the process-local part, the transaction keeps.\<close>

lemma with_retry_local:
  assumes "with_retry rc n outs ok fn s c = (res, s', c')" "P c"
    and "\<And>c r c'. P c \<Longrightarrow> fn s c = (r, c') \<Longrightarrow> P c'"
  shows "P c'"
  using assms(1,2)
proof (induction n arbitrary: outs c)
  case 0
  then show ?case by simp
next
  case (Suc n)
  show ?case
    using Suc.prems Suc.IH assms(3) [of c]
    by (auto simp: with_retry.simps(2) split: tx_outcome.splits sum.splits prod.splits if_splits)
qed

text \<open>When the server does not interfere, one attempt decides.\<close>

lemma with_retry_quiet:
  "with_retry rc (Suc n) [] ok fn s c =
     (case fn s c of
        (Inl e, c') \<Rightarrow> (Inl (TxFn e), s, c')
      | (Inr (a, s'), c') \<Rightarrow> if ok s s' then (Inr a, s', c') else (Inl TxCommit, s, c'))"
  by (simp add: with_retry.simps(2) next_outcome_def split: sum.split prod.split)

text \<open>The retry limit error is never returned: the last failed attempt returns its own error.\<close>

lemma with_retry_no_max:
  "0 < n \<Longrightarrow> fst (with_retry rc n outs ok fn s c) \<noteq> Inl TxMaxRetries"
proof (induction n arbitrary: outs c)
  case 0
  then show ?case by simp
next
  case (Suc n)
  then show ?case
    by (auto simp: with_retry.simps(2) split: tx_outcome.split sum.split prod.split)
qed

text \<open>Only the runs on the state the transaction began on matter.\<close>

lemma with_retry_cong:
  assumes "\<And>c. f s c = g s c"
  shows "with_retry rc n outs ok f s c = with_retry rc n outs ok g s c"
  by (induction n arbitrary: outs c)
    (auto simp: with_retry.simps(2) assms split: tx_outcome.split sum.split prod.split)


section \<open>A single attempt without deferred constraints\<close>

text \<open>
  The repositories of the shop database run a body once; an error of the machinery is wrapped by \<open>wrap\<close> into
  the errors of the package.
\<close>

definition one_tx :: "('e tx_error \<Rightarrow> 'e) \<Rightarrow> tx_outcome list \<Rightarrow> ('s \<Rightarrow> 'e + 'a \<times> 's) \<Rightarrow> 's \<Rightarrow> ('e + 'a) \<times> 's" where
  "one_tx wrap outs fn s =
     (case with_retry False 1 outs (\<lambda>_ _. True) (\<lambda>tx u. (fn tx, u)) s () of
        (Inl e, s', _) \<Rightarrow> (Inl (wrap e), s')
      | (Inr a, s', _) \<Rightarrow> (Inr a, s'))"

lemma one_tx_cases:
  assumes "one_tx wrap outs fn s = (res, s')"
  obtains (error) e where "res = Inl (wrap e)" "s' = s" | (commit) a where "res = Inr a" "fn s = Inr (a, s')"
proof -
  obtain x y z where w: "with_retry False 1 outs (\<lambda>_ _. True) (\<lambda>tx u. (fn tx, u)) s () = (x, y, z)" by (metis prod_cases3)
  show thesis
  proof (cases x)
    case (Inl e)
    then show ?thesis using w assms with_retry_error [of False 1 outs "\<lambda>_ _. True" "\<lambda>tx u. (fn tx, u)" s "()"] error
      by (auto simp: one_tx_def)
  next
    case (Inr a)
    then show ?thesis using w assms with_retry_success [of False 1 outs "\<lambda>_ _. True" "\<lambda>tx u. (fn tx, u)" s "()"] commit
      by (auto simp: one_tx_def)
  qed
qed

lemma one_tx_quiet: "one_tx wrap [] fn s = (case fn s of Inl e \<Rightarrow> (Inl (wrap (TxFn e)), s) | Inr (a, s') \<Rightarrow> (Inr a, s'))"
  by (simp add: one_tx_def with_retry_quiet One_nat_def split: sum.split)

end
