(* ===== verification/Wallet.thy ===== *)
theory Wallet
  imports Outbox Tx
begin

text \<open>
  The double-entry ledger: \<^verbatim>\<open>internal/ledger\<close> (types) and \<^verbatim>\<open>internal/wallet\<close> (service and
  repository), with the constraints of \<^verbatim>\<open>deploy/postgres-ledger/init/40-42\<close> and \<^verbatim>\<open>67\<close>.

  A \<open>wallet_db\<close> is the content of \<^verbatim>\<open>wallet_schema\<close>. A transaction is a function from the database
  it began on to an error or a new database; \<open>commit_ok\<close> is what the deferred constraint trigger
  \<^verbatim>\<open>enforce_double_entry\<close> checks at COMMIT, and an aborted transaction (a failed statement outside a
  savepoint) cannot commit. The read-only cache lives in the process, not in the database: it is
  the record \<open>wcache\<close>, and a rollback does not undo it. A sequence that skips values after a
  rollback is not represented; ids are only compared.
\<close>

section \<open>Ledger types\<close>

record entry =
  e_AccountID :: int
  e_Direction :: string
  e_AmountMinor :: int

abbreviation Debit :: string where "Debit \<equiv> ''D''"
abbreviation Credit :: string where "Credit \<equiv> ''C''"

record post_input =
  pi_Type :: string
  pi_Reference :: string
  pi_FxPairID :: string
  pi_IdempotencyKey :: string
  pi_Market :: string
  pi_Currency :: string
  pi_Entries :: "entry list"
  pi_EventType :: string
  pi_Metadata :: "(string \<times> string) list"

record transaction =
  t_Type :: string
  t_Reference :: string
  t_FxPairID :: string
  t_IdempotencyKey :: string

record account =
  acct_ID :: int
  acct_Type :: string
  acct_OwnerType :: string
  acct_OwnerID :: "int option"
  acct_Currency :: string
  acct_Status :: string
  acct_CreatedAt :: instant

section \<open>The ledger database\<close>

record txn_row =
  x_id :: int
  x_type :: string
  x_reference :: "string option"
  x_fx_pair_id :: "string option"
  x_idempotency_key :: string

record entry_row =
  l_id :: int
  l_transaction_id :: int
  l_account_id :: int
  l_direction :: string
  l_amount_minor :: int
  l_created_at :: instant

record system_state =
  ss_ReadOnly :: bool
  ss_ReadOnlyReason :: "string option"
  ss_ReadOnlySince :: "instant option"

record wallet_db =
  db_accounts :: "account list"
  db_next_account :: int
  db_transactions :: "txn_row list"
  db_next_txn :: int
  db_entries :: "entry_row list"
  db_next_entry :: int
  db_outbox :: outbox_tbl
  db_balances :: "(int \<times> int) list"
  db_system_state :: "system_state option"
  db_aborted :: bool

record wcache =
  sysReadOnly :: bool
  sysRefreshedAt :: instant

text \<open>What the environment decides: the clock, and whether the read of \<^verbatim>\<open>system_state\<close> fails.\<close>

record wenv =
  we_now :: instant
  we_outbox_configured :: bool
  we_state_read_ok :: bool

datatype wallet_error =
    ErrIdempotencyKeyRequired
  | ErrInvalidAmount
  | ErrCurrencyRequired
  | ErrCurrencyMismatch
  | ErrAccountNotFound
  | ErrSystemReadOnly
  | ErrOutboxNotConfigured
  | ErrDuplicateIdempotency
  | ErrConstraint

section \<open>Repository\<close>

text \<open>
  \<^verbatim>\<open>InsertTransaction\<close> runs under a savepoint: on a unique violation the transaction is as it was.
\<close>

definition null_if_empty :: "string \<Rightarrow> string option" where
  "null_if_empty s = (if s = [] then None else Some s)"

definition InsertTransaction :: "transaction \<Rightarrow> wallet_db \<Rightarrow> wallet_error + int \<times> wallet_db" where
  "InsertTransaction txn db =
     (if List.find (\<lambda>x. x_idempotency_key x = t_IdempotencyKey txn) (db_transactions db) \<noteq> None
      then Inl ErrDuplicateIdempotency
      else Inr (db_next_txn db,
                db\<lparr>db_transactions := db_transactions db @
                     [\<lparr>x_id = db_next_txn db, x_type = t_Type txn,
                       x_reference = null_if_empty (t_Reference txn),
                       x_fx_pair_id = null_if_empty (t_FxPairID txn),
                       x_idempotency_key = t_IdempotencyKey txn\<rparr>],
                   db_next_txn := db_next_txn db + 1\<rparr>))"

text \<open>Read from the pool, that is from what is committed, not from the open transaction.\<close>

definition GetTransactionByIdempotencyKey :: "wallet_db \<Rightarrow> string \<Rightarrow> wallet_error + int" where
  "GetTransactionByIdempotencyKey pool key =
     (case List.find (\<lambda>x. x_idempotency_key x = key) (db_transactions pool) of
        None \<Rightarrow> Inl ErrAccountNotFound
      | Some x \<Rightarrow> Inr (x_id x))"

definition InsertEntry :: "instant \<Rightarrow> int \<Rightarrow> entry \<Rightarrow> wallet_db \<Rightarrow> wallet_error + wallet_db" where
  "InsertEntry now txnID e db =
     (if List.find (\<lambda>x. x_id x = txnID) (db_transactions db) = None
         \<or> List.find (\<lambda>a. acct_ID a = e_AccountID e) (db_accounts db) = None
         \<or> \<not> (e_Direction e = Debit \<or> e_Direction e = Credit) \<or> e_AmountMinor e \<le> 0
      then Inl ErrConstraint
      else Inr (db\<lparr>db_entries := db_entries db @
                     [\<lparr>l_id = db_next_entry db, l_transaction_id = txnID, l_account_id = e_AccountID e,
                       l_direction = e_Direction e, l_amount_minor = e_AmountMinor e,
                       l_created_at = now\<rparr>],
                   db_next_entry := db_next_entry db + 1\<rparr>))"

definition GetAccountCurrencies :: "wallet_db \<Rightarrow> int list \<Rightarrow> int \<rightharpoonup> string" where
  "GetAccountCurrencies db ids =
     (\<lambda>i. if i \<in> set ids
           then map_option acct_Currency (List.find (\<lambda>a. acct_ID a = i) (db_accounts db)) else None)"

definition FindAccountByType :: "wallet_db \<Rightarrow> string \<Rightarrow> string \<Rightarrow> wallet_error + account" where
  "FindAccountByType db ty cur =
     (case List.find (\<lambda>a. acct_Type a = ty \<and> acct_Currency a = cur \<and>
              acct_OwnerType a = ''platform'' \<and> acct_OwnerID a = None) (db_accounts db) of
        None \<Rightarrow> Inl ErrAccountNotFound
      | Some a \<Rightarrow> Inr a)"

definition FindAccountByOwner :: "wallet_db \<Rightarrow> string \<Rightarrow> int \<Rightarrow> string \<Rightarrow> wallet_error + account" where
  "FindAccountByOwner db ownerType ownerID cur =
     (case List.find (\<lambda>a. acct_OwnerType a = ownerType \<and> acct_OwnerID a = Some ownerID \<and>
              acct_Currency a = cur \<and> acct_Status a = ''active'') (db_accounts db) of
        None \<Rightarrow> Inl ErrAccountNotFound
      | Some a \<Rightarrow> Inr a)"

definition repo_FindAccountByOwnerAnyStatus ::
    "wallet_db \<Rightarrow> string \<Rightarrow> int \<Rightarrow> string \<Rightarrow> wallet_error + account" where
  "repo_FindAccountByOwnerAnyStatus db ownerType ownerID cur =
     (case List.find (\<lambda>a. acct_OwnerType a = ownerType \<and> acct_OwnerID a = Some ownerID \<and>
              acct_Currency a = cur) (db_accounts db) of
        None \<Rightarrow> Inl ErrAccountNotFound
      | Some a \<Rightarrow> Inr a)"

definition GetAccount :: "wallet_db \<Rightarrow> int \<Rightarrow> wallet_error + account" where
  "GetAccount db i =
     (case List.find (\<lambda>a. acct_ID a = i) (db_accounts db) of
        None \<Rightarrow> Inl ErrAccountNotFound
      | Some a \<Rightarrow> Inr a)"

text \<open>
  \<^verbatim>\<open>ON CONFLICT (type, owner_type, owner_id, currency) WHERE owner_id IS NOT NULL DO NOTHING\<close>:
  a conflict returns id 0. A platform row (no owner) that repeats \<^verbatim>\<open>(type, currency)\<close> violates the
  other unique index.
\<close>

definition InsertAccount :: "instant \<Rightarrow> account \<Rightarrow> wallet_db \<Rightarrow> wallet_error + int \<times> wallet_db" where
  "InsertAccount now acct db =
     (if acct_OwnerID acct \<noteq> None \<and>
         List.find (\<lambda>a. acct_Type a = acct_Type acct \<and> acct_OwnerType a = acct_OwnerType acct \<and>
            acct_OwnerID a = acct_OwnerID acct \<and> acct_Currency a = acct_Currency acct) (db_accounts db) \<noteq> None
      then Inr (0, db)
      else if acct_OwnerID acct = None \<and> acct_OwnerType acct = ''platform'' \<and>
         List.find (\<lambda>a. acct_Type a = acct_Type acct \<and> acct_OwnerType a = ''platform'' \<and>
            acct_OwnerID a = None \<and> acct_Currency a = acct_Currency acct) (db_accounts db) \<noteq> None
      then Inl ErrConstraint
      else Inr (db_next_account db,
                db\<lparr>db_accounts := db_accounts db @ [acct\<lparr>acct_ID := db_next_account db, acct_CreatedAt := now\<rparr>],
                   db_next_account := db_next_account db + 1\<rparr>))"

text \<open>Signed amount of an entry: credits count up, everything else down.\<close>

definition signed_amount :: "entry_row \<Rightarrow> int" where
  "signed_amount e = (if l_direction e = Credit then l_amount_minor e else - l_amount_minor e)"

definition GetBalanceStrict :: "wallet_db \<Rightarrow> int \<Rightarrow> int" where
  "GetBalanceStrict db i =
     sum_list (map signed_amount (filter (\<lambda>e. l_account_id e = i) (db_entries db)))"

definition GetBalanceMV :: "wallet_db \<Rightarrow> int \<Rightarrow> int" where
  "GetBalanceMV db i = (case map_of (db_balances db) i of None \<Rightarrow> 0 | Some b \<Rightarrow> b)"

text \<open>\<^verbatim>\<open>REFRESH MATERIALIZED VIEW\<close>: one row per account, left-joined with its entries.\<close>

definition refresh :: "wallet_db \<Rightarrow> wallet_db" where
  "refresh db = db\<lparr>db_balances := map (\<lambda>a. (acct_ID a, GetBalanceStrict db (acct_ID a))) (db_accounts db)\<rparr>"

definition GetSystemState :: "wenv \<Rightarrow> wallet_db \<Rightarrow> wallet_error + system_state" where
  "GetSystemState env db =
     (if \<not> we_state_read_ok env then Inl ErrConstraint
      else Inr (case db_system_state db of
                  None \<Rightarrow> \<lparr>ss_ReadOnly = False, ss_ReadOnlyReason = None, ss_ReadOnlySince = None\<rparr>
                | Some st \<Rightarrow> st))"

text \<open>An UPDATE of the row with id 1: no row, no effect.\<close>

definition SetSystemState :: "instant \<Rightarrow> bool \<Rightarrow> string \<Rightarrow> wallet_db \<Rightarrow> wallet_db" where
  "SetSystemState now readOnly reason db =
     db\<lparr>db_system_state := map_option
          (\<lambda>st. st\<lparr>ss_ReadOnly := readOnly,
                   ss_ReadOnlyReason := (if readOnly then Some reason else None),
                   ss_ReadOnlySince := (if readOnly then Some now else None)\<rparr>) (db_system_state db)\<rparr>"

record ledger_entry_view =
  lv_ID :: int
  lv_AmountMinor :: int
  lv_Direction :: string
  lv_CreatedAt :: instant
  lv_TxnType :: string
  lv_TxnReference :: string

text \<open>Newest first, an inner join with the parent transaction, a cursor and a limit.\<close>

definition ListEntriesByAccount :: "wallet_db \<Rightarrow> int \<Rightarrow> nat \<Rightarrow> int \<Rightarrow> ledger_entry_view list" where
  "ListEntriesByAccount db accountID limit beforeID =
     take limit (List.map_filter
       (\<lambda>e. if l_account_id e = accountID \<and> (beforeID = 0 \<or> l_id e < beforeID)
             then map_option (\<lambda>x. \<lparr>lv_ID = l_id e, lv_AmountMinor = l_amount_minor e,
                    lv_Direction = l_direction e, lv_CreatedAt = l_created_at e, lv_TxnType = x_type x,
                    lv_TxnReference = (case x_reference x of None \<Rightarrow> [] | Some r \<Rightarrow> r)\<rparr>)
                  (List.find (\<lambda>x. x_id x = l_transaction_id e) (db_transactions db))
             else None)
       (rev (db_entries db)))"

section \<open>COMMIT and \<^verbatim>\<open>WithTx\<close>\<close>

definition acct_currency :: "wallet_db \<Rightarrow> int \<Rightarrow> string option" where
  "acct_currency db i = map_option acct_Currency (List.find (\<lambda>a. acct_ID a = i) (db_accounts db))"

definition txn_entries :: "wallet_db \<Rightarrow> int \<Rightarrow> entry_row list" where
  "txn_entries db t = filter (\<lambda>e. l_transaction_id e = t) (db_entries db)"

definition side_total :: "string \<Rightarrow> entry_row list \<Rightarrow> int" where
  "side_total d es = sum_list (map l_amount_minor (filter (\<lambda>e. l_direction e = d) es))"

text \<open>
  The trigger function: one currency per transaction, then equal totals. The totals are assigned to
  \<^verbatim>\<open>BIGINT\<close> variables, so a total out of range is an error too.
\<close>

definition enforce_double_entry :: "wallet_db \<Rightarrow> int \<Rightarrow> bool" where
  "enforce_double_entry db t \<longleftrightarrow>
     length (remdups (map (\<lambda>e. acct_currency db (l_account_id e)) (txn_entries db t))) \<le> 1 \<and>
     is_i64 (side_total Debit (txn_entries db t)) \<and> is_i64 (side_total Credit (txn_entries db t)) \<and>
     side_total Debit (txn_entries db t) = side_total Credit (txn_entries db t)"

text \<open>The trigger fires once for every row inserted since the transaction began.\<close>

definition commit_ok :: "wallet_db \<Rightarrow> wallet_db \<Rightarrow> bool" where
  "commit_ok old new \<longleftrightarrow> \<not> db_aborted new \<and>
     list_all (\<lambda>e. enforce_double_entry new (l_transaction_id e)) (drop (length (db_entries old)) (db_entries new))"

definition wallet_WithTx :: "tx_outcome list \<Rightarrow> (wallet_db, 'c, wallet_error, 'a) tx_body
    \<Rightarrow> wallet_db \<Rightarrow> 'c \<Rightarrow> (wallet_error tx_error + 'a) \<times> wallet_db \<times> 'c" where
  "wallet_WithTx outs fn db c = with_retry True 3 outs commit_ok fn db c"

section \<open>Service\<close>

definition sysStateTTL :: int where
  "sysStateTTL = 10 * ns_per_sec"

definition checkReadOnly :: "wenv \<Rightarrow> wallet_db \<Rightarrow> wcache \<Rightarrow> wallet_error option \<times> wcache" where
  "checkReadOnly env db c =
     (if we_now env - sysRefreshedAt c < sysStateTTL
      then (if sysReadOnly c then Some ErrSystemReadOnly else None, c)
      else (case GetSystemState env db of
              Inl e \<Rightarrow> (None, c)
            | Inr st \<Rightarrow> (if ss_ReadOnly st then Some ErrSystemReadOnly else None,
                         \<lparr>sysReadOnly = ss_ReadOnly st, sysRefreshedAt = we_now env\<rparr>)))"

definition outboxAggregate :: "string \<Rightarrow> string" where
  "outboxAggregate ty =
     (if ty = ''cashback_payment'' then ''cashback''
      else if ty = ''seller_payout'' then ''sellerpayout'' else ''wallet'')"

definition outboxEventType :: "string \<Rightarrow> string" where
  "outboxEventType ty =
     (if ty = ''cashback_payment'' then ''fin.cashback.payment.posted.v1''
      else if ty = ''seller_payout'' then ''fin.seller.payout.batch.paid.v1''
      else ''fin.ledger.posted.v1'')"

text \<open>\<^verbatim>\<open>json.Marshal(in)\<close>: exported field names, the two tagged fields omitted when empty.\<close>

definition entry_json :: "entry \<Rightarrow> json" where
  "entry_json e = JObj [(''AccountID'', JInt (e_AccountID e)), (''Direction'', JStr (e_Direction e)),
     (''AmountMinor'', JInt (e_AmountMinor e))]"

definition post_input_json :: "post_input \<Rightarrow> json" where
  "post_input_json i = JObj (
     [(''Type'', JStr (pi_Type i)), (''Reference'', JStr (pi_Reference i)), (''FxPairID'', JStr (pi_FxPairID i)),
      (''IdempotencyKey'', JStr (pi_IdempotencyKey i)), (''Market'', JStr (pi_Market i)),
      (''Currency'', JStr (pi_Currency i)), (''Entries'', JArr (map entry_json (pi_Entries i)))] @
     (if pi_EventType i = [] then [] else [(''event_type'', JStr (pi_EventType i))]) @
     (if pi_Metadata i = [] then [] else
        [(''metadata'', JObj (map (\<lambda>(k, v). (k, JStr v)) (pi_Metadata i)))]))"

text \<open>The validation loop over the entries, in order.\<close>

fun validate_entries :: "entry list \<Rightarrow> wallet_error option" where
  "validate_entries [] = None"
| "validate_entries (e # es) =
     (if e_AmountMinor e \<le> 0 then Some ErrInvalidAmount
      else if e_Direction e \<noteq> Debit \<and> e_Direction e \<noteq> Credit then Some ErrInvalidAmount
      else validate_entries es)"

fun check_currencies :: "(int \<rightharpoonup> string) \<Rightarrow> string \<Rightarrow> int list \<Rightarrow> wallet_error option" where
  "check_currencies m cur [] = None"
| "check_currencies m cur (i # is) =
     (case m i of
        None \<Rightarrow> Some ErrAccountNotFound
      | Some c \<Rightarrow> if c \<noteq> cur then Some ErrCurrencyMismatch else check_currencies m cur is)"

definition post_outbox_row :: "post_input \<Rightarrow> outbox_row" where
  "post_outbox_row i =
     \<lparr>o_id = 0, o_aggregate = outboxAggregate (pi_Type i),
      o_event_type = (if pi_EventType i \<noteq> [] then pi_EventType i else outboxEventType (pi_Type i)),
      o_payload = post_input_json i, o_idempotency_key = pi_IdempotencyKey i, o_trace_id = [],
      o_span_id = [], o_market = pi_Market i, o_currency = pi_Currency i, o_created_at = 0,
      o_published_at = None\<rparr>"

text \<open>
  \<^verbatim>\<open>PostInTx\<close> after the guards of step 0. A duplicate key in the outbox is swallowed by the code,
  but the failed statement has aborted the transaction.
\<close>

definition post_body :: "wenv \<Rightarrow> wallet_db \<Rightarrow> post_input \<Rightarrow> wallet_db \<Rightarrow> wallet_error + int \<times> wallet_db" where
  "post_body env pool i db =
     (if pi_IdempotencyKey i = [] then Inl ErrIdempotencyKeyRequired
      else if pi_Currency i = [] then Inl ErrCurrencyRequired
      else if length (pi_Entries i) < 2 then Inl ErrInvalidAmount
      else (case validate_entries (pi_Entries i) of
        Some e \<Rightarrow> Inl e
      | None \<Rightarrow>
          (let acctIDs = map e_AccountID (pi_Entries i);
               currencies = GetAccountCurrencies db acctIDs in
           (case check_currencies currencies (pi_Currency i) acctIDs of
              Some e \<Rightarrow> Inl e
            | None \<Rightarrow>
                (case InsertTransaction \<lparr>t_Type = pi_Type i, t_Reference = pi_Reference i,
                        t_FxPairID = pi_FxPairID i, t_IdempotencyKey = pi_IdempotencyKey i\<rparr> db of
                   Inl ErrDuplicateIdempotency \<Rightarrow>
                     (case GetTransactionByIdempotencyKey pool (pi_IdempotencyKey i) of
                        Inl e \<Rightarrow> Inl e
                      | Inr existing \<Rightarrow> Inr (existing, db))
                 | Inl e \<Rightarrow> Inl e
                 | Inr (txnID, db1) \<Rightarrow>
                     (case for_each (InsertEntry (we_now env) txnID) (pi_Entries i) db1 of
                        Inl e \<Rightarrow> Inl e
                      | Inr db2 \<Rightarrow>
                          (case outbox_Insert (we_now env) (post_outbox_row i) (db_outbox db2) of
                             Inl e \<Rightarrow> Inr (txnID, db2\<lparr>db_aborted := True\<rparr>)
                           | Inr ob \<Rightarrow> Inr (txnID, db2\<lparr>db_outbox := ob\<rparr>))))))))"

definition PostInTx :: "wenv \<Rightarrow> wallet_db \<Rightarrow> post_input \<Rightarrow> (wallet_db, wcache, wallet_error, int) tx_body" where
  "PostInTx env pool i db c =
     (if \<not> we_outbox_configured env then (Inl ErrOutboxNotConfigured, c)
      else (case checkReadOnly env db c of
              (Some e, c') \<Rightarrow> (Inl e, c')
            | (None, c') \<Rightarrow> (post_body env pool i db, c')))"

text \<open>
  \<^verbatim>\<open>Post\<close>: its own transaction. What the pool sees is the state the transaction began on.
\<close>

definition Post :: "wenv \<Rightarrow> tx_outcome list \<Rightarrow> post_input \<Rightarrow> wallet_db \<Rightarrow> wcache
    \<Rightarrow> (wallet_error tx_error + int) \<times> wallet_db \<times> wcache" where
  "Post env outs i db c = wallet_WithTx outs (\<lambda>tx c. PostInTx env db i tx c) db c"

definition FindAccount :: "wallet_db \<Rightarrow> string \<Rightarrow> string \<Rightarrow> wallet_error + int" where
  "FindAccount db ty cur = map_sum id acct_ID (FindAccountByType db ty cur)"

definition new_account :: "string \<Rightarrow> string \<Rightarrow> int \<Rightarrow> string \<Rightarrow> account" where
  "new_account accountType ownerType ownerID cur =
     \<lparr>acct_ID = 0, acct_Type = accountType, acct_OwnerType = ownerType, acct_OwnerID = Some ownerID,
      acct_Currency = cur, acct_Status = ''active'', acct_CreatedAt = 0\<rparr>"

text \<open>The transaction of the slow path touches no cache.\<close>

definition insert_account_body :: "wenv \<Rightarrow> account \<Rightarrow> (wallet_db, unit, wallet_error, int) tx_body" where
  "insert_account_body env acct db c = (InsertAccount (we_now env) acct db, c)"

definition openOrFind :: "wenv \<Rightarrow> tx_outcome list \<Rightarrow> string \<Rightarrow> string \<Rightarrow> int \<Rightarrow> string \<Rightarrow> wallet_db
    \<Rightarrow> (wallet_error tx_error + int) \<times> wallet_db" where
  "openOrFind env outs accountType ownerType ownerID cur db =
     (case FindAccountByOwner db ownerType ownerID cur of
        Inr acct \<Rightarrow> (Inr (acct_ID acct), db)
      | Inl e \<Rightarrow>
          if e \<noteq> ErrAccountNotFound then (Inl (TxFn e), db)
          else (case wallet_WithTx outs (insert_account_body env (new_account accountType ownerType ownerID cur)) db () of
                  (Inl ie, db', _) \<Rightarrow> (Inl ie, db')
                | (Inr newID, db', _) \<Rightarrow>
                    if newID > 0 then (Inr newID, db')
                    else (case FindAccountByOwner db' ownerType ownerID cur of
                            Inl e \<Rightarrow> (Inl (TxFn e), db')
                          | Inr acct \<Rightarrow> (Inr (acct_ID acct), db'))))"

definition OpenOrFindUserWallet :: "wenv \<Rightarrow> tx_outcome list \<Rightarrow> int \<Rightarrow> string \<Rightarrow> wallet_db
    \<Rightarrow> (wallet_error tx_error + int) \<times> wallet_db" where
  "OpenOrFindUserWallet env outs userID cur db =
     openOrFind env outs ''liability:wallet:user'' ''user'' userID cur db"

definition FindOrOpenSellerPayable :: "wenv \<Rightarrow> tx_outcome list \<Rightarrow> int \<Rightarrow> string \<Rightarrow> wallet_db
    \<Rightarrow> (wallet_error tx_error + int) \<times> wallet_db" where
  "FindOrOpenSellerPayable env outs sellerID cur db =
     openOrFind env outs ''liability:payable:seller'' ''seller'' sellerID cur db"

definition FindAccountByOwnerAnyStatus :: "wallet_db \<Rightarrow> string \<Rightarrow> int \<Rightarrow> string \<Rightarrow> wallet_error + int \<times> string" where
  "FindAccountByOwnerAnyStatus db ownerType ownerID cur =
     (case repo_FindAccountByOwnerAnyStatus db ownerType ownerID cur of
        Inl e \<Rightarrow> if e = ErrAccountNotFound then Inr (0, []) else Inl e
      | Inr acct \<Rightarrow> Inr (acct_ID acct, acct_Status acct))"

text \<open>One tick of the background refresher, and the operations of the read-only switch.\<close>

definition refresher_tick :: "wenv \<Rightarrow> wallet_db \<Rightarrow> wcache \<Rightarrow> wcache" where
  "refresher_tick env db c =
     (case GetSystemState env db of
        Inl e \<Rightarrow> c
      | Inr st \<Rightarrow> \<lparr>sysReadOnly = ss_ReadOnly st, sysRefreshedAt = we_now env\<rparr>)"

definition SetReadOnly :: "wenv \<Rightarrow> string \<Rightarrow> wallet_db \<Rightarrow> wcache \<Rightarrow> wallet_db \<times> wcache" where
  "SetReadOnly env reason db c =
     (SetSystemState (we_now env) True reason db, \<lparr>sysReadOnly = True, sysRefreshedAt = we_now env\<rparr>)"

definition ClearReadOnly :: "wenv \<Rightarrow> wallet_db \<Rightarrow> wcache \<Rightarrow> wallet_db \<times> wcache" where
  "ClearReadOnly env db c =
     (SetSystemState (we_now env) False [] db, \<lparr>sysReadOnly = False, sysRefreshedAt = we_now env\<rparr>)"

definition InvalidateReadOnlyCache :: "wcache \<Rightarrow> wcache" where
  "InvalidateReadOnlyCache c = c\<lparr>sysRefreshedAt := 0\<rparr>"

section \<open>The effect of a posting\<close>

fun mk_entries :: "instant \<Rightarrow> int \<Rightarrow> int \<Rightarrow> entry list \<Rightarrow> entry_row list" where
  "mk_entries now t n [] = []"
| "mk_entries now t n (e # es) =
     \<lparr>l_id = n, l_transaction_id = t, l_account_id = e_AccountID e, l_direction = e_Direction e,
      l_amount_minor = e_AmountMinor e, l_created_at = now\<rparr> # mk_entries now t (n + 1) es"

definition entry_ok :: "wallet_db \<Rightarrow> entry \<Rightarrow> bool" where
  "entry_ok db e \<longleftrightarrow> acct_currency db (e_AccountID e) \<noteq> None \<and>
     (e_Direction e = Debit \<or> e_Direction e = Credit) \<and> 0 < e_AmountMinor e"

lemma for_each_InsertEntry:
  assumes "for_each (InsertEntry now t) es db = Inr db'"
  shows "db' = db\<lparr>db_entries := db_entries db @ mk_entries now t (db_next_entry db) es,
      db_next_entry := db_next_entry db + int (length es)\<rparr> \<and> (\<forall>e \<in> set es. entry_ok db e)"
  using assms
proof (induction es arbitrary: db)
  case Nil
  then show ?case by simp
next
  case (Cons e es)
  then obtain db1 where db1: "InsertEntry now t e db = Inr db1" "for_each (InsertEntry now t) es db1 = Inr db'"
    by (auto split: sum.splits)
  then have "entry_ok db e" "\<And>x. entry_ok db1 x = entry_ok db x"
    by (auto simp: InsertEntry_def entry_ok_def acct_currency_def split: if_splits)
  then show ?case
    using Cons.IH [OF db1(2)] db1(1) by (auto simp: InsertEntry_def add.assoc split: if_splits)
qed

lemma set_mk_entries:
  "e \<in> set (mk_entries now t n es) \<Longrightarrow> l_transaction_id e = t \<and> n \<le> l_id e \<and> l_id e < n + int (length es) \<and>
     (\<exists>x \<in> set es. l_account_id e = e_AccountID x \<and> l_direction e = e_Direction x \<and> l_amount_minor e = e_AmountMinor x)"
  by (induction es arbitrary: n) fastforce+

lemma length_mk_entries [simp]: "length (mk_entries now t n es) = length es"
  by (induction es arbitrary: n) simp_all

lemma distinct_mk_entries: "distinct (map l_id (mk_entries now t n es))"
  by (induction es arbitrary: n) (use set_mk_entries in fastforce)+

text \<open>The legs of a posting: account and signed amount.\<close>

definition pi_legs :: "post_input \<Rightarrow> (int \<times> int) list" where
  "pi_legs i = map (\<lambda>e. (e_AccountID e, if e_Direction e = Credit then e_AmountMinor e else - e_AmountMinor e)) (pi_Entries i)"

definition leg_sum :: "(int \<times> int) list \<Rightarrow> int \<Rightarrow> int" where
  "leg_sum legs a = sum_list (map snd (filter (\<lambda>l. fst l = a) legs))"

lemma legs_mk_entries:
  "map (\<lambda>e. (l_account_id e, signed_amount e)) (mk_entries now t n es) =
   map (\<lambda>e. (e_AccountID e, if e_Direction e = Credit then e_AmountMinor e else - e_AmountMinor e)) es"
  by (induction es arbitrary: n) (simp_all add: signed_amount_def)

lemma leg_sum_entries:
  "sum_list (map signed_amount (filter (\<lambda>e. l_account_id e = a) es)) =
   leg_sum (map (\<lambda>e. (l_account_id e, signed_amount e)) es) a"
  by (induction es) (simp_all add: leg_sum_def)

text \<open>The database after a new posting.\<close>

definition posted_db :: "wenv \<Rightarrow> post_input \<Rightarrow> outbox_tbl \<Rightarrow> wallet_db \<Rightarrow> wallet_db" where
  "posted_db env i ob db =
     db\<lparr>db_transactions := db_transactions db @
          [\<lparr>x_id = db_next_txn db, x_type = pi_Type i, x_reference = null_if_empty (pi_Reference i),
            x_fx_pair_id = null_if_empty (pi_FxPairID i), x_idempotency_key = pi_IdempotencyKey i\<rparr>],
        db_next_txn := db_next_txn db + 1,
        db_entries := db_entries db @ mk_entries (we_now env) (db_next_txn db) (db_next_entry db) (pi_Entries i),
        db_next_entry := db_next_entry db + int (length (pi_Entries i)), db_outbox := ob\<rparr>"

definition posted :: "wallet_db \<Rightarrow> string \<Rightarrow> int option" where
  "posted db k = map_option x_id (List.find (\<lambda>x. x_idempotency_key x = k) (db_transactions db))"

lemma check_currencies_None:
  "check_currencies (GetAccountCurrencies db ids) cur is = None \<Longrightarrow> i \<in> set is \<Longrightarrow> acct_currency db i = Some cur"
  by (induction "is") (auto simp: GetAccountCurrencies_def acct_currency_def split: option.splits if_splits)

text \<open>A successful body either replays a key the pool knows, or appends a new transaction.\<close>

lemma post_body_cases:
  assumes "post_body env pool i db = Inr (t, db')"
  obtains (replay) "posted db (pi_IdempotencyKey i) \<noteq> None" "posted pool (pi_IdempotencyKey i) = Some t" "db' = db"
  | (new) ob where "posted db (pi_IdempotencyKey i) = None" "t = db_next_txn db" "db' = posted_db env i ob db"
      "outbox_Insert (we_now env) (post_outbox_row i) (db_outbox db) = Inr ob"
      "\<forall>e \<in> set (pi_Entries i). entry_ok db e"
      "\<forall>e \<in> set (pi_Entries i). acct_currency db (e_AccountID e) = Some (pi_Currency i)"
      "2 \<le> length (pi_Entries i)" "pi_IdempotencyKey i \<noteq> []"
  | (aborted) "db_aborted db'" "posted db (pi_IdempotencyKey i) = None"
proof -
  define ids where "ids = map e_AccountID (pi_Entries i)"
  define txn where "txn = \<lparr>t_Type = pi_Type i, t_Reference = pi_Reference i, t_FxPairID = pi_FxPairID i,
    t_IdempotencyKey = pi_IdempotencyKey i\<rparr>"
  have guards: "pi_IdempotencyKey i \<noteq> []" "2 \<le> length (pi_Entries i)"
      "check_currencies (GetAccountCurrencies db ids) (pi_Currency i) ids = None"
    using assms by (auto simp: post_body_def Let_def ids_def split: if_splits option.splits)
  have curs: "\<forall>e \<in> set (pi_Entries i). acct_currency db (e_AccountID e) = Some (pi_Currency i)"
    using check_currencies_None [OF guards(3)] by (simp add: ids_def)
  have rest: "(case InsertTransaction txn db of
       Inl ErrDuplicateIdempotency \<Rightarrow>
         (case GetTransactionByIdempotencyKey pool (pi_IdempotencyKey i) of
            Inl e \<Rightarrow> Inl e | Inr existing \<Rightarrow> Inr (existing, db))
     | Inl e \<Rightarrow> Inl e
     | Inr (txnID, db1) \<Rightarrow>
         (case for_each (InsertEntry (we_now env) txnID) (pi_Entries i) db1 of
            Inl e \<Rightarrow> Inl e
          | Inr db2 \<Rightarrow>
              (case outbox_Insert (we_now env) (post_outbox_row i) (db_outbox db2) of
                 Inl e \<Rightarrow> Inr (txnID, db2\<lparr>db_aborted := True\<rparr>)
               | Inr ob \<Rightarrow> Inr (txnID, db2\<lparr>db_outbox := ob\<rparr>)))) = Inr (t, db')"
    using assms by (auto simp: post_body_def Let_def txn_def split: if_splits option.splits)
  show thesis
  proof (cases "InsertTransaction txn db")
    case (Inl e)
    then have "posted db (pi_IdempotencyKey i) \<noteq> None" "e = ErrDuplicateIdempotency"
      by (auto simp: InsertTransaction_def posted_def txn_def split: if_splits)
    then show thesis
      using rest Inl replay
      by (auto simp: GetTransactionByIdempotencyKey_def posted_def split: option.splits)
  next
    case (Inr p)
    obtain db1 where p: "p = (db_next_txn db, db1)" and none: "posted db (pi_IdempotencyKey i) = None"
      and db1: "db1 = db\<lparr>db_transactions := db_transactions db @
          [\<lparr>x_id = db_next_txn db, x_type = pi_Type i, x_reference = null_if_empty (pi_Reference i),
            x_fx_pair_id = null_if_empty (pi_FxPairID i), x_idempotency_key = pi_IdempotencyKey i\<rparr>],
        db_next_txn := db_next_txn db + 1\<rparr>"
      using Inr by (auto simp: InsertTransaction_def posted_def txn_def split: if_splits)
    then obtain db2 where db2: "for_each (InsertEntry (we_now env) (db_next_txn db)) (pi_Entries i) db1 = Inr db2"
      and out: "(case outbox_Insert (we_now env) (post_outbox_row i) (db_outbox db2) of
          Inl e \<Rightarrow> Inr (db_next_txn db, db2\<lparr>db_aborted := True\<rparr>)
        | Inr ob \<Rightarrow> Inr (db_next_txn db, db2\<lparr>db_outbox := ob\<rparr>)) = (Inr (t, db') :: wallet_error + _)"
      using rest Inr by (auto split: sum.splits)
    note eff = for_each_InsertEntry [OF db2]
    have ok: "\<forall>e \<in> set (pi_Entries i). entry_ok db e"
      using eff by (simp add: entry_ok_def acct_currency_def db1)
    have "db_outbox db2 = db_outbox db" using eff by (simp add: db1)
    then show thesis
      using out eff none curs guards ok new aborted
      by (auto simp: posted_db_def db1 split: sum.splits)
  qed
qed

section \<open>The ledger invariant\<close>

definition entry_row_ok :: "wallet_db \<Rightarrow> entry_row \<Rightarrow> bool" where
  "entry_row_ok db e \<longleftrightarrow> l_transaction_id e \<in> x_id ` set (db_transactions db) \<and>
     acct_currency db (l_account_id e) \<noteq> None \<and>
     (l_direction e = Debit \<or> l_direction e = Credit) \<and> 0 < l_amount_minor e"

text \<open>Net of all entries on accounts of one currency: the trial balance of that currency.\<close>

definition currency_total :: "wallet_db \<Rightarrow> string \<Rightarrow> int" where
  "currency_total db cur =
     sum_list (map signed_amount (filter (\<lambda>e. acct_currency db (l_account_id e) = Some cur) (db_entries db)))"

definition wallet_inv :: "wallet_db \<Rightarrow> bool" where
  "wallet_inv db \<longleftrightarrow>
     fresh_ids acct_ID (db_next_account db) (db_accounts db) \<and>
     fresh_ids x_id (db_next_txn db) (db_transactions db) \<and>
     fresh_ids l_id (db_next_entry db) (db_entries db) \<and>
     distinct (map x_idempotency_key (db_transactions db)) \<and>
     (\<forall>e \<in> set (db_entries db). entry_row_ok db e) \<and>
     (\<forall>x \<in> set (db_transactions db). enforce_double_entry db (x_id x)) \<and>
     (\<forall>cur. currency_total db cur = 0) \<and>
     outbox_ok (db_outbox db) \<and>
     (\<forall>x \<in> set (db_transactions db). \<exists>r \<in> set (ob_rows (db_outbox db)). o_idempotency_key r = x_idempotency_key x) \<and>
     \<not> db_aborted db"

lemma acct_currency_posted [simp]: "acct_currency (posted_db env i ob db) = acct_currency db"
  by (simp add: fun_eq_iff acct_currency_def posted_db_def)

lemma signed_sides:
  "\<forall>e \<in> set es. l_direction e = Debit \<or> l_direction e = Credit \<Longrightarrow>
     sum_list (map signed_amount es) = side_total Credit es - side_total Debit es"
  by (induction es) (auto simp: side_total_def signed_amount_def)

lemma fresh_ids_append_list:
  assumes "fresh_ids k n rows" "distinct (map k new)" "\<forall>r \<in> set new. n \<le> k r \<and> k r < m" "n \<le> m"
  shows "fresh_ids k m (rows @ new)"
  using assms by (fastforce simp: fresh_ids_def)

lemma txn_entries_old:
  "wallet_inv db \<Longrightarrow> t \<in> x_id ` set (db_transactions db) \<Longrightarrow> txn_entries (posted_db env i ob db) t = txn_entries db t"
  by (auto simp: txn_entries_def posted_db_def filter_empty_conv wallet_inv_def fresh_ids_def
      dest!: set_mk_entries)

lemma txn_entries_new:
  assumes "wallet_inv db"
  shows "txn_entries (posted_db env i ob db) (db_next_txn db) =
    mk_entries (we_now env) (db_next_txn db) (db_next_entry db) (pi_Entries i)"
proof -
  have "l_transaction_id e \<noteq> db_next_txn db" if "e \<in> set (db_entries db)" for e
  proof -
    have "l_transaction_id e \<in> x_id ` set (db_transactions db)"
      using assms that by (simp add: wallet_inv_def entry_row_ok_def)
    then show ?thesis using assms by (auto simp: wallet_inv_def fresh_ids_def)
  qed
  then show ?thesis
    by (auto simp: txn_entries_def posted_db_def filter_empty_conv filter_id_conv dest: set_mk_entries)
qed

text \<open>At COMMIT the trigger has seen the new transaction, so its legs cancel.\<close>

lemma commit_ok_new:
  assumes "wallet_inv db" "commit_ok db (posted_db env i ob db)" "2 \<le> length (pi_Entries i)"
  shows "enforce_double_entry (posted_db env i ob db) (db_next_txn db)"
proof -
  let ?new = "mk_entries (we_now env) (db_next_txn db) (db_next_entry db) (pi_Entries i)"
  have "?new \<noteq> []" using assms(3) by (cases "pi_Entries i") auto
  then obtain e where "e \<in> set ?new" by (meson ex_in_conv set_empty)
  then show ?thesis
    using assms(2) set_mk_entries by (fastforce simp: commit_ok_def posted_db_def list_all_iff)
qed

lemma legs_cancel:
  assumes "wallet_inv db" "commit_ok db (posted_db env i ob db)" "2 \<le> length (pi_Entries i)"
    and "\<forall>e \<in> set (pi_Entries i). entry_ok db e"
  shows "sum_list (map signed_amount (mk_entries (we_now env) (db_next_txn db) (db_next_entry db) (pi_Entries i))) = 0"
proof -
  let ?new = "mk_entries (we_now env) (db_next_txn db) (db_next_entry db) (pi_Entries i)"
  have "\<forall>e \<in> set ?new. l_direction e = Debit \<or> l_direction e = Credit"
    using assms(4) set_mk_entries by (fastforce simp: entry_ok_def)
  then show ?thesis
    using commit_ok_new [OF assms(1-3)] txn_entries_new [OF assms(1), of env i ob] signed_sides [of ?new]
    by (simp add: enforce_double_entry_def)
qed

lemma currency_total_posted:
  assumes "wallet_inv db" "commit_ok db (posted_db env i ob db)" "2 \<le> length (pi_Entries i)"
    and "\<forall>e \<in> set (pi_Entries i). entry_ok db e"
    and "\<forall>e \<in> set (pi_Entries i). acct_currency db (e_AccountID e) = Some (pi_Currency i)"
  shows "currency_total (posted_db env i ob db) cur = currency_total db cur"
proof -
  let ?new = "mk_entries (we_now env) (db_next_txn db) (db_next_entry db) (pi_Entries i)"
  have "\<forall>e \<in> set ?new. acct_currency db (l_account_id e) = Some (pi_Currency i)"
    using assms(5) set_mk_entries by fastforce
  then have "filter (\<lambda>e. acct_currency db (l_account_id e) = Some cur) ?new = (if cur = pi_Currency i then ?new else [])"
    by (auto simp: filter_empty_conv filter_id_conv)
  then show ?thesis
    using legs_cancel [OF assms(1-4)]
    by (simp add: currency_total_def) (simp add: posted_db_def)
qed

lemma outbox_Insert_rows:
  "outbox_Insert now row t = Inr t' \<Longrightarrow> ob_rows t' = ob_rows t @
     [row\<lparr>o_id := ob_next t, o_created_at := now, o_published_at := None\<rparr>]"
  by (auto simp: outbox_Insert_def split: if_splits)

lemma posted_inv:
  assumes inv: "wallet_inv db" and commit: "commit_ok db (posted_db env i ob db)"
    and ob: "outbox_Insert (we_now env) (post_outbox_row i) (db_outbox db) = Inr ob"
    and none: "posted db (pi_IdempotencyKey i) = None" and len: "2 \<le> length (pi_Entries i)"
    and ok: "\<forall>e \<in> set (pi_Entries i). entry_ok db e"
    and cur: "\<forall>e \<in> set (pi_Entries i). acct_currency db (e_AccountID e) = Some (pi_Currency i)"
  shows "wallet_inv (posted_db env i ob db)"
proof -
  let ?db' = "posted_db env i ob db"
  let ?new = "mk_entries (we_now env) (db_next_txn db) (db_next_entry db) (pi_Entries i)"
  have key: "pi_IdempotencyKey i \<notin> x_idempotency_key ` set (db_transactions db)"
    using none by (auto simp: posted_def find_None_iff2)
  have "fresh_ids l_id (db_next_entry ?db') (db_entries ?db')"
    using inv set_mk_entries
    by (auto simp: posted_db_def wallet_inv_def distinct_mk_entries intro!: fresh_ids_append_list)
  moreover have "fresh_ids x_id (db_next_txn ?db') (db_transactions ?db')"
    using inv by (simp add: posted_db_def wallet_inv_def fresh_ids_append)
  moreover have "distinct (map x_idempotency_key (db_transactions ?db'))"
    using inv key by (auto simp: posted_db_def wallet_inv_def)
  moreover have "entry_row_ok ?db' e" if "e \<in> set (db_entries ?db')" for e
  proof -
    have t: "x_id ` set (db_transactions ?db') = insert (db_next_txn db) (x_id ` set (db_transactions db))"
      by (simp add: posted_db_def)
    have "\<forall>e \<in> set (db_entries db). entry_row_ok db e" using inv by (simp add: wallet_inv_def)
    moreover have "e \<in> set (db_entries db) \<or> e \<in> set ?new" using that by (simp add: posted_db_def)
    ultimately show ?thesis
      using ok by (auto simp: entry_row_ok_def t entry_ok_def dest!: set_mk_entries)
  qed
  moreover have "enforce_double_entry ?db' (x_id x)" if "x \<in> set (db_transactions ?db')" for x
  proof (cases "x \<in> set (db_transactions db)")
    case True
    then show ?thesis
      using inv txn_entries_old [OF inv, of "x_id x" env i ob]
      by (simp add: enforce_double_entry_def wallet_inv_def)
  next
    case False
    then have "x_id x = db_next_txn db" using that by (simp add: posted_db_def)
    then show ?thesis using commit_ok_new [OF inv commit len] by simp
  qed
  moreover have "currency_total ?db' c = 0" for c
    using currency_total_posted [OF inv commit len ok cur] inv by (simp add: wallet_inv_def)
  moreover have "outbox_ok (db_outbox ?db')"
    using outbox_Insert_ok [OF _ ob] inv by (simp add: posted_db_def wallet_inv_def)
  moreover have "\<exists>r \<in> set (ob_rows (db_outbox ?db')). o_idempotency_key r = x_idempotency_key x"
    if "x \<in> set (db_transactions ?db')" for x
    using that inv outbox_Insert_rows [OF ob]
    by (auto simp: posted_db_def wallet_inv_def post_outbox_row_def)
  moreover have "fresh_ids acct_ID (db_next_account ?db') (db_accounts ?db') \<and> \<not> db_aborted ?db'"
    using inv by (simp add: posted_db_def wallet_inv_def)
  ultimately show ?thesis by (simp add: wallet_inv_def)
qed

lemma GetBalanceStrict_posted:
  "GetBalanceStrict (posted_db env i ob db) a = GetBalanceStrict db a + leg_sum (pi_legs i) a"
  using leg_sum_entries [of a "mk_entries (we_now env) (db_next_txn db) (db_next_entry db) (pi_Entries i)"]
  by (simp add: GetBalanceStrict_def posted_db_def pi_legs_def legs_mk_entries)

lemma posted_posted_db: "posted db (pi_IdempotencyKey i) = None \<Longrightarrow>
    posted (posted_db env i ob db) = (posted db)(pi_IdempotencyKey i \<mapsto> db_next_txn db)"
  by (auto simp: fun_eq_iff posted_def posted_db_def find_append split: option.splits)

lemma pi_legs_cancel:
  assumes "wallet_inv db" "commit_ok db (posted_db env i ob db)" "2 \<le> length (pi_Entries i)"
    and "\<forall>e \<in> set (pi_Entries i). entry_ok db e"
  shows "sum_list (map snd (pi_legs i)) = 0"
proof -
  have "map snd (pi_legs i) =
      map signed_amount (mk_entries (we_now env) (db_next_txn db) (db_next_entry db) (pi_Entries i))"
    using arg_cong [OF legs_mk_entries [of "we_now env" "db_next_txn db" "db_next_entry db" "pi_Entries i"], of "map snd"]
    by (simp add: pi_legs_def comp_def)
  then show ?thesis using legs_cancel [OF assms] by simp
qed

section \<open>The ledger as an interface\<close>

text \<open>
  What an engine relies on when it posts inside its own transaction: a posting whose key is
  unknown and whose transaction commits moves every account by its legs and records the key; a
  known key returns the original id and changes nothing; legs cancel; the invariant is kept.
\<close>

locale tx_ledger =
  fixes inv :: "'s \<Rightarrow> bool"
    and bal :: "'s \<Rightarrow> int \<Rightarrow> int"
    and posted_as :: "'s \<Rightarrow> 'k \<Rightarrow> int option"
    and key :: "'i \<Rightarrow> 'k"
    and legs :: "'i \<Rightarrow> (int \<times> int) list"
    and ok :: "'s \<Rightarrow> 's \<Rightarrow> bool"
    and post :: "'i \<Rightarrow> 's \<Rightarrow> 'c \<Rightarrow> ('e + int \<times> 's) \<times> 'c"
  assumes post_inv: "inv s \<Longrightarrow> post i s c = (Inr (t, s'), c') \<Longrightarrow> ok s s' \<Longrightarrow> inv s'"
    and post_replay: "inv s \<Longrightarrow> posted_as s (key i) = Some t0 \<Longrightarrow> post i s c = (Inr (t, s'), c') \<Longrightarrow> t = t0 \<and> s' = s"
    and post_new: "inv s \<Longrightarrow> posted_as s (key i) = None \<Longrightarrow> post i s c = (Inr (t, s'), c') \<Longrightarrow> ok s s' \<Longrightarrow>
      posted_as s' = (posted_as s)(key i \<mapsto> t) \<and> bal s' = (\<lambda>a. bal s a + leg_sum (legs i) a) \<and>
      sum_list (map snd (legs i)) = 0"
begin

text \<open>Two committed postings with the same key count once.\<close>

lemma post_twice:
  assumes "inv s" "post i s c = (Inr (t, s1), c1)" "ok s s1" "post j s1 c2 = (Inr (u, s2), c3)" "key j = key i"
  shows "u = t \<and> s2 = s1"
proof (cases "posted_as s (key i)")
  case None
  then have "posted_as s1 (key j) = Some t" using post_new [OF assms(1) None assms(2,3)] assms(5) by simp
  then show ?thesis using post_replay [OF post_inv [OF assms(1-3)] _ assms(4)] by simp
next
  case (Some t0)
  then have "t = t0 \<and> s1 = s" using post_replay [OF assms(1) Some assms(2)] by simp
  then show ?thesis using post_replay [OF assms(1), of j t0] Some assms(4,5) by auto
qed

text \<open>Money is conserved: a posting changes the total over any set that holds its accounts by nothing.\<close>

lemma leg_sum_total: "finite A \<Longrightarrow> fst ` set ls \<subseteq> A \<Longrightarrow> (\<Sum>a \<in> A. leg_sum ls a) = sum_list (map snd ls)"
proof (induction ls)
  case Nil
  then show ?case by (simp add: leg_sum_def)
next
  case (Cons l ls)
  have "(\<Sum>a \<in> A. leg_sum (l # ls) a) = (\<Sum>a \<in> A. (if a = fst l then snd l else 0) + leg_sum ls a)"
    by (rule sum.cong) (auto simp: leg_sum_def)
  also have "\<dots> = snd l + (\<Sum>a \<in> A. leg_sum ls a)"
    using Cons.prems by (simp add: sum.distrib)
  finally show ?case using Cons by simp
qed

lemma post_conserves:
  assumes "inv s" "post i s c = (Inr (t, s'), c')" "ok s s'" "finite A" "fst ` set (legs i) \<subseteq> A"
  shows "sum (bal s') A = sum (bal s) A"
proof (cases "posted_as s (key i)")
  case None
  then show ?thesis
    using post_new [OF assms(1) None assms(2,3)] leg_sum_total [OF assms(4,5)] by (simp add: sum.distrib)
next
  case (Some t0)
  then show ?thesis using post_replay [OF assms(1) Some assms(2)] by simp
qed

text \<open>A key once recorded stays recorded with its transaction.\<close>

lemma post_keeps_posted:
  assumes "inv s" "post i s c = (Inr (t, s'), c')" "ok s s'" "posted_as s k = Some u"
  shows "posted_as s' k = Some u"
proof (cases "posted_as s (key i)")
  case None
  then have "k \<noteq> key i" using assms(4) by auto
  then show ?thesis using post_new [OF assms(1) None assms(2,3)] assms(4) by simp
next
  case (Some t0)
  then show ?thesis using post_replay [OF assms(1) Some assms(2)] assms(4) by simp
qed

text \<open>The result of a committed posting is the recorded transaction of its key.\<close>

lemma post_recorded:
  assumes "inv s" "post i s c = (Inr (t, s'), c')" "ok s s'"
  shows "posted_as s' (key i) = Some t"
proof (cases "posted_as s (key i)")
  case None
  then show ?thesis using post_new [OF assms(1) None assms(2,3)] by simp
next
  case (Some t0)
  then show ?thesis using post_replay [OF assms(1) Some assms(2)] by simp
qed

text \<open>The same posting in a transaction of its own, with any interference and retries.\<close>

lemma retried_post:
  assumes "inv s" "with_retry rc n outs ok (post i) s c = (r, s', c')"
  shows "inv s' \<and> (case r of
      Inl e \<Rightarrow> s' = s
    | Inr t \<Rightarrow> posted_as s' (key i) = Some t \<and> (posted_as s (key i) \<noteq> None \<longrightarrow> s' = s) \<and>
        (posted_as s (key i) = None \<longrightarrow> bal s' = (\<lambda>a. bal s a + leg_sum (legs i) a)))"
proof (cases r)
  case (Inl e)
  then show ?thesis using assms with_retry_error by fastforce
next
  case (Inr t)
  then obtain c0 where c0: "post i s c0 = (Inr (t, s'), c')" "ok s s'"
    using with_retry_success assms(2) by metis
  then show ?thesis
    using Inr post_inv [OF assms(1) c0] post_recorded [OF assms(1) c0] post_replay [OF assms(1) _ c0(1)]
      post_new [OF assms(1) _ c0] by auto
qed

end

text \<open>\<^verbatim>\<open>PostInTx\<close> when no other session commits in between: the pool sees what the transaction began on.\<close>

definition PostInTx_seq :: "wenv \<Rightarrow> post_input \<Rightarrow> (wallet_db, wcache, wallet_error, int) tx_body" where
  "PostInTx_seq env i db c = PostInTx env db i db c"

lemma PostInTx_seq_body:
  "PostInTx_seq env i db c = (Inr (t, db'), c') \<Longrightarrow> post_body env db i db = Inr (t, db')"
  by (auto simp: PostInTx_seq_def PostInTx_def split: if_splits option.splits prod.splits)

interpretation wl: tx_ledger wallet_inv GetBalanceStrict posted pi_IdempotencyKey pi_legs commit_ok "PostInTx_seq env"
  for env
proof
  fix s i c t s' c'
  assume inv: "wallet_inv s" and p: "PostInTx_seq env i s c = (Inr (t, s'), c')" and ok: "commit_ok s s'"
  from PostInTx_seq_body [OF p] show "wallet_inv s'"
    by (rule post_body_cases) (use inv ok posted_inv in \<open>auto simp: commit_ok_def\<close>)
next
  fix s i t0 c t s' c'
  assume inv: "wallet_inv s" and k: "posted s (pi_IdempotencyKey i) = Some t0"
    and p: "PostInTx_seq env i s c = (Inr (t, s'), c')"
  from PostInTx_seq_body [OF p] show "t = t0 \<and> s' = s"
    by (rule post_body_cases) (use k in auto)
next
  fix s i c t s' c'
  assume inv: "wallet_inv s" and k: "posted s (pi_IdempotencyKey i) = None"
    and p: "PostInTx_seq env i s c = (Inr (t, s'), c')" and ok: "commit_ok s s'"
  from PostInTx_seq_body [OF p]
  show "posted s' = (posted s)(pi_IdempotencyKey i \<mapsto> t) \<and>
      GetBalanceStrict s' = (\<lambda>a. GetBalanceStrict s a + leg_sum (pi_legs i) a) \<and> sum_list (map snd (pi_legs i)) = 0"
    by (rule post_body_cases)
      (use k inv ok posted_posted_db pi_legs_cancel in \<open>auto simp: GetBalanceStrict_posted fun_eq_iff commit_ok_def\<close>)
qed

section \<open>Accounts\<close>

lemma wallet_inv_accounts:
  assumes "wallet_inv db" "acct_ID a = db_next_account db"
  shows "wallet_inv (db\<lparr>db_accounts := db_accounts db @ [a], db_next_account := db_next_account db + 1\<rparr>)"
proof -
  let ?db' = "db\<lparr>db_accounts := db_accounts db @ [a], db_next_account := db_next_account db + 1\<rparr>"
  have same: "acct_currency ?db' (l_account_id e) = acct_currency db (l_account_id e)" if "e \<in> set (db_entries db)" for e
    using assms(1) that
    by (auto simp: wallet_inv_def entry_row_ok_def acct_currency_def find_append split: option.splits)
  have "currency_total ?db' cur = currency_total db cur" for cur
    using same by (auto simp: currency_total_def cong: filter_cong)
  moreover have "enforce_double_entry ?db' t = enforce_double_entry db t" for t
  proof -
    have "map (\<lambda>e. acct_currency ?db' (l_account_id e)) (txn_entries ?db' t) =
        map (\<lambda>e. acct_currency db (l_account_id e)) (txn_entries db t)"
      using same by (auto simp: txn_entries_def)
    then show ?thesis by (simp add: enforce_double_entry_def) (simp add: txn_entries_def)
  qed
  moreover have "entry_row_ok ?db' e" if "e \<in> set (db_entries db)" for e
    using assms(1) that same [OF that] by (simp add: wallet_inv_def entry_row_ok_def)
  ultimately show ?thesis
    using assms by (simp add: wallet_inv_def fresh_ids_append)
qed

lemma InsertAccount_inv: "wallet_inv db \<Longrightarrow> InsertAccount now a db = Inr (i, db') \<Longrightarrow> wallet_inv db'"
  using wallet_inv_accounts by (auto simp: InsertAccount_def split: if_splits)

lemma insert_account_tx:
  assumes "wallet_WithTx outs (insert_account_body env acct) db () = (r, db', u)"
  shows "(\<exists>e. r = Inl e \<and> db' = db) \<or> (\<exists>i. r = Inr i \<and> InsertAccount (we_now env) acct db = Inr (i, db'))"
proof (cases r)
  case (Inl e)
  then show ?thesis using assms with_retry_error by (fastforce simp: wallet_WithTx_def)
next
  case (Inr i)
  then show ?thesis
    using assms with_retry_success unfolding wallet_WithTx_def insert_account_body_def by fastforce
qed

lemma openOrFind_cases:
  assumes "openOrFind env outs ty oty oid cur db = (r, db')"
  obtains (found) a where "FindAccountByOwner db oty oid cur = Inr a" "r = Inr (acct_ID a)" "db' = db"
  | (failed) e where "FindAccountByOwner db oty oid cur = Inl ErrAccountNotFound" "r = Inl e" "db' = db"
  | (created) i where "FindAccountByOwner db oty oid cur = Inl ErrAccountNotFound"
      "InsertAccount (we_now env) (new_account ty oty oid cur) db = Inr (i, db')" "0 < i" "r = Inr i"
  | (conflict) i where "FindAccountByOwner db oty oid cur = Inl ErrAccountNotFound" "i \<le> 0"
      "InsertAccount (we_now env) (new_account ty oty oid cur) db = Inr (i, db')"
      "r = (case FindAccountByOwner db' oty oid cur of Inl e \<Rightarrow> Inl (TxFn e) | Inr a \<Rightarrow> Inr (acct_ID a))"
proof (cases "FindAccountByOwner db oty oid cur")
  case (Inr a)
  then show thesis using assms by (intro found [of a]) (simp_all add: openOrFind_def)
next
  case (Inl e)
  then have e: "e = ErrAccountNotFound" by (auto simp: FindAccountByOwner_def split: option.splits)
  obtain r1 db1 u where w: "wallet_WithTx outs (insert_account_body env (new_account ty oty oid cur)) db () = (r1, db1, u)"
    by (metis prod_cases3)
  from insert_account_tx [OF w] show thesis
  proof (elim disjE exE conjE)
    fix ie assume "r1 = Inl ie" "db1 = db"
    then show thesis using assms w Inl e by (intro failed [of ie]) (simp_all add: openOrFind_def)
  next
    fix i assume i: "r1 = Inr i" "InsertAccount (we_now env) (new_account ty oty oid cur) db = Inr (i, db1)"
    then have "(r, db') = (if i > 0 then (Inr i, db1) else
        (case FindAccountByOwner db1 oty oid cur of Inl e \<Rightarrow> (Inl (TxFn e), db1) | Inr a \<Rightarrow> (Inr (acct_ID a), db1)))"
      using assms w Inl e by (simp add: openOrFind_def)
    note res = this
    show thesis
    proof (cases "i > 0")
      case True
      then show ?thesis using res i Inl e by (intro created [of i]) simp_all
    next
      case False
      then show ?thesis using res i Inl e by (intro conflict [of i]) (simp_all split: sum.splits)
    qed
  qed
qed

lemma openOrFind_inv:
  assumes "wallet_inv db" "openOrFind env outs ty oty oid cur db = (r, db')"
  shows "wallet_inv db'"
  using assms(2) by (rule openOrFind_cases) (use assms(1) InsertAccount_inv in auto)

lemma SetSystemState_inv: "wallet_inv (SetSystemState now ro reason db) = wallet_inv db"
  by (simp add: wallet_inv_def SetSystemState_def entry_row_ok_def acct_currency_def enforce_double_entry_def
      txn_entries_def currency_total_def)

lemma refresh_inv: "wallet_inv (refresh db) = wallet_inv db"
  by (simp add: wallet_inv_def refresh_def entry_row_ok_def acct_currency_def enforce_double_entry_def
      txn_entries_def currency_total_def)

section \<open>Recorded transactions stay\<close>

text \<open>One ledger extends another: every recorded transaction is still there with the same entries.\<close>

definition ledger_keeps :: "wallet_db \<Rightarrow> wallet_db \<Rightarrow> bool" where
  "ledger_keeps w w' \<longleftrightarrow> (\<forall>t \<in> x_id ` set (db_transactions w).
     t \<in> x_id ` set (db_transactions w') \<and> txn_entries w' t = txn_entries w t)"

text \<open>The credit amounts of a transaction, in entry order.\<close>

definition credits :: "wallet_db \<Rightarrow> int \<Rightarrow> int list" where
  "credits w t = map l_amount_minor (filter (\<lambda>e. l_direction e = Credit) (txn_entries w t))"

lemma ledger_keeps_refl [simp]: "ledger_keeps w w"
  by (simp add: ledger_keeps_def)

lemma ledger_keeps_trans: "ledger_keeps a b \<Longrightarrow> ledger_keeps b c \<Longrightarrow> ledger_keeps a c"
  unfolding ledger_keeps_def by metis

lemma ledger_keeps_same:
  "db_transactions w' = db_transactions w \<Longrightarrow> db_entries w' = db_entries w \<Longrightarrow> ledger_keeps w w'"
  by (simp add: ledger_keeps_def txn_entries_def)

lemma openOrFind_ledger_keeps:
  assumes "openOrFind env outs ty oty oid cur w = (r, w')"
  shows "ledger_keeps w w'"
  using assms by (rule openOrFind_cases) (auto simp: InsertAccount_def intro!: ledger_keeps_same split: if_splits)

lemma credits_keep: "ledger_keeps w w' \<Longrightarrow> t \<in> x_id ` set (db_transactions w) \<Longrightarrow>
    t \<in> x_id ` set (db_transactions w') \<and> credits w' t = credits w t"
  unfolding ledger_keeps_def credits_def by metis

text \<open>A committed posting leaves the old transactions alone; a new one has the credits of its input.\<close>

lemma PostInTx_seq_ledger:
  assumes inv: "wallet_inv w" and p: "PostInTx_seq env i w c = (Inr (t, w'), c')" and ok: "commit_ok w w'"
  shows "ledger_keeps w w' \<and> (posted w (pi_IdempotencyKey i) = None \<longrightarrow> t \<in> x_id ` set (db_transactions w') \<and>
    credits w' t = map e_AmountMinor (filter (\<lambda>e. e_Direction e = Credit) (pi_Entries i)))"
  using PostInTx_seq_body [OF p]
proof (cases rule: post_body_cases)
  case (new ob)
  have "map l_amount_minor (filter (\<lambda>e. l_direction e = Credit) (mk_entries now k n es)) =
      map e_AmountMinor (filter (\<lambda>e. e_Direction e = Credit) es)" for now k n es
    by (induction es arbitrary: n) auto
  moreover have "db_next_txn w \<in> x_id ` set (db_transactions (posted_db env i ob w))" by (simp add: posted_db_def)
  moreover have "x_id ` set (db_transactions w) \<subseteq> x_id ` set (db_transactions (posted_db env i ob w))" by (auto simp: posted_db_def)
  ultimately show ?thesis
    unfolding new(2,3) ledger_keeps_def credits_def
    using txn_entries_old [OF inv] txn_entries_new [OF inv] by auto
qed (use ok in \<open>auto simp: commit_ok_def\<close>)

section \<open>Reachable ledgers\<close>

text \<open>The service as a state machine: every operation that can change the database or the cache.\<close>

inductive wallet_step :: "wallet_db \<times> wcache \<Rightarrow> wallet_db \<times> wcache \<Rightarrow> bool" where
  step_post: "Post env outs i db c = (r, db', c') \<Longrightarrow> wallet_step (db, c) (db', c')"
| step_open: "openOrFind env outs ty oty oid cur db = (r, db') \<Longrightarrow> wallet_step (db, c) (db', c)"
| step_refresh: "wallet_step (db, c) (refresh db, c)"
| step_tick: "wallet_step (db, c) (db, refresher_tick env db c)"
| step_set: "wallet_step (db, c) (SetReadOnly env reason db c)"
| step_clear: "wallet_step (db, c) (ClearReadOnly env db c)"
| step_invalidate: "wallet_step (db, c) (db, InvalidateReadOnlyCache c)"

inductive_cases wallet_stepE: "wallet_step (db, c) s'"

lemma Post_retried:
  "Post env outs i db c = with_retry True 3 outs commit_ok (PostInTx_seq env i) db c"
  unfolding Post_def wallet_WithTx_def by (rule with_retry_cong) (simp add: PostInTx_seq_def)

lemma Post_spec:
  assumes "wallet_inv db" "Post env outs i db c = (r, db', c')"
  shows "wallet_inv db' \<and> (case r of
      Inl e \<Rightarrow> db' = db
    | Inr t \<Rightarrow> posted db' (pi_IdempotencyKey i) = Some t \<and>
        (posted db (pi_IdempotencyKey i) \<noteq> None \<longrightarrow> db' = db) \<and>
        (posted db (pi_IdempotencyKey i) = None \<longrightarrow>
           GetBalanceStrict db' = (\<lambda>a. GetBalanceStrict db a + leg_sum (pi_legs i) a)))"
  using wl.retried_post [OF assms(1)] assms(2) unfolding Post_retried by blast

lemma wallet_step_inv: "wallet_step s s' \<Longrightarrow> wallet_inv (fst s) \<Longrightarrow> wallet_inv (fst s')"
proof (induction rule: wallet_step.induct)
  case (step_post env outs i db c r db' c')
  then show ?case using Post_spec by fastforce
next
  case (step_open env outs ty oty oid cur db r db' c)
  then show ?case using openOrFind_inv by fastforce
qed (simp_all add: refresh_inv SetReadOnly_def ClearReadOnly_def SetSystemState_inv)

text \<open>
  The balance of an account is the sum of its entries, so the accounts of a currency add up to the
  currency total.
\<close>

lemma sum_balances:
  assumes "finite A" "\<forall>e \<in> set es. l_account_id e \<in> A \<longleftrightarrow> q e"
  shows "(\<Sum>a \<in> A. sum_list (map signed_amount (filter (\<lambda>e. l_account_id e = a) es))) =
    sum_list (map signed_amount (filter q es))"
  using assms(2)
proof (induction es)
  case Nil
  then show ?case by simp
next
  case (Cons e es)
  have "(\<Sum>a \<in> A. sum_list (map signed_amount (filter (\<lambda>x. l_account_id x = a) (e # es)))) =
      (\<Sum>a \<in> A. (if a = l_account_id e then signed_amount e else 0) +
         sum_list (map signed_amount (filter (\<lambda>x. l_account_id x = a) es)))"
    by (rule sum.cong) auto
  also have "\<dots> = (if l_account_id e \<in> A then signed_amount e else 0) +
      (\<Sum>a \<in> A. sum_list (map signed_amount (filter (\<lambda>x. l_account_id x = a) es)))"
    using assms(1) by (simp add: sum.distrib)
  finally show ?case using Cons by auto
qed

definition accounts_in :: "wallet_db \<Rightarrow> string \<Rightarrow> int set" where
  "accounts_in db cur = {i. acct_currency db i = Some cur}"

lemma finite_accounts_in: "finite (accounts_in db cur)"
proof (rule finite_subset)
  show "accounts_in db cur \<subseteq> acct_ID ` set (db_accounts db)"
    by (auto simp: accounts_in_def acct_currency_def dest!: find_SomeD)
qed simp

lemma accounts_in_total: "(\<Sum>a \<in> accounts_in db cur. GetBalanceStrict db a) = currency_total db cur"
  unfolding GetBalanceStrict_def currency_total_def
  by (rule sum_balances [OF finite_accounts_in]) (simp add: accounts_in_def)

section \<open>A concrete ledger\<close>

definition acct_ex :: "int \<Rightarrow> string \<Rightarrow> string \<Rightarrow> int option \<Rightarrow> string \<Rightarrow> account" where
  "acct_ex i ty oty oid cur = \<lparr>acct_ID = i, acct_Type = ty, acct_OwnerType = oty, acct_OwnerID = oid,
     acct_Currency = cur, acct_Status = ''active'', acct_CreatedAt = 0\<rparr>"

text \<open>The seeded platform accounts the engines use, a user wallet and a seller payable.\<close>

definition ledger_ex :: wallet_db where
  "ledger_ex = \<lparr>db_accounts =
       [acct_ex 1 ''asset:bank:escrow'' ''platform'' None ''TRY'',
        acct_ex 2 ''equity:retained_commission'' ''platform'' None ''TRY'',
        acct_ex 3 ''liability:kdv_payable'' ''platform'' None ''TRY'',
        acct_ex 4 ''equity:cashback_distribution'' ''platform'' None ''TRY_COIN'',
        acct_ex 5 ''equity:refund_distribution'' ''platform'' None ''TRY_COIN'',
        acct_ex 6 ''liability:wallet:user'' ''user'' (Some 70) ''TRY_COIN'',
        acct_ex 7 ''liability:payable:seller'' ''seller'' (Some 80) ''TRY''],
     db_next_account = 8, db_transactions = [], db_next_txn = 1, db_entries = [], db_next_entry = 1,
     db_outbox = \<lparr>ob_rows = [], ob_next = 1\<rparr>, db_balances = [],
     db_system_state = Some \<lparr>ss_ReadOnly = False, ss_ReadOnlyReason = None, ss_ReadOnlySince = None\<rparr>,
     db_aborted = False\<rparr>"

definition wenv_ex :: wenv where
  "wenv_ex = \<lparr>we_now = 20000 * ns_per_day, we_outbox_configured = True, we_state_read_ok = True\<rparr>"

definition cache_ex :: wcache where
  "cache_ex = \<lparr>sysReadOnly = False, sysRefreshedAt = 0\<rparr>"

definition post_ex :: post_input where
  "post_ex = \<lparr>pi_Type = ''refund'', pi_Reference = ''r'', pi_FxPairID = [], pi_IdempotencyKey = ''refund:9'',
     pi_Market = ''TR'', pi_Currency = ''TRY_COIN'',
     pi_Entries = [\<lparr>e_AccountID = 5, e_Direction = Debit, e_AmountMinor = 250\<rparr>,
                   \<lparr>e_AccountID = 6, e_Direction = Credit, e_AmountMinor = 250\<rparr>],
     pi_EventType = [], pi_Metadata = []\<rparr>"

lemma ledger_ex_inv: "wallet_inv ledger_ex"
  by (simp add: wallet_inv_def ledger_ex_def acct_ex_def fresh_ids_def outbox_ok_def currency_total_def)

text \<open>The posting goes through, also when the first two attempts lose a serialization race.\<close>

definition posted_ex :: wallet_db where
  "posted_ex = fst (snd (Post wenv_ex [TxCommitSerialization, TxFnSerialization] post_ex ledger_ex cache_ex))"

lemma post_ex_result:
  "fst (Post wenv_ex [TxCommitSerialization, TxFnSerialization] post_ex ledger_ex cache_ex) = Inr 1"
  by code_simp

lemma post_ex_balances: "GetBalanceStrict posted_ex 6 = 250 \<and> GetBalanceStrict posted_ex 5 = -250"
  by code_simp

section \<open>Properties of the ledger\<close>

text \<open>
  C1. Every ledger reachable by any sequence of postings, account openings, view refreshes and
  read-only switches, with any interference by the database server, is a double-entry ledger: every
  transaction is in one currency with equal debit and credit totals, and for every currency the
  live balances of its accounts add up to zero.
\<close>

theorem wallet_trial_balance:
  assumes "wallet_step\<^sup>*\<^sup>* s s'" "wallet_inv (fst s)"
  shows "(\<forall>x \<in> set (db_transactions (fst s')). enforce_double_entry (fst s') (x_id x)) \<and>
    (\<forall>cur. (\<Sum>a \<in> accounts_in (fst s') cur. GetBalanceStrict (fst s') a) = 0)"
proof -
  have "wallet_inv (fst s')"
    using assms by (induction rule: rtranclp_induct) (auto intro: wallet_step_inv)
  then show ?thesis by (simp add: wallet_inv_def accounts_in_total)
qed

theorem wallet_trial_balance_witness:
  "(\<Sum>a \<in> accounts_in posted_ex ''TRY_COIN''. GetBalanceStrict posted_ex a) = 0 \<and> GetBalanceStrict posted_ex 6 = 250"
proof -
  obtain r db c where p: "Post wenv_ex [TxCommitSerialization, TxFnSerialization] post_ex ledger_ex cache_ex = (r, db, c)"
    by (metis prod_cases3)
  then have "wallet_step\<^sup>*\<^sup>* (ledger_ex, cache_ex) (posted_ex, c)"
    using step_post [OF p] by (simp add: posted_ex_def)
  then show ?thesis
    using wallet_trial_balance [of "(ledger_ex, cache_ex)" "(posted_ex, c)"] ledger_ex_inv post_ex_balances by simp
qed

text \<open>
  C2. \<^verbatim>\<open>Post\<close> is atomic and idempotent. An error leaves the database as it was. A success returns the
  transaction recorded under the idempotency key; if the key was already recorded nothing changes,
  otherwise every account's live balance moves by exactly its legs, the legs cancel, and the outbox
  gets exactly one new row, carrying the key, the event type and the input as payload.
\<close>

theorem Post_correct:
  assumes "wallet_inv db" "Post env outs i db c = (r, db', c')"
  shows "case r of
      Inl e \<Rightarrow> db' = db
    | Inr t \<Rightarrow> posted db' (pi_IdempotencyKey i) = Some t \<and>
        (if posted db (pi_IdempotencyKey i) \<noteq> None then db' = db
         else (\<forall>a. GetBalanceStrict db' a = GetBalanceStrict db a + leg_sum (pi_legs i) a) \<and>
              sum_list (map snd (pi_legs i)) = 0 \<and>
              (\<exists>row. ob_rows (db_outbox db') = ob_rows (db_outbox db) @ [row] \<and>
                 o_idempotency_key row = pi_IdempotencyKey i \<and> o_published_at row = None \<and>
                 o_payload row = post_input_json i))"
proof (cases r)
  case (Inl e)
  then show ?thesis using Post_spec [OF assms] by simp
next
  case (Inr t)
  then obtain c0 where c0: "PostInTx_seq env i db c0 = (Inr (t, db'), c')" "commit_ok db db'"
    using assms(2) with_retry_success unfolding Post_retried by metis
  have "posted db (pi_IdempotencyKey i) = None \<Longrightarrow>
      \<exists>row. ob_rows (db_outbox db') = ob_rows (db_outbox db) @ [row] \<and> o_idempotency_key row = pi_IdempotencyKey i \<and>
        o_published_at row = None \<and> o_payload row = post_input_json i"
    using PostInTx_seq_body [OF c0(1)]
    by (rule post_body_cases)
      (use c0(2) outbox_Insert_rows in \<open>auto simp: commit_ok_def posted_db_def post_outbox_row_def\<close>)
  then show ?thesis
    using Inr Post_spec [OF assms] wl.post_new [OF assms(1) _ c0] by auto
qed

theorem Post_correct_witness:
  "posted posted_ex ''refund:9'' = Some 1 \<and> GetBalanceStrict posted_ex 5 = -250 \<and>
   (\<exists>row. ob_rows (db_outbox posted_ex) = [row] \<and> o_idempotency_key row = ''refund:9'')"
proof -
  have p: "Post wenv_ex [TxCommitSerialization, TxFnSerialization] post_ex ledger_ex cache_ex =
      (Inr 1, posted_ex, snd (snd (Post wenv_ex [TxCommitSerialization, TxFnSerialization] post_ex ledger_ex cache_ex)))"
    using post_ex_result by (simp add: posted_ex_def prod_eq_iff)
  have "posted ledger_ex ''refund:9'' = None" "pi_IdempotencyKey post_ex = ''refund:9''"
    "ob_rows (db_outbox ledger_ex) = []"
    by (simp_all add: posted_def ledger_ex_def post_ex_def)
  then show ?thesis
    using Post_correct [OF ledger_ex_inv p] post_ex_balances by auto
qed

lemma Post_append:
  assumes "Post env outs i db c = (r, db', c')"
  shows "\<exists>xs es. db_transactions db' = db_transactions db @ xs \<and> db_entries db' = db_entries db @ es"
proof (cases r)
  case (Inl e)
  then show ?thesis using assms with_retry_error unfolding Post_retried by fastforce
next
  case (Inr t)
  then obtain c0 where c0: "PostInTx_seq env i db c0 = (Inr (t, db'), c')" "commit_ok db db'"
    using assms with_retry_success unfolding Post_retried by metis
  show ?thesis using PostInTx_seq_body [OF c0(1)]
    by (rule post_body_cases) (use c0(2) in \<open>auto simp: commit_ok_def posted_db_def\<close>)
qed

lemma openOrFind_append:
  assumes "openOrFind env outs ty oty oid cur db = (r, db')"
  shows "db_transactions db' = db_transactions db \<and> db_entries db' = db_entries db"
  using assms by (rule openOrFind_cases) (auto simp: InsertAccount_def split: if_splits)

lemma wallet_step_append: "wallet_step s s' \<Longrightarrow>
    \<exists>xs es. db_transactions (fst s') = db_transactions (fst s) @ xs \<and> db_entries (fst s') = db_entries (fst s) @ es"
proof (induction rule: wallet_step.induct)
  case (step_post env outs i db c r db' c')
  then show ?case using Post_append by fastforce
next
  case (step_open env outs ty oty oid cur db r db' c)
  then show ?case using openOrFind_append by fastforce
qed (simp_all add: refresh_def SetReadOnly_def ClearReadOnly_def SetSystemState_def)

text \<open>
  The ledger is append-only: whatever sequence of operations the service runs, the transactions
  and entries posted before are still there, unchanged and in the same order.
\<close>

theorem wallet_append_only:
  assumes "wallet_step\<^sup>*\<^sup>* s s'"
  shows "\<exists>xs es. db_transactions (fst s') = db_transactions (fst s) @ xs \<and> db_entries (fst s') = db_entries (fst s) @ es"
  using assms
proof (induction rule: rtranclp_induct)
  case base
  show ?case by simp
next
  case (step s1 s2)
  then show ?case using wallet_step_append [of s1 s2] by force
qed

theorem wallet_append_only_witness:
  "\<exists>xs es. db_transactions posted_ex = db_transactions ledger_ex @ xs \<and> db_entries posted_ex = db_entries ledger_ex @ es"
proof -
  obtain r db c where p: "Post wenv_ex [TxCommitSerialization, TxFnSerialization] post_ex ledger_ex cache_ex = (r, db, c)"
    by (metis prod_cases3)
  then have "wallet_step\<^sup>*\<^sup>* (ledger_ex, cache_ex) (posted_ex, c)"
    using step_post [OF p] by (simp add: posted_ex_def)
  then show ?thesis using wallet_append_only [of "(ledger_ex, cache_ex)" "(posted_ex, c)"] by simp
qed

text \<open>
  The materialized view is exact right after a refresh: for every account id, known or not,
  \<^verbatim>\<open>GetBalance\<close> on the refreshed view is the live balance of \<^verbatim>\<open>GetBalanceStrict\<close>.
\<close>

theorem refresh_exact:
  assumes "wallet_inv db"
  shows "GetBalanceMV (refresh db) a = GetBalanceStrict db a"
proof (cases "a \<in> acct_ID ` set (db_accounts db)")
  case True
  have "map_of (map (\<lambda>x. (acct_ID x, GetBalanceStrict db (acct_ID x))) xs) a = Some (GetBalanceStrict db a)"
    if "a \<in> acct_ID ` set xs" for xs :: "account list" using that by (induction xs) auto
  then show ?thesis using True by (simp add: GetBalanceMV_def refresh_def)
next
  case False
  have "l_account_id e \<noteq> a" if "e \<in> set (db_entries db)" for e
  proof
    assume "l_account_id e = a"
    moreover have "acct_currency db (l_account_id e) \<noteq> None"
      using assms that by (simp add: wallet_inv_def entry_row_ok_def)
    ultimately obtain x where "List.find (\<lambda>x. acct_ID x = a) (db_accounts db) = Some x"
      by (auto simp: acct_currency_def)
    then show False using False by (auto dest!: find_SomeD)
  qed
  then have "GetBalanceStrict db a = 0" by (simp add: GetBalanceStrict_def)
  moreover have "map_of (map (\<lambda>x. (acct_ID x, GetBalanceStrict db (acct_ID x))) (db_accounts db)) a = None"
    using False by (auto simp: map_of_eq_None_iff)
  ultimately show ?thesis by (simp add: GetBalanceMV_def refresh_def)
qed

theorem refresh_exact_witness: "GetBalanceMV (refresh posted_ex) 6 = 250 \<and> GetBalanceMV (refresh posted_ex) 99 = 0"
proof -
  have "wallet_inv posted_ex"
    using Post_spec [OF ledger_ex_inv] by (simp add: posted_ex_def) (metis prod.collapse)
  moreover have "GetBalanceStrict posted_ex 99 = 0" by code_simp
  ultimately show ?thesis using refresh_exact [of posted_ex] post_ex_balances by simp
qed

text \<open>A process whose cache and database both say read-only.\<close>

definition read_only_view :: "wallet_db \<Rightarrow> wcache \<Rightarrow> bool" where
  "read_only_view db c \<longleftrightarrow> sysReadOnly c \<and> (\<exists>st. db_system_state db = Some st \<and> ss_ReadOnly st)"

fun attempts :: "wenv list \<Rightarrow> wallet_db \<Rightarrow> wallet_db \<Rightarrow> post_input \<Rightarrow> wcache \<Rightarrow> (wallet_error + int \<times> wallet_db) list" where
  "attempts [] pool db i c = []"
| "attempts (env # envs) pool db i c =
     (case PostInTx env pool i db c of (r, c') \<Rightarrow> r # attempts envs pool db i c')"

lemma read_only_blocks:
  "read_only_view db c \<Longrightarrow> we_state_read_ok env \<Longrightarrow> we_outbox_configured env \<Longrightarrow>
     \<exists>c'. PostInTx env pool i db c = (Inl ErrSystemReadOnly, c') \<and> read_only_view db c'"
  by (auto simp: read_only_view_def PostInTx_def checkReadOnly_def GetSystemState_def)

text \<open>
  The read-only switch stops every posting of the process that set it: once \<^verbatim>\<open>SetReadOnly\<close> has
  returned, as long as the flag stays in the database and is readable, every \<^verbatim>\<open>PostInTx\<close> fails
  with \<^verbatim>\<open>ErrSystemReadOnly\<close>, at any later times and however often it is called.
\<close>

theorem read_only_stops_posting:
  assumes "SetReadOnly env0 reason db c = (db1, c1)" "db_system_state db \<noteq> None"
    and "\<forall>env \<in> set envs. we_state_read_ok env \<and> we_outbox_configured env"
  shows "attempts envs pool db1 i c1 = replicate (length envs) (Inl ErrSystemReadOnly)"
proof -
  have "read_only_view db1 c1"
    using assms(1,2) by (auto simp: SetReadOnly_def SetSystemState_def read_only_view_def)
  then show ?thesis using assms(3)
  proof (induction envs arbitrary: c1)
    case (Cons env envs)
    then obtain c' where "PostInTx env pool i db1 c1 = (Inl ErrSystemReadOnly, c')" "read_only_view db1 c'"
      using read_only_blocks by (metis list.set_intros(1))
    then show ?case using Cons by simp
  qed simp
qed

theorem read_only_stops_posting_witness:
  "attempts [wenv_ex, wenv_ex\<lparr>we_now := we_now wenv_ex + 3600 * ns_per_sec\<rparr>] ledger_ex
     (fst (SetReadOnly wenv_ex ''drift'' ledger_ex cache_ex)) post_ex (snd (SetReadOnly wenv_ex ''drift'' ledger_ex cache_ex))
   = [Inl ErrSystemReadOnly, Inl ErrSystemReadOnly]"
  using read_only_stops_posting [of wenv_ex "''drift''" ledger_ex cache_ex _ _
      "[wenv_ex, wenv_ex\<lparr>we_now := we_now wenv_ex + 3600 * ns_per_sec\<rparr>]" ledger_ex post_ex]
  by (simp add: SetReadOnly_def ledger_ex_def wenv_ex_def)

text \<open>
  Lazy account opening is idempotent and never confuses owners: a success returns the id of an
  active account of exactly this owner and currency, and asking again returns the same id without
  touching the database, whatever the clock and the server do.
\<close>

theorem openOrFind_stable:
  assumes "wallet_inv db" "openOrFind env outs ty oty oid cur db = (Inr i, db')"
  shows "(\<exists>a \<in> set (db_accounts db'). acct_ID a = i \<and> acct_OwnerType a = oty \<and> acct_OwnerID a = Some oid \<and>
      acct_Currency a = cur \<and> acct_Status a = ''active'') \<and>
    openOrFind env' outs' ty oty oid cur db' = (Inr i, db')"
proof -
  have "\<exists>a. FindAccountByOwner db' oty oid cur = Inr a \<and> acct_ID a = i"
    using assms(2)
  proof (rule openOrFind_cases)
    fix j
    assume "FindAccountByOwner db oty oid cur = Inl ErrAccountNotFound" "0 < j" "Inr i = (Inr j :: wallet_error tx_error + int)"
      and "InsertAccount (we_now env) (new_account ty oty oid cur) db = Inr (j, db')"
    then show ?thesis
      by (auto simp: FindAccountByOwner_def InsertAccount_def new_account_def find_append split: option.splits if_splits)
  qed (auto split: sum.splits)
  then obtain a where a: "FindAccountByOwner db' oty oid cur = Inr a" "acct_ID a = i" by blast
  then have "a \<in> set (db_accounts db') \<and> acct_OwnerType a = oty \<and> acct_OwnerID a = Some oid \<and>
      acct_Currency a = cur \<and> acct_Status a = ''active''"
    by (auto simp: FindAccountByOwner_def split: option.splits dest!: find_SomeD)
  then show ?thesis using a by (auto simp: openOrFind_def)
qed

theorem openOrFind_stable_witness:
  "openOrFind wenv_ex [TxCommitSerialization] ''liability:wallet:user'' ''user'' 71 ''TRY_COIN'' ledger_ex =
     (Inr 8, ledger_ex\<lparr>db_accounts := db_accounts ledger_ex @
        [(acct_ex 8 ''liability:wallet:user'' ''user'' (Some 71) ''TRY_COIN'')\<lparr>acct_CreatedAt := 20000 * ns_per_day\<rparr>],
        db_next_account := 9\<rparr>) \<and>
   fst (openOrFind wenv_ex [] ''liability:wallet:user'' ''user'' 71 ''TRY_COIN''
     (snd (openOrFind wenv_ex [TxCommitSerialization] ''liability:wallet:user'' ''user'' 71 ''TRY_COIN'' ledger_ex))) = Inr 8"
proof -
  have first: "openOrFind wenv_ex [TxCommitSerialization] ''liability:wallet:user'' ''user'' 71 ''TRY_COIN'' ledger_ex =
     (Inr 8, ledger_ex\<lparr>db_accounts := db_accounts ledger_ex @
        [(acct_ex 8 ''liability:wallet:user'' ''user'' (Some 71) ''TRY_COIN'')\<lparr>acct_CreatedAt := 20000 * ns_per_day\<rparr>],
        db_next_account := 9\<rparr>)"
    by code_simp
  then show ?thesis using openOrFind_stable [OF ledger_ex_inv first, of wenv_ex "[]"] by simp
qed

text \<open>
  An owner whose account exists but is not active can never be served: opening fails with
  \<^verbatim>\<open>ErrAccountNotFound\<close> and creates nothing, because the conflicting row is invisible to the re-read
  that follows the conflict.
\<close>

theorem openOrFind_frozen:
  assumes "a \<in> set (db_accounts db)" "acct_Type a = ty" "acct_OwnerType a = oty" "acct_OwnerID a = Some oid"
    "acct_Currency a = cur"
    and "\<forall>b \<in> set (db_accounts db). acct_OwnerType b = oty \<and> acct_OwnerID b = Some oid \<and> acct_Currency b = cur \<longrightarrow>
      acct_Status b \<noteq> ''active''"
    and "\<not> db_aborted db"
  shows "openOrFind env [] ty oty oid cur db = (Inl (TxFn ErrAccountNotFound), db)"
proof -
  have none: "FindAccountByOwner db oty oid cur = Inl ErrAccountNotFound"
    using assms(6) by (auto simp: FindAccountByOwner_def find_None_iff2 split: option.splits dest!: find_SomeD)
  have "InsertAccount (we_now env) (new_account ty oty oid cur) db = Inr (0, db)"
    using assms(1-5) by (auto simp: InsertAccount_def new_account_def find_None_iff2)
  then have "wallet_WithTx [] (insert_account_body env (new_account ty oty oid cur)) db () = (Inr 0, db, ())"
    using assms(7) with_retry_quiet [of True 2 commit_ok "insert_account_body env (new_account ty oty oid cur)" db "()"]
    by (simp add: wallet_WithTx_def insert_account_body_def commit_ok_def eval_nat_numeral)
  then show ?thesis using none by (simp add: openOrFind_def)
qed

definition frozen_ex :: wallet_db where
  "frozen_ex = ledger_ex\<lparr>db_accounts := [(acct_ex 6 ''liability:wallet:user'' ''user'' (Some 70) ''TRY_COIN'')\<lparr>acct_Status := ''frozen''\<rparr>]\<rparr>"

theorem openOrFind_frozen_witness:
  "openOrFind wenv_ex [] ''liability:wallet:user'' ''user'' 70 ''TRY_COIN'' frozen_ex = (Inl (TxFn ErrAccountNotFound), frozen_ex)"
  by (rule openOrFind_frozen [of "(acct_ex 6 ''liability:wallet:user'' ''user'' (Some 70) ''TRY_COIN'')\<lparr>acct_Status := ''frozen''\<rparr>"])
    (simp_all add: frozen_ex_def ledger_ex_def acct_ex_def)

text \<open>
  \<^verbatim>\<open>WithTx\<close> never returns \<^verbatim>\<open>ErrMaxRetriesExceeded\<close>: when the third attempt loses the race too, the
  caller gets the serialization failure itself, whatever the body does.
\<close>

theorem WithTx_no_retry_error: "fst (wallet_WithTx outs fn db c) \<noteq> Inl TxMaxRetries"
  unfolding wallet_WithTx_def by (rule with_retry_no_max) simp

end
