(* ===== verification/Consumer.thy ===== *)
theory Consumer
  imports Main
begin

text \<open>
  The contract of a stream consumer under at-least-once delivery. \<^verbatim>\<open>eventbus.Consumer.Subscribe\<close>
  acknowledges a message only when its handler returns nil; anything else is delivered again, and the
  relay itself may send an event twice. A handler is safe when a message it has acknowledged is
  \<open>settled\<close>, a settled message changes nothing when it comes again, and messages stay settled.
  Every engine that consumes events interprets this locale on its own handler.
\<close>

text \<open>A run: messages in delivery order, each with what the environment does to it.\<close>

fun deliver :: "('x \<Rightarrow> 'm \<Rightarrow> 's \<Rightarrow> bool \<times> 's) \<Rightarrow> ('x \<times> 'm) list \<Rightarrow> 's \<Rightarrow> 's" where
  "deliver handle [] s = s"
| "deliver handle ((x, m) # ms) s = deliver handle ms (snd (handle x m s))"

lemma deliver_append: "deliver handle (xs @ ys) s = deliver handle ys (deliver handle xs s)"
  by (induction xs arbitrary: s) auto

locale idempotent_consumer =
  fixes inv :: "'s \<Rightarrow> bool"
    and handle :: "'x \<Rightarrow> 'm \<Rightarrow> 's \<Rightarrow> bool \<times> 's"
    and settled :: "'s \<Rightarrow> 'm \<Rightarrow> bool"
  assumes handle_inv: "inv s \<Longrightarrow> handle x m s = (acked, s') \<Longrightarrow> inv s'"
    and handle_settles: "inv s \<Longrightarrow> handle x m s = (True, s') \<Longrightarrow> settled s' m"
    and handle_settled: "inv s \<Longrightarrow> settled s m \<Longrightarrow> handle x m s = (acked, s') \<Longrightarrow> s' = s"
    and settled_stays: "inv s \<Longrightarrow> settled s m \<Longrightarrow> handle x k s = (acked, s') \<Longrightarrow> settled s' m"
begin

lemma deliver_inv: "inv s \<Longrightarrow> inv (deliver handle ms s)"
proof (induction ms arbitrary: s)
  case (Cons p ms)
  obtain x m where "p = (x, m)" by fastforce
  then show ?case using Cons handle_inv [of s x m] by (metis deliver.simps(2) prod.collapse)
qed simp

lemma deliver_settled: "inv s \<Longrightarrow> settled s m \<Longrightarrow> settled (deliver handle ms s) m"
proof (induction ms arbitrary: s)
  case (Cons p ms)
  obtain x k where "p = (x, k)" by fastforce
  then show ?case using Cons handle_inv [of s x k] settled_stays [of s m x k] by (metis deliver.simps(2) prod.collapse)
qed simp

text \<open>Re-delivering an acknowledged message, at any later point and in any environment, changes nothing.\<close>

lemma redelivery:
  assumes "inv s" "handle x m s = (True, s1)"
  shows "deliver handle (ms @ (y, m) # ns) s1 = deliver handle (ms @ ns) s1"
proof -
  have i: "inv s1" using handle_inv assms by blast
  have "settled (deliver handle ms s1) m" using deliver_settled [OF i] handle_settles assms by blast
  then have "snd (handle y m (deliver handle ms s1)) = deliver handle ms s1"
    using handle_settled [OF deliver_inv [OF i]] by (metis prod.collapse)
  then show ?thesis by (simp add: deliver_append)
qed

end

end
