(* ===== verification/Cashback.thy ===== *)
theory Cashback
  imports Wallet Consumer
begin

text \<open>
  The cashback engine: \<^verbatim>\<open>internal/cashback\<close>. A delivered order becomes a fixed-term plan that pays
  the order price back in coins, month by month, with a balloon as last installment; the monthly
  cron pays each due plan through the ledger in one transaction.

  The tables of \<^verbatim>\<open>cashback_schema\<close> share a database with \<^verbatim>\<open>wallet_schema\<close>, so the state of a
  transaction is \<open>cb_db\<close>, which contains the ledger. The CHECK constraint on \<^verbatim>\<open>plans.status\<close> is
  the argument \<open>allowed\<close> of the definitions it constrains; \<open>deployed_statuses\<close> is the list of the
  deployed schema (\<^verbatim>\<open>deploy/postgres-ledger/init/50-cashback-schema.sql\<close>, which no migration
  changes).
\<close>

section \<open>Plan terms\<close>

definition CashbackK :: int where
  "CashbackK = 156000"

record plan_terms =
  pt_TotalMonths :: int
  pt_MonthlyAmountMinor :: int
  pt_MonthlyAmountLastMinor :: int

datatype cb_error =
    CbInvalidPlanInput
  | CbCalendar
  | CbPlanNotFound
  | CbConstraint
  | CbOutbox outbox_error
  | CbWallet wallet_error
  | CbOpenWallet "wallet_error tx_error"
  | CbUnmarshal

definition ComputePlanTerms :: "int \<Rightarrow> int \<Rightarrow> cb_error + plan_terms" where
  "ComputePlanTerms priceMinor commissionBps =
     (if priceMinor \<le> 0 \<or> priceMinor > 10 ^ 14 then Inl CbInvalidPlanInput
      else if commissionBps < 100 \<or> commissionBps > 10000 then Inl CbInvalidPlanInput
      else (let totalMonths = CashbackK sdiv commissionBps;
                monthly = wrap64 (priceMinor * commissionBps) sdiv CashbackK in
            if totalMonths < 1 \<or> monthly < 1 then Inl CbInvalidPlanInput
            else (let lastMonth = wrap64 (priceMinor - wrap64 (wrap64 (totalMonths - 1) * monthly)) in
                  if lastMonth < monthly then Inl CbInvalidPlanInput
                  else Inr \<lparr>pt_TotalMonths = totalMonths, pt_MonthlyAmountMinor = monthly,
                            pt_MonthlyAmountLastMinor = lastMonth\<rparr>)))"

definition InstallmentAmount :: "plan_terms \<Rightarrow> int \<Rightarrow> int" where
  "InstallmentAmount terms n =
     (if n < 1 \<or> n > pt_TotalMonths terms then 0
      else if n = pt_TotalMonths terms then pt_MonthlyAmountLastMinor terms
      else pt_MonthlyAmountMinor terms)"

section \<open>Rows\<close>

record commission_item =
  ci_VariantID :: int
  ci_SellerID :: int
  ci_CategoryID :: int
  ci_Qty :: int
  ci_UnitPriceMinor :: int
  ci_CommissionPctBps :: int
  ci_KdvPctBps :: int
  ci_CommissionAmountMinor :: int
  ci_KdvAmountMinor :: int
  ci_SellerNetMinor :: int

definition commission_item_json :: "commission_item \<Rightarrow> json" where
  "commission_item_json it = JObj
     [(''variant_id'', JInt (ci_VariantID it)), (''seller_id'', JInt (ci_SellerID it)),
      (''category_id'', JInt (ci_CategoryID it)), (''qty'', JInt (ci_Qty it)),
      (''unit_price_minor'', JInt (ci_UnitPriceMinor it)),
      (''commission_pct_bps'', JInt (ci_CommissionPctBps it)), (''kdv_pct_bps'', JInt (ci_KdvPctBps it)),
      (''commission_amount_minor'', JInt (ci_CommissionAmountMinor it)),
      (''kdv_amount_minor'', JInt (ci_KdvAmountMinor it)), (''seller_net_minor'', JInt (ci_SellerNetMinor it))]"

record plan =
  pl_ID :: int
  pl_OrderID :: int
  pl_UserID :: int
  pl_PriceMinor :: int
  pl_CommissionBps :: int
  pl_Currency :: string
  pl_TotalMonths :: int
  pl_MonthlyAmountMinor :: int
  pl_MonthlyAmountLastMinor :: int
  pl_PaymentsMade :: int
  pl_Status :: string
  pl_StartDate :: day
  pl_DeliveredAt :: instant
  pl_Market :: string
  pl_CommissionSnapshot :: json
  pl_IdempotencyKey :: string
  pl_ProductID :: int
  pl_ProductTitle :: string
  pl_ProductImageURL :: string
  pl_CreatedAt :: instant
  pl_UpdatedAt :: instant

record payment =
  py_ID :: int
  py_PlanID :: int
  py_PeriodYYYYMM :: int
  py_ScheduledDate :: day
  py_PaidDate :: "day option"
  py_AmountMinor :: int
  py_Status :: string
  py_LedgerTransactionID :: "int option"
  py_IdempotencyKey :: string
  py_AttemptCount :: int
  py_CreatedAt :: instant

record cb_db =
  cb_wallet :: wallet_db
  cb_plans :: "plan list"
  cb_next_plan :: int
  cb_payments :: "payment list"
  cb_next_payment :: int

definition deployed_statuses :: "string list" where
  "deployed_statuses = [''active'', ''cancelled'', ''suspended'']"

text \<open>The CHECK constraints on a row of \<^verbatim>\<open>plans\<close> (init script and migration 0076).\<close>

definition plan_checks :: "string list \<Rightarrow> plan \<Rightarrow> bool" where
  "plan_checks allowed p \<longleftrightarrow> pl_MonthlyAmountMinor p \<ge> 1 \<and> pl_Status p \<in> set allowed \<and> pl_TotalMonths p \<ge> 1 \<and>
     pl_MonthlyAmountLastMinor p \<ge> pl_MonthlyAmountMinor p \<and>
     0 \<le> pl_PaymentsMade p \<and> pl_PaymentsMade p \<le> pl_TotalMonths p \<and>
     (pl_TotalMonths p - 1) * pl_MonthlyAmountMinor p + pl_MonthlyAmountLastMinor p = pl_PriceMinor p"

section \<open>Repository\<close>

definition cb_commit_ok :: "cb_db \<Rightarrow> cb_db \<Rightarrow> bool" where
  "cb_commit_ok old new \<longleftrightarrow> commit_ok (cb_wallet old) (cb_wallet new)"

definition cashback_WithTx :: "tx_outcome list \<Rightarrow> (cb_db, 'c, cb_error, 'a) tx_body
    \<Rightarrow> cb_db \<Rightarrow> 'c \<Rightarrow> (cb_error tx_error + 'a) \<times> cb_db \<times> 'c" where
  "cashback_WithTx outs fn db c = with_retry True 3 outs cb_commit_ok fn db c"

definition fetchPlanByOrderID :: "cb_db \<Rightarrow> int \<Rightarrow> cb_error + plan" where
  "fetchPlanByOrderID pool orderID =
     (case List.find (\<lambda>p. pl_OrderID p = orderID) (cb_plans pool) of
        None \<Rightarrow> Inl CbPlanNotFound
      | Some p \<Rightarrow> Inr p)"

text \<open>
  \<^verbatim>\<open>ON CONFLICT (order_id) DO NOTHING\<close>: an existing plan of the order is fetched from the pool and
  returned; a row that breaks a CHECK, or repeats an idempotency key under another order, is an error.
\<close>

definition InsertPlanIfAbsent ::
    "instant \<Rightarrow> string list \<Rightarrow> cb_db \<Rightarrow> plan \<Rightarrow> cb_db \<Rightarrow> cb_error + (plan \<times> bool) \<times> cb_db" where
  "InsertPlanIfAbsent now allowed pool p db =
     (let row = p\<lparr>pl_ID := cb_next_plan db, pl_PaymentsMade := 0, pl_CreatedAt := now, pl_UpdatedAt := now\<rparr> in
      if \<not> plan_checks allowed row then Inl CbConstraint
      else if List.find (\<lambda>q. pl_OrderID q = pl_OrderID p) (cb_plans db) \<noteq> None
      then (case fetchPlanByOrderID pool (pl_OrderID p) of
              Inl e \<Rightarrow> Inl e
            | Inr existing \<Rightarrow> Inr ((existing, False), db))
      else if List.find (\<lambda>q. pl_IdempotencyKey q = pl_IdempotencyKey p) (cb_plans db) \<noteq> None then Inl CbConstraint
      else Inr ((row, True), db\<lparr>cb_plans := cb_plans db @ [row], cb_next_plan := cb_next_plan db + 1\<rparr>))"

definition is_due :: "cb_db \<Rightarrow> instant \<Rightarrow> int \<Rightarrow> plan \<Rightarrow> bool" where
  "is_due db runDate period p \<longleftrightarrow>
     pl_Status p = ''active'' \<and> pl_PaymentsMade p < pl_TotalMonths p \<and>
     at_midnight (pg_add_months (pl_StartDate p) (pl_PaymentsMade p)) \<le> runDate \<and>
     \<not> list_ex (\<lambda>pay. py_PlanID pay = pl_ID p \<and> py_PeriodYYYYMM pay = period) (cb_payments db)"

definition ListDuePlans :: "cb_db \<Rightarrow> instant \<Rightarrow> int \<Rightarrow> nat \<Rightarrow> plan list" where
  "ListDuePlans db runDate period limit = take limit (filter (is_due db runDate period) (cb_plans db))"

definition PaymentExistsForPeriod :: "cb_db \<Rightarrow> int \<Rightarrow> int \<Rightarrow> bool" where
  "PaymentExistsForPeriod db planID period =
     list_ex (\<lambda>pay. py_PlanID pay = planID \<and> py_PeriodYYYYMM pay = period) (cb_payments db)"

record claim_input =
  cl_PlanID :: int
  cl_PeriodYYYYMM :: int
  cl_ScheduledDate :: day
  cl_AmountMinor :: int
  cl_IdempotencyKey :: string

text \<open>
  \<^verbatim>\<open>ON CONFLICT DO NOTHING\<close> covers both unique indexes; \<open>None\<close> is the lost race. The CHECKs on period and
  amount and the foreign key are errors.
\<close>

definition ClaimPaymentPeriod :: "instant \<Rightarrow> claim_input \<Rightarrow> cb_db \<Rightarrow> cb_error + (int option) \<times> cb_db" where
  "ClaimPaymentPeriod now i db =
     (if \<not> (202600 \<le> cl_PeriodYYYYMM i \<and> cl_PeriodYYYYMM i \<le> 209912) \<or> cl_AmountMinor i \<le> 0 then Inl CbConstraint
      else if list_ex (\<lambda>pay. py_PlanID pay = cl_PlanID i \<and> py_PeriodYYYYMM pay = cl_PeriodYYYYMM i
                \<or> py_IdempotencyKey pay = cl_IdempotencyKey i) (cb_payments db)
      then Inr (None, db)
      else if List.find (\<lambda>p. pl_ID p = cl_PlanID i) (cb_plans db) = None then Inl CbConstraint
      else Inr (Some (cb_next_payment db),
                db\<lparr>cb_payments := cb_payments db @
                     [\<lparr>py_ID = cb_next_payment db, py_PlanID = cl_PlanID i, py_PeriodYYYYMM = cl_PeriodYYYYMM i,
                       py_ScheduledDate = cl_ScheduledDate i, py_PaidDate = None, py_AmountMinor = cl_AmountMinor i,
                       py_Status = ''scheduled'', py_LedgerTransactionID = None,
                       py_IdempotencyKey = cl_IdempotencyKey i, py_AttemptCount = 1, py_CreatedAt = now\<rparr>],
                   cb_next_payment := cb_next_payment db + 1\<rparr>))"

definition MarkPaymentPaid :: "int \<Rightarrow> int \<Rightarrow> day \<Rightarrow> cb_db \<Rightarrow> cb_error + cb_db" where
  "MarkPaymentPaid paymentID ledgerTxnID paidDate db =
     (if rows_affected (\<lambda>pay. py_ID pay = paymentID) (cb_payments db) \<noteq> 1 then Inl CbConstraint
      else Inr (db\<lparr>cb_payments := update_where (\<lambda>pay. py_ID pay = paymentID)
             (\<lambda>pay. pay\<lparr>py_Status := ''paid'', py_LedgerTransactionID := Some ledgerTxnID, py_PaidDate := Some paidDate\<rparr>)
             (cb_payments db)\<rparr>))"

definition paid_count :: "cb_db \<Rightarrow> int \<Rightarrow> int" where
  "paid_count db planID = int (length (filter (\<lambda>pay. py_PlanID pay = planID \<and> py_Status pay = ''paid'') (cb_payments db)))"

text \<open>
  The UPDATE fails when the new row breaks a CHECK; a missing plan is \<^verbatim>\<open>pgx.ErrNoRows\<close>.
\<close>

definition RefreshPaymentsMadeCache :: "instant \<Rightarrow> string list \<Rightarrow> int \<Rightarrow> cb_db \<Rightarrow> cb_error + (int \<times> bool) \<times> cb_db" where
  "RefreshPaymentsMadeCache now allowed planID db =
     (case List.find (\<lambda>p. pl_ID p = planID) (cb_plans db) of
        None \<Rightarrow> Inl CbPlanNotFound
      | Some p \<Rightarrow>
          (let n = paid_count db planID;
               upd = (\<lambda>p. p\<lparr>pl_PaymentsMade := n,
                            pl_Status := (if n \<ge> pl_TotalMonths p then ''completed'' else pl_Status p),
                            pl_UpdatedAt := now\<rparr>) in
           if \<not> plan_checks allowed (upd p) then Inl CbConstraint
           else Inr ((n, n \<ge> pl_TotalMonths p), db\<lparr>cb_plans := update_where (\<lambda>p. pl_ID p = planID) upd (cb_plans db)\<rparr>)))"

definition GetPlan :: "cb_db \<Rightarrow> int \<Rightarrow> int \<Rightarrow> cb_error + plan" where
  "GetPlan db userID planID =
     (case List.find (\<lambda>p. pl_ID p = planID \<and> pl_UserID p = userID) (cb_plans db) of
        None \<Rightarrow> Inl CbPlanNotFound
      | Some p \<Rightarrow> Inr p)"

definition ListPlansByUser :: "cb_db \<Rightarrow> int \<Rightarrow> nat \<Rightarrow> int \<Rightarrow> string option \<Rightarrow> plan list" where
  "ListPlansByUser db userID limit beforeID status =
     take limit (filter (\<lambda>p. pl_UserID p = userID \<and> (beforeID = 0 \<or> pl_ID p < beforeID) \<and>
        (case status of None \<Rightarrow> True | Some s \<Rightarrow> pl_Status p = s)) (rev (cb_plans db)))"

definition ListPaymentsByPlanID :: "cb_db \<Rightarrow> int \<Rightarrow> nat \<Rightarrow> int \<Rightarrow> payment list" where
  "ListPaymentsByPlanID db planID limit beforeID =
     take limit (filter (\<lambda>pay. py_PlanID pay = planID \<and> (beforeID = 0 \<or> py_ID pay < beforeID)) (rev (cb_payments db)))"

section \<open>Creating plans\<close>

record order_delivered =
  od_OrderID :: int
  od_UserID :: int
  od_DeliveredAt :: instant
  od_Market :: string
  od_Currency :: string
  od_PriceMinor :: int
  od_CommissionBps :: int
  od_Items :: "commission_item list"
  od_ProductID :: int
  od_ProductTitle :: string
  od_ProductImageURL :: string

text \<open>The service: clock, coin currency, calendar loader (nil or a table of markets), CHECK list.\<close>

record cb_cfg =
  cc_env :: wenv
  cc_currency :: string
  cc_loader :: "(string \<times> calendar) list option"
  cc_allowed :: "string list"

definition plan_start :: "cb_cfg \<Rightarrow> order_delivered \<Rightarrow> cb_error + day" where
  "plan_start cfg ev =
     (case cc_loader cfg of
        None \<Rightarrow> Inr (add_date (day_of (od_DeliveredAt ev)) 0 3)
      | Some cals \<Rightarrow>
          (case static_Load cals (od_Market ev) of
             None \<Rightarrow> Inl CbCalendar
           | Some cal \<Rightarrow> Inr (day_of (AddBusinessDays (od_DeliveredAt ev) 3 cal))))"

definition plan_key :: "int \<Rightarrow> string" where
  "plan_key orderID = ''cashback:plan:order_'' @ itoa orderID"

definition plan_created_key :: "int \<Rightarrow> string" where
  "plan_created_key orderID = ''fin:cashback:plan:created:order_'' @ itoa orderID"

definition new_plan :: "cb_cfg \<Rightarrow> order_delivered \<Rightarrow> plan_terms \<Rightarrow> day \<Rightarrow> plan" where
  "new_plan cfg ev terms start =
     \<lparr>pl_ID = 0, pl_OrderID = od_OrderID ev, pl_UserID = od_UserID ev, pl_PriceMinor = od_PriceMinor ev,
      pl_CommissionBps = od_CommissionBps ev, pl_Currency = cc_currency cfg,
      pl_TotalMonths = pt_TotalMonths terms, pl_MonthlyAmountMinor = pt_MonthlyAmountMinor terms,
      pl_MonthlyAmountLastMinor = pt_MonthlyAmountLastMinor terms, pl_PaymentsMade = 0,
      pl_Status = ''active'', pl_StartDate = start, pl_DeliveredAt = od_DeliveredAt ev, pl_Market = od_Market ev,
      pl_CommissionSnapshot = JArr (map commission_item_json (od_Items ev)),
      pl_IdempotencyKey = plan_key (od_OrderID ev), pl_ProductID = od_ProductID ev,
      pl_ProductTitle = od_ProductTitle ev, pl_ProductImageURL = od_ProductImageURL ev,
      pl_CreatedAt = 0, pl_UpdatedAt = 0\<rparr>"

definition plan_created_json :: "plan \<Rightarrow> json" where
  "plan_created_json p = JObj
     [(''plan_id'', JInt (pl_ID p)), (''order_id'', JInt (pl_OrderID p)), (''user_id'', JInt (pl_UserID p)),
      (''price_minor'', JInt (pl_PriceMinor p)), (''commission_bps'', JInt (pl_CommissionBps p)),
      (''total_months'', JInt (pl_TotalMonths p)), (''monthly_amount_minor'', JInt (pl_MonthlyAmountMinor p)),
      (''currency'', JStr (pl_Currency p)), (''start_date'', JStr (fmt_date (pl_StartDate p))),
      (''market'', JStr (pl_Market p))]"

definition plan_created_row :: "plan \<Rightarrow> outbox_row" where
  "plan_created_row p =
     \<lparr>o_id = 0, o_aggregate = ''cashback'', o_event_type = ''fin.cashback.plan.created.v1'',
      o_payload = plan_created_json p, o_idempotency_key = plan_created_key (pl_OrderID p), o_trace_id = [],
      o_span_id = [], o_market = pl_Market p, o_currency = pl_Currency p, o_created_at = 0, o_published_at = None\<rparr>"

text \<open>The transaction: plan row and outbox row together, nothing at all on a re-delivery.\<close>

definition create_body :: "cb_cfg \<Rightarrow> cb_db \<Rightarrow> plan \<Rightarrow> (cb_db, unit, cb_error, plan) tx_body" where
  "create_body cfg pool p db c =
     (case InsertPlanIfAbsent (we_now (cc_env cfg)) (cc_allowed cfg) pool p db of
        Inl e \<Rightarrow> (Inl e, c)
      | Inr ((created, isNew), db1) \<Rightarrow>
          if \<not> isNew then (Inr (created, db1), c)
          else (case outbox_Insert (we_now (cc_env cfg)) (plan_created_row created) (db_outbox (cb_wallet db1)) of
                  Inl e \<Rightarrow> (Inl (CbOutbox e), c)
                | Inr ob \<Rightarrow> (Inr (created, db1\<lparr>cb_wallet := (cb_wallet db1)\<lparr>db_outbox := ob\<rparr>\<rparr>), c)))"

text \<open>\<open>Inr None\<close> is the zero \<^verbatim>\<open>Plan{}\<close> of a skipped zero-price order.\<close>

definition CreatePlanFromDelivery ::
    "cb_cfg \<Rightarrow> tx_outcome list \<Rightarrow> order_delivered \<Rightarrow> cb_db \<Rightarrow> (cb_error tx_error + plan option) \<times> cb_db" where
  "CreatePlanFromDelivery cfg outs ev db =
     (if od_PriceMinor ev \<le> 0 then (Inr None, db)
      else (case ComputePlanTerms (od_PriceMinor ev) (od_CommissionBps ev) of
        Inl e \<Rightarrow> (Inl (TxFn e), db)
      | Inr terms \<Rightarrow>
          (case plan_start cfg ev of
             Inl e \<Rightarrow> (Inl (TxFn e), db)
           | Inr start \<Rightarrow>
               (case cashback_WithTx outs (create_body cfg db (new_plan cfg ev terms start)) db () of
                  (Inl e, db', _) \<Rightarrow> (Inl e, db')
                | (Inr p, db', _) \<Rightarrow> (Inr (Some p), db')))))"

section \<open>The delivery consumer\<close>

definition decode_item :: "json \<Rightarrow> commission_item option" where
  "decode_item j =
     (case (jint ''variant_id'' j, jint ''seller_id'' j, jint ''category_id'' j, jint ''qty'' j, jint ''unit_price_minor'' j) of
        (Some v, Some s, Some c, Some q, Some u) \<Rightarrow>
          (case (jint ''commission_pct_bps'' j, jint ''kdv_pct_bps'' j, jint ''commission_amount_minor'' j,
                 jint ''kdv_amount_minor'' j, jint ''seller_net_minor'' j) of
             (Some cp, Some kp, Some ca, Some ka, Some sn) \<Rightarrow>
               Some \<lparr>ci_VariantID = v, ci_SellerID = s, ci_CategoryID = c, ci_Qty = q, ci_UnitPriceMinor = u,
                     ci_CommissionPctBps = cp, ci_KdvPctBps = kp, ci_CommissionAmountMinor = ca,
                     ci_KdvAmountMinor = ka, ci_SellerNetMinor = sn\<rparr>
           | _ \<Rightarrow> None)
      | _ \<Rightarrow> None)"

text \<open>\<^verbatim>\<open>json.Unmarshal\<close> into \<^verbatim>\<open>orderDeliveredPayload\<close>; the market and currency of the payload are not used.\<close>

definition decode_delivered :: "event \<Rightarrow> order_delivered option" where
  "decode_delivered ev =
     (let j = ev_payload ev in
      case (jint ''order_id'' j, jint ''user_id'' j, jtime ''delivered_at'' j, jstr ''market'' j, jstr ''currency'' j) of
        (Some oid, Some uid, Some dt, Some _, Some _) \<Rightarrow>
          (case (jint ''price_minor'' j, jint ''commission_bps'' j, jarr decode_item ''items'' j,
                 jint ''product_id'' j, jstr ''product_title'' j) of
             (Some price, Some bps, Some items, Some pid, Some title) \<Rightarrow>
               (case jstr ''product_image_url'' j of
                  Some url \<Rightarrow>
                    Some \<lparr>od_OrderID = oid, od_UserID = uid, od_DeliveredAt = dt, od_Market = ev_market ev,
                          od_Currency = ev_currency ev, od_PriceMinor = price, od_CommissionBps = bps,
                          od_Items = items, od_ProductID = pid, od_ProductTitle = title,
                          od_ProductImageURL = url\<rparr>
                | None \<Rightarrow> None)
           | _ \<Rightarrow> None)
      | _ \<Rightarrow> None)"

text \<open>Events without a price carry it in their items; the rate is the one of the first item.\<close>

definition resolve_price :: "order_delivered \<Rightarrow> order_delivered" where
  "resolve_price ev =
     (if od_PriceMinor ev = 0 \<and> od_Items ev \<noteq> []
      then ev\<lparr>od_PriceMinor := sum64 (\<lambda>it. wrap64 (ci_UnitPriceMinor it * ci_Qty it)) (od_Items ev),
              od_CommissionBps := ci_CommissionPctBps (hd (od_Items ev))\<rparr>
      else ev)"

definition handleDelivered :: "cb_cfg \<Rightarrow> tx_outcome list \<Rightarrow> event \<Rightarrow> cb_db \<Rightarrow> (cb_error tx_error) option \<times> cb_db" where
  "handleDelivered cfg outs ev db =
     (case decode_delivered ev of
        None \<Rightarrow> (Some (TxFn CbUnmarshal), db)
      | Some ode \<Rightarrow>
          (case CreatePlanFromDelivery cfg outs (resolve_price ode) db of
             (Inl e, db') \<Rightarrow> (Some e, db')
           | (Inr p, db') \<Rightarrow> (None, db')))"

section \<open>Paying installments\<close>

definition cronBatchSize :: nat where
  "cronBatchSize = 50"

definition equityAcctType :: string where
  "equityAcctType = ''equity:cashback_distribution''"

record payment_summary =
  su_Processed :: int
  su_Skipped :: int
  su_Failed :: int
  su_Retries :: int

definition zero_summary :: payment_summary where
  "zero_summary = \<lparr>su_Processed = 0, su_Skipped = 0, su_Failed = 0, su_Retries = 0\<rparr>"

text \<open>
  What lives in the process while a plan is paid: the ledger's cache, the shared counters (the
  transaction body increments them, and no rollback undoes that) and the captured variable \<^verbatim>\<open>done\<close>.
\<close>

record pay_local =
  lo_cache :: wcache
  lo_sum :: payment_summary
  lo_done :: bool

definition payment_key :: "int \<Rightarrow> int \<Rightarrow> string" where
  "payment_key planID period = ''cashback:plan_'' @ itoa planID @ '':period_'' @ itoa period"

definition installment_key :: "int \<Rightarrow> int \<Rightarrow> string" where
  "installment_key planID n = ''cashback:'' @ itoa planID @ '':installment:'' @ itoa n"

definition installment_post :: "plan \<Rightarrow> int \<Rightarrow> int \<Rightarrow> int \<Rightarrow> int \<Rightarrow> post_input" where
  "installment_post p n amount equityAcctID userAcctID =
     \<lparr>pi_Type = ''cashback_payment'', pi_Reference = ''plan:'' @ itoa (pl_ID p) @ '':installment:'' @ itoa n,
      pi_FxPairID = [], pi_IdempotencyKey = installment_key (pl_ID p) n, pi_Market = pl_Market p,
      pi_Currency = pl_Currency p,
      pi_Entries = [\<lparr>e_AccountID = equityAcctID, e_Direction = Debit, e_AmountMinor = amount\<rparr>,
                    \<lparr>e_AccountID = userAcctID, e_Direction = Credit, e_AmountMinor = amount\<rparr>],
      pi_EventType = ''fin.cashback.payment.posted.v1'',
      pi_Metadata = [(''installment'', itoa n), (''plan_id'', itoa (pl_ID p)), (''user_id'', itoa (pl_UserID p))]\<rparr>"

definition bump_skipped :: "pay_local \<Rightarrow> pay_local" where
  "bump_skipped l = l\<lparr>lo_sum := (lo_sum l)\<lparr>su_Skipped := su_Skipped (lo_sum l) + 1\<rparr>\<rparr>"

definition bump_processed :: "pay_local \<Rightarrow> pay_local" where
  "bump_processed l = l\<lparr>lo_sum := (lo_sum l)\<lparr>su_Processed := su_Processed (lo_sum l) + 1\<rparr>\<rparr>"

text \<open>The closure of \<^verbatim>\<open>payOnePlanInTx\<close>: claim, post, mark, refresh, count.\<close>

definition pay_body :: "cb_cfg \<Rightarrow> wallet_db \<Rightarrow> plan \<Rightarrow> int \<Rightarrow> int \<Rightarrow> int \<Rightarrow> int \<Rightarrow> instant
    \<Rightarrow> (cb_db, pay_local, cb_error, unit) tx_body" where
  "pay_body cfg pool p n amount equityAcctID userAcctID runDate db l =
     (let now = we_now (cc_env cfg);
          period = timeToPeriod (day_of runDate);
          claim = \<lparr>cl_PlanID = pl_ID p, cl_PeriodYYYYMM = period,
                   cl_ScheduledDate = add_date (pl_StartDate p) (n - 1) 0, cl_AmountMinor = amount,
                   cl_IdempotencyKey = payment_key (pl_ID p) period\<rparr> in
      case ClaimPaymentPeriod now claim db of
        Inl e \<Rightarrow> (Inl e, l)
      | Inr (None, db1) \<Rightarrow> (Inr ((), db1), bump_skipped l)
      | Inr (Some paymentID, db1) \<Rightarrow>
          (case PostInTx (cc_env cfg) pool (installment_post p n amount equityAcctID userAcctID)
                  (cb_wallet db1) (lo_cache l) of
             (Inl e, c) \<Rightarrow> (Inl (CbWallet e), l\<lparr>lo_cache := c\<rparr>)
           | (Inr (txnID, w), c) \<Rightarrow>
               (let l1 = l\<lparr>lo_cache := c\<rparr> in
                case MarkPaymentPaid paymentID txnID (day_of runDate) (db1\<lparr>cb_wallet := w\<rparr>) of
                  Inl e \<Rightarrow> (Inl e, l1)
                | Inr db2 \<Rightarrow>
                    (case RefreshPaymentsMadeCache now (cc_allowed cfg) (pl_ID p) db2 of
                       Inl e \<Rightarrow> (Inl e, l1)
                     | Inr ((newCount, completed), db3) \<Rightarrow>
                         (Inr ((), db3), (if completed then (bump_processed l1)\<lparr>lo_done := True\<rparr> else bump_processed l1))))))"

definition plan_terms_of :: "plan \<Rightarrow> plan_terms" where
  "plan_terms_of p = \<lparr>pt_TotalMonths = pl_TotalMonths p, pt_MonthlyAmountMinor = pl_MonthlyAmountMinor p,
     pt_MonthlyAmountLastMinor = pl_MonthlyAmountLastMinor p\<rparr>"

text \<open>
  The user's wallet: found active, opened, or a reason to stop. \<open>Inr None\<close> is the clean skip of a
  wallet that is not active.
\<close>

definition resolve_wallet :: "cb_cfg \<Rightarrow> tx_outcome list \<Rightarrow> plan \<Rightarrow> wallet_db \<Rightarrow> (cb_error tx_error + int option) \<times> wallet_db" where
  "resolve_wallet cfg oouts p w =
     (case FindAccountByOwnerAnyStatus w ''user'' (pl_UserID p) (pl_Currency p) of
        Inl e \<Rightarrow> (Inl (TxFn (CbWallet e)), w)
      | Inr (acctID, status) \<Rightarrow>
          if acctID = 0
          then (case OpenOrFindUserWallet (cc_env cfg) oouts (pl_UserID p) (pl_Currency p) w of
                  (Inl e, w') \<Rightarrow> (Inl (TxFn (CbOpenWallet e)), w')
                | (Inr i, w') \<Rightarrow> (Inr (Some i), w'))
          else if status \<noteq> ''active'' then (Inr None, w)
          else (Inr (Some acctID), w))"

definition payOnePlanInTx :: "cb_cfg \<Rightarrow> tx_outcome list \<Rightarrow> tx_outcome list \<Rightarrow> plan \<Rightarrow> int \<Rightarrow> instant
    \<Rightarrow> cb_db \<Rightarrow> pay_local \<Rightarrow> (cb_error tx_error) option \<times> cb_db \<times> pay_local" where
  "payOnePlanInTx cfg oouts outs p equityAcctID runDate db l0 =
     (let l = l0\<lparr>lo_done := False\<rparr>;
          n = pl_PaymentsMade p + 1;
          amount = InstallmentAmount (plan_terms_of p) n in
      if amount = 0 then (None, db, (bump_skipped l)\<lparr>lo_done := True\<rparr>)
      else (case resolve_wallet cfg oouts p (cb_wallet db) of
              (Inl e, w) \<Rightarrow> (Some e, db\<lparr>cb_wallet := w\<rparr>, l)
            | (Inr None, w) \<Rightarrow> (None, db\<lparr>cb_wallet := w\<rparr>, (bump_skipped l)\<lparr>lo_done := True\<rparr>)
            | (Inr (Some userAcctID), w) \<Rightarrow>
                (let db1 = db\<lparr>cb_wallet := w\<rparr> in
                 if PaymentExistsForPeriod db1 (pl_ID p) (timeToPeriod (day_of runDate))
                 then (None, db1, (bump_skipped l)\<lparr>lo_done := True\<rparr>)
                 else (case cashback_WithTx outs (pay_body cfg (cb_wallet db1) p n amount equityAcctID userAcctID runDate) db1 l of
                         (Inl e, db2, l2) \<Rightarrow> (Some e, db2, l2)
                       | (Inr u, db2, l2) \<Rightarrow> (None, db2, l2)))))"

fun is_serialization :: "cb_error tx_error \<Rightarrow> bool" where
  "is_serialization TxSerialization = True"
| "is_serialization (TxFn (CbOpenWallet TxSerialization)) = True"
| "is_serialization _ = False"

text \<open>
  \<^verbatim>\<open>payOnePlan\<close>: up to three runs; \<open>k\<close> is the number of runs left, \<open>outs\<close> the server's answers for each
  run (account opening and payment). Returns the attempt index and the error.
\<close>

fun payOnePlan_from :: "nat \<Rightarrow> nat \<Rightarrow> cb_cfg \<Rightarrow> (tx_outcome list \<times> tx_outcome list) list \<Rightarrow> plan \<Rightarrow> int \<Rightarrow> instant
    \<Rightarrow> cb_db \<Rightarrow> pay_local \<Rightarrow> (int \<times> (cb_error tx_error) option) \<times> cb_db \<times> pay_local" where
  "payOnePlan_from 0 attempt cfg outs p eq runDate db l = ((2, Some TxMaxRetries), db, l)"
| "payOnePlan_from (Suc k) attempt cfg outs p eq runDate db l =
     (let (oouts, pouts) = (case outs of [] \<Rightarrow> ([], []) | o1 # _ \<Rightarrow> o1) in
      case payOnePlanInTx cfg oouts pouts p eq runDate db l of
        (None, db', l') \<Rightarrow> ((int attempt, None), db', l')
      | (Some e, db', l') \<Rightarrow>
          if is_serialization e \<and> k > 0
          then payOnePlan_from k (Suc attempt) cfg (tl outs) p eq runDate db' l'
          else if lo_done l' then ((int attempt, None), db', l')
          else ((int attempt, Some e), db', l'))"

definition payOnePlan :: "cb_cfg \<Rightarrow> (tx_outcome list \<times> tx_outcome list) list \<Rightarrow> plan \<Rightarrow> int \<Rightarrow> instant
    \<Rightarrow> cb_db \<Rightarrow> pay_local \<Rightarrow> (int \<times> (cb_error tx_error) option) \<times> cb_db \<times> pay_local" where
  "payOnePlan cfg outs p eq runDate db l = payOnePlan_from 3 0 cfg outs p eq runDate db l"

text \<open>
  The inner loop over one batch, with the cache of equity accounts per currency; the environment
  gives the server's answers per plan id.
\<close>

fun pay_batch :: "cb_cfg \<Rightarrow> (int \<Rightarrow> (tx_outcome list \<times> tx_outcome list) list) \<Rightarrow> instant \<Rightarrow> plan list
    \<Rightarrow> (string \<times> int) list \<Rightarrow> cb_db \<Rightarrow> pay_local \<Rightarrow> (cb_error + (string \<times> int) list) \<times> cb_db \<times> pay_local" where
  "pay_batch cfg srv runDate [] eqs db l = (Inr eqs, db, l)"
| "pay_batch cfg srv runDate (p # ps) eqs db l =
     (case (case map_of eqs (pl_Currency p) of
              Some i \<Rightarrow> Inr i
            | None \<Rightarrow> FindAccount (cb_wallet db) equityAcctType (pl_Currency p)) of
        Inl e \<Rightarrow> (Inl (CbWallet e), db, l)
      | Inr eq \<Rightarrow>
          (case payOnePlan cfg (srv (pl_ID p)) p eq runDate db l of
             ((retries, err), db', l') \<Rightarrow>
               (let s = lo_sum l';
                    s1 = s\<lparr>su_Retries := su_Retries s + retries\<rparr>;
                    s2 = (case err of None \<Rightarrow> s1 | Some _ \<Rightarrow> s1\<lparr>su_Failed := su_Failed s1 + 1\<rparr>) in
                pay_batch cfg srv runDate ps ((pl_Currency p, eq) # eqs) db' (l'\<lparr>lo_sum := s2\<rparr>))))"

text \<open>
  The outer loop. It may run for ever, so it takes fuel; \<open>None\<close> is a run that has not returned yet.
\<close>

fun pay_loop :: "nat \<Rightarrow> cb_cfg \<Rightarrow> (int \<Rightarrow> (tx_outcome list \<times> tx_outcome list) list) \<Rightarrow> instant
    \<Rightarrow> (string \<times> int) list \<Rightarrow> cb_db \<Rightarrow> pay_local \<Rightarrow> ((cb_error option) \<times> cb_db \<times> pay_local) option" where
  "pay_loop 0 cfg srv runDate eqs db l = None"
| "pay_loop (Suc fuel) cfg srv runDate eqs db l =
     (let plans = ListDuePlans db runDate (timeToPeriod (day_of runDate)) cronBatchSize in
      if plans = [] then Some (None, db, l)
      else (case pay_batch cfg srv runDate plans eqs db l of
              (Inl e, db', l') \<Rightarrow> Some (Some e, db', l')
            | (Inr eqs', db', l') \<Rightarrow>
                if length plans < cronBatchSize then Some (None, db', l')
                else pay_loop fuel cfg srv runDate eqs' db' l'))"

definition PayMonthlyInstallments :: "nat \<Rightarrow> cb_cfg \<Rightarrow> (int \<Rightarrow> (tx_outcome list \<times> tx_outcome list) list) \<Rightarrow> instant
    \<Rightarrow> cb_db \<Rightarrow> wcache \<Rightarrow> ((cb_error option) \<times> payment_summary \<times> cb_db) option" where
  "PayMonthlyInstallments fuel cfg srv runDate db c =
     map_option (\<lambda>(err, db', l). (err, lo_sum l, db'))
       (pay_loop fuel cfg srv runDate [] db \<lparr>lo_cache = c, lo_sum = zero_summary, lo_done = False\<rparr>)"

section \<open>The schedule covers the price exactly\<close>

lemma div_mult_le: "0 < b \<Longrightarrow> (a :: int) div b * b \<le> a"
  by (simp add: minus_mod_eq_div_mult [symmetric])

lemma schedule_fits:
  fixes price bps :: int
  assumes "0 < price" "100 \<le> bps"
  shows "(CashbackK div bps) * (price * bps div CashbackK) \<le> price"
proof -
  let ?t = "CashbackK div bps" and ?m = "price * bps div CashbackK"
  have t: "0 \<le> ?t" "?t * bps \<le> CashbackK" and m: "0 \<le> ?m" "?m * CashbackK \<le> price * bps"
    using assms div_mult_le [of bps CashbackK] div_mult_le [of CashbackK "price * bps"]
    by (simp_all add: CashbackK_def pos_imp_zdiv_nonneg_iff)
  have "(?t * bps) * (?m * CashbackK) \<le> CashbackK * (price * bps)"
    using mult_mono [OF t(2) m(2)] t m by (simp add: CashbackK_def)
  then have "(?t * ?m) * (bps * CashbackK) \<le> price * (bps * CashbackK)"
    by (simp add: algebra_simps)
  then show ?thesis
    using assms(2) by (simp add: CashbackK_def)
qed

text \<open>The closed form: no 64-bit operation overflows, and the balloon branch is never an error.\<close>

lemma ComputePlanTerms_closed:
  "ComputePlanTerms price bps =
     (if 0 < price \<and> price \<le> 10 ^ 14 \<and> 100 \<le> bps \<and> bps \<le> 10000 \<and> CashbackK \<le> price * bps
      then Inr \<lparr>pt_TotalMonths = CashbackK div bps, pt_MonthlyAmountMinor = price * bps div CashbackK,
                pt_MonthlyAmountLastMinor = price - (CashbackK div bps - 1) * (price * bps div CashbackK)\<rparr>
      else Inl CbInvalidPlanInput)"
proof (cases "0 < price \<and> price \<le> 10 ^ 14 \<and> 100 \<le> bps \<and> bps \<le> 10000")
  case False
  then show ?thesis by (auto simp: ComputePlanTerms_def)
next
  case True
  let ?t = "CashbackK div bps" and ?m = "price * bps div CashbackK"
  have "0 \<le> price * bps" "price * bps \<le> 10 ^ 14 * 10000"
    using True by (simp, intro mult_mono) simp_all
  then have pb: "wrap64 (price * bps) = price * bps"
    by (intro wrap64_id is_i64_small) simp
  have t: "1 \<le> ?t" "?t \<le> 1560"
    using True zdiv_mono2 [of CashbackK 100 bps]
    by (simp_all add: CashbackK_def pos_imp_zdiv_pos_iff int_one_le_iff_zero_less)
  have m: "0 \<le> ?m" "1 \<le> ?m \<longleftrightarrow> CashbackK \<le> price * bps"
    using \<open>0 \<le> price * bps\<close>
    by (simp_all add: CashbackK_def int_one_le_iff_zero_less pos_imp_zdiv_pos_iff pos_imp_zdiv_nonneg_iff)
  have fit: "?t * ?m \<le> price" using schedule_fits True by simp
  have tm: "0 \<le> (?t - 1) * ?m" "(?t - 1) * ?m \<le> price - ?m"
    using mult_nonneg_nonneg [of "?t - 1" ?m] t m fit by (simp_all add: left_diff_distrib)
  have small: "wrap64 x = x" "wrap64 (price - x) = price - x" if "0 \<le> x" "x \<le> price - ?m" for x
    using that True m by (intro wrap64_id is_i64_small; simp)+
  have w0: "wrap64 (?t - 1) = ?t - 1" using t by (intro wrap64_id is_i64_small) simp
  note w = w0 small [OF tm]
  have s: "CashbackK sdiv bps = ?t" "price * bps sdiv CashbackK = ?m"
    using True by (simp_all add: CashbackK_def sdiv_nonneg)
  show ?thesis
    using True t m tm unfolding ComputePlanTerms_def Let_def pb s w by auto
qed

definition terms_ok :: "int \<Rightarrow> plan_terms \<Rightarrow> bool" where
  "terms_ok price tm \<longleftrightarrow> 1 \<le> pt_TotalMonths tm \<and> 1 \<le> pt_MonthlyAmountMinor tm \<and>
     pt_MonthlyAmountMinor tm \<le> pt_MonthlyAmountLastMinor tm \<and>
     (pt_TotalMonths tm - 1) * pt_MonthlyAmountMinor tm + pt_MonthlyAmountLastMinor tm = price"

lemma ComputePlanTerms_ok: "ComputePlanTerms price bps = Inr tm \<Longrightarrow> terms_ok price tm"
  using schedule_fits [of price bps]
  by (auto simp: ComputePlanTerms_closed terms_ok_def CashbackK_def int_one_le_iff_zero_less pos_imp_zdiv_pos_iff
      algebra_simps split: if_splits)

text \<open>Installments from the first to the \<open>k\<close>-th.\<close>

definition paid_sum :: "plan_terms \<Rightarrow> int \<Rightarrow> int" where
  "paid_sum tm k = (\<Sum>n = 1..k. InstallmentAmount tm n)"

lemma paid_sum_0 [simp]: "paid_sum tm 0 = 0"
  by (simp add: paid_sum_def)

lemma paid_sum_Suc: "0 \<le> k \<Longrightarrow> paid_sum tm (k + 1) = paid_sum tm k + InstallmentAmount tm (k + 1)"
proof -
  assume "0 \<le> k"
  then have "{1..k + 1} = insert (k + 1) {1..k}" by auto
  then show ?thesis by (simp add: paid_sum_def)
qed

lemma paid_sum_regular:
  "0 \<le> k \<Longrightarrow> k < pt_TotalMonths tm \<Longrightarrow> paid_sum tm k = k * pt_MonthlyAmountMinor tm"
proof (induction k rule: int_ge_induct)
  case base
  show ?case by simp
next
  case (step i)
  then show ?case by (simp add: paid_sum_Suc InstallmentAmount_def distrib_right)
qed

lemma paid_sum_total:
  assumes "terms_ok price tm"
  shows "paid_sum tm (pt_TotalMonths tm) = price"
proof -
  have "paid_sum tm (pt_TotalMonths tm - 1) = (pt_TotalMonths tm - 1) * pt_MonthlyAmountMinor tm"
    using assms by (intro paid_sum_regular) (simp_all add: terms_ok_def)
  then show ?thesis
    using assms paid_sum_Suc [of "pt_TotalMonths tm - 1" tm] by (simp add: terms_ok_def InstallmentAmount_def)
qed

lemma InstallmentAmount_pos:
  "terms_ok price tm \<Longrightarrow> 1 \<le> n \<Longrightarrow> n \<le> pt_TotalMonths tm \<Longrightarrow> 0 < InstallmentAmount tm n"
  by (auto simp: terms_ok_def InstallmentAmount_def)

text \<open>
  C4. The payment schedule is exact for every input: \<^verbatim>\<open>ComputePlanTerms\<close> accepts precisely the
  prices in \<open>(0, 10^14]\<close> with a rate in \<open>[100, 10000]\<close> whose monthly amount is at least one minor unit;
  no intermediate 64-bit value overflows; the schedule has \<open>156000 div bps\<close> months; and its
  installments are all positive and add up to the price to the last minor unit.
\<close>

theorem ComputePlanTerms_exact:
  "(case ComputePlanTerms price bps of
      Inl e \<Rightarrow> \<not> (0 < price \<and> price \<le> 10 ^ 14 \<and> 100 \<le> bps \<and> bps \<le> 10000 \<and> CashbackK \<le> price * bps)
    | Inr tm \<Rightarrow> pt_TotalMonths tm = CashbackK div bps \<and>
        (\<Sum>n = 1..pt_TotalMonths tm. InstallmentAmount tm n) = price \<and>
        (\<forall>n. (0 < InstallmentAmount tm n) = (1 \<le> n \<and> n \<le> pt_TotalMonths tm)))"
proof (cases "ComputePlanTerms price bps")
  case (Inl e)
  then show ?thesis by (simp add: ComputePlanTerms_closed split: if_splits)
next
  case (Inr tm)
  note ok = ComputePlanTerms_ok [OF Inr]
  have "(0 < InstallmentAmount tm n) = (1 \<le> n \<and> n \<le> pt_TotalMonths tm)" for n
    using InstallmentAmount_pos [OF ok, of n] by (auto simp: InstallmentAmount_def)
  moreover have "pt_TotalMonths tm = CashbackK div bps"
    using Inr by (auto simp: ComputePlanTerms_closed split: if_splits)
  ultimately show ?thesis using Inr paid_sum_total [OF ok] by (simp add: paid_sum_def)
qed

section \<open>The engine invariant\<close>

lemma installment_key_inj [simp]: "installment_key a m = installment_key b n \<longleftrightarrow> a = b \<and> m = n"
  by (auto simp: installment_key_def sep_inj itoa_no_sep)

lemma payment_key_inj [simp]: "payment_key a m = payment_key b n \<longleftrightarrow> a = b \<and> m = n"
  by (auto simp: payment_key_def sep_inj itoa_no_sep)

definition plan_payments :: "cb_db \<Rightarrow> int \<Rightarrow> payment list" where
  "plan_payments db planID = filter (\<lambda>pay. py_PlanID pay = planID) (cb_payments db)"

text \<open>
  One plan and the payments and postings that belong to it: the CHECKs hold, the cached count is the
  number of payment rows, the \<open>k\<close>-th row carries the \<open>k\<close>-th installment, and the ledger holds
  exactly the installments counted.
\<close>

definition plan_inv :: "string list \<Rightarrow> cb_db \<Rightarrow> plan \<Rightarrow> bool" where
  "plan_inv allowed db p \<longleftrightarrow> plan_checks allowed p \<and>
     int (length (plan_payments db (pl_ID p))) = pl_PaymentsMade p \<and>
     map py_AmountMinor (plan_payments db (pl_ID p)) = map (InstallmentAmount (plan_terms_of p)) [1..pl_PaymentsMade p] \<and>
     (\<forall>n. posted (cb_wallet db) (installment_key (pl_ID p) n) \<noteq> None \<longleftrightarrow> 1 \<le> n \<and> n \<le> pl_PaymentsMade p) \<and>
     (pl_PaymentsMade p = pl_TotalMonths p \<longrightarrow> pl_Status p = ''completed'')"

definition payment_row_inv :: "cb_db \<Rightarrow> payment \<Rightarrow> bool" where
  "payment_row_inv db pay \<longleftrightarrow> py_Status pay = ''paid'' \<and> py_PlanID pay \<in> pl_ID ` set (cb_plans db) \<and>
     py_IdempotencyKey pay = payment_key (py_PlanID pay) (py_PeriodYYYYMM pay) \<and>
     (\<exists>t. py_LedgerTransactionID pay = Some t \<and> t \<in> x_id ` set (db_transactions (cb_wallet db)) \<and>
        credits (cb_wallet db) t = [py_AmountMinor pay])"

definition cb_inv :: "string list \<Rightarrow> cb_db \<Rightarrow> bool" where
  "cb_inv allowed db \<longleftrightarrow> wallet_inv (cb_wallet db) \<and>
     fresh_ids pl_ID (cb_next_plan db) (cb_plans db) \<and> distinct (map pl_OrderID (cb_plans db)) \<and>
     fresh_ids py_ID (cb_next_payment db) (cb_payments db) \<and>
     distinct (map (\<lambda>pay. (py_PlanID pay, py_PeriodYYYYMM pay)) (cb_payments db)) \<and>
     (\<forall>pay \<in> set (cb_payments db). payment_row_inv db pay) \<and>
     (\<forall>p \<in> set (cb_plans db). plan_inv allowed db p) \<and>
     (\<forall>i n. i \<notin> pl_ID ` set (cb_plans db) \<longrightarrow> posted (cb_wallet db) (installment_key i n) = None)"

lemma cb_plan_unique:
  "cb_inv allowed db \<Longrightarrow> p \<in> set (cb_plans db) \<Longrightarrow> q \<in> set (cb_plans db) \<Longrightarrow> pl_ID p = pl_ID q \<Longrightarrow> p = q"
  by (auto simp: cb_inv_def fresh_ids_def distinct_map dest: inj_onD)

lemma cb_find_plan:
  "cb_inv allowed db \<Longrightarrow> p \<in> set (cb_plans db) \<Longrightarrow> List.find (\<lambda>q. pl_ID q = pl_ID p) (cb_plans db) = Some p"
  by (simp add: cb_inv_def fresh_ids_def find_distinct_key)

lemma plan_terms_ok: "plan_checks allowed p \<Longrightarrow> terms_ok (pl_PriceMinor p) (plan_terms_of p)"
  by (auto simp: plan_checks_def terms_ok_def plan_terms_of_def)

text \<open>The ledger may grow by anything but installments: the engine's own part is untouched.\<close>

lemma cb_inv_wallet:
  assumes "cb_inv allowed db" "wallet_inv w" "\<And>i n. posted w (installment_key i n) = posted (cb_wallet db) (installment_key i n)"
    and "ledger_keeps (cb_wallet db) w"
  shows "cb_inv allowed (db\<lparr>cb_wallet := w\<rparr>)"
proof -
  have "payment_row_inv (db\<lparr>cb_wallet := w\<rparr>) pay" if "payment_row_inv db pay" for pay
    using that credits_keep [OF assms(4)] by (auto simp: payment_row_inv_def)
  then show ?thesis using assms(1-3) by (simp add: cb_inv_def plan_inv_def plan_payments_def)
qed

section \<open>One installment\<close>

text \<open>The row and the plan update a successful payment leaves behind.\<close>

definition paid_row :: "cb_cfg \<Rightarrow> cb_db \<Rightarrow> plan \<Rightarrow> int \<Rightarrow> instant \<Rightarrow> int \<Rightarrow> payment" where
  "paid_row cfg db p n runDate txn =
     \<lparr>py_ID = cb_next_payment db, py_PlanID = pl_ID p, py_PeriodYYYYMM = timeToPeriod (day_of runDate),
      py_ScheduledDate = add_date (pl_StartDate p) (n - 1) 0, py_PaidDate = Some (day_of runDate),
      py_AmountMinor = InstallmentAmount (plan_terms_of p) n, py_Status = ''paid'',
      py_LedgerTransactionID = Some txn,
      py_IdempotencyKey = payment_key (pl_ID p) (timeToPeriod (day_of runDate)), py_AttemptCount = 1,
      py_CreatedAt = we_now (cc_env cfg)\<rparr>"

definition advanced :: "cb_cfg \<Rightarrow> plan \<Rightarrow> plan" where
  "advanced cfg p = p\<lparr>pl_PaymentsMade := pl_PaymentsMade p + 1,
     pl_Status := (if pl_PaymentsMade p + 1 \<ge> pl_TotalMonths p then ''completed'' else pl_Status p),
     pl_UpdatedAt := we_now (cc_env cfg)\<rparr>"

definition paid_db :: "cb_cfg \<Rightarrow> plan \<Rightarrow> instant \<Rightarrow> int \<Rightarrow> wallet_db \<Rightarrow> cb_db \<Rightarrow> cb_db" where
  "paid_db cfg p runDate txn w db =
     db\<lparr>cb_wallet := w, cb_payments := cb_payments db @ [paid_row cfg db p (pl_PaymentsMade p + 1) runDate txn],
        cb_next_payment := cb_next_payment db + 1,
        cb_plans := update_where (\<lambda>q. pl_ID q = pl_ID p) (advanced cfg) (cb_plans db)\<rparr>"

lemma MarkPaymentPaid_new:
  assumes "fresh_ids py_ID nxt pays" "py_ID row = nxt" "cb_payments db = pays @ [row]"
  shows "MarkPaymentPaid nxt txn d db =
    Inr (db\<lparr>cb_payments := pays @ [row\<lparr>py_Status := ''paid'', py_LedgerTransactionID := Some txn, py_PaidDate := Some d\<rparr>]\<rparr>)"
proof -
  have "\<And>r. r \<in> set pays \<Longrightarrow> py_ID r \<noteq> nxt" using assms(1) by (auto simp: fresh_ids_def)
  then have "filter (\<lambda>r. py_ID r = nxt) pays = []"
      "update_where (\<lambda>r. py_ID r = nxt) f pays = pays" for f
    by (auto simp: filter_empty_conv update_where_none)
  then show ?thesis using assms(2,3) by (simp add: MarkPaymentPaid_def rows_affected_def)
qed

lemma paid_count_all: "(\<forall>pay \<in> set (cb_payments db). py_Status pay = ''paid'') \<Longrightarrow>
    paid_count db i = int (length (plan_payments db i))"
  unfolding paid_count_def plan_payments_def by (auto intro!: arg_cong [where f = length] filter_cong)

text \<open>A body that returns without error either lost the race for the period, or paid.\<close>

lemma pay_body_cases:
  assumes inv: "cb_inv allowed db" and p: "p \<in> set (cb_plans db)" and al: "cc_allowed cfg = allowed"
    and n: "n = pl_PaymentsMade p + 1" and am: "amount = InstallmentAmount (plan_terms_of p) n"
    and b: "pay_body cfg (cb_wallet db) p n amount eq user runDate db l = (Inr ((), db'), l')"
  obtains (lost) "db' = db"
      "list_ex (\<lambda>pay. py_PlanID pay = pl_ID p \<and> py_PeriodYYYYMM pay = timeToPeriod (day_of runDate)
        \<or> py_IdempotencyKey pay = payment_key (pl_ID p) (timeToPeriod (day_of runDate))) (cb_payments db)"
      "l' = bump_skipped l"
  | (paid) txn w c' where
      "PostInTx_seq (cc_env cfg) (installment_post p n amount eq user) (cb_wallet db) (lo_cache l) = (Inr (txn, w), c')"
      "\<not> list_ex (\<lambda>pay. py_PlanID pay = pl_ID p \<and> py_PeriodYYYYMM pay = timeToPeriod (day_of runDate)
        \<or> py_IdempotencyKey pay = payment_key (pl_ID p) (timeToPeriod (day_of runDate))) (cb_payments db)"
      "0 < amount" "plan_checks allowed (advanced cfg p)" "db' = paid_db cfg p runDate txn w db"
      "lo_sum l' = (lo_sum l)\<lparr>su_Processed := su_Processed (lo_sum l) + 1\<rparr>"
proof -
  define period where "period = timeToPeriod (day_of runDate)"
  define claim where "claim = \<lparr>cl_PlanID = pl_ID p, cl_PeriodYYYYMM = period,
    cl_ScheduledDate = add_date (pl_StartDate p) (n - 1) 0, cl_AmountMinor = amount,
    cl_IdempotencyKey = payment_key (pl_ID p) period\<rparr>"
  define dup where "dup = list_ex (\<lambda>pay. py_PlanID pay = pl_ID p \<and> py_PeriodYYYYMM pay = period
    \<or> py_IdempotencyKey pay = payment_key (pl_ID p) period) (cb_payments db)"
  define row where "row = \<lparr>py_ID = cb_next_payment db, py_PlanID = pl_ID p, py_PeriodYYYYMM = period,
    py_ScheduledDate = add_date (pl_StartDate p) (n - 1) 0, py_PaidDate = None, py_AmountMinor = amount,
    py_Status = ''scheduled'', py_LedgerTransactionID = None, py_IdempotencyKey = payment_key (pl_ID p) period,
    py_AttemptCount = 1, py_CreatedAt = we_now (cc_env cfg)\<rparr>"
  define db1 where "db1 = db\<lparr>cb_payments := cb_payments db @ [row], cb_next_payment := cb_next_payment db + 1\<rparr>"
  have claim_eq: "ClaimPaymentPeriod (we_now (cc_env cfg)) claim db =
      (if \<not> (202600 \<le> period \<and> period \<le> 209912) \<or> amount \<le> 0 then Inl CbConstraint
       else if dup then Inr (None, db) else Inr (Some (cb_next_payment db), db1))"
    using cb_find_plan [OF inv p] by (simp add: ClaimPaymentPeriod_def claim_def dup_def db1_def row_def)
  have ok: "202600 \<le> period \<and> period \<le> 209912" "0 < amount"
    using b claim_eq unfolding pay_body_def Let_def claim_def [symmetric] period_def [symmetric]
    by (auto split: if_splits)
  show thesis
  proof (cases dup)
    case True
    then show thesis
      using b claim_eq ok lost unfolding pay_body_def Let_def claim_def [symmetric] period_def [symmetric]
      by (simp add: dup_def period_def)
  next
    case False
    let ?post = "installment_post p n amount eq user"
    obtain txn w c' where post: "PostInTx (cc_env cfg) (cb_wallet db) ?post (cb_wallet db1) (lo_cache l) = (Inr (txn, w), c')"
      using b claim_eq ok False unfolding pay_body_def Let_def claim_def [symmetric] period_def [symmetric]
      by (auto split: sum.splits prod.splits)
    have w1: "cb_wallet db1 = cb_wallet db" by (simp add: db1_def)
    define row2 where "row2 = row\<lparr>py_Status := ''paid'', py_LedgerTransactionID := Some txn, py_PaidDate := Some (day_of runDate)\<rparr>"
    define db2 where "db2 = db\<lparr>cb_wallet := w, cb_next_payment := cb_next_payment db + 1, cb_payments := cb_payments db @ [row2]\<rparr>"
    have fresh: "fresh_ids py_ID (cb_next_payment db) (cb_payments db)" using inv by (simp add: cb_inv_def)
    have mark: "MarkPaymentPaid (cb_next_payment db) txn (day_of runDate) (db1\<lparr>cb_wallet := w\<rparr>) = Inr db2"
      using MarkPaymentPaid_new [OF fresh, of row "db1\<lparr>cb_wallet := w\<rparr>" txn "day_of runDate"]
      by (cases db) (simp add: db1_def db2_def row2_def row_def)
    obtain r3 where ref: "RefreshPaymentsMadeCache (we_now (cc_env cfg)) (cc_allowed cfg) (pl_ID p) db2 = Inr r3"
      using b claim_eq ok False post mark unfolding pay_body_def Let_def claim_def [symmetric] period_def [symmetric]
      by (auto split: sum.splits prod.splits)
    have res: "db' = snd r3 \<and> lo_sum l' = (lo_sum l)\<lparr>su_Processed := su_Processed (lo_sum l) + 1\<rparr>"
      using b claim_eq ok False post mark ref unfolding pay_body_def Let_def claim_def [symmetric] period_def [symmetric]
      by (cases r3) (auto simp: bump_processed_def split: if_splits)
    have "int (length (plan_payments db (pl_ID p))) = pl_PaymentsMade p"
      using inv p by (simp add: cb_inv_def plan_inv_def)
    moreover have "\<forall>pay \<in> set (cb_payments db2). py_Status pay = ''paid''"
      using inv by (auto simp: db2_def row2_def cb_inv_def payment_row_inv_def)
    ultimately have cnt: "paid_count db2 (pl_ID p) = pl_PaymentsMade p + 1"
      by (simp add: paid_count_all) (simp add: plan_payments_def db2_def row2_def row_def)
    have adv: "(\<lambda>q. q\<lparr>pl_PaymentsMade := pl_PaymentsMade p + 1, pl_Status := (if pl_PaymentsMade p + 1 \<ge> pl_TotalMonths q
        then ''completed'' else pl_Status q), pl_UpdatedAt := we_now (cc_env cfg)\<rparr>) p = advanced cfg p"
      by (simp add: advanced_def)
    have upd: "update_where (\<lambda>q. pl_ID q = pl_ID p) (\<lambda>q. q\<lparr>pl_PaymentsMade := pl_PaymentsMade p + 1,
        pl_Status := (if pl_PaymentsMade p + 1 \<ge> pl_TotalMonths q then ''completed'' else pl_Status q),
        pl_UpdatedAt := we_now (cc_env cfg)\<rparr>) (cb_plans db) =
        update_where (\<lambda>q. pl_ID q = pl_ID p) (advanced cfg) (cb_plans db)"
      unfolding update_where_def using cb_plan_unique [OF inv _ p] by (auto simp: advanced_def)
    have find2: "List.find (\<lambda>q. pl_ID q = pl_ID p) (cb_plans db2) = Some p"
      using cb_find_plan [OF inv p] by (simp add: db2_def)
    have checks: "plan_checks allowed (advanced cfg p)" "snd r3 = paid_db cfg p runDate txn w db"
      using ref adv upd unfolding RefreshPaymentsMadeCache_def find2 cnt option.case Let_def al
      by (auto simp: paid_db_def db2_def row2_def row_def paid_row_def n am period_def split: if_splits)
    show thesis
      by (rule paid [of txn w c'])
        (use post w1 False ok checks res in \<open>simp_all add: PostInTx_seq_def dup_def period_def\<close>)
  qed
qed

lemma advanced_simps [simp]:
  "pl_ID (advanced cfg p) = pl_ID p" "pl_OrderID (advanced cfg p) = pl_OrderID p"
  "pl_UserID (advanced cfg p) = pl_UserID p" "pl_TotalMonths (advanced cfg p) = pl_TotalMonths p"
  "pl_PaymentsMade (advanced cfg p) = pl_PaymentsMade p + 1" "plan_terms_of (advanced cfg p) = plan_terms_of p"
  by (simp_all add: advanced_def plan_terms_of_def)

lemma paid_db_simps [simp]:
  "cb_wallet (paid_db cfg p runDate txn w db) = w"
  "cb_payments (paid_db cfg p runDate txn w db) =
     cb_payments db @ [paid_row cfg db p (pl_PaymentsMade p + 1) runDate txn]"
  "cb_next_payment (paid_db cfg p runDate txn w db) = cb_next_payment db + 1"
  "cb_plans (paid_db cfg p runDate txn w db) = update_where (\<lambda>q. pl_ID q = pl_ID p) (advanced cfg) (cb_plans db)"
  "cb_next_plan (paid_db cfg p runDate txn w db) = cb_next_plan db"
  by (simp_all add: paid_db_def)

lemma paid_db_plans:
  assumes "cb_inv allowed db" "p \<in> set (cb_plans db)"
  shows "set (cb_plans (paid_db cfg p runDate txn w db)) = insert (advanced cfg p) (set (cb_plans db) - {p})"
proof -
  have "pl_ID q = pl_ID p \<longleftrightarrow> q = p" if "q \<in> set (cb_plans db)" for q
    using cb_plan_unique [OF assms(1) that assms(2)] by auto
  then show ?thesis using assms(2) by (auto simp: set_update_where)
qed

text \<open>What a committed installment does to the ledger: the key is new, so the amount moves once.\<close>

lemma installment_fresh:
  assumes "cb_inv allowed db" "p \<in> set (cb_plans db)"
  shows "posted (cb_wallet db) (installment_key (pl_ID p) (pl_PaymentsMade p + 1)) = None"
proof -
  have "plan_inv allowed db p" using assms by (simp add: cb_inv_def)
  then show ?thesis unfolding plan_inv_def by (metis add_le_same_cancel1 not_one_le_zero)
qed

lemma installment_posted:
  assumes inv: "cb_inv allowed db" and p: "p \<in> set (cb_plans db)"
    and post: "PostInTx_seq env (installment_post p (pl_PaymentsMade p + 1) amount eq user) (cb_wallet db) c = (Inr (txn, w), c')"
    and ok: "commit_ok (cb_wallet db) w"
  shows "wallet_inv w \<and> posted w = (posted (cb_wallet db))(installment_key (pl_ID p) (pl_PaymentsMade p + 1) \<mapsto> txn) \<and>
    GetBalanceStrict w = (\<lambda>a. GetBalanceStrict (cb_wallet db) a + leg_sum [(eq, - amount), (user, amount)] a)"
proof -
  have key: "pi_IdempotencyKey (installment_post p m amount eq user) = installment_key (pl_ID p) m"
    and legs: "pi_legs (installment_post p m amount eq user) = [(eq, - amount), (user, amount)]" for m
    by (simp_all add: installment_post_def pi_legs_def)
  have wi: "wallet_inv (cb_wallet db)" using inv by (simp add: cb_inv_def)
  show ?thesis
    using installment_fresh [OF inv p] wl.post_new [OF wi _ post ok] wl.post_inv [OF wi post ok] by (simp add: key legs)
qed

lemma plan_payments_paid:
  "plan_payments (paid_db cfg p runDate txn w db) i = plan_payments db i @
     (if i = pl_ID p then [paid_row cfg db p (pl_PaymentsMade p + 1) runDate txn] else [])"
  by (simp add: plan_payments_def paid_row_def)

lemma upto_snoc: "0 \<le> (k :: int) \<Longrightarrow> [1..k + 1] = [1..k] @ [k + 1]"
  using upto_rec2 [of 1 "k + 1"] by simp

lemma plan_inv_paid:
  assumes inv: "cb_inv allowed db" and p: "p \<in> set (cb_plans db)" and q: "q \<in> set (cb_plans db)"
    and checks: "plan_checks allowed (advanced cfg p)"
    and w: "posted w = (posted (cb_wallet db))(installment_key (pl_ID p) (pl_PaymentsMade p + 1) \<mapsto> txn)"
  shows "plan_inv allowed (paid_db cfg p runDate txn w db) (if q = p then advanced cfg p else q)"
proof (cases "q = p")
  case True
  have pi: "plan_inv allowed db p" using inv p by (simp add: cb_inv_def)
  then have "0 \<le> pl_PaymentsMade p" by (simp add: plan_inv_def plan_checks_def)
  then show ?thesis
    using True pi checks w
    by (auto simp: plan_inv_def plan_payments_paid upto_snoc paid_row_def) (auto simp: advanced_def)
next
  case False
  then have "pl_ID q \<noteq> pl_ID p" using cb_plan_unique [OF inv q p] by auto
  moreover have "plan_inv allowed db q" using inv q by (simp add: cb_inv_def)
  ultimately show ?thesis using False w by (simp add: plan_inv_def plan_payments_paid)
qed

lemma paid_db_inv:
  assumes inv: "cb_inv allowed db" and p: "p \<in> set (cb_plans db)"
    and checks: "plan_checks allowed (advanced cfg p)"
    and post: "PostInTx_seq env (installment_post p (pl_PaymentsMade p + 1) amount eq user) (cb_wallet db) c = (Inr (txn, w), c')"
    and amt: "amount = InstallmentAmount (plan_terms_of p) (pl_PaymentsMade p + 1)"
    and ok: "commit_ok (cb_wallet db) w"
    and nodup: "\<not> list_ex (\<lambda>pay. py_PlanID pay = pl_ID p \<and> py_PeriodYYYYMM pay = timeToPeriod (day_of runDate)
        \<or> py_IdempotencyKey pay = payment_key (pl_ID p) (timeToPeriod (day_of runDate))) (cb_payments db)"
  shows "cb_inv allowed (paid_db cfg p runDate txn w db)"
proof -
  let ?db' = "paid_db cfg p runDate txn w db"
  note w = installment_posted [OF inv p post ok]
  have l: "ledger_keeps (cb_wallet db) w" "txn \<in> x_id ` set (db_transactions w)" "credits w txn = [amount]"
    using PostInTx_seq_ledger [OF _ post ok] inv installment_fresh [OF inv p]
    by (simp_all add: cb_inv_def installment_post_def)
  have ids: "pl_ID ` set (cb_plans ?db') = pl_ID ` set (cb_plans db)"
    using map_update_where [of pl_ID "advanced cfg" "\<lambda>q. pl_ID q = pl_ID p" "cb_plans db"]
    by (metis advanced_simps(1) paid_db_simps(4) set_map)
  have "fresh_ids pl_ID (cb_next_plan ?db') (cb_plans ?db') \<and> distinct (map pl_OrderID (cb_plans ?db'))"
    using inv by (simp add: cb_inv_def fresh_ids_update map_update_where)
  moreover have "fresh_ids py_ID (cb_next_payment ?db') (cb_payments ?db')"
    using inv by (simp add: cb_inv_def fresh_ids_append paid_row_def)
  moreover have "distinct (map (\<lambda>pay. (py_PlanID pay, py_PeriodYYYYMM pay)) (cb_payments ?db'))"
    using inv nodup by (auto simp: cb_inv_def paid_row_def list_ex_iff)
  moreover have "payment_row_inv ?db' pay" if "pay \<in> set (cb_payments ?db')" for pay
  proof (cases "pay \<in> set (cb_payments db)")
    case True
    then have "payment_row_inv db pay" using inv by (simp add: cb_inv_def)
    then show ?thesis using credits_keep [of "cb_wallet db" w] l unfolding payment_row_inv_def ids by auto
  next
    case False
    then have "pay = paid_row cfg db p (pl_PaymentsMade p + 1) runDate txn" using that by simp
    then show ?thesis using p l amt unfolding payment_row_inv_def ids by (simp add: paid_row_def)
  qed
  moreover have "plan_inv allowed ?db' q" if "q \<in> set (cb_plans ?db')" for q
  proof -
    have "posted w = (posted (cb_wallet db))(installment_key (pl_ID p) (pl_PaymentsMade p + 1) \<mapsto> txn)" using w by simp
    note step = plan_inv_paid [OF inv p _ checks this, of _ runDate]
    have "q = advanced cfg p \<or> q \<in> set (cb_plans db) \<and> q \<noteq> p"
      using that unfolding paid_db_plans [OF inv p] by blast
    then show ?thesis using step [OF p] step [of q] by auto
  qed
  moreover have "posted (cb_wallet ?db') (installment_key i n) = None" if "i \<notin> pl_ID ` set (cb_plans ?db')" for i n
    using that w inv p unfolding ids by (auto simp: cb_inv_def)
  ultimately show ?thesis using w by (simp add: cb_inv_def)
qed

lemma openOrFind_posted:
  assumes "openOrFind env outs ty oty oid cur w = (r, w')"
  shows "posted w' = posted w \<and> GetBalanceStrict w' = GetBalanceStrict w"
  using openOrFind_append [OF assms] by (simp add: fun_eq_iff posted_def GetBalanceStrict_def)

lemma resolve_wallet_keeps:
  assumes "resolve_wallet cfg oouts p w = (r, w')" "wallet_inv w"
  shows "wallet_inv w' \<and> posted w' = posted w \<and> GetBalanceStrict w' = GetBalanceStrict w \<and> ledger_keeps w w'"
  using assms openOrFind_posted openOrFind_inv openOrFind_ledger_keeps
  by (auto simp: resolve_wallet_def OpenOrFindUserWallet_def split: sum.splits prod.splits if_splits)

text \<open>
  What one run of \<^verbatim>\<open>payOnePlanInTx\<close> may do to the database: open the user's wallet, and then possibly pay
  exactly the next installment of the plan, moving its amount from the equity account to a user wallet.
\<close>

definition wallet_opened :: "cb_db \<Rightarrow> cb_db \<Rightarrow> bool" where
  "wallet_opened db db' \<longleftrightarrow> (\<exists>w. db' = db\<lparr>cb_wallet := w\<rparr> \<and> wallet_inv w \<and> posted w = posted (cb_wallet db) \<and>
     GetBalanceStrict w = GetBalanceStrict (cb_wallet db) \<and> ledger_keeps (cb_wallet db) w)"

definition installment_paid :: "cb_cfg \<Rightarrow> plan \<Rightarrow> int \<Rightarrow> instant \<Rightarrow> cb_db \<Rightarrow> cb_db \<Rightarrow> bool" where
  "installment_paid cfg p eq runDate db db' \<longleftrightarrow>
     (\<exists>db1 user txn w. wallet_opened db db1 \<and> db' = paid_db cfg p runDate txn w db1 \<and>
        \<not> PaymentExistsForPeriod db (pl_ID p) (timeToPeriod (day_of runDate)) \<and>
        plan_checks (cc_allowed cfg) (advanced cfg p) \<and>
        GetBalanceStrict w = (\<lambda>a. GetBalanceStrict (cb_wallet db) a +
          leg_sum [(eq, - InstallmentAmount (plan_terms_of p) (pl_PaymentsMade p + 1)),
                   (user, InstallmentAmount (plan_terms_of p) (pl_PaymentsMade p + 1))] a))"

lemma wallet_opened_inv:
  assumes "cb_inv allowed db" "wallet_opened db db1"
  shows "cb_inv allowed db1"
  using assms cb_inv_wallet [OF assms(1)] by (auto simp: wallet_opened_def)

lemma wallet_opened_refl: "cb_inv allowed db \<Longrightarrow> wallet_opened db db"
  by (auto simp: wallet_opened_def cb_inv_def intro!: exI [of _ "cb_wallet db"])

lemma wallet_opened_trans: "wallet_opened a b \<Longrightarrow> wallet_opened b c \<Longrightarrow> wallet_opened a c"
  using ledger_keeps_trans by (fastforce simp: wallet_opened_def)

lemma pay_tx:
  assumes inv: "cb_inv (cc_allowed cfg) db" and p: "p \<in> set (cb_plans db)"
    and t: "cashback_WithTx outs (pay_body cfg (cb_wallet db) p (pl_PaymentsMade p + 1)
      (InstallmentAmount (plan_terms_of p) (pl_PaymentsMade p + 1)) eq user runDate) db l = (r, db', l')"
  shows "cb_inv (cc_allowed cfg) db' \<and> (db' = db \<or> r = Inr () \<and> installment_paid cfg p eq runDate db db')"
proof (cases r)
  case (Inl e)
  then show ?thesis using t inv with_retry_error unfolding cashback_WithTx_def by metis
next
  case (Inr u)
  obtain l0 where b: "pay_body cfg (cb_wallet db) p (pl_PaymentsMade p + 1)
      (InstallmentAmount (plan_terms_of p) (pl_PaymentsMade p + 1)) eq user runDate db l0 = (Inr ((), db'), l')"
    and ok: "commit_ok (cb_wallet db) (cb_wallet db')"
    using with_retry_success [OF t [unfolded cashback_WithTx_def Inr]] by (auto simp: cb_commit_ok_def)
  from inv p refl refl refl b show ?thesis
  proof (rule pay_body_cases)
    assume "db' = db"
    then show ?thesis using inv by simp
  next
    fix txn w c'
    assume post: "PostInTx_seq (cc_env cfg) (installment_post p (pl_PaymentsMade p + 1)
          (InstallmentAmount (plan_terms_of p) (pl_PaymentsMade p + 1)) eq user) (cb_wallet db) (lo_cache l0) = (Inr (txn, w), c')"
      and nodup: "\<not> list_ex (\<lambda>pay. py_PlanID pay = pl_ID p \<and> py_PeriodYYYYMM pay = timeToPeriod (day_of runDate)
        \<or> py_IdempotencyKey pay = payment_key (pl_ID p) (timeToPeriod (day_of runDate))) (cb_payments db)"
      and checks: "plan_checks (cc_allowed cfg) (advanced cfg p)" and db': "db' = paid_db cfg p runDate txn w db"
    have okw: "commit_ok (cb_wallet db) w" using ok db' by simp
    have "\<not> PaymentExistsForPeriod db (pl_ID p) (timeToPeriod (day_of runDate))"
      using nodup by (auto simp: PaymentExistsForPeriod_def list_ex_iff)
    then have "installment_paid cfg p eq runDate db db'"
      unfolding installment_paid_def
      using db' checks wallet_opened_refl [OF inv] installment_posted [OF inv p post okw]
      by (intro exI [of _ db] exI [of _ user] exI [of _ txn] exI [of _ w]) simp
    then show ?thesis
      using paid_db_inv [OF inv p checks post refl okw nodup] db' Inr by (simp add: unit_eq)
  qed
qed

lemma installment_paid_opened:
  assumes "wallet_opened db db1" "installment_paid cfg p eq runDate db1 db2"
  shows "installment_paid cfg p eq runDate db db2"
proof -
  have same: "PaymentExistsForPeriod db1 = PaymentExistsForPeriod db" "GetBalanceStrict (cb_wallet db1) = GetBalanceStrict (cb_wallet db)"
    using assms(1) by (auto simp: wallet_opened_def fun_eq_iff PaymentExistsForPeriod_def)
  show ?thesis
    using assms(2) wallet_opened_trans [OF assms(1)] unfolding installment_paid_def same by blast
qed

lemma payOnePlanInTx_spec:
  assumes inv: "cb_inv (cc_allowed cfg) db" and p: "p \<in> set (cb_plans db)"
    and r: "payOnePlanInTx cfg oouts outs p eq runDate db l = (err, db', l')"
  shows "cb_inv (cc_allowed cfg) db' \<and>
    (wallet_opened db db' \<or> err = None \<and> installment_paid cfg p eq runDate db db')"
proof (cases "InstallmentAmount (plan_terms_of p) (pl_PaymentsMade p + 1) = 0")
  case True
  then show ?thesis using r inv wallet_opened_refl by (simp add: payOnePlanInTx_def Let_def)
next
  case False
  obtain rw w where rw: "resolve_wallet cfg oouts p (cb_wallet db) = (rw, w)" by fastforce
  define db1 where "db1 = db\<lparr>cb_wallet := w\<rparr>"
  have op: "wallet_opened db db1"
    using resolve_wallet_keeps [OF rw] inv by (auto simp: wallet_opened_def db1_def cb_inv_def)
  note inv1 = wallet_opened_inv [OF inv op]
  have p1: "p \<in> set (cb_plans db1)" using p by (simp add: db1_def)
  consider (stop) "db' = db1"
    | (run) user r2 where "cashback_WithTx outs (pay_body cfg (cb_wallet db1) p (pl_PaymentsMade p + 1)
        (InstallmentAmount (plan_terms_of p) (pl_PaymentsMade p + 1)) eq user runDate) db1 (l\<lparr>lo_done := False\<rparr>) = (r2, db', l')"
      "err = (case r2 of Inl e \<Rightarrow> Some e | Inr _ \<Rightarrow> None)"
    using r False rw
    by (auto simp: payOnePlanInTx_def Let_def db1_def split: sum.splits option.splits if_splits prod.splits)
  then show ?thesis
  proof cases
    case stop
    then show ?thesis using op inv1 by simp
  next
    case run
    then show ?thesis
      using pay_tx [OF inv1 p1 run(1)] op installment_paid_opened [OF op] by auto
  qed
qed

lemma wallet_opened_plans: "wallet_opened db db1 \<Longrightarrow> cb_plans db1 = cb_plans db \<and> cb_payments db1 = cb_payments db"
  by (auto simp: wallet_opened_def)

lemma payOnePlan_from_spec:
  assumes "payOnePlan_from k attempt cfg outs p eq runDate db l = ((n, err), db', l')"
    and "cb_inv (cc_allowed cfg) db" "p \<in> set (cb_plans db)"
  shows "cb_inv (cc_allowed cfg) db' \<and> (wallet_opened db db' \<or> installment_paid cfg p eq runDate db db')"
  using assms
proof (induction k arbitrary: attempt outs db l)
  case 0
  then show ?case using wallet_opened_refl by auto
next
  case (Suc k)
  obtain oouts pouts where o: "(case outs of [] \<Rightarrow> ([], []) | o1 # _ \<Rightarrow> o1) = (oouts, pouts)" by fastforce
  obtain e1 db1 l1 where r: "payOnePlanInTx cfg oouts pouts p eq runDate db l = (e1, db1, l1)" by (metis prod_cases3)
  note s = payOnePlanInTx_spec [OF Suc.prems(2,3) r]
  show ?case
  proof (cases "e1 \<noteq> None \<and> is_serialization (the e1) \<and> k > 0")
    case True
    then have op: "wallet_opened db db1" and inv1: "cb_inv (cc_allowed cfg) db1" using s by auto
    have "payOnePlan_from k (Suc attempt) cfg (tl outs) p eq runDate db1 l1 = ((n, err), db', l')"
      using Suc.prems(1) True by (auto simp: o r)
    then have "cb_inv (cc_allowed cfg) db' \<and> (wallet_opened db1 db' \<or> installment_paid cfg p eq runDate db1 db')"
      using Suc.IH [OF _ inv1] Suc.prems(3) wallet_opened_plans [OF op] by simp
    then show ?thesis using wallet_opened_trans [OF op] installment_paid_opened [OF op] by blast
  next
    case False
    then have "db' = db1"
      using Suc.prems(1) by (auto simp: o r split: option.splits if_splits)
    then show ?thesis using s by auto
  qed
qed

text \<open>
  Paying one plan leaves every other plan alone; so the plans of a batch, listed before the first is
  paid, are still what the database holds when their turn comes.
\<close>

lemma pay_keeps_others:
  assumes "cb_inv allowed db" "p \<in> set (cb_plans db)" "q \<in> set (cb_plans db)" "q \<noteq> p"
    and "wallet_opened db db' \<or> installment_paid cfg p eq runDate db db'"
  shows "q \<in> set (cb_plans db')"
  using assms(5)
proof
  assume "installment_paid cfg p eq runDate db db'"
  then obtain db1 txn w where d: "wallet_opened db db1" "db' = paid_db cfg p runDate txn w db1"
    by (auto simp: installment_paid_def)
  then show ?thesis
    using paid_db_plans [OF wallet_opened_inv [OF assms(1) d(1)], of p] assms(2-4) wallet_opened_plans [OF d(1)] by auto
qed (use assms(3) wallet_opened_plans in auto)

lemma pay_batch_inv:
  assumes "pay_batch cfg srv runDate ps eqs db l = (r, db', l')" "cb_inv (cc_allowed cfg) db"
    and "set ps \<subseteq> set (cb_plans db)" "distinct ps"
  shows "cb_inv (cc_allowed cfg) db'"
  using assms
proof (induction ps arbitrary: eqs db l)
  case Nil
  then show ?case by simp
next
  case (Cons p ps)
  define found where "found = (case map_of eqs (pl_Currency p) of Some i \<Rightarrow> Inr i
    | None \<Rightarrow> FindAccount (cb_wallet db) equityAcctType (pl_Currency p))"
  show ?case
  proof (cases found)
    case (Inl e)
    then show ?thesis using Cons.prems by (simp add: found_def)
  next
    case (Inr eq)
    obtain n err db1 l1 where o: "payOnePlan cfg (srv (pl_ID p)) p eq runDate db l = ((n, err), db1, l1)"
      by (metis prod_cases3 prod.collapse)
    have s: "cb_inv (cc_allowed cfg) db1 \<and> (wallet_opened db db1 \<or> installment_paid cfg p eq runDate db db1)"
      using payOnePlan_from_spec o Cons.prems(2,3) unfolding payOnePlan_def by simp
    have "set ps \<subseteq> set (cb_plans db1)"
    proof
      fix q assume "q \<in> set ps"
      then show "q \<in> set (cb_plans db1)"
        using pay_keeps_others [OF Cons.prems(2) _ _ _ conjunct2 [OF s]] Cons.prems(3,4) by auto
    qed
    moreover obtain l2 eqs2 where "pay_batch cfg srv runDate ps eqs2 db1 l2 = (r, db', l')"
      using Cons.prems(1) Inr o unfolding pay_batch.simps found_def [symmetric] by (auto simp: Let_def)
    ultimately show ?thesis using Cons.IH s Cons.prems(4) by simp
  qed
qed

lemma ListDuePlans_batch:
  "cb_inv allowed db \<Longrightarrow> set (ListDuePlans db runDate period k) \<subseteq> set (cb_plans db) \<and> distinct (ListDuePlans db runDate period k)"
  unfolding ListDuePlans_def
  by (auto dest!: in_set_takeD intro!: distinct_take distinct_filter simp: cb_inv_def fresh_ids_def distinct_map)

lemma pay_loop_inv:
  assumes "pay_loop fuel cfg srv runDate eqs db l = Some (err, db', l')" "cb_inv (cc_allowed cfg) db"
  shows "cb_inv (cc_allowed cfg) db'"
  using assms
proof (induction fuel arbitrary: eqs db l)
  case 0
  then show ?case by simp
next
  case (Suc fuel)
  let ?plans = "ListDuePlans db runDate (timeToPeriod (day_of runDate)) cronBatchSize"
  obtain r db1 l1 where b: "pay_batch cfg srv runDate ?plans eqs db l = (r, db1, l1)" by (metis prod_cases3)
  have "cb_inv (cc_allowed cfg) db1"
    using pay_batch_inv [OF b Suc.prems(2)] ListDuePlans_batch [OF Suc.prems(2)] by simp
  then show ?case
    using Suc.prems Suc.IH b by (auto simp: Let_def split: if_splits sum.splits)
qed

section \<open>Plan creation\<close>

lemma outbox_wallet_inv:
  assumes "wallet_inv w" "outbox_Insert now row (db_outbox w) = Inr ob"
  shows "wallet_inv (w\<lparr>db_outbox := ob\<rparr>)"
  using assms(1) outbox_Insert_ok [OF _ assms(2)] outbox_Insert_rows [OF assms(2)]
  by (auto simp: wallet_inv_def entry_row_ok_def acct_currency_def enforce_double_entry_def txn_entries_def currency_total_def)

lemma posted_outbox [simp]: "posted (w\<lparr>db_outbox := ob\<rparr>) = posted w"
  by (simp add: fun_eq_iff posted_def)

lemma cb_inv_new_plan:
  assumes inv: "cb_inv allowed db" and row: "pl_ID row = cb_next_plan db" "pl_PaymentsMade row = 0" "plan_checks allowed row"
    and oid: "pl_OrderID row \<notin> pl_OrderID ` set (cb_plans db)"
  shows "cb_inv allowed (db\<lparr>cb_plans := cb_plans db @ [row], cb_next_plan := cb_next_plan db + 1\<rparr>)"
proof -
  let ?db' = "db\<lparr>cb_plans := cb_plans db @ [row], cb_next_plan := cb_next_plan db + 1\<rparr>"
  have new: "pl_ID row \<notin> pl_ID ` set (cb_plans db)"
    using inv row by (auto simp: cb_inv_def fresh_ids_def)
  have "\<forall>pay \<in> set (cb_payments db). py_PlanID pay \<noteq> pl_ID row"
    using inv new unfolding cb_inv_def payment_row_inv_def by metis
  then have "plan_payments db (pl_ID row) = []" by (simp add: plan_payments_def)
  then have "plan_inv allowed ?db' row"
    using row inv new by (auto simp: plan_inv_def plan_payments_def cb_inv_def plan_checks_def)
  moreover have "plan_inv allowed ?db' p" if "p \<in> set (cb_plans db)" for p
    using inv that by (simp add: cb_inv_def plan_inv_def plan_payments_def)
  moreover have "payment_row_inv ?db' pay" if "pay \<in> set (cb_payments db)" for pay
    using inv that by (simp add: cb_inv_def payment_row_inv_def)
  ultimately show ?thesis
    using inv oid row(1) by (auto simp: cb_inv_def fresh_ids_append)
qed

lemma create_body_cases:
  assumes "create_body cfg db p db c = (Inr (q, db'), c')"
  obtains (existing) "List.find (\<lambda>x. pl_OrderID x = pl_OrderID p) (cb_plans db) = Some q" "db' = db"
  | (created) ob where "List.find (\<lambda>x. pl_OrderID x = pl_OrderID p) (cb_plans db) = None"
      "q = p\<lparr>pl_ID := cb_next_plan db, pl_PaymentsMade := 0, pl_CreatedAt := we_now (cc_env cfg), pl_UpdatedAt := we_now (cc_env cfg)\<rparr>"
      "plan_checks (cc_allowed cfg) q"
      "outbox_Insert (we_now (cc_env cfg)) (plan_created_row q) (db_outbox (cb_wallet db)) = Inr ob"
      "db' = db\<lparr>cb_plans := cb_plans db @ [q], cb_next_plan := cb_next_plan db + 1, cb_wallet := (cb_wallet db)\<lparr>db_outbox := ob\<rparr>\<rparr>"
  using assms
  by (auto simp: create_body_def InsertPlanIfAbsent_def fetchPlanByOrderID_def Let_def
      split: sum.splits if_splits option.splits prod.splits)

lemma create_body_inv:
  assumes "create_body cfg db p db c = (Inr (q, db'), c')" "cb_inv (cc_allowed cfg) db"
  shows "cb_inv (cc_allowed cfg) db'"
  using assms(1)
proof (cases rule: create_body_cases)
  case existing
  then show ?thesis using assms(2) by simp
next
  case (created ob)
  have w: "wallet_inv ((cb_wallet db)\<lparr>db_outbox := ob\<rparr>)"
    using assms(2) outbox_wallet_inv [OF _ created(4)] by (simp add: cb_inv_def)
  have "cb_inv (cc_allowed cfg) (db\<lparr>cb_plans := cb_plans db @ [q], cb_next_plan := cb_next_plan db + 1\<rparr>)"
    using created assms(2) by (intro cb_inv_new_plan) (auto simp: find_None_iff2)
  from cb_inv_wallet [OF this w] show ?thesis using created(5) by (simp add: ledger_keeps_same)
qed

lemma CreatePlan_cases:
  assumes "CreatePlanFromDelivery cfg outs ev db = (r, db')"
  obtains (stopped) "db' = db" "r = Inr None \<or> (\<exists>e. r = Inl e)"
  | (ran) tm start q where "ComputePlanTerms (od_PriceMinor ev) (od_CommissionBps ev) = Inr tm" "plan_start cfg ev = Inr start"
      "create_body cfg db (new_plan cfg ev tm start) db () = (Inr (q, db'), ())" "cb_commit_ok db db'" "r = Inr (Some q)"
proof -
  show thesis
  proof (cases "od_PriceMinor ev \<le> 0")
    case True
    then show thesis using assms by (intro stopped) (auto simp: CreatePlanFromDelivery_def)
  next
    case False
    show thesis
    proof (cases "ComputePlanTerms (od_PriceMinor ev) (od_CommissionBps ev)")
      case (Inl e)
      then show thesis using assms False by (intro stopped) (auto simp: CreatePlanFromDelivery_def)
    next
      case tm: (Inr tm)
      show thesis
      proof (cases "plan_start cfg ev")
        case (Inl e)
        then show thesis using assms False tm by (intro stopped) (auto simp: CreatePlanFromDelivery_def)
      next
        case st: (Inr start)
        obtain r1 db1 u where w: "cashback_WithTx outs (create_body cfg db (new_plan cfg ev tm start)) db () = (r1, db1, u)"
          by (metis prod_cases3)
        show thesis
        proof (cases r1)
          case (Inl e)
          then have "db1 = db" using w with_retry_error unfolding cashback_WithTx_def by metis
          then show thesis using assms False tm st w Inl by (intro stopped) (auto simp: CreatePlanFromDelivery_def)
        next
          case (Inr q)
          then show thesis
            using with_retry_success [OF w [unfolded cashback_WithTx_def Inr]] assms False tm st w
            by (intro ran [of tm start q]) (auto simp: CreatePlanFromDelivery_def)
        qed
      qed
    qed
  qed
qed

lemma CreatePlan_inv:
  assumes "CreatePlanFromDelivery cfg outs ev db = (r, db')" "cb_inv (cc_allowed cfg) db"
  shows "cb_inv (cc_allowed cfg) db'"
  using assms(1)
proof (cases rule: CreatePlan_cases)
  case (ran tm start q)
  then show ?thesis using create_body_inv assms(2) by blast
qed (use assms(2) in simp)

section \<open>Reachable states of the engine\<close>

text \<open>
  Deliveries, cron runs that return, and anything else that happens to the ledger (other engines,
  account openings, the relay) as long as it keeps the ledger invariant, leaves the recorded transactions
  alone and posts no installment.
\<close>

inductive cb_step :: "string list \<Rightarrow> cb_db \<Rightarrow> cb_db \<Rightarrow> bool" for allowed where
  step_delivered: "handleDelivered cfg outs ev db = (e, db') \<Longrightarrow> cc_allowed cfg = allowed \<Longrightarrow> cb_step allowed db db'"
| step_cron: "PayMonthlyInstallments fuel cfg srv runDate db c = Some (e, s, db') \<Longrightarrow> cc_allowed cfg = allowed \<Longrightarrow> cb_step allowed db db'"
| step_ledger: "wallet_inv w \<Longrightarrow> (\<And>i n. posted w (installment_key i n) = posted (cb_wallet db) (installment_key i n)) \<Longrightarrow>
    ledger_keeps (cb_wallet db) w \<Longrightarrow> cb_step allowed db (db\<lparr>cb_wallet := w\<rparr>)"

lemma handleDelivered_inv:
  "handleDelivered cfg outs ev db = (e, db') \<Longrightarrow> cb_inv (cc_allowed cfg) db \<Longrightarrow> cb_inv (cc_allowed cfg) db'"
  using CreatePlan_inv by (auto simp: handleDelivered_def split: option.splits prod.splits sum.splits)

lemma cb_step_inv: "cb_step allowed db db' \<Longrightarrow> cb_inv allowed db \<Longrightarrow> cb_inv allowed db'"
proof (induction rule: cb_step.induct)
  case (step_delivered cfg outs ev db e db')
  then show ?case using handleDelivered_inv by blast
next
  case (step_cron fuel cfg srv runDate db c e s db')
  then show ?case
    using pay_loop_inv by (fastforce simp: PayMonthlyInstallments_def)
next
  case (step_ledger w db)
  then show ?case using cb_inv_wallet by blast
qed

lemma cb_reachable_inv: "(cb_step allowed)\<^sup>*\<^sup>* db db' \<Longrightarrow> cb_inv allowed db \<Longrightarrow> cb_inv allowed db'"
  by (induction rule: rtranclp_induct) (auto intro: cb_step_inv)

section \<open>Properties of the engine\<close>

lemma handleDelivered_cases:
  assumes "handleDelivered cfg outs ev db = (e, db')"
  obtains (bad) "decode_delivered ev = None" "e \<noteq> None" "db' = db"
  | (created) ode r where "decode_delivered ev = Some ode" "CreatePlanFromDelivery cfg outs (resolve_price ode) db = (r, db')"
      "e = (case r of Inl x \<Rightarrow> Some x | Inr _ \<Rightarrow> None)"
  using assms by (auto simp: handleDelivered_def split: option.splits prod.splits sum.splits)

text \<open>A delivery is settled when its order has a plan, or when it is free of charge.\<close>

definition plan_settled :: "cb_db \<Rightarrow> event \<Rightarrow> bool" where
  "plan_settled db ev \<longleftrightarrow>
     (case decode_delivered ev of
        None \<Rightarrow> False
      | Some ode \<Rightarrow> od_PriceMinor (resolve_price ode) \<le> 0 \<or>
          List.find (\<lambda>p. pl_OrderID p = od_OrderID ode) (cb_plans db) \<noteq> None)"

lemma resolve_price_order [simp]: "od_OrderID (resolve_price ode) = od_OrderID ode"
  by (simp add: resolve_price_def)

lemma CreatePlan_plans:
  assumes "CreatePlanFromDelivery cfg outs ev db = (r, db')"
  shows "(\<exists>ps. cb_plans db' = cb_plans db @ ps) \<and>
    (List.find (\<lambda>p. pl_OrderID p = od_OrderID ev) (cb_plans db) \<noteq> None \<or> od_PriceMinor ev \<le> 0 \<longrightarrow> db' = db) \<and>
    (\<forall>q. r = Inr (Some q) \<longrightarrow> q \<in> set (cb_plans db') \<and> pl_OrderID q = od_OrderID ev)"
  using assms
proof (cases rule: CreatePlan_cases)
  case (ran tm start q)
  have "0 < od_PriceMinor ev" using ran(1) by (auto simp: ComputePlanTerms_def split: if_splits)
  with ran(3) show ?thesis
    by (cases rule: create_body_cases) (use ran(5) in \<open>auto simp: new_plan_def dest!: find_SomeD\<close>)
qed auto

definition cb_handle :: "cb_cfg \<times> tx_outcome list \<Rightarrow> event \<Rightarrow> cb_db \<Rightarrow> bool \<times> cb_db" where
  "cb_handle x ev db = (case handleDelivered (fst x) (snd x) ev db of (e, db') \<Rightarrow> (e = None, db'))"

lemma cb_handle_cases:
  assumes "cb_handle x ev db = (acked, db')"
  obtains (bad) "decode_delivered ev = None" "\<not> acked" "db' = db"
  | (created) ode r where "decode_delivered ev = Some ode" "CreatePlanFromDelivery (fst x) (snd x) (resolve_price ode) db = (r, db')"
      "acked = (\<exists>v. r = Inr v)"
proof -
  obtain e where "handleDelivered (fst x) (snd x) ev db = (e, db')" "acked = (e = None)"
    using assms by (auto simp: cb_handle_def split: prod.splits)
  then show thesis
    by (elim handleDelivered_cases) (use bad created in \<open>auto split: sum.splits\<close>)
qed

lemma CreatePlan_settles:
  assumes "CreatePlanFromDelivery cfg outs ev db = (Inr v, db')"
  shows "od_PriceMinor ev \<le> 0 \<or> List.find (\<lambda>p. pl_OrderID p = od_OrderID ev) (cb_plans db') \<noteq> None"
proof (cases v)
  case None
  then show ?thesis using assms
    by (auto simp: CreatePlanFromDelivery_def split: sum.splits prod.splits if_splits)
next
  case (Some q)
  then show ?thesis using CreatePlan_plans [OF assms] by (auto simp: find_None_iff2)
qed

text \<open>The configuration may change between deliveries, except for the schema's CHECK list.\<close>

definition cb_handle_for :: "string list \<Rightarrow> cb_cfg \<times> tx_outcome list \<Rightarrow> event \<Rightarrow> cb_db \<Rightarrow> bool \<times> cb_db" where
  "cb_handle_for allowed x ev db = cb_handle ((fst x)\<lparr>cc_allowed := allowed\<rparr>, snd x) ev db"

interpretation cbc: idempotent_consumer "cb_inv allowed" "cb_handle_for allowed" plan_settled for allowed
proof
  fix s x m acked s'
  assume i: "cb_inv allowed s" and h: "cb_handle_for allowed x m s = (acked, s')"
  from h [unfolded cb_handle_for_def] show "cb_inv allowed s'"
    by (cases rule: cb_handle_cases) (use i CreatePlan_inv in fastforce)+
next
  fix s x m s'
  assume i: "cb_inv allowed s" and h: "cb_handle_for allowed x m s = (True, s')"
  from h [unfolded cb_handle_for_def] show "plan_settled s' m"
    by (cases rule: cb_handle_cases) (use CreatePlan_settles in \<open>fastforce simp: plan_settled_def\<close>)+
next
  fix s m x acked s'
  assume i: "cb_inv allowed s" and p: "plan_settled s m" and h: "cb_handle_for allowed x m s = (acked, s')"
  from h [unfolded cb_handle_for_def] show "s' = s"
    by (cases rule: cb_handle_cases) (use p CreatePlan_plans in \<open>fastforce simp: plan_settled_def\<close>)+
next
  fix s m x k acked s'
  assume i: "cb_inv allowed s" and p: "plan_settled s m" and h: "cb_handle_for allowed x k s = (acked, s')"
  from h [unfolded cb_handle_for_def] have "\<exists>ps. cb_plans s' = cb_plans s @ ps"
    by (cases rule: cb_handle_cases) (use CreatePlan_plans in fastforce)+
  then show "plan_settled s' m" using p by (auto simp: plan_settled_def find_append split: option.splits)
qed

text \<open>
  At-least-once delivery creates each plan once: after \<^verbatim>\<open>ecom.order.delivered.v1\<close> has been
  acknowledged, delivering it again, at any later point among any other deliveries, with another
  clock, calendar or currency configuration and any server interference, leaves the database exactly
  as without the re-delivery.
\<close>

theorem delivered_exactly_once:
  assumes "cb_inv allowed db" "cb_handle_for allowed x ev db = (True, db1)"
  shows "deliver (cb_handle_for allowed) (ms @ (y, ev) # ns) db1 = deliver (cb_handle_for allowed) (ms @ ns) db1"
  using assms by (rule cbc.redelivery)

text \<open>
  C3. In every reachable state of the engine, whatever was delivered, however often the cron ran and
  whatever failed, a plan has at most one payment per calendar month, its payments are exactly its
  first \<open>payments_made\<close> installments in order, each with a ledger posting of its own, so the customer
  has received at most the price, and all of it exactly when the last installment is paid.
\<close>

theorem cashback_pays_schedule:
  assumes "(cb_step allowed)\<^sup>*\<^sup>* db0 db" "cb_inv allowed db0" "p \<in> set (cb_plans db)"
  shows "distinct (map py_PeriodYYYYMM (plan_payments db (pl_ID p))) \<and>
    map py_AmountMinor (plan_payments db (pl_ID p)) = map (InstallmentAmount (plan_terms_of p)) [1..pl_PaymentsMade p] \<and>
    (\<forall>n. posted (cb_wallet db) (installment_key (pl_ID p) n) \<noteq> None \<longleftrightarrow> 1 \<le> n \<and> n \<le> pl_PaymentsMade p) \<and>
    sum_list (map py_AmountMinor (plan_payments db (pl_ID p))) \<le> pl_PriceMinor p \<and>
    (sum_list (map py_AmountMinor (plan_payments db (pl_ID p))) = pl_PriceMinor p \<longleftrightarrow> pl_PaymentsMade p = pl_TotalMonths p)"
proof -
  have inv: "cb_inv allowed db" using cb_reachable_inv assms by blast
  then have pi: "plan_inv allowed db p" using assms(3) by (simp add: cb_inv_def)
  have "distinct (map (\<lambda>pay. (py_PlanID pay, py_PeriodYYYYMM pay)) (plan_payments db (pl_ID p)))"
    using inv by (simp add: cb_inv_def plan_payments_def distinct_map_filter)
  then have dist: "distinct (map py_PeriodYYYYMM (plan_payments db (pl_ID p)))"
    by (auto simp: distinct_map plan_payments_def inj_on_def)
  let ?tm = "plan_terms_of p"
  have tm: "terms_ok (pl_PriceMinor p) ?tm" "0 \<le> pl_PaymentsMade p" "pl_PaymentsMade p \<le> pt_TotalMonths ?tm"
    using pi plan_terms_ok by (auto simp: plan_inv_def plan_checks_def plan_terms_of_def)
  have sum: "sum_list (map py_AmountMinor (plan_payments db (pl_ID p))) = paid_sum ?tm (pl_PaymentsMade p)"
    using pi by (simp add: plan_inv_def paid_sum_def sum_list_distinct_conv_sum_set)
  have "paid_sum ?tm (pl_PaymentsMade p) \<le> pl_PriceMinor p \<and>
      (paid_sum ?tm (pl_PaymentsMade p) = pl_PriceMinor p \<longleftrightarrow> pl_PaymentsMade p = pt_TotalMonths ?tm)"
  proof -
    have "paid_sum ?tm (pt_TotalMonths ?tm) = paid_sum ?tm (pl_PaymentsMade p) + (\<Sum>n = pl_PaymentsMade p + 1..pt_TotalMonths ?tm. InstallmentAmount ?tm n)"
      using tm unfolding paid_sum_def by (subst sum.union_disjoint [symmetric]) (auto intro!: sum.cong)
    moreover have "0 < (\<Sum>n = pl_PaymentsMade p + 1..pt_TotalMonths ?tm. InstallmentAmount ?tm n)" if "pl_PaymentsMade p < pt_TotalMonths ?tm"
      using that tm InstallmentAmount_pos [OF tm(1)] by (intro sum_pos) auto
    ultimately show ?thesis
      using paid_sum_total [OF tm(1)] tm(3) by (cases "pl_PaymentsMade p = pt_TotalMonths ?tm") auto
  qed
  then show ?thesis using dist pi sum by (simp add: plan_inv_def plan_terms_of_def)
qed

text \<open>
  Under the deployed schema no plan is ever paid off. The CHECK on \<^verbatim>\<open>plans.status\<close> admits only
  active, cancelled and suspended, and the final installment sets \<^verbatim>\<open>completed\<close>; so in every reachable
  state every plan is at least one installment short and its customer has received less than the price.
\<close>

theorem deployed_schema_never_completes:
  assumes "(cb_step deployed_statuses)\<^sup>*\<^sup>* db0 db" "cb_inv deployed_statuses db0" "p \<in> set (cb_plans db)"
  shows "pl_PaymentsMade p < pl_TotalMonths p \<and>
    sum_list (map py_AmountMinor (plan_payments db (pl_ID p))) < pl_PriceMinor p"
proof -
  have inv: "cb_inv deployed_statuses db" using cb_reachable_inv assms by blast
  then have pi: "plan_inv deployed_statuses db p" using assms(3) by (simp add: cb_inv_def)
  then have "pl_PaymentsMade p \<noteq> pl_TotalMonths p"
    by (auto simp: plan_inv_def plan_checks_def deployed_statuses_def)
  then have lt: "pl_PaymentsMade p < pl_TotalMonths p" using pi by (simp add: plan_inv_def plan_checks_def)
  let ?tm = "plan_terms_of p"
  have tm: "terms_ok (pl_PriceMinor p) ?tm" "0 \<le> pl_PaymentsMade p" "pl_PaymentsMade p < pt_TotalMonths ?tm"
    using pi plan_terms_ok lt by (auto simp: plan_inv_def plan_checks_def plan_terms_of_def)
  have "paid_sum ?tm (pl_PaymentsMade p) = pl_PaymentsMade p * pt_MonthlyAmountMinor ?tm"
    using tm by (intro paid_sum_regular)
  also have "\<dots> \<le> (pt_TotalMonths ?tm - 1) * pt_MonthlyAmountMinor ?tm"
    using tm by (intro mult_right_mono) (auto simp: terms_ok_def)
  also have "\<dots> < pl_PriceMinor p" using tm(1) by (auto simp: terms_ok_def)
  finally show ?thesis
    using pi lt by (simp add: plan_inv_def paid_sum_def sum_list_distinct_conv_sum_set)
qed

text \<open>
  Paying a plan is all or nothing. Whatever the outcome, either no installment is paid (plans,
  payments and all balances are as before; at most an empty user wallet was opened), or exactly one is:
  the plan had no payment in the run's calendar month and has one now, its count goes up by one, and
  the amount of precisely that installment moves from the equity account to one user wallet.
\<close>

theorem payOnePlan_effect:
  assumes "cb_inv (cc_allowed cfg) db" "p \<in> set (cb_plans db)"
    and "payOnePlan cfg outs p eq runDate db l = ((n, err), db', l')"
  shows "(cb_plans db' = cb_plans db \<and> cb_payments db' = cb_payments db \<and>
       GetBalanceStrict (cb_wallet db') = GetBalanceStrict (cb_wallet db)) \<or>
    (\<exists>user. \<not> PaymentExistsForPeriod db (pl_ID p) (timeToPeriod (day_of runDate)) \<and>
       PaymentExistsForPeriod db' (pl_ID p) (timeToPeriod (day_of runDate)) \<and>
       length (cb_payments db') = length (cb_payments db) + 1 \<and> advanced cfg p \<in> set (cb_plans db') \<and>
       (\<forall>a. GetBalanceStrict (cb_wallet db') a = GetBalanceStrict (cb_wallet db) a +
          leg_sum [(eq, - InstallmentAmount (plan_terms_of p) (pl_PaymentsMade p + 1)),
                   (user, InstallmentAmount (plan_terms_of p) (pl_PaymentsMade p + 1))] a))"
proof -
  have "wallet_opened db db' \<or> installment_paid cfg p eq runDate db db'"
    using payOnePlan_from_spec assms unfolding payOnePlan_def by blast
  then show ?thesis
  proof
    assume "wallet_opened db db'"
    then show ?thesis by (auto simp: wallet_opened_def)
  next
    assume "installment_paid cfg p eq runDate db db'"
    then obtain db1 user txn w where d: "wallet_opened db db1" "db' = paid_db cfg p runDate txn w db1"
      "\<not> PaymentExistsForPeriod db (pl_ID p) (timeToPeriod (day_of runDate))"
      "GetBalanceStrict w = (\<lambda>a. GetBalanceStrict (cb_wallet db) a +
          leg_sum [(eq, - InstallmentAmount (plan_terms_of p) (pl_PaymentsMade p + 1)),
                   (user, InstallmentAmount (plan_terms_of p) (pl_PaymentsMade p + 1))] a)"
      by (auto simp: installment_paid_def)
    have "advanced cfg p \<in> set (cb_plans db')"
      using paid_db_plans [OF wallet_opened_inv [OF assms(1) d(1)], of p] assms(2) wallet_opened_plans [OF d(1)] d(2) by simp
    then show ?thesis
      using d wallet_opened_plans [OF d(1)]
      by (intro disjI2 exI [of _ user]) (simp add: PaymentExistsForPeriod_def paid_row_def)
  qed
qed

text \<open>A plan whose user's wallet is not active is skipped and nothing changes.\<close>

definition wallet_inactive :: "wallet_db \<Rightarrow> plan \<Rightarrow> bool" where
  "wallet_inactive w p \<longleftrightarrow>
     (case FindAccountByOwnerAnyStatus w ''user'' (pl_UserID p) (pl_Currency p) of
        Inl e \<Rightarrow> False | Inr (i, st) \<Rightarrow> i \<noteq> 0 \<and> st \<noteq> ''active'')"

lemma payOnePlan_inactive:
  assumes "wallet_inactive (cb_wallet db) p"
  shows "\<exists>l'. payOnePlan cfg outs p eq runDate db l = ((0, None), db, l')"
proof -
  obtain i st where f: "FindAccountByOwnerAnyStatus (cb_wallet db) ''user'' (pl_UserID p) (pl_Currency p) = Inr (i, st)"
      "i \<noteq> 0" "st \<noteq> ''active''"
    using assms by (auto simp: wallet_inactive_def split: sum.splits prod.splits)
  then have "\<exists>l'. payOnePlanInTx cfg oouts pouts p eq runDate db l = (None, db, l')" for oouts pouts
    by (auto simp: payOnePlanInTx_def Let_def resolve_wallet_def)
  then show ?thesis
  proof -
    assume skip: "\<And>oouts pouts. \<exists>l'. payOnePlanInTx cfg oouts pouts p eq runDate db l = (None, db, l')"
    obtain oouts pouts where o: "(case outs of [] \<Rightarrow> ([], []) | o1 # _ \<Rightarrow> o1) = (oouts, pouts)" by fastforce
    obtain l' where "payOnePlanInTx cfg oouts pouts p eq runDate db l = (None, db, l')" using skip by blast
    then show ?thesis unfolding payOnePlan_def numeral_3_eq_3 payOnePlan_from.simps o by simp
  qed
qed

lemma pay_batch_inactive:
  assumes "\<forall>p \<in> set ps. wallet_inactive (cb_wallet db) p \<and> (\<exists>i. FindAccount (cb_wallet db) equityAcctType (pl_Currency p) = Inr i)"
  shows "\<exists>eqs' l'. pay_batch cfg srv runDate ps eqs db l = (Inr eqs', db, l')"
  using assms
proof (induction ps arbitrary: eqs l)
  case (Cons p ps)
  obtain eq where eq: "(case map_of eqs (pl_Currency p) of Some i \<Rightarrow> Inr i
      | None \<Rightarrow> FindAccount (cb_wallet db) equityAcctType (pl_Currency p)) = Inr eq"
    using Cons.prems by (cases "map_of eqs (pl_Currency p)") auto
  obtain l1 where "payOnePlan cfg (srv (pl_ID p)) p eq runDate db l = ((0, None), db, l1)"
    using payOnePlan_inactive Cons.prems by (metis list.set_intros(1))
  then show ?case using Cons eq by (simp add: Let_def)
qed simp

text \<open>
  C36. Fifty inactive wallets stop the monthly cron for good: if the first batch of due plans is full
  and all its wallets are frozen or suspended, the run never returns, however long it is given; the
  same fifty plans are listed and skipped again and again, and no later plan is ever paid.
\<close>

theorem cron_never_returns:
  assumes "length (ListDuePlans db runDate (timeToPeriod (day_of runDate)) cronBatchSize) = cronBatchSize"
    and "\<forall>p \<in> set (ListDuePlans db runDate (timeToPeriod (day_of runDate)) cronBatchSize).
      wallet_inactive (cb_wallet db) p \<and> (\<exists>i. FindAccount (cb_wallet db) equityAcctType (pl_Currency p) = Inr i)"
  shows "PayMonthlyInstallments fuel cfg srv runDate db c = None"
proof -
  have "pay_loop fuel cfg srv runDate eqs db l = None" for eqs l
  proof (induction fuel arbitrary: eqs l)
    case (Suc fuel)
    let ?plans = "ListDuePlans db runDate (timeToPeriod (day_of runDate)) cronBatchSize"
    obtain eqs' l' where b: "pay_batch cfg srv runDate ?plans eqs db l = (Inr eqs', db, l')"
      using pay_batch_inactive [OF assms(2)] by blast
    have "?plans \<noteq> []" using assms(1) by (auto simp: cronBatchSize_def)
    then show ?case using b assms(1) Suc.IH by (simp add: Let_def)
  qed simp
  then show ?thesis by (simp add: PayMonthlyInstallments_def)
qed

section \<open>A concrete plan\<close>

definition cfg_ex :: "string list \<Rightarrow> cb_cfg" where
  "cfg_ex allowed = \<lparr>cc_env = wenv_ex, cc_currency = ''TRY_COIN'',
     cc_loader = Some [(''TR'', \<lparr>cal_market = ''TR'', cal_holidays = [''2026-01-01'']\<rparr>)], cc_allowed = allowed\<rparr>"

definition cb_empty :: cb_db where
  "cb_empty = \<lparr>cb_wallet = ledger_ex, cb_plans = [], cb_next_plan = 1, cb_payments = [], cb_next_payment = 1\<rparr>"

definition delivered_ex :: event where
  "delivered_ex = \<lparr>ev_id = ''order:delivered:1'', ev_type = ''ecom.order.delivered.v1'', ev_aggregate = ''order'',
     ev_idempotency_key = ''order:delivered:1'', ev_market = ''TR'', ev_currency = ''TRY'', ev_trace_id = [],
     ev_span_id = [], ev_occurred_at = 0,
     ev_payload = JObj [(''order_id'', JInt 500), (''user_id'', JInt 70),
       (''delivered_at'', JTime (at_midnight (days_of_civil 2025 12 30))), (''market'', JStr ''TR''),
       (''currency'', JStr ''TRY''), (''price_minor'', JInt 16), (''commission_bps'', JInt 10000), (''items'', JArr [])]\<rparr>"

definition delivered_db :: "string list \<Rightarrow> cb_db" where
  "delivered_db allowed = snd (handleDelivered (cfg_ex allowed) [] delivered_ex cb_empty)"

definition run_ex :: "string list \<Rightarrow> (tx_outcome list \<times> tx_outcome list) list \<Rightarrow> int \<Rightarrow> int \<Rightarrow> cb_db \<Rightarrow> ((cb_error option) \<times> payment_summary \<times> cb_db) option" where
  "run_ex allowed outs y m db =
     PayMonthlyInstallments 2 (cfg_ex allowed) (\<lambda>_. outs) (at_midnight (days_of_civil y m 10)) db cache_ex"

lemma cb_empty_inv: "cb_inv allowed cb_empty"
  using ledger_ex_inv
  by (simp add: cb_inv_def cb_empty_def fresh_ids_def posted_def) (simp add: ledger_ex_def)

definition paid_ex :: cb_db where
  "paid_ex = snd (snd (the (run_ex deployed_statuses [([], [TxCommitSerialization])] 2026 1 (delivered_db deployed_statuses))))"

lemma run_ex_eval:
  "map_option (\<lambda>(e, s, db). (e, s, map (\<lambda>p. (pl_ID p, pl_PriceMinor p, pl_PaymentsMade p)) (cb_plans db), length (cb_payments db)))
     (run_ex deployed_statuses [([], [TxCommitSerialization])] 2026 1 (delivered_db deployed_statuses)) =
   Some (None, \<lparr>su_Processed = 2, su_Skipped = 0, su_Failed = 0, su_Retries = 0\<rparr>, [(1, 16, 1)], 1)"
  by code_simp

lemma run_ex_result:
  "run_ex deployed_statuses [([], [TxCommitSerialization])] 2026 1 (delivered_db deployed_statuses) =
     Some (None, \<lparr>su_Processed = 2, su_Skipped = 0, su_Failed = 0, su_Retries = 0\<rparr>, paid_ex)"
  using run_ex_eval by (auto simp: paid_ex_def)

lemma paid_ex_facts:
  "map (\<lambda>p. (pl_ID p, pl_PriceMinor p, pl_PaymentsMade p)) (cb_plans paid_ex) = [(1, 16, 1)]"
  "length (cb_payments paid_ex) = 1"
  using run_ex_eval run_ex_result by simp_all

lemma paid_ex_reachable: "(cb_step deployed_statuses)\<^sup>*\<^sup>* cb_empty paid_ex"
proof -
  have "cb_step deployed_statuses cb_empty (delivered_db deployed_statuses)"
    by (rule step_delivered [of "cfg_ex deployed_statuses" "[]" delivered_ex _ "fst (handleDelivered (cfg_ex deployed_statuses) [] delivered_ex cb_empty)"])
      (simp_all add: delivered_db_def cfg_ex_def)
  moreover have "cb_step deployed_statuses (delivered_db deployed_statuses) paid_ex"
    by (rule step_cron [OF run_ex_result [unfolded run_ex_def]]) (simp add: cfg_ex_def)
  ultimately show ?thesis by simp
qed

theorem delivered_exactly_once_witness:
  "deliver (cb_handle_for deployed_statuses) [((cfg_ex [], [TxCommitSerialization]), delivered_ex)] (delivered_db deployed_statuses) =
     delivered_db deployed_statuses \<and> length (cb_plans (delivered_db deployed_statuses)) = 1"
proof -
  have "fst (cb_handle_for deployed_statuses (cfg_ex deployed_statuses, []) delivered_ex cb_empty) = True"
    "length (cb_plans (delivered_db deployed_statuses)) = 1"
    by code_simp+
  moreover have "snd (cb_handle_for deployed_statuses (cfg_ex deployed_statuses, []) delivered_ex cb_empty) = delivered_db deployed_statuses"
    by (simp add: cb_handle_for_def cb_handle_def delivered_db_def cfg_ex_def split: prod.splits)
  ultimately show ?thesis
    using delivered_exactly_once [OF cb_empty_inv, of deployed_statuses "(cfg_ex deployed_statuses, [])" delivered_ex
        "delivered_db deployed_statuses" "[]" "(cfg_ex [], [TxCommitSerialization])" "[]"]
    by (simp add: prod_eq_iff)
qed

theorem cashback_pays_schedule_witness:
  "\<exists>p. p \<in> set (cb_plans paid_ex) \<and> pl_PaymentsMade p = 1 \<and>
     posted (cb_wallet paid_ex) (installment_key (pl_ID p) 1) \<noteq> None \<and> posted (cb_wallet paid_ex) (installment_key (pl_ID p) 2) = None"
proof -
  obtain p where p: "cb_plans paid_ex = [p]" "pl_PaymentsMade p = 1" using paid_ex_facts by auto
  then have "posted (cb_wallet paid_ex) (installment_key (pl_ID p) n) \<noteq> None \<longleftrightarrow> 1 \<le> n \<and> n \<le> 1" for n
    using cashback_pays_schedule [OF paid_ex_reachable cb_empty_inv, of p] by simp
  from this [of 1] this [of 2] show ?thesis using p by auto
qed

theorem deployed_schema_never_completes_witness:
  "\<exists>p. p \<in> set (cb_plans paid_ex) \<and> pl_PaymentsMade p < pl_TotalMonths p \<and>
     sum_list (map py_AmountMinor (plan_payments paid_ex (pl_ID p))) < 16"
proof -
  obtain p where p: "cb_plans paid_ex = [p]" "pl_PriceMinor p = 16" using paid_ex_facts by auto
  then show ?thesis
    using deployed_schema_never_completes [OF paid_ex_reachable cb_empty_inv, of p] by auto
qed

lemma delivered_db_eval:
  "(length (cb_plans (delivered_db deployed_statuses)), length (cb_payments (delivered_db deployed_statuses))) = (1, 0)"
  by code_simp

lemma pay_ex_eval:
  "(let p = hd (cb_plans (delivered_db deployed_statuses));
        db' = fst (snd (payOnePlan (cfg_ex deployed_statuses) [] p 4 (at_midnight (days_of_civil 2026 1 10))
          (delivered_db deployed_statuses) \<lparr>lo_cache = cache_ex, lo_sum = zero_summary, lo_done = False\<rparr>)) in
    (PaymentExistsForPeriod db' (pl_ID p) 202601, GetBalanceStrict (cb_wallet db') 4, length (cb_payments db'))) = (True, -1, 1)"
  by code_simp

theorem payOnePlan_effect_witness:
  "let db = delivered_db deployed_statuses; p = hd (cb_plans db);
       db' = fst (snd (payOnePlan (cfg_ex deployed_statuses) [] p 4 (at_midnight (days_of_civil 2026 1 10)) db
               \<lparr>lo_cache = cache_ex, lo_sum = zero_summary, lo_done = False\<rparr>)) in
   PaymentExistsForPeriod db' (pl_ID p) 202601 \<and> GetBalanceStrict (cb_wallet db') 4 = -1 \<and>
   length (cb_payments db') = length (cb_payments db) + 1"
proof -
  define db where "db = delivered_db deployed_statuses"
  define p where "p = hd (cb_plans db)"
  define l where "l = \<lparr>lo_cache = cache_ex, lo_sum = zero_summary, lo_done = False\<rparr>"
  define res where "res = payOnePlan (cfg_ex deployed_statuses) [] p 4 (at_midnight (days_of_civil 2026 1 10)) db l"
  define db' where "db' = fst (snd res)"
  have inv: "cb_inv (cc_allowed (cfg_ex deployed_statuses)) db"
    using handleDelivered_inv [of "cfg_ex deployed_statuses" "[]" delivered_ex cb_empty] cb_empty_inv
    by (simp add: db_def delivered_db_def) (metis prod.collapse)
  have ne: "length (cb_plans db) = 1" "length (cb_payments db) = 0"
    unfolding db_def using delivered_db_eval by simp_all
  have p: "p \<in> set (cb_plans db)" unfolding p_def using ne by (cases "cb_plans db") auto
  have ev: "PaymentExistsForPeriod db' (pl_ID p) 202601" "GetBalanceStrict (cb_wallet db') 4 = -1" "length (cb_payments db') = 1"
    using pay_ex_eval unfolding db'_def res_def l_def p_def db_def by (simp_all add: Let_def)
  have r: "res = ((fst (fst res), snd (fst res)), db', snd (snd res))" by (simp add: db'_def)
  from payOnePlan_effect [OF inv p r [unfolded res_def]] have "length (cb_payments db') = length (cb_payments db) + 1"
    using ne ev(3) by auto
  then show ?thesis using ev by (simp add: Let_def db'_def res_def l_def p_def db_def)
qed

text \<open>Fifty due plans of one user whose wallet is frozen.\<close>

definition stuck_plan :: "int \<Rightarrow> plan" where
  "stuck_plan i = \<lparr>pl_ID = i, pl_OrderID = i, pl_UserID = 70, pl_PriceMinor = 16, pl_CommissionBps = 10000,
     pl_Currency = ''TRY_COIN'', pl_TotalMonths = 15, pl_MonthlyAmountMinor = 1, pl_MonthlyAmountLastMinor = 2,
     pl_PaymentsMade = 0, pl_Status = ''active'', pl_StartDate = days_of_civil 2026 1 5, pl_DeliveredAt = 0,
     pl_Market = ''TR'', pl_CommissionSnapshot = JArr [], pl_IdempotencyKey = plan_key i, pl_ProductID = 0,
     pl_ProductTitle = [], pl_ProductImageURL = [], pl_CreatedAt = 0, pl_UpdatedAt = 0\<rparr>"

definition stuck_ex :: cb_db where
  "stuck_ex = \<lparr>cb_wallet = ledger_ex\<lparr>db_accounts := [acct_ex 4 ''equity:cashback_distribution'' ''platform'' None ''TRY_COIN'',
       (acct_ex 6 ''liability:wallet:user'' ''user'' (Some 70) ''TRY_COIN'')\<lparr>acct_Status := ''frozen''\<rparr>]\<rparr>,
     cb_plans = map stuck_plan [1..51], cb_next_plan = 52, cb_payments = [], cb_next_payment = 1\<rparr>"

lemma stuck_due:
  "is_due stuck_ex (at_midnight (days_of_civil 2026 1 10)) period (stuck_plan i)"
proof -
  have "at_midnight (pg_add_months (days_of_civil 2026 1 5) 0) \<le> at_midnight (days_of_civil 2026 1 10)" by code_simp
  then show ?thesis by (simp add: is_due_def stuck_plan_def stuck_ex_def)
qed

lemma stuck_list:
  "ListDuePlans stuck_ex (at_midnight (days_of_civil 2026 1 10)) period cronBatchSize = take cronBatchSize (map stuck_plan [1..51])"
proof -
  have "filter (is_due stuck_ex (at_midnight (days_of_civil 2026 1 10)) period) (map stuck_plan xs) = map stuck_plan xs" for xs
    by (induction xs) (simp_all add: stuck_due)
  then show ?thesis by (simp only: ListDuePlans_def stuck_ex_def cb_db.simps)
qed

theorem cron_never_returns_witness:
  "PayMonthlyInstallments 1000 (cfg_ex deployed_statuses) (\<lambda>_. []) (at_midnight (days_of_civil 2026 1 10)) stuck_ex cache_ex = None"
proof (rule cron_never_returns, unfold stuck_list)
  show "length (take cronBatchSize (map stuck_plan [1..51])) = cronBatchSize"
    by (simp add: cronBatchSize_def)
  have "wallet_inactive (cb_wallet stuck_ex) (stuck_plan i) \<and>
      FindAccount (cb_wallet stuck_ex) equityAcctType (pl_Currency (stuck_plan i)) = Inr 4" for i
    by (simp add: wallet_inactive_def stuck_plan_def stuck_ex_def FindAccountByOwnerAnyStatus_def FindAccount_def
        repo_FindAccountByOwnerAnyStatus_def FindAccountByType_def equityAcctType_def acct_ex_def)
  then show "\<forall>p \<in> set (take cronBatchSize (map stuck_plan [1..51])). wallet_inactive (cb_wallet stuck_ex) p \<and>
      (\<exists>i. FindAccount (cb_wallet stuck_ex) equityAcctType (pl_Currency p) = Inr i)"
    by (auto dest!: in_set_takeD)
qed

text \<open>
  The counter the cron reports is not the number of installments paid: it is incremented inside the
  transaction body, so a body that is run again after a serialization failure counts twice. There is a
  well-formed state and a run that pays one installment and reports two.
\<close>

theorem processed_overcounts:
  "\<exists>cfg srv runDate db c s db'. cb_inv (cc_allowed cfg) db \<and>
     PayMonthlyInstallments 2 cfg srv runDate db c = Some (None, s, db') \<and>
     length (cb_payments db') = length (cb_payments db) + 1 \<and> su_Processed s = 2"
proof -
  have inv: "cb_inv (cc_allowed (cfg_ex deployed_statuses)) (delivered_db deployed_statuses)"
    using handleDelivered_inv [of "cfg_ex deployed_statuses" "[]" delivered_ex cb_empty] cb_empty_inv
    by (simp add: delivered_db_def) (metis prod.collapse)
  have "length (cb_payments (delivered_db deployed_statuses)) = 0" by code_simp
  then show ?thesis
    using inv run_ex_result paid_ex_facts(2) unfolding run_ex_def
    by (metis One_nat_def add.left_neutral payment_summary.simps(1))
qed

end
