(* ===== verification/Reconcile.thy ===== *)
theory Reconcile
  imports Cashback
begin

text \<open>
  The weekly ledger verification: \<^verbatim>\<open>internal/reconcile\<close>. Two checks read the ledger and the cashback tables;
  a failed check records an alert, an outbox event and the read-only switch in one transaction, and
  invalidates the ledger service's read-only cache. \<^verbatim>\<open>SUM\<close> in Postgres is exact; scanning it into an
  \<^verbatim>\<open>int64\<close> fails when it does not fit.
\<close>

section \<open>Data\<close>

record check_result =
  cr_CheckName :: string
  cr_Passed :: bool
  cr_DriftMinor :: int
  cr_Details :: string

record reconcile_alert =
  ra_CheckName :: string
  ra_CurrencyOrPeriod :: string
  ra_Expected :: int
  ra_Observed :: int
  ra_DriftMinor :: int
  ra_DedupKey :: string

record alert_row =
  ar_id :: int
  ar_currency :: string
  ar_delta :: int
  ar_message :: string
  ar_alert_type :: string
  ar_context :: json
  ar_acknowledged :: bool

datatype rc_error = RcQuery | RcOutbox outbox_error | RcCleanup | RcTx "rc_error tx_error"

record weekly_result =
  wr_AlertsInserted :: int
  wr_AttemptsCleanedUp :: int
  wr_Errors :: "rc_error list"

text \<open>The ledger with the cashback tables, the alerts, and the times of the delivery attempts.\<close>

record rc_db =
  rc_cb :: cb_db
  rc_alerts :: "alert_row list"
  rc_next_alert :: int
  rc_attempts :: "instant list"

abbreviation rc_wallet :: "rc_db \<Rightarrow> wallet_db" where
  "rc_wallet db \<equiv> cb_wallet (rc_cb db)"

section \<open>Repository\<close>

text \<open>
  \<^verbatim>\<open>Check1DCBalance\<close>: debits minus credits per currency over the entries joined with their accounts, only
  the non-zero ones. One group per currency that occurs, in the order of first occurrence.
\<close>

definition entry_currencies :: "wallet_db \<Rightarrow> string list" where
  "entry_currencies w = remdups (List.map_filter (\<lambda>e. acct_currency w (l_account_id e)) (db_entries w))"

definition dc_delta :: "wallet_db \<Rightarrow> string \<Rightarrow> int" where
  "dc_delta w cur = sum_list (map (\<lambda>e. if l_direction e = Debit then l_amount_minor e else - l_amount_minor e)
     (filter (\<lambda>e. acct_currency w (l_account_id e) = Some cur) (db_entries w)))"

definition Check1DCBalance :: "bool \<Rightarrow> wallet_db \<Rightarrow> rc_error + (string \<times> int) list" where
  "Check1DCBalance query_ok w =
     (let deltas = filter (\<lambda>(c, d). d \<noteq> 0) (map (\<lambda>c. (c, dc_delta w c)) (entry_currencies w)) in
      if \<not> query_ok \<or> \<not> list_all (\<lambda>(c, d). is_i64 d) deltas then Inl RcQuery else Inr deltas)"

text \<open>
  \<^verbatim>\<open>Check2CashbackBackward\<close>: the left join has one row per payment and matching credit entry, and one row
  with a null entry for a payment without any; a payment's amount counts once per row.
\<close>

definition check2_rows :: "cb_db \<Rightarrow> int \<Rightarrow> (int \<times> int option) list" where
  "check2_rows cb period =
     concat (map (\<lambda>p. case py_LedgerTransactionID p of
         None \<Rightarrow> []
       | Some t \<Rightarrow> (case credits (cb_wallet cb) t of
             [] \<Rightarrow> [(py_AmountMinor p, None)]
           | cs \<Rightarrow> map (\<lambda>c. (py_AmountMinor p, Some c)) cs))
       (filter (\<lambda>p. py_Status p = ''paid'' \<and> py_PeriodYYYYMM p = period) (cb_payments cb)))"

definition Check2CashbackBackward :: "bool \<Rightarrow> cb_db \<Rightarrow> int \<Rightarrow> rc_error + int \<times> int" where
  "Check2CashbackBackward query_ok cb period =
     (let rows = check2_rows cb period;
          payments_total = sum_list (map fst rows);
          ledger_total = sum_list (map (\<lambda>r. case snd r of None \<Rightarrow> 0 | Some c \<Rightarrow> c) rows) in
      if \<not> query_ok \<or> \<not> is_i64 payments_total \<or> \<not> is_i64 ledger_total then Inl RcQuery
      else Inr (payments_total, ledger_total))"

definition HasUnacknowledgedAlert :: "rc_db \<Rightarrow> string \<Rightarrow> string \<Rightarrow> bool" where
  "HasUnacknowledgedAlert db alertType dedupKey =
     list_ex (\<lambda>a. ar_alert_type a = alertType \<and> jstr ''dedup_key'' (ar_context a) = Some dedupKey \<and> \<not> ar_acknowledged a) (rc_alerts db)"

definition alert_context :: "reconcile_alert \<Rightarrow> json" where
  "alert_context a = JObj [(''check_name'', JStr (ra_CheckName a)), (''currency_or_period'', JStr (ra_CurrencyOrPeriod a)),
     (''expected'', JInt (ra_Expected a)), (''observed'', JInt (ra_Observed a)), (''drift_minor'', JInt (ra_DriftMinor a)),
     (''dedup_key'', JStr (ra_DedupKey a))]"

definition alert_message :: "reconcile_alert \<Rightarrow> string" where
  "alert_message a = ''reconcile drift: check='' @ ra_CheckName a @ '' currency_or_period='' @ ra_CurrencyOrPeriod a @
     '' expected='' @ itoa (ra_Expected a) @ '' observed='' @ itoa (ra_Observed a) @ '' drift='' @ itoa (ra_DriftMinor a)"

definition drift_outbox_row :: "instant \<Rightarrow> reconcile_alert \<Rightarrow> int \<Rightarrow> outbox_row" where
  "drift_outbox_row now a alertID =
     \<lparr>o_id = 0, o_aggregate = ''reconcile'', o_event_type = ''fin.reconciliation.drift_critical.v1'',
      o_payload = JObj [(''alert_id'', JInt alertID), (''check_name'', JStr (ra_CheckName a)),
        (''currency_or_period'', JStr (ra_CurrencyOrPeriod a)), (''drift_minor'', JInt (ra_DriftMinor a))],
      o_idempotency_key = ''reconcile:drift:'' @ ra_CheckName a @ '':'' @ ra_CurrencyOrPeriod a @ '':'' @ itoa now,
      o_trace_id = [], o_span_id = [], o_market = ''global'', o_currency = [], o_created_at = 0, o_published_at = None\<rparr>"

definition InsertAlertWithOutboxAndState :: "instant \<Rightarrow> reconcile_alert \<Rightarrow> string \<Rightarrow> rc_db \<Rightarrow> rc_error + int \<times> rc_db" where
  "InsertAlertWithOutboxAndState now a reason db =
     (let alertID = rc_next_alert db;
          row = \<lparr>ar_id = alertID, ar_currency = ra_CurrencyOrPeriod a, ar_delta = ra_DriftMinor a, ar_message = alert_message a,
                 ar_alert_type = ''reconciliation_drift'', ar_context = alert_context a, ar_acknowledged = False\<rparr> in
      case outbox_Insert now (drift_outbox_row now a alertID) (db_outbox (rc_wallet db)) of
        Inl e \<Rightarrow> Inl (RcOutbox e)
      | Inr ob \<Rightarrow>
          (let reasonStr = (if reason \<noteq> [] then reason else ''reconciliation_drift_critical_alert_'' @ itoa alertID) in
           Inr (alertID, db\<lparr>rc_alerts := rc_alerts db @ [row], rc_next_alert := alertID + 1,
             rc_cb := (rc_cb db)\<lparr>cb_wallet := SetSystemState now True reasonStr ((rc_wallet db)\<lparr>db_outbox := ob\<rparr>)\<rparr>\<rparr>)))"

definition CleanupOldAttempts :: "bool \<Rightarrow> instant \<Rightarrow> rc_db \<Rightarrow> rc_error + int \<times> rc_db" where
  "CleanupOldAttempts ok now db =
     (if \<not> ok then Inl RcCleanup
      else (let old = (\<lambda>t. t < now - 7 * ns_per_day) in
            Inr (int (length (filter old (rc_attempts db))), db\<lparr>rc_attempts := filter (\<lambda>t. \<not> old t) (rc_attempts db)\<rparr>)))"

definition rc_commit_ok :: "rc_db \<Rightarrow> rc_db \<Rightarrow> bool" where
  "rc_commit_ok old new \<longleftrightarrow> commit_ok (rc_wallet old) (rc_wallet new)"

definition reconcile_WithTx :: "tx_outcome list \<Rightarrow> (rc_db, 'c, rc_error, 'a) tx_body \<Rightarrow> rc_db \<Rightarrow> 'c
    \<Rightarrow> (rc_error tx_error + 'a) \<times> rc_db \<times> 'c" where
  "reconcile_WithTx outs fn db c = with_retry False 1 outs rc_commit_ok fn db c"

section \<open>The checks\<close>

definition prevPeriod :: "int \<Rightarrow> int" where
  "prevPeriod p = (let year = p sdiv 100; month = p smod 100 - 1 in
     if month = 0 then (year - 1) * 100 + 12 else year * 100 + month)"

definition runCheck1DCInvariant :: "(string \<Rightarrow> int) \<Rightarrow> bool \<Rightarrow> rc_db \<Rightarrow> rc_error + check_result list" where
  "runCheck1DCInvariant prio query_ok db =
     (case Check1DCBalance query_ok (rc_wallet db) of
        Inl e \<Rightarrow> Inl e
      | Inr deltas \<Rightarrow> Inr (map (\<lambda>(currency, delta).
          \<lparr>cr_CheckName = ''check1_dc_invariant'', cr_Passed = False, cr_DriftMinor = delta,
           cr_Details = ''currency='' @ currency @ '' delta='' @ itoa delta @ '' (non-zero D-C sum)''\<rparr>) (range_map prio deltas)))"

definition check2_period :: "(int \<Rightarrow> bool) \<Rightarrow> rc_db \<Rightarrow> int \<Rightarrow> check_result list \<Rightarrow> rc_error + check_result list" where
  "check2_period query_ok db period results =
     (case Check2CashbackBackward (query_ok period) (rc_cb db) period of
        Inl e \<Rightarrow> Inl e
      | Inr (paymentsTotal, ledgerTotal) \<Rightarrow>
          if paymentsTotal = ledgerTotal then Inr results
          else (let drift = wrap64 (paymentsTotal - ledgerTotal);
                    drift' = (if drift < 0 then wrap64 (- drift) else drift) in
                Inr (results @ [\<lparr>cr_CheckName = ''check2_cashback_backward'', cr_Passed = False, cr_DriftMinor = drift',
                  cr_Details = ''period='' @ itoa period @ '' payments_total='' @ itoa paymentsTotal @ '' ledger_total='' @
                    itoa ledgerTotal @ '' drift='' @ itoa drift'\<rparr>])))"

definition runCheck2CashbackBackward :: "(int \<Rightarrow> bool) \<Rightarrow> rc_db \<Rightarrow> int \<Rightarrow> rc_error + check_result list" where
  "runCheck2CashbackBackward query_ok db asOfPeriod =
     for_each (check2_period query_ok db) [asOfPeriod, prevPeriod asOfPeriod, prevPeriod (prevPeriod asOfPeriod)] []"

definition buildDedupKey :: "string \<Rightarrow> string \<Rightarrow> string" where
  "buildDedupKey checkName details = ''reconcile:'' @ checkName @ '':'' @ details"

section \<open>The service\<close>

text \<open>
  What one failed check meets: the clock and the server. The process-local part is the ledger service's
  cache; paging the on-call engineer has no effect on the state.
\<close>

record rc_srv =
  rs_now :: instant
  rs_outs :: "tx_outcome list"

definition handleFailedCheck :: "bool \<Rightarrow> bool \<Rightarrow> rc_srv \<Rightarrow> check_result \<Rightarrow> weekly_result \<Rightarrow> rc_db \<Rightarrow> wcache
    \<Rightarrow> rc_error option \<times> weekly_result \<times> rc_db \<times> wcache" where
  "handleFailedCheck dryRun has_wallet_svc srv cr result db c =
     (let alert = \<lparr>ra_CheckName = cr_CheckName cr, ra_CurrencyOrPeriod = cr_Details cr, ra_Expected = 0, ra_Observed = 0,
                   ra_DriftMinor = cr_DriftMinor cr, ra_DedupKey = buildDedupKey (cr_CheckName cr) (cr_Details cr)\<rparr>;
          counted = result\<lparr>wr_AlertsInserted := wr_AlertsInserted result + 1\<rparr> in
      if dryRun then (None, counted, db, c)
      else (case reconcile_WithTx (rs_outs srv) (\<lambda>tx u. (InsertAlertWithOutboxAndState (rs_now srv) alert [] tx, u)) db () of
              (Inl e, db', _) \<Rightarrow> (Some (RcTx e), result, db', c)
            | (Inr alertID, db', _) \<Rightarrow> (None, counted, db', if has_wallet_svc then InvalidateReadOnlyCache c else c)))"

fun handle_all :: "bool \<Rightarrow> bool \<Rightarrow> (check_result \<Rightarrow> rc_srv) \<Rightarrow> check_result list \<Rightarrow> weekly_result \<Rightarrow> rc_db \<Rightarrow> wcache
    \<Rightarrow> weekly_result \<times> rc_db \<times> wcache" where
  "handle_all dryRun hw srv [] result db c = (result, db, c)"
| "handle_all dryRun hw srv (cr # crs) result db c =
     (case handleFailedCheck dryRun hw (srv cr) cr result db c of
        (err, result', db', c') \<Rightarrow>
          handle_all dryRun hw srv crs (case err of None \<Rightarrow> result' | Some e \<Rightarrow> result'\<lparr>wr_Errors := wr_Errors result' @ [e]\<rparr>) db' c')"

text \<open>A check that fails to run contributes its error and no results.\<close>

definition run_check :: "bool \<Rightarrow> bool \<Rightarrow> (check_result \<Rightarrow> rc_srv) \<Rightarrow> rc_error + check_result list \<Rightarrow> weekly_result \<Rightarrow> rc_db \<Rightarrow> wcache
    \<Rightarrow> weekly_result \<times> rc_db \<times> wcache" where
  "run_check dryRun hw srv r result db c =
     (case r of
        Inl e \<Rightarrow> (result\<lparr>wr_Errors := wr_Errors result @ [e]\<rparr>, db, c)
      | Inr crs \<Rightarrow> handle_all dryRun hw srv crs result db c)"

record rc_env =
  re_now :: instant
  re_prio :: "string \<Rightarrow> int"
  re_check1_ok :: bool
  re_check2_ok :: "int \<Rightarrow> bool"
  re_cleanup_ok :: bool
  re_srv :: "check_result \<Rightarrow> rc_srv"

definition RunWeekly :: "bool \<Rightarrow> bool \<Rightarrow> rc_env \<Rightarrow> instant \<Rightarrow> rc_db \<Rightarrow> wcache \<Rightarrow> weekly_result \<times> rc_db \<times> wcache" where
  "RunWeekly dryRun hw env asOf db c =
     (let result = \<lparr>wr_AlertsInserted = 0, wr_AttemptsCleanedUp = 0, wr_Errors = []\<rparr> in
      case run_check dryRun hw (re_srv env) (runCheck1DCInvariant (re_prio env) (re_check1_ok env) db) result db c of
        (result1, db1, c1) \<Rightarrow>
          (case run_check dryRun hw (re_srv env) (runCheck2CashbackBackward (re_check2_ok env) db1 (timeToPeriod (day_of asOf))) result1 db1 c1 of
             (result2, db2, c2) \<Rightarrow>
               (case CleanupOldAttempts (re_cleanup_ok env) (re_now env) db2 of
                  Inl e \<Rightarrow> (result2\<lparr>wr_Errors := wr_Errors result2 @ [e]\<rparr>, db2, c2)
                | Inr (cleaned, db3) \<Rightarrow> (result2\<lparr>wr_AttemptsCleanedUp := cleaned\<rparr>, db3, c2))))"

section \<open>The checks on a sound ledger\<close>



lemma dc_delta_total:
  assumes "wallet_inv w"
  shows "dc_delta w cur = - currency_total w cur"
proof -
  have "l_direction e = Debit \<or> l_direction e = Credit" if "e \<in> set (db_entries w)" for e
    using assms that by (auto simp: wallet_inv_def entry_row_ok_def)
  then have "map (\<lambda>e. if l_direction e = Debit then l_amount_minor e else - l_amount_minor e)
        (filter (\<lambda>e. acct_currency w (l_account_id e) = Some cur) (db_entries w)) =
      map (\<lambda>e. - signed_amount e) (filter (\<lambda>e. acct_currency w (l_account_id e) = Some cur) (db_entries w))"
    by (auto simp: signed_amount_def)
  then have "dc_delta w cur = sum_list (map (\<lambda>e. - signed_amount e) (filter (\<lambda>e. acct_currency w (l_account_id e) = Some cur) (db_entries w)))"
    by (simp only: dc_delta_def)
  then show ?thesis by (simp add: currency_total_def uminus_sum_list_map comp_def)
qed

lemma check1_sound_ledger:
  assumes "wallet_inv (rc_wallet db)"
  shows "runCheck1DCInvariant prio ok db = (if ok then Inr [] else Inl RcQuery)"
proof -
  have "dc_delta (rc_wallet db) cur = 0" for cur
    using assms by (simp add: dc_delta_total wallet_inv_def)
  then show ?thesis by (simp add: runCheck1DCInvariant_def Check1DCBalance_def filter_False range_map_def)
qed

lemma check2_rows_paid:
  assumes "\<forall>p \<in> set (cb_payments cb). payment_row_inv cb p"
  shows "check2_rows cb period = map (\<lambda>p. (py_AmountMinor p, Some (py_AmountMinor p)))
    (filter (\<lambda>p. py_Status p = ''paid'' \<and> py_PeriodYYYYMM p = period) (cb_payments cb))"
proof -
  have "concat (map (\<lambda>p. case py_LedgerTransactionID p of None \<Rightarrow> [] | Some t \<Rightarrow> (case credits (cb_wallet cb) t of
             [] \<Rightarrow> [(py_AmountMinor p, None)] | cs \<Rightarrow> map (\<lambda>c. (py_AmountMinor p, Some c)) cs)) ps) =
        map (\<lambda>p. (py_AmountMinor p, Some (py_AmountMinor p))) ps"
    if "\<forall>p \<in> set ps. payment_row_inv cb p" for ps
    using that by (induction ps) (auto simp: payment_row_inv_def)
  then show ?thesis using assms by (simp add: check2_rows_def)
qed

lemma check2_sound_ledger:
  assumes "cb_inv allowed (rc_cb db)"
  shows "runCheck2CashbackBackward ok db period \<in> {Inr [], Inl RcQuery}"
proof -
  have "check2_period ok db q rs \<in> {Inr rs, Inl RcQuery}" for q rs
    using check2_rows_paid [of "rc_cb db"] assms
    by (auto simp: check2_period_def Check2CashbackBackward_def cb_inv_def Let_def comp_def)
  note one = this
  show ?thesis
    unfolding runCheck2CashbackBackward_def
    using one [of period "[]"] one [of "prevPeriod period" "[]"] one [of "prevPeriod (prevPeriod period)" "[]"] by auto
qed

section \<open>What a failed check does\<close>

text \<open>The state after a recorded drift: the switch is set and the cache is stale.\<close>

definition halted :: "rc_db \<Rightarrow> wcache \<Rightarrow> bool" where
  "halted db c \<longleftrightarrow> (\<forall>st. db_system_state (rc_wallet db) = Some st \<longrightarrow> ss_ReadOnly st) \<and> sysRefreshedAt c = 0"

definition ledger_of :: "rc_db \<Rightarrow> txn_row list \<times> entry_row list \<times> account list \<times> plan list \<times> payment list" where
  "ledger_of db = (db_transactions (rc_wallet db), db_entries (rc_wallet db), db_accounts (rc_wallet db),
     cb_plans (rc_cb db), cb_payments (rc_cb db))"

lemma commit_ok_same: "db_entries w' = db_entries w \<Longrightarrow> db_aborted w' = db_aborted w \<Longrightarrow> \<not> db_aborted w \<Longrightarrow> commit_ok w w'"
  by (simp add: commit_ok_def)

lemma handleFailedCheck_cases:
  assumes "handleFailedCheck False True srv cr r db c = (err, r', db', c')"
  obtains (failed) e where "err = Some e" "r' = r" "db' = db" "c' = c"
  | (recorded) row where "err = None" "r' = r\<lparr>wr_AlertsInserted := wr_AlertsInserted r + 1\<rparr>"
      "rc_alerts db' = rc_alerts db @ [row]" "ar_delta row = cr_DriftMinor cr" "ar_alert_type row = ''reconciliation_drift''"
      "ledger_of db' = ledger_of db" "halted db' c'"
      "db_system_state (rc_wallet db') = None \<longleftrightarrow> db_system_state (rc_wallet db) = None"
proof (cases err)
  case (Some e)
  then show ?thesis using assms failed
    by (auto simp: handleFailedCheck_def reconcile_WithTx_def Let_def dest!: with_retry_error split: prod.splits sum.splits)
next
  case None
  then obtain a where t: "with_retry False 1 (rs_outs srv) rc_commit_ok
        (\<lambda>tx u. (InsertAlertWithOutboxAndState (rs_now srv)
           \<lparr>ra_CheckName = cr_CheckName cr, ra_CurrencyOrPeriod = cr_Details cr, ra_Expected = 0, ra_Observed = 0,
            ra_DriftMinor = cr_DriftMinor cr, ra_DedupKey = buildDedupKey (cr_CheckName cr) (cr_Details cr)\<rparr> [] tx, u)) db () = (Inr a, db', ())"
    and r: "r' = r\<lparr>wr_AlertsInserted := wr_AlertsInserted r + 1\<rparr>" "c' = InvalidateReadOnlyCache c"
    using assms by (auto simp: handleFailedCheck_def reconcile_WithTx_def Let_def split: prod.splits sum.splits)
  from with_retry_success [OF t] None r show ?thesis
    by (auto simp: InsertAlertWithOutboxAndState_def Let_def halted_def ledger_of_def SetSystemState_def
        InvalidateReadOnlyCache_def intro!: recorded split: sum.splits)
qed

lemma handle_all_count:
  "handle_all dry hw srv crs r db c = (r', db', c') \<Longrightarrow>
     wr_AlertsInserted r' + int (length (wr_Errors r')) = wr_AlertsInserted r + int (length (wr_Errors r)) + int (length crs) \<and>
     wr_AlertsInserted r \<le> wr_AlertsInserted r' \<and> length (wr_Errors r) \<le> length (wr_Errors r')"
proof (induction crs arbitrary: r db c)
  case (Cons cr crs)
  obtain err r1 db1 c1 where h: "handleFailedCheck dry hw (srv cr) cr r db c = (err, r1, db1, c1)" by (metis prod_cases4)
  define r2 where "r2 = (case err of None \<Rightarrow> r1 | Some e \<Rightarrow> r1\<lparr>wr_Errors := wr_Errors r1 @ [e]\<rparr>)"
  have "wr_AlertsInserted r2 + int (length (wr_Errors r2)) = wr_AlertsInserted r + int (length (wr_Errors r)) + 1 \<and>
      wr_AlertsInserted r \<le> wr_AlertsInserted r2 \<and> length (wr_Errors r) \<le> length (wr_Errors r2)"
    using h by (auto simp: r2_def handleFailedCheck_def Let_def split: if_splits prod.splits sum.splits)
  moreover have "handle_all dry hw srv crs r2 db1 c1 = (r', db', c')" using Cons.prems h by (simp add: r2_def)
  ultimately show ?case using Cons.IH by fastforce
qed simp

text \<open>Live mode: as many alerts as counted, the ledger untouched, and the switch set by the first one.\<close>

definition recorded_since :: "weekly_result \<Rightarrow> rc_db \<Rightarrow> wcache \<Rightarrow> weekly_result \<Rightarrow> rc_db \<Rightarrow> wcache \<Rightarrow> bool" where
  "recorded_since r db c r' db' c' \<longleftrightarrow>
     int (length (rc_alerts db')) - int (length (rc_alerts db)) = wr_AlertsInserted r' - wr_AlertsInserted r \<and>
     ledger_of db' = ledger_of db \<and> wr_AlertsInserted r \<le> wr_AlertsInserted r' \<and>
     (db_system_state (rc_wallet db') = None \<longleftrightarrow> db_system_state (rc_wallet db) = None) \<and>
     (if wr_AlertsInserted r' = wr_AlertsInserted r then db' = db \<and> c' = c else halted db' c')"

lemma recorded_since_trans:
  "recorded_since r db c r1 db1 c1 \<Longrightarrow> recorded_since r1 db1 c1 r2 db2 c2 \<Longrightarrow> recorded_since r db c r2 db2 c2"
  unfolding recorded_since_def by (auto split: if_splits)

lemma recorded_since_errors [simp]:
  "recorded_since r db c (r'\<lparr>wr_Errors := es\<rparr>) db' c' = recorded_since r db c r' db' c'"
  "recorded_since (r\<lparr>wr_Errors := es\<rparr>) db c r' db' c' = recorded_since r db c r' db' c'"
  by (simp_all add: recorded_since_def)

lemma recorded_since_refl [simp]: "recorded_since r db c r db c"
  by (simp add: recorded_since_def)

lemma handle_all_recorded:
  "handle_all False True srv crs r db c = (r', db', c') \<Longrightarrow> recorded_since r db c r' db' c'"
proof (induction crs arbitrary: r db c)
  case (Cons cr crs)
  obtain err r1 db1 c1 where h: "handleFailedCheck False True (srv cr) cr r db c = (err, r1, db1, c1)" by (metis prod_cases4)
  have "recorded_since r db c r1 db1 c1"
    using h by (cases rule: handleFailedCheck_cases) (auto simp: recorded_since_def)
  moreover have "recorded_since r1 db1 c1 r' db' c'"
    using Cons.prems h by (cases err) (auto dest!: Cons.IH)
  ultimately show ?case by (rule recorded_since_trans)
qed simp

lemma run_check_recorded:
  "run_check False True srv x r db c = (r', db', c') \<Longrightarrow> recorded_since r db c r' db' c'"
  using handle_all_recorded by (auto simp: run_check_def split: sum.splits)

lemma handle_all_dry:
  "handle_all True hw srv crs r db c = (r\<lparr>wr_AlertsInserted := wr_AlertsInserted r + int (length crs)\<rparr>, db, c)"
  by (induction crs arbitrary: r) (auto simp: handleFailedCheck_def Let_def)


lemma handle_all_Nil: "run_check dry hw srv (Inr []) r db c = (r, db, c)"
  by (simp add: run_check_def)

lemma run_check_clean:
  assumes "run_check dry hw srv x r db c = (r', db', c')" "wr_AlertsInserted r' \<le> wr_AlertsInserted r" "wr_Errors r' = []"
  shows "x = Inr [] \<and> db' = db \<and> c' = c \<and> r' = r"
proof (cases x)
  case (Inl e)
  then show ?thesis using assms by (auto simp: run_check_def)
next
  case (Inr crs)
  then have "handle_all dry hw srv crs r db c = (r', db', c')" using assms(1) by (simp add: run_check_def)
  moreover have "length (wr_Errors r') = 0" using assms(3) by simp
  ultimately have "length crs = 0" using handle_all_count [of dry hw srv crs r db c r' db' c'] assms(2) by linarith
  then have "crs = []" by simp
  then show ?thesis using assms(1) Inr by (simp add: run_check_def)
qed

lemma run_check_mono: "run_check dry hw srv x r db c = (r', db', c') \<Longrightarrow> wr_AlertsInserted r \<le> wr_AlertsInserted r'"
  by (auto simp: run_check_def dest: handle_all_count split: sum.splits)

lemma CleanupOldAttempts_rest:
  "CleanupOldAttempts ok now db = Inr (n, db') \<Longrightarrow> rc_cb db' = rc_cb db \<and> rc_alerts db' = rc_alerts db \<and>
     rc_attempts db' = filter (\<lambda>t. now - 7 * ns_per_day \<le> t) (rc_attempts db)"
  by (auto simp: CleanupOldAttempts_def not_less split: if_splits)

text \<open>The run split into its three phases.\<close>

lemma RunWeekly_phases:
  assumes "RunWeekly dry hw env asOf db c = (r, db', c')"
  obtains r1 db1 c1 r2 db2 where
    "run_check dry hw (re_srv env) (runCheck1DCInvariant (re_prio env) (re_check1_ok env) db)
       \<lparr>wr_AlertsInserted = 0, wr_AttemptsCleanedUp = 0, wr_Errors = []\<rparr> db c = (r1, db1, c1)"
    "run_check dry hw (re_srv env) (runCheck2CashbackBackward (re_check2_ok env) db1 (timeToPeriod (day_of asOf))) r1 db1 c1 = (r2, db2, c')"
    "rc_cb db' = rc_cb db2" "rc_alerts db' = rc_alerts db2" "wr_AlertsInserted r = wr_AlertsInserted r2"
    "wr_Errors r = [] \<longrightarrow> wr_Errors r2 = []"
proof -
  obtain r1 db1 c1 where 1: "run_check dry hw (re_srv env) (runCheck1DCInvariant (re_prio env) (re_check1_ok env) db)
       \<lparr>wr_AlertsInserted = 0, wr_AttemptsCleanedUp = 0, wr_Errors = []\<rparr> db c = (r1, db1, c1)" by (metis prod_cases3)
  obtain r2 db2 c2 where 2: "run_check dry hw (re_srv env) (runCheck2CashbackBackward (re_check2_ok env) db1 (timeToPeriod (day_of asOf))) r1 db1 c1
       = (r2, db2, c2)" by (metis prod_cases3)
  show ?thesis
    using that [OF 1, of r2 db2] 1 2 assms CleanupOldAttempts_rest
    by (auto simp: RunWeekly_def Let_def split: sum.splits prod.splits)
qed

lemma halted_refuses:
  assumes "db_system_state w = Some st" "ss_ReadOnly st" "sysRefreshedAt c = 0 \<or> sysReadOnly c"
    and "\<forall>env \<in> set envs. we_state_read_ok env \<and> we_outbox_configured env \<and> sysStateTTL \<le> we_now env"
  shows "attempts envs pool w i c = replicate (length envs) (Inl ErrSystemReadOnly)"
  using assms(3,4)
proof (induction envs arbitrary: c)
  case (Cons env envs)
  have "\<exists>c1. PostInTx env pool i w c = (Inl ErrSystemReadOnly, c1) \<and> (sysRefreshedAt c1 = 0 \<or> sysReadOnly c1)"
    using assms(1,2) Cons.prems by (auto simp: PostInTx_def checkReadOnly_def GetSystemState_def)
  then show ?case using Cons by auto
qed simp


section \<open>The periods checked\<close>

text \<open>The month \<open>j\<close> months before a month, as a \<^verbatim>\<open>YYYYMM\<close> number.\<close>

definition month_back :: "int \<Rightarrow> int \<Rightarrow> int \<Rightarrow> int" where
  "month_back y m j = (let k = 12 * y + (m - 1) - j in k div 12 * 100 + k mod 12 + 1)"

lemma prevPeriod_civil:
  assumes "1 \<le> m" "m \<le> 12" "1 \<le> y"
  shows "prevPeriod (y * 100 + m) = (if m = 1 then (y - 1) * 100 + 12 else y * 100 + (m - 1))"
proof -
  have "(y * 100 + m) sdiv 100 = y" "(y * 100 + m) smod 100 = m"
    using assms by (simp_all add: signed_divide_int_def signed_modulo_int_def)
  then show ?thesis by (simp add: prevPeriod_def Let_def)
qed

lemma month_index: "0 \<le> i \<Longrightarrow> i < 12 \<Longrightarrow> (12 * y + i) div 12 = (y :: int) \<and> (12 * y + i) mod 12 = i"
  by simp

lemma month_back_simps:
  assumes "1 \<le> m" "m \<le> 12"
  shows "month_back y m 0 = y * 100 + m"
    and "month_back y m 1 = (if m = 1 then (y - 1) * 100 + 12 else y * 100 + (m - 1))"
    and "month_back y m 2 = (if m \<le> 2 then (y - 1) * 100 + (m + 10) else y * 100 + (m - 2))"
  using assms month_index [of "m - 1" y] month_index [of "m - 2" y] month_index [of "m + 10" "y - 1"]
    month_index [of "m - 3" y] month_index [of "m + 9" "y - 1"] month_index [of 11 "y - 1"]
  by (auto simp: month_back_def Let_def algebra_simps)

lemma prevPeriod_back:
  assumes "1 \<le> m" "m \<le> 12" "2 \<le> y"
  shows "prevPeriod (y * 100 + m) = month_back y m 1" "prevPeriod (prevPeriod (y * 100 + m)) = month_back y m 2"
  using assms prevPeriod_civil [of m y] prevPeriod_civil [of "m - 1" y] prevPeriod_civil [of 12 "y - 1"]
  by (auto simp: month_back_simps)


section \<open>Properties of the weekly run\<close>

text \<open>
  C17. No false alarm. On every ledger the platform can reach (deliveries, payout runs, and any other
  posting that keeps the ledger's own invariant), in dry-run or live mode and whatever fails in between,
  the weekly run raises no alert, leaves the ledger, the plans and the read-only switch as they are and
  keeps the posting cache.
\<close>

theorem weekly_no_false_alarm:
  assumes "cb_inv allowed cb0" "(cb_step allowed)\<^sup>*\<^sup>* cb0 (rc_cb db)"
    and "RunWeekly dry hw env asOf db c = (r, db', c')"
  shows "wr_AlertsInserted r = 0 \<and> rc_cb db' = rc_cb db \<and> rc_alerts db' = rc_alerts db \<and> c' = c"
proof -
  have inv: "cb_inv allowed (rc_cb db)" using cb_reachable_inv assms(1,2) by blast
  have quiet: "run_check dry hw srv x r db c = (r1, db1, c1) \<Longrightarrow> x \<in> {Inr [], Inl RcQuery} \<Longrightarrow>
      db1 = db \<and> c1 = c \<and> wr_AlertsInserted r1 = wr_AlertsInserted r" for srv x r db c r1 db1 c1
    by (auto simp: run_check_def)
  from assms(3) show ?thesis
  proof (cases rule: RunWeekly_phases)
    case (1 r1 db1 c1 r2 db2)
    have "wallet_inv (rc_wallet db)" using inv by (simp add: cb_inv_def)
    then have a: "db1 = db \<and> c1 = c \<and> wr_AlertsInserted r1 = 0"
      using quiet [OF 1(1)] check1_sound_ledger by simp
    then have "db2 = db \<and> c' = c \<and> wr_AlertsInserted r2 = 0"
      using quiet [OF 1(2)] check2_sound_ledger [OF inv] by simp
    then show ?thesis using 1 by simp
  qed
qed

text \<open>
  No drift is silent. When the run reports no alert and no error, the debits and credits of every
  currency cancel over the whole ledger, and for the month of the run and the two months before it the
  cashback payments booked as paid add up to the ledger credits they point to.
\<close>

theorem weekly_clean_report:
  assumes "RunWeekly dry hw env asOf db c = (r, db', c')" "wr_AlertsInserted r = 0" "wr_Errors r = []"
    and "civil_of_days (day_of asOf) = (y, m, d)" "2 \<le> y"
  shows "(\<forall>cur. dc_delta (rc_wallet db) cur = 0) \<and>
    (\<forall>j \<in> {0, 1, 2}. sum_list (map fst (check2_rows (rc_cb db) (month_back y m j))) =
       sum_list (map (\<lambda>row. case snd row of None \<Rightarrow> 0 | Some a \<Rightarrow> a) (check2_rows (rc_cb db) (month_back y m j))))"
  using assms(1)
proof (cases rule: RunWeekly_phases)
  case (1 r1 db1 c1 r2 db2)
  have m: "1 \<le> m" "m \<le> 12" using civil_of_days_range [of "day_of asOf"] assms(4) by auto
  have p: "timeToPeriod (day_of asOf) = y * 100 + m" using assms(4) by (simp add: timeToPeriod_def)
  have "wr_AlertsInserted r1 = 0"
    using run_check_mono [OF 1(1)] run_check_mono [OF 1(2)] assms(2) 1(5) by simp
  then have second: "runCheck2CashbackBackward (re_check2_ok env) db1 (y * 100 + m) = Inr []" "r2 = r1"
    using run_check_clean [OF 1(2)] 1(5,6) assms(2,3) p by auto
  then have first: "runCheck1DCInvariant (re_prio env) (re_check1_ok env) db = Inr []" "db1 = db"
    using run_check_clean [OF 1(1)] 1(6) assms(3) \<open>wr_AlertsInserted r1 = 0\<close> by auto
  have "dc_delta (rc_wallet db) cur = 0" for cur
  proof (cases "cur \<in> set (entry_currencies (rc_wallet db))")
    case True
    then show ?thesis using first(1)
      by (auto simp: runCheck1DCInvariant_def Check1DCBalance_def Let_def filter_empty_conv split: if_splits)
  next
    case False
    then have "filter (\<lambda>e. acct_currency (rc_wallet db) (l_account_id e) = Some cur) (db_entries (rc_wallet db)) = []"
      by (force simp: filter_empty_conv entry_currencies_def map_filter_def)
    then show ?thesis by (simp add: dc_delta_def)
  qed
  moreover have "check2_period q db p1 [] \<noteq> Inr []" if "sum_list (map fst (check2_rows (rc_cb db) p1)) \<noteq>
       sum_list (map (\<lambda>row. case snd row of None \<Rightarrow> 0 | Some a \<Rightarrow> a) (check2_rows (rc_cb db) p1))" for q p1
    using that by (auto simp: check2_period_def Check2CashbackBackward_def Let_def)
  moreover have "check2_period q db p1 rs = Inr rs' \<Longrightarrow> length rs \<le> length rs'" for q p1 rs rs'
    by (auto simp: check2_period_def Let_def split: sum.splits prod.splits if_splits)
  ultimately show ?thesis
    using second(1) first(2) prevPeriod_back [OF m assms(5)] month_back_simps(1) [OF m, of y]
    by (auto simp: runCheck2CashbackBackward_def split: sum.splits) (metis le_zero_eq length_0_conv)+
qed

text \<open>
  A drift stops the ledger. When a live run raises an alert it has stored exactly as many alerts
  as it reports, has left every transaction, entry, account, plan and payment alone, and from then on
  every posting of the process is refused, however often and whenever (the clock being past the cache's
  lifetime after the epoch) it is attempted, as long as the switch stays set and readable.
\<close>

theorem weekly_drift_halts:
  assumes "RunWeekly False True env asOf db c = (r, db', c')" "0 < wr_AlertsInserted r"
    and "db_system_state (rc_wallet db) \<noteq> None"
    and "\<forall>env \<in> set envs. we_state_read_ok env \<and> we_outbox_configured env \<and> sysStateTTL \<le> we_now env"
  shows "int (length (rc_alerts db')) = int (length (rc_alerts db)) + wr_AlertsInserted r \<and> ledger_of db' = ledger_of db \<and>
    attempts envs pool (rc_wallet db') i c' = replicate (length envs) (Inl ErrSystemReadOnly)"
  using assms(1)
proof (cases rule: RunWeekly_phases)
  case (1 r1 db1 c1 r2 db2)
  have "recorded_since \<lparr>wr_AlertsInserted = 0, wr_AttemptsCleanedUp = 0, wr_Errors = []\<rparr> db c r2 db2 c'"
    using run_check_recorded [OF 1(1)] run_check_recorded [OF 1(2)] by (rule recorded_since_trans)
  then have rec: "int (length (rc_alerts db2)) - int (length (rc_alerts db)) = wr_AlertsInserted r2" "ledger_of db2 = ledger_of db"
    "db_system_state (rc_wallet db2) \<noteq> None" "halted db2 c'"
    using assms(2,3) 1(5) by (auto simp: recorded_since_def split: if_splits)
  then obtain st where "db_system_state (rc_wallet db') = Some st" "ss_ReadOnly st" "sysRefreshedAt c' = 0"
    using 1(3) by (auto simp: halted_def)
  then show ?thesis using halted_refuses [of "rc_wallet db'" st c' envs] assms(4) rec(1,2) 1(3-5) by (simp add: ledger_of_def)
qed

text \<open>
  A dry run persists nothing: every failed check is counted as an inserted alert, yet neither an alert
  nor the switch nor anything else of the ledger is written.
\<close>

theorem dry_run_persists_nothing:
  assumes "RunWeekly True hw env asOf db c = (r, db', c')"
    and "runCheck1DCInvariant (re_prio env) (re_check1_ok env) db = Inr crs1"
    and "runCheck2CashbackBackward (re_check2_ok env) db (timeToPeriod (day_of asOf)) = Inr crs2"
  shows "wr_AlertsInserted r = int (length crs1 + length crs2) \<and> rc_alerts db' = rc_alerts db \<and> rc_cb db' = rc_cb db \<and> c' = c"
  using assms(1)
proof (cases rule: RunWeekly_phases)
  case (1 r1 db1 c1 r2 db2)
  then show ?thesis using assms(2,3) by (auto simp: run_check_def handle_all_dry)
qed


section \<open>A sound and a drifting ledger\<close>

definition rc_of :: "cb_db \<Rightarrow> rc_db" where
  "rc_of cb = \<lparr>rc_cb = cb, rc_alerts = [], rc_next_alert = 1, rc_attempts = [0, 20 * ns_per_day]\<rparr>"

definition rc_env_ex :: rc_env where
  "rc_env_ex = \<lparr>re_now = at_midnight 20480, re_prio = (\<lambda>_. 0), re_check1_ok = True, re_check2_ok = (\<lambda>_. True), re_cleanup_ok = True,
     re_srv = (\<lambda>_. \<lparr>rs_now = at_midnight 20480, rs_outs = []\<rparr>)\<rparr>"

text \<open>A stray debit: one entry of no balanced transaction.\<close>

definition drift_ex :: rc_db where
  "drift_ex = rc_of (cb_empty\<lparr>cb_wallet := ledger_ex\<lparr>db_entries :=
     [\<lparr>l_id = 1, l_transaction_id = 1, l_account_id = 6, l_direction = Debit, l_amount_minor = 5, l_created_at = 0\<rparr>]\<rparr>\<rparr>)"

theorem weekly_no_false_alarm_witness:
  "wr_AlertsInserted (fst (RunWeekly False True rc_env_ex (at_midnight 20480) (rc_of paid_ex) cache_ex)) = 0"
  using weekly_no_false_alarm [OF cb_empty_inv, of deployed_statuses "rc_of paid_ex" False True rc_env_ex "at_midnight 20480" cache_ex]
    paid_ex_reachable
  by (metis rc_db.select_convs(1) rc_of_def prod.collapse)

lemma drift_run_eval:
  "(case RunWeekly False True rc_env_ex (at_midnight 20480) drift_ex cache_ex of (r, db, c) \<Rightarrow>
      (wr_AlertsInserted r, wr_AttemptsCleanedUp r, wr_Errors r, map ar_delta (rc_alerts db))) = (1, 2, [], [5])"
  by code_simp

theorem weekly_clean_report_witness:
  "dc_delta (rc_wallet (rc_of (delivered_db deployed_statuses))) ''TRY_COIN'' = 0"
proof -
  have "wr_AlertsInserted (fst (RunWeekly False True rc_env_ex (at_midnight 20480) (rc_of (delivered_db deployed_statuses)) cache_ex)) = 0"
    "wr_Errors (fst (RunWeekly False True rc_env_ex (at_midnight 20480) (rc_of (delivered_db deployed_statuses)) cache_ex)) = []"
    "civil_of_days (day_of (at_midnight 20480)) = (2026, 1, 27)"
    by code_simp+
  then show ?thesis
    using weekly_clean_report [of False True rc_env_ex "at_midnight 20480" "rc_of (delivered_db deployed_statuses)" cache_ex]
    by (metis prod.collapse one_le_numeral numeral_le_iff semiring_norm(68,71))
qed

theorem weekly_drift_halts_witness:
  "attempts [wenv_ex, wenv_ex] ledger_ex (rc_wallet (fst (snd (RunWeekly False True rc_env_ex (at_midnight 20480) drift_ex cache_ex))))
     post_ex (snd (snd (RunWeekly False True rc_env_ex (at_midnight 20480) drift_ex cache_ex))) =
   [Inl ErrSystemReadOnly, Inl ErrSystemReadOnly]"
proof -
  obtain r db c where run: "RunWeekly False True rc_env_ex (at_midnight 20480) drift_ex cache_ex = (r, db, c)" by (metis prod_cases3)
  have "0 < wr_AlertsInserted r" using drift_run_eval by (simp add: run)
  moreover have "db_system_state (rc_wallet drift_ex) \<noteq> None" by (simp add: drift_ex_def rc_of_def ledger_ex_def)
  moreover have "we_state_read_ok wenv_ex \<and> we_outbox_configured wenv_ex \<and> sysStateTTL \<le> we_now wenv_ex"
    by (simp add: wenv_ex_def sysStateTTL_def ns_per_day_def ns_per_sec_def)
  ultimately show ?thesis
    using weekly_drift_halts [OF run, of "[wenv_ex, wenv_ex]"] by (simp add: run)
qed

lemma drift_checks_eval:
  "runCheck1DCInvariant (re_prio rc_env_ex) (re_check1_ok rc_env_ex) drift_ex = Inr
     [\<lparr>cr_CheckName = ''check1_dc_invariant'', cr_Passed = False, cr_DriftMinor = 5,
       cr_Details = ''currency=TRY_COIN delta=5 (non-zero D-C sum)''\<rparr>]"
  "runCheck2CashbackBackward (re_check2_ok rc_env_ex) drift_ex (timeToPeriod (day_of (at_midnight 20480))) = Inr []"
  by code_simp+

theorem dry_run_persists_nothing_witness:
  "case RunWeekly True True rc_env_ex (at_midnight 20480) drift_ex cache_ex of (r, db, c) \<Rightarrow>
     wr_AlertsInserted r = 1 \<and> rc_alerts db = []"
proof -
  obtain r db c where run: "RunWeekly True True rc_env_ex (at_midnight 20480) drift_ex cache_ex = (r, db, c)" by (metis prod_cases3)
  have "rc_alerts drift_ex = []" by (simp add: drift_ex_def rc_of_def)
  then show ?thesis using dry_run_persists_nothing [OF run drift_checks_eval] by (simp add: run)
qed

end
