(* ===== verification/Ascii.thy ===== *)
theory Ascii
  imports Main
begin

text \<open>
  The functions of Go's package \<^verbatim>\<open>strings\<close> that the program applies to texts, on ASCII codes: \<^verbatim>\<open>ToUpper\<close>, \<^verbatim>\<open>ToLower\<close>,
  \<^verbatim>\<open>TrimSpace\<close>, \<^verbatim>\<open>EqualFold\<close>; and classes of characters for the regular expressions.
\<close>

definition upper :: "char \<Rightarrow> char" where
  "upper c = (let n = of_char c :: nat in if 97 \<le> n \<and> n \<le> 122 then char_of (n - 32) else c)"

definition lower :: "char \<Rightarrow> char" where
  "lower c = (let n = of_char c :: nat in if 65 \<le> n \<and> n \<le> 90 then char_of (n + 32) else c)"

definition is_space :: "char \<Rightarrow> bool" where
  "is_space c \<longleftrightarrow> (of_char c :: nat) \<in> {9, 10, 11, 12, 13, 32}"

definition trim_space :: "string \<Rightarrow> string" where
  "trim_space s = rev (dropWhile is_space (rev (dropWhile is_space s)))"

definition EqualFold :: "string \<Rightarrow> string \<Rightarrow> bool" where
  "EqualFold s t \<longleftrightarrow> map lower s = map lower t"

definition in_range_of :: "nat \<Rightarrow> nat \<Rightarrow> char \<Rightarrow> bool" where
  "in_range_of a b c \<longleftrightarrow> a \<le> of_char c \<and> of_char c \<le> b"

abbreviation is_digit_char :: "char \<Rightarrow> bool" where
  "is_digit_char \<equiv> in_range_of 48 57"

abbreviation is_upper_char :: "char \<Rightarrow> bool" where
  "is_upper_char \<equiv> in_range_of 65 90"

abbreviation is_lower_char :: "char \<Rightarrow> bool" where
  "is_lower_char \<equiv> in_range_of 97 122"

lemma of_char_lower: "of_char (lower c) = (let n = of_char c :: nat in if 65 \<le> n \<and> n \<le> 90 then n + 32 else n)"
  by (simp add: lower_def Let_def of_char_of)

lemma lower_lower [simp]: "lower (lower c) = lower c"
  using of_char_lower [of c] by (auto simp: lower_def Let_def split: if_splits)

lemma lower_not_upper: "of_char (lower c) < (65 :: nat) \<or> 90 < (of_char (lower c) :: nat)"
  by (auto simp: of_char_lower Let_def)

end
