(* ===== verification/Pricing.thy ===== *)
theory Pricing
  imports Calendar Ascii
begin

text \<open>
  Prices of the order service: \<^verbatim>\<open>internal/order/pricing.go\<close> and \<^verbatim>\<open>internal/order/coupon.go\<close>. A percentage
  discount is rounded half up per unit; a coupon is applied per unit on the already discounted price. The
  preview the cart shows applies the coupon to the subtotal instead.
\<close>

section \<open>Definitions\<close>

definition BasketDiscountMinor :: "int \<Rightarrow> int \<Rightarrow> int" where
  "BasketDiscountMinor baseMinor pct =
     (if pct \<le> 0 \<or> baseMinor \<le> 0 then 0
      else (let pct = (if pct > 100 then 100 else pct) in
            wrap64 (wrap64 (baseMinor * pct) + 50) sdiv 100))"

definition DiscountedUnitMinor :: "int \<Rightarrow> int \<Rightarrow> int" where
  "DiscountedUnitMinor unitPriceMinor pct = wrap64 (unitPriceMinor - BasketDiscountMinor unitPriceMinor pct)"

definition basketPctOf :: "int option \<Rightarrow> int" where
  "basketPctOf pct =
     (case pct of None \<Rightarrow> 0 | Some p \<Rightarrow> if p \<le> 0 then 0 else if p > 100 then 100 else p)"

record coupon =
  cpn_ID :: int
  cpn_Code :: string
  cpn_Kind :: string
  cpn_PercentOff :: int
  cpn_MinBasketMinor :: int
  cpn_MaxRedemptions :: "int option"
  cpn_StartsAt :: instant
  cpn_ExpiresAt :: "instant option"
  cpn_Active :: bool
  cpn_Market :: string

record coupon_validation =
  cv_Valid :: bool
  cv_Code :: string
  cv_PercentOff :: int
  cv_DiscountMinor :: int
  cv_Reason :: string

text \<open>The same upper-casing is the SQL \<^verbatim>\<open>upper\<close> of the coupon look-up.\<close>

definition NormalizeCouponCode :: "string \<Rightarrow> string" where
  "NormalizeCouponCode code = map upper (trim_space code)"

definition resolveCoupon :: "coupon option \<Rightarrow> int \<Rightarrow> int \<Rightarrow> instant \<Rightarrow> coupon_validation" where
  "resolveCoupon c subtotalMinor redemptions now =
     (case c of
        None \<Rightarrow> \<lparr>cv_Valid = False, cv_Code = [], cv_PercentOff = 0, cv_DiscountMinor = 0, cv_Reason = ''not_found''\<rparr>
      | Some c \<Rightarrow>
          (let out = \<lparr>cv_Valid = False, cv_Code = cpn_Code c, cv_PercentOff = cpn_PercentOff c, cv_DiscountMinor = 0, cv_Reason = []\<rparr> in
           if \<not> cpn_Active c then out\<lparr>cv_Reason := ''inactive''\<rparr>
           else if now < cpn_StartsAt c then out\<lparr>cv_Reason := ''not_started''\<rparr>
           else if (case cpn_ExpiresAt c of None \<Rightarrow> False | Some t \<Rightarrow> \<not> now < t) then out\<lparr>cv_Reason := ''expired''\<rparr>
           else if subtotalMinor < cpn_MinBasketMinor c then out\<lparr>cv_Reason := ''min_basket''\<rparr>
           else if (case cpn_MaxRedemptions c of None \<Rightarrow> False | Some m \<Rightarrow> redemptions \<ge> m) then out\<lparr>cv_Reason := ''exhausted''\<rparr>
           else out\<lparr>cv_Valid := True, cv_DiscountMinor := BasketDiscountMinor subtotalMinor (cpn_PercentOff c)\<rparr>))"

section \<open>The discount is the percentage rounded half up\<close>

text \<open>The largest base for which the product of base and percentage cannot wrap.\<close>

definition max_base :: int where
  "max_base = 92233720368547757"

lemma discount_closed:
  assumes "0 < base" "base \<le> max_base" "0 < pct" "pct \<le> 100"
  shows "BasketDiscountMinor base pct = (base * pct + 50) div 100"
proof -
  have "base * pct \<le> max_base * 100" using assms by (intro mult_mono) auto
  moreover have "0 \<le> base * pct" using assms by simp
  ultimately have "is_i64 (base * pct)" "is_i64 (base * pct + 50)"
    by (simp_all add: is_i64_def min_i64_def max_i64_def max_base_def)
  then show ?thesis using assms \<open>0 \<le> base * pct\<close>
    by (simp add: BasketDiscountMinor_def wrap64_id sdiv_nonneg)
qed

text \<open>Half up: twice the error of the rounded value lies in the half-open unit interval.\<close>

lemma discount_half_up:
  assumes "0 < base" "base \<le> max_base" "0 < pct" "pct \<le> 100"
  shows "100 * BasketDiscountMinor base pct - base * pct \<le> 50 \<and> base * pct - 100 * BasketDiscountMinor base pct < 50"
proof -
  have "100 * ((a + 50) div 100) - a \<le> 50 \<and> a - 100 * ((a + 50) div 100) < 50" for a :: int by presburger
  then show ?thesis unfolding discount_closed [OF assms] .
qed

lemma discount_bounds:
  assumes "0 \<le> base" "base \<le> max_base"
  shows "0 \<le> BasketDiscountMinor base pct \<and> BasketDiscountMinor base pct \<le> base"
proof (cases "pct \<le> 0 \<or> base = 0")
  case True
  then show ?thesis using assms by (auto simp: BasketDiscountMinor_def)
next
  case False
  define p where "p = (if pct > 100 then 100 else pct)"
  have p: "0 < p" "p \<le> 100" using False by (auto simp: p_def)
  have "BasketDiscountMinor base pct = BasketDiscountMinor base p" by (simp add: BasketDiscountMinor_def p_def)
  moreover have "base * p \<le> base * 100" using p assms by (intro mult_left_mono) auto
  moreover have "0 \<le> (base * p + 50) div 100" using p assms by (simp add: pos_imp_zdiv_nonneg_iff)
  moreover have "(base * p + 50) div 100 \<le> (base * 100 + 50) div 100" using calculation(2) by (intro zdiv_mono1) auto
  moreover have "(base * 100 + 50) div 100 = base" by simp
  moreover have "BasketDiscountMinor base p = (base * p + 50) div 100" using discount_closed [of base p] False assms p by simp
  ultimately show ?thesis by simp
qed

lemma discounted_closed:
  assumes "0 \<le> u" "u \<le> max_base"
  shows "DiscountedUnitMinor u pct = u - BasketDiscountMinor u pct" "0 \<le> DiscountedUnitMinor u pct" "DiscountedUnitMinor u pct \<le> u"
proof -
  have "is_i64 (u - BasketDiscountMinor u pct)"
    using discount_bounds [OF assms, of pct] assms by (simp add: is_i64_def min_i64_def max_i64_def max_base_def)
  then show "DiscountedUnitMinor u pct = u - BasketDiscountMinor u pct" by (simp add: DiscountedUnitMinor_def wrap64_id)
  then show "0 \<le> DiscountedUnitMinor u pct" "DiscountedUnitMinor u pct \<le> u" using discount_bounds [OF assms, of pct] by auto
qed

lemma basketPctOf_range: "0 \<le> basketPctOf p \<and> basketPctOf p \<le> 100"
  by (simp add: basketPctOf_def split: option.split)


section \<open>Preview and charge of a coupon\<close>

text \<open>
  What a coupon takes off a basket of lines (unit price after the basket discount, quantity): the
  preview on the subtotal, and the sum of the per-unit discounts that is charged.
\<close>

definition basket_subtotal :: "(int \<times> int) list \<Rightarrow> int" where
  "basket_subtotal ls = sum64 (\<lambda>(u, q). wrap64 (u * q)) ls"

definition coupon_charged :: "int \<Rightarrow> (int \<times> int) list \<Rightarrow> int" where
  "coupon_charged pct ls = sum64 (\<lambda>(u, q). wrap64 (wrap64 (u - DiscountedUnitMinor u pct) * q)) ls"

definition exact_total :: "(int \<times> int) list \<Rightarrow> int" where
  "exact_total ls = sum_list (map (\<lambda>(u, q). u * q) ls)"

definition units :: "(int \<times> int) list \<Rightarrow> int" where
  "units ls = sum_list (map snd ls)"

definition lines_ok :: "(int \<times> int) list \<Rightarrow> bool" where
  "lines_ok ls \<longleftrightarrow> list_all (\<lambda>(u, q). 0 \<le> u \<and> 0 < q) ls \<and> exact_total ls \<le> max_base"

lemma exact_total_nonneg: "list_all (\<lambda>(u, q). 0 \<le> u \<and> 0 < q) ls \<Longrightarrow> 0 \<le> exact_total ls"
  unfolding exact_total_def by (intro sum_list_nonneg) (auto simp: list_all_iff)

lemma lines_ok_Cons:
  assumes "lines_ok ((u, q) # ls)"
  shows "0 \<le> u" "0 < q" "u * q \<le> max_base" "u \<le> max_base" "lines_ok ls"
proof -
  show uq: "0 \<le> u" "0 < q" using assms by (auto simp: lines_ok_def)
  have "0 \<le> exact_total ls" using assms exact_total_nonneg by (auto simp: lines_ok_def)
  moreover have "u * q + exact_total ls \<le> max_base" using assms by (simp add: lines_ok_def exact_total_def)
  moreover have "u * 1 \<le> u * q" using uq by (intro mult_left_mono) auto
  moreover have "0 \<le> u * q" using uq by simp
  ultimately show "u * q \<le> max_base" "u \<le> max_base" "lines_ok ls" using assms by (auto simp: lines_ok_def)
qed

text \<open>Without wrap-around the charge is the sum of the rounded discounts.\<close>

lemma line_discount:
  assumes "0 \<le> u" "0 < q" "u * q \<le> max_base" "u \<le> max_base"
  shows "wrap64 (wrap64 (u - DiscountedUnitMinor u pct) * q) = BasketDiscountMinor u pct * q"
    "0 \<le> BasketDiscountMinor u pct * q" "BasketDiscountMinor u pct * q \<le> u * q"
proof -
  have b: "0 \<le> BasketDiscountMinor u pct" "BasketDiscountMinor u pct \<le> u" using discount_bounds [OF assms(1,4)] by auto
  show 1: "0 \<le> BasketDiscountMinor u pct * q" "BasketDiscountMinor u pct * q \<le> u * q"
    using b assms(2) by (auto intro: mult_right_mono)
  then have "is_i64 (BasketDiscountMinor u pct * q)" using assms(3) by (simp add: is_i64_def min_i64_def max_i64_def max_base_def)
  moreover have "is_i64 (BasketDiscountMinor u pct)" using b assms(4) by (simp add: is_i64_def min_i64_def max_i64_def max_base_def)
  ultimately show "wrap64 (wrap64 (u - DiscountedUnitMinor u pct) * q) = BasketDiscountMinor u pct * q"
    using discounted_closed(1) [OF assms(1,4)] by (simp add: wrap64_id)
qed

lemma coupon_charged_closed:
  assumes "lines_ok ls"
  shows "coupon_charged pct ls = sum_list (map (\<lambda>(u, q). BasketDiscountMinor u pct * q) ls)"
    "0 \<le> sum_list (map (\<lambda>(u, q). BasketDiscountMinor u pct * q) ls)"
    "sum_list (map (\<lambda>(u, q). BasketDiscountMinor u pct * q) ls) \<le> exact_total ls"
proof -
  have a: "map (\<lambda>(u, q). wrap64 (wrap64 (u - DiscountedUnitMinor u pct) * q)) ls = map (\<lambda>(u, q). BasketDiscountMinor u pct * q) ls \<and>
      0 \<le> sum_list (map (\<lambda>(u, q). BasketDiscountMinor u pct * q) ls) \<and>
      sum_list (map (\<lambda>(u, q). BasketDiscountMinor u pct * q) ls) \<le> exact_total ls"
    using assms
  proof (induction ls)
    case (Cons l ls)
    obtain u q where [simp]: "l = (u, q)" by (cases l)
    note o = lines_ok_Cons [of u q ls]
    have "lines_ok ((u, q) # ls)" using Cons.prems by simp
    note o = o [OF this]
    note d = line_discount [OF o(1-4), of pct]
    show ?case using Cons.IH [OF o(5)] d(1) add_mono [OF d(3)] add_nonneg_nonneg [OF d(2)]
      by (simp add: exact_total_def del: wrap64_mult_left)
  qed (simp add: exact_total_def)
  then show "0 \<le> sum_list (map (\<lambda>(u, q). BasketDiscountMinor u pct * q) ls)"
    "sum_list (map (\<lambda>(u, q). BasketDiscountMinor u pct * q) ls) \<le> exact_total ls" by auto
  then have "is_i64 (sum_list (map (\<lambda>(u, q). BasketDiscountMinor u pct * q) ls))"
    using assms by (simp add: lines_ok_def is_i64_def min_i64_def max_i64_def max_base_def)
  then show "coupon_charged pct ls = sum_list (map (\<lambda>(u, q). BasketDiscountMinor u pct * q) ls)"
    unfolding coupon_charged_def sum64_eq using a by (simp only: wrap64_id)
qed

lemma basket_subtotal_closed: "lines_ok ls \<Longrightarrow> basket_subtotal ls = exact_total ls"
proof -
  assume ok: "lines_ok ls"
  have "map (\<lambda>(u, q). wrap64 (u * q)) ls = map (\<lambda>(u, q). u * q) ls" using ok
  proof (induction ls)
    case (Cons l ls)
    obtain u q where [simp]: "l = (u, q)" by (cases l)
    have "0 \<le> u * q" "u * q \<le> max_base" "lines_ok ls" using lines_ok_Cons [of u q ls] Cons.prems by auto
    then have "is_i64 (u * q)" by (simp add: is_i64_def min_i64_def max_i64_def max_base_def)
    then show ?case using Cons.IH \<open>lines_ok ls\<close> by (simp add: wrap64_id)
  qed simp
  moreover have "is_i64 (exact_total ls)" using ok exact_total_nonneg [of ls]
    by (simp add: lines_ok_def is_i64_def min_i64_def max_i64_def max_base_def)
  ultimately show ?thesis unfolding basket_subtotal_def sum64_eq exact_total_def by (simp only: wrap64_id)
qed

lemma charged_error:
  assumes "lines_ok ls" "0 < pct" "pct \<le> 100"
  shows "100 * sum_list (map (\<lambda>(u, q). BasketDiscountMinor u pct * q) ls) - exact_total ls * pct \<le> 50 * units ls \<and>
    exact_total ls * pct - 100 * sum_list (map (\<lambda>(u, q). BasketDiscountMinor u pct * q) ls) \<le> 50 * units ls"
  using assms(1)
proof (induction ls)
  case (Cons l ls)
  obtain u q where l [simp]: "l = (u, q)" by (cases l)
  have o: "0 \<le> u" "0 < q" "u \<le> max_base" "lines_ok ls" using lines_ok_Cons [of u q ls] Cons.prems by auto
  define b where "b = BasketDiscountMinor u pct"
  have e: "100 * b - u * pct \<le> 50" "u * pct - 100 * b \<le> 50"
    using discount_half_up [of u pct] o assms(2,3) by (cases "u = 0"; auto simp: b_def BasketDiscountMinor_def)+
  have "(100 * b - u * pct) * q \<le> 50 * q" "(u * pct - 100 * b) * q \<le> 50 * q"
    using e o(2) by (auto intro: mult_right_mono)
  then have "100 * (b * q) - u * q * pct \<le> 50 * q" "u * q * pct - 100 * (b * q) \<le> 50 * q"
    by (simp_all add: algebra_simps)
  then show ?case using Cons.IH [OF o(4)] by (auto simp: exact_total_def units_def b_def [symmetric] algebra_simps)
qed (simp add: exact_total_def units_def)


section \<open>Properties\<close>

lemma gap_arith:
  fixes a b x n :: int
  assumes "100 * a - x \<le> 50 * n" "x - 100 * a \<le> 50 * n" "100 * b - x \<le> 50" "x - 100 * b \<le> 50"
  shows "2 * \<bar>b - a\<bar> \<le> n + 1"
  using assms by (simp add: abs_if)

text \<open>
  The coupon the buyer sees and the coupon the buyer is charged. For a valid coupon and any basket whose
  subtotal is below 922 trillion major units, the previewed discount and the sum of the per-unit
  discounts that the order records differ by at most half a minor unit per unit bought (plus half a
  unit), and neither is negative or exceeds the subtotal. They are not equal in general: three units
  at 50 with a 1 percent coupon preview 2 and charge 3.
\<close>

theorem coupon_preview_gap:
  assumes "lines_ok ls" "resolveCoupon (Some c) (basket_subtotal ls) n now = v" "cv_Valid v"
    and "1 \<le> cpn_PercentOff c" "cpn_PercentOff c \<le> 100"
  shows "2 * \<bar>cv_DiscountMinor v - coupon_charged (cv_PercentOff v) ls\<bar> \<le> units ls + 1 \<and>
    0 \<le> cv_DiscountMinor v \<and> cv_DiscountMinor v \<le> exact_total ls \<and>
    0 \<le> coupon_charged (cv_PercentOff v) ls \<and> coupon_charged (cv_PercentOff v) ls \<le> exact_total ls"
proof -
  define T where "T = exact_total ls"
  define p where "p = cpn_PercentOff c"
  have T: "0 \<le> T" "T \<le> max_base" using assms(1) exact_total_nonneg by (auto simp: T_def lines_ok_def)
  have v: "cv_DiscountMinor v = BasketDiscountMinor T p" "cv_PercentOff v = p"
    using assms(2,3) basket_subtotal_closed [OF assms(1)]
    by (auto simp: resolveCoupon_def Let_def T_def p_def split: if_splits)
  define ch where "ch = coupon_charged p ls"
  have "100 * ch - T * p \<le> 50 * units ls" "T * p - 100 * ch \<le> 50 * units ls" "0 \<le> ch" "ch \<le> T"
    using charged_error [OF assms(1), of p] coupon_charged_closed [OF assms(1), of p] assms(4,5)
    by (auto simp: ch_def T_def p_def)
  moreover have "100 * BasketDiscountMinor T p - T * p \<le> 50" "T * p - 100 * BasketDiscountMinor T p \<le> 50"
    using discount_half_up [of T p] T assms(4,5) by (cases "T = 0"; auto simp: p_def BasketDiscountMinor_def)+
  moreover have "0 \<le> BasketDiscountMinor T p" "BasketDiscountMinor T p \<le> T" using discount_bounds [OF T, of p] by auto
  ultimately show ?thesis unfolding v ch_def [symmetric] T_def [symmetric] using gap_arith by blast
qed

definition coupon_ex :: coupon where
  "coupon_ex = \<lparr>cpn_ID = 1, cpn_Code = ''ONE'', cpn_Kind = ''percent'', cpn_PercentOff = 1, cpn_MinBasketMinor = 0,
     cpn_MaxRedemptions = Some 1, cpn_StartsAt = 0, cpn_ExpiresAt = None, cpn_Active = True, cpn_Market = ''TR''\<rparr>"

lemma coupon_ex_eval:
  "resolveCoupon (Some coupon_ex) (basket_subtotal [(50, 3)]) 0 5 =
     \<lparr>cv_Valid = True, cv_Code = ''ONE'', cv_PercentOff = 1, cv_DiscountMinor = 2, cv_Reason = []\<rparr>"
  "coupon_charged 1 [(50, 3)] = 3"
  by code_simp+

theorem coupon_preview_gap_witness:
  "2 * \<bar>2 - coupon_charged 1 [(50, 3)]\<bar> \<le> units [(50, 3)] + 1 \<and> coupon_charged 1 [(50, 3)] \<noteq> 2"
  using coupon_preview_gap [of "[(50, 3)]" coupon_ex 0 5, OF _ coupon_ex_eval(1)] coupon_ex_eval(2)
  by (simp add: lines_ok_def exact_total_def max_base_def coupon_ex_def)

end
