(* ===== verification/Cart.thy ===== *)
theory Cart
  imports Calendar "HOL-Library.Multiset"
begin

text \<open>
  The shopping cart and its stock reservation: \<^verbatim>\<open>internal/cart\<close>. Everything lives in Redis: a hash per
  cart, a counter per variant, a manifest hash per reservation and a marker per reserved item. Each command
  may fail (\<open>rd_oks\<close> holds the outcomes of the coming ones, an empty list meaning success), and a failed
  command has no effect. Hash fields and counters are written by this code only, as decimal numbers, and
  are modelled as integers; the Lua script computes in doubles, which are exact below $2^{53}$. The order in
  which \<^verbatim>\<open>HGETALL\<close> is visited is that of a Go map: unspecified, chosen by \<open>rd_order\<close>.
\<close>

section \<open>State\<close>

datatype cart_error =
    ErrOutOfStock | ErrCartEmpty | ErrReservationNotFound | ErrVariantNotFound | ErrInvalidQty
  | CartRedis | CartCatalog | CartRandom

record cart_item =
  ct_VariantID :: int
  ct_Qty :: int

record redis =
  rd_now :: instant
  rd_oks :: "bool list"
  rd_order :: "int \<Rightarrow> int"
  rd_carts :: "(int \<times> (int \<times> int) list \<times> instant option) list"
  rd_stock :: "(int \<times> int) list"
  rd_manifests :: "(string \<times> (int \<times> int) list \<times> instant option) list"
  rd_items :: "(string \<times> int) list"

type_synonym 'a redis_m = "redis \<Rightarrow> (cart_error + 'a) \<times> redis"

text \<open>One command: it consumes one outcome.\<close>

definition redis_cmd :: "(redis \<Rightarrow> cart_error + 'a \<times> redis) \<Rightarrow> 'a redis_m" where
  "redis_cmd f r =
     (let r1 = r\<lparr>rd_oks := tl (rd_oks r)\<rparr> in
      if rd_oks r \<noteq> [] \<and> \<not> hd (rd_oks r) then (Inl CartRedis, r1)
      else (case f r1 of Inl e \<Rightarrow> (Inl e, r1) | Inr (a, r') \<Rightarrow> (Inr a, r')))"

definition rthen :: "'a redis_m \<Rightarrow> ('a \<Rightarrow> 'b redis_m) \<Rightarrow> 'b redis_m" where
  "rthen m k r = (case m r of (Inl e, r') \<Rightarrow> (Inl e, r') | (Inr a, r') \<Rightarrow> k a r')"

definition rreturn :: "'a \<Rightarrow> 'a redis_m" where
  "rreturn a r = (Inr a, r)"

section \<open>Repository\<close>

definition cartTTL :: int where
  "cartTTL = 30 * 24 * 3600 * ns_per_sec"

definition assoc :: "'k \<Rightarrow> 'v \<Rightarrow> ('k \<times> 'v) list \<Rightarrow> ('k \<times> 'v) list" where
  "assoc k v = map_upd k (\<lambda>_. v)"

definition unassoc :: "'k \<Rightarrow> ('k \<times> 'v) list \<Rightarrow> ('k \<times> 'v) list" where
  "unassoc k m = filter (\<lambda>e. fst e \<noteq> k) m"

text \<open>A hash with its expiry; an expired or empty hash does not exist.\<close>

definition live :: "instant \<Rightarrow> ('h list \<times> instant option) option \<Rightarrow> 'h list" where
  "live now h = (case h of None \<Rightarrow> [] | Some (fs, None) \<Rightarrow> fs | Some (fs, Some t) \<Rightarrow> if now < t then fs else [])"

definition live_ttl :: "instant \<Rightarrow> ('h list \<times> instant option) option \<Rightarrow> instant option" where
  "live_ttl now h = (case h of Some (fs, Some t) \<Rightarrow> if now < t then Some t else None | _ \<Rightarrow> None)"

definition hset :: "instant \<Rightarrow> 'k \<Rightarrow> (int \<times> int) list \<Rightarrow> ('k \<times> (int \<times> int) list \<times> instant option) list
    \<Rightarrow> ('k \<times> (int \<times> int) list \<times> instant option) list" where
  "hset now k fvs m = assoc k (fold (\<lambda>(f, v). assoc f v) fvs (live now (map_of m k)), live_ttl now (map_of m k)) m"

definition hdel :: "instant \<Rightarrow> 'k \<Rightarrow> int \<Rightarrow> ('k \<times> (int \<times> int) list \<times> instant option) list
    \<Rightarrow> ('k \<times> (int \<times> int) list \<times> instant option) list" where
  "hdel now k f m = assoc k (unassoc f (live now (map_of m k)), live_ttl now (map_of m k)) m"

definition expire :: "instant \<Rightarrow> 'k \<Rightarrow> int \<Rightarrow> ('k \<times> (int \<times> int) list \<times> instant option) list
    \<Rightarrow> ('k \<times> (int \<times> int) list \<times> instant option) list" where
  "expire now k ttl m = (if live now (map_of m k) = [] then m else assoc k (live now (map_of m k), Some (now + ttl)) m)"

definition SetItem :: "int \<Rightarrow> int \<Rightarrow> int \<Rightarrow> unit redis_m" where
  "SetItem userID variantID qty =
     rthen (redis_cmd (\<lambda>r. Inr ((), r\<lparr>rd_carts := hset (rd_now r) userID [(variantID, qty)] (rd_carts r)\<rparr>)))
       (\<lambda>_. redis_cmd (\<lambda>r. Inr ((), r\<lparr>rd_carts := expire (rd_now r) userID cartTTL (rd_carts r)\<rparr>)))"

definition repo_RemoveItem :: "int \<Rightarrow> int \<Rightarrow> unit redis_m" where
  "repo_RemoveItem userID variantID =
     rthen (redis_cmd (\<lambda>r. Inr ((), r\<lparr>rd_carts := hdel (rd_now r) userID variantID (rd_carts r)\<rparr>)))
       (\<lambda>_ r. (Inr (), snd (redis_cmd (\<lambda>r. Inr ((), r\<lparr>rd_carts := expire (rd_now r) userID cartTTL (rd_carts r)\<rparr>)) r)))"

definition GetItems :: "int \<Rightarrow> cart_item list redis_m" where
  "GetItems userID = redis_cmd (\<lambda>r. Inr (map (\<lambda>(v, q). \<lparr>ct_VariantID = v, ct_Qty = q\<rparr>)
     (range_map (rd_order r) (live (rd_now r) (map_of (rd_carts r) userID))), r))"

text \<open>\<^verbatim>\<open>reserveLua\<close>: an absent counter is 0; the script runs as one command.\<close>

definition stock_of :: "redis \<Rightarrow> int \<Rightarrow> int" where
  "stock_of r v = (case map_of (rd_stock r) v of None \<Rightarrow> 0 | Some n \<Rightarrow> n)"

definition TryReserve :: "int \<Rightarrow> int \<Rightarrow> string \<Rightarrow> (bool \<times> int) redis_m" where
  "TryReserve variantID qty reservationID = redis_cmd (\<lambda>r.
     (let current = stock_of r variantID in
      if current < qty then Inr ((False, current), r)
      else Inr ((True, current - qty), r\<lparr>rd_stock := assoc variantID (current - qty) (rd_stock r),
             rd_items := List.insert (reservationID, variantID) (rd_items r)\<rparr>)))"

definition SetManifest :: "string \<Rightarrow> cart_item list \<Rightarrow> int \<Rightarrow> unit redis_m" where
  "SetManifest reservationID items ttl =
     (if items = [] then rreturn ()
      else rthen (redis_cmd (\<lambda>r. Inr ((), r\<lparr>rd_manifests :=
                hset (rd_now r) reservationID (map (\<lambda>i. (ct_VariantID i, ct_Qty i)) items) (rd_manifests r)\<rparr>)))
             (\<lambda>_. redis_cmd (\<lambda>r. Inr ((), r\<lparr>rd_manifests := expire (rd_now r) reservationID ttl (rd_manifests r)\<rparr>))))"

text \<open>\<^verbatim>\<open>HGETALL\<close> of the manifest, in the order the map is visited.\<close>

definition get_manifest :: "string \<Rightarrow> (int \<times> int) list redis_m" where
  "get_manifest reservationID = redis_cmd (\<lambda>r. Inr (range_map (rd_order r) (live (rd_now r) (map_of (rd_manifests r) reservationID)), r))"

definition incr_by :: "int \<Rightarrow> int \<Rightarrow> unit redis_m" where
  "incr_by variantID qty = redis_cmd (\<lambda>r.
     (if is_i64 (stock_of r variantID + qty) then Inr ((), r\<lparr>rd_stock := assoc variantID (stock_of r variantID + qty) (rd_stock r)\<rparr>)
      else Inl CartRedis))"

definition del_item :: "string \<Rightarrow> int \<Rightarrow> unit redis_m" where
  "del_item reservationID variantID = redis_cmd (\<lambda>r. Inr ((), r\<lparr>rd_items := removeAll (reservationID, variantID) (rd_items r)\<rparr>))"

definition del_manifest :: "string \<Rightarrow> unit redis_m" where
  "del_manifest reservationID = redis_cmd (\<lambda>r. Inr ((), r\<lparr>rd_manifests := unassoc reservationID (rd_manifests r)\<rparr>))"

fun release_items :: "string \<Rightarrow> (int \<times> int) list \<Rightarrow> unit redis_m" where
  "release_items rid [] = rreturn ()"
| "release_items rid ((v, q) # xs) = rthen (incr_by v q) (\<lambda>_. rthen (del_item rid v) (\<lambda>_. release_items rid xs))"

definition ReleaseReservation :: "string \<Rightarrow> unit redis_m" where
  "ReleaseReservation reservationID = rthen (get_manifest reservationID)
     (\<lambda>data. if data = [] then (\<lambda>r. (Inl ErrReservationNotFound, r))
             else rthen (release_items reservationID data) (\<lambda>_. del_manifest reservationID))"

fun commit_items :: "string \<Rightarrow> (int \<times> int) list \<Rightarrow> unit redis_m" where
  "commit_items rid [] = rreturn ()"
| "commit_items rid ((v, q) # xs) = rthen (del_item rid v) (\<lambda>_. commit_items rid xs)"

definition repo_CommitReservation :: "string \<Rightarrow> unit redis_m" where
  "repo_CommitReservation reservationID = rthen (get_manifest reservationID)
     (\<lambda>data. if data = [] then rreturn ()
             else rthen (commit_items reservationID data) (\<lambda>_. del_manifest reservationID))"

definition SeedStock :: "int \<Rightarrow> int \<Rightarrow> unit redis_m" where
  "SeedStock variantID stock = redis_cmd (\<lambda>r. Inr ((), r\<lparr>rd_stock := assoc variantID stock (rd_stock r)\<rparr>))"

definition SeedStockIfAbsent :: "int \<Rightarrow> int \<Rightarrow> unit redis_m" where
  "SeedStockIfAbsent variantID stock = redis_cmd (\<lambda>r.
     Inr ((), if map_of (rd_stock r) variantID = None then r\<lparr>rd_stock := assoc variantID stock (rd_stock r)\<rparr> else r))"

section \<open>Service\<close>

definition reservationTTL :: int where
  "reservationTTL = 15 * 60 * ns_per_sec"

text \<open>
  The error of the catalog look-up is a parameter: none, \<^verbatim>\<open>catalog.ErrNotFound\<close> (\<open>Some True\<close>) or another one. The
  random part of \<^verbatim>\<open>Reserve\<close> is a parameter too: the id, or none when the generator fails.
\<close>

definition AddItem :: "(int \<Rightarrow> bool option) \<Rightarrow> int \<Rightarrow> int \<Rightarrow> int \<Rightarrow> unit redis_m" where
  "AddItem variant_error userID variantID qty r =
     (if qty \<le> 0 then (Inl ErrInvalidQty, r)
      else (case variant_error variantID of
              Some notFound \<Rightarrow> (Inl (if notFound then ErrVariantNotFound else CartCatalog), r)
            | None \<Rightarrow> SetItem userID variantID qty r))"

definition RemoveItem :: "int \<Rightarrow> int \<Rightarrow> unit redis_m" where
  "RemoveItem userID variantID = repo_RemoveItem userID variantID"

definition GetCart :: "int \<Rightarrow> cart_item list redis_m" where
  "GetCart userID = GetItems userID"

definition releasePartial :: "string \<Rightarrow> cart_item list \<Rightarrow> unit redis_m" where
  "releasePartial reservationID reserved =
     (if reserved = [] then rreturn ()
      else rthen (SetManifest reservationID reserved reservationTTL) (\<lambda>_. ReleaseReservation reservationID))"

text \<open>An error after the compensation: whether the compensation itself succeeded is ignored.\<close>

definition compensate :: "string \<Rightarrow> cart_item list \<Rightarrow> cart_error \<Rightarrow> 'a redis_m" where
  "compensate reservationID reserved e r = (Inl e, snd (releasePartial reservationID reserved r))"

fun reserve_items :: "string \<Rightarrow> cart_item list \<Rightarrow> cart_item list \<Rightarrow> cart_item list redis_m" where
  "reserve_items rid [] reserved r = (Inr reserved, r)"
| "reserve_items rid (item # items) reserved r =
     (if ct_Qty item \<le> 0 then compensate rid reserved ErrInvalidQty r
      else (case TryReserve (ct_VariantID item) (ct_Qty item) rid r of
              (Inl e, r') \<Rightarrow> compensate rid reserved e r'
            | (Inr (False, _), r') \<Rightarrow> compensate rid reserved ErrOutOfStock r'
            | (Inr (True, _), r') \<Rightarrow> reserve_items rid items (reserved @ [item]) r'))"

definition Reserve :: "string option \<Rightarrow> int \<Rightarrow> (string \<times> instant) redis_m" where
  "Reserve newReservationID userID = rthen (GetItems userID) (\<lambda>items r.
     if items = [] then (Inl ErrCartEmpty, r)
     else (case newReservationID of
             None \<Rightarrow> (Inl CartRandom, r)
           | Some rid \<Rightarrow> rthen (reserve_items rid items []) (\<lambda>reserved r1.
               (case SetManifest rid reserved reservationTTL r1 of
                  (Inl e, r2) \<Rightarrow> compensate rid reserved e r2
                | (Inr _, r2) \<Rightarrow> (Inr (rid, rd_now r + reservationTTL), r2))) r))"

definition Release :: "string \<Rightarrow> unit redis_m" where
  "Release reservationID = ReleaseReservation reservationID"

definition CommitReservation :: "string \<Rightarrow> unit redis_m" where
  "CommitReservation reservationID = repo_CommitReservation reservationID"


section \<open>Counters\<close>

lemma redis_cmd_ok [simp]: "rd_oks r = [] \<Longrightarrow> redis_cmd f r = (case f r of Inl e \<Rightarrow> (Inl e, r) | Inr (a, r') \<Rightarrow> (Inr a, r'))"
proof -
  assume ok: "rd_oks r = []"
  then have "r\<lparr>rd_oks := tl (rd_oks r)\<rparr> = r" by (cases r) simp
  then show ?thesis using ok unfolding redis_cmd_def by (simp only: Let_def) simp
qed

lemma stock_of_assoc: "rd_stock r' = assoc v n (rd_stock r) \<Longrightarrow> stock_of r' u = (if u = v then n else stock_of r u)"
  by (simp add: stock_of_def assoc_def map_of_map_upd)

text \<open>Units of a variant in a list of field-value pairs.\<close>

definition held_in :: "(int \<times> int) list \<Rightarrow> int \<Rightarrow> int" where
  "held_in fs v = sum_list (map snd (filter (\<lambda>e. fst e = v) fs))"

lemma held_in_simps [simp]:
  "held_in [] v = 0" "held_in ((u, q) # fs) v = (if u = v then q else 0) + held_in fs v"
  "held_in (fs @ gs) v = held_in fs v + held_in gs v"
  by (simp_all add: held_in_def)

lemma held_in_range [simp]: "held_in (range_map prio fs) v = held_in fs v"
proof -
  have "mset (filter (\<lambda>e. fst e = v) (range_map prio fs)) = mset (filter (\<lambda>e. fst e = v) fs)"
    by (simp add: range_map_def mset_filter)
  moreover have "held_in gs v = sum_mset (image_mset snd (mset (filter (\<lambda>e. fst e = v) gs)))" for gs
    unfolding held_in_def mset_map [symmetric] sum_mset_sum_list ..
  ultimately show ?thesis by (simp only:)
qed

lemma mset_range_map [simp]: "mset (range_map prio fs) = mset fs"
  by (simp add: range_map_def)

lemma stock_of_upd [simp]: "stock_of (r\<lparr>rd_manifests := m\<rparr>) = stock_of r"
  by (simp add: fun_eq_iff stock_of_def)

definition pairs :: "cart_item list \<Rightarrow> (int \<times> int) list" where
  "pairs items = map (\<lambda>i. (ct_VariantID i, ct_Qty i)) items"

lemma pairs_simps [simp]: "pairs [] = []" "pairs (i # is) = (ct_VariantID i, ct_Qty i) # pairs is"
  "pairs (is @ js) = pairs is @ pairs js"
  by (simp_all add: pairs_def)

lemma fold_assoc_fresh:
  assumes "distinct (map fst fvs)" "\<forall>f \<in> set (map fst fvs). f \<notin> fst ` set fs"
  shows "fold (\<lambda>(f, v). assoc f v) fvs fs = fs @ fvs"
  using assms
proof (induction fvs arbitrary: fs)
  case (Cons e fvs)
  obtain f v where [simp]: "e = (f, v)" by (cases e)
  have "assoc f v fs = fs @ [(f, v)]"
    using Cons.prems(2) unfolding assoc_def by (induction fs) auto
  moreover have "\<forall>g \<in> set (map fst fvs). g \<notin> fst ` set (fs @ [(f, v)])" using Cons.prems by auto
  ultimately show ?case using Cons.IH [of "fs @ [(f, v)]"] Cons.prems(1) by simp
qed simp

text \<open>Releasing every listed item without a failure adds exactly the listed units.\<close>

definition same_but_stock :: "redis \<Rightarrow> redis \<Rightarrow> bool" where
  "same_but_stock r r' \<longleftrightarrow> rd_now r' = rd_now r \<and> rd_oks r' = rd_oks r \<and> rd_order r' = rd_order r \<and>
     rd_carts r' = rd_carts r \<and> rd_manifests r' = rd_manifests r"

lemma same_but_stock_simps [simp]: "same_but_stock r r"
  "same_but_stock r (r'\<lparr>rd_stock := s\<rparr>) = same_but_stock r r'" "same_but_stock r (r'\<lparr>rd_items := i\<rparr>) = same_but_stock r r'"
  by (simp_all add: same_but_stock_def)

lemma same_but_stock_trans: "same_but_stock a b \<Longrightarrow> same_but_stock b c \<Longrightarrow> same_but_stock a c"
  by (simp add: same_but_stock_def)

lemma release_items_ok:
  assumes "rd_oks r = []" "list_all (\<lambda>(v, q). 0 < q) fs" "\<forall>v. 0 \<le> stock_of r v \<and> stock_of r v + held_in fs v \<le> max_i64"
  shows "\<exists>r'. release_items rid fs r = (Inr (), r') \<and> same_but_stock r r' \<and> (\<forall>v. stock_of r' v = stock_of r v + held_in fs v)"
  using assms
proof (induction fs arbitrary: r)
  case (Cons e fs)
  obtain v q where [simp]: "e = (v, q)" by (cases e)
  have pos: "0 \<le> held_in fs u" for u
    using Cons.prems(2) unfolding held_in_def by (intro sum_list_nonneg) (auto simp: list_all_iff)
  have fits: "is_i64 (stock_of r v + q)"
    using Cons.prems(2,3) pos [of v] by (auto simp: is_i64_def min_i64_def dest!: spec [of _ v])
  define r1 where "r1 = r\<lparr>rd_stock := assoc v (stock_of r v + q) (rd_stock r), rd_items := removeAll (rid, v) (rd_items r)\<rparr>"
  have s1: "stock_of r1 u = stock_of r u + (if v = u then q else 0)" for u
    by (subst stock_of_assoc [of r1 v "stock_of r v + q" r]) (auto simp: r1_def)
  have "release_items rid (e # fs) r = release_items rid fs r1"
    using Cons.prems(1) fits by (simp add: rthen_def incr_by_def del_item_def r1_def)
  moreover obtain r' where "release_items rid fs r1 = (Inr (), r')" "same_but_stock r1 r'" "\<forall>u. stock_of r' u = stock_of r1 u + held_in fs u"
    using Cons.IH [of r1] Cons.prems s1 by (auto simp: r1_def add.assoc)
  moreover have "same_but_stock r r1" by (simp add: r1_def)
  ultimately show ?case using same_but_stock_trans s1 by auto
qed (simp add: rreturn_def)


lemma assoc_fresh: "map_of m k = None \<Longrightarrow> assoc k x m = m @ [(k, x)]"
  unfolding assoc_def by (induction m) (auto split: if_splits)

lemma assoc_again: "map_of m k = None \<Longrightarrow> assoc k x (m @ [(k, y)]) = m @ [(k, x)]"
  unfolding assoc_def by (induction m) (auto split: if_splits)

lemma unassoc_assoc: "map_of m k = None \<Longrightarrow> unassoc k (assoc k x m) = m"
  by (subst assoc_fresh) (auto simp: unassoc_def map_of_eq_None_iff filter_id_conv)

lemma map_of_assoc [simp]: "map_of (assoc k x m) j = (if j = k then Some x else map_of m j)"
  by (simp add: assoc_def map_of_map_upd)

text \<open>A manifest written for a new id, and the compensation that writes and releases it.\<close>

lemma SetManifest_fresh:
  assumes "rd_oks r = []" "map_of (rd_manifests r) rid = None" "items \<noteq> []" "distinct (map ct_VariantID items)" "0 < ttl"
  shows "SetManifest rid items ttl r =
    (Inr (), r\<lparr>rd_manifests := rd_manifests r @ [(rid, pairs items, Some (rd_now r + ttl))]\<rparr>)"
proof -
  have f: "fold (\<lambda>(f, v). assoc f v) (pairs items) [] = pairs items"
    using fold_assoc_fresh [of "pairs items" "[]"] assms(4) by (simp add: pairs_def comp_def)
  have n: "pairs items \<noteq> []" using assms(3) by (simp add: pairs_def)
  have h: "hset (rd_now r) rid (pairs items) (rd_manifests r) = rd_manifests r @ [(rid, pairs items, None)]"
    using assms(2) by (simp add: hset_def live_def live_ttl_def assoc_fresh f)
  have "expire (rd_now r) rid ttl (rd_manifests r @ [(rid, pairs items, None)]) = rd_manifests r @ [(rid, pairs items, Some (rd_now r + ttl))]"
  proof -
    have l: "live (rd_now r) (map_of (rd_manifests r @ [(rid, pairs items, None)]) rid) = pairs items"
      using assms(2) by (simp add: live_def map_add_def)
    have "assoc rid x (rd_manifests r @ [(rid, y)]) = rd_manifests r @ [(rid, x)]" for x y
      using assoc_again [OF assms(2)] .
    then show ?thesis unfolding expire_def l using n by simp
  qed
  then show ?thesis
    using assms(1,3) h by (simp add: SetManifest_def rthen_def pairs_def [symmetric])
qed

lemma ReleaseReservation_ok:
  assumes "rd_oks r = []" "map_of m rid = None" "rd_manifests r = m @ [(rid, fs, Some t)]" "rd_now r < t"
    and "fs \<noteq> []" "list_all (\<lambda>(v, q). 0 < q) fs" "\<forall>v. 0 \<le> stock_of r v \<and> stock_of r v + held_in fs v \<le> max_i64"
  shows "\<exists>r'. ReleaseReservation rid r = (Inr (), r') \<and> rd_manifests r' = m \<and> rd_carts r' = rd_carts r \<and> rd_oks r' = [] \<and>
    rd_now r' = rd_now r \<and> rd_order r' = rd_order r \<and> (\<forall>v. stock_of r' v = stock_of r v + held_in fs v)"
proof -
  have l: "live (rd_now r) (map_of (rd_manifests r) rid) = fs" using assms(2-4) by (simp add: live_def map_add_def)
  have "list_all (\<lambda>(v, q). 0 < q) (range_map (rd_order r) fs)" using assms(6) by (simp add: list_all_iff)
  then obtain r1 where r1: "release_items rid (range_map (rd_order r) fs) r = (Inr (), r1)" "same_but_stock r r1"
    "\<forall>v. stock_of r1 v = stock_of r v + held_in fs v"
    using release_items_ok [of r "range_map (rd_order r) fs" rid] assms(1,7) by auto
  have "unassoc rid (rd_manifests r1) = m"
    using r1(2) assms(2,3) by (auto simp: same_but_stock_def unassoc_def map_of_eq_None_iff filter_id_conv)
  then show ?thesis
    using r1 assms(1,5) l by (auto simp: ReleaseReservation_def get_manifest_def rthen_def del_manifest_def same_but_stock_def stock_of_def)
qed

text \<open>Stock counters within their range also when the given units come back.\<close>

definition stock_ok :: "redis \<Rightarrow> (int \<times> int) list \<Rightarrow> bool" where
  "stock_ok r fs \<longleftrightarrow> (\<forall>v. 0 \<le> stock_of r v \<and> stock_of r v + held_in fs v \<le> max_i64)"

definition items_ok :: "cart_item list \<Rightarrow> bool" where
  "items_ok items \<longleftrightarrow> distinct (map ct_VariantID items) \<and> list_all (\<lambda>i. 0 < ct_Qty i) items"

definition undone :: "redis \<Rightarrow> redis \<Rightarrow> cart_item list \<Rightarrow> bool" where
  "undone r r' reserved \<longleftrightarrow> rd_manifests r' = rd_manifests r \<and> rd_carts r' = rd_carts r \<and> rd_now r' = rd_now r \<and>
     rd_oks r' = [] \<and> (\<forall>v. stock_of r' v = stock_of r v + held_in (pairs reserved) v)"

lemma compensate_ok:
  assumes "rd_oks r = []" "map_of (rd_manifests r) rid = None" "items_ok reserved" "stock_ok r (pairs reserved)"
  shows "\<exists>r'. compensate rid reserved e r = (Inl e, r') \<and> undone r r' reserved"
proof (cases "reserved = []")
  case True
  then show ?thesis using assms(1) by (auto simp: compensate_def releasePartial_def rreturn_def undone_def)
next
  case False
  define r1 where "r1 = r\<lparr>rd_manifests := rd_manifests r @ [(rid, pairs reserved, Some (rd_now r + reservationTTL))]\<rparr>"
  have "SetManifest rid reserved reservationTTL r = (Inr (), r1)"
    using SetManifest_fresh [of r rid reserved reservationTTL] assms(1-3) False
    by (simp add: r1_def items_ok_def reservationTTL_def ns_per_sec_def)
  moreover obtain r2 where "ReleaseReservation rid r1 = (Inr (), r2)" "undone r r2 reserved"
    using ReleaseReservation_ok [of r1 "rd_manifests r" rid "pairs reserved" "rd_now r + reservationTTL"] assms False
    by (auto simp: r1_def items_ok_def stock_ok_def undone_def stock_of_def pairs_def list_all_iff reservationTTL_def ns_per_sec_def)
  ultimately show ?thesis using False by (simp add: compensate_def releasePartial_def rthen_def)
qed


lemma TryReserve_ok:
  assumes "rd_oks r = []"
  obtains (short) "TryReserve v q rid r = (Inr (False, stock_of r v), r)" "stock_of r v < q"
  | (taken) r' where "TryReserve v q rid r = (Inr (True, stock_of r v - q), r')" "q \<le> stock_of r v" "same_but_stock r r'"
      "\<forall>u. stock_of r' u = stock_of r u - (if v = u then q else 0)"
proof (cases "stock_of r v < q")
  case True
  then show ?thesis using short assms by (simp add: TryReserve_def)
next
  case False
  define r' where "r' = r\<lparr>rd_stock := assoc v (stock_of r v - q) (rd_stock r), rd_items := List.insert (rid, v) (rd_items r)\<rparr>"
  have "TryReserve v q rid r = (Inr (True, stock_of r v - q), r')" using False assms by (simp add: TryReserve_def r'_def Let_def)
  moreover have "stock_of r' u = stock_of r u - (if v = u then q else 0)" for u
    by (subst stock_of_assoc [of r' v "stock_of r v - q" r]) (auto simp: r'_def)
  ultimately show ?thesis using taken [of r'] False by (simp add: r'_def)
qed

text \<open>All lines are taken, or none: what was taken before the failing line comes back.\<close>

definition available :: "redis \<Rightarrow> cart_item list \<Rightarrow> bool" where
  "available r items \<longleftrightarrow> list_all (\<lambda>i. 0 < ct_Qty i \<and> ct_Qty i \<le> stock_of r (ct_VariantID i)) items"

lemma reserve_items_spec:
  assumes "rd_oks r = []" "map_of (rd_manifests r) rid = None" "items_ok reserved" "stock_ok r (pairs reserved)"
    and "distinct (map ct_VariantID (reserved @ items))"
  shows "if available r items
    then \<exists>r'. reserve_items rid items reserved r = (Inr (reserved @ items), r') \<and> same_but_stock r r' \<and>
           (\<forall>v. stock_of r' v = stock_of r v - held_in (pairs items) v \<and> 0 \<le> stock_of r' v)
    else \<exists>e r'. reserve_items rid items reserved r = (Inl e, r') \<and> e \<in> {ErrInvalidQty, ErrOutOfStock} \<and> undone r r' reserved"
  using assms
proof (induction items arbitrary: r reserved)
  case Nil
  then show ?case by (auto simp: available_def stock_ok_def)
next
  case (Cons i items)
  note comp = compensate_ok [OF Cons.prems(1-4)]
  consider (bad) "ct_Qty i \<le> 0" | (short) "0 < ct_Qty i" "stock_of r (ct_VariantID i) < ct_Qty i" | (take) "0 < ct_Qty i" "ct_Qty i \<le> stock_of r (ct_VariantID i)"
    by linarith
  then show ?case
  proof cases
    case bad
    then show ?thesis using comp [of ErrInvalidQty] by (auto simp: available_def)
  next
    case short
    then have "TryReserve (ct_VariantID i) (ct_Qty i) rid r = (Inr (False, stock_of r (ct_VariantID i)), r)"
      using Cons.prems(1) by (simp add: TryReserve_def)
    then show ?thesis using comp [of ErrOutOfStock] short by (auto simp: available_def)
  next
    case take
    obtain r1 where r1: "TryReserve (ct_VariantID i) (ct_Qty i) rid r = (Inr (True, stock_of r (ct_VariantID i) - ct_Qty i), r1)"
        "same_but_stock r r1" "\<forall>u. stock_of r1 u = stock_of r u - (if ct_VariantID i = u then ct_Qty i else 0)"
      using TryReserve_ok [OF Cons.prems(1), of "ct_VariantID i" "ct_Qty i" rid] take by (metis not_le)
    have new: "reserve_items rid (i # items) reserved r = reserve_items rid items (reserved @ [i]) r1"
      using take r1(1) by simp
    have "stock_ok r1 (pairs (reserved @ [i]))"
      using Cons.prems(4) r1(3) take by (auto simp: stock_ok_def)
    moreover have "items_ok (reserved @ [i])" using Cons.prems(3,5) take by (auto simp: items_ok_def)
    moreover have "available r1 items = available r items"
      using Cons.prems(5) r1(3) by (auto simp: available_def list_all_iff)
    moreover have "same_but_stock r1 r' \<Longrightarrow> same_but_stock r r'" for r' using r1(2) same_but_stock_trans by blast
    moreover have "undone r1 r' (reserved @ [i]) \<Longrightarrow> undone r r' reserved" for r'
      using r1(2,3) by (auto simp: undone_def same_but_stock_def)
    ultimately show ?thesis
      using Cons.IH [of r1 "reserved @ [i]"] Cons.prems(1,2,5) r1(2,3) take new
      by (auto simp: available_def same_but_stock_def split: if_splits)
  qed
qed


section \<open>Reservation\<close>

definition cart_of :: "redis \<Rightarrow> int \<Rightarrow> (int \<times> int) list" where
  "cart_of r userID = live (rd_now r) (map_of (rd_carts r) userID)"

text \<open>A Redis hash has no field twice, and the counters are in the range of a Redis integer.\<close>

definition redis_ok :: "redis \<Rightarrow> bool" where
  "redis_ok r \<longleftrightarrow> (\<forall>u. distinct (map fst (cart_of r u))) \<and> (\<forall>v. 0 \<le> stock_of r v \<and> stock_of r v \<le> max_i64)"

definition in_stock :: "redis \<Rightarrow> (int \<times> int) list \<Rightarrow> bool" where
  "in_stock r fs \<longleftrightarrow> list_all (\<lambda>(v, q). 0 < q \<and> q \<le> stock_of r v) fs"

lemma Reserve_spec:
  assumes "redis_ok r" "rd_oks r = []" "map_of (rd_manifests r) rid = None"
  shows "if cart_of r userID \<noteq> [] \<and> in_stock r (cart_of r userID)
    then \<exists>r' fs. Reserve (Some rid) userID r = (Inr (rid, rd_now r + reservationTTL), r') \<and> rd_oks r' = [] \<and>
           (\<forall>v. stock_of r' v = stock_of r v - held_in (cart_of r userID) v) \<and> (\<forall>v. held_in (cart_of r userID) v \<le> stock_of r v) \<and>
           rd_manifests r' = rd_manifests r @ [(rid, fs, Some (rd_now r + reservationTTL))] \<and> rd_now r' = rd_now r \<and>
           rd_carts r' = rd_carts r \<and> mset fs = mset (cart_of r userID)
    else \<exists>e r'. Reserve (Some rid) userID r = (Inl e, r') \<and> e \<in> {ErrCartEmpty, ErrInvalidQty, ErrOutOfStock} \<and> undone r r' []"
proof (cases "cart_of r userID = []")
  case True
  then show ?thesis using assms(2) by (simp add: Reserve_def GetItems_def rthen_def cart_of_def undone_def)
next
  case False
  define fs where "fs = range_map (rd_order r) (cart_of r userID)"
  define items where "items = map (\<lambda>(v, q). \<lparr>ct_VariantID = v, ct_Qty = q\<rparr>) fs"
  have p: "pairs items = fs" by (auto simp: pairs_def items_def comp_def intro: map_idI)
  have ne: "items \<noteq> []" using False by (simp add: items_def fs_def)
  have dist: "distinct (map ct_VariantID items)"
  proof -
    have "map ct_VariantID items = map fst fs" by (auto simp: items_def)
    then show ?thesis using assms(1) by (simp add: fs_def redis_ok_def)
  qed
  have av: "available r items = in_stock r (cart_of r userID)"
    by (auto simp: available_def in_stock_def items_def list_all_iff fs_def)
  have run: "Reserve (Some rid) userID r = rthen (reserve_items rid items []) (\<lambda>reserved r1.
      (case SetManifest rid reserved reservationTTL r1 of
         (Inl e, r2) \<Rightarrow> compensate rid reserved e r2 | (Inr _, r2) \<Rightarrow> (Inr (rid, rd_now r + reservationTTL), r2))) r"
    using assms(2) ne by (simp add: Reserve_def GetItems_def items_def fs_def cart_of_def rthen_def)
  have spec: "if available r items
    then \<exists>r'. reserve_items rid items [] r = (Inr items, r') \<and> same_but_stock r r' \<and>
           (\<forall>v. stock_of r' v = stock_of r v - held_in (pairs items) v \<and> 0 \<le> stock_of r' v)
    else \<exists>e r'. reserve_items rid items [] r = (Inl e, r') \<and> e \<in> {ErrInvalidQty, ErrOutOfStock} \<and> undone r r' []"
  proof -
    have pre: "items_ok []" "stock_ok r (pairs [])" using assms(1) by (simp_all add: stock_ok_def items_ok_def redis_ok_def)
    have "distinct (map ct_VariantID ([] @ items))" using dist by simp
    from reserve_items_spec [OF assms(2,3) pre this] show ?thesis by (simp only: append_Nil)
  qed
  show ?thesis
  proof (cases "available r items")
    case True
    then obtain r1 where r1: "reserve_items rid items [] r = (Inr items, r1)" "same_but_stock r r1"
      "\<forall>v. stock_of r1 v = stock_of r v - held_in fs v \<and> 0 \<le> stock_of r1 v"
      using spec p by auto
    have "SetManifest rid items reservationTTL r1 =
        (Inr (), r1\<lparr>rd_manifests := rd_manifests r @ [(rid, fs, Some (rd_now r + reservationTTL))]\<rparr>)"
      using SetManifest_fresh [of r1 rid items reservationTTL] r1(2) assms(2,3) ne dist p
      by (simp add: same_but_stock_def reservationTTL_def ns_per_sec_def)
    moreover have "held_in fs v \<le> stock_of r v" for v
      using r1(3) [rule_format, of v] by linarith
    ultimately show ?thesis
      using True av False r1 assms(2) unfolding run
      by (auto simp: rthen_def same_but_stock_def fs_def)
  next
    case False
    then show ?thesis using spec av unfolding run by (auto simp: rthen_def)
  qed
qed


section \<open>The cart as a state machine\<close>

text \<open>Every operation, with any command failing, and time passing.\<close>

inductive cart_step :: "redis \<Rightarrow> redis \<Rightarrow> bool" where
  "cart_step r (r\<lparr>rd_now := rd_now r + d, rd_oks := oks, rd_order := ord\<rparr>)" if "0 \<le> d"
| "AddItem cat u v q r = (res, r') \<Longrightarrow> cart_step r r'"
| "RemoveItem u v r = (res, r') \<Longrightarrow> cart_step r r'"
| "Reserve rid u r = (res', r') \<Longrightarrow> cart_step r r'"
| "Release rid' r = (res, r') \<Longrightarrow> cart_step r r'"
| "CommitReservation rid' r = (res, r') \<Longrightarrow> cart_step r r'"
| "SeedStock v n r = (res, r') \<Longrightarrow> 0 \<le> n \<Longrightarrow> cart_step r r'"
| "SeedStockIfAbsent v n r = (res, r') \<Longrightarrow> 0 \<le> n \<Longrightarrow> cart_step r r'"

definition hash_ok :: "('k \<times> (int \<times> int) list \<times> instant option) list \<Rightarrow> bool" where
  "hash_ok m \<longleftrightarrow> (\<forall>(k, fs, t) \<in> set m. distinct (map fst fs) \<and> (\<forall>(v, q) \<in> set fs. 0 < q))"

definition redis_inv :: "redis \<Rightarrow> bool" where
  "redis_inv r \<longleftrightarrow> hash_ok (rd_carts r) \<and> hash_ok (rd_manifests r) \<and> (\<forall>(v, n) \<in> set (rd_stock r). 0 \<le> n)"

text \<open>
  Partial correctness of a computation under the invariant: whatever it returns, the state stays good, and a
  result satisfies \<open>P\<close>.
\<close>

definition keeps :: "('a \<Rightarrow> bool) \<Rightarrow> 'a redis_m \<Rightarrow> bool" where
  "keeps P m \<longleftrightarrow> (\<forall>r. redis_inv r \<longrightarrow> redis_inv (snd (m r)) \<and> (\<forall>a. fst (m r) = Inr a \<longrightarrow> P a))"

lemma redis_inv_oks [simp]: "redis_inv (r\<lparr>rd_oks := oks\<rparr>) = redis_inv r"
  by (simp add: redis_inv_def)

lemma keeps_cmd:
  assumes "\<And>r a r'. redis_inv r \<Longrightarrow> f r = Inr (a, r') \<Longrightarrow> redis_inv r' \<and> P a"
  shows "keeps P (redis_cmd f)"
proof -
  have "redis_inv (snd (redis_cmd f r)) \<and> (\<forall>a. fst (redis_cmd f r) = Inr a \<longrightarrow> P a)" if "redis_inv r" for r
  proof (cases "f (r\<lparr>rd_oks := tl (rd_oks r)\<rparr>)")
    case (Inr p)
    then show ?thesis
      using assms [of "r\<lparr>rd_oks := tl (rd_oks r)\<rparr>" "fst p" "snd p"] that by (cases p) (simp add: redis_cmd_def Let_def)
  qed (use that in \<open>simp add: redis_cmd_def Let_def\<close>)
  then show ?thesis by (simp add: keeps_def)
qed

lemma keeps_then:
  assumes "keeps P m" "\<And>a. P a \<Longrightarrow> keeps Q (k a)"
  shows "keeps Q (rthen m k)"
  unfolding keeps_def
proof (intro allI impI)
  fix r assume inv: "redis_inv r"
  obtain res r1 where m: "m r = (res, r1)" by fastforce
  have r1: "redis_inv r1" "\<And>a. res = Inr a \<Longrightarrow> P a" using assms(1) inv m unfolding keeps_def by (metis fst_conv snd_conv)+
  show "redis_inv (snd (rthen m k r)) \<and> (\<forall>a. fst (rthen m k r) = Inr a \<longrightarrow> Q a)"
  proof (cases res)
    case (Inr a)
    then show ?thesis using assms(2) [OF r1(2) [OF Inr]] r1(1) m by (simp add: keeps_def rthen_def)
  qed (use r1 m in \<open>simp add: rthen_def\<close>)
qed

lemma keeps_return: "P a \<Longrightarrow> keeps P (rreturn a)" "keeps P (\<lambda>r. (Inl e, r))"
  by (simp_all add: keeps_def rreturn_def)

lemma keeps_weaken: "keeps P m \<Longrightarrow> (\<And>a. P a \<Longrightarrow> Q a) \<Longrightarrow> keeps Q m"
  by (simp add: keeps_def)

lemma keepsD: "keeps P m \<Longrightarrow> m r = (res, r') \<Longrightarrow> redis_inv r \<Longrightarrow> redis_inv r'"
  unfolding keeps_def by (metis snd_conv)

lemma live_ok: "hash_ok m \<Longrightarrow> distinct (map fst (live now (map_of m k))) \<and> (\<forall>(v, q) \<in> set (live now (map_of m k)). 0 < q)"
  by (auto simp: live_def hash_ok_def split: option.split dest!: map_of_SomeD)

lemma set_assoc: "e \<in> set (assoc k x m) \<Longrightarrow> e = (k, x) \<or> e \<in> set m"
  unfolding assoc_def by (induction m) (auto split: if_splits)

lemma hash_ok_assoc: "hash_ok m \<Longrightarrow> distinct (map fst fs) \<Longrightarrow> \<forall>(v, q) \<in> set fs. 0 < q \<Longrightarrow> hash_ok (assoc k (fs, t) m)"
  by (auto simp: hash_ok_def dest!: set_assoc)

lemma assoc_pos: "distinct (map fst fs) \<Longrightarrow> \<forall>(v, q) \<in> set fs. 0 < q \<Longrightarrow> 0 < q \<Longrightarrow>
    distinct (map fst (assoc v q fs)) \<and> (\<forall>(v, q) \<in> set (assoc v q fs). (0 :: int) < q)"
  using distinct_map_upd [of fs v "\<lambda>_. q"] by (auto simp: assoc_def [symmetric] dest: set_assoc)

lemma fold_assoc_pos: "distinct (map fst fs) \<Longrightarrow> \<forall>(v, q) \<in> set fs. 0 < q \<Longrightarrow> \<forall>(v, q) \<in> set gs. 0 < q \<Longrightarrow>
    distinct (map fst (fold (\<lambda>(f, v). assoc f v) gs fs)) \<and> (\<forall>(v, q) \<in> set (fold (\<lambda>(f, v). assoc f v) gs fs). (0 :: int) < q)"
proof (induction gs arbitrary: fs)
  case (Cons g gs)
  obtain v q where [simp]: "g = (v, q)" by (cases g)
  have "distinct (map fst (assoc v q fs)) \<and> (\<forall>(v, q) \<in> set (assoc v q fs). 0 < q)"
    using Cons.prems by (intro assoc_pos) auto
  then show ?case using Cons.IH [of "assoc v q fs"] Cons.prems(3) by simp
qed simp

lemma hset_ok: "hash_ok m \<Longrightarrow> \<forall>(v, q) \<in> set fvs. 0 < q \<Longrightarrow> hash_ok (hset now k fvs m)"
  unfolding hset_def using live_ok [of m now k] fold_assoc_pos [of "live now (map_of m k)" fvs] by (intro hash_ok_assoc) simp_all

lemma expire_ok: "hash_ok m \<Longrightarrow> hash_ok (expire now k ttl m)"
  unfolding expire_def using live_ok [of m now k] by (simp add: hash_ok_assoc)

lemma hdel_ok: "hash_ok m \<Longrightarrow> hash_ok (hdel now k f m)"
  unfolding hdel_def using live_ok [of m now k] by (intro hash_ok_assoc) (auto simp: unassoc_def distinct_map_filter)

lemma unassoc_ok: "hash_ok m \<Longrightarrow> hash_ok (unassoc k m)"
  by (auto simp: hash_ok_def unassoc_def)


definition stocks_ok :: "(int \<times> int) list \<Rightarrow> bool" where
  "stocks_ok st \<longleftrightarrow> (\<forall>(v, n) \<in> set st. 0 \<le> n)"

lemma redis_inv_eq: "redis_inv r \<longleftrightarrow> hash_ok (rd_carts r) \<and> hash_ok (rd_manifests r) \<and> stocks_ok (rd_stock r)"
  by (simp add: redis_inv_def stocks_ok_def)

lemma stocks_ok_assoc: "stocks_ok st \<Longrightarrow> 0 \<le> n \<Longrightarrow> stocks_ok (assoc v n st)"
  by (auto simp: stocks_ok_def dest!: set_assoc)

lemma stock_nonneg: "redis_inv r \<Longrightarrow> 0 \<le> stock_of r v"
  by (auto simp: redis_inv_eq stocks_ok_def stock_of_def split: option.split dest!: map_of_SomeD)

abbreviation good_lines :: "(int \<times> int) list \<Rightarrow> bool" where
  "good_lines fs \<equiv> \<forall>(v, q) \<in> set fs. 0 < q"

lemmas redis_inv_rules = redis_inv_eq hset_ok hdel_ok expire_ok unassoc_ok stocks_ok_assoc

lemma keeps_SetItem: "0 < q \<Longrightarrow> keeps (\<lambda>_. True) (SetItem u v q)"
  unfolding SetItem_def by (rule keeps_then [where P = "\<lambda>_. True"]; rule keeps_cmd) (auto simp: redis_inv_rules)

lemma keeps_RemoveItem: "keeps (\<lambda>_. True) (repo_RemoveItem u v)"
proof -
  have "keeps (\<lambda>_. True) (redis_cmd (\<lambda>r. Inr ((), r\<lparr>rd_carts := expire (rd_now r) u cartTTL (rd_carts r)\<rparr>)))"
    by (rule keeps_cmd) (auto simp: redis_inv_rules)
  then have "keeps (\<lambda>_. True) (\<lambda>r. (Inr (), snd (redis_cmd (\<lambda>r. Inr ((), r\<lparr>rd_carts := expire (rd_now r) u cartTTL (rd_carts r)\<rparr>)) r)))"
    by (simp add: keeps_def)
  moreover have "keeps (\<lambda>_. True) (redis_cmd (\<lambda>r. Inr ((), r\<lparr>rd_carts := hdel (rd_now r) u v (rd_carts r)\<rparr>)))"
    by (rule keeps_cmd) (auto simp: redis_inv_rules)
  ultimately show ?thesis unfolding repo_RemoveItem_def by (rule keeps_then [rotated])
qed

lemma keeps_GetItems: "keeps (\<lambda>is. good_lines (pairs is)) (GetItems u)"
  unfolding GetItems_def
  by (rule keeps_cmd) (use live_ok in \<open>fastforce simp: pairs_def redis_inv_def\<close>)

lemma keeps_TryReserve: "keeps (\<lambda>_. True) (TryReserve v q rid)"
  unfolding TryReserve_def by (rule keeps_cmd) (auto simp: Let_def redis_inv_rules split: if_splits)

lemma keeps_SetManifest: "good_lines (pairs is) \<Longrightarrow> keeps (\<lambda>_. True) (SetManifest rid is ttl)"
  unfolding SetManifest_def pairs_def [symmetric]
  by (auto intro!: keeps_return keeps_then [where P = "\<lambda>_. True"] keeps_cmd simp: redis_inv_rules)

lemma keeps_get_manifest: "keeps good_lines (get_manifest rid)"
  unfolding get_manifest_def
proof (rule keeps_cmd)
  fix r a r' assume "redis_inv r" "Inr (range_map (rd_order r) (live (rd_now r) (map_of (rd_manifests r) rid)), r) = Inr (a, r')"
  then show "redis_inv r' \<and> good_lines a" using live_ok [of "rd_manifests r" "rd_now r" rid] by (auto simp: redis_inv_def)
qed

lemma keeps_small:
  "0 < q \<Longrightarrow> keeps (\<lambda>_. True) (incr_by v q)" "keeps (\<lambda>_. True) (del_item rid v)" "keeps (\<lambda>_. True) (del_manifest rid)"
  "0 \<le> n \<Longrightarrow> keeps (\<lambda>_. True) (SeedStock v n)" "0 \<le> n \<Longrightarrow> keeps (\<lambda>_. True) (SeedStockIfAbsent v n)"
  unfolding incr_by_def del_item_def del_manifest_def SeedStock_def SeedStockIfAbsent_def
proof -
  show "keeps (\<lambda>_. True) (redis_cmd (\<lambda>r. if is_i64 (stock_of r v + q)
      then Inr ((), r\<lparr>rd_stock := assoc v (stock_of r v + q) (rd_stock r)\<rparr>) else Inl CartRedis))" if "0 < q"
  proof (rule keeps_cmd)
    fix r a r' assume "redis_inv r" "(if is_i64 (stock_of r v + q) then Inr ((), r\<lparr>rd_stock := assoc v (stock_of r v + q) (rd_stock r)\<rparr>)
      else Inl CartRedis) = Inr (a, r')"
    then have "redis_inv r" "r' = r\<lparr>rd_stock := assoc v (stock_of r v + q) (rd_stock r)\<rparr>" by (cases "is_i64 (stock_of r v + q)"; simp)+
    moreover from this(1) have "0 \<le> stock_of r v + q" using stock_nonneg [of r v] that by linarith
    ultimately show "redis_inv r' \<and> True" by (simp add: redis_inv_eq stocks_ok_assoc)
  qed
qed (rule keeps_cmd; auto simp: redis_inv_rules split: if_splits)+

lemma keeps_release_items: "good_lines fs \<Longrightarrow> keeps (\<lambda>_. True) (release_items rid fs)"
  by (induction rid fs rule: release_items.induct)
    (auto intro!: keeps_return keeps_then [where P = "\<lambda>_. True"] keeps_small)

lemma keeps_commit_items: "keeps (\<lambda>_. True) (commit_items rid fs)"
  by (induction rid fs rule: commit_items.induct)
    (auto intro!: keeps_return keeps_then [where P = "\<lambda>_. True"] keeps_small)

lemma keeps_ReleaseReservation: "keeps (\<lambda>_. True) (ReleaseReservation rid)"
  unfolding ReleaseReservation_def
  by (rule keeps_then [OF keeps_get_manifest]) (auto intro!: keeps_return keeps_then [where P = "\<lambda>_. True"] keeps_small keeps_release_items)

lemma keeps_CommitReservation: "keeps (\<lambda>_. True) (repo_CommitReservation rid)"
  unfolding repo_CommitReservation_def
  by (rule keeps_then [OF keeps_get_manifest]) (auto intro!: keeps_return keeps_then [where P = "\<lambda>_. True"] keeps_small keeps_commit_items)

lemma compensate_fst: "fst (compensate rid is e r) = Inl e"
  by (simp add: compensate_def)

lemma keeps_compensate: "good_lines (pairs is) \<Longrightarrow> keeps P (compensate rid is e)"
proof -
  assume g: "good_lines (pairs is)"
  have "keeps (\<lambda>_. True) (releasePartial rid is)"
    unfolding releasePartial_def using keeps_SetManifest [OF g] keeps_ReleaseReservation
    by (auto intro!: keeps_return keeps_then [where P = "\<lambda>_. True"])
  then show ?thesis by (simp add: keeps_def compensate_def)
qed

lemma keeps_reserve_items:
  "good_lines (pairs reserved) \<Longrightarrow> keeps (\<lambda>is. good_lines (pairs is)) (reserve_items rid items reserved)"
proof (induction items arbitrary: reserved)
  case Nil
  then show ?case by (simp add: keeps_def)
next
  case (Cons i items)
  have comp: "redis_inv (snd (compensate rid reserved e r))" if "redis_inv r" for e r and rid :: string
    using keeps_compensate [OF Cons.prems, of "\<lambda>_. True"] that by (metis keepsD prod.collapse)
  show ?case
    unfolding keeps_def
  proof (intro allI impI)
    fix r assume inv: "redis_inv r"
    obtain res r1 where t: "TryReserve (ct_VariantID i) (ct_Qty i) rid r = (res, r1)" by fastforce
    have inv1: "redis_inv r1" using keepsD [OF keeps_TryReserve t inv] .
    consider (bad) "ct_Qty i \<le> 0" | (fails) e where "0 < ct_Qty i" "res = Inl e" | (short) n where "0 < ct_Qty i" "res = Inr (False, n)"
      | (taken) n where "0 < ct_Qty i" "res = Inr (True, n)" by (cases res) fastforce+
    then show "redis_inv (snd (reserve_items rid (i # items) reserved r)) \<and>
        (\<forall>a. fst (reserve_items rid (i # items) reserved r) = Inr a \<longrightarrow> good_lines (pairs a))"
    proof cases
      case taken
      moreover have "good_lines (pairs (reserved @ [i]))" using Cons.prems taken by auto
      ultimately show ?thesis using Cons.IH [of "reserved @ [i]"] inv1 t by (simp add: keeps_def)
    qed (use comp [OF inv] comp [OF inv1] t in \<open>simp_all add: compensate_fst\<close>)
  qed
qed

lemma keeps_Reserve: "keeps (\<lambda>_. True) (Reserve rid u)"
  unfolding Reserve_def
proof (rule keeps_then [OF keeps_GetItems])
  fix items assume "good_lines (pairs items)"
  have fin: "keeps (\<lambda>_. True) (\<lambda>r1. case SetManifest x reserved reservationTTL r1 of
      (Inl e, r2) \<Rightarrow> compensate x reserved e r2 | (Inr _, r2) \<Rightarrow> (Inr y, r2))" if "good_lines (pairs reserved)" for x reserved and y :: "string \<times> instant"
    unfolding keeps_def
  proof (intro allI impI conjI)
    fix r assume inv: "redis_inv r"
    obtain res r1 where s: "SetManifest x reserved reservationTTL r = (res, r1)" by fastforce
    have "redis_inv r1" using keepsD [OF keeps_SetManifest [OF that] s inv] .
    then have "redis_inv (snd (compensate x reserved e r1))" for e
      using keeps_compensate [OF that, of "\<lambda>_. True"] by (metis keepsD prod.collapse)
    then show "redis_inv (snd (case SetManifest x reserved reservationTTL r of
        (Inl e, r2) \<Rightarrow> compensate x reserved e r2 | (Inr _, r2) \<Rightarrow> (Inr y, r2)))"
      using s \<open>redis_inv r1\<close> by (cases res) simp_all
  qed simp
  have "keeps (\<lambda>_. True) (rthen (reserve_items x items []) (\<lambda>reserved r1. case SetManifest x reserved reservationTTL r1 of
      (Inl e, r2) \<Rightarrow> compensate x reserved e r2 | (Inr _, r2) \<Rightarrow> (Inr (x, t), r2)))" for x and t :: instant
  proof (rule keeps_then [OF keeps_reserve_items])
    show "good_lines (pairs [])" by simp
    show "keeps (\<lambda>_. True) (\<lambda>r1. case SetManifest x reserved reservationTTL r1 of
        (Inl e, r2) \<Rightarrow> compensate x reserved e r2 | (Inr _, r2) \<Rightarrow> (Inr (x, t), r2))" if "good_lines (pairs reserved)" for reserved
      using that by (rule fin)
  qed
  then show "keeps (\<lambda>_. True) (\<lambda>r. if items = [] then (Inl ErrCartEmpty, r) else case rid of None \<Rightarrow> (Inl CartRandom, r)
      | Some x \<Rightarrow> rthen (reserve_items x items []) (\<lambda>reserved r1. case SetManifest x reserved reservationTTL r1 of
          (Inl e, r2) \<Rightarrow> compensate x reserved e r2 | (Inr _, r2) \<Rightarrow> (Inr (x, rd_now r + reservationTTL), r2)) r)"
    by (simp add: keeps_def split: option.split)
qed

lemma cart_step_inv: "cart_step r r' \<Longrightarrow> redis_inv r \<Longrightarrow> redis_inv r'"
proof (induction rule: cart_step.induct)
  case (2 cat u v q r res r')
  then show ?case using keepsD [OF keeps_SetItem [of q u v]] by (auto simp: AddItem_def split: if_splits option.splits)
qed (use keepsD [OF keeps_RemoveItem] keepsD [OF keeps_Reserve] keepsD [OF keeps_ReleaseReservation] keepsD [OF keeps_CommitReservation]
    keepsD [OF keeps_small(4)] keepsD [OF keeps_small(5)] in
    \<open>simp_all add: RemoveItem_def Release_def CommitReservation_def redis_inv_def\<close>)


section \<open>Properties\<close>

text \<open>
  C19. Reservation is all or nothing. With Redis answering, \<^verbatim>\<open>Reserve\<close> under a new id succeeds exactly when the
  cart is not empty and every line has a positive quantity that is in stock; then every counter is lower by
  exactly the units of the cart and still not negative. Otherwise it fails with one of its three documented
  errors and every counter, every cart and every manifest is as before.
\<close>

theorem Reserve_all_or_nothing:
  assumes "redis_ok r" "rd_oks r = []" "map_of (rd_manifests r) rid = None"
    and "Reserve (Some rid) userID r = (res, r')"
  shows "((\<exists>x. res = Inr x) \<longleftrightarrow> cart_of r userID \<noteq> [] \<and> in_stock r (cart_of r userID)) \<and>
    (case res of
       Inr (rid', expiresAt) \<Rightarrow> rid' = rid \<and> expiresAt = rd_now r + reservationTTL \<and>
         (\<forall>v. stock_of r' v = stock_of r v - held_in (cart_of r userID) v \<and> 0 \<le> stock_of r' v)
     | Inl e \<Rightarrow> e \<in> {ErrCartEmpty, ErrInvalidQty, ErrOutOfStock} \<and> (\<forall>v. stock_of r' v = stock_of r v) \<and>
         rd_carts r' = rd_carts r \<and> rd_manifests r' = rd_manifests r)"
  using Reserve_spec [OF assms(1-3), of userID] assms(4)
  by (auto simp: undone_def split: if_splits)

text \<open>
  Releasing a reservation undoes it. After a successful \<^verbatim>\<open>Reserve\<close> and before the reservation expires,
  \<^verbatim>\<open>Release\<close> succeeds and brings every counter back to where it was; releasing once more is refused
  with \<^verbatim>\<open>ErrReservationNotFound\<close> and changes no counter.
\<close>

theorem reserve_release_roundtrip:
  assumes "redis_ok r" "rd_oks r = []" "map_of (rd_manifests r) rid = None"
    and "Reserve (Some rid) userID r = (Inr (rid, expiresAt), r1)" "rd_now r \<le> t" "t < expiresAt"
  shows "\<exists>r2. Release rid (r1\<lparr>rd_now := t\<rparr>) = (Inr (), r2) \<and> (\<forall>v. stock_of r2 v = stock_of r v) \<and>
    Release rid r2 = (Inl ErrReservationNotFound, r2)"
proof -
  have av: "cart_of r userID \<noteq> []" "in_stock r (cart_of r userID)" and e: "expiresAt = rd_now r + reservationTTL"
    using Reserve_spec [OF assms(1-3), of userID] assms(4) by (auto split: if_splits)
  obtain fs where r1: "rd_oks r1 = []" "rd_manifests r1 = rd_manifests r @ [(rid, fs, Some expiresAt)]" "mset fs = mset (cart_of r userID)"
    "\<forall>v. stock_of r1 v = stock_of r v - held_in (cart_of r userID) v" "\<forall>v. held_in (cart_of r userID) v \<le> stock_of r v"
    using Reserve_spec [OF assms(1-3), of userID] assms(4) av e by auto
  have s: "set fs = set (cart_of r userID)" using r1(3) by (rule mset_eq_setD)
  have "held_in fs v = held_in (cart_of r userID) v" for v
  proof -
    have "mset (map snd (filter (\<lambda>e. fst e = v) fs)) = mset (map snd (filter (\<lambda>e. fst e = v) (cart_of r userID)))"
      by (simp add: mset_filter r1(3))
    then show ?thesis unfolding held_in_def by (metis sum_mset_sum_list)
  qed
  then have st: "stock_of (r1\<lparr>rd_now := t\<rparr>) v + held_in fs v = stock_of r v" "0 \<le> stock_of (r1\<lparr>rd_now := t\<rparr>) v" for v
    using r1(4,5) [rule_format, of v] by (auto simp: stock_of_def)
  have pos: "list_all (\<lambda>(v, q). 0 < q) fs" using av(2) s by (auto simp: in_stock_def list_all_iff)
  have bounds: "\<forall>v. 0 \<le> stock_of (r1\<lparr>rd_now := t\<rparr>) v \<and> stock_of (r1\<lparr>rd_now := t\<rparr>) v + held_in fs v \<le> max_i64"
    using st assms(1) by (simp add: redis_ok_def)
  have "fs \<noteq> []" using s av(1) by auto
  then obtain r2 where r2: "ReleaseReservation rid (r1\<lparr>rd_now := t\<rparr>) = (Inr (), r2)" "rd_manifests r2 = rd_manifests r" "rd_oks r2 = []"
      "\<forall>v. stock_of r2 v = stock_of (r1\<lparr>rd_now := t\<rparr>) v + held_in fs v"
    using ReleaseReservation_ok [of "r1\<lparr>rd_now := t\<rparr>" "rd_manifests r" rid fs expiresAt] r1(1,2) assms(3,6) pos bounds by auto
  moreover have "ReleaseReservation rid r2 = (Inl ErrReservationNotFound, r2)"
    using r2(2,3) assms(3) by (simp add: ReleaseReservation_def get_manifest_def rthen_def live_def)
  ultimately show ?thesis using st by (simp add: Release_def)
qed

text \<open>
  An expired reservation keeps its stock. Fifteen minutes after a successful \<^verbatim>\<open>Reserve\<close> neither \<^verbatim>\<open>Release\<close>, which
  answers \<^verbatim>\<open>ErrReservationNotFound\<close>, nor \<^verbatim>\<open>CommitReservation\<close> changes a counter any more: every counter stays lower by
  the units of the abandoned cart.
\<close>

theorem expired_reservation_keeps_stock:
  assumes "redis_ok r" "rd_oks r = []" "map_of (rd_manifests r) rid = None"
    and "Reserve (Some rid) userID r = (Inr (rid, expiresAt), r1)" "expiresAt \<le> t"
  shows "Release rid (r1\<lparr>rd_now := t\<rparr>) = (Inl ErrReservationNotFound, r1\<lparr>rd_now := t\<rparr>) \<and>
    CommitReservation rid (r1\<lparr>rd_now := t\<rparr>) = (Inr (), r1\<lparr>rd_now := t\<rparr>) \<and>
    (\<forall>v. stock_of (r1\<lparr>rd_now := t\<rparr>) v = stock_of r v - held_in (cart_of r userID) v)"
proof -
  obtain fs where "rd_oks r1 = []" "rd_manifests r1 = rd_manifests r @ [(rid, fs, Some expiresAt)]"
    "\<forall>v. stock_of r1 v = stock_of r v - held_in (cart_of r userID) v"
    using Reserve_spec [OF assms(1-3), of userID] assms(4) by (auto split: if_splits)
  moreover have "stock_of (r1\<lparr>rd_now := t\<rparr>) v = stock_of r1 v" for v by (simp add: stock_of_def)
  ultimately show ?thesis
    using assms(3,5)
    by (simp add: Release_def ReleaseReservation_def CommitReservation_def repo_CommitReservation_def get_manifest_def rthen_def rreturn_def
        live_def map_add_def range_map_Nil)
qed

text \<open>
  C20. Stock is never negative. From any good state, after any sequence of cart edits, reservations, releases,
  commits and seedings with non-negative stock, with any Redis command failing at any point and time
  passing in between, no stock counter is negative.
\<close>

theorem stock_never_negative:
  assumes "redis_inv r" "cart_step\<^sup>*\<^sup>* r r'"
  shows "0 \<le> stock_of r' v"
proof -
  have "redis_inv r'" using assms(2,1) by (induction rule: rtranclp_induct) (auto intro: cart_step_inv)
  then show ?thesis by (rule stock_nonneg)
qed

section \<open>Examples\<close>

definition shop_ex :: redis where
  "shop_ex = \<lparr>rd_now = 0, rd_oks = [], rd_order = id, rd_carts = [(70, [(1, 2), (2, 1)], None)], rd_stock = [(1, 5), (2, 1)],
     rd_manifests = [], rd_items = []\<rparr>"

lemma shop_ex_ok: "redis_ok shop_ex" "redis_inv shop_ex"
  by (auto simp: redis_ok_def redis_inv_def hash_ok_def shop_ex_def cart_of_def live_def stock_of_def max_i64_def)

definition reserved_ex :: redis where
  "reserved_ex = snd (Reserve (Some ''r1'') 70 shop_ex)"

lemma shop_run: "Reserve (Some ''r1'') 70 shop_ex = (Inr (''r1'', reservationTTL), reserved_ex)"
proof -
  have "fst (Reserve (Some ''r1'') 70 shop_ex) = Inr (''r1'', reservationTTL)" by code_simp
  then show ?thesis by (simp add: reserved_ex_def prod_eq_iff)
qed

theorem Reserve_all_or_nothing_witness: "stock_of reserved_ex 1 = 3 \<and> stock_of reserved_ex 2 = 0"
  using Reserve_all_or_nothing [OF shop_ex_ok(1) _ _ shop_run]
  by (simp add: shop_ex_def stock_of_def cart_of_def live_def)

theorem reserve_release_roundtrip_witness:
  "\<exists>r2. Release ''r1'' (reserved_ex\<lparr>rd_now := 60\<rparr>) = (Inr (), r2) \<and> stock_of r2 1 = 5 \<and> stock_of r2 2 = 1"
proof -
  have "rd_oks shop_ex = []" "map_of (rd_manifests shop_ex) ''r1'' = None" "rd_now shop_ex \<le> 60" "60 < reservationTTL"
    "stock_of shop_ex 1 = 5" "stock_of shop_ex 2 = 1"
    by (simp_all add: shop_ex_def reservationTTL_def ns_per_sec_def stock_of_def)
  then show ?thesis using reserve_release_roundtrip [OF shop_ex_ok(1) _ _ shop_run] by metis
qed

theorem expired_reservation_keeps_stock_witness:
  "fst (Release ''r1'' (reserved_ex\<lparr>rd_now := reservationTTL\<rparr>)) = Inl ErrReservationNotFound \<and> stock_of (reserved_ex\<lparr>rd_now := reservationTTL\<rparr>) 2 = 0"
proof -
  have "rd_oks shop_ex = []" "map_of (rd_manifests shop_ex) ''r1'' = None" "stock_of shop_ex 2 = 1" "held_in (cart_of shop_ex 70) 2 = 1"
    by (simp_all add: shop_ex_def stock_of_def cart_of_def live_def held_in_def)
  then show ?thesis using expired_reservation_keeps_stock [OF shop_ex_ok(1) _ _ shop_run order_refl] by simp
qed

theorem stock_never_negative_witness: "0 \<le> stock_of reserved_ex 2"
  using stock_never_negative [OF shop_ex_ok(2), of reserved_ex 2] cart_step.intros(4) [OF shop_run] by blast

text \<open>
  A release that fails half way and is repeated restores too much. In this state two units of variant 1 and
  one of variant 2 are reserved; the first release increments variant 1 and then loses its connection, the
  second one succeeds: variant 1 now counts seven units where five were seeded, so two units can be sold
  twice.
\<close>

theorem release_retry_duplicates_stock:
  "fst (Release ''r1'' (reserved_ex\<lparr>rd_oks := [True, True, False]\<rparr>)) = Inl CartRedis \<and>
   fst (Release ''r1'' (snd (Release ''r1'' (reserved_ex\<lparr>rd_oks := [True, True, False]\<rparr>)))) = Inr () \<and>
   stock_of (snd (Release ''r1'' (snd (Release ''r1'' (reserved_ex\<lparr>rd_oks := [True, True, False]\<rparr>))))) 1 = 7 \<and>
   stock_of shop_ex 1 = 5"
  by code_simp

end
