(* ===== verification/Orders.thy ===== *)
theory Orders
  imports Tx Outbox Pricing Cart
begin

text \<open>
  The order service: \<^verbatim>\<open>internal/order\<close> (domain, repository, checkout repository, service, saga, status
  machine). Its tables are lists of rows; the catalog, the payment provider and the address book are
  parameters of a configuration, as they are interfaces of the service. Every transaction is one attempt
  (\<^verbatim>\<open>WithTx\<close> does not retry). The foreign key from orders to checkout sessions is immediate in the deployed
  schema (\<^verbatim>\<open>migrations/ecom/0059\<close>); \<open>oc_session_fk\<close> says whether it is there, since the tests run
  without it.
\<close>

section \<open>Data\<close>

datatype order_status =
    StatusPendingPayment | StatusPaid | StatusShipped | StatusDelivered | StatusCancelled | StatusRefunded
  | StatusPartiallyRefunded

record order =
  or_ID :: int
  or_UserID :: int
  or_SellerID :: int
  or_CheckoutSessionID :: string
  or_Status :: order_status
  or_SubtotalMinor :: int
  or_ShippingMinor :: int
  or_ShippingPayer :: string
  or_DiscountMinor :: int
  or_CouponCode :: string
  or_CouponDiscountMinor :: int
  or_TotalMinor :: int
  or_Currency :: string
  or_Market :: string
  or_DeliveredAt :: "instant option"
  or_CashbackEligible :: bool
  or_CashbackCurrency :: string
  or_IdempotencyKey :: string
  or_CreatedAt :: instant
  or_UpdatedAt :: instant

record order_item =
  oi_ID :: int
  oi_OrderID :: int
  oi_VariantID :: int
  oi_SellerID :: int
  oi_CategoryID :: int
  oi_Qty :: int
  oi_UnitPriceMinor :: int
  oi_ListUnitPriceMinor :: int
  oi_BasketDiscountPct :: int
  oi_UnitPriceCurrency :: string
  oi_CommissionPctBps :: int
  oi_KdvPctBps :: int
  oi_CommissionAmountMinor :: int
  oi_KdvAmountMinor :: int
  oi_SellerNetMinor :: int

record order_address =
  ad_OrderID :: int
  ad_Label :: string
  ad_RecipientName :: string
  ad_Phone :: string
  ad_FullAddress :: string
  ad_Neighborhood :: string
  ad_District :: string
  ad_City :: string
  ad_PostalCode :: string

datatype session_status =
    CheckoutSessionPending | CheckoutSessionPSPInitiated | CheckoutSessionCompleted | CheckoutSessionFailed | CheckoutSessionExpired

record checkout_session =
  se_ID :: string
  se_UserID :: int
  se_ReservationID :: string
  se_Status :: session_status
  se_OrderIDs :: "int list"
  se_AmountMinor :: int
  se_Currency :: string
  se_ProviderRef :: string
  se_Installments :: int
  se_ExpiresAt :: instant

record coupon_redemption =
  cpr_CouponID :: int
  cpr_OrderID :: int
  cpr_UserID :: int
  cpr_DiscountMinor :: int

datatype order_error =
    ErrOrderNotFound
  | ErrInvalidTransition
  | ErrDuplicateIdempotencyKey
  | ErrEmptyCart
  | ErrCheckoutSessionNotFound
  | ErrCouponNotFound
  | ErrInvalidInstallments
  | ErrPSPNotConfigured
  | ErrCheckoutSessionRequired
  | ErrDiskPanic
  | OrdSessionRepoMissing
  | OrdConstraint
  | OrdQuery
  | OrdCart cart_error
  | OrdVariant int
  | OrdCommission int
  | OrdOutbox outbox_error
  | OrdCrypto
  | OrdPsp
  | OrdTx "order_error tx_error"

text \<open>What the order service reads of the catalog: variants and the commission of a category.\<close>

record variant =
  va_ProductID :: int
  va_CategoryID :: int
  va_SellerID :: int
  va_PriceMinor :: int
  va_PriceCurrency :: string
  va_BasketDiscountPct :: "int option"

record category_commission =
  cm_CommissionPctBps :: int
  cm_KdvPctBps :: int

record order_db =
  dbo_orders :: "order list"
  dbo_next_order :: int
  dbo_items :: "order_item list"
  dbo_next_item :: int
  dbo_sessions :: "checkout_session list"
  dbo_coupons :: "coupon list"
  dbo_redemptions :: "coupon_redemption list"
  dbo_addresses :: "order_address list"
  dbo_outbox :: outbox_tbl

section \<open>Repository\<close>

definition order_WithTx :: "tx_outcome list \<Rightarrow> (order_db \<Rightarrow> order_error + 'a \<times> order_db) \<Rightarrow> order_db \<Rightarrow> (order_error + 'a) \<times> order_db" where
  "order_WithTx outs fn db = one_tx OrdTx outs fn db"

text \<open>The CHECK constraints of the orders table, its unique key and its foreign key.\<close>

definition InsertOrder :: "bool \<Rightarrow> instant \<Rightarrow> order \<Rightarrow> order_db \<Rightarrow> order_error + order \<times> order_db" where
  "InsertOrder session_fk now ord db =
     (if or_SubtotalMinor ord < 0 \<or> or_TotalMinor ord < 0 \<or> or_DiscountMinor ord < 0 \<or> or_CouponDiscountMinor ord < 0
      then Inl OrdConstraint
      else if List.find (\<lambda>r. or_IdempotencyKey r = or_IdempotencyKey ord) (dbo_orders db) \<noteq> None then Inl ErrDuplicateIdempotencyKey
      else if session_fk \<and> or_CheckoutSessionID ord \<noteq> [] \<and>
              List.find (\<lambda>s. se_ID s = or_CheckoutSessionID ord) (dbo_sessions db) = None then Inl OrdConstraint
      else (let row = ord\<lparr>or_ID := dbo_next_order db, or_CreatedAt := now, or_UpdatedAt := now\<rparr> in
            Inr (row, db\<lparr>dbo_orders := dbo_orders db @ [row], dbo_next_order := dbo_next_order db + 1\<rparr>)))"

definition is_i32 :: "int \<Rightarrow> bool" where
  "is_i32 x \<longleftrightarrow> - (2 ^ 31) \<le> x \<and> x < 2 ^ 31"

definition InsertOrderItem :: "order_item \<Rightarrow> order_db \<Rightarrow> order_error + order_item \<times> order_db" where
  "InsertOrderItem item db =
     (if oi_Qty item \<le> 0 \<or> \<not> is_i32 (oi_Qty item) \<or> oi_UnitPriceMinor item < 0 \<or> oi_ListUnitPriceMinor item < 0 \<or>
         oi_BasketDiscountPct item < 0 \<or> 100 < oi_BasketDiscountPct item \<or> \<not> is_i32 (oi_CommissionPctBps item) \<or>
         \<not> is_i32 (oi_KdvPctBps item) \<or> oi_CommissionAmountMinor item < 0 \<or> oi_KdvAmountMinor item < 0 \<or> oi_SellerNetMinor item < 0
      then Inl OrdConstraint
      else (let row = item\<lparr>oi_ID := dbo_next_item db\<rparr> in
            Inr (row, db\<lparr>dbo_items := dbo_items db @ [row], dbo_next_item := dbo_next_item db + 1\<rparr>)))"

definition GetOrderItems :: "order_db \<Rightarrow> int \<Rightarrow> order_item list" where
  "GetOrderItems db orderID = filter (\<lambda>it. oi_OrderID it = orderID) (dbo_items db)"

definition repo_GetOrder :: "order_db \<Rightarrow> int \<Rightarrow> order_error + order \<times> order_item list" where
  "repo_GetOrder db orderID =
     (case List.find (\<lambda>r. or_ID r = orderID) (dbo_orders db) of
        None \<Rightarrow> Inl ErrOrderNotFound
      | Some r \<Rightarrow> Inr (r, GetOrderItems db orderID))"

definition FindByIdempotencyKey :: "order_db \<Rightarrow> string \<Rightarrow> order_error + order" where
  "FindByIdempotencyKey db key =
     (case List.find (\<lambda>r. or_IdempotencyKey r = key) (dbo_orders db) of None \<Rightarrow> Inl ErrOrderNotFound | Some r \<Rightarrow> Inr r)"

text \<open>Newest first; rows created at the same instant come in an order the query leaves open, here the latest id first.\<close>

definition ListOrders :: "order_db \<Rightarrow> int \<Rightarrow> order list" where
  "ListOrders db userID = rev (sort_key or_CreatedAt (filter (\<lambda>r. or_UserID r = userID) (dbo_orders db)))"

definition repo_UpdateStatus :: "int \<Rightarrow> order_status \<Rightarrow> instant \<Rightarrow> order_db \<Rightarrow> order_error + unit \<times> order_db" where
  "repo_UpdateStatus orderID status updatedAt db =
     (if rows_affected (\<lambda>r. or_ID r = orderID) (dbo_orders db) = 0 then Inl ErrOrderNotFound
      else Inr ((), db\<lparr>dbo_orders := update_where (\<lambda>r. or_ID r = orderID) (\<lambda>r. r\<lparr>or_Status := status, or_UpdatedAt := updatedAt\<rparr>) (dbo_orders db)\<rparr>))"

definition SetDelivered :: "int \<Rightarrow> instant \<Rightarrow> order_db \<Rightarrow> order_error + unit \<times> order_db" where
  "SetDelivered orderID deliveredAt db =
     (if rows_affected (\<lambda>r. or_ID r = orderID) (dbo_orders db) = 0 then Inl ErrOrderNotFound
      else Inr ((), db\<lparr>dbo_orders := update_where (\<lambda>r. or_ID r = orderID)
              (\<lambda>r. r\<lparr>or_Status := StatusDelivered, or_DeliveredAt := Some deliveredAt, or_UpdatedAt := deliveredAt\<rparr>) (dbo_orders db)\<rparr>))"

text \<open>
  The personal fields of an address are stored encrypted: \<open>enc\<close> and \<open>dec\<close> are \<^verbatim>\<open>crypto.EncryptPII\<close> and
  \<^verbatim>\<open>crypto.DecryptPII\<close>. A second row for the same order is ignored.
\<close>

definition InsertOrderAddress :: "(string \<Rightarrow> string option) \<Rightarrow> order_address \<Rightarrow> order_db \<Rightarrow> order_error + order_db" where
  "InsertOrderAddress enc a db =
     (case (enc (ad_RecipientName a), enc (ad_Phone a), enc (ad_FullAddress a), enc (ad_Neighborhood a)) of
        (Some n, Some p, Some f, Some h) \<Rightarrow>
          Inr (if List.find (\<lambda>r. ad_OrderID r = ad_OrderID a) (dbo_addresses db) \<noteq> None then db
               else db\<lparr>dbo_addresses := dbo_addresses db @
                 [a\<lparr>ad_RecipientName := n, ad_Phone := p, ad_FullAddress := f, ad_Neighborhood := h\<rparr>]\<rparr>)
      | _ \<Rightarrow> Inl OrdCrypto)"

definition GetOrderAddress :: "(string \<Rightarrow> string option) \<Rightarrow> order_db \<Rightarrow> int \<Rightarrow> order_error + order_address option" where
  "GetOrderAddress dec db orderID =
     (case List.find (\<lambda>r. ad_OrderID r = orderID) (dbo_addresses db) of
        None \<Rightarrow> Inr None
      | Some a \<Rightarrow>
          (case (dec (ad_RecipientName a), dec (ad_Phone a), dec (ad_FullAddress a),
                 if ad_Neighborhood a \<noteq> [] then dec (ad_Neighborhood a) else Some []) of
             (Some n, Some p, Some f, Some h) \<Rightarrow>
               Inr (Some (a\<lparr>ad_RecipientName := n, ad_Phone := p, ad_FullAddress := f, ad_Neighborhood := h\<rparr>))
           | _ \<Rightarrow> Inl OrdCrypto))"

definition GetCouponByCode :: "order_db \<Rightarrow> string \<Rightarrow> string \<Rightarrow> order_error + coupon" where
  "GetCouponByCode db code market =
     (case List.find (\<lambda>c. map upper (cpn_Code c) = map upper code \<and> cpn_Market c = market) (dbo_coupons db) of
        None \<Rightarrow> Inl ErrCouponNotFound
      | Some c \<Rightarrow> Inr c)"

definition CountCouponRedemptions :: "order_db \<Rightarrow> int \<Rightarrow> int" where
  "CountCouponRedemptions db couponID = int (length (filter (\<lambda>r. cpr_CouponID r = couponID) (dbo_redemptions db)))"

definition InsertCouponRedemption :: "coupon_redemption \<Rightarrow> order_db \<Rightarrow> order_error + order_db" where
  "InsertCouponRedemption red db =
     (if cpr_DiscountMinor red < 0 then Inl OrdConstraint
      else if List.find (\<lambda>r. cpr_CouponID r = cpr_CouponID red \<and> cpr_OrderID r = cpr_OrderID red) (dbo_redemptions db) \<noteq> None then Inr db
      else Inr (db\<lparr>dbo_redemptions := dbo_redemptions db @ [red]\<rparr>))"

section \<open>Checkout sessions\<close>

definition InsertCheckoutSession :: "checkout_session \<Rightarrow> order_db \<Rightarrow> order_error + checkout_session \<times> order_db" where
  "InsertCheckoutSession s db =
     (let row = (if se_Installments s = 0 then s\<lparr>se_Installments := 1\<rparr> else s) in
      if List.find (\<lambda>r. se_ID r = se_ID s) (dbo_sessions db) \<noteq> None \<or> se_Installments row \<notin> {1, 3, 6, 9, 12} then Inl OrdConstraint
      else Inr (row, db\<lparr>dbo_sessions := dbo_sessions db @ [row]\<rparr>))"

definition FindCheckoutSessionByID :: "order_db \<Rightarrow> string \<Rightarrow> order_error + checkout_session" where
  "FindCheckoutSessionByID db i =
     (case List.find (\<lambda>s. se_ID s = i) (dbo_sessions db) of None \<Rightarrow> Inl ErrCheckoutSessionNotFound | Some s \<Rightarrow> Inr s)"

definition UpdateCheckoutSession :: "bool \<Rightarrow> string \<Rightarrow> session_status \<Rightarrow> string \<Rightarrow> order_db \<Rightarrow> order_error option \<times> order_db" where
  "UpdateCheckoutSession query_ok i status providerRef db =
     (if \<not> query_ok then (Some OrdQuery, db)
      else if rows_affected (\<lambda>s. se_ID s = i) (dbo_sessions db) = 0 then (Some ErrCheckoutSessionNotFound, db)
      else (None, db\<lparr>dbo_sessions := update_where (\<lambda>s. se_ID s = i)
             (\<lambda>s. s\<lparr>se_Status := status, se_ProviderRef := (if providerRef = [] then se_ProviderRef s else providerRef)\<rparr>) (dbo_sessions db)\<rparr>))"

section \<open>Status machine\<close>

definition validTransitions :: "order_status \<Rightarrow> order_status list" where
  "validTransitions from = (case from of
      StatusPendingPayment \<Rightarrow> [StatusPaid, StatusCancelled]
    | StatusPaid \<Rightarrow> [StatusShipped, StatusRefunded, StatusCancelled]
    | StatusShipped \<Rightarrow> [StatusDelivered]
    | StatusDelivered \<Rightarrow> [StatusRefunded, StatusPartiallyRefunded]
    | StatusCancelled \<Rightarrow> []
    | StatusRefunded \<Rightarrow> []
    | StatusPartiallyRefunded \<Rightarrow> [StatusRefunded])"

definition ValidTransition :: "order_status \<Rightarrow> order_status \<Rightarrow> order_error option" where
  "ValidTransition from to = (if to \<in> set (validTransitions from) then None else Some ErrInvalidTransition)"


section \<open>Pricing a cart\<close>

record catalog =
  ca_GetVariantByID :: "int \<Rightarrow> variant option"
  ca_GetCommissionForCategory :: "string \<Rightarrow> int \<Rightarrow> category_commission option"

record resolved_line =
  ln_ci :: cart_item
  ln_v :: variant
  ln_comm :: category_commission
  ln_basketPct :: int
  ln_discUnit :: int

fun resolve_lines :: "catalog \<Rightarrow> string \<Rightarrow> cart_item list \<Rightarrow> order_error + resolved_line list" where
  "resolve_lines cat market [] = Inr []"
| "resolve_lines cat market (ci # cis) =
     (case ca_GetVariantByID cat (ct_VariantID ci) of
        None \<Rightarrow> Inl (OrdVariant (ct_VariantID ci))
      | Some v \<Rightarrow>
          (case ca_GetCommissionForCategory cat market (va_CategoryID v) of
             None \<Rightarrow> Inl (OrdCommission (ct_VariantID ci))
           | Some comm \<Rightarrow>
               (let pct = basketPctOf (va_BasketDiscountPct v);
                    line = \<lparr>ln_ci = ci, ln_v = v, ln_comm = comm, ln_basketPct = pct,
                            ln_discUnit = DiscountedUnitMinor (va_PriceMinor v) pct\<rparr> in
                case resolve_lines cat market cis of Inl e \<Rightarrow> Inl e | Inr ls \<Rightarrow> Inr (line # ls))))"

definition basketSubtotal :: "resolved_line list \<Rightarrow> int" where
  "basketSubtotal ls = sum64 (\<lambda>ln. wrap64 (ln_discUnit ln * ct_Qty (ln_ci ln))) ls"

text \<open>The first price currency that is not empty.\<close>

definition first_currency :: "resolved_line list \<Rightarrow> string" where
  "first_currency ls = (case List.find (\<lambda>c. c \<noteq> []) (map (\<lambda>ln. va_PriceCurrency (ln_v ln)) ls) of None \<Rightarrow> [] | Some c \<Rightarrow> c)"

text \<open>\<^verbatim>\<open>resolveCouponForCharge\<close>: anything but a valid coupon is dropped silently. \<open>reads\<close>: whether its two queries succeed.\<close>

definition resolveCouponForCharge :: "bool \<times> bool \<Rightarrow> instant \<Rightarrow> order_db \<Rightarrow> string \<Rightarrow> string \<Rightarrow> int \<Rightarrow> int \<times> coupon option" where
  "resolveCouponForCharge reads now db code market subtotalMinor =
     (let code = NormalizeCouponCode code in
      if code = [] \<or> \<not> fst reads then (0, None)
      else (case GetCouponByCode db code market of
              Inl e \<Rightarrow> (0, None)
            | Inr c \<Rightarrow>
                if \<not> snd reads then (0, None)
                else (let res = resolveCoupon (Some c) subtotalMinor (CountCouponRedemptions db (cpn_ID c)) now in
                      if cv_Valid res then (cv_PercentOff res, Some c) else (0, None))))"

definition ValidateCoupon :: "bool \<times> bool \<Rightarrow> instant \<Rightarrow> string \<Rightarrow> order_db \<Rightarrow> string \<Rightarrow> int \<Rightarrow> string \<Rightarrow> order_error + coupon_validation" where
  "ValidateCoupon reads now defaultMarket db code subtotalMinor market =
     (let code = NormalizeCouponCode code;
          market = (if market = [] then defaultMarket else market) in
      if code = [] then Inr (resolveCoupon None subtotalMinor 0 now)
      else if \<not> fst reads then Inl OrdQuery
      else (case GetCouponByCode db code market of
              Inl e \<Rightarrow> Inr \<lparr>cv_Valid = False, cv_Code = code, cv_PercentOff = 0, cv_DiscountMinor = 0, cv_Reason = ''not_found''\<rparr>
            | Inr c \<Rightarrow>
                if \<not> snd reads then Inl OrdQuery
                else Inr (resolveCoupon (Some c) subtotalMinor (CountCouponRedemptions db (cpn_ID c)) now)))"

definition couponedUnit :: "int \<Rightarrow> resolved_line \<Rightarrow> int" where
  "couponedUnit couponPct ln = DiscountedUnitMinor (ln_discUnit ln) couponPct"

definition listGross :: "resolved_line \<Rightarrow> int" where
  "listGross ln = wrap64 (va_PriceMinor (ln_v ln) * ct_Qty (ln_ci ln))"

definition line_gross :: "int \<Rightarrow> resolved_line \<Rightarrow> int" where
  "line_gross couponPct ln = wrap64 (couponedUnit couponPct ln * ct_Qty (ln_ci ln))"

definition line_discount_minor :: "int \<Rightarrow> resolved_line \<Rightarrow> int" where
  "line_discount_minor couponPct ln = wrap64 (listGross ln - line_gross couponPct ln)"

definition line_coupon :: "int \<Rightarrow> resolved_line \<Rightarrow> int" where
  "line_coupon couponPct ln = wrap64 (wrap64 (ln_discUnit ln - couponedUnit couponPct ln) * ct_Qty (ln_ci ln))"

definition line_item :: "int \<Rightarrow> resolved_line \<Rightarrow> order_item" where
  "line_item couponPct ln =
     (let gross = line_gross couponPct ln;
          commAmt = wrap64 (gross * cm_CommissionPctBps (ln_comm ln)) sdiv 10000;
          kdvAmt = wrap64 (commAmt * cm_KdvPctBps (ln_comm ln)) sdiv 10000;
          sellerNet = wrap64 (wrap64 (gross - commAmt) - kdvAmt) in
      \<lparr>oi_ID = 0, oi_OrderID = 0, oi_VariantID = ct_VariantID (ln_ci ln), oi_SellerID = va_SellerID (ln_v ln),
       oi_CategoryID = va_CategoryID (ln_v ln), oi_Qty = ct_Qty (ln_ci ln), oi_UnitPriceMinor = couponedUnit couponPct ln,
       oi_ListUnitPriceMinor = va_PriceMinor (ln_v ln), oi_BasketDiscountPct = ln_basketPct ln,
       oi_UnitPriceCurrency = va_PriceCurrency (ln_v ln), oi_CommissionPctBps = cm_CommissionPctBps (ln_comm ln),
       oi_KdvPctBps = cm_KdvPctBps (ln_comm ln), oi_CommissionAmountMinor = commAmt, oi_KdvAmountMinor = kdvAmt,
       oi_SellerNetMinor = sellerNet\<rparr>)"

section \<open>Checkout of a single order\<close>

record checkout_request =
  rq_UserID :: int
  rq_ReservationID :: string
  rq_Market :: string
  rq_Currency :: string
  rq_CouponCode :: string
  rq_IdempotencyKey :: string

text \<open>
  What a call meets: the clock, the catalog, which reads succeed (the idempotency look-up, the items of an
  existing order, the two coupon queries), the outcome of its transactions, and in the saga the map order,
  the cancellation of each order and the session update.
\<close>

record order_env =
  oe_now :: instant
  oe_catalog :: catalog
  oe_defaultMarket :: string
  oe_cashbackCurrency :: string
  oe_session_fk :: bool
  oe_find_ok :: bool
  oe_items_ok :: bool
  oe_coupon_ok :: "bool \<times> bool"
  oe_outs :: "tx_outcome list"
  oe_prio :: "int \<Rightarrow> int"
  oe_cancel_outs :: "int \<Rightarrow> tx_outcome list"
  oe_update_ok :: bool

text \<open>Inserting the items of an order, each with the id of the order.\<close>

fun insert_items :: "int \<Rightarrow> order_item list \<Rightarrow> order_db \<Rightarrow> order_error + order_item list \<times> order_db" where
  "insert_items oid [] db = Inr ([], db)"
| "insert_items oid (it # its) db =
     (case InsertOrderItem (it\<lparr>oi_OrderID := oid\<rparr>) db of
        Inl e \<Rightarrow> Inl e
      | Inr (row, db1) \<Rightarrow>
          (case insert_items oid its db1 of Inl e \<Rightarrow> Inl e | Inr (rows, db2) \<Rightarrow> Inr (row # rows, db2)))"

definition redeem :: "coupon option \<Rightarrow> int \<Rightarrow> int \<Rightarrow> int \<Rightarrow> order_db \<Rightarrow> order_error + order_db" where
  "redeem coupon oid userID couponDiscount db =
     (case coupon of
        Some c \<Rightarrow> if couponDiscount > 0 then InsertCouponRedemption
            \<lparr>cpr_CouponID = cpn_ID c, cpr_OrderID = oid, cpr_UserID = userID, cpr_DiscountMinor = couponDiscount\<rparr> db else Inr db
      | None \<Rightarrow> Inr db)"

definition checkout_body :: "order_env \<Rightarrow> order \<Rightarrow> order_item list \<Rightarrow> coupon option \<Rightarrow> order_db \<Rightarrow> order_error + (order \<times> order_item list) \<times> order_db" where
  "checkout_body env ord items coupon db =
     (case InsertOrder (oe_session_fk env) (oe_now env) ord db of
        Inl e \<Rightarrow> Inl e
      | Inr (created, db1) \<Rightarrow>
          (case insert_items (or_ID created) items db1 of
             Inl e \<Rightarrow> Inl e
           | Inr (rows, db2) \<Rightarrow>
               (case redeem coupon (or_ID created) (or_UserID ord) (or_CouponDiscountMinor ord) db2 of
                  Inl e \<Rightarrow> Inl e
                | Inr db3 \<Rightarrow> Inr ((created, rows), db3))))"

definition checkout_order :: "order_env \<Rightarrow> checkout_request \<Rightarrow> string \<Rightarrow> string \<Rightarrow> int \<Rightarrow> coupon option \<Rightarrow> resolved_line list \<Rightarrow> order" where
  "checkout_order env req market currency couponPct coupon lines =
     (let subtotal = sum64 listGross lines;
          discount = sum64 (line_discount_minor couponPct) lines;
          couponDiscount = sum64 (line_coupon couponPct) lines in
      \<lparr>or_ID = 0, or_UserID = rq_UserID req, or_SellerID = 0, or_CheckoutSessionID = [], or_Status = StatusPendingPayment,
       or_SubtotalMinor = subtotal, or_ShippingMinor = 0, or_ShippingPayer = ''buyer'', or_DiscountMinor = discount,
       or_CouponCode = (case coupon of Some c \<Rightarrow> if couponDiscount > 0 then cpn_Code c else [] | None \<Rightarrow> []),
       or_CouponDiscountMinor = couponDiscount, or_TotalMinor = wrap64 (subtotal - discount), or_Currency = currency,
       or_Market = market, or_DeliveredAt = None, or_CashbackEligible = True, or_CashbackCurrency = oe_cashbackCurrency env,
       or_IdempotencyKey = rq_IdempotencyKey req, or_CreatedAt = 0, or_UpdatedAt = 0\<rparr>)"

definition Checkout :: "order_env \<Rightarrow> checkout_request \<Rightarrow> order_db \<Rightarrow> redis
    \<Rightarrow> (order_error + order \<times> order_item list) \<times> order_db \<times> redis" where
  "Checkout env req db r =
     (if \<not> oe_find_ok env then (Inl OrdQuery, db, r)
      else case FindByIdempotencyKey db (rq_IdempotencyKey req) of
        Inr existing \<Rightarrow> (if oe_items_ok env then Inr (existing, GetOrderItems db (or_ID existing)) else Inl OrdQuery, db, r)
      | Inl _ \<Rightarrow>
          (case GetCart (rq_UserID req) r of
             (Inl e, r1) \<Rightarrow> (Inl (OrdCart e), db, r1)
           | (Inr cart, r1) \<Rightarrow>
               if cart = [] then (Inl ErrEmptyCart, db, r1)
               else (let market = (if rq_Market req = [] then oe_defaultMarket env else rq_Market req) in
                 case resolve_lines (oe_catalog env) market cart of
                   Inl e \<Rightarrow> (Inl e, db, r1)
                 | Inr lines \<Rightarrow>
                     (let currency = (if rq_Currency req \<noteq> [] then rq_Currency req else first_currency lines);
                          (couponPct, coupon) = resolveCouponForCharge (oe_coupon_ok env) (oe_now env) db (rq_CouponCode req) market (basketSubtotal lines);
                          ord = checkout_order env req market currency couponPct coupon lines in
                      case order_WithTx (oe_outs env) (checkout_body env ord (map (line_item couponPct) lines) coupon) db of
                        (Inl e, db1) \<Rightarrow> (Inl e, db1, r1)
                      | (Inr res, db1) \<Rightarrow>
                          (Inr res, db1, if rq_ReservationID req \<noteq> [] then snd (CommitReservation (rq_ReservationID req) r1) else r1)))))"


section \<open>The checkout saga\<close>

record initiate_request =
  iq_UserID :: int
  iq_ReservationID :: string
  iq_Market :: string
  iq_Currency :: string
  iq_SessionID :: string
  iq_AddressID :: int
  iq_CouponCode :: string
  iq_Installments :: int

record payment_request =
  pq_OrderID :: int
  pq_AmountMinor :: int
  pq_Currency :: string
  pq_IdempotencyKey :: string
  pq_Installments :: int

record initiate_response =
  ir_SessionID :: string
  ir_Orders :: "order list"

definition NormalizeInstallments :: "int \<Rightarrow> order_error + int" where
  "NormalizeInstallments n =
     (if n = 0 \<or> n = 1 then Inr 1 else if n = 3 \<or> n = 6 \<or> n = 9 \<or> n = 12 then Inr n else Inl ErrInvalidInstallments)"

record seller_group =
  sg_items :: "order_item list"
  sg_subtotal :: int
  sg_discount :: int
  sg_couponDiscount :: int
  sg_currency :: string

definition add_line :: "int \<Rightarrow> resolved_line \<Rightarrow> (int \<times> seller_group) list \<Rightarrow> (int \<times> seller_group) list" where
  "add_line couponPct ln = map_upd (va_SellerID (ln_v ln)) (\<lambda>old.
     (let g = (case old of Some g \<Rightarrow> g
                | None \<Rightarrow> \<lparr>sg_items = [], sg_subtotal = 0, sg_discount = 0, sg_couponDiscount = 0, sg_currency = va_PriceCurrency (ln_v ln)\<rparr>) in
      g\<lparr>sg_items := sg_items g @ [line_item couponPct ln],
        sg_subtotal := wrap64 (sg_subtotal g + listGross ln),
        sg_discount := wrap64 (sg_discount g + line_discount_minor couponPct ln),
        sg_couponDiscount := wrap64 (sg_couponDiscount g + line_coupon couponPct ln)\<rparr>))"

definition group_lines :: "int \<Rightarrow> resolved_line list \<Rightarrow> (int \<times> seller_group) list" where
  "group_lines couponPct lines = fold (add_line couponPct) lines []"

definition seller_key :: "string \<Rightarrow> int \<Rightarrow> string" where
  "seller_key sessionID sellerID = sessionID @ '':seller_'' @ itoa sellerID"

definition group_order :: "order_env \<Rightarrow> initiate_request \<Rightarrow> string \<Rightarrow> coupon option \<Rightarrow> int \<times> seller_group \<Rightarrow> order" where
  "group_order env req market coupon sg =
     (case sg of (sellerID, g) \<Rightarrow>
      \<lparr>or_ID = 0, or_UserID = iq_UserID req, or_SellerID = sellerID, or_CheckoutSessionID = iq_SessionID req,
       or_Status = StatusPendingPayment, or_SubtotalMinor = sg_subtotal g, or_ShippingMinor = 0, or_ShippingPayer = ''buyer'',
       or_DiscountMinor = sg_discount g,
       or_CouponCode = (case coupon of Some c \<Rightarrow> if sg_couponDiscount g > 0 then cpn_Code c else [] | None \<Rightarrow> []),
       or_CouponDiscountMinor = sg_couponDiscount g, or_TotalMinor = wrap64 (sg_subtotal g - sg_discount g),
       or_Currency = sg_currency g, or_Market = market, or_DeliveredAt = None, or_CashbackEligible = True,
       or_CashbackCurrency = oe_cashbackCurrency env, or_IdempotencyKey = seller_key (iq_SessionID req) sellerID,
       or_CreatedAt = 0, or_UpdatedAt = 0\<rparr>)"

text \<open>One group: the order, its items, its redemption and its address snapshot.\<close>

definition persist_group :: "order_env \<Rightarrow> (string \<Rightarrow> string option) \<Rightarrow> initiate_request \<Rightarrow> string \<Rightarrow> coupon option \<Rightarrow> order_address option
    \<Rightarrow> int \<times> seller_group \<Rightarrow> order list \<times> order_db \<Rightarrow> order_error + order list \<times> order_db" where
  "persist_group env enc req market coupon addr sg st =
     (case st of (created, db) \<Rightarrow>
      (case InsertOrder (oe_session_fk env) (oe_now env) (group_order env req market coupon sg) db of
         Inl e \<Rightarrow> Inl e
       | Inr (ord, db1) \<Rightarrow>
           (case insert_items (or_ID ord) (sg_items (snd sg)) db1 of
              Inl e \<Rightarrow> Inl e
            | Inr (_, db2) \<Rightarrow>
                (case redeem coupon (or_ID ord) (iq_UserID req) (sg_couponDiscount (snd sg)) db2 of
                   Inl e \<Rightarrow> Inl e
                 | Inr db3 \<Rightarrow>
                     (case (case addr of None \<Rightarrow> Inr db3 | Some a \<Rightarrow> InsertOrderAddress enc (a\<lparr>ad_OrderID := or_ID ord\<rparr>) db3) of
                        Inl e \<Rightarrow> Inl e
                      | Inr db4 \<Rightarrow> Inr (created @ [ord], db4))))))"

definition saga_body :: "order_env \<Rightarrow> (string \<Rightarrow> string option) \<Rightarrow> initiate_request \<Rightarrow> string \<Rightarrow> coupon option \<Rightarrow> order_address option
    \<Rightarrow> (int \<times> seller_group) list \<Rightarrow> checkout_session \<Rightarrow> order_db \<Rightarrow> order_error + order list \<times> order_db" where
  "saga_body env enc req market coupon addr groups session db =
     (case for_each (persist_group env enc req market coupon addr) groups ([], db) of
        Inl e \<Rightarrow> Inl e
      | Inr (created, db1) \<Rightarrow>
          (case InsertCheckoutSession (session\<lparr>se_OrderIDs := map or_ID created\<rparr>) db1 of
             Inl e \<Rightarrow> Inl e
           | Inr (_, db2) \<Rightarrow> Inr (created, db2)))"

text \<open>Compensation: every order is cancelled in a transaction of its own; a failed one is only logged.\<close>

fun cancel_all :: "order_env \<Rightarrow> int list \<Rightarrow> order_db \<Rightarrow> order_db" where
  "cancel_all env [] db = db"
| "cancel_all env (oid # oids) db =
     cancel_all env oids (snd (order_WithTx (oe_cancel_outs env oid) (repo_UpdateStatus oid StatusCancelled (oe_now env)) db))"

text \<open>
  The service's optional parts: the disk guard, the payment provider (an error or a provider reference), the
  session repository, the address book and the encryption of addresses.
\<close>

record order_svc =
  os_disk_panic :: bool
  os_psp :: "(payment_request \<Rightarrow> order_error + string) option"
  os_session_repo :: bool
  os_address :: "(int \<Rightarrow> int \<Rightarrow> order_address option) option"
  os_enc :: "string \<Rightarrow> string option"

definition saga_session :: "order_env \<Rightarrow> initiate_request \<Rightarrow> int \<Rightarrow> int \<Rightarrow> string \<Rightarrow> checkout_session" where
  "saga_session env req installments totalMinor currency =
     \<lparr>se_ID = iq_SessionID req, se_UserID = iq_UserID req, se_ReservationID = iq_ReservationID req, se_Status = CheckoutSessionPending,
      se_OrderIDs = [], se_AmountMinor = totalMinor, se_Currency = currency, se_ProviderRef = [], se_Installments = installments,
      se_ExpiresAt = oe_now env + 30 * 60 * ns_per_sec\<rparr>"

definition saga_persist :: "order_env \<Rightarrow> order_svc \<Rightarrow> initiate_request \<Rightarrow> int \<Rightarrow> resolved_line list \<Rightarrow> order_db
    \<Rightarrow> (order_error + order list) \<times> order_db \<times> int \<times> string" where
  "saga_persist env svc req installments lines db =
     (let market = (if iq_Market req = [] then oe_defaultMarket env else iq_Market req);
          (couponPct, coupon) = resolveCouponForCharge (oe_coupon_ok env) (oe_now env) db (iq_CouponCode req) market (basketSubtotal lines);
          totalMinor = sum64 (line_gross couponPct) lines;
          currency = (if iq_Currency req \<noteq> [] then iq_Currency req else first_currency lines);
          addr = (case os_address svc of None \<Rightarrow> None
                  | Some resolve \<Rightarrow> if iq_AddressID req = 0 then None else resolve (iq_UserID req) (iq_AddressID req));
          (res, db1) = order_WithTx (oe_outs env) (saga_body env (os_enc svc) req market coupon addr
            (range_map (oe_prio env) (group_lines couponPct lines)) (saga_session env req installments totalMinor currency)) db in
      (res, db1, totalMinor, currency))"

definition saga_pay :: "order_env \<Rightarrow> (payment_request \<Rightarrow> order_error + string) \<Rightarrow> initiate_request \<Rightarrow> int \<Rightarrow> int \<Rightarrow> string \<Rightarrow> order list
    \<Rightarrow> order_db \<Rightarrow> (order_error + initiate_response) \<times> order_db" where
  "saga_pay env psp req installments totalMinor currency created db =
     (case psp \<lparr>pq_OrderID = (case created of [] \<Rightarrow> 0 | ord # _ \<Rightarrow> or_ID ord), pq_AmountMinor = totalMinor, pq_Currency = currency,
                pq_IdempotencyKey = iq_SessionID req, pq_Installments = installments\<rparr> of
        Inl e \<Rightarrow> (Inl OrdPsp, snd (UpdateCheckoutSession (oe_update_ok env) (iq_SessionID req) CheckoutSessionFailed []
                    (cancel_all env (map or_ID created) db)))
      | Inr providerRef \<Rightarrow>
          (Inr \<lparr>ir_SessionID = iq_SessionID req, ir_Orders = created\<rparr>,
           snd (UpdateCheckoutSession (oe_update_ok env) (iq_SessionID req) CheckoutSessionPSPInitiated providerRef db)))"

definition InitiateCheckout :: "order_env \<Rightarrow> order_svc \<Rightarrow> initiate_request \<Rightarrow> order_db \<Rightarrow> redis
    \<Rightarrow> (order_error + initiate_response) \<times> order_db \<times> redis" where
  "InitiateCheckout env svc req db r =
     (if os_disk_panic svc then (Inl ErrDiskPanic, db, r)
      else case os_psp svc of
        None \<Rightarrow> (Inl ErrPSPNotConfigured, db, r)
      | Some psp \<Rightarrow>
          if iq_SessionID req = [] then (Inl ErrCheckoutSessionRequired, db, r)
          else if \<not> os_session_repo svc then (Inl OrdSessionRepoMissing, db, r)
          else (case NormalizeInstallments (iq_Installments req) of
            Inl e \<Rightarrow> (Inl e, db, r)
          | Inr installments \<Rightarrow>
              if \<not> oe_find_ok env then (Inl OrdQuery, db, r)
              else (case FindCheckoutSessionByID db (iq_SessionID req) of
                Inr existing \<Rightarrow>
                  (Inr \<lparr>ir_SessionID = se_ID existing,
                        ir_Orders = List.map_filter (\<lambda>oid. case repo_GetOrder db oid of Inl e \<Rightarrow> None | Inr (ord, _) \<Rightarrow> Some ord) (se_OrderIDs existing)\<rparr>, db, r)
              | Inl _ \<Rightarrow>
                  (case GetCart (iq_UserID req) r of
                     (Inl e, r1) \<Rightarrow> (Inl (OrdCart e), db, r1)
                   | (Inr cart, r1) \<Rightarrow>
                       if cart = [] then (Inl ErrEmptyCart, db, r1)
                       else (case resolve_lines (oe_catalog env) (if iq_Market req = [] then oe_defaultMarket env else iq_Market req) cart of
                         Inl e \<Rightarrow> (Inl e, db, r1)
                       | Inr lines \<Rightarrow>
                           (case saga_persist env svc req installments lines db of
                              (Inl e, db1, _, _) \<Rightarrow> (Inl e, db1, r1)
                            | (Inr created, db1, totalMinor, currency) \<Rightarrow>
                                (case saga_pay env psp req installments totalMinor currency created db1 of
                                   (res, db2) \<Rightarrow> (res, db2, r1))))))))"

section \<open>Reading and moving orders\<close>

text \<open>\<^verbatim>\<open>GetOrder\<close> attaches the address snapshot; a failed look-up of it is only logged.\<close>

definition GetOrder :: "(string \<Rightarrow> string option) \<Rightarrow> order_db \<Rightarrow> int \<Rightarrow> order_error + order \<times> order_item list \<times> order_address option" where
  "GetOrder dec db orderID =
     (case repo_GetOrder db orderID of
        Inl e \<Rightarrow> Inl e
      | Inr (ord, items) \<Rightarrow> Inr (ord, items, case GetOrderAddress dec db orderID of Inl e \<Rightarrow> None | Inr a \<Rightarrow> a))"

definition UpdateStatus :: "order_env \<Rightarrow> int \<Rightarrow> order_status \<Rightarrow> order_db \<Rightarrow> order_error option \<times> order_db" where
  "UpdateStatus env orderID status db =
     (case order_WithTx (oe_outs env) (repo_UpdateStatus orderID status (oe_now env)) db of
        (Inl e, db1) \<Rightarrow> (Some e, db1) | (Inr _, db1) \<Rightarrow> (None, db1))"

definition CancelOrder :: "order_env \<Rightarrow> int \<Rightarrow> order_db \<Rightarrow> order_error option \<times> order_db" where
  "CancelOrder env orderID db =
     (case repo_GetOrder db orderID of
        Inl e \<Rightarrow> (Some e, db)
      | Inr (ord, _) \<Rightarrow>
          if or_Status ord = StatusCancelled then (None, db)
          else if or_Status ord \<noteq> StatusPendingPayment \<and> or_Status ord \<noteq> StatusPaid then (Some ErrInvalidTransition, db)
          else UpdateStatus env orderID StatusCancelled db)"

definition item_fields :: "order_item \<Rightarrow> (string \<times> json) list" where
  "item_fields it = [(''commission_pct_bps'', JInt (oi_CommissionPctBps it)), (''kdv_pct_bps'', JInt (oi_KdvPctBps it)),
     (''commission_amount_minor'', JInt (oi_CommissionAmountMinor it)), (''kdv_amount_minor'', JInt (oi_KdvAmountMinor it)),
     (''seller_net_minor'', JInt (oi_SellerNetMinor it))]"

definition paid_item_json :: "order_item \<Rightarrow> json" where
  "paid_item_json it = JObj ([(''variant_id'', JInt (oi_VariantID it)), (''seller_id'', JInt (oi_SellerID it)), (''qty'', JInt (oi_Qty it)),
     (''unit_price_minor'', JInt (oi_UnitPriceMinor it))] @ item_fields it)"

definition buildPaidPayload :: "order \<Rightarrow> order_item list \<Rightarrow> instant \<Rightarrow> json" where
  "buildPaidPayload ord items paidAt =
     JObj [(''order_id'', JInt (or_ID ord)), (''user_id'', JInt (or_UserID ord)), (''seller_id'', JInt (or_SellerID ord)),
       (''paid_at'', JTime paidAt), (''amount_minor'', JInt (or_TotalMinor ord)), (''shipping_minor'', JInt (or_ShippingMinor ord)),
       (''currency'', JStr (or_Currency ord)), (''market'', JStr (or_Market ord)), (''items'', JArr (map paid_item_json items))]"

definition delivered_item_json :: "order_item \<Rightarrow> json" where
  "delivered_item_json it = JObj ([(''variant_id'', JInt (oi_VariantID it)), (''seller_id'', JInt (oi_SellerID it)),
     (''category_id'', JInt (oi_CategoryID it)), (''qty'', JInt (oi_Qty it)), (''unit_price_minor'', JInt (oi_UnitPriceMinor it))] @ item_fields it)"

text \<open>The three product fields are left out when empty (\<^verbatim>\<open>omitempty\<close>).\<close>

definition buildDeliveredPayload :: "order \<Rightarrow> order_item list \<Rightarrow> instant \<Rightarrow> int \<times> string \<times> string \<Rightarrow> json" where
  "buildDeliveredPayload ord items deliveredAt product =
     (case product of (productID, productTitle, productImageURL) \<Rightarrow>
      JObj ([(''order_id'', JInt (or_ID ord)), (''user_id'', JInt (or_UserID ord)), (''delivered_at'', JTime deliveredAt),
        (''market'', JStr (or_Market ord)), (''currency'', JStr (or_Currency ord)), (''items'', JArr (map delivered_item_json items))] @
        (if productID = 0 then [] else [(''product_id'', JInt productID)]) @
        (if productTitle = [] then [] else [(''product_title'', JStr productTitle)]) @
        (if productImageURL = [] then [] else [(''product_image_url'', JStr productImageURL)])))"

definition order_outbox_row :: "string \<Rightarrow> json \<Rightarrow> string \<Rightarrow> order \<Rightarrow> outbox_row" where
  "order_outbox_row eventType payload key ord =
     \<lparr>o_id = 0, o_aggregate = ''order'', o_event_type = eventType, o_payload = payload, o_idempotency_key = key,
      o_trace_id = [], o_span_id = [], o_market = or_Market ord, o_currency = or_Currency ord, o_created_at = 0, o_published_at = None\<rparr>"

definition with_outbox :: "order_env \<Rightarrow> outbox_row \<Rightarrow> (order_error + unit \<times> order_db) \<Rightarrow> order_error + unit \<times> order_db" where
  "with_outbox env row upd =
     (case upd of
        Inl e \<Rightarrow> Inl e
      | Inr (_, db1) \<Rightarrow>
          (case outbox_Insert (oe_now env) row (dbo_outbox db1) of
             Inl e \<Rightarrow> Inl (OrdOutbox e)
           | Inr ob \<Rightarrow> Inr ((), db1\<lparr>dbo_outbox := ob\<rparr>)))"

definition paid_event_key :: "int \<Rightarrow> string" where
  "paid_event_key orderID = ''order:paid:order_'' @ itoa orderID"

definition delivered_event_key :: "int \<Rightarrow> string" where
  "delivered_event_key orderID = ''order:delivered:order_'' @ itoa orderID"

definition err_of :: "(order_error + unit) \<times> order_db \<Rightarrow> order_error option \<times> order_db" where
  "err_of x = (case x of (Inl e, db) \<Rightarrow> (Some e, db) | (Inr _, db) \<Rightarrow> (None, db))"

definition MarkPaid :: "order_env \<Rightarrow> int \<Rightarrow> order_db \<Rightarrow> order_error option \<times> order_db" where
  "MarkPaid env orderID db =
     (case repo_GetOrder db orderID of
        Inl e \<Rightarrow> (Some e, db)
      | Inr (ord, items) \<Rightarrow>
          if or_Status ord = StatusPaid then (None, db)
          else (case ValidTransition (or_Status ord) StatusPaid of
            Some e \<Rightarrow> (Some e, db)
          | None \<Rightarrow>
              err_of (order_WithTx (oe_outs env) (\<lambda>tx. with_outbox env
                (order_outbox_row ''ecom.order.paid.v1'' (buildPaidPayload ord items (oe_now env)) (paid_event_key orderID) ord)
                (repo_UpdateStatus orderID StatusPaid (oe_now env) tx)) db)))"

text \<open>\<open>product\<close> is the catalog look-up of the first item's product: id, title and image, empty when it fails.\<close>

definition MarkDelivered :: "order_env \<Rightarrow> (order_item \<Rightarrow> int \<times> string \<times> string) \<Rightarrow> int \<Rightarrow> instant \<Rightarrow> order_db \<Rightarrow> order_error option \<times> order_db" where
  "MarkDelivered env product orderID deliveredAt db =
     (case repo_GetOrder db orderID of
        Inl e \<Rightarrow> (Some e, db)
      | Inr (ord, items) \<Rightarrow>
          if or_Status ord = StatusDelivered then (None, db)
          else err_of (order_WithTx (oe_outs env) (\<lambda>tx. with_outbox env
                 (order_outbox_row ''ecom.order.delivered.v1''
                   (buildDeliveredPayload ord items deliveredAt (case items of [] \<Rightarrow> (0, [], []) | it # _ \<Rightarrow> product it))
                   (delivered_event_key orderID) ord)
                 (SetDelivered orderID deliveredAt tx)) db))"

text \<open>The capture hook wired in \<^verbatim>\<open>cmd/core-svc\<close>: errors of single orders are only logged.\<close>

fun mark_all_paid :: "(int \<Rightarrow> order_env) \<Rightarrow> int list \<Rightarrow> order_db \<Rightarrow> order_db" where
  "mark_all_paid env [] db = db"
| "mark_all_paid env (oid # oids) db = mark_all_paid env oids (snd (MarkPaid (env oid) oid db))"

definition captureFinalizer :: "bool \<Rightarrow> (int \<Rightarrow> order_env) \<Rightarrow> string \<Rightarrow> order_db \<Rightarrow> redis \<Rightarrow> order_db \<times> redis" where
  "captureFinalizer find_ok env providerRef db r =
     (case (if find_ok then FindCheckoutSessionByID db providerRef else Inl OrdQuery) of
        Inl e \<Rightarrow> (db, r)
      | Inr session \<Rightarrow>
          (mark_all_paid env (se_OrderIDs session) db,
           if se_ReservationID session \<noteq> [] then snd (CommitReservation (se_ReservationID session) r) else r))"


section \<open>Lines and orders\<close>

lemma order_WithTx_cases:
  assumes "order_WithTx outs fn db = (res, db')"
  obtains (error) e where "res = Inl (OrdTx e)" "db' = db" | (commit) a where "res = Inr a" "fn db = Inr (a, db')"
  using assms [unfolded order_WithTx_def] by (rule one_tx_cases) (blast intro: error commit)+

lemma order_WithTx_quiet: "order_WithTx [] fn db = (case fn db of Inl e \<Rightarrow> (Inl (OrdTx (TxFn e)), db) | Inr (a, db') \<Rightarrow> (Inr a, db'))"
  by (simp add: order_WithTx_def one_tx_quiet)

definition item_charge :: "order_item \<Rightarrow> int" where
  "item_charge it = wrap64 (oi_UnitPriceMinor it * oi_Qty it)"

text \<open>The charge of an item is split without remainder into commission, its tax and the seller's net.\<close>

definition item_ok :: "order_item \<Rightarrow> bool" where
  "item_ok it \<longleftrightarrow> 0 < oi_Qty it \<and> 0 \<le> oi_UnitPriceMinor it \<and> 0 \<le> oi_CommissionAmountMinor it \<and> 0 \<le> oi_KdvAmountMinor it \<and>
     0 \<le> oi_SellerNetMinor it \<and>
     wrap64 (oi_CommissionAmountMinor it + oi_KdvAmountMinor it + oi_SellerNetMinor it) = item_charge it"

lemma line_item_simps [simp]: "oi_UnitPriceMinor (line_item p ln) = couponedUnit p ln" "oi_Qty (line_item p ln) = ct_Qty (ln_ci ln)"
  "oi_SellerID (line_item p ln) = va_SellerID (ln_v ln)" "oi_VariantID (line_item p ln) = ct_VariantID (ln_ci ln)"
  by (simp_all add: line_item_def Let_def)

lemma line_item_charge [simp]: "item_charge (line_item p ln) = line_gross p ln"
  by (simp add: item_charge_def line_gross_def)

lemma line_item_split:
  "wrap64 (oi_CommissionAmountMinor (line_item p ln) + oi_KdvAmountMinor (line_item p ln) + oi_SellerNetMinor (line_item p ln)) = line_gross p ln"
proof -
  have "wrap64 (c + k + wrap64 (wrap64 (g - c) - k)) = wrap64 g" for c k g :: int by simp
  then show ?thesis by (simp add: line_item_def Let_def line_gross_def)
qed

lemma wrap64_sub_cancel: "wrap64 (wrap64 a - wrap64 (a - b)) = wrap64 b"
  by simp

text \<open>Subtotal minus discount is what is charged, whatever wraps around.\<close>

lemma sum_discount:
  "wrap64 (sum_list (map (line_discount_minor p) ls)) = wrap64 (sum_list (map listGross ls) - sum_list (map (line_gross p) ls))"
proof (induction ls)
  case (Cons ln ls)
  have "wrap64 (line_discount_minor p ln + sum_list (map (line_discount_minor p) ls)) =
      wrap64 (line_discount_minor p ln + wrap64 (sum_list (map (line_discount_minor p) ls)))" by simp
  also have "\<dots> = wrap64 (wrap64 (listGross ln - line_gross p ln) + (sum_list (map listGross ls) - sum_list (map (line_gross p) ls)))"
    by (simp add: Cons line_discount_minor_def)
  also have "\<dots> = wrap64 (listGross ln + sum_list (map listGross ls) - (line_gross p ln + sum_list (map (line_gross p) ls)))"
    by (simp only: wrap64_add_left) (simp add: algebra_simps)
  finally show ?case by simp
qed simp

lemma charged_total: "wrap64 (sum64 listGross ls - sum64 (line_discount_minor p) ls) = sum64 (line_gross p) ls"
proof -
  have "wrap64 (sum64 listGross ls - sum64 (line_discount_minor p) ls) =
      wrap64 (sum_list (map listGross ls) - wrap64 (sum_list (map (line_discount_minor p) ls)))"
    by (simp add: sum64_eq)
  also have "\<dots> = wrap64 (sum_list (map (line_gross p) ls))" by (simp add: sum_discount)
  finally show ?thesis by (simp add: sum64_eq)
qed

lemma sum64_map: "sum64 f (map g xs) = sum64 (\<lambda>x. f (g x)) xs"
  by (simp add: sum64_eq comp_def)

section \<open>Inserting an order\<close>

text \<open>An item as stored, without the two columns the database assigns.\<close>

definition bare :: "order_item \<Rightarrow> order_item" where
  "bare it = it\<lparr>oi_ID := 0, oi_OrderID := 0\<rparr>"

lemma bare_simps [simp]: "bare (it\<lparr>oi_ID := i, oi_OrderID := j\<rparr>) = bare it" "bare (it\<lparr>oi_OrderID := j, oi_ID := i\<rparr>) = bare it"
  by (simp_all add: bare_def)

lemma insert_items_cases:
  assumes "insert_items oid its db = Inr (rows, db')"
  shows "db' = db\<lparr>dbo_items := dbo_items db @ rows, dbo_next_item := dbo_next_item db + int (length its)\<rparr> \<and>
    map bare rows = map bare its \<and> (\<forall>r \<in> set rows. oi_OrderID r = oid \<and> dbo_next_item db \<le> oi_ID r \<and> oi_ID r < dbo_next_item db + int (length its)) \<and>
    distinct (map oi_ID rows) \<and>
    (\<forall>r \<in> set rows. 0 < oi_Qty r \<and> 0 \<le> oi_UnitPriceMinor r \<and> 0 \<le> oi_CommissionAmountMinor r \<and> 0 \<le> oi_KdvAmountMinor r \<and> 0 \<le> oi_SellerNetMinor r)"
  using assms
proof (induction its arbitrary: db rows)
  case (Cons it its)
  obtain row db1 rows2 where s: "InsertOrderItem (it\<lparr>oi_OrderID := oid\<rparr>) db = Inr (row, db1)" "insert_items oid its db1 = Inr (rows2, db')" "rows = row # rows2"
    using Cons.prems by (auto split: sum.splits)
  have row: "row = it\<lparr>oi_OrderID := oid, oi_ID := dbo_next_item db\<rparr>"
    "db1 = db\<lparr>dbo_items := dbo_items db @ [row], dbo_next_item := dbo_next_item db + 1\<rparr>"
    "0 < oi_Qty row" "0 \<le> oi_UnitPriceMinor row" "0 \<le> oi_CommissionAmountMinor row" "0 \<le> oi_KdvAmountMinor row" "0 \<le> oi_SellerNetMinor row"
    using s(1) by (auto simp: InsertOrderItem_def Let_def split: if_splits)
  note IH = Cons.IH [OF s(2)]
  have d: "dbo_next_item db1 = dbo_next_item db + 1" "dbo_items db1 = dbo_items db @ [row]" using row(2) by simp_all
  have ids: "dbo_next_item db \<le> oi_ID r \<and> oi_ID r < dbo_next_item db + int (length (it # its))" if "r \<in> set rows2" for r
    using IH that d(1) by force
  have "oi_ID row \<notin> oi_ID ` set rows2" using IH d(1) row(1) by force
  then show ?case using IH s(3) d row ids by (auto simp: add.assoc)
qed simp


text \<open>Anything that only reads the bare columns agrees on the stored and the given items.\<close>

lemma bare_map: "map bare rows = map bare its \<Longrightarrow> (\<And>it. f (bare it) = f it) \<Longrightarrow> map f rows = map f its"
  by (metis (no_types, lifting) list.map_comp list.map_cong0 o_apply)

lemma bare_all:
  assumes "map bare rows = map bare its" "r \<in> set rows" "\<And>it. P (bare it) = P it" "\<And>it. it \<in> set its \<Longrightarrow> P it"
  shows "P r"
proof -
  have "bare r \<in> set (map bare its)" using assms(1,2) by (metis imageI list.set_map)
  then obtain it where "it \<in> set its" "bare it = bare r" by auto
  then show ?thesis using assms(3,4) by metis
qed

lemma bare_fields [simp]: "item_charge (bare it) = item_charge it" "oi_SellerID (bare it) = oi_SellerID it"
  "oi_CommissionAmountMinor (bare it) = oi_CommissionAmountMinor it" "oi_KdvAmountMinor (bare it) = oi_KdvAmountMinor it"
  "oi_SellerNetMinor (bare it) = oi_SellerNetMinor it"
  by (simp_all add: bare_def item_charge_def)

definition order_ok :: "order_db \<Rightarrow> order \<Rightarrow> bool" where
  "order_ok db ord \<longleftrightarrow> or_TotalMinor ord = sum64 item_charge (GetOrderItems db (or_ID ord)) \<and>
     or_TotalMinor ord = wrap64 (or_SubtotalMinor ord - or_DiscountMinor ord) \<and> or_ShippingMinor ord = 0 \<and>
     0 \<le> or_TotalMinor ord \<and> 0 \<le> or_SubtotalMinor ord \<and> 0 \<le> or_DiscountMinor ord \<and> 0 \<le> or_CouponDiscountMinor ord \<and>
     (or_SellerID ord \<noteq> 0 \<longrightarrow> (\<forall>it \<in> set (GetOrderItems db (or_ID ord)). oi_SellerID it = or_SellerID ord))"

definition order_inv :: "order_db \<Rightarrow> bool" where
  "order_inv db \<longleftrightarrow> fresh_ids or_ID (dbo_next_order db) (dbo_orders db) \<and> fresh_ids oi_ID (dbo_next_item db) (dbo_items db) \<and>
     distinct (map or_IdempotencyKey (dbo_orders db)) \<and>
     (\<forall>it \<in> set (dbo_items db). item_ok it \<and> oi_OrderID it \<in> or_ID ` set (dbo_orders db)) \<and>
     (\<forall>ord \<in> set (dbo_orders db). order_ok db ord)"

text \<open>What a pricing of an order must satisfy for its insertion to keep the invariant.\<close>

definition priced :: "order \<Rightarrow> order_item list \<Rightarrow> bool" where
  "priced ord its \<longleftrightarrow> or_TotalMinor ord = sum64 item_charge its \<and> or_ShippingMinor ord = 0 \<and> or_TotalMinor ord = wrap64 (or_SubtotalMinor ord - or_DiscountMinor ord) \<and>
     (\<forall>it \<in> set its. wrap64 (oi_CommissionAmountMinor it + oi_KdvAmountMinor it + oi_SellerNetMinor it) = item_charge it) \<and>
     (or_SellerID ord \<noteq> 0 \<longrightarrow> (\<forall>it \<in> set its. oi_SellerID it = or_SellerID ord))"

definition order_added :: "order_db \<Rightarrow> order_db \<Rightarrow> order \<Rightarrow> order_item list \<Rightarrow> bool" where
  "order_added db db' created rows \<longleftrightarrow> dbo_orders db' = dbo_orders db @ [created] \<and> or_ID created = dbo_next_order db \<and>
     dbo_items db' = dbo_items db @ rows \<and> (\<forall>r \<in> set rows. oi_OrderID r = or_ID created) \<and>
     dbo_next_order db' = dbo_next_order db + 1 \<and> dbo_sessions db' = dbo_sessions db \<and> dbo_outbox db' = dbo_outbox db \<and>
     dbo_coupons db' = dbo_coupons db"

lemma order_added_items:
  assumes "order_added db db' created rows" "order_inv db"
  shows "GetOrderItems db' (or_ID created) = rows" "i < dbo_next_order db \<Longrightarrow> GetOrderItems db' i = GetOrderItems db i"
proof -
  have n: "oi_OrderID it < dbo_next_order db" if "it \<in> set (dbo_items db)" for it
    using assms(2) that by (auto simp: order_inv_def fresh_ids_def)
  have "filter (\<lambda>it. oi_OrderID it = or_ID created) (dbo_items db) = []"
    using n assms(1) by (fastforce simp: filter_empty_conv order_added_def)
  moreover have "filter (\<lambda>it. oi_OrderID it = or_ID created) rows = rows"
    using assms(1) by (auto simp: order_added_def filter_id_conv)
  ultimately show "GetOrderItems db' (or_ID created) = rows"
    using assms(1) by (simp add: GetOrderItems_def order_added_def)
  show "GetOrderItems db' i = GetOrderItems db i" if "i < dbo_next_order db"
    using that assms(1) by (auto simp: GetOrderItems_def order_added_def filter_empty_conv)
qed

lemma new_order:
  assumes ins: "InsertOrder fk now ord db = Inr (created, db1)" "insert_items (or_ID created) its db1 = Inr (rows, db2)"
    and inv: "order_inv db" and p: "priced ord its"
  shows "order_added db db2 created rows" "map bare rows = map bare its" "order_inv db2"
    "created = ord\<lparr>or_ID := dbo_next_order db, or_CreatedAt := now, or_UpdatedAt := now\<rparr>"
proof -
  have c: "created = ord\<lparr>or_ID := dbo_next_order db, or_CreatedAt := now, or_UpdatedAt := now\<rparr>"
    "db1 = db\<lparr>dbo_orders := dbo_orders db @ [created], dbo_next_order := dbo_next_order db + 1\<rparr>"
    "0 \<le> or_SubtotalMinor ord" "0 \<le> or_TotalMinor ord" "0 \<le> or_DiscountMinor ord" "0 \<le> or_CouponDiscountMinor ord"
    "List.find (\<lambda>r. or_IdempotencyKey r = or_IdempotencyKey ord) (dbo_orders db) = None"
    using ins(1) by (auto simp: InsertOrder_def Let_def split: if_splits)
  note its = insert_items_cases [OF ins(2)]
  then show b: "map bare rows = map bare its" by blast
  show added: "order_added db db2 created rows" using its c(1,2) by (auto simp: order_added_def)
  show "created = ord\<lparr>or_ID := dbo_next_order db, or_CreatedAt := now, or_UpdatedAt := now\<rparr>" by (rule c(1))
  have len: "length rows = length its" using b by (metis length_map)
  have items2: "dbo_items db2 = dbo_items db @ rows" "dbo_next_item db2 = dbo_next_item db + int (length its)" "dbo_orders db2 = dbo_orders db @ [created]"
    using its c(2) by auto
  have new_ok: "order_ok db2 created"
  proof -
    have "map item_charge rows = map item_charge its" using b by (rule bare_map) simp
    then have "sum64 item_charge rows = sum64 item_charge its" by (simp add: sum64_eq)
    moreover have "map oi_SellerID rows = map oi_SellerID its" using b by (rule bare_map) simp
    then have "oi_SellerID ` set rows = oi_SellerID ` set its" by (metis list.set_map)
    ultimately show ?thesis
      unfolding order_ok_def order_added_items(1) [OF added inv]
      using p c(1,3-6) by (auto simp: priced_def)
  qed
  have old_ok: "order_ok db2 q" if "q \<in> set (dbo_orders db)" for q
  proof -
    have "or_ID q < dbo_next_order db" using inv that by (auto simp: order_inv_def fresh_ids_def)
    then show ?thesis using inv that order_added_items(2) [OF added inv] by (auto simp: order_inv_def order_ok_def)
  qed
  have rows_ok: "item_ok r" if "r \<in> set rows" for r
  proof -
    have "wrap64 (oi_CommissionAmountMinor r + oi_KdvAmountMinor r + oi_SellerNetMinor r) = item_charge r"
      by (rule bare_all [OF b that]) (use p in \<open>simp_all add: priced_def\<close>)
    then show ?thesis using its that by (auto simp: item_ok_def)
  qed
  have "fresh_ids oi_ID (dbo_next_item db2) (dbo_items db2)"
  proof -
    have old: "fresh_ids oi_ID (dbo_next_item db) (dbo_items db)" using inv by (simp add: order_inv_def)
    have "dbo_next_item db1 = dbo_next_item db" by (simp add: c(2))
    then have new: "distinct (map oi_ID rows)" "\<And>r. r \<in> set rows \<Longrightarrow> dbo_next_item db \<le> oi_ID r \<and> oi_ID r < dbo_next_item db + int (length its)"
      using its by auto
    show ?thesis unfolding items2 fresh_ids_def
    proof (intro conjI)
      show "0 < dbo_next_item db + int (length its)" using old by (simp add: fresh_ids_def)
      show "distinct (map oi_ID (dbo_items db @ rows))" using old new by (fastforce simp: fresh_ids_def)
      show "\<forall>i \<in> set (map oi_ID (dbo_items db @ rows)). 0 < i \<and> i < dbo_next_item db + int (length its)"
        using old new(2) by (fastforce simp: fresh_ids_def)
    qed
  qed
  moreover have "fresh_ids or_ID (dbo_next_order db2) (dbo_orders db2)"
    using inv c(1) added unfolding items2(3) order_inv_def order_added_def by (auto intro: fresh_ids_append)
  moreover have "distinct (map or_IdempotencyKey (dbo_orders db2))"
    using inv c(1,7) unfolding items2(3) by (auto simp: order_inv_def find_None_iff2)
  ultimately show "order_inv db2"
    using inv new_ok old_ok rows_ok its unfolding order_inv_def [of db2] items2 by (auto simp: order_inv_def)
qed


section \<open>What leaves the orders alone\<close>

definition same_orders :: "order_db \<Rightarrow> order_db \<Rightarrow> bool" where
  "same_orders db db' \<longleftrightarrow> dbo_orders db' = dbo_orders db \<and> dbo_next_order db' = dbo_next_order db \<and> dbo_items db' = dbo_items db \<and>
     dbo_next_item db' = dbo_next_item db"

lemma same_orders_inv: "same_orders db db' \<Longrightarrow> order_inv db' = order_inv db"
  by (simp add: same_orders_def order_inv_def order_ok_def GetOrderItems_def)

lemma same_orders_refl [simp]: "same_orders db db"
  by (simp add: same_orders_def)

lemma redeem_same: "redeem c oid u d db = Inr db' \<Longrightarrow> same_orders db db' \<and> dbo_sessions db' = dbo_sessions db \<and> dbo_outbox db' = dbo_outbox db \<and> dbo_coupons db' = dbo_coupons db"
  by (auto simp: redeem_def InsertCouponRedemption_def same_orders_def split: option.splits if_splits)

lemma address_same: "InsertOrderAddress enc a db = Inr db' \<Longrightarrow> same_orders db db' \<and> dbo_sessions db' = dbo_sessions db \<and> dbo_outbox db' = dbo_outbox db \<and> dbo_coupons db' = dbo_coupons db"
  by (auto simp: InsertOrderAddress_def same_orders_def split: option.splits prod.splits if_splits)

lemma session_same: "InsertCheckoutSession s db = Inr (row, db') \<Longrightarrow> same_orders db db' \<and> dbo_outbox db' = dbo_outbox db \<and>
    dbo_sessions db' = dbo_sessions db @ [row] \<and> row = (if se_Installments s = 0 then s\<lparr>se_Installments := 1\<rparr> else s)"
  by (auto simp: InsertCheckoutSession_def same_orders_def Let_def split: if_splits)

lemma UpdateCheckoutSession_same: "same_orders db (snd (UpdateCheckoutSession ok i st ref db))"
  by (simp add: UpdateCheckoutSession_def same_orders_def)

text \<open>An update of status and times keeps the money of every order.\<close>

definition keeps_money :: "(order \<Rightarrow> order) \<Rightarrow> bool" where
  "keeps_money f \<longleftrightarrow> (\<forall>r. or_ID (f r) = or_ID r \<and> or_IdempotencyKey (f r) = or_IdempotencyKey r \<and> or_TotalMinor (f r) = or_TotalMinor r \<and>
     or_SubtotalMinor (f r) = or_SubtotalMinor r \<and> or_DiscountMinor (f r) = or_DiscountMinor r \<and>
     or_CouponDiscountMinor (f r) = or_CouponDiscountMinor r \<and> or_ShippingMinor (f r) = or_ShippingMinor r \<and> or_SellerID (f r) = or_SellerID r)"

lemma order_ok_update: "keeps_money f \<Longrightarrow> order_ok (db\<lparr>dbo_orders := x\<rparr>) (f r) = order_ok db r" "order_ok (db\<lparr>dbo_orders := x\<rparr>) r = order_ok db r"
  by (simp_all add: keeps_money_def order_ok_def GetOrderItems_def)

lemma order_inv_update:
  assumes "keeps_money f"
  shows "order_inv (db\<lparr>dbo_orders := update_where p f (dbo_orders db)\<rparr>) = order_inv db"
proof -
  have a: "map or_ID (update_where p f (dbo_orders db)) = map or_ID (dbo_orders db)"
    "map or_IdempotencyKey (update_where p f (dbo_orders db)) = map or_IdempotencyKey (dbo_orders db)"
    using assms by (auto simp: keeps_money_def intro!: map_update_where)
  then have i: "or_ID ` set (update_where p f (dbo_orders db)) = or_ID ` set (dbo_orders db)" by (metis list.set_map)
  have "order_ok (db\<lparr>dbo_orders := x\<rparr>) (if p r then f r else r) = order_ok db r" for x r
    using order_ok_update(1) [OF assms] order_ok_update(2) by simp
  then have "(\<forall>ord \<in> set (update_where p f (dbo_orders db)). order_ok (db\<lparr>dbo_orders := x\<rparr>) ord) = (\<forall>ord \<in> set (dbo_orders db). order_ok db ord)" for x
    unfolding set_update_where by blast
  then show ?thesis using a i by (simp add: order_inv_def fresh_ids_def)
qed

lemma repo_UpdateStatus_inv: "repo_UpdateStatus i st t db = Inr (x, db') \<Longrightarrow> order_inv db' = order_inv db"
  by (auto simp: repo_UpdateStatus_def keeps_money_def intro!: order_inv_update split: if_splits)

lemma SetDelivered_inv: "SetDelivered i t db = Inr (x, db') \<Longrightarrow> order_inv db' = order_inv db"
  by (auto simp: SetDelivered_def keeps_money_def intro!: order_inv_update split: if_splits)

lemma with_outbox_cases:
  assumes "with_outbox env row upd = Inr (x, db')"
  obtains y db1 ob where "upd = Inr (y, db1)" "outbox_Insert (oe_now env) row (dbo_outbox db1) = Inr ob" "db' = db1\<lparr>dbo_outbox := ob\<rparr>"
  using assms by (auto simp: with_outbox_def split: sum.splits)

lemma outbox_same: "same_orders db (db\<lparr>dbo_outbox := ob\<rparr>)"
  by (simp add: same_orders_def)

lemma tx_inv:
  assumes "order_inv db" "\<And>a db'. fn db = Inr (a, db') \<Longrightarrow> order_inv db'"
  shows "order_inv (snd (order_WithTx outs fn db))"
proof (cases "order_WithTx outs fn db")
  case (Pair res db1)
  from this show ?thesis using assms by (cases rule: order_WithTx_cases) (auto simp: Pair)
qed

lemma err_of_snd [simp]: "snd (err_of x) = snd x"
  by (simp add: err_of_def split: prod.split sum.split)

lemma UpdateStatus_eq: "UpdateStatus env i st db = err_of (order_WithTx (oe_outs env) (repo_UpdateStatus i st (oe_now env)) db)"
  by (simp add: UpdateStatus_def err_of_def)

lemma UpdateStatus_inv: "order_inv db \<Longrightarrow> order_inv (snd (UpdateStatus env i st db))"
  unfolding UpdateStatus_eq err_of_snd by (rule tx_inv) (auto dest: repo_UpdateStatus_inv)

lemma CancelOrder_inv: "order_inv db \<Longrightarrow> order_inv (snd (CancelOrder env i db))"
  by (simp add: CancelOrder_def UpdateStatus_inv split: sum.split)

lemma event_inv:
  assumes "order_inv db" "\<And>y db1. upd db = Inr (y, db1) \<Longrightarrow> order_inv db1"
  shows "order_inv (snd (err_of (order_WithTx outs (\<lambda>tx. with_outbox env row (upd tx)) db)))"
  unfolding err_of_snd using assms(1)
proof (rule tx_inv)
  fix a db' assume "with_outbox env row (upd db) = Inr (a, db')"
  then show "order_inv db'"
    by (rule with_outbox_cases) (use assms(2) same_orders_inv [OF outbox_same] in blast)
qed

lemma MarkPaid_inv:
  assumes "order_inv db"
  shows "order_inv (snd (MarkPaid env i db))"
proof -
  have "order_inv (snd (err_of (order_WithTx outs (\<lambda>tx. with_outbox env row (repo_UpdateStatus i st t tx)) db)))" for outs row st t
    using assms repo_UpdateStatus_inv by (intro event_inv) auto
  then show ?thesis using assms by (simp add: MarkPaid_def split: sum.split option.split)
qed

lemma MarkDelivered_inv:
  assumes "order_inv db"
  shows "order_inv (snd (MarkDelivered env product i t db))"
proof -
  have "order_inv (snd (err_of (order_WithTx outs (\<lambda>tx. with_outbox env row (SetDelivered i t tx)) db)))" for outs row
    using assms SetDelivered_inv by (intro event_inv) auto
  then show ?thesis using assms by (simp add: MarkDelivered_def split: sum.split)
qed

lemma mark_all_paid_inv: "order_inv db \<Longrightarrow> order_inv (mark_all_paid env oids db)"
  by (induction env oids db rule: mark_all_paid.induct) (auto intro: MarkPaid_inv)

lemma captureFinalizer_inv: "order_inv db \<Longrightarrow> order_inv (fst (captureFinalizer ok env ref db r))"
  by (simp add: captureFinalizer_def mark_all_paid_inv split: sum.split)

section \<open>Checkout keeps the orders consistent\<close>

lemma priced_checkout: "priced (checkout_order env req market currency p c lines) (map (line_item p) lines)"
  by (auto simp: priced_def checkout_order_def Let_def sum64_map charged_total line_item_split)

lemma checkout_body_cases:
  assumes "checkout_body env ord its c db = Inr ((created, rows), db')" "order_inv db" "priced ord its"
  shows "order_added db db' created rows" "map bare rows = map bare its" "order_inv db'"
    "created = ord\<lparr>or_ID := dbo_next_order db, or_CreatedAt := oe_now env, or_UpdatedAt := oe_now env\<rparr>"
proof -
  obtain db1 db2 where s: "InsertOrder (oe_session_fk env) (oe_now env) ord db = Inr (created, db1)"
    "insert_items (or_ID created) its db1 = Inr (rows, db2)" "redeem c (or_ID created) (or_UserID ord) (or_CouponDiscountMinor ord) db2 = Inr db'"
    using assms(1) by (auto simp: checkout_body_def split: sum.splits prod.splits)
  note new = new_order [OF s(1,2) assms(2,3)]
  note same = redeem_same [OF s(3)]
  show "map bare rows = map bare its"
    "created = ord\<lparr>or_ID := dbo_next_order db, or_CreatedAt := oe_now env, or_UpdatedAt := oe_now env\<rparr>" by (rule new)+
  show "order_inv db'" using same_orders_inv new(3) same by blast
  show "order_added db db' created rows" using new(1) same by (simp add: order_added_def same_orders_def)
qed

lemma Checkout_cases:
  assumes "Checkout env req db r = (res, db', r')"
  obtains (unchanged) "db' = db"
  | (created) ord rows lines p c market currency where "res = Inr (ord, rows)" "FindByIdempotencyKey db (rq_IdempotencyKey req) = Inl ErrOrderNotFound"
      "checkout_body env (checkout_order env req market currency p c lines) (map (line_item p) lines) c db = Inr ((ord, rows), db')"
      "lines \<noteq> []" "\<exists>cart r1. GetCart (rq_UserID req) r = (Inr cart, r1) \<and> resolve_lines (oe_catalog env) market cart = Inr lines"
      "(p, c) = resolveCouponForCharge (oe_coupon_ok env) (oe_now env) db (rq_CouponCode req) market (basketSubtotal lines)"
proof (cases "db' = db")
  case False
  have nf: "oe_find_ok env" "FindByIdempotencyKey db (rq_IdempotencyKey req) = Inl ErrOrderNotFound"
    using assms False by (auto simp: Checkout_def FindByIdempotencyKey_def split: if_splits option.splits)
  obtain cart r1 where cart: "GetCart (rq_UserID req) r = (Inr cart, r1)" "cart \<noteq> []"
    using assms False nf by (auto simp: Checkout_def split: sum.splits prod.splits if_splits)
  define market where "market = (if rq_Market req = [] then oe_defaultMarket env else rq_Market req)"
  obtain lines where lines: "resolve_lines (oe_catalog env) market cart = Inr lines"
    using assms False nf cart by (auto simp: Checkout_def Let_def market_def split: sum.splits)
  obtain p c where pc: "resolveCouponForCharge (oe_coupon_ok env) (oe_now env) db (rq_CouponCode req) market (basketSubtotal lines) = (p, c)" by fastforce
  define currency where "currency = (if rq_Currency req \<noteq> [] then rq_Currency req else first_currency lines)"
  obtain res1 db1 where tx: "order_WithTx (oe_outs env) (checkout_body env (checkout_order env req market currency p c lines) (map (line_item p) lines) c) db = (res1, db1)"
    by fastforce
  have out: "db' = db1" "res = res1" using assms nf cart lines pc tx
    by (auto simp: Checkout_def Let_def market_def [symmetric] currency_def [symmetric] split: sum.splits)
  have "lines \<noteq> []" using lines cart(2) by (cases cart) (auto simp: Let_def split: option.splits sum.splits)
  from tx show ?thesis
  proof (cases rule: order_WithTx_cases)
    case (commit a)
    then show ?thesis using created [of "fst a" "snd a" market currency p c lines] out nf(2) lines cart pc \<open>lines \<noteq> []\<close> by auto
  qed (use out False in simp)
qed (rule unchanged)

lemma Checkout_inv:
  assumes "Checkout env req db r = (res, db', r')" "order_inv db"
  shows "order_inv db'"
  using assms(1)
proof (cases rule: Checkout_cases)
  case (created ord rows lines p c market currency)
  then show ?thesis using checkout_body_cases(3) [OF created(3) assms(2) priced_checkout] by simp
qed (use assms in simp)

section \<open>Groups by seller\<close>

lemma sum64_snoc: "sum64 f (xs @ [x]) = wrap64 (sum64 f xs + f x)"
  by (simp add: sum64_eq)

definition own_lines :: "resolved_line list \<Rightarrow> int \<Rightarrow> resolved_line list" where
  "own_lines ls s = filter (\<lambda>ln. va_SellerID (ln_v ln) = s) ls"

definition group_of :: "int \<Rightarrow> resolved_line list \<Rightarrow> seller_group" where
  "group_of p ls = \<lparr>sg_items = map (line_item p) ls, sg_subtotal = sum64 listGross ls, sg_discount = sum64 (line_discount_minor p) ls,
     sg_couponDiscount = sum64 (line_coupon p) ls, sg_currency = va_PriceCurrency (ln_v (hd ls))\<rparr>"

lemma group_lines_snoc: "group_lines p (ls @ [ln]) = add_line p ln (group_lines p ls)"
  by (simp add: group_lines_def)

lemma group_lines_distinct: "distinct (map fst (group_lines p ls))"
proof (induction ls rule: rev_induct)
  case (snoc ln ls)
  then show ?case by (simp add: group_lines_snoc add_line_def distinct_map_upd)
qed (simp add: group_lines_def)

lemma group_lines_of:
  "map_of (group_lines p ls) s = (if own_lines ls s = [] then None else Some (group_of p (own_lines ls s)))"
proof (induction ls arbitrary: s rule: rev_induct)
  case (snoc ln ls)
  define t where "t = va_SellerID (ln_v ln)"
  have own: "own_lines (ls @ [ln]) s = (if s = t then own_lines ls s @ [ln] else own_lines ls s)" by (auto simp: own_lines_def t_def)
  show ?case
  proof (cases "s = t")
    case False
    then show ?thesis using snoc own by (simp add: group_lines_snoc add_line_def map_of_map_upd t_def)
  next
    case True
    show ?thesis
    proof (cases "own_lines ls t = []")
      case True
      then show ?thesis using snoc [of t] own \<open>s = t\<close>
        by (simp add: group_lines_snoc add_line_def map_of_map_upd t_def [symmetric] group_of_def Let_def sum64_eq)
    next
      case False
      then show ?thesis using snoc [of t] own \<open>s = t\<close>
        by (simp add: group_lines_snoc add_line_def map_of_map_upd t_def [symmetric] group_of_def Let_def sum64_snoc)
    qed
  qed
qed (simp add: group_lines_def own_lines_def)

lemma group_lines_mem: "(s, g) \<in> set (group_lines p ls) \<longleftrightarrow> own_lines ls s \<noteq> [] \<and> g = group_of p (own_lines ls s)"
proof -
  have "(s, g) \<in> set (group_lines p ls) \<longleftrightarrow> map_of (group_lines p ls) s = Some g"
    by (simp add: map_of_eq_Some_iff [OF group_lines_distinct])
  then show ?thesis by (auto simp: group_lines_of)
qed

text \<open>Every line is in exactly one group.\<close>

lemma sum_own_lines:
  assumes "distinct ks" "\<forall>ln \<in> set ls. va_SellerID (ln_v ln) \<in> set ks"
  shows "sum_list (map (\<lambda>s. sum_list (map f (own_lines ls s))) ks) = (sum_list (map f ls) :: int)"
  using assms(2)
proof (induction ls)
  case (Cons ln ls)
  define t where "t = va_SellerID (ln_v ln)"
  have "sum_list (map f (own_lines (ln # ls) s)) = (if s = t then f ln else 0) + sum_list (map f (own_lines ls s))" for s
    by (simp add: own_lines_def t_def)
  then have "sum_list (map (\<lambda>s. sum_list (map f (own_lines (ln # ls) s))) ks) =
      sum_list (map (\<lambda>s. if s = t then f ln else 0) ks) + sum_list (map (\<lambda>s. sum_list (map f (own_lines ls s))) ks)"
    by (simp add: sum_list_addf)
  moreover have "sum_list (map (\<lambda>s. if s = t then f ln else 0) ks) = f ln"
    using assms(1) Cons.prems by (simp add: t_def sum_list_distinct_conv_sum_set)
  ultimately show ?case using Cons by simp
qed (simp add: own_lines_def)


lemma priced_group:
  assumes "(s, g) \<in> set (group_lines p ls)"
  shows "priced (group_order env req market c (s, g)) (sg_items g)"
proof -
  have g: "g = group_of p (own_lines ls s)" using assms by (simp add: group_lines_mem)
  then show ?thesis
    by (auto simp: priced_def group_order_def group_of_def sum64_map charged_total line_item_split own_lines_def)
qed

section \<open>The saga keeps the orders consistent\<close>

text \<open>What the orders of one transaction have in common with the groups they were built from.\<close>

definition built :: "order_env \<Rightarrow> initiate_request \<Rightarrow> string \<Rightarrow> coupon option \<Rightarrow> order_db \<Rightarrow> int \<times> seller_group \<Rightarrow> order \<Rightarrow> bool" where
  "built env req market c db sg ord \<longleftrightarrow> ord = (group_order env req market c sg)\<lparr>or_ID := or_ID ord, or_CreatedAt := oe_now env, or_UpdatedAt := oe_now env\<rparr> \<and>
     map bare (GetOrderItems db (or_ID ord)) = map bare (sg_items (snd sg))"

lemma persist_group_step:
  assumes "persist_group env enc req market c addr sg (cs, db) = Inr (cs', db')" "order_inv db"
    and "priced (group_order env req market c sg) (sg_items (snd sg))"
  obtains ord rows where "cs' = cs @ [ord]" "order_added db db' ord rows" "order_inv db'" "built env req market c db' sg ord"
proof -
  obtain ord db1 rows db2 db3 where s: "InsertOrder (oe_session_fk env) (oe_now env) (group_order env req market c sg) db = Inr (ord, db1)"
      "insert_items (or_ID ord) (sg_items (snd sg)) db1 = Inr (rows, db2)"
      "redeem c (or_ID ord) (iq_UserID req) (sg_couponDiscount (snd sg)) db2 = Inr db3"
      "(case addr of None \<Rightarrow> Inr db3 | Some a \<Rightarrow> InsertOrderAddress enc (a\<lparr>ad_OrderID := or_ID ord\<rparr>) db3) = Inr db'" "cs' = cs @ [ord]"
    using assms(1) by (auto simp: persist_group_def split: sum.splits prod.splits)
  note new = new_order [OF s(1,2) assms(2,3)]
  have same: "same_orders db2 db' \<and> dbo_sessions db' = dbo_sessions db2 \<and> dbo_outbox db' = dbo_outbox db2 \<and> dbo_coupons db' = dbo_coupons db2"
    using redeem_same [OF s(3)] s(4) by (auto simp: same_orders_def dest!: address_same split: option.splits)
  have added: "order_added db db' ord rows" using new(1) same by (simp add: order_added_def same_orders_def)
  have "built env req market c db' sg ord"
    using new(2,4) order_added_items(1) [OF added assms(2)] by (simp add: built_def)
  then show thesis using that s(5) added same_orders_inv new(3) same by blast
qed

lemma persist_all:
  assumes "for_each (persist_group env enc req market c addr) gs (cs, db) = Inr (cs', db')" "order_inv db"
    and "\<And>sg. sg \<in> set gs \<Longrightarrow> priced (group_order env req market c sg) (sg_items (snd sg))"
  shows "\<exists>new. cs' = cs @ new \<and> dbo_orders db' = dbo_orders db @ new \<and> order_inv db' \<and> list_all2 (built env req market c db') gs new \<and>
    dbo_sessions db' = dbo_sessions db \<and> dbo_outbox db' = dbo_outbox db \<and> dbo_next_order db \<le> dbo_next_order db' \<and>
    (\<forall>i < dbo_next_order db. GetOrderItems db' i = GetOrderItems db i) \<and> (\<forall>ord \<in> set new. dbo_next_order db \<le> or_ID ord)"
  using assms
proof (induction gs arbitrary: cs db)
  case Nil
  then show ?case by simp
next
  case (Cons sg gs)
  obtain cs1 db1 where s: "persist_group env enc req market c addr sg (cs, db) = Inr (cs1, db1)"
    "for_each (persist_group env enc req market c addr) gs (cs1, db1) = Inr (cs', db')"
    using Cons.prems(1) by (auto split: sum.splits)
  obtain ord rows where o1: "cs1 = cs @ [ord]" "order_added db db1 ord rows" "order_inv db1" "built env req market c db1 sg ord"
    using persist_group_step [OF s(1) Cons.prems(2)] Cons.prems(3) by (metis list.set_intros(1))
  obtain new where n: "cs' = cs1 @ new" "dbo_orders db' = dbo_orders db1 @ new" "order_inv db'" "list_all2 (built env req market c db') gs new"
    "dbo_sessions db' = dbo_sessions db1" "dbo_outbox db' = dbo_outbox db1" "dbo_next_order db1 \<le> dbo_next_order db'"
    "\<forall>i < dbo_next_order db1. GetOrderItems db' i = GetOrderItems db1 i" "\<forall>o' \<in> set new. dbo_next_order db1 \<le> or_ID o'"
    using Cons.IH [OF s(2) o1(3)] Cons.prems(3) by (metis list.set_intros(2))
  have a: "or_ID ord = dbo_next_order db" "dbo_next_order db1 = dbo_next_order db + 1" "dbo_orders db1 = dbo_orders db @ [ord]"
    "dbo_sessions db1 = dbo_sessions db" "dbo_outbox db1 = dbo_outbox db"
    using o1(2) by (simp_all add: order_added_def)
  have "built env req market c db' sg ord" using o1(4) n(8) a(1,2) by (simp add: built_def)
  moreover have "GetOrderItems db' i = GetOrderItems db i" if "i < dbo_next_order db" for i
    using that n(8) a(2) order_added_items(2) [OF o1(2) Cons.prems(2) that] by simp
  ultimately show ?case using n a o1(1) by (intro exI [of _ "ord # new"]) fastforce
qed


definition coupon_rate :: "order_env \<Rightarrow> initiate_request \<Rightarrow> resolved_line list \<Rightarrow> order_db \<Rightarrow> int" where
  "coupon_rate env req lines db = fst (resolveCouponForCharge (oe_coupon_ok env) (oe_now env) db (iq_CouponCode req)
     (if iq_Market req = [] then oe_defaultMarket env else iq_Market req) (basketSubtotal lines))"

text \<open>The orders split the cart: one per seller, with exactly that seller's lines, for exactly the amount of the session.\<close>

definition splits_cart :: "int \<Rightarrow> resolved_line list \<Rightarrow> order_db \<Rightarrow> order list \<Rightarrow> int \<Rightarrow> bool" where
  "splits_cart p lines db created amount \<longleftrightarrow>
     distinct (map or_SellerID created) \<and> or_SellerID ` set created = (\<lambda>ln. va_SellerID (ln_v ln)) ` set lines \<and>
     (\<forall>ord \<in> set created. ord \<in> set (dbo_orders db) \<and> or_Status ord = StatusPendingPayment \<and>
        or_TotalMinor ord = sum64 (line_gross p) (own_lines lines (or_SellerID ord)) \<and>
        map bare (GetOrderItems db (or_ID ord)) = map (line_item p) (own_lines lines (or_SellerID ord))) \<and>
     amount = sum64 (line_gross p) lines \<and> wrap64 (sum_list (map or_TotalMinor created)) = amount"

lemma bare_line_item [simp]: "bare (line_item p ln) = line_item p ln"
  by (simp add: bare_def line_item_def Let_def)

lemma wrap64_sum: "wrap64 (sum_list (map (\<lambda>x. wrap64 (f x)) xs)) = wrap64 (sum_list (map f xs))"
proof (induction xs)
  case (Cons x xs)
  have "wrap64 (wrap64 (f x) + sum_list (map (\<lambda>x. wrap64 (f x)) xs)) = wrap64 (f x + wrap64 (sum_list (map (\<lambda>x. wrap64 (f x)) xs)))" by simp
  then show ?case using Cons by simp
qed simp

lemma built_splits:
  assumes "list_all2 (built env req market c db) gs created" "gs = range_map prio (group_lines p lines)" "set created \<subseteq> set (dbo_orders db)"
  shows "splits_cart p lines db created (sum64 (line_gross p) lines)"
proof -
  have b: "built env req market c db (s, g) ord \<Longrightarrow> (s, g) \<in> set gs \<Longrightarrow> or_SellerID ord = s \<and> or_Status ord = StatusPendingPayment \<and>
      or_TotalMinor ord = sum64 (line_gross p) (own_lines lines s) \<and> map bare (GetOrderItems db (or_ID ord)) = map (line_item p) (own_lines lines s)" for s g ord
  proof -
    assume bu: "built env req market c db (s, g) ord" and m: "(s, g) \<in> set gs"
    have g: "g = group_of p (own_lines lines s)" using m assms(2) by (simp add: group_lines_mem)
    have e: "ord = (group_order env req market c (s, g))\<lparr>or_ID := or_ID ord, or_CreatedAt := oe_now env, or_UpdatedAt := oe_now env\<rparr>"
      "map bare (GetOrderItems db (or_ID ord)) = map bare (sg_items g)" using bu unfolding built_def by auto
    have "or_SellerID ord = s" by (subst e(1)) (simp add: group_order_def)
    moreover have "or_Status ord = StatusPendingPayment" by (subst e(1)) (simp add: group_order_def)
    moreover have "or_TotalMinor ord = wrap64 (sg_subtotal g - sg_discount g)" by (subst e(1)) (simp add: group_order_def)
    ultimately show ?thesis using e(2) by (simp add: g group_of_def charged_total comp_def)
  qed
  have "list_all2 (\<lambda>(s, g) ord. or_SellerID ord = s \<and> or_Status ord = StatusPendingPayment \<and>
      or_TotalMinor ord = sum64 (line_gross p) (own_lines lines s) \<and> map bare (GetOrderItems db (or_ID ord)) = map (line_item p) (own_lines lines s)) gs created"
    by (rule list.rel_mono_strong [OF assms(1)]) (use b in auto)
  then have l: "map or_SellerID created = map fst gs" "\<forall>ord \<in> set created. or_Status ord = StatusPendingPayment \<and>
      or_TotalMinor ord = sum64 (line_gross p) (own_lines lines (or_SellerID ord)) \<and>
      map bare (GetOrderItems db (or_ID ord)) = map (line_item p) (own_lines lines (or_SellerID ord))"
    by (induction rule: list_all2_induct) auto
  have keys: "distinct (map fst gs)" "set (map fst gs) = (\<lambda>ln. va_SellerID (ln_v ln)) ` set lines"
  proof -
    show "distinct (map fst gs)" unfolding assms(2) by (simp add: group_lines_distinct)
    have "s \<in> set (map fst gs) \<longleftrightarrow> own_lines lines s \<noteq> []" for s
      using map_of_eq_None_iff [of "group_lines p lines" s] by (auto simp: assms(2) group_lines_of split: if_splits)
    then show "set (map fst gs) = (\<lambda>ln. va_SellerID (ln_v ln)) ` set lines"
      unfolding set_eq_iff own_lines_def filter_empty_conv by (metis (mono_tags, lifting) image_iff)
  qed
  have "map or_TotalMinor created = map (\<lambda>ord. sum64 (line_gross p) (own_lines lines (or_SellerID ord))) created" using l(2) by simp
  also have "\<dots> = map (\<lambda>s. wrap64 (sum_list (map (line_gross p) (own_lines lines s)))) (map or_SellerID created)" by (simp add: sum64_eq)
  finally have m: "map or_TotalMinor created = map (\<lambda>s. wrap64 (sum_list (map (line_gross p) (own_lines lines s)))) (map fst gs)"
    by (simp only: l(1))
  have "wrap64 (sum_list (map or_TotalMinor created)) = wrap64 (sum_list (map (\<lambda>s. sum_list (map (line_gross p) (own_lines lines s))) (map fst gs)))"
    by (simp only: m wrap64_sum)
  also have "\<dots> = wrap64 (sum_list (map (line_gross p) lines))"
    using sum_own_lines [OF keys(1), of lines "line_gross p"] keys(2) by (metis imageI)
  finally have "wrap64 (sum_list (map or_TotalMinor created)) = sum64 (line_gross p) lines" by (simp only: sum64_eq)
  moreover have "distinct (map or_SellerID created)" "or_SellerID ` set created = (\<lambda>ln. va_SellerID (ln_v ln)) ` set lines"
    using keys l(1) by (metis, metis list.set_map)
  ultimately show ?thesis using l(2) assms(3) unfolding splits_cart_def by blast
qed


lemma saga_persist_body:
  assumes "saga_persist env svc req inst lines db = (Inr created, db', amount, cur)"
  obtains market c addr where
    "saga_body env (os_enc svc) req market c addr (range_map (oe_prio env) (group_lines (coupon_rate env req lines db) lines))
       (saga_session env req inst amount cur) db = Inr (created, db')"
    "amount = sum64 (line_gross (coupon_rate env req lines db)) lines"
proof -
  define market where "market = (if iq_Market req = [] then oe_defaultMarket env else iq_Market req)"
  obtain p c where pc: "resolveCouponForCharge (oe_coupon_ok env) (oe_now env) db (iq_CouponCode req) market (basketSubtotal lines) = (p, c)" by fastforce
  define addr where "addr = (case os_address svc of None \<Rightarrow> None
      | Some resolve \<Rightarrow> if iq_AddressID req = 0 then None else resolve (iq_UserID req) (iq_AddressID req))"
  define gs where "gs = range_map (oe_prio env) (group_lines p lines)"
  define session where "session = saga_session env req inst amount cur"
  have p: "coupon_rate env req lines db = p" using pc by (simp add: coupon_rate_def market_def)
  have run: "order_WithTx (oe_outs env) (saga_body env (os_enc svc) req market c addr gs session) db = (Inr created, db')" "amount = sum64 (line_gross p) lines"
    using assms pc by (auto simp: saga_persist_def Let_def market_def [symmetric] addr_def [symmetric] gs_def session_def split: prod.splits)
  from run(1) have "saga_body env (os_enc svc) req market c addr gs session db = Inr (created, db')"
    by (cases rule: order_WithTx_cases) auto
  then show thesis using that run(2) by (simp add: gs_def session_def p)
qed

lemma saga_persist_created:
  assumes "saga_persist env svc req inst lines db = (Inr created, db', amount, cur)" "order_inv db"
  shows "splits_cart (coupon_rate env req lines db) lines db' created amount" "order_inv db'" "dbo_orders db' = dbo_orders db @ created"
    "\<exists>s. dbo_sessions db' = dbo_sessions db @ [s] \<and> se_ID s = iq_SessionID req \<and> se_OrderIDs s = map or_ID created \<and>
       se_AmountMinor s = amount \<and> se_Status s = CheckoutSessionPending"
    "dbo_outbox db' = dbo_outbox db"
proof -
  define p where "p = coupon_rate env req lines db"
  define gs where "gs = range_map (oe_prio env) (group_lines p lines)"
  define session where "session = saga_session env req inst amount cur"
  obtain market c addr where "saga_body env (os_enc svc) req market c addr gs session db = Inr (created, db')" and run: "amount = sum64 (line_gross p) lines"
    using saga_persist_body [OF assms(1)] unfolding gs_def session_def p_def by blast
  then obtain db1 row where b: "for_each (persist_group env (os_enc svc) req market c addr) gs ([], db) = Inr (created, db1)"
    "InsertCheckoutSession (session\<lparr>se_OrderIDs := map or_ID created\<rparr>) db1 = Inr (row, db')"
    by (auto simp: saga_body_def split: sum.splits prod.splits)
  have pr: "priced (group_order env req market c sg) (sg_items (snd sg))" if "sg \<in> set gs" for sg
    using that priced_group [of "fst sg" "snd sg" p lines] by (simp add: gs_def)
  have new: "dbo_orders db1 = dbo_orders db @ created" "order_inv db1" "list_all2 (built env req market c db1) gs created"
    "dbo_sessions db1 = dbo_sessions db" "dbo_outbox db1 = dbo_outbox db"
    using persist_all [OF b(1) assms(2) pr] by auto
  note same = session_same [OF b(2)]
  show "order_inv db'" using new(2) same_orders_inv [of db1 db'] same by blast
  show "dbo_orders db' = dbo_orders db @ created" "dbo_outbox db' = dbo_outbox db"
    using new same by (auto simp: same_orders_def)
  have "splits_cart p lines db1 created amount" unfolding run
    by (rule built_splits [OF new(3) gs_def]) (use new(1) in auto)
  then show "splits_cart (coupon_rate env req lines db) lines db' created amount"
    using same by (simp add: p_def splits_cart_def same_orders_def GetOrderItems_def)
  have "row = session\<lparr>se_OrderIDs := map or_ID created\<rparr> \<or> row = session\<lparr>se_OrderIDs := map or_ID created, se_Installments := 1\<rparr>"
    using same by (auto split: if_splits)
  then show "\<exists>s. dbo_sessions db' = dbo_sessions db @ [s] \<and> se_ID s = iq_SessionID req \<and> se_OrderIDs s = map or_ID created \<and>
       se_AmountMinor s = amount \<and> se_Status s = CheckoutSessionPending"
    using same new(4) by (auto simp: session_def saga_session_def)
qed

lemma saga_persist_failed: "saga_persist env svc req inst lines db = (Inl e, db', x) \<Longrightarrow> db' = db"
  by (auto simp: saga_persist_def Let_def split: prod.splits elim!: order_WithTx_cases)

lemma cancel_all_inv: "order_inv db \<Longrightarrow> order_inv (cancel_all env oids db)"
  by (induction env oids db rule: cancel_all.induct) (auto intro!: tx_inv dest: repo_UpdateStatus_inv)

lemma resolve_lines_ne: "resolve_lines cat market cart = Inr lines \<Longrightarrow> cart \<noteq> [] \<Longrightarrow> lines \<noteq> []"
  by (cases cart) (auto simp: Let_def split: option.splits sum.splits)

lemma InitiateCheckout_cases:
  assumes "InitiateCheckout env svc req db r = (res, db', r')"
  obtains (rejected) e where "res = Inl e" "db' = db"
  | (existing) s where "FindCheckoutSessionByID db (iq_SessionID req) = Inr s" "db' = db"
  | (persisted) psp inst lines created db1 amount cur cart r1 where "os_psp svc = Some psp" "iq_SessionID req \<noteq> []" "lines \<noteq> []"
      "FindCheckoutSessionByID db (iq_SessionID req) = Inl ErrCheckoutSessionNotFound" "NormalizeInstallments (iq_Installments req) = Inr inst"
      "saga_persist env svc req inst lines db = (Inr created, db1, amount, cur)" "saga_pay env psp req inst amount cur created db1 = (res, db')"
      "GetCart (iq_UserID req) r = (Inr cart, r1)"
      "resolve_lines (oe_catalog env) (if iq_Market req = [] then oe_defaultMarket env else iq_Market req) cart = Inr lines"
proof (cases "os_disk_panic svc \<or> os_psp svc = None \<or> iq_SessionID req = [] \<or> \<not> os_session_repo svc")
  case True
  then show ?thesis using assms rejected by (auto simp: InitiateCheckout_def split: if_splits option.splits)
next
  case False
  then obtain psp where psp: "os_psp svc = Some psp" "\<not> os_disk_panic svc" "iq_SessionID req \<noteq> []" "os_session_repo svc" by auto
  show ?thesis
  proof (cases "NormalizeInstallments (iq_Installments req)")
    case (Inl e)
    then show ?thesis using assms psp rejected by (auto simp: InitiateCheckout_def)
  next
    case inst: (Inr inst)
    show ?thesis
    proof (cases "oe_find_ok env")
      case False
      then show ?thesis using assms psp inst rejected by (auto simp: InitiateCheckout_def)
    next
      case ok: True
      show ?thesis
      proof (cases "FindCheckoutSessionByID db (iq_SessionID req)")
        case (Inr s)
        then have "snd (InitiateCheckout env svc req db r) = (db, r)" using psp inst ok by (simp add: InitiateCheckout_def)
        then show ?thesis using existing [OF Inr] assms by simp
      next
        case nf: (Inl e0)
        then have nf': "FindCheckoutSessionByID db (iq_SessionID req) = Inl ErrCheckoutSessionNotFound"
          by (auto simp: FindCheckoutSessionByID_def split: option.splits)
        obtain cres r1 where cart: "GetCart (iq_UserID req) r = (cres, r1)" by fastforce
        show ?thesis
        proof (cases "\<exists>cart lines. cres = Inr cart \<and> cart \<noteq> [] \<and>
            resolve_lines (oe_catalog env) (if iq_Market req = [] then oe_defaultMarket env else iq_Market req) cart = Inr lines")
          case False
          then show ?thesis using assms psp inst ok nf cart rejected
            by (auto simp: InitiateCheckout_def split: sum.splits if_splits)
        next
          case True
          then obtain cart lines where c: "cres = Inr cart" "cart \<noteq> []"
            "resolve_lines (oe_catalog env) (if iq_Market req = [] then oe_defaultMarket env else iq_Market req) cart = Inr lines" by blast
          obtain pr db1 amount cur where s: "saga_persist env svc req inst lines db = (pr, db1, amount, cur)" by (metis prod_cases4)
          have run: "(res, db') = (case pr of Inl e \<Rightarrow> (Inl e, db1) | Inr created \<Rightarrow> saga_pay env psp req inst amount cur created db1)"
            using assms psp inst ok nf cart c s by (auto simp: InitiateCheckout_def split: sum.splits prod.splits)
          show ?thesis
          proof (cases pr)
            case (Inl e)
            then show ?thesis using run s saga_persist_failed [of env svc req inst lines db] rejected by auto
          next
            case (Inr created)
            then show ?thesis
              using run s cart c(1,3) persisted [OF psp(1,3) resolve_lines_ne [OF c(3,2)] nf' inst, of created db1 amount cur cart r1] by simp
          qed
        qed
      qed
    qed
  qed
qed

lemma saga_pay_inv: "saga_pay env psp req inst amount cur created db = (res, db') \<Longrightarrow> order_inv db \<Longrightarrow> order_inv db'"
  using same_orders_inv [OF UpdateCheckoutSession_same] cancel_all_inv by (auto simp: saga_pay_def split: sum.splits)

lemma InitiateCheckout_inv:
  assumes "InitiateCheckout env svc req db r = (res, db', r')" "order_inv db"
  shows "order_inv db'"
  using assms(1)
proof (cases rule: InitiateCheckout_cases)
  case (persisted psp inst lines created db1 amount cur)
  then show ?thesis using saga_pay_inv saga_persist_created(2) [OF persisted(6) assms(2)] by blast
qed (use assms in simp_all)


section \<open>The order service as a state machine\<close>

inductive order_step :: "order_db \<Rightarrow> order_db \<Rightarrow> bool" where
  "Checkout env req db r = (res, db', r') \<Longrightarrow> order_step db db'"
| "InitiateCheckout env svc ireq db r = (ires, db', r') \<Longrightarrow> order_step db db'"
| "UpdateStatus env i st db = (e, db') \<Longrightarrow> order_step db db'"
| "CancelOrder env i db = (e, db') \<Longrightarrow> order_step db db'"
| "MarkPaid env i db = (e, db') \<Longrightarrow> order_step db db'"
| "MarkDelivered env product i t db = (e, db') \<Longrightarrow> order_step db db'"
| "captureFinalizer ok envs ref db r = (db', r') \<Longrightarrow> order_step db db'"

lemma order_step_inv: "order_step db db' \<Longrightarrow> order_inv db \<Longrightarrow> order_inv db'"
proof (induction rule: order_step.induct)
  case (1 env req db r res db' r')
  then show ?case by (rule Checkout_inv)
next
  case (2 env svc req db r res db' r')
  then show ?case by (rule InitiateCheckout_inv)
qed (metis UpdateStatus_inv CancelOrder_inv MarkPaid_inv MarkDelivered_inv captureFinalizer_inv fst_conv snd_conv)+

lemma orders_reachable_inv: "order_step\<^sup>*\<^sup>* db db' \<Longrightarrow> order_inv db \<Longrightarrow> order_inv db'"
  by (induction rule: rtranclp_induct) (auto intro: order_step_inv)

section \<open>Properties\<close>

text \<open>
  C6. The books of an order always add up. In every state the order service can reach, every order
  charges exactly the sum of its items (quantity times the charged unit price) and exactly its subtotal minus
  its discount, no amount is negative, and every item is split without remainder into commission, tax on the
  commission and the seller's net. All sums are those of 64-bit integers.
\<close>

theorem orders_consistent:
  assumes "order_inv db" "order_step\<^sup>*\<^sup>* db db'" "ord \<in> set (dbo_orders db')"
  shows "or_TotalMinor ord = sum64 item_charge (GetOrderItems db' (or_ID ord)) \<and>
    or_TotalMinor ord = wrap64 (or_SubtotalMinor ord - or_DiscountMinor ord) \<and>
    0 \<le> or_TotalMinor ord \<and> 0 \<le> or_SubtotalMinor ord \<and> 0 \<le> or_DiscountMinor ord \<and>
    (\<forall>it \<in> set (GetOrderItems db' (or_ID ord)). 0 < oi_Qty it \<and> 0 \<le> oi_CommissionAmountMinor it \<and> 0 \<le> oi_KdvAmountMinor it \<and>
       0 \<le> oi_SellerNetMinor it \<and>
       wrap64 (oi_CommissionAmountMinor it + oi_KdvAmountMinor it + oi_SellerNetMinor it) = wrap64 (oi_UnitPriceMinor it * oi_Qty it))"
  using orders_reachable_inv [OF assms(2,1)] assms(3)
  by (auto simp: order_inv_def order_ok_def item_ok_def item_charge_def GetOrderItems_def)

text \<open>A cart item with the variant and the commission the catalog has for it, at the discounted price.\<close>

definition line_for :: "catalog \<Rightarrow> string \<Rightarrow> cart_item \<Rightarrow> resolved_line \<Rightarrow> bool" where
  "line_for cat market ci ln \<longleftrightarrow>
     ln_ci ln = ci \<and> ca_GetVariantByID cat (ct_VariantID ci) = Some (ln_v ln) \<and>
     ca_GetCommissionForCategory cat market (va_CategoryID (ln_v ln)) = Some (ln_comm ln) \<and>
     ln_basketPct ln = basketPctOf (va_BasketDiscountPct (ln_v ln)) \<and>
     ln_discUnit ln = DiscountedUnitMinor (va_PriceMinor (ln_v ln)) (ln_basketPct ln)"

lemma resolve_lines_for: "resolve_lines cat market cart = Inr lines \<Longrightarrow> list_all2 (line_for cat market) cart lines"
  by (induction cart arbitrary: lines) (auto simp: line_for_def Let_def split: option.splits sum.splits)

lemma GetCart_reads: "GetCart userID r = (Inr cart, r1) \<Longrightarrow> mset (map (\<lambda>ci. (ct_VariantID ci, ct_Qty ci)) cart) = mset (cart_of r userID)"
  by (auto simp: GetCart_def GetItems_def redis_cmd_def cart_of_def Let_def comp_def case_prod_unfold multiset.map_comp split: if_splits)

lemma mset_filter_disj: "(\<And>x. \<not> (P x \<and> Q x)) \<Longrightarrow> mset (filter (\<lambda>x. P x \<or> Q x) xs) = mset (filter P xs) + mset (filter Q xs)"
  by (induction xs) auto

lemma mset_own_lines:
  "distinct ks \<Longrightarrow> mset (concat (map (\<lambda>s. map f (own_lines ls s)) ks)) = mset (map f (filter (\<lambda>ln. va_SellerID (ln_v ln) \<in> set ks) ls))"
proof (induction ks)
  case (Cons k ks)
  have "mset (filter (\<lambda>ln. va_SellerID (ln_v ln) = k \<or> va_SellerID (ln_v ln) \<in> set ks) ls) =
      mset (own_lines ls k) + mset (filter (\<lambda>ln. va_SellerID (ln_v ln) \<in> set ks) ls)"
    unfolding own_lines_def by (rule mset_filter_disj) (use Cons.prems in auto)
  then show ?case using Cons by simp
qed simp

text \<open>What the items of the orders order, altogether.\<close>

definition items_ordered :: "order_db \<Rightarrow> order list \<Rightarrow> (int \<times> int) multiset" where
  "items_ordered db created = mset (concat (map (\<lambda>ord. map (\<lambda>it. (oi_VariantID it, oi_Qty it)) (GetOrderItems db (or_ID ord))) created))"

lemma splits_cart_items:
  assumes "splits_cart p lines db created amount"
  shows "items_ordered db created = mset (map (\<lambda>ln. (ct_VariantID (ln_ci ln), ct_Qty (ln_ci ln))) lines)"
proof -
  let ?f = "\<lambda>ln. (ct_VariantID (ln_ci ln), ct_Qty (ln_ci ln))" and ?g = "\<lambda>it. (oi_VariantID it, oi_Qty it)"
  have "map ?g (GetOrderItems db (or_ID ord)) = map ?f (own_lines lines (or_SellerID ord))" if "ord \<in> set created" for ord
  proof -
    have "map ?g (map bare (GetOrderItems db (or_ID ord))) = map ?g (map (line_item p) (own_lines lines (or_SellerID ord)))"
      using assms that by (simp add: splits_cart_def)
    then show ?thesis by (simp add: comp_def bare_def line_item_def Let_def)
  qed
  then have "items_ordered db created = mset (concat (map (\<lambda>s. map ?f (own_lines lines s)) (map or_SellerID created)))"
    unfolding items_ordered_def by (simp add: comp_def cong: map_cong)
  also have "\<dots> = mset (map ?f (filter (\<lambda>ln. va_SellerID (ln_v ln) \<in> set (map or_SellerID created)) lines))"
    by (rule mset_own_lines) (use assms in \<open>simp add: splits_cart_def\<close>)
  also have "filter (\<lambda>ln. va_SellerID (ln_v ln) \<in> set (map or_SellerID created)) lines = lines"
    using assms by (auto simp: splits_cart_def filter_id_conv)
  finally show ?thesis .
qed

text \<open>
  C7. The checkout saga splits a cart without loss. When a new session succeeds, what its orders order is the user's cart as it
  is in Redis: the same variants in the same quantities. The lines are the cart's items, each with the variant and the commission of
  the catalog; there is one pending order per seller of these lines and no other, each with exactly that seller's lines at the charged prices, and
  the totals of the orders add up to the amount stored in the session and asked of the payment provider.
\<close>

theorem saga_splits_cart:
  assumes "order_inv db" "InitiateCheckout env svc req db r = (Inr resp, db', r')"
    and "FindCheckoutSessionByID db (iq_SessionID req) = Inl ErrCheckoutSessionNotFound"
  shows "items_ordered db' (ir_Orders resp) = mset (cart_of r (iq_UserID req)) \<and>
    (\<exists>cart lines amount s psp q ref. mset (map (\<lambda>ci. (ct_VariantID ci, ct_Qty ci)) cart) = mset (cart_of r (iq_UserID req)) \<and>
      list_all2 (line_for (oe_catalog env) (if iq_Market req = [] then oe_defaultMarket env else iq_Market req)) cart lines \<and>
      splits_cart (coupon_rate env req lines db) lines db' (ir_Orders resp) amount \<and>
      dbo_orders db' = dbo_orders db @ ir_Orders resp \<and>
      s \<in> set (dbo_sessions db') \<and> se_ID s = iq_SessionID req \<and> se_OrderIDs s = map or_ID (ir_Orders resp) \<and> se_AmountMinor s = amount \<and>
      os_psp svc = Some psp \<and> psp q = Inr ref \<and> pq_AmountMinor q = amount \<and> pq_IdempotencyKey q = iq_SessionID req)"
  using assms(2)
proof (cases rule: InitiateCheckout_cases)
  case (persisted psp inst lines created db1 amount cur cart r1)
  note new = saga_persist_created [OF persisted(6) assms(1)]
  obtain s where s: "dbo_sessions db1 = dbo_sessions db @ [s]" "se_ID s = iq_SessionID req" "se_OrderIDs s = map or_ID created" "se_AmountMinor s = amount"
    using new(4) by blast
  define q where "q = \<lparr>pq_OrderID = (case created of [] \<Rightarrow> 0 | ord # _ \<Rightarrow> or_ID ord), pq_AmountMinor = amount, pq_Currency = cur,
      pq_IdempotencyKey = iq_SessionID req, pq_Installments = inst\<rparr>"
  obtain ref where ref: "psp q = Inr ref" "ir_Orders resp = created"
      "db' = snd (UpdateCheckoutSession (oe_update_ok env) (iq_SessionID req) CheckoutSessionPSPInitiated ref db1)"
    using persisted(7) by (auto simp: saga_pay_def q_def split: sum.splits)
  have same: "same_orders db1 db'" unfolding ref(3) by (rule UpdateCheckoutSession_same)
  have se: "\<exists>s' \<in> set (dbo_sessions db'). se_ID s' = iq_SessionID req \<and> se_OrderIDs s' = map or_ID created \<and> se_AmountMinor s' = amount"
    unfolding ref(3) UpdateCheckoutSession_def using s by (auto simp: set_update_where)
  have split: "splits_cart (coupon_rate env req lines db) lines db' created amount"
    using new(1) same by (simp add: splits_cart_def same_orders_def GetOrderItems_def)
  have app: "dbo_orders db' = dbo_orders db @ created" using new(3) same by (simp add: same_orders_def)
  have q: "pq_AmountMinor q = amount" "pq_IdempotencyKey q = iq_SessionID req" by (simp_all add: q_def)
  note lines = resolve_lines_for [OF persisted(9)] and read = GetCart_reads [OF persisted(8)]
  have "map (\<lambda>ln. (ct_VariantID (ln_ci ln), ct_Qty (ln_ci ln))) lines = map (\<lambda>ci. (ct_VariantID ci, ct_Qty ci)) cart"
    using lines by (induction rule: list_all2_induct) (simp_all add: line_for_def)
  then have "items_ordered db' created = mset (cart_of r (iq_UserID req))" using splits_cart_items [OF split] read by simp
  then show ?thesis using se split app q lines read persisted(1) ref(1,2) by blast
qed (use assms(3) in simp_all)

text \<open>
  C30. With the deployed schema the saga can never create an order. The orders are inserted before the
  session they refer to, and the foreign key is checked at once: for every new session id, whatever the cart,
  the catalog and the payment provider, the call fails and the database is as it was.
\<close>

theorem deployed_schema_blocks_saga:
  assumes "oe_session_fk env" "FindCheckoutSessionByID db (iq_SessionID req) = Inl ErrCheckoutSessionNotFound"
    and "InitiateCheckout env svc req db r = (res, db', r')"
  shows "db' = db \<and> (\<exists>e. res = Inl e)"
proof -
  have none: "List.find (\<lambda>s. se_ID s = iq_SessionID req) (dbo_sessions db) = None"
    using assms(2) by (auto simp: FindCheckoutSessionByID_def split: option.splits)
  from assms(3) show ?thesis
  proof (cases rule: InitiateCheckout_cases)
    case (persisted psp inst lines created db1 amount cur)
    have g: "group_lines p lines \<noteq> []" for p
      using group_lines_of [of p lines "va_SellerID (ln_v (hd lines))"] persisted(3) by (cases lines) (auto simp: own_lines_def)
    have "\<exists>e. saga_body env enc req market c addr (range_map prio (group_lines p lines)) session db = Inl e" for enc market c addr prio p session
    proof -
      obtain sg gs where r: "range_map prio (group_lines p lines) = sg # gs" using g [of p] by (metis neq_Nil_conv range_map_Nil)
      have "\<exists>e. persist_group env enc req market c addr sg ([], db) = Inl e"
        using assms(1) persisted(2) none by (auto simp: persist_group_def InsertOrder_def group_order_def Let_def split: prod.splits)
      then show ?thesis unfolding r saga_body_def by auto
    qed
    then show ?thesis using saga_persist_body [OF persisted(6)] by (metis Inl_Inr_False)
  qed (use assms(2) in simp_all)
qed

lemma cancel_all_quiet:
  assumes "\<forall>i. oe_cancel_outs env i = []" "set oids \<subseteq> or_ID ` set (dbo_orders db)"
  shows "cancel_all env oids db = db\<lparr>dbo_orders :=
    update_where (\<lambda>r. or_ID r \<in> set oids) (\<lambda>r. r\<lparr>or_Status := StatusCancelled, or_UpdatedAt := oe_now env\<rparr>) (dbo_orders db)\<rparr>"
  using assms(2)
proof (induction oids arbitrary: db)
  case Nil
  then show ?case by (simp add: update_where_none)
next
  case (Cons i oids)
  define f where "f = (\<lambda>r :: order. r\<lparr>or_Status := StatusCancelled, or_UpdatedAt := oe_now env\<rparr>)"
  define db1 where "db1 = db\<lparr>dbo_orders := update_where (\<lambda>r. or_ID r = i) f (dbo_orders db)\<rparr>"
  have "rows_affected (\<lambda>r. or_ID r = i) (dbo_orders db) \<noteq> 0"
    using Cons.prems by (auto simp: rows_affected_def filter_empty_conv)
  then have "order_WithTx (oe_cancel_outs env i) (repo_UpdateStatus i StatusCancelled (oe_now env)) db = (Inr (), db1)"
    using assms(1) by (simp add: order_WithTx_quiet repo_UpdateStatus_def db1_def f_def)
  then have "cancel_all env (i # oids) db = cancel_all env oids db1" by simp
  moreover have "or_ID ` set (dbo_orders db1) = or_ID ` set (dbo_orders db)"
  proof -
    have "map or_ID (dbo_orders db1) = map or_ID (dbo_orders db)" by (simp add: db1_def f_def map_update_where)
    then show ?thesis by (metis list.set_map)
  qed
  moreover have "update_where (\<lambda>r. or_ID r \<in> set oids) f (update_where (\<lambda>r. or_ID r = i) f rs) = update_where (\<lambda>r. or_ID r \<in> set (i # oids)) f rs" for rs
    by (auto simp: update_where_def f_def)
  ultimately show ?case using Cons.IH [of db1] Cons.prems by (simp add: db1_def f_def)
qed

text \<open>
  A payment that cannot be initiated leaves nothing to pay. When the provider refuses and the
  compensating transactions commit, the saga returns an error; every order it has created is cancelled, every
  other order is untouched, the session is marked failed and no event is emitted.
\<close>

theorem saga_compensates:
  assumes "order_inv db" "os_psp svc = Some psp" "\<forall>q. \<exists>e. psp q = Inl e" "\<forall>i. oe_cancel_outs env i = []" "oe_update_ok env"
    and "FindCheckoutSessionByID db (iq_SessionID req) = Inl ErrCheckoutSessionNotFound"
    and "InitiateCheckout env svc req db r = (res, db', r')"
  shows "(\<exists>e. res = Inl e) \<and> dbo_outbox db' = dbo_outbox db \<and>
    (\<exists>new. dbo_orders db' = dbo_orders db @ new \<and> (\<forall>ord \<in> set new. or_Status ord = StatusCancelled)) \<and>
    (\<forall>s \<in> set (dbo_sessions db'). se_ID s = iq_SessionID req \<longrightarrow> se_Status s = CheckoutSessionFailed)"
  using assms(7)
proof (cases rule: InitiateCheckout_cases)
  case (rejected e)
  have "\<forall>s \<in> set (dbo_sessions db). se_ID s \<noteq> iq_SessionID req"
    using assms(6) by (auto simp: FindCheckoutSessionByID_def find_None_iff2 split: option.splits)
  then show ?thesis using rejected by auto
next
  case (persisted psp' inst lines created db1 amount cur)
  note new = saga_persist_created [OF persisted(6) assms(1)]
  define f where "f = (\<lambda>r :: order. r\<lparr>or_Status := StatusCancelled, or_UpdatedAt := oe_now env\<rparr>)"
  have ids: "set (map or_ID created) \<subseteq> or_ID ` set (dbo_orders db1)" using new(3) by auto
  define db2 where "db2 = cancel_all env (map or_ID created) db1"
  have db2: "db2 = db1\<lparr>dbo_orders := update_where (\<lambda>r. or_ID r \<in> set (map or_ID created)) f (dbo_orders db1)\<rparr>"
    using cancel_all_quiet [OF assms(4) ids] by (simp add: db2_def f_def)
  have out: "res = Inl OrdPsp" "db' = snd (UpdateCheckoutSession True (iq_SessionID req) CheckoutSessionFailed [] db2)"
    using persisted(1,7) assms(2,3,5) by (auto simp: saga_pay_def db2_def split: sum.splits) (metis Inl_Inr_False)+
  have same: "same_orders db2 db'" unfolding out(2) by (rule UpdateCheckoutSession_same)
  have "fresh_ids or_ID (dbo_next_order db1) (dbo_orders db @ created)" using new(2,3) by (simp add: order_inv_def)
  then have "or_ID q \<notin> set (map or_ID created)" if "q \<in> set (dbo_orders db)" for q
    using that by (auto simp: fresh_ids_def)
  then have "update_where (\<lambda>r. or_ID r \<in> set (map or_ID created)) f (dbo_orders db @ created) = dbo_orders db @ map f created"
    by (auto simp: update_where_def intro!: map_idI)
  then have "dbo_orders db' = dbo_orders db @ map f created" using same new(3) by (simp add: same_orders_def db2)
  moreover have "\<forall>ord \<in> set (map f created). or_Status ord = StatusCancelled" by (simp add: f_def)
  moreover have "dbo_outbox db' = dbo_outbox db" using new(5) by (simp add: out(2) UpdateCheckoutSession_def db2)
  moreover have "se_Status s = CheckoutSessionFailed" if "s \<in> set (dbo_sessions db')" "se_ID s = iq_SessionID req" for s
    using that unfolding out(2) UpdateCheckoutSession_def by (auto simp: set_update_where rows_affected_def filter_empty_conv split: if_splits)
  ultimately show ?thesis using out(1) by blast
qed (use assms(6) in simp)

section \<open>Status changes\<close>

text \<open>The specification: a status stays, or moves along one allowed transition.\<close>

definition status_move :: "order_status \<Rightarrow> order_status \<Rightarrow> bool" where
  "status_move st st' \<longleftrightarrow> st' = st \<or> st' \<in> set (validTransitions st)"

text \<open>A database refines the machine when every order it had is still there and has moved by it.\<close>

definition moves :: "order_db \<Rightarrow> order_db \<Rightarrow> bool" where
  "moves db db' \<longleftrightarrow> list_all2 (\<lambda>r r'. or_ID r' = or_ID r \<and> or_TotalMinor r' = or_TotalMinor r \<and> status_move (or_Status r) (or_Status r')) (dbo_orders db) (dbo_orders db')"

lemma moves_refl: "dbo_orders db' = dbo_orders db \<Longrightarrow> moves db db'"
  by (simp add: moves_def status_move_def list_all2_same)

lemma moves_update:
  assumes "order_inv db" "repo_GetOrder db i = Inr (ord, its)" "st \<in> set (validTransitions (or_Status ord))" "repo_UpdateStatus i st t db = Inr (x, db')"
  shows "moves db db'"
proof -
  have o: "ord \<in> set (dbo_orders db)" "or_ID ord = i"
    using assms(2) by (auto simp: repo_GetOrder_def split: option.splits dest!: find_SomeD)
  have "r = ord" if "r \<in> set (dbo_orders db)" "or_ID r = i" for r
    using that o assms(1) by (auto simp: order_inv_def fresh_ids_def distinct_map dest: inj_onD)
  then have "status_move (or_Status r) st" if "r \<in> set (dbo_orders db)" "or_ID r = i" for r
    using that assms(3) by (auto simp: status_move_def)
  then show ?thesis using assms(4)
    by (auto simp: repo_UpdateStatus_def moves_def update_where_def list_all2_map2 list_all2_same status_move_def split: if_splits)
qed

lemma CancelOrder_moves:
  assumes "order_inv db"
  shows "moves db (snd (CancelOrder env i db))"
proof -
  have "moves db (snd (UpdateStatus env i StatusCancelled db))"
    if "repo_GetOrder db i = Inr (ord, its)" "or_Status ord = StatusPendingPayment \<or> or_Status ord = StatusPaid" for ord its
  proof (cases "order_WithTx (oe_outs env) (repo_UpdateStatus i StatusCancelled (oe_now env)) db")
    case (Pair res db1)
    from this show ?thesis
    proof (cases rule: order_WithTx_cases)
      case (commit a)
      then show ?thesis
        using moves_update [OF assms that(1), of StatusCancelled "oe_now env" a db1] that(2) Pair by (auto simp: UpdateStatus_eq validTransitions_def)
    qed (use Pair in \<open>simp add: UpdateStatus_eq moves_refl\<close>)
  qed
  then show ?thesis by (auto simp: CancelOrder_def moves_refl split: sum.split)
qed

lemma MarkPaid_moves:
  assumes "order_inv db"
  shows "moves db (snd (MarkPaid env i db))"
proof (cases "repo_GetOrder db i")
  case (Inr x)
  obtain ord its where x: "x = (ord, its)" by fastforce
  show ?thesis
  proof (cases "or_Status ord = StatusPaid \<or> ValidTransition (or_Status ord) StatusPaid \<noteq> None")
    case True
    then show ?thesis using Inr x by (auto simp: MarkPaid_def moves_refl)
  next
    case False
    then have v: "StatusPaid \<in> set (validTransitions (or_Status ord))" by (auto simp: ValidTransition_def split: if_splits)
    define row where "row = order_outbox_row ''ecom.order.paid.v1'' (buildPaidPayload ord its (oe_now env)) (paid_event_key i) ord"
    obtain res db1 where tx: "order_WithTx (oe_outs env) (\<lambda>tx. with_outbox env row (repo_UpdateStatus i StatusPaid (oe_now env) tx)) db = (res, db1)" by fastforce
    have run: "snd (MarkPaid env i db) = db1" using False Inr x tx by (simp add: MarkPaid_def row_def)
    from tx show ?thesis unfolding run
    proof (cases rule: order_WithTx_cases)
      case (commit a)
      then obtain y db0 ob where "repo_UpdateStatus i StatusPaid (oe_now env) db = Inr (y, db0)" "db1 = db0\<lparr>dbo_outbox := ob\<rparr>"
        using with_outbox_cases by metis
      then show "moves db db1" using moves_update [OF assms Inr [unfolded x] v] by (auto simp: moves_def)
    qed (simp add: moves_refl)
  qed
qed (simp add: MarkPaid_def moves_refl)


text \<open>
  The guarded operations refine the status machine. Cancelling an order and marking it paid, whatever
  its state and whatever the database does, changes no amount, adds and removes no order, and moves every
  status by an allowed transition or not at all.
\<close>

theorem guarded_operations_refine:
  assumes "order_inv db" "CancelOrder env i db = (e, db') \<or> MarkPaid env i db = (e, db')"
  shows "list_all2 (\<lambda>r r'. or_ID r' = or_ID r \<and> or_TotalMinor r' = or_TotalMinor r \<and>
    (or_Status r' = or_Status r \<or> ValidTransition (or_Status r) (or_Status r') = None)) (dbo_orders db) (dbo_orders db')"
proof -
  have "moves db db'" using assms CancelOrder_moves MarkPaid_moves by (metis snd_conv)
  then show ?thesis unfolding moves_def
    by (rule list.rel_mono_strong) (auto simp: status_move_def ValidTransition_def)
qed

section \<open>A shop with two sellers\<close>

definition catalog_ex :: catalog where
  "catalog_ex = \<lparr>ca_GetVariantByID = (\<lambda>v. if v = 1 then Some \<lparr>va_ProductID = 11, va_CategoryID = 5, va_SellerID = 80, va_PriceMinor = 1000,
        va_PriceCurrency = ''TRY'', va_BasketDiscountPct = Some 10\<rparr>
      else if v = 2 then Some \<lparr>va_ProductID = 12, va_CategoryID = 5, va_SellerID = 81, va_PriceMinor = 333,
        va_PriceCurrency = ''TRY'', va_BasketDiscountPct = None\<rparr> else None),
     ca_GetCommissionForCategory = (\<lambda>_ _. Some \<lparr>cm_CommissionPctBps = 1500, cm_KdvPctBps = 2000\<rparr>)\<rparr>"

definition order_env_ex :: "bool \<Rightarrow> order_env" where
  "order_env_ex fk = \<lparr>oe_now = 100, oe_catalog = catalog_ex, oe_defaultMarket = ''TR'', oe_cashbackCurrency = ''TRY_COIN'', oe_session_fk = fk,
     oe_find_ok = True, oe_items_ok = True, oe_coupon_ok = (True, True), oe_outs = [], oe_prio = (\<lambda>s. - s), oe_cancel_outs = (\<lambda>_. []),
     oe_update_ok = True\<rparr>"

definition order_db_ex :: order_db where
  "order_db_ex = \<lparr>dbo_orders = [], dbo_next_order = 1, dbo_items = [], dbo_next_item = 1, dbo_sessions = [], dbo_coupons = [coupon_ex\<lparr>cpn_PercentOff := 10\<rparr>],
     dbo_redemptions = [], dbo_addresses = [], dbo_outbox = \<lparr>ob_rows = [], ob_next = 1\<rparr>\<rparr>"

definition initiate_ex :: initiate_request where
  "initiate_ex = \<lparr>iq_UserID = 70, iq_ReservationID = [], iq_Market = [], iq_Currency = [], iq_SessionID = ''s1'', iq_AddressID = 0,
     iq_CouponCode = '' one '', iq_Installments = 3\<rparr>"

definition svc_ex :: "bool \<Rightarrow> order_svc" where
  "svc_ex pays = \<lparr>os_disk_panic = False, os_psp = Some (\<lambda>q. if pays then Inr ''ref'' else Inl OrdPsp), os_session_repo = True, os_address = None,
     os_enc = Some\<rparr>"

lemma order_db_ex_inv: "order_inv order_db_ex"
  by (simp add: order_inv_def order_db_ex_def fresh_ids_def)

definition saga_ex :: "bool \<Rightarrow> bool \<Rightarrow> (order_error + initiate_response) \<times> order_db \<times> redis" where
  "saga_ex fk pays = InitiateCheckout (order_env_ex fk) (svc_ex pays) initiate_ex order_db_ex shop_ex"

lemma saga_ex_eval:
  "(case saga_ex False True of (res, db, r) \<Rightarrow> (map_sum (\<lambda>e. True) (\<lambda>resp. map (\<lambda>ord. (or_SellerID ord, or_TotalMinor ord, or_CouponDiscountMinor ord)) (ir_Orders resp)) res,
      map (\<lambda>s. (se_OrderIDs s, se_AmountMinor s, se_Installments s)) (dbo_sessions db), length (dbo_redemptions db), length (dbo_orders db))) =
    (Inr [(81, 300, 33), (80, 1620, 180)], [([1, 2], 1920, 3)], 2, 2)"
  by code_simp

lemma saga_ex_found: "FindCheckoutSessionByID order_db_ex (iq_SessionID initiate_ex) = Inl ErrCheckoutSessionNotFound"
  by code_simp


theorem orders_consistent_witness:
  "or_TotalMinor (hd (dbo_orders (fst (snd (saga_ex False True))))) =
     sum64 item_charge (GetOrderItems (fst (snd (saga_ex False True))) (or_ID (hd (dbo_orders (fst (snd (saga_ex False True)))))))"
proof -
  obtain res db r where s: "saga_ex False True = (res, db, r)" by (metis prod_cases3)
  have "length (dbo_orders db) = 2" using saga_ex_eval s by simp
  then have "hd (dbo_orders db) \<in> set (dbo_orders db)" by (intro list.set_sel) auto
  moreover have "order_step\<^sup>*\<^sup>* order_db_ex db" using order_step.intros(2) [OF s [unfolded saga_ex_def]] by blast
  ultimately show ?thesis using orders_consistent [OF order_db_ex_inv, of db "hd (dbo_orders db)"] s by simp
qed


theorem saga_splits_cart_witness:
  "\<exists>resp db r. saga_ex False True = (Inr resp, db, r) \<and> or_SellerID ` set (ir_Orders resp) = {80, 81} \<and>
     wrap64 (sum_list (map or_TotalMinor (ir_Orders resp))) = 1920"
proof -
  obtain res db r where s: "saga_ex False True = (res, db, r)" by (metis prod_cases3)
  obtain resp where resp: "res = Inr resp"
    "map (\<lambda>ord. (or_SellerID ord, or_TotalMinor ord, or_CouponDiscountMinor ord)) (ir_Orders resp) = [(81, 300, 33), (80, 1620, 180)]"
    "map (\<lambda>s. (se_OrderIDs s, se_AmountMinor s, se_Installments s)) (dbo_sessions db) = [([1, 2], 1920, 3)]"
    using saga_ex_eval s by (cases res) auto
  obtain lines amount se where w: "splits_cart (coupon_rate (order_env_ex False) initiate_ex lines order_db_ex) lines db (ir_Orders resp) amount"
      "se \<in> set (dbo_sessions db)" "se_AmountMinor se = amount"
    using conjunct2 [OF saga_splits_cart [OF order_db_ex_inv s [unfolded saga_ex_def resp(1)] saga_ex_found]] by blast
  have "amount = 1920" using w(2,3) resp(3) by (auto simp: map_eq_Cons_conv)
  moreover have "or_SellerID ` set (ir_Orders resp) = {80, 81}" using resp(2) by (auto simp: map_eq_Cons_conv)
  ultimately show ?thesis using s resp(1) w(1) by (auto simp: splits_cart_def)
qed

theorem deployed_schema_blocks_saga_witness: "fst (snd (saga_ex True True)) = order_db_ex"
proof -
  obtain res db r where s: "saga_ex True True = (res, db, r)" by (metis prod_cases3)
  show ?thesis
    using deployed_schema_blocks_saga [OF _ saga_ex_found s [unfolded saga_ex_def]] s by (simp add: order_env_ex_def)
qed

theorem saga_compensates_witness:
  "\<exists>e db r. saga_ex False False = (Inl e, db, r) \<and> (\<forall>ord \<in> set (dbo_orders db). or_Status ord = StatusCancelled)"
proof -
  obtain res db r where s: "saga_ex False False = (res, db, r)" by (metis prod_cases3)
  have "os_psp (svc_ex False) = Some (\<lambda>q. Inl OrdPsp)" by (simp add: svc_ex_def)
  from saga_compensates [OF order_db_ex_inv this _ _ _ saga_ex_found s [unfolded saga_ex_def]] show ?thesis
    using s by (auto simp: order_env_ex_def order_db_ex_def)
qed

theorem guarded_operations_refine_witness:
  "length (dbo_orders (snd (MarkPaid (order_env_ex False) 1 (fst (snd (saga_ex False True)))))) = 2"
proof -
  obtain res db r where s: "saga_ex False True = (res, db, r)" by (metis prod_cases3)
  obtain e db' where m: "MarkPaid (order_env_ex False) 1 db = (e, db')" by fastforce
  have "order_inv db" using InitiateCheckout_inv [OF s [unfolded saga_ex_def] order_db_ex_inv] .
  moreover have "length (dbo_orders db) = 2" using saga_ex_eval s by simp
  ultimately show ?thesis
    using guarded_operations_refine [of db "order_env_ex False" 1 e db'] m s by (auto dest: list_all2_lengthD)
qed

text \<open>
  A coupon that may be redeemed once is redeemed twice by one checkout: each seller's order records a
  redemption, and the limit is compared with the count before the first of them.
\<close>

lemma coupon_limit_exceeded:
  "cpn_MaxRedemptions (hd (dbo_coupons order_db_ex)) = Some 1 \<and> length (dbo_redemptions (fst (snd (saga_ex False True)))) = 2"
  using saga_ex_eval by (auto simp: order_db_ex_def coupon_ex_def split: prod.splits)

end
