(* ===== verification/CheckoutPaths.thy ===== *)
theory CheckoutPaths
  imports Orders
begin

text \<open>
  The code prices a cart in two places: \<^verbatim>\<open>Checkout\<close> of \<^verbatim>\<open>internal/order/service.go\<close> makes one order of it, the saga of
  \<^verbatim>\<open>internal/order/saga.go\<close> repeats the arithmetic per seller. Here the two are shown to charge the same.
\<close>

lemma group_lines_keys: "set (map fst (group_lines p lines)) = (\<lambda>ln. va_SellerID (ln_v ln)) ` set lines"
proof -
  have "s \<in> set (map fst (group_lines p lines)) \<longleftrightarrow> own_lines lines s \<noteq> []" for s
    using map_of_eq_None_iff [of "group_lines p lines" s] by (auto simp: group_lines_of split: if_splits)
  then show ?thesis unfolding set_eq_iff own_lines_def filter_empty_conv by (metis (mono_tags, lifting) image_iff)
qed

lemma map_group_lines:
  "map F (group_lines p lines) = map (\<lambda>s. F (s, group_of p (own_lines lines s))) (map fst (group_lines p lines))"
  by (auto simp: group_lines_mem)

text \<open>A column of the groups adds up to the same column over all lines.\<close>

lemma group_column:
  assumes "\<And>s ls. F (s, group_of p ls) = sum64 f ls"
  shows "wrap64 (sum_list (map F (group_lines p lines))) = sum64 f lines"
proof -
  let ?ks = "map fst (group_lines p lines)"
  have "map F (group_lines p lines) = map (\<lambda>s. wrap64 (sum_list (map f (own_lines lines s)))) ?ks"
    by (subst map_group_lines) (simp only: assms sum64_eq)
  then have "wrap64 (sum_list (map F (group_lines p lines))) = wrap64 (sum_list (map (\<lambda>s. sum_list (map f (own_lines lines s))) ?ks))"
    by (simp only: wrap64_sum)
  also have "\<dots> = wrap64 (sum_list (map f lines))"
    using sum_own_lines [of ?ks lines f] group_lines_distinct [of p lines] group_lines_keys [of p lines] by (metis imageI)
  finally show ?thesis by (simp only: sum64_eq)
qed

lemma own_lines_partition:
  assumes "distinct ks" "\<forall>ln \<in> set ls. va_SellerID (ln_v ln) \<in> set ks"
  shows "mset (concat (map (own_lines ls) ks)) = mset ls"
proof (rule multiset_eqI)
  fix x
  have c: "count (mset (own_lines ls s)) x = (if s = va_SellerID (ln_v x) then count (mset ls) x else 0)" for s
    by (auto simp: own_lines_def)
  have "count (mset (concat (map (own_lines ls) ks))) x = sum_list (map (\<lambda>s. count (mset (own_lines ls s)) x) ks)"
    by (induction ks) auto
  also have "\<dots> = (\<Sum>s \<in> set ks. if s = va_SellerID (ln_v x) then count (mset ls) x else 0)"
    using assms(1) by (simp only: c sum_list_distinct_conv_sum_set)
  also have "\<dots> = count (mset ls) x" using assms(2) by (auto simp: not_in_iff)
  finally show "count (mset (concat (map (own_lines ls) ks))) x = count (mset ls) x" .
qed

text \<open>
  C29. The two checkout paths charge the same. For every cart, market and coupon, the per-seller orders of the
  saga together have exactly the items of the single order of \<^verbatim>\<open>Checkout\<close>, and their subtotals, discounts, coupon
  discounts and totals add up to those of the single order.
\<close>

theorem checkout_paths_agree:
  "let gs = group_lines p lines;
       single = checkout_order env creq market cur p c lines;
       parts = map (group_order env ireq market' c) gs in
   mset (concat (map (\<lambda>sg. sg_items (snd sg)) gs)) = mset (map (line_item p) lines) \<and>
   wrap64 (sum_list (map or_SubtotalMinor parts)) = or_SubtotalMinor single \<and>
   wrap64 (sum_list (map or_DiscountMinor parts)) = or_DiscountMinor single \<and>
   wrap64 (sum_list (map or_CouponDiscountMinor parts)) = or_CouponDiscountMinor single \<and>
   wrap64 (sum_list (map or_TotalMinor parts)) = or_TotalMinor single"
proof -
  let ?gs = "group_lines p lines" and ?single = "checkout_order env creq market cur p c lines"
  let ?order = "group_order env ireq market' c" and ?ks = "map fst (group_lines p lines)"
  have col: "wrap64 (sum_list (map F (map ?order ?gs))) = sum64 f lines" if "\<And>s ls. F (?order (s, group_of p ls)) = sum64 f ls" for F f
    unfolding map_map by (rule group_column) (simp add: that)
  have "map (\<lambda>sg. sg_items (snd sg)) ?gs = map (map (line_item p)) (map (own_lines lines) ?ks)"
    by (subst map_group_lines) (simp add: group_of_def)
  then have "concat (map (\<lambda>sg. sg_items (snd sg)) ?gs) = map (line_item p) (concat (map (own_lines lines) ?ks))"
    by (simp only: map_concat)
  moreover have "mset (concat (map (own_lines lines) ?ks)) = mset lines"
    using group_lines_keys [of p lines] by (intro own_lines_partition group_lines_distinct) auto
  ultimately have "mset (concat (map (\<lambda>sg. sg_items (snd sg)) ?gs)) = mset (map (line_item p) lines)" by (metis mset_map)
  moreover have "wrap64 (sum_list (map or_SubtotalMinor (map ?order ?gs))) = or_SubtotalMinor ?single"
    by (subst col [of _ listGross]) (simp_all add: group_order_def group_of_def checkout_order_def Let_def)
  moreover have "wrap64 (sum_list (map or_DiscountMinor (map ?order ?gs))) = or_DiscountMinor ?single"
    by (subst col [of _ "line_discount_minor p"]) (simp_all add: group_order_def group_of_def checkout_order_def Let_def)
  moreover have "wrap64 (sum_list (map or_CouponDiscountMinor (map ?order ?gs))) = or_CouponDiscountMinor ?single"
    by (subst col [of _ "line_coupon p"]) (simp_all add: group_order_def group_of_def checkout_order_def Let_def)
  moreover have "wrap64 (sum_list (map or_TotalMinor (map ?order ?gs))) = or_TotalMinor ?single"
    by (subst col [of _ "line_gross p"]) (simp_all add: group_order_def group_of_def checkout_order_def Let_def charged_total)
  ultimately show ?thesis by (simp only: Let_def)
qed

end
