(* ===== verification/OrderGrowth.thy ===== *)
theory OrderGrowth
  imports Orders
begin

text \<open>
  The tables of the order service only grow: no operation removes or changes an item, an order keeps its id and its
  buyer, and outbox rows are only added. What is built on orders (returns) relies on this. The
  sums of an order whose amounts do not overflow are those of the integers.
\<close>

definition order_core :: "order \<Rightarrow> int \<times> int" where
  "order_core r = (or_ID r, or_UserID r)"

definition order_grows :: "order_db \<Rightarrow> order_db \<Rightarrow> bool" where
  "order_grows db db' \<longleftrightarrow> (\<exists>xs. dbo_items db' = dbo_items db @ xs) \<and>
     (\<exists>ys. map order_core (dbo_orders db') = map order_core (dbo_orders db) @ ys) \<and>
     (\<exists>zs. ob_rows (dbo_outbox db') = ob_rows (dbo_outbox db) @ zs \<and> (\<forall>z \<in> set zs. o_aggregate z = ''order''))"

lemma order_grows_refl [simp]: "order_grows db db"
  by (simp add: order_grows_def)

lemma order_grows_trans: "order_grows a b \<Longrightarrow> order_grows b c \<Longrightarrow> order_grows a c"
  unfolding order_grows_def by (elim conjE exE) (intro conjI; force)

lemma same_grows: "same_orders db db' \<Longrightarrow> dbo_outbox db' = dbo_outbox db \<Longrightarrow> order_grows db db'"
  by (simp add: same_orders_def order_grows_def)

lemma status_grows:
  "repo_UpdateStatus i st t db = Inr (x, db') \<Longrightarrow> order_grows db db'"
  "SetDelivered i t db = Inr (x, db') \<Longrightarrow> order_grows db db'"
  by (auto simp: repo_UpdateStatus_def SetDelivered_def order_grows_def order_core_def map_update_where split: if_splits)

lemma insert_grows:
  "InsertOrder fk now ord db = Inr (r, db') \<Longrightarrow> order_grows db db'"
  "InsertOrderItem it db = Inr (row, db') \<Longrightarrow> order_grows db db'"
  by (auto simp: InsertOrder_def InsertOrderItem_def order_grows_def Let_def split: if_splits)

lemma insert_items_grows: "insert_items oid its db = Inr (rows, db') \<Longrightarrow> order_grows db db'"
  by (induction oid its db arbitrary: rows rule: insert_items.induct)
    (auto split: sum.splits, metis insert_grows(2) order_grows_trans)

lemma redeem_grows: "redeem c oid u d db = Inr db' \<Longrightarrow> order_grows db db'"
  by (drule redeem_same) (simp add: same_grows)

lemma address_grows: "InsertOrderAddress enc a db = Inr db' \<Longrightarrow> order_grows db db'"
  by (drule address_same) (simp add: same_grows)

lemma session_grows: "InsertCheckoutSession s db = Inr (row, db') \<Longrightarrow> order_grows db db'"
  by (drule session_same) (simp add: same_grows)

lemma tx_grows:
  assumes "\<And>a db'. fn db = Inr (a, db') \<Longrightarrow> order_grows db db'"
  shows "order_grows db (snd (order_WithTx outs fn db))"
proof (cases "order_WithTx outs fn db")
  case (Pair res db1)
  from this show ?thesis using assms by (cases rule: order_WithTx_cases) (auto simp: Pair)
qed

lemma event_grows:
  assumes "\<And>y db1. upd db = Inr (y, db1) \<Longrightarrow> order_grows db db1" "o_aggregate row = ''order''"
  shows "order_grows db (snd (err_of (order_WithTx outs (\<lambda>tx. with_outbox env row (upd tx)) db)))"
  unfolding err_of_snd
proof (rule tx_grows)
  fix a db' assume "with_outbox env row (upd db) = Inr (a, db')"
  then obtain y db1 ob where "upd db = Inr (y, db1)" "outbox_Insert (oe_now env) row (dbo_outbox db1) = Inr ob" "db' = db1\<lparr>dbo_outbox := ob\<rparr>"
    by (rule with_outbox_cases)
  moreover from this have "order_grows db1 db'" using assms(2)
    by (auto simp: outbox_Insert_def order_grows_def split: if_splits)
  ultimately show "order_grows db db'" using assms(1) order_grows_trans by blast
qed

lemma MarkPaid_grows: "order_grows db (snd (MarkPaid env i db))"
proof -
  have "order_grows db (snd (err_of (order_WithTx outs (\<lambda>tx. with_outbox env (order_outbox_row ty p k ord) (repo_UpdateStatus i st t tx)) db)))"
    for outs ty p k ord st t
    by (rule event_grows) (auto dest: status_grows simp: order_outbox_row_def)
  then show ?thesis by (simp add: MarkPaid_def split: sum.split option.split)
qed

lemma MarkDelivered_grows: "order_grows db (snd (MarkDelivered env product i t db))"
proof -
  have "order_grows db (snd (err_of (order_WithTx outs (\<lambda>tx. with_outbox env (order_outbox_row ty p k ord) (SetDelivered i t tx)) db)))" for outs ty p k ord
    by (rule event_grows) (auto dest: status_grows simp: order_outbox_row_def)
  then show ?thesis by (simp add: MarkDelivered_def split: sum.split)
qed

lemma UpdateStatus_grows: "order_grows db (snd (UpdateStatus env i st db))"
  unfolding UpdateStatus_eq err_of_snd by (rule tx_grows) (rule status_grows)

lemma CancelOrder_grows: "order_grows db (snd (CancelOrder env i db))"
  by (simp add: CancelOrder_def UpdateStatus_grows split: sum.split)

lemma mark_all_paid_grows: "order_grows db (mark_all_paid env oids db)"
  by (induction env oids db rule: mark_all_paid.induct) (auto intro: order_grows_trans MarkPaid_grows)

lemma captureFinalizer_grows: "order_grows db (fst (captureFinalizer ok env ref db r))"
  by (simp add: captureFinalizer_def mark_all_paid_grows split: sum.split)

lemma cancel_all_grows: "order_grows db (cancel_all env oids db)"
proof (induction env oids db rule: cancel_all.induct)
  case (2 env oid oids db)
  have "order_grows db (snd (order_WithTx (oe_cancel_outs env oid) (repo_UpdateStatus oid StatusCancelled (oe_now env)) db))"
    by (rule tx_grows) (rule status_grows)
  then show ?case using 2 order_grows_trans by simp
qed simp

lemma checkout_body_grows: "checkout_body env ord its c db = Inr (x, db') \<Longrightarrow> order_grows db db'"
  by (auto simp: checkout_body_def split: sum.splits dest!: insert_grows(1) insert_items_grows redeem_grows) (meson order_grows_trans)+

lemma persist_group_grows: "persist_group env enc req market c addr sg st = Inr st' \<Longrightarrow> order_grows (snd st) (snd st')"
  by (auto simp: persist_group_def split: sum.splits prod.splits option.splits
      dest!: insert_grows(1) insert_items_grows redeem_grows address_grows) (meson order_grows_trans)+

lemma saga_body_grows:
  assumes "saga_body env enc req market c addr gs session db = Inr (created, db')"
  shows "order_grows db db'"
proof -
  obtain cs db1 row where f: "for_each (persist_group env enc req market c addr) gs ([], db) = Inr (cs, db1)"
      "InsertCheckoutSession (session\<lparr>se_OrderIDs := map or_ID cs\<rparr>) db1 = Inr (row, db')"
    using assms by (auto simp: saga_body_def split: sum.splits prod.splits)
  have "order_grows db (snd (cs, db1))"
    by (rule for_each_invariant [OF f(1)]) (auto intro: order_grows_trans persist_group_grows)
  then show ?thesis using session_grows [OF f(2)] order_grows_trans by auto
qed

lemma order_step_grows: "order_step db db' \<Longrightarrow> order_grows db db'"
proof (induction rule: order_step.induct)
  case (1 env req db r res db' r')
  then show ?case by (cases rule: Checkout_cases) (auto dest: checkout_body_grows)
next
  case (2 env svc req db r res db' r')
  then show ?case
  proof (cases rule: InitiateCheckout_cases)
    case (persisted psp inst lines created db1 amount cur)
    have "order_grows db db1" using persisted(6) by (rule saga_persist_body) (auto dest: saga_body_grows)
    moreover have "order_grows d (snd (UpdateCheckoutSession ok i st ref d))" for ok i st ref d
      by (rule same_grows) (auto simp: UpdateCheckoutSession_def same_orders_def)
    ultimately show ?thesis
      using persisted(7) cancel_all_grows order_grows_trans by (auto simp: saga_pay_def split: sum.splits) blast+
  qed simp_all
qed (metis UpdateStatus_grows CancelOrder_grows MarkPaid_grows MarkDelivered_grows captureFinalizer_grows fst_conv snd_conv)+

section \<open>The sums of an order without overflow\<close>

lemma sum_list_nonneg_le:
  fixes f :: "'a \<Rightarrow> int"
  assumes "\<And>y. y \<in> set xs \<Longrightarrow> 0 \<le> f y" "x \<in> set xs"
  shows "f x \<le> sum_list (map f xs)"
  using assms by (intro member_le_sum_list) auto

lemma wrap64_nonneg: "0 \<le> x \<Longrightarrow> x \<le> max_i64 \<Longrightarrow> wrap64 x = x"
  by (simp add: wrap64_id is_i64_def min_i64_def max_i64_def)

lemma sum64_exact: "(\<And>y. y \<in> set xs \<Longrightarrow> 0 \<le> f y) \<Longrightarrow> sum_list (map f xs) \<le> max_i64 \<Longrightarrow> sum64 f xs = sum_list (map f xs)"
  unfolding sum64_eq by (rule wrap64_nonneg) (auto intro!: sum_list_nonneg)

definition item_parts :: "order_item \<Rightarrow> int" where
  "item_parts it = oi_CommissionAmountMinor it + oi_KdvAmountMinor it + oi_SellerNetMinor it"

definition item_gross :: "order_item \<Rightarrow> int" where
  "item_gross it = oi_UnitPriceMinor it * oi_Qty it"

text \<open>Neither the parts of the items nor their prices overflow.\<close>

definition in_range :: "order_item list \<Rightarrow> bool" where
  "in_range items \<longleftrightarrow> sum_list (map item_parts items) \<le> max_i64 \<and> sum_list (map item_gross items) \<le> max_i64"

lemma order_of_inv:
  assumes "order_inv db" "repo_GetOrder db i = Inr (ord, items)"
  shows "or_ID ord = i" "order_ok db ord" "items = GetOrderItems db (or_ID ord)" "\<And>it. it \<in> set items \<Longrightarrow> item_ok it"
  using assms by (auto simp: repo_GetOrder_def order_inv_def GetOrderItems_def split: option.splits dest!: find_SomeD)

lemma order_total_exact:
  assumes "order_inv db" "repo_GetOrder db i = Inr (ord, items)" "in_range items"
  shows "or_TotalMinor ord = sum_list (map item_gross items)" "or_TotalMinor ord = sum_list (map item_parts items)"
proof -
  note o = order_of_inv [OF assms(1,2)]
  have g: "0 \<le> item_gross it" "0 \<le> item_parts it" if "it \<in> set items" for it
    using o(4) [OF that] by (simp_all add: item_ok_def item_gross_def item_parts_def)
  have le: "item_gross it \<le> max_i64" "item_parts it \<le> max_i64" if "it \<in> set items" for it
    using that g assms(3) sum_list_nonneg_le [of items item_gross it] sum_list_nonneg_le [of items item_parts it]
    by (auto simp: in_range_def)
  have c: "item_charge it = item_gross it" "item_parts it = item_gross it" if "it \<in> set items" for it
    using o(4) [OF that] wrap64_nonneg [OF g(1) [OF that] le(1) [OF that]] wrap64_nonneg [OF g(2) [OF that] le(2) [OF that]]
    by (simp_all add: item_charge_def item_ok_def item_gross_def item_parts_def)
  have "or_TotalMinor ord = sum64 item_charge items" using o(2,3) by (simp add: order_ok_def)
  also have "\<dots> = sum64 item_gross items" using c by (simp add: sum64_eq cong: map_cong)
  also have "\<dots> = sum_list (map item_gross items)" using g assms(3) by (intro sum64_exact) (auto simp: in_range_def)
  finally show t: "or_TotalMinor ord = sum_list (map item_gross items)" .
  show "or_TotalMinor ord = sum_list (map item_parts items)" using t c by (simp cong: map_cong)
qed

end
