(* ===== verification/OrderLedger.thy ===== *)
theory OrderLedger
  imports Wallet Consumer
begin

text \<open>
  Posting of captured payments: \<^verbatim>\<open>internal/orderledger\<close> with the audit table of
  \<^verbatim>\<open>internal/commission/capture_recorder.go\<close> (constraints of \<^verbatim>\<open>migrations/ledger/0077\<close>). A paid
  order becomes one balanced ledger transaction of two to five lines and one audit row, in the same
  database transaction.
\<close>

section \<open>The calculator\<close>

record paid_item =
  pd_VariantID :: int
  pd_SellerID :: int
  pd_Qty :: int
  pd_UnitPriceMinor :: int
  pd_CommissionPctBps :: int
  pd_KdvPctBps :: int
  pd_CommissionAmountMinor :: int
  pd_KdvAmountMinor :: int
  pd_SellerNetMinor :: int

record order_paid =
  op_OrderID :: int
  op_UserID :: int
  op_SellerID :: int
  op_PaidAt :: instant
  op_GrossMinor :: int
  op_ShippingMinor :: int
  op_Currency :: string
  op_Market :: string
  op_Items :: "paid_item list"

record capture_inputs =
  cx_OrderID :: int
  cx_SellerID :: int
  cx_GrossMinor :: int
  cx_SellerNetMinor :: int
  cx_CommissionMinor :: int
  cx_KdvMinor :: int
  cx_ShippingMinor :: int
  cx_Currency :: string
  cx_Market :: string

record ledger_line =
  ll_AccountType :: string
  ll_SellerID :: int
  ll_Direction :: string
  ll_AmountMinor :: int

datatype ol_error =
    OlInvalidCaptureInput
  | OlWallet wallet_error
  | OlOpen "wallet_error tx_error"
  | OlConstraint
  | OlUnmarshal

definition capture_candidates :: "capture_inputs \<Rightarrow> ledger_line list" where
  "capture_candidates i =
     (let commissionRevenue = wrap64 (wrap64 (wrap64 (cx_GrossMinor i - cx_SellerNetMinor i) - cx_KdvMinor i) - cx_ShippingMinor i) in
      [\<lparr>ll_AccountType = ''asset:psp_receivable'', ll_SellerID = 0, ll_Direction = ''D'', ll_AmountMinor = cx_GrossMinor i\<rparr>,
       \<lparr>ll_AccountType = ''liability:seller_payable'', ll_SellerID = cx_SellerID i, ll_Direction = ''C'', ll_AmountMinor = cx_SellerNetMinor i\<rparr>,
       \<lparr>ll_AccountType = ''equity:retained_commission'', ll_SellerID = 0, ll_Direction = ''C'', ll_AmountMinor = commissionRevenue\<rparr>,
       \<lparr>ll_AccountType = ''liability:kdv_payable'', ll_SellerID = 0, ll_Direction = ''C'', ll_AmountMinor = cx_KdvMinor i\<rparr>,
       \<lparr>ll_AccountType = ''liability:shipping_payable'', ll_SellerID = 0, ll_Direction = ''C'', ll_AmountMinor = cx_ShippingMinor i\<rparr>])"

definition Compute :: "capture_inputs \<Rightarrow> ol_error + ledger_line list" where
  "Compute i =
     (if cx_GrossMinor i < 100 then Inl OlInvalidCaptureInput
      else Inr (filter (\<lambda>l. ll_AmountMinor l > 0) (capture_candidates i)))"

definition Aggregate :: "order_paid \<Rightarrow> capture_inputs" where
  "Aggregate ev =
     \<lparr>cx_OrderID = op_OrderID ev, cx_SellerID = op_SellerID ev, cx_GrossMinor = op_GrossMinor ev,
      cx_SellerNetMinor = sum64 pd_SellerNetMinor (op_Items ev),
      cx_CommissionMinor = sum64 pd_CommissionAmountMinor (op_Items ev),
      cx_KdvMinor = sum64 pd_KdvAmountMinor (op_Items ev), cx_ShippingMinor = op_ShippingMinor ev,
      cx_Currency = op_Currency ev, cx_Market = op_Market ev\<rparr>"

section \<open>The audit table\<close>

record capture_posting =
  cp_ID :: int
  cp_OrderID :: int
  cp_TransactionID :: int
  cp_IdempotencyKey :: string
  cp_GrossMinor :: int
  cp_SellerNetMinor :: int
  cp_CommissionMinor :: int
  cp_KdvMinor :: int
  cp_ShippingMinor :: int
  cp_Currency :: string
  cp_Market :: string
  cp_Status :: string
  cp_CreatedAt :: instant

record ol_db =
  ol_wallet :: wallet_db
  ol_postings :: "capture_posting list"
  ol_next :: int

datatype insert_result = Inserted ol_db | AlreadyPosted ol_db | InsertFailed

text \<open>
  A unique violation is reported as \<^verbatim>\<open>ErrAlreadyPosted\<close>; the statement runs outside a savepoint, so it
  also aborts the transaction. A broken CHECK or foreign key is any other error.
\<close>

definition InsertCapturePosting :: "instant \<Rightarrow> capture_posting \<Rightarrow> ol_db \<Rightarrow> insert_result" where
  "InsertCapturePosting now p db =
     (if cp_GrossMinor p \<le> 0 \<or> cp_SellerNetMinor p \<le> 0 \<or> cp_CommissionMinor p < 0 \<or> cp_KdvMinor p < 0 \<or> cp_ShippingMinor p < 0
      then InsertFailed
      else if List.find (\<lambda>r. cp_OrderID r = cp_OrderID p \<or> cp_IdempotencyKey r = cp_IdempotencyKey p) (ol_postings db) \<noteq> None
      then AlreadyPosted (db\<lparr>ol_wallet := (ol_wallet db)\<lparr>db_aborted := True\<rparr>\<rparr>)
      else if List.find (\<lambda>x. x_id x = cp_TransactionID p) (db_transactions (ol_wallet db)) = None then InsertFailed
      else Inserted (db\<lparr>ol_postings := ol_postings db @ [p\<lparr>cp_ID := ol_next db, cp_Status := ''posted'', cp_CreatedAt := now\<rparr>],
                        ol_next := ol_next db + 1\<rparr>))"

definition FindCapturePostingByOrderID :: "ol_db \<Rightarrow> int \<Rightarrow> capture_posting option" where
  "FindCapturePostingByOrderID db orderID = List.find (\<lambda>r. cp_OrderID r = orderID) (ol_postings db)"

section \<open>The service\<close>

definition ol_commit_ok :: "ol_db \<Rightarrow> ol_db \<Rightarrow> bool" where
  "ol_commit_ok old new \<longleftrightarrow> commit_ok (ol_wallet old) (ol_wallet new)"

definition orderledger_WithTx :: "tx_outcome list \<Rightarrow> (ol_db, 'c, ol_error, 'a) tx_body
    \<Rightarrow> ol_db \<Rightarrow> 'c \<Rightarrow> (ol_error tx_error + 'a) \<times> ol_db \<times> 'c" where
  "orderledger_WithTx outs fn db c = with_retry False 3 outs ol_commit_ok fn db c"

definition capture_key :: "int \<Rightarrow> string" where
  "capture_key orderID = ''order:capture:order_'' @ itoa orderID"

text \<open>The platform accounts in the order the code looks them up; the last one only if it is needed.\<close>

definition capture_accounts :: "wallet_db \<Rightarrow> string \<Rightarrow> string list \<Rightarrow> ol_error + (string \<times> int) list" where
  "capture_accounts w cur types =
     for_each (\<lambda>ty acc. case FindAccount w ty cur of Inl e \<Rightarrow> Inl (OlWallet e) | Inr i \<Rightarrow> Inr (acc @ [(ty, i)])) types []"

definition line_entry :: "(string \<times> int) list \<Rightarrow> int \<Rightarrow> ledger_line \<Rightarrow> entry" where
  "line_entry accounts sellerPayableID l =
     \<lparr>e_AccountID = (if ll_AccountType l = ''liability:seller_payable'' then sellerPayableID
                     else (case map_of accounts (ll_AccountType l) of None \<Rightarrow> 0 | Some i \<Rightarrow> i)),
      e_Direction = (if ll_Direction l = ''C'' then Credit else Debit), e_AmountMinor = ll_AmountMinor l\<rparr>"

definition capture_post :: "order_paid \<Rightarrow> entry list \<Rightarrow> post_input" where
  "capture_post ev es =
     \<lparr>pi_Type = ''order_capture'', pi_Reference = ''order:'' @ itoa (op_OrderID ev) @ '':psp_capture'',
      pi_FxPairID = [], pi_IdempotencyKey = capture_key (op_OrderID ev), pi_Market = op_Market ev,
      pi_Currency = op_Currency ev, pi_Entries = es, pi_EventType = [],
      pi_Metadata = [(''order_id'', itoa (op_OrderID ev)), (''seller_id'', itoa (op_SellerID ev))]\<rparr>"

definition capture_row :: "order_paid \<Rightarrow> int \<Rightarrow> capture_posting" where
  "capture_row ev txnID =
     (let i = Aggregate ev in
      \<lparr>cp_ID = 0, cp_OrderID = op_OrderID ev, cp_TransactionID = txnID, cp_IdempotencyKey = capture_key (op_OrderID ev),
       cp_GrossMinor = cx_GrossMinor i, cp_SellerNetMinor = cx_SellerNetMinor i, cp_CommissionMinor = cx_CommissionMinor i,
       cp_KdvMinor = cx_KdvMinor i, cp_ShippingMinor = cx_ShippingMinor i, cp_Currency = op_Currency ev,
       cp_Market = op_Market ev, cp_Status = [], cp_CreatedAt = 0\<rparr>)"

definition capture_body :: "wenv \<Rightarrow> wallet_db \<Rightarrow> order_paid \<Rightarrow> entry list \<Rightarrow> (ol_db, wcache, ol_error, int) tx_body" where
  "capture_body env pool ev es db c =
     (case PostInTx env pool (capture_post ev es) (ol_wallet db) c of
        (Inl e, c') \<Rightarrow> (Inl (OlWallet e), c')
      | (Inr (txnID, w), c') \<Rightarrow>
          (case InsertCapturePosting (we_now env) (capture_row ev txnID) (db\<lparr>ol_wallet := w\<rparr>) of
             InsertFailed \<Rightarrow> (Inl OlConstraint, c')
           | AlreadyPosted db' \<Rightarrow> (Inr (txnID, db'), c')
           | Inserted db' \<Rightarrow> (Inr (txnID, db'), c')))"

text \<open>
  \<^verbatim>\<open>PostCapture\<close>: \<open>pre\<close> is the state the idempotency pre-check reads; when nothing else commits in between
  it is \<open>db\<close> itself. \<open>oouts\<close> and \<open>outs\<close> are the server's answers to the account opening and to the posting.
\<close>

definition PostCapture :: "wenv \<Rightarrow> tx_outcome list \<Rightarrow> tx_outcome list \<Rightarrow> ol_db \<Rightarrow> order_paid \<Rightarrow> ol_db \<Rightarrow> wcache
    \<Rightarrow> (ol_error tx_error) option \<times> ol_db \<times> wcache" where
  "PostCapture env oouts outs pre ev db c =
     (case FindCapturePostingByOrderID pre (op_OrderID ev) of
        Some _ \<Rightarrow> (None, db, c)
      | None \<Rightarrow>
          (case Compute (Aggregate ev) of
             Inl e \<Rightarrow> (Some (TxFn e), db, c)
           | Inr lines \<Rightarrow>
               (case capture_accounts (ol_wallet db) (op_Currency ev)
                       [''asset:psp_receivable'', ''equity:retained_commission'', ''liability:kdv_payable''] of
                  Inl e \<Rightarrow> (Some (TxFn e), db, c)
                | Inr accounts \<Rightarrow>
                    (case FindOrOpenSellerPayable env oouts (op_SellerID ev) (op_Currency ev) (ol_wallet db) of
                       (Inl e, w) \<Rightarrow> (Some (TxFn (OlOpen e)), db\<lparr>ol_wallet := w\<rparr>, c)
                     | (Inr sellerPayableID, w) \<Rightarrow>
                         (let db1 = db\<lparr>ol_wallet := w\<rparr> in
                          case capture_accounts w (op_Currency ev)
                                 (if list_ex (\<lambda>l. ll_AccountType l = ''liability:shipping_payable'') lines
                                  then [''liability:shipping_payable''] else []) of
                            Inl e \<Rightarrow> (Some (TxFn e), db1, c)
                          | Inr shipping \<Rightarrow>
                              (case orderledger_WithTx outs
                                      (capture_body env w ev (map (line_entry (accounts @ shipping) sellerPayableID) lines)) db1 c of
                                 (Inl e, db2, c2) \<Rightarrow> (Some e, db2, c2)
                               | (Inr txnID, db2, c2) \<Rightarrow> (None, db2, c2)))))))"

section \<open>The payment consumer\<close>

definition decode_paid_item :: "json \<Rightarrow> paid_item option" where
  "decode_paid_item j =
     (case (jint ''variant_id'' j, jint ''seller_id'' j, jint ''qty'' j, jint ''unit_price_minor'' j, jint ''commission_pct_bps'' j) of
        (Some v, Some s, Some q, Some u, Some cp) \<Rightarrow>
          (case (jint ''kdv_pct_bps'' j, jint ''commission_amount_minor'' j, jint ''kdv_amount_minor'' j, jint ''seller_net_minor'' j) of
             (Some kp, Some ca, Some ka, Some sn) \<Rightarrow>
               Some \<lparr>pd_VariantID = v, pd_SellerID = s, pd_Qty = q, pd_UnitPriceMinor = u, pd_CommissionPctBps = cp,
                     pd_KdvPctBps = kp, pd_CommissionAmountMinor = ca, pd_KdvAmountMinor = ka, pd_SellerNetMinor = sn\<rparr>
           | _ \<Rightarrow> None)
      | _ \<Rightarrow> None)"

text \<open>The currency and market of the envelope win over those of the payload.\<close>

definition decode_paid :: "event \<Rightarrow> order_paid option" where
  "decode_paid ev =
     (let j = ev_payload ev in
      case (jint ''order_id'' j, jint ''user_id'' j, jint ''seller_id'' j, jtime ''paid_at'' j, jint ''amount_minor'' j) of
        (Some oid, Some uid, Some sid, Some dt, Some amount) \<Rightarrow>
          (case (jint ''shipping_minor'' j, jstr ''currency'' j, jstr ''market'' j, jarr decode_paid_item ''items'' j) of
             (Some ship, Some _, Some _, Some items) \<Rightarrow>
               Some \<lparr>op_OrderID = oid, op_UserID = uid, op_SellerID = sid, op_PaidAt = dt, op_GrossMinor = amount,
                     op_ShippingMinor = ship, op_Currency = ev_currency ev, op_Market = ev_market ev, op_Items = items\<rparr>
           | _ \<Rightarrow> None)
      | _ \<Rightarrow> None)"

definition handlePaid :: "wenv \<Rightarrow> tx_outcome list \<Rightarrow> tx_outcome list \<Rightarrow> event \<Rightarrow> ol_db \<Rightarrow> wcache
    \<Rightarrow> (ol_error tx_error) option \<times> ol_db \<times> wcache" where
  "handlePaid env oouts outs ev db c =
     (case decode_paid ev of
        None \<Rightarrow> (Some (TxFn OlUnmarshal), db, c)
      | Some ope \<Rightarrow> PostCapture env oouts outs db ope db c)"

section \<open>The calculator is balanced when the parts fit into the gross\<close>

definition lines_total :: "string \<Rightarrow> ledger_line list \<Rightarrow> int" where
  "lines_total d ls = sum_list (map ll_AmountMinor (filter (\<lambda>l. ll_Direction l = d) ls))"

definition parts_fit :: "capture_inputs \<Rightarrow> bool" where
  "parts_fit i \<longleftrightarrow> 0 \<le> cx_SellerNetMinor i \<and> 0 \<le> cx_KdvMinor i \<and> 0 \<le> cx_ShippingMinor i \<and>
     cx_SellerNetMinor i + cx_KdvMinor i + cx_ShippingMinor i \<le> cx_GrossMinor i \<and> cx_GrossMinor i \<le> max_i64"

lemma commission_revenue:
  assumes "0 \<le> s" "0 \<le> k" "0 \<le> sh" "0 \<le> g" "g \<le> max_i64" "s \<le> max_i64" "k \<le> max_i64" "sh \<le> max_i64"
    "s + k + sh \<le> g + max_i64"
  shows "wrap64 (wrap64 (wrap64 (g - s) - k) - sh) = g - s - k - sh"
  using assms by (simp add: wrap64_id is_i64_def min_i64_def max_i64_def)

lemma lines_total_simps [simp]:
  "lines_total d [] = 0"
  "lines_total d (l # ls) = (if ll_Direction l = d then ll_AmountMinor l else 0) + lines_total d ls"
  by (simp_all add: lines_total_def)

text \<open>
  The capture calculator is balanced exactly when the parts fit. For non-negative parts within
  64-bit range, \<^verbatim>\<open>Compute\<close> fails below 1 TL and otherwise returns positive lines whose debits are the gross
  amount; their credits are the gross amount if and only if seller net, VAT and shipping together do
  not exceed it. When they exceed it, the negative commission line is dropped and the posting the
  documentation calls balanced is not.
\<close>

theorem Compute_balanced_iff:
  assumes "0 \<le> cx_SellerNetMinor i" "0 \<le> cx_KdvMinor i" "0 \<le> cx_ShippingMinor i" "cx_GrossMinor i \<le> max_i64"
    "cx_SellerNetMinor i \<le> max_i64" "cx_KdvMinor i \<le> max_i64" "cx_ShippingMinor i \<le> max_i64"
    "cx_SellerNetMinor i + cx_KdvMinor i + cx_ShippingMinor i \<le> max_i64"
  shows "case Compute i of
      Inl e \<Rightarrow> cx_GrossMinor i < 100
    | Inr ls \<Rightarrow> 100 \<le> cx_GrossMinor i \<and> (\<forall>l \<in> set ls. 0 < ll_AmountMinor l) \<and> lines_total ''D'' ls = cx_GrossMinor i \<and>
        (lines_total ''C'' ls = cx_GrossMinor i \<longleftrightarrow>
           cx_SellerNetMinor i + cx_KdvMinor i + cx_ShippingMinor i \<le> cx_GrossMinor i)"
proof (cases "cx_GrossMinor i < 100")
  case True
  then show ?thesis by (simp add: Compute_def)
next
  case False
  then have "wrap64 (wrap64 (wrap64 (cx_GrossMinor i - cx_SellerNetMinor i) - cx_KdvMinor i) - cx_ShippingMinor i) =
      cx_GrossMinor i - cx_SellerNetMinor i - cx_KdvMinor i - cx_ShippingMinor i"
    using assms by (intro commission_revenue) auto
  then show ?thesis
    using False assms(1-3) by (auto simp: Compute_def capture_candidates_def Let_def)
qed

definition capture_ex :: "int \<Rightarrow> capture_inputs" where
  "capture_ex net = \<lparr>cx_OrderID = 1, cx_SellerID = 80, cx_GrossMinor = 10000, cx_SellerNetMinor = net, cx_CommissionMinor = 800,
     cx_KdvMinor = 200, cx_ShippingMinor = 1000, cx_Currency = ''TRY'', cx_Market = ''TR''\<rparr>"

theorem Compute_balanced_iff_witness:
  "(case Compute (capture_ex 8000) of Inl e \<Rightarrow> False | Inr ls \<Rightarrow> lines_total ''D'' ls = 10000 \<and> lines_total ''C'' ls = 10000) \<and>
   (case Compute (capture_ex 9000) of Inl e \<Rightarrow> False | Inr ls \<Rightarrow> lines_total ''D'' ls = 10000 \<and> lines_total ''C'' ls \<noteq> 10000)"
  using Compute_balanced_iff [of "capture_ex 8000"] Compute_balanced_iff [of "capture_ex 9000"]
  by (simp add: capture_ex_def max_i64_def split: sum.splits)

section \<open>The engine invariant\<close>

lemma capture_key_inj [simp]: "capture_key a = capture_key b \<longleftrightarrow> a = b"
  by (simp add: capture_key_def)

definition ol_inv :: "ol_db \<Rightarrow> bool" where
  "ol_inv db \<longleftrightarrow> wallet_inv (ol_wallet db) \<and> fresh_ids cp_ID (ol_next db) (ol_postings db) \<and>
     distinct (map cp_OrderID (ol_postings db)) \<and>
     (\<forall>r \<in> set (ol_postings db). cp_IdempotencyKey r = capture_key (cp_OrderID r) \<and>
        posted (ol_wallet db) (capture_key (cp_OrderID r)) = Some (cp_TransactionID r)) \<and>
     (\<forall>oid. posted (ol_wallet db) (capture_key oid) \<noteq> None \<longrightarrow> oid \<in> cp_OrderID ` set (ol_postings db))"

lemma ol_inv_wallet:
  assumes "ol_inv db" "wallet_inv w" "\<And>oid. posted w (capture_key oid) = posted (ol_wallet db) (capture_key oid)"
  shows "ol_inv (db\<lparr>ol_wallet := w\<rparr>)"
  using assms by (simp add: ol_inv_def)

lemma capture_not_posted:
  assumes "ol_inv db" "FindCapturePostingByOrderID db oid = None"
  shows "posted (ol_wallet db) (capture_key oid) = None"
proof (rule ccontr)
  assume "posted (ol_wallet db) (capture_key oid) \<noteq> None"
  then have "oid \<in> cp_OrderID ` set (ol_postings db)" using assms(1) unfolding ol_inv_def by blast
  then show False using assms(2) by (auto simp: FindCapturePostingByOrderID_def find_None_iff2)
qed

text \<open>The state a committed capture leaves behind.\<close>

definition captured_db :: "wenv \<Rightarrow> order_paid \<Rightarrow> int \<Rightarrow> wallet_db \<Rightarrow> ol_db \<Rightarrow> ol_db" where
  "captured_db env ev txn w db =
     db\<lparr>ol_wallet := w,
        ol_postings := ol_postings db @ [(capture_row ev txn)\<lparr>cp_ID := ol_next db, cp_Status := ''posted'', cp_CreatedAt := we_now env\<rparr>],
        ol_next := ol_next db + 1\<rparr>"

lemma capture_row_simps [simp]:
  "cp_OrderID (capture_row ev txn) = op_OrderID ev" "cp_TransactionID (capture_row ev txn) = txn"
  "cp_IdempotencyKey (capture_row ev txn) = capture_key (op_OrderID ev)"
  by (simp_all add: capture_row_def Let_def)

lemma capture_body_commit:
  assumes inv: "ol_inv db" and new: "FindCapturePostingByOrderID db (op_OrderID ev) = None"
    and b: "capture_body env (ol_wallet db) ev es db c = (Inr (t, db'), c')" and ok: "ol_commit_ok db db'"
  shows "\<exists>w. db' = captured_db env ev t w db \<and>
    PostInTx_seq env (capture_post ev es) (ol_wallet db) c = (Inr (t, w), c') \<and> commit_ok (ol_wallet db) w"
proof -
  obtain txn w where p: "PostInTx env (ol_wallet db) (capture_post ev es) (ol_wallet db) c = (Inr (txn, w), c')"
    using b by (auto simp: capture_body_def split: sum.splits prod.splits insert_result.splits)
  have "\<forall>r \<in> set (ol_postings db). cp_OrderID r \<noteq> op_OrderID ev \<and> cp_IdempotencyKey r \<noteq> capture_key (op_OrderID ev)"
    using new inv by (auto simp: FindCapturePostingByOrderID_def find_None_iff2 ol_inv_def)
  then have none: "List.find (\<lambda>r. cp_OrderID r = op_OrderID ev \<or> cp_IdempotencyKey r = capture_key (op_OrderID ev)) (ol_postings db) = None"
    by (auto simp: find_None_iff2)
  have "db' = captured_db env ev t w db \<and> t = txn"
    using b p none
    by (cases db) (auto simp: capture_body_def InsertCapturePosting_def captured_db_def split: insert_result.splits if_splits)
  then show ?thesis
    using p ok by (auto simp: PostInTx_seq_def ol_commit_ok_def captured_db_def)
qed

lemma captured_inv:
  assumes inv: "ol_inv db" and new: "FindCapturePostingByOrderID db (op_OrderID ev) = None"
    and p: "PostInTx_seq env (capture_post ev es) (ol_wallet db) c = (Inr (t, w), c')" and ok: "commit_ok (ol_wallet db) w"
  shows "ol_inv (captured_db env ev t w db) \<and> GetBalanceStrict w =
    (\<lambda>a. GetBalanceStrict (ol_wallet db) a + leg_sum (pi_legs (capture_post ev es)) a)"
proof -
  have wi: "wallet_inv (ol_wallet db)" using inv by (simp add: ol_inv_def)
  have key: "pi_IdempotencyKey (capture_post ev es) = capture_key (op_OrderID ev)" by (simp add: capture_post_def)
  have np: "posted (ol_wallet db) (pi_IdempotencyKey (capture_post ev es)) = None"
    using capture_not_posted [OF inv new] by (simp add: key)
  note n = wl.post_new [OF wi np p ok, unfolded key] and i = wl.post_inv [OF wi p ok]
  have "op_OrderID ev \<notin> cp_OrderID ` set (ol_postings db)"
    using new by (auto simp: FindCapturePostingByOrderID_def find_None_iff2)
  then show ?thesis
    using inv n i by (auto simp: ol_inv_def captured_db_def fresh_ids_append image_iff)
qed

section \<open>Posting a capture\<close>

lemma openOrFind_keeps:
  assumes "openOrFind env outs ty oty oid cur w = (r, w')" "wallet_inv w"
  shows "wallet_inv w' \<and> posted w' = posted w \<and> GetBalanceStrict w' = GetBalanceStrict w"
  using openOrFind_append [OF assms(1)] openOrFind_inv [OF assms(2,1)]
  by (simp add: fun_eq_iff posted_def GetBalanceStrict_def)

definition seller_opened :: "ol_db \<Rightarrow> ol_db \<Rightarrow> bool" where
  "seller_opened db db' \<longleftrightarrow> (\<exists>w. db' = db\<lparr>ol_wallet := w\<rparr> \<and> wallet_inv w \<and> posted w = posted (ol_wallet db) \<and>
     GetBalanceStrict w = GetBalanceStrict (ol_wallet db))"

lemma seller_opened_refl: "ol_inv db \<Longrightarrow> seller_opened db db"
  by (auto simp: seller_opened_def ol_inv_def intro!: exI [of _ "ol_wallet db"])

lemma seller_opened_inv: "ol_inv db \<Longrightarrow> seller_opened db db1 \<Longrightarrow> ol_inv db1"
  using ol_inv_wallet by (auto simp: seller_opened_def)

text \<open>The seller's account: the one that the event's seller owns in the event's currency.\<close>

definition capture_seller :: "wallet_db \<Rightarrow> order_paid \<Rightarrow> int \<Rightarrow> bool" where
  "capture_seller w ev i \<longleftrightarrow>
     (\<exists>a \<in> set (db_accounts w). acct_ID a = i \<and> acct_OwnerType a = ''seller'' \<and> acct_OwnerID a = Some (op_SellerID ev) \<and>
        acct_Currency a = op_Currency ev \<and> acct_Status a = ''active'')"

lemma FindAccountByOwner_Inr:
  "FindAccountByOwner w oty oid cur = Inr a \<Longrightarrow>
     a \<in> set (db_accounts w) \<and> acct_OwnerType a = oty \<and> acct_OwnerID a = Some oid \<and> acct_Currency a = cur \<and> acct_Status a = ''active''"
  by (auto simp: FindAccountByOwner_def split: option.splits dest!: find_SomeD)

lemma opened_seller:
  assumes "FindOrOpenSellerPayable env outs (op_SellerID ev) (op_Currency ev) w = (Inr i, w')"
  shows "capture_seller w' ev i"
  using assms [unfolded FindOrOpenSellerPayable_def]
proof (cases rule: openOrFind_cases)
  case (found a)
  then show ?thesis using FindAccountByOwner_Inr [OF found(1)] by (auto simp: capture_seller_def)
next
  case (created j)
  then show ?thesis by (auto simp: InsertAccount_def new_account_def capture_seller_def split: if_splits)
next
  case (conflict j)
  then obtain a where "FindAccountByOwner w' ''seller'' (op_SellerID ev) (op_Currency ev) = Inr a" "i = acct_ID a" by (auto split: sum.splits)
  then show ?thesis using FindAccountByOwner_Inr by (fastforce simp: capture_seller_def)
qed simp

lemma FindAccount_append:
  "FindAccount w ty cur = Inr i \<Longrightarrow> db_accounts w' = db_accounts w @ as \<Longrightarrow> FindAccount w' ty cur = Inr i"
  by (auto simp: FindAccount_def FindAccountByType_def find_append split: option.splits)

lemma openOrFind_accounts: "openOrFind env outs ty oty oid cur w = (r, w') \<Longrightarrow> \<exists>as. db_accounts w' = db_accounts w @ as"
  by (erule openOrFind_cases) (auto simp: InsertAccount_def split: if_splits)

lemma PostInTx_seq_accounts:
  assumes "PostInTx_seq env i w c = (Inr (t, w'), c')" "commit_ok w w'"
  shows "db_accounts w' = db_accounts w"
  using PostInTx_seq_body [OF assms(1)] by (cases rule: post_body_cases) (use assms(2) in \<open>auto simp: posted_db_def commit_ok_def\<close>)

lemma capture_accounts_found:
  "for_each (\<lambda>ty acc. case FindAccount w ty cur of Inl e \<Rightarrow> Inl (OlWallet e) | Inr i \<Rightarrow> Inr (acc @ [(ty, i)])) types acc0 = Inr accs \<Longrightarrow>
     \<exists>xs. accs = acc0 @ xs \<and> map fst xs = types \<and> (\<forall>(ty, i) \<in> set xs. FindAccount w ty cur = Inr i)"
proof (induction types arbitrary: acc0)
  case (Cons ty types)
  then obtain i where i: "FindAccount w ty cur = Inr i" by (auto split: sum.splits)
  then obtain xs where "accs = (acc0 @ [(ty, i)]) @ xs" "map fst xs = types" "\<forall>(ty, i) \<in> set xs. FindAccount w ty cur = Inr i"
    using Cons.IH [of "acc0 @ [(ty, i)]"] Cons.prems by auto
  then show ?case using i by (intro exI [of _ "(ty, i) # xs"]) auto
qed simp

text \<open>Every platform account a line needs is looked up under its type.\<close>

lemma looked_up:
  assumes lines: "Compute (Aggregate ev) = Inr lines"
    and base: "capture_accounts w0 (op_Currency ev) [''asset:psp_receivable'', ''equity:retained_commission'', ''liability:kdv_payable''] = Inr accounts"
    and sh: "capture_accounts w (op_Currency ev) (if list_ex (\<lambda>l. ll_AccountType l = ''liability:shipping_payable'') lines
                then [''liability:shipping_payable''] else []) = Inr shipping"
    and open_: "FindOrOpenSellerPayable env outs sid cur w0 = (so, w)"
  shows "\<forall>l \<in> set lines. ll_AccountType l \<noteq> ''liability:seller_payable'' \<longrightarrow>
    (\<exists>i. map_of (accounts @ shipping) (ll_AccountType l) = Some i \<and> FindAccount w (ll_AccountType l) (op_Currency ev) = Inr i)"
proof (intro ballI impI)
  fix l assume l: "l \<in> set lines" "ll_AccountType l \<noteq> ''liability:seller_payable''"
  obtain as where as: "db_accounts w = db_accounts w0 @ as" using openOrFind_accounts open_ [unfolded FindOrOpenSellerPayable_def] by blast
  have f0: "map fst accounts = [''asset:psp_receivable'', ''equity:retained_commission'', ''liability:kdv_payable'']"
      "\<forall>(ty, i) \<in> set accounts. FindAccount w0 ty (op_Currency ev) = Inr i"
    using capture_accounts_found [OF base [unfolded capture_accounts_def]] by auto
  have f1: "map fst shipping = (if list_ex (\<lambda>l. ll_AccountType l = ''liability:shipping_payable'') lines then [''liability:shipping_payable''] else [])"
      "\<forall>(ty, i) \<in> set shipping. FindAccount w ty (op_Currency ev) = Inr i"
    using capture_accounts_found [OF sh [unfolded capture_accounts_def]] by auto
  have all: "\<forall>(ty, i) \<in> set (accounts @ shipping). FindAccount w ty (op_Currency ev) = Inr i"
    using f0(2) f1(2) FindAccount_append [OF _ as] by fastforce
  have "ll_AccountType l \<in> {''asset:psp_receivable'', ''equity:retained_commission'', ''liability:kdv_payable'', ''liability:shipping_payable''}"
    using l lines by (auto simp: Compute_def capture_candidates_def Let_def split: if_splits)
  then have "ll_AccountType l \<in> set (map fst accounts) \<or> ll_AccountType l \<in> set (map fst shipping)"
    using l(1) unfolding f0(1) f1(1) by (auto simp: list_ex_iff)
  then obtain i where "map_of (accounts @ shipping) (ll_AccountType l) = Some i"
    by (cases "map_of (accounts @ shipping) (ll_AccountType l)") (auto simp: map_of_eq_None_iff)
  then show "\<exists>i. map_of (accounts @ shipping) (ll_AccountType l) = Some i \<and> FindAccount w (ll_AccountType l) (op_Currency ev) = Inr i"
    using all map_of_SomeD by fastforce
qed

text \<open>
  What \<^verbatim>\<open>PostCapture\<close> can do: nothing but open the seller's account (always, when it fails or the order
  is posted already), or post the capture.
\<close>

lemma PostCapture_cases:
  assumes inv: "ol_inv db" and r: "PostCapture env oouts outs db ev db c = (err, db', c')"
  obtains (replay) row where "FindCapturePostingByOrderID db (op_OrderID ev) = Some row" "err = None" "db' = db" "c' = c"
  | (failed) e where "FindCapturePostingByOrderID db (op_OrderID ev) = None" "err = Some e" "seller_opened db db'"
  | (captured) lines accounts seller db1 t w where "FindCapturePostingByOrderID db (op_OrderID ev) = None" "err = None"
      "Compute (Aggregate ev) = Inr lines" "seller_opened db db1" "db' = captured_db env ev t w db1" "ol_inv db'"
      "GetBalanceStrict w = (\<lambda>a. GetBalanceStrict (ol_wallet db) a +
         leg_sum (pi_legs (capture_post ev (map (line_entry accounts seller) lines))) a)"
      "capture_seller w ev seller" "\<forall>l \<in> set lines. ll_AccountType l \<noteq> ''liability:seller_payable'' \<longrightarrow>
         (\<exists>i. map_of accounts (ll_AccountType l) = Some i \<and> FindAccount w (ll_AccountType l) (op_Currency ev) = Inr i)"
proof (cases "FindCapturePostingByOrderID db (op_OrderID ev)")
  case (Some row)
  then show thesis using r by (intro replay) (simp_all add: PostCapture_def)
next
  case None
  note new = this and op0 = seller_opened_refl [OF inv]
  show thesis
  proof (cases "Compute (Aggregate ev)")
    case (Inl e)
    then show thesis using r new op0 by (intro failed [of "TxFn e"]) (simp_all add: PostCapture_def)
  next
    case lines: (Inr lines)
    define base where "base = [''asset:psp_receivable'', ''equity:retained_commission'', ''liability:kdv_payable'']"
    define extra where "extra = (if list_ex (\<lambda>l. ll_AccountType l = ''liability:shipping_payable'') lines then [''liability:shipping_payable''] else [])"
    show thesis
    proof (cases "capture_accounts (ol_wallet db) (op_Currency ev) base")
      case (Inl e)
      then show thesis using r new lines op0 by (intro failed [of "TxFn e"]) (simp_all add: PostCapture_def base_def)
    next
      case base: (Inr accounts)
      obtain so w where s: "FindOrOpenSellerPayable env oouts (op_SellerID ev) (op_Currency ev) (ol_wallet db) = (so, w)" by fastforce
      define db1 where "db1 = db\<lparr>ol_wallet := w\<rparr>"
      have op: "seller_opened db db1"
        using openOrFind_keeps [OF s [unfolded FindOrOpenSellerPayable_def]] inv by (auto simp: seller_opened_def db1_def ol_inv_def)
      have new1: "FindCapturePostingByOrderID db1 (op_OrderID ev) = None"
        using new by (simp add: FindCapturePostingByOrderID_def db1_def)
      have bal1: "GetBalanceStrict (ol_wallet db1) = GetBalanceStrict (ol_wallet db)" using op by (auto simp: seller_opened_def)
      show thesis
      proof (cases so)
        case (Inl e)
        then show thesis using r new lines base s op
          by (intro failed [of "TxFn (OlOpen e)"]) (simp_all add: PostCapture_def base_def db1_def)
      next
        case so: (Inr seller)
        show thesis
        proof (cases "capture_accounts w (op_Currency ev) extra")
          case (Inl e)
          then show thesis using r new lines base s so op
            by (intro failed [of "TxFn e"]) (simp_all add: PostCapture_def base_def extra_def db1_def Let_def)
        next
          case sh: (Inr shipping)
          define es where "es = map (line_entry (accounts @ shipping) seller) lines"
          obtain r2 db2 c2 where t: "orderledger_WithTx outs (capture_body env w ev es) db1 c = (r2, db2, c2)" by (metis prod_cases3)
          have res: "db' = db2 \<and> err = (case r2 of Inl e \<Rightarrow> Some e | Inr _ \<Rightarrow> None)"
            using r new lines base s so sh t
            by (auto simp: PostCapture_def base_def extra_def db1_def Let_def es_def split: sum.splits)
          show thesis
          proof (cases r2)
            case (Inl e)
            then have "db2 = db1" using t with_retry_error unfolding orderledger_WithTx_def by metis
            then show thesis using res Inl new op by (intro failed [of e]) simp_all
          next
            case (Inr tx)
            then obtain c0 where b: "capture_body env (ol_wallet db1) ev es db1 c0 = (Inr (tx, db2), c2)" "ol_commit_ok db1 db2"
              using with_retry_success [OF t [unfolded orderledger_WithTx_def Inr]] by (auto simp: db1_def)
            note inv1 = seller_opened_inv [OF inv op]
            obtain w2 where w2: "db2 = captured_db env ev tx w2 db1"
              "PostInTx_seq env (capture_post ev es) (ol_wallet db1) c0 = (Inr (tx, w2), c2)" "commit_ok (ol_wallet db1) w2"
              using capture_body_commit [OF inv1 new1 b] by blast
            have keep: "db_accounts w2 = db_accounts w" using PostInTx_seq_accounts [OF w2(2,3)] by (simp add: db1_def)
            have sel: "capture_seller w2 ev seller"
              using opened_seller [OF s [unfolded so]] keep by (simp add: capture_seller_def)
            have acc: "\<forall>l \<in> set lines. ll_AccountType l \<noteq> ''liability:seller_payable'' \<longrightarrow>
                (\<exists>i. map_of (accounts @ shipping) (ll_AccountType l) = Some i \<and> FindAccount w2 (ll_AccountType l) (op_Currency ev) = Inr i)"
              using looked_up [OF lines base [unfolded base_def] sh [unfolded extra_def] s] keep
              by (simp add: FindAccount_def FindAccountByType_def)
            show thesis
              using captured_inv [OF inv1 new1 w2(2,3)] res Inr lines new op w2(1) bal1 sel acc
              by (intro captured [of lines db1 tx w2 "accounts @ shipping" seller]) (simp_all add: es_def)
          qed
        qed
      qed
    qed
  qed
qed

section \<open>Properties of the engine\<close>

lemma find_captured:
  "FindCapturePostingByOrderID db (op_OrderID ev) = None \<Longrightarrow>
     \<exists>row. FindCapturePostingByOrderID (captured_db env ev t w db) (op_OrderID ev) = Some row \<and> cp_TransactionID row = t"
  by (simp add: FindCapturePostingByOrderID_def captured_db_def find_append)

lemma find_posting_keep:
  "FindCapturePostingByOrderID db oid \<noteq> None \<Longrightarrow> FindCapturePostingByOrderID (captured_db env ev t w db) oid \<noteq> None"
  by (auto simp: FindCapturePostingByOrderID_def captured_db_def find_append)

lemma seller_opened_postings: "seller_opened db db1 \<Longrightarrow> ol_postings db1 = ol_postings db"
  by (auto simp: seller_opened_def)

text \<open>
  What a capture owes to each kind of account, from the event alone: the charge to the provider, the items' nets to the seller,
  their tax and the shipping, and the commission that is left. Nothing negative is posted.
\<close>

definition capture_types :: "string list" where
  "capture_types = [''asset:psp_receivable'', ''liability:seller_payable'', ''equity:retained_commission'', ''liability:kdv_payable'', ''liability:shipping_payable'']"

definition due :: "order_paid \<Rightarrow> string \<Rightarrow> int" where
  "due ev ty =
     (let net = sum64 pd_SellerNetMinor (op_Items ev); kdv = sum64 pd_KdvAmountMinor (op_Items ev) in
      if ty = ''asset:psp_receivable'' then - op_GrossMinor ev
      else if ty = ''liability:seller_payable'' then max 0 net
      else if ty = ''equity:retained_commission'' then max 0 (wrap64 (op_GrossMinor ev - net - kdv - op_ShippingMinor ev))
      else if ty = ''liability:kdv_payable'' then max 0 kdv
      else if ty = ''liability:shipping_payable'' then max 0 (op_ShippingMinor ev) else 0)"

text \<open>The account of a kind: the seller's own, or the platform's.\<close>

definition capture_account :: "wallet_db \<Rightarrow> order_paid \<Rightarrow> string \<Rightarrow> int \<Rightarrow> bool" where
  "capture_account w ev ty i \<longleftrightarrow>
     (if ty = ''liability:seller_payable'' then capture_seller w ev i else FindAccount w ty (op_Currency ev) = Inr i)"

definition line_account :: "(string \<times> int) list \<Rightarrow> int \<Rightarrow> string \<Rightarrow> int" where
  "line_account accounts seller ty =
     (if ty = ''liability:seller_payable'' then seller else (case map_of accounts ty of None \<Rightarrow> 0 | Some i \<Rightarrow> i))"

lemma candidates_due: "100 \<le> op_GrossMinor ev \<Longrightarrow>
  map (\<lambda>l. (ll_AccountType l, if 0 < ll_AmountMinor l then (if ll_Direction l = ''C'' then ll_AmountMinor l else - ll_AmountMinor l) else 0))
    (capture_candidates (Aggregate ev)) = map (\<lambda>ty. (ty, due ev ty)) capture_types"
proof -
  assume "100 \<le> op_GrossMinor ev"
  moreover have "(if 0 < x then x else 0) = max 0 x" for x :: int by simp
  ultimately show ?thesis by (simp add: capture_candidates_def Aggregate_def Let_def due_def capture_types_def)
qed

lemma capture_legs:
  assumes "Compute (Aggregate ev) = Inr lines"
  shows "leg_sum (pi_legs (capture_post ev (map (line_entry accounts seller) lines))) a =
    sum_list (map (due ev) (filter (\<lambda>ty. line_account accounts seller ty = a) capture_types))"
proof -
  have g: "100 \<le> op_GrossMinor ev" and l: "lines = filter (\<lambda>l. 0 < ll_AmountMinor l) (capture_candidates (Aggregate ev))"
    using assms by (auto simp: Compute_def Aggregate_def split: if_splits)
  let ?v = "\<lambda>l. if 0 < ll_AmountMinor l then (if ll_Direction l = ''C'' then ll_AmountMinor l else - ll_AmountMinor l) else 0"
  let ?acc = "line_account accounts seller"
  have sum: "leg_sum (map (\<lambda>l. (?acc (ll_AccountType l), if ll_Direction l = ''C'' then ll_AmountMinor l else - ll_AmountMinor l)) (filter (\<lambda>l. 0 < ll_AmountMinor l) ls)) a =
      sum_list (map snd (filter (\<lambda>(ty, x). ?acc ty = a) (map (\<lambda>l. (ll_AccountType l, ?v l)) ls)))" for ls
    by (induction ls) (simp_all add: leg_sum_def)
  have "pi_legs (capture_post ev (map (line_entry accounts seller) lines)) =
      map (\<lambda>l. (?acc (ll_AccountType l), if ll_Direction l = ''C'' then ll_AmountMinor l else - ll_AmountMinor l)) lines"
    by (simp add: pi_legs_def capture_post_def line_entry_def line_account_def comp_def)
  then have "leg_sum (pi_legs (capture_post ev (map (line_entry accounts seller) lines))) a =
      sum_list (map snd (filter (\<lambda>(ty, x). ?acc ty = a) (map (\<lambda>ty. (ty, due ev ty)) capture_types)))"
    unfolding l using sum [of "capture_candidates (Aggregate ev)"] unfolding candidates_due [OF g] by (simp only:)
  then show ?thesis by (simp add: filter_map comp_def)
qed

lemma due_line:
  assumes "Compute (Aggregate ev) = Inr lines" "ty \<in> set capture_types" "due ev ty \<noteq> 0"
  shows "\<exists>l \<in> set lines. ll_AccountType l = ty"
proof -
  have g: "100 \<le> op_GrossMinor ev" and l: "lines = filter (\<lambda>l. 0 < ll_AmountMinor l) (capture_candidates (Aggregate ev))"
    using assms(1) by (auto simp: Compute_def Aggregate_def split: if_splits)
  have "(ty, due ev ty) \<in> set (map (\<lambda>ty. (ty, due ev ty)) capture_types)" using assms(2) by simp
  then show ?thesis using assms(3) unfolding candidates_due [OF g, symmetric] l by (auto split: if_splits)
qed

text \<open>
  C16. \<^verbatim>\<open>PostCapture\<close> is atomic and posts to the right accounts: on an error no posting row exists that did not exist before and no balance
  has moved. On success the order has a posting row whose transaction is the one the ledger recorded under
  the order's key; an order posted before changes nothing; a new one charges at least 100 minor units and moves exactly what the event
  says is due, each amount on its account: the seller's net on an active account owned by the event's seller in its currency, everything else on the
  platform's account of its type and currency.
\<close>

theorem PostCapture_effect:
  assumes "ol_inv db" "PostCapture env oouts outs db ev db c = (err, db', c')"
  shows "case err of
      Some e \<Rightarrow> ol_postings db' = ol_postings db \<and> GetBalanceStrict (ol_wallet db') = GetBalanceStrict (ol_wallet db)
    | None \<Rightarrow> (\<exists>row. FindCapturePostingByOrderID db' (op_OrderID ev) = Some row \<and>
          posted (ol_wallet db') (capture_key (op_OrderID ev)) = Some (cp_TransactionID row)) \<and>
        (if FindCapturePostingByOrderID db (op_OrderID ev) \<noteq> None then db' = db
         else 100 \<le> op_GrossMinor ev \<and>
           (\<exists>acct. (\<forall>ty \<in> set capture_types. due ev ty \<noteq> 0 \<longrightarrow> capture_account (ol_wallet db') ev ty (acct ty)) \<and>
              (\<forall>a. GetBalanceStrict (ol_wallet db') a = GetBalanceStrict (ol_wallet db) a +
                 sum_list (map (due ev) (filter (\<lambda>ty. acct ty = a) capture_types)))))"
proof -
  have recorded: "posted (ol_wallet d) (capture_key oid) = Some (cp_TransactionID row)"
    if "ol_inv d" "FindCapturePostingByOrderID d oid = Some row" for d oid row
    using that by (auto simp: ol_inv_def FindCapturePostingByOrderID_def dest!: find_SomeD)
  from assms show ?thesis
  proof (cases rule: PostCapture_cases)
    case (replay row)
    then show ?thesis using recorded assms(1) by auto
  next
    case (failed e)
    then show ?thesis by (auto simp: seller_opened_def)
  next
    case (captured lines accounts seller db1 t w)
    have "FindCapturePostingByOrderID db1 (op_OrderID ev) = None"
      using captured(1) seller_opened_postings [OF captured(4)] by (simp add: FindCapturePostingByOrderID_def)
    then obtain row where row: "FindCapturePostingByOrderID db' (op_OrderID ev) = Some row"
      using find_captured captured(5) by blast
    have w: "ol_wallet db' = w" using captured(5) by (simp add: captured_db_def)
    have "capture_account w ev ty (line_account accounts seller ty)" if ty: "ty \<in> set capture_types" "due ev ty \<noteq> 0" for ty
    proof (cases "ty = ''liability:seller_payable''")
      case False
      obtain l where "l \<in> set lines" "ll_AccountType l = ty" using due_line [OF captured(3) ty] by blast
      then show ?thesis using captured(9) False by (auto simp: capture_account_def line_account_def)
    qed (simp add: capture_account_def line_account_def captured(8))
    moreover have "GetBalanceStrict w a = GetBalanceStrict (ol_wallet db) a +
        sum_list (map (due ev) (filter (\<lambda>ty. line_account accounts seller ty = a) capture_types))" for a
      by (simp add: captured(7) capture_legs [OF captured(3)])
    moreover have "100 \<le> op_GrossMinor ev" using captured(3) by (auto simp: Compute_def Aggregate_def split: if_splits)
    ultimately show ?thesis using captured(1,2) recorded [OF captured(6) row] row
      unfolding w by (auto intro!: exI [of _ "line_account accounts seller"])
  qed
qed

text \<open>
  The loser of a race gets an error, not the silent success the code comments on: when another
  delivery has committed the same order between the pre-check and the transaction, the swallowed unique
  violation has aborted the transaction, so the call fails and changes neither postings nor balances.
\<close>

theorem PostCapture_race_lost:
  assumes inv: "ol_inv db" and pre: "FindCapturePostingByOrderID pre (op_OrderID ev) = None"
    and row: "FindCapturePostingByOrderID db (op_OrderID ev) = Some row"
    and r: "PostCapture env oouts outs pre ev db c = (err, db', c')"
  shows "err \<noteq> None \<and> ol_postings db' = ol_postings db \<and> GetBalanceStrict (ol_wallet db') = GetBalanceStrict (ol_wallet db)"
proof -
  have body: "\<not> ol_commit_ok d d2" if "capture_body env (ol_wallet d) ev es d c0 = (Inr (t, d2), c1)" "ol_postings d = ol_postings db" for d d2 es c0 t c1
  proof -
    have "List.find (\<lambda>x. cp_OrderID x = op_OrderID ev \<or> cp_IdempotencyKey x = capture_key (op_OrderID ev)) (ol_postings d) \<noteq> None"
      using row that(2) by (auto simp: FindCapturePostingByOrderID_def find_None_iff2 dest!: find_SomeD)
    then show ?thesis
      using that(1) by (auto simp: capture_body_def InsertCapturePosting_def ol_commit_ok_def commit_ok_def
          split: sum.splits prod.splits insert_result.splits if_splits)
  qed
  have tx: "\<exists>e. r2 = Inl e \<and> d2 = d" if "orderledger_WithTx outs (capture_body env (ol_wallet d) ev es) d c = (r2, d2, c2)" "ol_postings d = ol_postings db" for d r2 d2 c2 es
  proof (cases r2)
    case (Inl e)
    then show ?thesis using that with_retry_error unfolding orderledger_WithTx_def by metis
  next
    case (Inr t)
    then show ?thesis using with_retry_success that body unfolding orderledger_WithTx_def by metis
  qed
  obtain so w where s: "FindOrOpenSellerPayable env oouts (op_SellerID ev) (op_Currency ev) (ol_wallet db) = (so, w)" by fastforce
  have w: "GetBalanceStrict w = GetBalanceStrict (ol_wallet db)"
    using openOrFind_keeps [OF s [unfolded FindOrOpenSellerPayable_def]] inv by (simp add: ol_inv_def)
  have tx1: "(\<exists>e. r2 = Inl e) \<and> d2 = db\<lparr>ol_wallet := w\<rparr>"
    if "orderledger_WithTx outs (capture_body env w ev es) (db\<lparr>ol_wallet := w\<rparr>) c = (r2, d2, c2)" for r2 d2 c2 es
    using tx [of "db\<lparr>ol_wallet := w\<rparr>"] that by auto
  show ?thesis
    using r s w unfolding PostCapture_def pre
    by (auto simp: Let_def split: sum.splits prod.splits dest!: tx1)
qed

text \<open>A payment event is settled when its order has a posting row.\<close>

definition capture_settled :: "ol_db \<times> wcache \<Rightarrow> event \<Rightarrow> bool" where
  "capture_settled s ev \<longleftrightarrow>
     (case decode_paid ev of None \<Rightarrow> False | Some ope \<Rightarrow> FindCapturePostingByOrderID (fst s) (op_OrderID ope) \<noteq> None)"

definition ol_handle :: "wenv \<times> tx_outcome list \<times> tx_outcome list \<Rightarrow> event \<Rightarrow> ol_db \<times> wcache \<Rightarrow> bool \<times> (ol_db \<times> wcache)" where
  "ol_handle x ev s =
     (case handlePaid (fst x) (fst (snd x)) (snd (snd x)) ev (fst s) (snd s) of (err, db', c') \<Rightarrow> (err = None, (db', c')))"

lemma ol_handle_cases:
  assumes "ol_handle x ev s = (acked, s')"
  obtains (bad) "decode_paid ev = None" "\<not> acked" "s' = s"
  | (run) ope err where "decode_paid ev = Some ope" "acked = (err = None)"
      "PostCapture (fst x) (fst (snd x)) (snd (snd x)) (fst s) ope (fst s) (snd s) = (err, fst s', snd s')"
  using assms by (cases s; cases s') (auto simp: ol_handle_def handlePaid_def split: option.splits prod.splits)

lemma PostCapture_inv:
  assumes "ol_inv db" "PostCapture env oouts outs db ev db c = (err, db', c')"
  shows "ol_inv db'"
  using assms by (cases rule: PostCapture_cases) (use assms(1) seller_opened_inv in auto)

lemma PostCapture_keeps:
  assumes "ol_inv db" "PostCapture env oouts outs db ev db c = (err, db', c')" "FindCapturePostingByOrderID db oid \<noteq> None"
  shows "FindCapturePostingByOrderID db' oid \<noteq> None"
  using assms(1,2)
proof (cases rule: PostCapture_cases)
  case (captured lines accounts seller db1 t w)
  have "FindCapturePostingByOrderID db1 oid \<noteq> None"
    using assms(3) seller_opened_postings [OF captured(4)] by (simp add: FindCapturePostingByOrderID_def)
  then show ?thesis using find_posting_keep captured(5) by blast
next
  case (failed e)
  then show ?thesis using assms(3) seller_opened_postings by (simp add: FindCapturePostingByOrderID_def)
qed (use assms(3) in simp)

lemma PostCapture_found:
  assumes "ol_inv db" "PostCapture env oouts outs db ev db c = (None, db', c')"
  shows "FindCapturePostingByOrderID db' (op_OrderID ev) \<noteq> None"
  using assms
proof (cases rule: PostCapture_cases)
  case (captured lines accounts seller db1 t w)
  have "FindCapturePostingByOrderID db1 (op_OrderID ev) = None"
    using captured(1) seller_opened_postings [OF captured(4)] by (simp add: FindCapturePostingByOrderID_def)
  then show ?thesis using find_captured captured(5) by blast
qed simp_all

interpretation olc: idempotent_consumer "\<lambda>s. ol_inv (fst s)" ol_handle capture_settled
proof
  fix s x m acked s'
  assume i: "ol_inv (fst s)" and h: "ol_handle x m s = (acked, s')"
  from h show "ol_inv (fst s')"
  proof (cases rule: ol_handle_cases)
    case (run ope err)
    then show ?thesis using PostCapture_inv [OF i run(3)] by simp
  qed (use i in simp)
next
  fix s x m s'
  assume i: "ol_inv (fst s)" and h: "ol_handle x m s = (True, s')"
  from h show "capture_settled s' m"
  proof (cases rule: ol_handle_cases)
    case (run ope err)
    then show ?thesis using PostCapture_found [OF i, of _ _ _ _ _ "fst s'" "snd s'"] by (auto simp: capture_settled_def)
  qed simp
next
  fix s m x acked s'
  assume i: "ol_inv (fst s)" and st: "capture_settled s m" and h: "ol_handle x m s = (acked, s')"
  from h show "s' = s"
  proof (cases rule: ol_handle_cases)
    case (run ope err)
    then show ?thesis using st by (auto simp: capture_settled_def PostCapture_def prod_eq_iff)
  qed simp
next
  fix s m x k acked s'
  assume i: "ol_inv (fst s)" and st: "capture_settled s m" and h: "ol_handle x k s = (acked, s')"
  from h show "capture_settled s' m"
  proof (cases rule: ol_handle_cases)
    case (run ope err)
    then show ?thesis using st PostCapture_keeps [OF i run(3)] by (auto simp: capture_settled_def split: option.splits)
  qed (use st in simp)
qed

text \<open>
  At-least-once delivery posts each capture once: after \<^verbatim>\<open>ecom.order.paid.v1\<close> has been acknowledged,
  re-delivering it at any later point, among any other deliveries and whatever the server does, leaves
  the ledger, the audit table and the process exactly as without the re-delivery.
\<close>

theorem paid_exactly_once:
  assumes "ol_inv (fst s)" "ol_handle x ev s = (True, s1)"
  shows "deliver ol_handle (ms @ (y, ev) # ns) s1 = deliver ol_handle (ms @ ns) s1"
  using assms by (rule olc.redelivery)

section \<open>A concrete capture\<close>

definition ol_ex :: ol_db where
  "ol_ex = \<lparr>ol_wallet = ledger_ex\<lparr>db_accounts := db_accounts ledger_ex @
       [acct_ex 8 ''asset:psp_receivable'' ''platform'' None ''TRY'',
        acct_ex 9 ''liability:shipping_payable'' ''platform'' None ''TRY''], db_next_account := 10\<rparr>,
     ol_postings = [], ol_next = 1\<rparr>"

definition paid_ex_event :: event where
  "paid_ex_event = \<lparr>ev_id = ''order:paid:1'', ev_type = ''ecom.order.paid.v1'', ev_aggregate = ''order'',
     ev_idempotency_key = ''order:paid:1'', ev_market = ''TR'', ev_currency = ''TRY'', ev_trace_id = [],
     ev_span_id = [], ev_occurred_at = 0,
     ev_payload = JObj [(''order_id'', JInt 500), (''user_id'', JInt 70), (''seller_id'', JInt 80),
       (''paid_at'', JTime 0), (''amount_minor'', JInt 11000), (''shipping_minor'', JInt 1000),
       (''currency'', JStr ''TRY''), (''market'', JStr ''TR''),
       (''items'', JArr [JObj [(''variant_id'', JInt 1), (''seller_id'', JInt 80), (''qty'', JInt 1), (''unit_price_minor'', JInt 10000),
          (''commission_pct_bps'', JInt 1000), (''kdv_pct_bps'', JInt 2000), (''commission_amount_minor'', JInt 1000),
          (''kdv_amount_minor'', JInt 200), (''seller_net_minor'', JInt 8800)]])]\<rparr>"

definition ol_run :: "bool \<times> (ol_db \<times> wcache)" where
  "ol_run = ol_handle (wenv_ex, [], [TxFnSerialization]) paid_ex_event (ol_ex, cache_ex)"

lemma ol_run_eval:
  "(fst ol_run, map (\<lambda>r. (cp_OrderID r, cp_TransactionID r)) (ol_postings (fst (snd ol_run))),
    map (GetBalanceStrict (ol_wallet (fst (snd ol_run)))) [8, 7, 2, 3, 9]) =
   (True, [(500, 1)], [-11000, 8800, 1000, 200, 1000])"
  by code_simp

lemma ol_ex_inv: "ol_inv ol_ex"
proof -
  have "wallet_inv (ol_wallet ol_ex)"
    by (simp add: wallet_inv_def ol_ex_def ledger_ex_def acct_ex_def fresh_ids_def outbox_ok_def currency_total_def)
  then show ?thesis by (simp add: ol_inv_def fresh_ids_def) (simp add: ol_ex_def posted_def ledger_ex_def)
qed

theorem paid_exactly_once_witness:
  "deliver ol_handle [((wenv_ex, [], []), paid_ex_event)] (snd ol_run) = snd ol_run \<and>
   GetBalanceStrict (ol_wallet (fst (snd ol_run))) 7 = 8800"
proof -
  have "ol_run = (True, snd ol_run)" using ol_run_eval by (simp add: prod_eq_iff)
  then have h: "ol_handle (wenv_ex, [], [TxFnSerialization]) paid_ex_event (ol_ex, cache_ex) = (True, snd ol_run)"
    by (simp add: ol_run_def)
  show ?thesis
    using paid_exactly_once [of "(ol_ex, cache_ex)" _ paid_ex_event "snd ol_run" "[]" "(wenv_ex, [], [])" "[]"] h ol_ex_inv ol_run_eval
    by simp
qed

definition paid_ex_order :: order_paid where
  "paid_ex_order = the (decode_paid paid_ex_event)"

theorem PostCapture_effect_witness:
  "\<exists>db' c' row. PostCapture wenv_ex [] [TxFnSerialization] ol_ex paid_ex_order ol_ex cache_ex = (None, db', c') \<and>
     FindCapturePostingByOrderID db' 500 = Some row \<and> posted (ol_wallet db') (capture_key 500) = Some (cp_TransactionID row)"
proof -
  have d: "decode_paid paid_ex_event = Some paid_ex_order" "op_OrderID paid_ex_order = 500" by code_simp+
  obtain err db' c' where p: "PostCapture wenv_ex [] [TxFnSerialization] ol_ex paid_ex_order ol_ex cache_ex = (err, db', c')"
    by (metis prod_cases3)
  then have "err = None" using ol_run_eval by (simp add: ol_run_def ol_handle_def handlePaid_def d)
  then show ?thesis using PostCapture_effect [OF ol_ex_inv p] p d(2) by auto
qed

theorem PostCapture_race_lost_witness:
  "fst (PostCapture wenv_ex [] [] ol_ex paid_ex_order (fst (snd ol_run)) cache_ex) \<noteq> None"
proof -
  have d: "op_OrderID paid_ex_order = 500" by code_simp
  have "ol_inv (fst (snd ol_run))"
    using olc.handle_inv [of "(ol_ex, cache_ex)" "(wenv_ex, [], [TxFnSerialization])" paid_ex_event] ol_ex_inv
    by (simp add: ol_run_def) (metis prod.collapse)
  moreover have "FindCapturePostingByOrderID ol_ex (op_OrderID paid_ex_order) = None"
    by (simp add: FindCapturePostingByOrderID_def ol_ex_def)
  moreover obtain row where "FindCapturePostingByOrderID (fst (snd ol_run)) (op_OrderID paid_ex_order) = Some row"
    using ol_run_eval d by (auto simp: FindCapturePostingByOrderID_def)
  moreover obtain err db' c' where "PostCapture wenv_ex [] [] ol_ex paid_ex_order (fst (snd ol_run)) cache_ex = (err, db', c')"
    by (metis prod_cases3)
  ultimately show ?thesis using PostCapture_race_lost [of "fst (snd ol_run)" ol_ex paid_ex_order] by simp
qed

end
