(* ===== verification/SellerPayout.thy ===== *)
theory SellerPayout
  imports Wallet Consumer
begin

text \<open>
  The seller payout engine: \<^verbatim>\<open>internal/sellerpayout\<close> with its Sipay client, and the tables of
  \<^verbatim>\<open>deploy/postgres-ledger/init/60-65\<close>. Delivered orders schedule one payout per seller; the daily run
  groups due payouts per seller and processes each group in three phases, a transaction that creates
  the batch, a transfer call to the payment provider outside any transaction, and a transaction that posts
  the ledger move; a second job reconciles batches that got stuck in between.

  The payment provider is code outside the repository: it is a function of the requests it has received.
  The requests sent are kept in the process-local state, which no rollback undoes.
\<close>

section \<open>Data\<close>

record payout =
  po_ID :: int
  po_OrderID :: int
  po_SellerID :: int
  po_AmountMinor :: int
  po_Currency :: string
  po_DeliveredAt :: instant
  po_UnlockAt :: day
  po_Status :: string
  po_Market :: string
  po_IdempotencyKey :: string
  po_BatchID :: "int option"

record payout_batch =
  bt_ID :: int
  bt_SellerID :: int
  bt_Currency :: string
  bt_PayoutDate :: day
  bt_TotalAmountMinor :: int
  bt_PspTransferID :: string
  bt_Status :: string
  bt_LedgerTransactionID :: "int option"
  bt_PaidAt :: "instant option"
  bt_IdempotencyKey :: string
  bt_AttemptCount :: int
  bt_LastAttemptAt :: "instant option"
  bt_LastError :: string
  bt_Market :: string

record psp_account =
  pa_ID :: int
  pa_SellerID :: int
  pa_PspMemberID :: string
  pa_Market :: string
  pa_Status :: string

record ledger_alert =
  la_Severity :: string
  la_Currency :: string
  la_BatchID :: "int option"
  la_AlertType :: string
  la_Message :: string
  la_AcknowledgedAt :: "instant option"

record transfer_request =
  tr_BatchID :: int
  tr_PspMemberID :: string
  tr_AmountMinor :: int
  tr_Currency :: string
  tr_IdempotencyKey :: string
  tr_Market :: string

record transfer_response =
  ts_TransferID :: string
  ts_Status :: string
  ts_ErrorMsg :: string

record run_daily_result =
  rd_Batched :: int
  rd_Failed :: int
  rd_Skipped :: int

record sp_db =
  sp_wallet :: wallet_db
  sp_payouts :: "payout list"
  sp_next_payout :: int
  sp_batches :: "payout_batch list"
  sp_next_batch :: int
  sp_psp_accounts :: "psp_account list"
  sp_next_psp :: int
  sp_alerts :: "ledger_alert list"

datatype sp_error =
    SpPayoutAlreadyExists
  | SpBatchNotFound
  | SpBatchAlreadyExists
  | SpPspAccountNotFound
  | SpAmbiguousTransfer
  | SpCalendar
  | SpConstraint
  | SpRead
  | SpPsp string
  | SpWallet wallet_error
  | SpOpen "wallet_error tx_error"
  | SpUnmarshal

section \<open>Repository\<close>

definition sp_commit_ok :: "sp_db \<Rightarrow> sp_db \<Rightarrow> bool" where
  "sp_commit_ok old new \<longleftrightarrow> commit_ok (sp_wallet old) (sp_wallet new)"

definition sellerpayout_WithTx :: "tx_outcome list \<Rightarrow> (sp_db, 'c, sp_error, 'a) tx_body
    \<Rightarrow> sp_db \<Rightarrow> 'c \<Rightarrow> (sp_error tx_error + 'a) \<times> sp_db \<times> 'c" where
  "sellerpayout_WithTx outs fn db c = with_retry False 1 outs sp_commit_ok fn db c"

definition InsertPayout :: "payout \<Rightarrow> sp_db \<Rightarrow> sp_error + sp_db" where
  "InsertPayout p db =
     (if po_AmountMinor p \<le> 0 then Inl SpConstraint
      else if List.find (\<lambda>r. po_IdempotencyKey r = po_IdempotencyKey p) (sp_payouts db) \<noteq> None
      then Inl SpPayoutAlreadyExists
      else Inr (db\<lparr>sp_payouts := sp_payouts db @ [p\<lparr>po_ID := sp_next_payout db, po_BatchID := None\<rparr>],
                   sp_next_payout := sp_next_payout db + 1\<rparr>))"

definition FindPayoutByKey :: "sp_db \<Rightarrow> string \<Rightarrow> payout option" where
  "FindPayoutByKey db key = List.find (\<lambda>r. po_IdempotencyKey r = key) (sp_payouts db)"

text \<open>\<^verbatim>\<open>ORDER BY seller_id, id\<close>: rows are in id order, and \<open>sort_key\<close> is stable.\<close>

definition is_payable :: "instant \<Rightarrow> string \<Rightarrow> payout \<Rightarrow> bool" where
  "is_payable payoutDate currency p \<longleftrightarrow>
     po_Status p = ''scheduled'' \<and> po_Currency p = currency \<and> po_UnlockAt p \<le> day_of payoutDate"

definition FetchScheduledPayouts :: "sp_db \<Rightarrow> instant \<Rightarrow> string \<Rightarrow> nat \<Rightarrow> payout list" where
  "FetchScheduledPayouts db payoutDate currency batchSize =
     take batchSize (sort_key po_SellerID (filter (is_payable payoutDate currency) (sp_payouts db)))"

definition UpdatePayoutBatchID :: "int \<Rightarrow> int \<Rightarrow> sp_db \<Rightarrow> sp_db" where
  "UpdatePayoutBatchID payoutID batchID db =
     db\<lparr>sp_payouts := update_where (\<lambda>p. po_ID p = payoutID) (\<lambda>p. p\<lparr>po_BatchID := Some batchID\<rparr>) (sp_payouts db)\<rparr>"

definition InsertBatch :: "instant \<Rightarrow> payout_batch \<Rightarrow> sp_db \<Rightarrow> sp_error + payout_batch \<times> sp_db" where
  "InsertBatch now b db =
     (if bt_TotalAmountMinor b \<le> 0 then Inl SpConstraint
      else if List.find (\<lambda>r. bt_IdempotencyKey r = bt_IdempotencyKey b) (sp_batches db) \<noteq> None
      then Inl SpBatchAlreadyExists
      else (let b' = b\<lparr>bt_ID := sp_next_batch db, bt_Status := ''processing'', bt_AttemptCount := 1,
                       bt_LastAttemptAt := Some now\<rparr> in
            Inr (b', db\<lparr>sp_batches := sp_batches db @ [b'], sp_next_batch := sp_next_batch db + 1\<rparr>)))"

definition FindBatchByKey :: "sp_db \<Rightarrow> string \<Rightarrow> payout_batch option" where
  "FindBatchByKey db key = List.find (\<lambda>r. bt_IdempotencyKey r = key) (sp_batches db)"

definition UpdateBatchPspTransferID :: "int \<Rightarrow> string \<Rightarrow> sp_db \<Rightarrow> sp_db" where
  "UpdateBatchPspTransferID batchID transferID db =
     db\<lparr>sp_batches := update_where (\<lambda>b. bt_ID b = batchID) (\<lambda>b. b\<lparr>bt_PspTransferID := transferID\<rparr>) (sp_batches db)\<rparr>"

definition UpdateBatchPaid :: "int \<Rightarrow> int \<Rightarrow> string \<Rightarrow> instant \<Rightarrow> sp_db \<Rightarrow> sp_db" where
  "UpdateBatchPaid batchID ledgerTxnID transferID paidAt db =
     db\<lparr>sp_batches := update_where (\<lambda>b. bt_ID b = batchID)
          (\<lambda>b. b\<lparr>bt_Status := ''paid'', bt_PspTransferID := transferID, bt_LedgerTransactionID := Some ledgerTxnID,
                  bt_PaidAt := Some paidAt\<rparr>) (sp_batches db)\<rparr>"

definition MarkPayoutsPaidByBatch :: "int \<Rightarrow> sp_db \<Rightarrow> sp_db" where
  "MarkPayoutsPaidByBatch batchID db =
     db\<lparr>sp_payouts := update_where (\<lambda>p. po_BatchID p = Some batchID \<and> po_Status p = ''scheduled'')
          (\<lambda>p. p\<lparr>po_Status := ''paid''\<rparr>) (sp_payouts db)\<rparr>"

definition UpdateBatchStatus :: "instant \<Rightarrow> int \<Rightarrow> string \<Rightarrow> string \<Rightarrow> sp_db \<Rightarrow> sp_db" where
  "UpdateBatchStatus now batchID status lastError db =
     db\<lparr>sp_batches := update_where (\<lambda>b. bt_ID b = batchID)
          (\<lambda>b. b\<lparr>bt_Status := status, bt_LastError := lastError, bt_LastAttemptAt := Some now,
                  bt_AttemptCount := bt_AttemptCount b + 1\<rparr>) (sp_batches db)\<rparr>"

definition FetchProcessingBatches :: "instant \<Rightarrow> sp_db \<Rightarrow> payout_batch list" where
  "FetchProcessingBatches now db =
     filter (\<lambda>b. bt_Status b = ''processing'' \<and>
       (case bt_LastAttemptAt b of None \<Rightarrow> True | Some t \<Rightarrow> t < now - 10 * 60 * ns_per_sec)) (sp_batches db)"

definition UpsertSellerPspAccount :: "int \<Rightarrow> string \<Rightarrow> string \<Rightarrow> sp_db \<Rightarrow> sp_db" where
  "UpsertSellerPspAccount sellerID member market db =
     (if List.find (\<lambda>a. pa_SellerID a = sellerID) (sp_psp_accounts db) \<noteq> None
      then db\<lparr>sp_psp_accounts := update_where (\<lambda>a. pa_SellerID a = sellerID)
                (\<lambda>a. a\<lparr>pa_PspMemberID := member, pa_Market := market, pa_Status := ''active''\<rparr>) (sp_psp_accounts db)\<rparr>
      else db\<lparr>sp_psp_accounts := sp_psp_accounts db @
                [\<lparr>pa_ID = sp_next_psp db, pa_SellerID = sellerID, pa_PspMemberID = member, pa_Market = market,
                  pa_Status = ''active''\<rparr>], sp_next_psp := sp_next_psp db + 1\<rparr>)"

definition FindSellerPspAccount :: "sp_db \<Rightarrow> int \<Rightarrow> sp_error + psp_account" where
  "FindSellerPspAccount db sellerID =
     (case List.find (\<lambda>a. pa_SellerID a = sellerID) (sp_psp_accounts db) of
        None \<Rightarrow> Inl SpPspAccountNotFound
      | Some a \<Rightarrow> Inr a)"

definition InsertLedgerAlert :: "ledger_alert \<Rightarrow> sp_db \<Rightarrow> sp_db" where
  "InsertLedgerAlert a db = db\<lparr>sp_alerts := sp_alerts db @ [a]\<rparr>"

definition HasOpenAlertForBatch :: "sp_db \<Rightarrow> int \<Rightarrow> bool" where
  "HasOpenAlertForBatch db batchID =
     list_ex (\<lambda>a. la_BatchID a = Some batchID \<and> la_AcknowledgedAt a = None) (sp_alerts db)"

section \<open>The Sipay client\<close>

datatype psp_mode = ModeLive | ModeShadow | ModeMock

record sipay_response =
  si_Status :: int
  si_Message :: string
  si_TransferID :: string

definition formatMinorAsTRY :: "int \<Rightarrow> string" where
  "formatMinorAsTRY minor =
     itoa (minor sdiv 100) @ ''.'' @
     (let frac = minor - (minor sdiv 100) * 100 in
      if frac < 0 then itoa frac else pad_dec 2 (nat frac))"

text \<open>\<open>post\<close> is the HTTP round trip: the amount, currency, member and invoice id it carries, and the reply.\<close>

definition sipay_Transfer :: "psp_mode \<Rightarrow> (string \<Rightarrow> string \<Rightarrow> string \<Rightarrow> string \<Rightarrow> string + sipay_response)
    \<Rightarrow> transfer_request \<Rightarrow> string + transfer_response" where
  "sipay_Transfer mode post req =
     (case mode of
        ModeShadow \<Rightarrow> Inr \<lparr>ts_TransferID = ''shadow_synthetic_'' @ itoa (tr_BatchID req), ts_Status = ''paid'', ts_ErrorMsg = []\<rparr>
      | ModeMock \<Rightarrow> Inr \<lparr>ts_TransferID = ''mock_'' @ itoa (tr_BatchID req), ts_Status = ''paid'', ts_ErrorMsg = []\<rparr>
      | ModeLive \<Rightarrow>
          (case post (tr_PspMemberID req) (formatMinorAsTRY (tr_AmountMinor req)) (tr_Currency req) (tr_IdempotencyKey req) of
             Inl e \<Rightarrow> Inl (''sipay: transfer call: '' @ e)
           | Inr resp \<Rightarrow>
               if si_Status resp \<noteq> 1 then Inl (''sipay: transfer rejected: '' @ si_Message resp)
               else Inr \<lparr>ts_TransferID = si_TransferID resp, ts_Status = ''paid'', ts_ErrorMsg = []\<rparr>))"

definition sipay_GetTransferStatus :: "psp_mode \<Rightarrow> (string \<Rightarrow> string + sipay_response) \<Rightarrow> string \<Rightarrow> string + transfer_response" where
  "sipay_GetTransferStatus mode post transferID =
     (if mode = ModeShadow \<or> mode = ModeMock
      then Inr \<lparr>ts_TransferID = transferID, ts_Status = ''paid'', ts_ErrorMsg = []\<rparr>
      else (case post transferID of
              Inl e \<Rightarrow> Inl (''sipay: get transfer status: '' @ e)
            | Inr resp \<Rightarrow>
                Inr \<lparr>ts_TransferID = si_TransferID resp,
                     ts_Status = (if si_Status resp = 1 then ''paid'' else if si_Status resp < 0 then ''failed'' else ''pending''),
                     ts_ErrorMsg = si_Message resp\<rparr>))"

section \<open>Scheduling\<close>

record delivered_item =
  di_SellerID :: int
  di_SellerNetMinor :: int

record payout_event =
  pe_OrderID :: int
  pe_DeliveredAt :: instant
  pe_Market :: string
  pe_Currency :: string
  pe_Items :: "delivered_item list"

record sp_cfg =
  sc_currency :: string
  sc_calendars :: "(string \<times> calendar) list"

definition bySellerNet :: "delivered_item list \<Rightarrow> (int \<times> int) list" where
  "bySellerNet items =
     fold (\<lambda>it. map_upd (di_SellerID it) (\<lambda>v. wrap64 ((case v of None \<Rightarrow> 0 | Some n \<Rightarrow> n) + di_SellerNetMinor it))) items []"

definition payout_key :: "int \<Rightarrow> int \<Rightarrow> string" where
  "payout_key orderID sellerID = ''payout:order_'' @ itoa orderID @ '':seller_'' @ itoa sellerID"

definition new_payout :: "sp_cfg \<Rightarrow> payout_event \<Rightarrow> day \<Rightarrow> int \<Rightarrow> int \<Rightarrow> payout" where
  "new_payout cfg ev unlockAt sellerID netMinor =
     \<lparr>po_ID = 0, po_OrderID = pe_OrderID ev, po_SellerID = sellerID, po_AmountMinor = netMinor,
      po_Currency = sc_currency cfg, po_DeliveredAt = pe_DeliveredAt ev, po_UnlockAt = unlockAt,
      po_Status = ''scheduled'', po_Market = pe_Market ev, po_IdempotencyKey = payout_key (pe_OrderID ev) sellerID,
      po_BatchID = None\<rparr>"

definition schedule_body :: "sp_cfg \<Rightarrow> payout_event \<Rightarrow> day \<Rightarrow> (int \<times> int) list \<Rightarrow> sp_db \<Rightarrow> sp_error + sp_db" where
  "schedule_body cfg ev unlockAt nets db =
     for_each (\<lambda>(sellerID, netMinor) d.
        if netMinor \<le> 0 then Inr d else InsertPayout (new_payout cfg ev unlockAt sellerID netMinor) d) nets db"

definition SchedulePayoutsForOrder :: "sp_cfg \<Rightarrow> (int \<Rightarrow> int) \<Rightarrow> tx_outcome list \<Rightarrow> payout_event \<Rightarrow> sp_db
    \<Rightarrow> (sp_error tx_error) option \<times> sp_db" where
  "SchedulePayoutsForOrder cfg prio outs ev db =
     (let nets = bySellerNet (pe_Items ev) in
      if nets = [] then (None, db)
      else (case static_Load (sc_calendars cfg) (pe_Market ev) of
              None \<Rightarrow> (Some (TxFn SpCalendar), db)
            | Some cal \<Rightarrow>
                (let unlockAt = day_of (AddBusinessDays (pe_DeliveredAt ev) 3 cal) in
                 case sellerpayout_WithTx outs (\<lambda>tx c. (map_sum id (\<lambda>d. ((), d)) (schedule_body cfg ev unlockAt (range_map prio nets) tx), c)) db () of
                   (Inl e, db', _) \<Rightarrow> (if e = TxFn SpPayoutAlreadyExists then None else Some e, db')
                 | (Inr _, db', _) \<Rightarrow> (None, db'))))"

definition decode_delivered_item :: "json \<Rightarrow> delivered_item option" where
  "decode_delivered_item j =
     (case (jint ''seller_id'' j, jint ''seller_net_minor'' j) of
        (Some s, Some n) \<Rightarrow> Some \<lparr>di_SellerID = s, di_SellerNetMinor = n\<rparr>
      | _ \<Rightarrow> None)"

definition decode_payout_event :: "event \<Rightarrow> payout_event option" where
  "decode_payout_event ev =
     (let j = ev_payload ev in
      case (jint ''order_id'' j, jtime ''delivered_at'' j, jstr ''market'' j, jstr ''currency'' j, jarr decode_delivered_item ''items'' j) of
        (Some oid, Some at, Some _, Some _, Some items) \<Rightarrow>
          Some \<lparr>pe_OrderID = oid, pe_DeliveredAt = at, pe_Market = ev_market ev, pe_Currency = ev_currency ev, pe_Items = items\<rparr>
      | _ \<Rightarrow> None)"

definition payout_handleDelivered :: "sp_cfg \<Rightarrow> (int \<Rightarrow> int) \<Rightarrow> tx_outcome list \<Rightarrow> event \<Rightarrow> sp_db
    \<Rightarrow> (sp_error tx_error) option \<times> sp_db" where
  "payout_handleDelivered cfg prio outs ev db =
     (case decode_payout_event ev of
        None \<Rightarrow> (Some (TxFn SpUnmarshal), db)
      | Some pe \<Rightarrow> SchedulePayoutsForOrder cfg prio outs pe db)"

section \<open>The daily run\<close>

text \<open>
  The payment provider's answers depend on what it has received so far. \<open>sp_srv\<close> is what clock and
  database do while one batch is processed: whether the look-ups and the statements outside
  transactions succeed, and the outcomes of the three transactions (account opening, Tx1, Tx2).
\<close>

record psp =
  ps_Transfer :: "transfer_request list \<Rightarrow> transfer_request \<Rightarrow> string + transfer_response"
  ps_GetTransferStatus :: "transfer_request list \<Rightarrow> string \<Rightarrow> string + transfer_response"

record sp_srv =
  sv_env :: wenv
  sv_find_ok :: bool
  sv_oouts :: "tx_outcome list"
  sv_tx1 :: "tx_outcome list"
  sv_store_ok :: bool
  sv_status_ok :: bool
  sv_alert_ok :: bool
  sv_tx2 :: "tx_outcome list"

record sp_local =
  sl_cache :: wcache
  sl_sent :: "transfer_request list"
  sl_result :: run_daily_result

definition dailyBatchSize :: nat where
  "dailyBatchSize = 200"

definition escrowAcctType :: string where
  "escrowAcctType = ''asset:bank:escrow''"

definition batchIdempotencyKey :: "int \<Rightarrow> day \<Rightarrow> string \<Rightarrow> string" where
  "batchIdempotencyKey sellerID payoutDate currency =
     ''payout:seller_'' @ itoa sellerID @ '':date_'' @ fmt_yyyymmdd payoutDate @ '':ccy_'' @ currency"

definition add_skipped :: "sp_local \<Rightarrow> sp_local" where
  "add_skipped l = l\<lparr>sl_result := (sl_result l)\<lparr>rd_Skipped := rd_Skipped (sl_result l) + 1\<rparr>\<rparr>"

definition add_batched :: "sp_local \<Rightarrow> sp_local" where
  "add_batched l = l\<lparr>sl_result := (sl_result l)\<lparr>rd_Batched := rd_Batched (sl_result l) + 1\<rparr>\<rparr>"

definition add_failed :: "sp_local \<Rightarrow> sp_local" where
  "add_failed l = l\<lparr>sl_result := (sl_result l)\<lparr>rd_Failed := rd_Failed (sl_result l) + 1\<rparr>\<rparr>"

definition payout_post :: "int \<Rightarrow> int \<Rightarrow> int \<Rightarrow> int \<Rightarrow> int \<Rightarrow> string \<Rightarrow> string \<Rightarrow> string \<Rightarrow> post_input" where
  "payout_post batchID sellerID sellerPayableID escrowAcctID totalMinor currency market batchKey =
     \<lparr>pi_Type = ''seller_payout'', pi_Reference = [], pi_FxPairID = [], pi_IdempotencyKey = batchKey,
      pi_Market = market, pi_Currency = currency,
      pi_Entries = [\<lparr>e_AccountID = sellerPayableID, e_Direction = Debit, e_AmountMinor = totalMinor\<rparr>,
                    \<lparr>e_AccountID = escrowAcctID, e_Direction = Credit, e_AmountMinor = totalMinor\<rparr>],
      pi_EventType = ''fin.seller.payout.batch.paid.v1'',
      pi_Metadata = [(''batch_id'', itoa batchID), (''seller_id'', itoa sellerID)]\<rparr>"

definition tx2_body :: "wenv \<Rightarrow> wallet_db \<Rightarrow> int \<Rightarrow> string \<Rightarrow> post_input \<Rightarrow> (sp_db, wcache, sp_error, unit) tx_body" where
  "tx2_body env pool batchID pspTransferID postIn db c =
     (case PostInTx env pool postIn (sp_wallet db) c of
        (Inl e, c') \<Rightarrow> (Inl (SpWallet e), c')
      | (Inr (ledgerTxnID, w), c') \<Rightarrow>
          (Inr ((), MarkPayoutsPaidByBatch batchID
             (UpdateBatchPaid batchID ledgerTxnID pspTransferID (we_now env) (db\<lparr>sp_wallet := w\<rparr>))), c'))"

text \<open>\<open>counted\<close>: whether a result record is passed (the daily run) or nil (the reconciler).\<close>

definition runTx2 :: "sp_srv \<Rightarrow> bool \<Rightarrow> int \<Rightarrow> string \<Rightarrow> int \<Rightarrow> int \<Rightarrow> int \<Rightarrow> int \<Rightarrow> string \<Rightarrow> string \<Rightarrow> string
    \<Rightarrow> sp_db \<Rightarrow> sp_local \<Rightarrow> (sp_error tx_error) option \<times> sp_db \<times> sp_local" where
  "runTx2 sv counted batchID pspTransferID sellerID sellerPayableID escrowAcctID totalMinor currency market batchKey db l =
     (if \<not> sv_alert_ok sv then (Some (TxFn SpRead), db, l)
      else if HasOpenAlertForBatch db batchID then (None, db, if counted then add_skipped l else l)
      else (case sellerpayout_WithTx (sv_tx2 sv)
              (tx2_body (sv_env sv) (sp_wallet db) batchID pspTransferID
                 (payout_post batchID sellerID sellerPayableID escrowAcctID totalMinor currency market batchKey)) db (sl_cache l) of
              (Inl e, db', c) \<Rightarrow> (Some e, db', l\<lparr>sl_cache := c\<rparr>)
            | (Inr _, db', c) \<Rightarrow> (None, db', l\<lparr>sl_cache := c\<rparr>)))"

definition new_batch :: "int \<Rightarrow> instant \<Rightarrow> int \<Rightarrow> string \<Rightarrow> string \<Rightarrow> payout_batch" where
  "new_batch sellerID payoutDate totalMinor market currency =
     \<lparr>bt_ID = 0, bt_SellerID = sellerID, bt_Currency = currency, bt_PayoutDate = day_of payoutDate,
      bt_TotalAmountMinor = totalMinor, bt_PspTransferID = [], bt_Status = [], bt_LedgerTransactionID = None,
      bt_PaidAt = None, bt_IdempotencyKey = batchIdempotencyKey sellerID (day_of payoutDate) currency,
      bt_AttemptCount = 0, bt_LastAttemptAt = None, bt_LastError = [], bt_Market = market\<rparr>"

definition tx1_body :: "instant \<Rightarrow> payout_batch \<Rightarrow> payout list \<Rightarrow> sp_db \<Rightarrow> sp_error + payout_batch \<times> sp_db" where
  "tx1_body now b payouts db =
     (case InsertBatch now b db of
        Inl e \<Rightarrow> Inl e
      | Inr (b', db1) \<Rightarrow> Inr (b', fold (\<lambda>p. UpdatePayoutBatchID (po_ID p) (bt_ID b')) payouts db1))"

text \<open>
  \<^verbatim>\<open>processBatch\<close>. An existing batch is skipped whatever its status; every failure after Tx1 leaves the
  batch row behind.
\<close>

definition psp_phase :: "psp \<Rightarrow> sp_srv \<Rightarrow> payout_batch \<Rightarrow> string \<Rightarrow> int \<Rightarrow> int \<Rightarrow> sp_db \<Rightarrow> sp_local
    \<Rightarrow> (sp_error tx_error) option \<times> sp_db \<times> sp_local" where
  "psp_phase psp sv b member sellerPayableID escrowAcctID db l =
     (let req = \<lparr>tr_BatchID = bt_ID b, tr_PspMemberID = member, tr_AmountMinor = bt_TotalAmountMinor b,
                 tr_Currency = bt_Currency b, tr_IdempotencyKey = bt_IdempotencyKey b, tr_Market = bt_Market b\<rparr>;
          resp = ps_Transfer psp (sl_sent l) req;
          l1 = l\<lparr>sl_sent := sl_sent l @ [req]\<rparr> in
      case resp of
        Inl e \<Rightarrow>
          (Some (TxFn (SpPsp e)),
           if sv_status_ok sv then UpdateBatchStatus (we_now (sv_env sv)) (bt_ID b) ''failed'' e db else db, l1)
      | Inr r \<Rightarrow>
          runTx2 sv True (bt_ID b) (ts_TransferID r) (bt_SellerID b) sellerPayableID escrowAcctID (bt_TotalAmountMinor b)
            (bt_Currency b) (bt_Market b) (bt_IdempotencyKey b)
            (if ts_TransferID r \<noteq> [] \<and> sv_store_ok sv then UpdateBatchPspTransferID (bt_ID b) (ts_TransferID r) db else db) l1)"

definition processBatch :: "psp \<Rightarrow> sp_srv \<Rightarrow> int \<Rightarrow> payout list \<Rightarrow> int \<Rightarrow> instant \<Rightarrow> string \<Rightarrow> string \<Rightarrow> int
    \<Rightarrow> sp_db \<Rightarrow> sp_local \<Rightarrow> (sp_error tx_error) option \<times> sp_db \<times> sp_local" where
  "processBatch psp sv sellerID payouts totalMinor payoutDate market currency escrowAcctID db l =
     (if \<not> sv_find_ok sv then (Some (TxFn SpRead), db, l)
      else (case FindBatchByKey db (batchIdempotencyKey sellerID (day_of payoutDate) currency) of
        Some _ \<Rightarrow> (None, db, add_skipped l)
      | None \<Rightarrow>
          (case FindSellerPspAccount db sellerID of
             Inl e \<Rightarrow> (Some (TxFn e), db, l)
           | Inr pspAcc \<Rightarrow>
               (case FindOrOpenSellerPayable (sv_env sv) (sv_oouts sv) sellerID currency (sp_wallet db) of
                  (Inl e, w) \<Rightarrow> (Some (TxFn (SpOpen e)), db\<lparr>sp_wallet := w\<rparr>, l)
                | (Inr sellerPayableID, w) \<Rightarrow>
                    (case sellerpayout_WithTx (sv_tx1 sv)
                            (\<lambda>tx c. (tx1_body (we_now (sv_env sv)) (new_batch sellerID payoutDate totalMinor market currency) payouts tx, c))
                            (db\<lparr>sp_wallet := w\<rparr>) () of
                       (Inl e, db1, _) \<Rightarrow>
                         if e = TxFn SpBatchAlreadyExists then (None, db1, add_skipped l) else (Some e, db1, l)
                     | (Inr b, db1, _) \<Rightarrow>
                         psp_phase psp sv b (pa_PspMemberID pspAcc) sellerPayableID escrowAcctID db1 (add_batched l))))))"

definition add_payout :: "payout \<Rightarrow> (payout list \<times> int) option \<Rightarrow> payout list \<times> int" where
  "add_payout p v = (case v of None \<Rightarrow> ([p], wrap64 (po_AmountMinor p)) | Some (ps, t) \<Rightarrow> (ps @ [p], wrap64 (t + po_AmountMinor p)))"

definition group_payouts :: "payout list \<Rightarrow> (int \<times> payout list \<times> int) list" where
  "group_payouts payouts = fold (\<lambda>p. map_upd (po_SellerID p) (add_payout p)) payouts []"

text \<open>One round of the outer loop meets one \<open>daily_env\<close>; the loop may run for ever, so it takes fuel.\<close>

record daily_env =
  de_fetch_ok :: bool
  de_prio :: "int \<Rightarrow> int"
  de_srv :: "int \<Rightarrow> sp_srv"

fun process_groups :: "psp \<Rightarrow> (int \<Rightarrow> sp_srv) \<Rightarrow> instant \<Rightarrow> string \<Rightarrow> string \<Rightarrow> int \<Rightarrow> (int \<times> payout list \<times> int) list
    \<Rightarrow> sp_db \<Rightarrow> sp_local \<Rightarrow> sp_db \<times> sp_local" where
  "process_groups psp srv payoutDate market currency escrow [] db l = (db, l)"
| "process_groups psp srv payoutDate market currency escrow ((sellerID, payouts, totalMinor) # gs) db l =
     (case processBatch psp (srv sellerID) sellerID payouts totalMinor payoutDate market currency escrow db l of
        (err, db', l') \<Rightarrow>
          process_groups psp srv payoutDate market currency escrow gs db' (if err = None then l' else add_failed l'))"

fun daily_loop :: "nat \<Rightarrow> psp \<Rightarrow> (nat \<Rightarrow> daily_env) \<Rightarrow> nat \<Rightarrow> instant \<Rightarrow> string \<Rightarrow> string \<Rightarrow> int \<Rightarrow> sp_db \<Rightarrow> sp_local
    \<Rightarrow> (sp_error option \<times> sp_db \<times> sp_local) option" where
  "daily_loop 0 psp envs n payoutDate market currency escrow db l = None"
| "daily_loop (Suc fuel) psp envs n payoutDate market currency escrow db l =
     (if \<not> de_fetch_ok (envs n) then Some (Some SpRead, db, l)
      else (let payouts = FetchScheduledPayouts db payoutDate currency dailyBatchSize in
            if payouts = [] then Some (None, db, l)
            else (case process_groups psp (de_srv (envs n)) payoutDate market currency escrow
                         (range_map (de_prio (envs n)) (group_payouts payouts)) db l of
                    (db', l') \<Rightarrow>
                      if length payouts < dailyBatchSize then Some (None, db', l')
                      else daily_loop fuel psp envs (Suc n) payoutDate market currency escrow db' l')))"

definition RunDailyPayouts :: "nat \<Rightarrow> psp \<Rightarrow> (nat \<Rightarrow> daily_env) \<Rightarrow> instant \<Rightarrow> string \<Rightarrow> string \<Rightarrow> sp_db \<Rightarrow> sp_local
    \<Rightarrow> (sp_error option \<times> sp_db \<times> sp_local) option" where
  "RunDailyPayouts fuel psp envs payoutDate market currency db l =
     (let l0 = l\<lparr>sl_result := \<lparr>rd_Batched = 0, rd_Failed = 0, rd_Skipped = 0\<rparr>\<rparr> in
      case FindAccount (sp_wallet db) escrowAcctType currency of
        Inl e \<Rightarrow> Some (Some (SpWallet e), db, l0)
      | Inr escrowAcctID \<Rightarrow> daily_loop fuel psp envs 0 payoutDate market currency escrowAcctID db l0)"

section \<open>Reconciliation of stuck batches\<close>

definition ambiguous_message :: "payout_batch \<Rightarrow> string \<Rightarrow> string" where
  "ambiguous_message b transferID =
     ''ambiguous PSP transfer: batch '' @ itoa (bt_ID b) @ '', stored='' @ bt_PspTransferID b @ '', psp='' @ transferID"

definition reconcile_tx2 :: "sp_srv \<Rightarrow> payout_batch \<Rightarrow> string \<Rightarrow> sp_db \<Rightarrow> sp_local
    \<Rightarrow> (sp_error tx_error) option \<times> sp_db \<times> sp_local" where
  "reconcile_tx2 sv b pspTransferID db l =
     (case FindOrOpenSellerPayable (sv_env sv) (sv_oouts sv) (bt_SellerID b) (bt_Currency b) (sp_wallet db) of
        (Inl e, w) \<Rightarrow> (Some (TxFn (SpOpen e)), db\<lparr>sp_wallet := w\<rparr>, l)
      | (Inr sellerPayableID, w) \<Rightarrow>
          (case FindAccount w escrowAcctType (bt_Currency b) of
             Inl e \<Rightarrow> (Some (TxFn (SpWallet e)), db\<lparr>sp_wallet := w\<rparr>, l)
           | Inr escrowAcctID \<Rightarrow>
               runTx2 sv False (bt_ID b) pspTransferID (bt_SellerID b) sellerPayableID escrowAcctID (bt_TotalAmountMinor b)
                 (bt_Currency b) (bt_Market b) (bt_IdempotencyKey b) (db\<lparr>sp_wallet := w\<rparr>) l))"

definition mark_ambiguous :: "sp_srv \<Rightarrow> payout_batch \<Rightarrow> string \<Rightarrow> sp_db \<Rightarrow> sp_db" where
  "mark_ambiguous sv b transferID db =
     (let msg = ambiguous_message b transferID;
          alert = \<lparr>la_Severity = ''CRITICAL'', la_Currency = bt_Currency b, la_BatchID = Some (bt_ID b),
                   la_AlertType = ''ambiguous_transfer'', la_Message = msg, la_AcknowledgedAt = None\<rparr>;
          db1 = (if sv_store_ok sv then InsertLedgerAlert alert db else db) in
      if sv_status_ok sv then UpdateBatchStatus (we_now (sv_env sv)) (bt_ID b) ''ambiguous'' msg db1 else db1)"

definition reconcileBatch :: "psp \<Rightarrow> sp_srv \<Rightarrow> payout_batch \<Rightarrow> sp_db \<Rightarrow> sp_local
    \<Rightarrow> (sp_error tx_error) option \<times> sp_db \<times> sp_local" where
  "reconcileBatch psp sv b db l =
     (let now = we_now (sv_env sv);
          set_status = (\<lambda>st msg d. if sv_status_ok sv then UpdateBatchStatus now (bt_ID b) st msg d else d) in
      if bt_PspTransferID b = []
      then (case FindSellerPspAccount db (bt_SellerID b) of
              Inl e \<Rightarrow> (Some (TxFn e), db, l)
            | Inr pspAcc \<Rightarrow>
                (let req = \<lparr>tr_BatchID = bt_ID b, tr_PspMemberID = pa_PspMemberID pspAcc, tr_AmountMinor = bt_TotalAmountMinor b,
                            tr_Currency = bt_Currency b, tr_IdempotencyKey = bt_IdempotencyKey b, tr_Market = bt_Market b\<rparr>;
                     l1 = l\<lparr>sl_sent := sl_sent l @ [req]\<rparr> in
                 case ps_Transfer psp (sl_sent l) req of
                   Inl e \<Rightarrow> (Some (TxFn (SpPsp e)), set_status ''failed'' e db, l1)
                 | Inr r \<Rightarrow>
                     reconcile_tx2 sv b (ts_TransferID r)
                       (if sv_store_ok sv then UpdateBatchPspTransferID (bt_ID b) (ts_TransferID r) db else db) l1))
      else (case ps_GetTransferStatus psp (sl_sent l) (bt_PspTransferID b) of
              Inl e \<Rightarrow> (Some (TxFn (SpPsp e)), db, l)
            | Inr r \<Rightarrow>
                if ts_TransferID r \<noteq> [] \<and> ts_TransferID r \<noteq> bt_PspTransferID b
                then (Some (TxFn SpAmbiguousTransfer), mark_ambiguous sv b (ts_TransferID r) db, l)
                else if ts_Status r = ''failed'' then (None, set_status ''failed'' (ts_ErrorMsg r) db, l)
                else if ts_Status r \<noteq> ''paid'' then (None, db, l)
                else reconcile_tx2 sv b (bt_PspTransferID b) db l))"

fun reconcile_all :: "psp \<Rightarrow> (int \<Rightarrow> sp_srv) \<Rightarrow> payout_batch list \<Rightarrow> sp_db \<Rightarrow> sp_local \<Rightarrow> sp_db \<times> sp_local" where
  "reconcile_all psp srv [] db l = (db, l)"
| "reconcile_all psp srv (b # bs) db l =
     (case reconcileBatch psp (srv (bt_ID b)) b db l of (err, db', l') \<Rightarrow> reconcile_all psp srv bs db' l')"

definition ReconcileProcessing :: "psp \<Rightarrow> bool \<Rightarrow> instant \<Rightarrow> (int \<Rightarrow> sp_srv) \<Rightarrow> sp_db \<Rightarrow> sp_local
    \<Rightarrow> sp_error option \<times> sp_db \<times> sp_local" where
  "ReconcileProcessing psp fetch_ok now srv db l =
     (if \<not> fetch_ok then (Some SpRead, db, l)
      else (case reconcile_all psp srv (FetchProcessingBatches now db) db l of (db', l') \<Rightarrow> (None, db', l')))"

section \<open>Seller events\<close>

definition HandlePspOnboarded :: "int \<Rightarrow> string \<Rightarrow> string \<Rightarrow> sp_db \<Rightarrow> sp_db" where
  "HandlePspOnboarded sellerID pspMemberID market db = UpsertSellerPspAccount sellerID pspMemberID market db"

definition handlePspOnboarded :: "event \<Rightarrow> sp_db \<Rightarrow> sp_error option \<times> sp_db" where
  "handlePspOnboarded ev db =
     (let j = ev_payload ev in
      case (jint ''seller_id'' j, jstr ''psp_member_id'' j, jstr ''market'' j) of
        (Some s, Some m, Some market) \<Rightarrow> (None, HandlePspOnboarded s m market db)
      | _ \<Rightarrow> (Some SpUnmarshal, db))"

definition HandleFraudHoldSet :: "int \<Rightarrow> string \<Rightarrow> string \<Rightarrow> sp_db \<Rightarrow> sp_db" where
  "HandleFraudHoldSet sellerID currency reason db =
     InsertLedgerAlert \<lparr>la_Severity = ''SEV1'', la_Currency = currency, la_BatchID = None, la_AlertType = ''fraud_hold'',
       la_Message = ''fraud hold set for seller '' @ itoa sellerID @ '': '' @ reason, la_AcknowledgedAt = None\<rparr> db"

definition handleFraudHoldSet :: "event \<Rightarrow> sp_db \<Rightarrow> sp_error option \<times> sp_db" where
  "handleFraudHoldSet ev db =
     (let j = ev_payload ev in
      case (jint ''seller_id'' j, jstr ''market'' j, jstr ''currency'' j, jstr ''reason'' j) of
        (Some s, Some _, Some cur, Some reason) \<Rightarrow> (None, HandleFraudHoldSet s cur reason db)
      | _ \<Rightarrow> (Some SpUnmarshal, db))"

section \<open>Moves\<close>

text \<open>
  What the engine can do to its tables, one committed statement or transaction at a time. The three
  phases of a batch and the reconciler are sequences of moves; a failed transaction is no move.
\<close>

definition seller_account :: "wallet_db \<Rightarrow> int \<Rightarrow> bool" where
  "seller_account w u \<longleftrightarrow> (\<exists>a \<in> set (db_accounts w). acct_ID a = u \<and> acct_OwnerType a = ''seller'')"

definition batch_post :: "payout_batch \<Rightarrow> int \<Rightarrow> int \<Rightarrow> post_input" where
  "batch_post b u e = payout_post (bt_ID b) (bt_SellerID b) u e (bt_TotalAmountMinor b) (bt_Currency b) (bt_Market b) (bt_IdempotencyKey b)"

definition same_batch :: "payout_batch \<Rightarrow> payout_batch \<Rightarrow> bool" where
  "same_batch a b \<longleftrightarrow> bt_ID a = bt_ID b \<and> bt_SellerID a = bt_SellerID b \<and> bt_Currency a = bt_Currency b \<and>
     bt_TotalAmountMinor a = bt_TotalAmountMinor b \<and> bt_IdempotencyKey a = bt_IdempotencyKey b \<and> bt_Market a = bt_Market b"

inductive sp_move :: "sp_db \<Rightarrow> sp_db \<Rightarrow> bool" where
  mv_open: "FindOrOpenSellerPayable env outs sid cur (sp_wallet db) = (r, w) \<Longrightarrow> sp_move db (db\<lparr>sp_wallet := w\<rparr>)"
| mv_schedule: "schedule_body cfg ev u nets db = Inr db' \<Longrightarrow> sp_move db db'"
| mv_tx1: "tx1_body now (new_batch sid d t market cur) payouts db = Inr (b, db') \<Longrightarrow>
    (\<And>p r. p \<in> set payouts \<Longrightarrow> r \<in> set (sp_payouts db) \<Longrightarrow> po_ID r = po_ID p \<Longrightarrow> po_Status r = ''scheduled'') \<Longrightarrow> sp_move db db'"
| mv_transfer: "sp_move db (UpdateBatchPspTransferID i tid db)"
| mv_status: "(\<And>b. b \<in> set (sp_batches db) \<Longrightarrow> bt_ID b = i \<Longrightarrow> bt_Status b \<noteq> ''paid'') \<Longrightarrow> st \<noteq> ''paid'' \<Longrightarrow>
    sp_move db (UpdateBatchStatus now i st msg db)"
| mv_tx2: "b \<in> set (sp_batches db) \<Longrightarrow> bt_Status b \<noteq> ''paid'' \<Longrightarrow>
    FindAccount (sp_wallet db) escrowAcctType (bt_Currency b) = Inr e \<Longrightarrow> seller_account (sp_wallet db) u \<Longrightarrow>
    tx2_body env (sp_wallet db) (bt_ID b) tid (batch_post b u e) db c = (Inr ((), db'), c') \<Longrightarrow> sp_commit_ok db db' \<Longrightarrow>
    sp_move db db'"
| mv_alert: "sp_move db (InsertLedgerAlert a db)"
| mv_psp: "sp_move db (UpsertSellerPspAccount sid m market db)"

section \<open>The payout invariant\<close>

text \<open>
  A batch is paid exactly when the ledger holds a transaction under its key, and that transaction is
  the one the batch names; a paid payout belongs to a paid batch.
\<close>

definition batch_inv :: "sp_db \<Rightarrow> payout_batch \<Rightarrow> bool" where
  "batch_inv db b \<longleftrightarrow> 0 < bt_TotalAmountMinor b \<and>
     (if bt_Status b = ''paid'' then posted (sp_wallet db) (bt_IdempotencyKey b) \<noteq> None \<and>
        bt_LedgerTransactionID b = posted (sp_wallet db) (bt_IdempotencyKey b)
      else posted (sp_wallet db) (bt_IdempotencyKey b) = None)"

definition payout_inv :: "sp_db \<Rightarrow> payout \<Rightarrow> bool" where
  "payout_inv db p \<longleftrightarrow> 0 < po_AmountMinor p \<and> (\<forall>i. po_BatchID p = Some i \<longrightarrow> i < sp_next_batch db) \<and>
     (po_Status p = ''scheduled'' \<or>
      po_Status p = ''paid'' \<and> (\<exists>b \<in> set (sp_batches db). po_BatchID p = Some (bt_ID b) \<and> bt_Status b = ''paid''))"

definition sp_inv :: "sp_db \<Rightarrow> bool" where
  "sp_inv db \<longleftrightarrow> wallet_inv (sp_wallet db) \<and>
     fresh_ids po_ID (sp_next_payout db) (sp_payouts db) \<and> distinct (map po_IdempotencyKey (sp_payouts db)) \<and>
     fresh_ids bt_ID (sp_next_batch db) (sp_batches db) \<and> distinct (map bt_IdempotencyKey (sp_batches db)) \<and>
     (\<forall>b \<in> set (sp_batches db). batch_inv db b) \<and> (\<forall>p \<in> set (sp_payouts db). payout_inv db p) \<and>
     (\<forall>s d cur. posted (sp_wallet db) (batchIdempotencyKey s d cur) \<noteq> None \<longrightarrow>
        (\<exists>b \<in> set (sp_batches db). bt_IdempotencyKey b = batchIdempotencyKey s d cur))"

lemma batchIdempotencyKey_inj [simp]:
  "batchIdempotencyKey s d c = batchIdempotencyKey s' d' c' \<longleftrightarrow> s = s' \<and> d = d' \<and> c = c'"
  using sep_inj [of "CHR '':''" "itoa s" "itoa s'" "''date_'' @ fmt_yyyymmdd d @ '':ccy_'' @ c" "''date_'' @ fmt_yyyymmdd d' @ '':ccy_'' @ c'"]
    sep_inj [of "CHR '':''" "fmt_yyyymmdd d" "fmt_yyyymmdd d'" "''ccy_'' @ c" "''ccy_'' @ c'"]
  by (auto simp: batchIdempotencyKey_def key_simps)

lemma payout_key_inj [simp]: "payout_key o1 s1 = payout_key o2 s2 \<longleftrightarrow> o1 = o2 \<and> s1 = s2"
  using sep_inj [of "CHR '':''" "itoa o1" "itoa o2" "''seller_'' @ itoa s1" "''seller_'' @ itoa s2"]
  by (auto simp: payout_key_def key_simps)

lemma batch_post_simps [simp]:
  "pi_IdempotencyKey (batch_post b u e) = bt_IdempotencyKey b"
  "pi_legs (batch_post b u e) = [(u, - bt_TotalAmountMinor b), (e, bt_TotalAmountMinor b)]"
  by (simp_all add: batch_post_def payout_post_def pi_legs_def)

lemma sp_inv_wallet:
  assumes "sp_inv db" "wallet_inv w" "posted w = posted (sp_wallet db)"
  shows "sp_inv (db\<lparr>sp_wallet := w\<rparr>)"
  using assms by (simp add: sp_inv_def batch_inv_def payout_inv_def)

lemma open_seller_keeps:
  assumes "wallet_inv w" "FindOrOpenSellerPayable env outs sid cur w = (r, w')"
  shows "wallet_inv w' \<and> posted w' = posted w \<and> GetBalanceStrict w' = GetBalanceStrict w \<and>
    (\<exists>as. db_accounts w' = db_accounts w @ as) \<and> (\<forall>i. r = Inr i \<longrightarrow> seller_account w' i)"
proof -
  have a: "db_transactions w' = db_transactions w \<and> db_entries w' = db_entries w" "wallet_inv w'"
    using assms openOrFind_append openOrFind_inv unfolding FindOrOpenSellerPayable_def by blast+
  have "(\<exists>as. db_accounts w' = db_accounts w @ as) \<and> (\<forall>i. r = Inr i \<longrightarrow> seller_account w' i)"
    using assms(2) [unfolded FindOrOpenSellerPayable_def]
    by (cases rule: openOrFind_cases)
      (auto simp: InsertAccount_def new_account_def seller_account_def FindAccountByOwner_def
        split: if_splits option.splits sum.splits dest!: find_SomeD)
  then show ?thesis using a by (simp add: fun_eq_iff posted_def GetBalanceStrict_def)
qed

lemma batch_inv_cong: "sp_wallet db' = sp_wallet db \<Longrightarrow> batch_inv db' b = batch_inv db b"
  by (simp add: batch_inv_def)

lemma payout_inv_cong:
  "sp_batches db' = sp_batches db \<Longrightarrow> sp_next_batch db' = sp_next_batch db \<Longrightarrow> payout_inv db' p = payout_inv db p"
  by (simp add: payout_inv_def)

definition payouts_only :: "sp_db \<Rightarrow> sp_db \<Rightarrow> bool" where
  "payouts_only db db' \<longleftrightarrow> sp_wallet db' = sp_wallet db \<and> sp_batches db' = sp_batches db \<and> sp_next_batch db' = sp_next_batch db"

lemma InsertPayout_inv:
  assumes "InsertPayout p db = Inr db'" "po_Status p = ''scheduled''" "sp_inv db"
  shows "sp_inv db' \<and> payouts_only db db'"
proof -
  define r where "r = p\<lparr>po_ID := sp_next_payout db, po_BatchID := None\<rparr>"
  have db': "sp_payouts db' = sp_payouts db @ [r]" "sp_next_payout db' = sp_next_payout db + 1"
    and rest: "payouts_only db db'" and pos: "0 < po_AmountMinor p"
    and fresh: "po_IdempotencyKey r \<notin> po_IdempotencyKey ` set (sp_payouts db)"
    using assms(1) by (auto simp: InsertPayout_def payouts_only_def r_def find_None_iff2 split: if_splits)
  have "payout_inv db r" using pos assms(2) by (simp add: payout_inv_def r_def)
  then have "\<forall>q \<in> set (sp_payouts db'). payout_inv db' q" "\<forall>b \<in> set (sp_batches db'). batch_inv db' b"
    using assms(3) rest payout_inv_cong [of db' db] batch_inv_cong [of db' db]
    by (auto simp: payouts_only_def sp_inv_def db'(1))
  moreover have "fresh_ids po_ID (sp_next_payout db') (sp_payouts db')"
    unfolding db' by (rule fresh_ids_append) (use assms(3) in \<open>auto simp: sp_inv_def r_def\<close>)
  moreover have "distinct (map po_IdempotencyKey (sp_payouts db'))"
    using assms(3) fresh by (simp add: sp_inv_def db'(1))
  ultimately show ?thesis using assms(3) rest unfolding sp_inv_def payouts_only_def by metis
qed

lemma schedule_body_inv:
  assumes "schedule_body cfg ev u nets db = Inr db'" "sp_inv db"
  shows "sp_inv db' \<and> payouts_only db db'"
proof -
  have one: "sp_inv d' \<and> payouts_only db d'"
    if "sp_inv d \<and> payouts_only db d"
      "(case x of (sellerID, netMinor) \<Rightarrow> \<lambda>d. if netMinor \<le> 0 then Inr d else InsertPayout (new_payout cfg ev u sellerID netMinor) d) d = Inr d'" for x d d'
    using that InsertPayout_inv [of _ d d'] by (fastforce simp: payouts_only_def new_payout_def split: prod.splits if_splits)
  have start: "sp_inv db \<and> payouts_only db db" using assms(2) by (simp add: payouts_only_def)
  show ?thesis
    by (rule for_each_invariant [OF assms(1) [unfolded schedule_body_def], of "\<lambda>d. sp_inv d \<and> payouts_only db d", OF start one])
qed

lemma fresh_ids_cong: "map k xs = map k ys \<Longrightarrow> fresh_ids k n xs = fresh_ids k n ys"
  unfolding fresh_ids_def by (simp del: set_map)

lemma link_payouts:
  "fold (\<lambda>p. UpdatePayoutBatchID (po_ID p) i) ps db =
     db\<lparr>sp_payouts := map (\<lambda>r. if po_ID r \<in> po_ID ` set ps then r\<lparr>po_BatchID := Some i\<rparr> else r) (sp_payouts db)\<rparr>"
proof (induction ps arbitrary: db)
  case (Cons p ps)
  show ?case unfolding fold_simps comp_def Cons by (simp add: UpdatePayoutBatchID_def update_where_def)
qed simp

text \<open>Tx1: one new row in status \<^verbatim>\<open>processing\<close>, and the payouts linked to it.\<close>

lemma tx1_effect:
  assumes "tx1_body now (new_batch sid d t market cur) ps db = Inr (b, db')"
  shows "0 < t \<and> FindBatchByKey db (batchIdempotencyKey sid (day_of d) cur) = None \<and>
    b = (new_batch sid d t market cur)\<lparr>bt_ID := sp_next_batch db, bt_Status := ''processing'', bt_AttemptCount := 1, bt_LastAttemptAt := Some now\<rparr> \<and>
    db' = db\<lparr>sp_batches := sp_batches db @ [b], sp_next_batch := sp_next_batch db + 1,
      sp_payouts := map (\<lambda>r. if po_ID r \<in> po_ID ` set ps then r\<lparr>po_BatchID := Some (sp_next_batch db)\<rparr> else r) (sp_payouts db)\<rparr>"
  using assms by (auto simp: tx1_body_def InsertBatch_def link_payouts FindBatchByKey_def new_batch_def Let_def split: if_splits)

lemma tx1_inv:
  assumes r: "tx1_body now (new_batch sid d t market cur) ps db = Inr (b, db')" and inv: "sp_inv db"
    and sched: "\<And>p r. p \<in> set ps \<Longrightarrow> r \<in> set (sp_payouts db) \<Longrightarrow> po_ID r = po_ID p \<Longrightarrow> po_Status r = ''scheduled''"
  shows "sp_inv db'"
proof -
  note e = tx1_effect [OF r]
  have keys: "bt_IdempotencyKey b = batchIdempotencyKey sid (day_of d) cur" "bt_ID b = sp_next_batch db" "bt_Status b = ''processing''"
    "bt_TotalAmountMinor b = t" using e by (simp_all add: new_batch_def)
  have b: "sp_batches db' = sp_batches db @ [b]" "sp_next_batch db' = sp_next_batch db + 1" "sp_wallet db' = sp_wallet db"
    "sp_next_payout db' = sp_next_payout db"
    "sp_payouts db' = map (\<lambda>r. if po_ID r \<in> po_ID ` set ps then r\<lparr>po_BatchID := Some (sp_next_batch db)\<rparr> else r) (sp_payouts db)"
    using e by simp_all
  have none: "\<forall>x \<in> set (sp_batches db). bt_IdempotencyKey x \<noteq> bt_IdempotencyKey b"
    using e keys by (simp add: FindBatchByKey_def find_None_iff2)
  have "posted (sp_wallet db) (bt_IdempotencyKey b) = None"
    using inv none unfolding keys sp_inv_def by blast
  then have "\<forall>x \<in> set (sp_batches db'). batch_inv db' x"
    using inv e keys batch_inv_cong [OF b(3)] by (auto simp: sp_inv_def b(1)) (auto simp: batch_inv_def)
  moreover have "payout_inv db' q" if q: "q \<in> set (sp_payouts db')" for q
  proof -
    obtain r where r: "r \<in> set (sp_payouts db)" "q = (if po_ID r \<in> po_ID ` set ps then r\<lparr>po_BatchID := Some (sp_next_batch db)\<rparr> else r)"
      using q unfolding b(5) set_map by (elim imageE) blast
    then have "payout_inv db r" using inv by (simp add: sp_inv_def)
    moreover have "po_ID r \<in> po_ID ` set ps \<Longrightarrow> po_Status r = ''scheduled''" using sched r(1) by auto
    ultimately show ?thesis using r by (auto simp: payout_inv_def b(1,2) split: if_splits)
  qed
  moreover have "map po_ID (sp_payouts db') = map po_ID (sp_payouts db)" "map po_IdempotencyKey (sp_payouts db') = map po_IdempotencyKey (sp_payouts db)"
    by (simp_all add: b(5))
  moreover have "fresh_ids bt_ID (sp_next_batch db') (sp_batches db')"
    unfolding b(1,2) by (rule fresh_ids_append) (use inv keys in \<open>auto simp: sp_inv_def\<close>)
  moreover have "distinct (map bt_IdempotencyKey (sp_batches db'))"
    using inv none by (auto simp: sp_inv_def b(1))
  moreover have "fresh_ids po_ID (sp_next_payout db') (sp_payouts db')"
    using inv calculation(3) by (simp add: sp_inv_def fresh_ids_def b(4))
  moreover have "distinct (map po_IdempotencyKey (sp_payouts db'))"
    using inv calculation(4) by (simp add: sp_inv_def)
  moreover have "\<exists>x \<in> set (sp_batches db'). bt_IdempotencyKey x = batchIdempotencyKey s k c"
    if "posted (sp_wallet db') (batchIdempotencyKey s k c) \<noteq> None" for s k c
    using inv that unfolding sp_inv_def b(1,3) by auto
  ultimately show ?thesis using inv b(3) by (simp add: sp_inv_def)
qed

text \<open>Updates of batch rows that keep the key, the total and whether the batch is paid.\<close>

lemma batches_update_inv:
  assumes inv: "sp_inv db"
    and f: "\<And>b. b \<in> set (sp_batches db) \<Longrightarrow> same_batch (f b) b \<and> (bt_Status (f b) = ''paid'' \<longleftrightarrow> bt_Status b = ''paid'') \<and>
       bt_LedgerTransactionID (f b) = bt_LedgerTransactionID b"
  shows "sp_inv (db\<lparr>sp_batches := map f (sp_batches db)\<rparr>)"
proof -
  let ?db' = "db\<lparr>sp_batches := map f (sp_batches db)\<rparr>"
  have "map bt_ID (map f (sp_batches db)) = map bt_ID (sp_batches db)"
    "map bt_IdempotencyKey (map f (sp_batches db)) = map bt_IdempotencyKey (sp_batches db)"
    using f by (auto simp: same_batch_def)
  then have "fresh_ids bt_ID (sp_next_batch ?db') (sp_batches ?db')" "distinct (map bt_IdempotencyKey (sp_batches ?db'))"
    using inv fresh_ids_cong [of bt_ID "map f (sp_batches db)" "sp_batches db"] unfolding sp_inv_def by (simp_all del: map_map map_eq_conv)
  moreover have "batch_inv ?db' (f b)" if "b \<in> set (sp_batches db)" for b
    using inv f [OF that] that by (simp add: sp_inv_def batch_inv_def same_batch_def)
  moreover have "payout_inv ?db' p" if "p \<in> set (sp_payouts db)" for p
  proof -
    have "payout_inv db p" using inv that by (simp add: sp_inv_def)
    then show ?thesis using f by (fastforce simp: payout_inv_def same_batch_def)
  qed
  moreover have "\<exists>x \<in> set (sp_batches ?db'). bt_IdempotencyKey x = batchIdempotencyKey s k c"
    if k: "posted (sp_wallet db) (batchIdempotencyKey s k c) \<noteq> None" for s k c
  proof -
    obtain x where "x \<in> set (sp_batches db)" "bt_IdempotencyKey x = batchIdempotencyKey s k c"
      using inv k unfolding sp_inv_def by blast
    then show ?thesis using f by (auto simp: same_batch_def)
  qed
  ultimately show ?thesis using inv by (simp add: sp_inv_def)
qed

text \<open>Tx2: the ledger gets the batch's posting, the batch row and its payouts become paid.\<close>

definition pay_row :: "int \<Rightarrow> int \<Rightarrow> string \<Rightarrow> instant \<Rightarrow> payout_batch \<Rightarrow> payout_batch" where
  "pay_row i t tid now b = (if bt_ID b = i then b\<lparr>bt_Status := ''paid'', bt_PspTransferID := tid,
     bt_LedgerTransactionID := Some t, bt_PaidAt := Some now\<rparr> else b)"

definition pay_payout :: "int \<Rightarrow> payout \<Rightarrow> payout" where
  "pay_payout i p = (if po_BatchID p = Some i \<and> po_Status p = ''scheduled'' then p\<lparr>po_Status := ''paid''\<rparr> else p)"

lemma tx2_effect:
  assumes "tx2_body env (sp_wallet db) i tid post db c = (Inr ((), db'), c')"
  obtains t w where "PostInTx_seq env post (sp_wallet db) c = (Inr (t, w), c')"
    "db' = db\<lparr>sp_wallet := w, sp_batches := map (pay_row i t tid (we_now env)) (sp_batches db),
              sp_payouts := map (pay_payout i) (sp_payouts db)\<rparr>"
  using assms
  by (auto simp: tx2_body_def PostInTx_seq_def MarkPayoutsPaidByBatch_def UpdateBatchPaid_def update_where_def
      pay_row_def pay_payout_def fun_eq_iff split: sum.splits prod.splits)

lemma tx2_inv:
  assumes inv: "sp_inv db" and b: "b \<in> set (sp_batches db)" "bt_Status b \<noteq> ''paid''"
    and r: "tx2_body env (sp_wallet db) (bt_ID b) tid (batch_post b u e) db c = (Inr ((), db'), c')" and ok: "sp_commit_ok db db'"
  shows "sp_inv db' \<and> GetBalanceStrict (sp_wallet db') = (\<lambda>a. GetBalanceStrict (sp_wallet db) a +
      leg_sum [(u, - bt_TotalAmountMinor b), (e, bt_TotalAmountMinor b)] a) \<and> db_accounts (sp_wallet db') = db_accounts (sp_wallet db)"
proof -
  obtain t w where t: "PostInTx_seq env (batch_post b u e) (sp_wallet db) c = (Inr (t, w), c')"
    and db': "db' = db\<lparr>sp_wallet := w, sp_batches := map (pay_row (bt_ID b) t tid (we_now env)) (sp_batches db),
              sp_payouts := map (pay_payout (bt_ID b)) (sp_payouts db)\<rparr>"
    using r by (rule tx2_effect)
  have wi: "wallet_inv (sp_wallet db)" using inv by (simp add: sp_inv_def)
  have cok: "commit_ok (sp_wallet db) w" using ok by (simp add: sp_commit_ok_def db')
  have new: "posted (sp_wallet db) (bt_IdempotencyKey b) = None"
    using inv b by (auto simp: sp_inv_def batch_inv_def)
  note post = wl.post_new [OF wi _ t cok, unfolded batch_post_simps, OF new]
  have pw: "posted w = (posted (sp_wallet db))(bt_IdempotencyKey b \<mapsto> t)" using post by simp
  have uniq: "x = b" if "x \<in> set (sp_batches db)" "bt_ID x = bt_ID b \<or> bt_IdempotencyKey x = bt_IdempotencyKey b" for x
    using that b(1) inv by (auto simp: sp_inv_def fresh_ids_def distinct_map dest: inj_onD)
  have ids: "map bt_ID (sp_batches db') = map bt_ID (sp_batches db)"
    "map bt_IdempotencyKey (sp_batches db') = map bt_IdempotencyKey (sp_batches db)"
    "map po_ID (sp_payouts db') = map po_ID (sp_payouts db)"
    "map po_IdempotencyKey (sp_payouts db') = map po_IdempotencyKey (sp_payouts db)"
    by (simp_all add: db' pay_row_def pay_payout_def)
  have "batch_inv db' (pay_row (bt_ID b) t tid (we_now env) x)" if x: "x \<in> set (sp_batches db)" for x
  proof -
    have "batch_inv db x" using inv x by (simp add: sp_inv_def)
    then show ?thesis using uniq [OF x] by (auto simp: batch_inv_def pay_row_def db' pw)
  qed
  then have bs: "\<forall>x \<in> set (sp_batches db'). batch_inv db' x" by (simp add: db')
  have paid: "\<exists>y \<in> set (sp_batches db'). bt_ID y = bt_ID x \<and> bt_Status y = ''paid''"
    if "x \<in> set (sp_batches db)" "bt_ID x = bt_ID b \<or> bt_Status x = ''paid''" for x
    using that by (intro bexI [of _ "pay_row (bt_ID b) t tid (we_now env) x"]) (auto simp: pay_row_def db')
  have "payout_inv db' (pay_payout (bt_ID b) p)" if p: "p \<in> set (sp_payouts db)" for p
  proof -
    have pi: "payout_inv db p" and nb: "sp_next_batch db' = sp_next_batch db" using inv p by (simp_all add: sp_inv_def db')
    show ?thesis
    proof (cases "po_Status p = ''scheduled''")
      case True
      obtain y where "y \<in> set (sp_batches db')" "bt_ID b = bt_ID y" "bt_Status y = ''paid''" using paid b(1) by metis
      then show ?thesis using pi True nb unfolding payout_inv_def pay_payout_def by auto
    next
      case False
      then obtain x where "x \<in> set (sp_batches db)" "po_BatchID p = Some (bt_ID x)" "bt_Status x = ''paid''"
        using pi by (auto simp: payout_inv_def)
      note x = this
      then obtain y where y: "y \<in> set (sp_batches db')" "bt_ID x = bt_ID y" "bt_Status y = ''paid''" using paid by metis
      then have "\<exists>y \<in> set (sp_batches db'). po_BatchID p = Some (bt_ID y) \<and> bt_Status y = ''paid''" using x by auto
      then show ?thesis using pi False nb unfolding payout_inv_def pay_payout_def by auto
    qed
  qed
  then have ps: "\<forall>p \<in> set (sp_payouts db'). payout_inv db' p" by (simp add: db')
  have "\<exists>x \<in> set (sp_batches db'). bt_IdempotencyKey x = batchIdempotencyKey s k cu"
    if k: "posted w (batchIdempotencyKey s k cu) \<noteq> None" for s k cu
  proof -
    have "batchIdempotencyKey s k cu \<in> bt_IdempotencyKey ` set (sp_batches db)"
    proof (cases "batchIdempotencyKey s k cu = bt_IdempotencyKey b")
      case False
      then have "posted (sp_wallet db) (batchIdempotencyKey s k cu) \<noteq> None" using k by (simp add: pw)
      then have "\<exists>x \<in> set (sp_batches db). bt_IdempotencyKey x = batchIdempotencyKey s k cu" using inv unfolding sp_inv_def by blast
      then show ?thesis by force
    qed (use b(1) in simp)
    then have "batchIdempotencyKey s k cu \<in> set (map bt_IdempotencyKey (sp_batches db'))" unfolding ids(2) by simp
    then show ?thesis by auto
  qed
  then have "sp_inv db'"
    using inv bs ps ids fresh_ids_cong [OF ids(1)] fresh_ids_cong [OF ids(3)] wl.post_inv [OF wi t cok]
    unfolding sp_inv_def by (simp add: db' del: map_map)
  moreover have "db_accounts w = db_accounts (sp_wallet db)"
    using PostInTx_seq_body [OF t] by (cases rule: post_body_cases) (use cok in \<open>auto simp: posted_db_def commit_ok_def\<close>)
  ultimately show ?thesis using post by (simp add: db')
qed

section \<open>What every move keeps\<close>

text \<open>Total of the paid batches of a currency.\<close>

definition paid_total :: "sp_db \<Rightarrow> string \<Rightarrow> int" where
  "paid_total db cur = sum_list (map bt_TotalAmountMinor (filter (\<lambda>b. bt_Status b = ''paid'' \<and> bt_Currency b = cur) (sp_batches db)))"

lemma FindAccount_extend:
  "db_accounts w' = db_accounts w @ as \<Longrightarrow> FindAccount w ty cur = Inr e \<Longrightarrow> FindAccount w' ty cur = Inr e"
  by (auto simp: FindAccount_def FindAccountByType_def find_append split: option.splits sum.splits)

lemma FindAccount_acct:
  assumes "FindAccount w ty cur = Inr e"
  shows "\<exists>a \<in> set (db_accounts w). acct_ID a = e \<and> acct_OwnerType a = ''platform'' \<and> acct_Currency a = cur"
  using assms by (auto simp: FindAccount_def FindAccountByType_def split: option.splits dest!: find_SomeD)

lemma wallet_inv_acct_unique:
  "wallet_inv w \<Longrightarrow> a \<in> set (db_accounts w) \<Longrightarrow> b \<in> set (db_accounts w) \<Longrightarrow> acct_ID a = acct_ID b \<Longrightarrow> a = b"
  by (auto simp: wallet_inv_def fresh_ids_def distinct_map dest: inj_onD)

lemma paid_total_pay:
  assumes "distinct (map bt_ID bs)" "b \<in> set bs" "bt_Status b \<noteq> ''paid''"
  shows "sum_list (map bt_TotalAmountMinor (filter (\<lambda>b. bt_Status b = ''paid'' \<and> bt_Currency b = cur) (map (pay_row (bt_ID b) t tid now) bs))) =
    sum_list (map bt_TotalAmountMinor (filter (\<lambda>b. bt_Status b = ''paid'' \<and> bt_Currency b = cur) bs)) +
    (if bt_Currency b = cur then bt_TotalAmountMinor b else 0)"
  using assms
proof (induction bs)
  case (Cons x xs)
  show ?case
  proof (cases "x = b")
    case True
    then have "map (pay_row (bt_ID b) t tid now) xs = xs"
      using Cons.prems(1) by (intro map_idI) (metis True distinct.simps(2) image_eqI list.simps(9) pay_row_def set_map)
    moreover have "bt_Status (pay_row (bt_ID b) t tid now b) = ''paid''" "bt_Currency (pay_row (bt_ID b) t tid now b) = bt_Currency b"
      "bt_TotalAmountMinor (pay_row (bt_ID b) t tid now b) = bt_TotalAmountMinor b" by (simp_all add: pay_row_def)
    ultimately show ?thesis using True Cons.prems(3) by simp
  next
    case False
    then have "pay_row (bt_ID b) t tid now x = x" using Cons.prems by (auto simp: pay_row_def)
    then show ?thesis using Cons False by simp
  qed
qed simp

definition conserves :: "sp_db \<Rightarrow> sp_db \<Rightarrow> bool" where
  "conserves db db' \<longleftrightarrow> (\<forall>cur e. FindAccount (sp_wallet db) escrowAcctType cur = Inr e \<longrightarrow>
     FindAccount (sp_wallet db') escrowAcctType cur = Inr e \<and>
     GetBalanceStrict (sp_wallet db') e - paid_total db' cur = GetBalanceStrict (sp_wallet db) e - paid_total db cur)"

lemma conserves_same: "sp_wallet db' = sp_wallet db \<Longrightarrow> (\<And>cur. paid_total db' cur = paid_total db cur) \<Longrightarrow> conserves db db'"
  by (simp add: conserves_def)

lemma conserves_trans: "conserves a b \<Longrightarrow> conserves b c \<Longrightarrow> conserves a c"
  unfolding conserves_def by metis

text \<open>Updates of rows keep the paid total when they keep who is paid.\<close>

lemma paid_total_map:
  assumes "\<And>b. b \<in> set bs \<Longrightarrow> same_batch (f b) b \<and> (bt_Status (f b) = ''paid'' \<longleftrightarrow> bt_Status b = ''paid'')"
  shows "paid_total (db\<lparr>sp_batches := map f bs\<rparr>) cur = paid_total (db\<lparr>sp_batches := bs\<rparr>) cur"
  using assms by (induction bs) (auto simp: paid_total_def same_batch_def)

lemma tx2_conserves:
  assumes inv: "sp_inv db" and b: "b \<in> set (sp_batches db)" "bt_Status b \<noteq> ''paid''"
    and e: "FindAccount (sp_wallet db) escrowAcctType (bt_Currency b) = Inr e" and u: "seller_account (sp_wallet db) u"
    and r: "tx2_body env (sp_wallet db) (bt_ID b) tid (batch_post b u e) db c = (Inr ((), db'), c')" and ok: "sp_commit_ok db db'"
  shows "conserves db db'"
  unfolding conserves_def
proof (intro allI impI)
  fix cur f assume f: "FindAccount (sp_wallet db) escrowAcctType cur = Inr f"
  note k = tx2_inv [OF inv b r ok]
  have wi: "wallet_inv (sp_wallet db)" using inv by (simp add: sp_inv_def)
  have "u \<noteq> f"
  proof
    assume "u = f"
    then obtain x y where "x \<in> set (db_accounts (sp_wallet db))" "y \<in> set (db_accounts (sp_wallet db))" "acct_ID x = acct_ID y"
      "acct_OwnerType x = ''seller''" "acct_OwnerType y = ''platform''"
      using u FindAccount_acct [OF f] by (auto simp: seller_account_def)
    then have "x = y" using wallet_inv_acct_unique [OF wi] by blast
    then show False using \<open>acct_OwnerType x = ''seller''\<close> \<open>acct_OwnerType y = ''platform''\<close> by simp
  qed
  moreover have "(e = f) = (bt_Currency b = cur)"
  proof
    assume "e = f"
    then show "bt_Currency b = cur" using FindAccount_acct [OF f] FindAccount_acct [OF e] wallet_inv_acct_unique [OF wi] by metis
  qed (use e f in simp)
  moreover obtain t where "paid_total db' cur = paid_total db cur + (if bt_Currency b = cur then bt_TotalAmountMinor b else 0)"
  proof -
    obtain t w where "db' = db\<lparr>sp_wallet := w, sp_batches := map (pay_row (bt_ID b) t tid (we_now env)) (sp_batches db),
        sp_payouts := map (pay_payout (bt_ID b)) (sp_payouts db)\<rparr>"
      using r by (rule tx2_effect)
    then show thesis using paid_total_pay [OF _ b] inv that by (simp add: paid_total_def sp_inv_def fresh_ids_def)
  qed
  moreover have "FindAccount (sp_wallet db') escrowAcctType cur = Inr f"
    using k f FindAccount_extend [of "sp_wallet db'" "sp_wallet db" "[]"] by simp
  ultimately show "FindAccount (sp_wallet db') escrowAcctType cur = Inr f \<and>
      GetBalanceStrict (sp_wallet db') f - paid_total db' cur = GetBalanceStrict (sp_wallet db) f - paid_total db cur"
    using k by (auto simp: leg_sum_def)
qed

lemma sp_move_keeps: "sp_move db db' \<Longrightarrow> sp_inv db \<Longrightarrow> sp_inv db' \<and> conserves db db'"
proof (induction rule: sp_move.induct)
  case (mv_open env outs sid cur db r w)
  have wi: "wallet_inv (sp_wallet db)" using mv_open by (simp add: sp_inv_def)
  note k = open_seller_keeps [OF wi mv_open(1)]
  have "conserves db (db\<lparr>sp_wallet := w\<rparr>)"
    using k FindAccount_extend by (auto simp: conserves_def paid_total_def)
  then show ?case using sp_inv_wallet [OF mv_open(2), of w] k by simp
next
  case (mv_schedule cfg ev u nets db db')
  note k = schedule_body_inv [OF mv_schedule(1,2)]
  then have "conserves db db'" by (intro conserves_same) (auto simp: payouts_only_def paid_total_def)
  then show ?case using k by simp
next
  case (mv_tx1 now sid d t market cur payouts db b db')
  note e = tx1_effect [OF mv_tx1(1)]
  have "conserves db db'" by (rule conserves_same) (use e in \<open>auto simp: paid_total_def\<close>)
  then show ?case using tx1_inv [OF mv_tx1(1) mv_tx1(3)] mv_tx1(2) by blast
next
  case (mv_transfer db i tid)
  let ?f = "\<lambda>b. if bt_ID b = i then b\<lparr>bt_PspTransferID := tid\<rparr> else b"
  have eq: "UpdateBatchPspTransferID i tid db = db\<lparr>sp_batches := map ?f (sp_batches db)\<rparr>"
    by (simp add: UpdateBatchPspTransferID_def update_where_def)
  have "conserves db (db\<lparr>sp_batches := map ?f (sp_batches db)\<rparr>)"
    using paid_total_map [of "sp_batches db" ?f db] by (intro conserves_same) (auto simp: same_batch_def)
  moreover have "sp_inv (db\<lparr>sp_batches := map ?f (sp_batches db)\<rparr>)"
    using mv_transfer by (rule batches_update_inv) (auto simp: same_batch_def)
  ultimately show ?case unfolding eq by simp
next
  case (mv_status db i st now msg)
  let ?f = "\<lambda>b. if bt_ID b = i then b\<lparr>bt_Status := st, bt_LastError := msg, bt_LastAttemptAt := Some now, bt_AttemptCount := bt_AttemptCount b + 1\<rparr> else b"
  have eq: "UpdateBatchStatus now i st msg db = db\<lparr>sp_batches := map ?f (sp_batches db)\<rparr>"
    by (simp add: UpdateBatchStatus_def update_where_def)
  have "conserves db (db\<lparr>sp_batches := map ?f (sp_batches db)\<rparr>)"
    using paid_total_map [of "sp_batches db" ?f db] mv_status(1,2) by (intro conserves_same) (auto simp: same_batch_def)
  moreover have "sp_inv (db\<lparr>sp_batches := map ?f (sp_batches db)\<rparr>)"
    using mv_status(3) by (rule batches_update_inv) (use mv_status(1,2) in \<open>auto simp: same_batch_def\<close>)
  ultimately show ?case unfolding eq by simp
next
  case (mv_tx2 b db e u env tid c db' c')
  then show ?case using tx2_inv tx2_conserves by blast
next
  case (mv_alert db a)
  then show ?case by (auto simp: InsertLedgerAlert_def sp_inv_def batch_inv_def payout_inv_def conserves_def paid_total_def)
next
  case (mv_psp db sid m market)
  then show ?case by (auto simp: UpsertSellerPspAccount_def sp_inv_def batch_inv_def payout_inv_def conserves_def paid_total_def)
qed

lemma sp_moves_keep: "sp_move\<^sup>*\<^sup>* db db' \<Longrightarrow> sp_inv db \<Longrightarrow> sp_inv db' \<and> conserves db db'"
proof (induction rule: rtranclp_induct)
  case base
  then show ?case by (simp add: conserves_def)
next
  case (step y z)
  then show ?case using sp_move_keeps conserves_trans by blast
qed

section \<open>The operations are sequences of moves\<close>

lemma single_tx:
  assumes "sellerpayout_WithTx outs fn db c = (r, db', c')"
  shows "case r of Inl e \<Rightarrow> db' = db | Inr a \<Rightarrow> (\<exists>c0. fn db c0 = (Inr (a, db'), c') \<and> sp_commit_ok db db')"
proof (cases r)
  case (Inl e)
  then show ?thesis using assms with_retry_error unfolding sellerpayout_WithTx_def by fastforce
next
  case (Inr a)
  then show ?thesis using assms with_retry_success unfolding sellerpayout_WithTx_def by fastforce
qed

text \<open>What work on one batch may touch: its own row, and the status of the payouts linked to it.\<close>

definition touches :: "int \<Rightarrow> sp_db \<Rightarrow> sp_db \<Rightarrow> bool" where
  "touches i db db' \<longleftrightarrow> (\<forall>y. bt_ID y \<noteq> i \<longrightarrow> (y \<in> set (sp_batches db') \<longleftrightarrow> y \<in> set (sp_batches db))) \<and>
     (\<forall>r' \<in> set (sp_payouts db'). \<exists>r \<in> set (sp_payouts db). po_ID r' = po_ID r \<and> po_SellerID r' = po_SellerID r \<and>
        po_BatchID r' = po_BatchID r \<and> (po_Status r' = po_Status r \<or> po_BatchID r = Some i))"

lemma touches_refl [simp]: "touches i db db"
  by (auto simp: touches_def)

lemma touches_trans: "touches i a b \<Longrightarrow> touches i b c \<Longrightarrow> touches i a c"
  unfolding touches_def by (metis (full_types))

lemma touches_wallet [simp]: "touches i db (db\<lparr>sp_wallet := w\<rparr>)"
  by (auto simp: touches_def)

lemma touches_alert [simp]: "touches i db (InsertLedgerAlert a db)"
  by (auto simp: touches_def InsertLedgerAlert_def)

lemma touches_batches:
  assumes "\<And>b. bt_ID (f b) = bt_ID b" "\<And>b. bt_ID b \<noteq> i \<Longrightarrow> f b = b"
  shows "touches i db (db\<lparr>sp_batches := map f (sp_batches db)\<rparr>)"
  using assms by (force simp: touches_def image_iff)

lemma touches_transfer [simp]: "touches i db (UpdateBatchPspTransferID i tid db)"
  unfolding UpdateBatchPspTransferID_def update_where_def by (rule touches_batches) auto

lemma touches_status [simp]: "touches i db (UpdateBatchStatus now i st msg db)"
  unfolding UpdateBatchStatus_def update_where_def by (rule touches_batches) auto

lemma touches_tx2:
  assumes "tx2_body env (sp_wallet db) i tid post db c = (Inr ((), db'), c')"
  shows "touches i db db'"
proof -
  obtain t w where db': "db' = db\<lparr>sp_wallet := w, sp_batches := map (pay_row i t tid (we_now env)) (sp_batches db),
      sp_payouts := map (pay_payout i) (sp_payouts db)\<rparr>"
    using assms by (rule tx2_effect)
  have "touches i db (db\<lparr>sp_batches := map (pay_row i t tid (we_now env)) (sp_batches db)\<rparr>)"
    by (rule touches_batches) (auto simp: pay_row_def)
  then show ?thesis by (auto simp: touches_def db' pay_payout_def)
qed

lemma runTx2_moves:
  assumes x: "x \<in> set (sp_batches db)" "same_batch x b" "bt_Status x \<noteq> ''paid''"
    and e: "FindAccount (sp_wallet db) escrowAcctType (bt_Currency b) = Inr e" and u: "seller_account (sp_wallet db) u"
    and r: "runTx2 sv cnt (bt_ID b) tid (bt_SellerID b) u e (bt_TotalAmountMinor b) (bt_Currency b) (bt_Market b) (bt_IdempotencyKey b) db l = (err, db', l')"
  shows "sp_move\<^sup>*\<^sup>* db db' \<and> touches (bt_ID b) db db'"
proof -
  define post where "post = payout_post (bt_ID b) (bt_SellerID b) u e (bt_TotalAmountMinor b) (bt_Currency b) (bt_Market b) (bt_IdempotencyKey b)"
  have p: "post = batch_post x u e" "bt_ID b = bt_ID x" "bt_Currency b = bt_Currency x"
    using x(2) by (simp_all add: post_def batch_post_def same_batch_def)
  obtain r2 d c where tx: "sellerpayout_WithTx (sv_tx2 sv) (tx2_body (sv_env sv) (sp_wallet db) (bt_ID b) tid post) db (sl_cache l) = (r2, d, c)"
    by (metis prod_cases3)
  have "sp_move\<^sup>*\<^sup>* db d \<and> touches (bt_ID b) db d"
  proof (cases r2)
    case (Inl err)
    then show ?thesis using single_tx [OF tx] by simp
  next
    case (Inr un)
    then obtain c0 where c0: "tx2_body (sv_env sv) (sp_wallet db) (bt_ID b) tid post db c0 = (Inr ((), d), c)" "sp_commit_ok db d"
      using single_tx [OF tx] by auto
    then have "sp_move db d" using mv_tx2 [OF x(1,3)] e u unfolding p by blast
    then show ?thesis using touches_tx2 [OF c0(1)] by simp
  qed
  moreover have "db' = db \<or> db' = d" using r tx unfolding runTx2_def post_def by (auto split: if_splits sum.splits)
  ultimately show ?thesis by auto
qed

lemma open_escrow:
  assumes "sp_inv db" "FindOrOpenSellerPayable env outs sid cur (sp_wallet db) = (r, w)"
  shows "sp_move db (db\<lparr>sp_wallet := w\<rparr>)" "\<And>i. r = Inr i \<Longrightarrow> seller_account w i"
    "\<And>c e. FindAccount (sp_wallet db) escrowAcctType c = Inr e \<Longrightarrow> FindAccount w escrowAcctType c = Inr e"
proof -
  have "wallet_inv (sp_wallet db)" using assms(1) by (simp add: sp_inv_def)
  note k = open_seller_keeps [OF this assms(2)]
  show "sp_move db (db\<lparr>sp_wallet := w\<rparr>)" using assms(2) by (rule mv_open)
  show "\<And>i. r = Inr i \<Longrightarrow> seller_account w i" using k by simp
  show "\<And>c e. FindAccount (sp_wallet db) escrowAcctType c = Inr e \<Longrightarrow> FindAccount w escrowAcctType c = Inr e"
    using k FindAccount_extend by blast
qed

lemma reconcile_tx2_moves:
  assumes inv: "sp_inv db" and x: "x \<in> set (sp_batches db)" "same_batch x b" "bt_Status x \<noteq> ''paid''"
    and r: "reconcile_tx2 sv b tid db l = (err, db', l')"
  shows "sp_move\<^sup>*\<^sup>* db db' \<and> touches (bt_ID b) db db'"
proof -
  obtain ro w where o: "FindOrOpenSellerPayable (sv_env sv) (sv_oouts sv) (bt_SellerID b) (bt_Currency b) (sp_wallet db) = (ro, w)"
    by fastforce
  note oe = open_escrow [OF inv o]
  show ?thesis
  proof (cases "\<exists>i e. ro = Inr i \<and> FindAccount w escrowAcctType (bt_Currency b) = Inr e")
    case True
    then obtain i e where ie: "ro = Inr i" "FindAccount w escrowAcctType (bt_Currency b) = Inr e" by blast
    then have run: "runTx2 sv False (bt_ID b) tid (bt_SellerID b) i e (bt_TotalAmountMinor b) (bt_Currency b) (bt_Market b) (bt_IdempotencyKey b)
        (db\<lparr>sp_wallet := w\<rparr>) l = (err, db', l')"
      using r o by (simp add: reconcile_tx2_def)
    have "sp_move\<^sup>*\<^sup>* (db\<lparr>sp_wallet := w\<rparr>) db' \<and> touches (bt_ID b) (db\<lparr>sp_wallet := w\<rparr>) db'"
      by (rule runTx2_moves [OF _ x(2,3) _ _ run]) (use x ie oe in auto)
    then show ?thesis using oe(1) touches_trans [OF touches_wallet] by (meson converse_rtranclp_into_rtranclp)
  next
    case False
    then have "db' = db\<lparr>sp_wallet := w\<rparr>" using r o by (auto simp: reconcile_tx2_def split: sum.splits)
    then show ?thesis using oe(1) by auto
  qed
qed

lemma store_transfer:
  assumes "b \<in> set (sp_batches db)"
  shows "\<exists>x \<in> set (sp_batches (UpdateBatchPspTransferID i tid db)). same_batch x b \<and> bt_Status x = bt_Status b"
  using assms by (intro bexI [of _ "if bt_ID b = i then b\<lparr>bt_PspTransferID := tid\<rparr> else b"])
    (auto simp: UpdateBatchPspTransferID_def update_where_def same_batch_def)

lemma status_move:
  assumes "sp_inv db" "b \<in> set (sp_batches db)" "bt_Status b \<noteq> ''paid''" "st \<noteq> ''paid''"
  shows "sp_move db (UpdateBatchStatus now (bt_ID b) st msg db)"
proof (rule mv_status)
  fix x assume "x \<in> set (sp_batches db)" "bt_ID x = bt_ID b"
  then have "x = b" using assms(1,2) by (auto simp: sp_inv_def fresh_ids_def distinct_map dest: inj_onD)
  then show "bt_Status x \<noteq> ''paid''" using assms(3) by simp
qed (use assms in auto)

lemma stored_tx2_moves:
  assumes inv: "sp_inv db" and b: "b \<in> set (sp_batches db)" "bt_Status b \<noteq> ''paid''"
    and r: "reconcile_tx2 sv b tid (if ok then UpdateBatchPspTransferID (bt_ID b) tid' db else db) l = (err, db', l')"
  shows "sp_move\<^sup>*\<^sup>* db db' \<and> touches (bt_ID b) db db'"
proof (cases ok)
  case True
  let ?d = "UpdateBatchPspTransferID (bt_ID b) tid' db"
  obtain x where x: "x \<in> set (sp_batches ?d)" "same_batch x b" "bt_Status x \<noteq> ''paid''" using store_transfer [OF b(1)] b(2) by metis
  have "sp_inv ?d" using sp_move_keeps [OF mv_transfer inv] by blast
  then have "sp_move\<^sup>*\<^sup>* ?d db' \<and> touches (bt_ID b) ?d db'" using reconcile_tx2_moves x r True by simp
  then show ?thesis using mv_transfer touches_trans [OF touches_transfer] by (meson converse_rtranclp_into_rtranclp)
next
  case False
  then show ?thesis using reconcile_tx2_moves [OF inv b(1) _ b(2), of b] r by (simp add: same_batch_def)
qed

lemma mark_ambiguous_moves:
  assumes inv: "sp_inv db" and b: "b \<in> set (sp_batches db)" "bt_Status b \<noteq> ''paid''"
  shows "sp_move\<^sup>*\<^sup>* db (mark_ambiguous sv b tid db) \<and> touches (bt_ID b) db (mark_ambiguous sv b tid db)"
proof -
  obtain a where a: "mark_ambiguous sv b tid db = (let d = (if sv_store_ok sv then InsertLedgerAlert a db else db) in
      if sv_status_ok sv then UpdateBatchStatus (we_now (sv_env sv)) (bt_ID b) ''ambiguous'' (ambiguous_message b tid) d else d)"
    by (auto simp: mark_ambiguous_def Let_def)
  define d where "d = (if sv_store_ok sv then InsertLedgerAlert a db else db)"
  have d: "sp_move\<^sup>*\<^sup>* db d" "sp_inv d" "b \<in> set (sp_batches d)" "touches (bt_ID b) db d"
    using mv_alert [of db a] sp_move_keeps [OF mv_alert inv] b inv by (auto simp: d_def) (simp add: InsertLedgerAlert_def)
  have "sp_move d (UpdateBatchStatus now (bt_ID b) ''ambiguous'' msg d)" for now msg using status_move [OF d(2,3) b(2)] by simp
  then show ?thesis using d touches_trans [OF d(4) touches_status]
    unfolding a Let_def d_def [symmetric] by (auto intro: rtranclp.rtrancl_into_rtrancl)
qed

lemma reconcileBatch_moves:
  assumes inv: "sp_inv db" and b: "b \<in> set (sp_batches db)" "bt_Status b \<noteq> ''paid''"
    and r: "reconcileBatch psp sv b db l = (err, db', l')"
  shows "sp_move\<^sup>*\<^sup>* db db' \<and> touches (bt_ID b) db db'"
proof -
  have st: "sp_move\<^sup>*\<^sup>* db (UpdateBatchStatus now (bt_ID b) ''failed'' msg db)" for now msg
    using status_move [OF inv b] by auto

  note r' = r [unfolded reconcileBatch_def Let_def]
  show ?thesis
  proof (cases "bt_PspTransferID b = []")
    case True
    then show ?thesis using r' st stored_tx2_moves [OF inv b] by (auto split: sum.splits if_splits)
  next
    case False
    have t: "reconcile_tx2 sv b (bt_PspTransferID b) db l = (err, db', l') \<Longrightarrow> ?thesis"
      using stored_tx2_moves [OF inv b, of sv _ False] by simp
    show ?thesis
    proof (cases "ps_GetTransferStatus psp (sl_sent l) (bt_PspTransferID b)")
      case (Inl e)
      then show ?thesis using r' False by simp
    next
      case (Inr resp)
      consider (amb) "ts_TransferID resp \<noteq> [] \<and> ts_TransferID resp \<noteq> bt_PspTransferID b"
        | (failed) "\<not> (ts_TransferID resp \<noteq> [] \<and> ts_TransferID resp \<noteq> bt_PspTransferID b)" "ts_Status resp = ''failed''"
        | (pending) "\<not> (ts_TransferID resp \<noteq> [] \<and> ts_TransferID resp \<noteq> bt_PspTransferID b)" "ts_Status resp \<noteq> ''failed''" "ts_Status resp \<noteq> ''paid''"
        | (paid) "\<not> (ts_TransferID resp \<noteq> [] \<and> ts_TransferID resp \<noteq> bt_PspTransferID b)" "ts_Status resp = ''paid''"
        by blast
      then show ?thesis
      proof cases
        case amb
        then have "db' = mark_ambiguous sv b (ts_TransferID resp) db" using r' False Inr by auto
        then show ?thesis using mark_ambiguous_moves [OF inv b] by simp
      next
        case failed
        then have "db' = (if sv_status_ok sv then UpdateBatchStatus (we_now (sv_env sv)) (bt_ID b) ''failed'' (ts_ErrorMsg resp) db else db)"
          using r' False Inr by auto
        then show ?thesis using st by simp
      next
        case pending
        then have "db' = db" using r' False Inr by auto
        then show ?thesis by simp
      next
        case paid
        then have "reconcile_tx2 sv b (bt_PspTransferID b) db l = (err, db', l')" using r' False Inr by auto
        then show ?thesis by (rule t)
      qed
    qed
  qed
qed

lemma reconcile_all_moves:
  assumes "sp_inv db" "set bs \<subseteq> set (sp_batches db)" "distinct (map bt_ID bs)" "\<forall>b \<in> set bs. bt_Status b \<noteq> ''paid''"
    and "reconcile_all psp srv bs db l = (db', l')"
  shows "sp_move\<^sup>*\<^sup>* db db'"
  using assms
proof (induction bs arbitrary: db l)
  case (Cons b bs)
  obtain err d k where r: "reconcileBatch psp (srv (bt_ID b)) b db l = (err, d, k)" by (metis prod_cases3)
  have m: "sp_move\<^sup>*\<^sup>* db d" "touches (bt_ID b) db d" using reconcileBatch_moves [OF Cons.prems(1) _ _ r] Cons.prems(2,4) by auto
  have "set bs \<subseteq> set (sp_batches d)"
  proof
    fix y assume "y \<in> set bs"
    moreover have "bt_ID b \<notin> bt_ID ` set bs" using Cons.prems(3) by simp
    ultimately have "y \<in> set (sp_batches db)" "bt_ID y \<noteq> bt_ID b" using Cons.prems(2) by (auto intro: rev_image_eqI)
    then show "y \<in> set (sp_batches d)" using m(2) by (simp add: touches_def)
  qed
  moreover have "sp_inv d" using sp_moves_keep [OF m(1) Cons.prems(1)] by simp
  ultimately have "sp_move\<^sup>*\<^sup>* d db'" using Cons.IH [of d k] Cons.prems r by simp
  then show ?case using m(1) by simp
qed simp

lemma ReconcileProcessing_moves:
  assumes "sp_inv db" "ReconcileProcessing psp fetch_ok now srv db l = (err, db', l')"
  shows "sp_move\<^sup>*\<^sup>* db db'"
proof (cases fetch_ok)
  case True
  have "distinct (map bt_ID (FetchProcessingBatches now db))"
    using assms(1) by (simp add: FetchProcessingBatches_def sp_inv_def fresh_ids_def distinct_map_filter)
  then show ?thesis
    using assms(2) True reconcile_all_moves [OF assms(1), of "FetchProcessingBatches now db"]
    by (auto simp: ReconcileProcessing_def FetchProcessingBatches_def split: prod.splits)
qed (use assms in \<open>simp add: ReconcileProcessing_def\<close>)

lemma psp_phase_moves:
  assumes inv: "sp_inv db" and b: "b \<in> set (sp_batches db)" "bt_Status b \<noteq> ''paid''"
    and e: "FindAccount (sp_wallet db) escrowAcctType (bt_Currency b) = Inr e" and u: "seller_account (sp_wallet db) u"
    and r: "psp_phase psp sv b member u e db l = (err, db', l')"
  shows "sp_move\<^sup>*\<^sup>* db db' \<and> touches (bt_ID b) db db'"
proof -
  have st: "sp_move\<^sup>*\<^sup>* db (UpdateBatchStatus now (bt_ID b) ''failed'' msg db)" for now msg
    using status_move [OF inv b] by auto
  define d where "d tid = (if tid \<noteq> [] \<and> sv_store_ok sv then UpdateBatchPspTransferID (bt_ID b) tid db else db)" for tid
  have d: "sp_move\<^sup>*\<^sup>* db (d tid)" "touches (bt_ID b) db (d tid)" "sp_wallet (d tid) = sp_wallet db" for tid
    using mv_transfer by (auto simp: d_def) (simp add: UpdateBatchPspTransferID_def)
  have x: "\<exists>x \<in> set (sp_batches (d tid)). same_batch x b \<and> bt_Status x \<noteq> ''paid''" for tid
  proof (cases "tid \<noteq> [] \<and> sv_store_ok sv")
    case True
    then show ?thesis using store_transfer [OF b(1), of "bt_ID b" tid] b(2) unfolding d_def by auto
  next
    case False
    then show ?thesis using b by (intro bexI [of _ b]) (auto simp: d_def same_batch_def)
  qed
  have t: "sp_move\<^sup>*\<^sup>* db db' \<and> touches (bt_ID b) db db'"
    if run: "runTx2 sv True (bt_ID b) tid (bt_SellerID b) u e (bt_TotalAmountMinor b) (bt_Currency b) (bt_Market b) (bt_IdempotencyKey b) (d tid) l1 = (err, db', l')" for tid l1
  proof -
    obtain y where "y \<in> set (sp_batches (d tid))" "same_batch y b" "bt_Status y \<noteq> ''paid''" using x by blast
    then have "sp_move\<^sup>*\<^sup>* (d tid) db' \<and> touches (bt_ID b) (d tid) db'" by (rule runTx2_moves [OF _ _ _ _ _ run]) (simp_all add: d e u)
    then show ?thesis using d touches_trans by (meson rtranclp_trans)
  qed
  show ?thesis
    using r [unfolded psp_phase_def Let_def, folded d_def] st t by (auto split: sum.splits)
qed

text \<open>A group is ready when its payouts are still scheduled, and are all of one seller.\<close>

definition group_ready :: "sp_db \<Rightarrow> int \<times> payout list \<times> int \<Rightarrow> bool" where
  "group_ready db g \<longleftrightarrow> (\<forall>p \<in> set (fst (snd g)). \<forall>r \<in> set (sp_payouts db). po_ID r = po_ID p \<longrightarrow>
     po_Status r = ''scheduled'' \<and> po_SellerID r = fst g)"

lemma processBatch_moves:
  assumes inv: "sp_inv db" and g: "group_ready db (sid, ps, t)" and e: "FindAccount (sp_wallet db) escrowAcctType cur = Inr e"
    and r: "processBatch psp sv sid ps t d market cur e db l = (err, db', l')"
  shows "sp_move\<^sup>*\<^sup>* db db' \<and> (\<forall>r' \<in> set (sp_payouts db'). \<exists>r \<in> set (sp_payouts db).
    po_ID r' = po_ID r \<and> po_SellerID r' = po_SellerID r \<and> (po_Status r' = po_Status r \<or> po_SellerID r = sid))"
proof (cases "sv_find_ok sv \<and> FindBatchByKey db (batchIdempotencyKey sid (day_of d) cur) = None \<and> (\<exists>a. FindSellerPspAccount db sid = Inr a)")
  case False
  then have "db' = db" using r by (auto simp: processBatch_def split: if_splits option.splits sum.splits)
  then show ?thesis by auto
next
  case True
  then obtain a where a: "FindSellerPspAccount db sid = Inr a" by blast
  obtain ro w where o: "FindOrOpenSellerPayable (sv_env sv) (sv_oouts sv) sid cur (sp_wallet db) = (ro, w)" by fastforce
  note oe = open_escrow [OF inv o]
  let ?d0 = "db\<lparr>sp_wallet := w\<rparr>"
  have i0: "sp_inv ?d0" using sp_move_keeps [OF oe(1) inv] by simp
  show ?thesis
  proof (cases ro)
    case (Inl x)
    then have "db' = ?d0" using r True a o by (auto simp: processBatch_def)
    then show ?thesis using oe(1) by auto
  next
    case u: (Inr u)
    let ?fn = "\<lambda>tx c. (tx1_body (we_now (sv_env sv)) (new_batch sid d t market cur) ps tx, c)"
    obtain r1 d1 c1 where tx: "sellerpayout_WithTx (sv_tx1 sv) ?fn ?d0 () = (r1, d1, c1)" by (metis prod_cases3)
    show ?thesis
    proof (cases r1)
      case (Inl x)
      then have "d1 = ?d0" using single_tx [OF tx] by simp
      then have "db' = ?d0" using r True a o u tx Inl by (auto simp: processBatch_def split: if_splits)
      then show ?thesis using oe(1) by auto
    next
      case (Inr b)
      then have t1: "tx1_body (we_now (sv_env sv)) (new_batch sid d t market cur) ps ?d0 = Inr (b, d1)"
        using single_tx [OF tx] by auto
      note eff = tx1_effect [OF t1]
      have m1: "sp_move ?d0 d1" using mv_tx1 [OF t1] g by (auto simp: group_ready_def)
      have i1: "sp_inv d1" using sp_move_keeps [OF m1 i0] by simp
      have b: "b \<in> set (sp_batches d1)" "bt_Status b \<noteq> ''paid''" "bt_Currency b = cur" "bt_ID b = sp_next_batch db"
        "sp_wallet d1 = w" using eff by (simp_all add: new_batch_def)
      have "psp_phase psp sv b (pa_PspMemberID a) u e d1 (add_batched l) = (err, db', l')"
        using r True a o u tx Inr by (auto simp: processBatch_def)
      then have m2: "sp_move\<^sup>*\<^sup>* d1 db' \<and> touches (bt_ID b) d1 db'"
        by (rule psp_phase_moves [OF i1 b(1,2), rotated 2]) (use b oe u e in simp_all)
      have link: "\<exists>r \<in> set (sp_payouts db). po_ID r' = po_ID r \<and> po_SellerID r' = po_SellerID r \<and> po_Status r' = po_Status r \<and>
          (po_BatchID r' = Some (bt_ID b) \<longrightarrow> po_SellerID r = sid)" if r': "r' \<in> set (sp_payouts d1)" for r'
      proof -
        obtain r where r: "r \<in> set (sp_payouts db)" "r' = (if po_ID r \<in> po_ID ` set ps then r\<lparr>po_BatchID := Some (sp_next_batch db)\<rparr> else r)"
          using eff r' by auto
        have "po_BatchID r \<noteq> Some (sp_next_batch db)" using inv r(1) by (auto simp: sp_inv_def payout_inv_def)
        moreover have "po_ID r \<in> po_ID ` set ps \<Longrightarrow> po_SellerID r = sid" using g r(1) by (auto simp: group_ready_def)
        ultimately show ?thesis using r b(4) by (intro bexI [of _ r]) (auto split: if_splits)
      qed
      have "\<exists>r \<in> set (sp_payouts db). po_ID r'' = po_ID r \<and> po_SellerID r'' = po_SellerID r \<and> (po_Status r'' = po_Status r \<or> po_SellerID r = sid)"
        if "r'' \<in> set (sp_payouts db')" for r''
        using m2 link that unfolding touches_def by metis
      then show ?thesis using oe(1) m1 m2 by (meson converse_rtranclp_into_rtranclp)
    qed
  qed
qed

section \<open>The daily run as moves\<close>

lemma distinct_fold_map_upd: "distinct (map fst m) \<Longrightarrow> distinct (map fst (fold (\<lambda>x. map_upd (k x) (f x)) xs m))"
  by (induction xs arbitrary: m) (auto intro: distinct_map_upd)

lemma set_map_upd: "distinct (map fst m) \<Longrightarrow> set (map_upd k f m) = {(j, v). (j, v) \<in> set m \<and> j \<noteq> k} \<union> {(k, f (map_of m k))}"
proof (induction k f m rule: map_upd.induct)
  case (2 k f j v m)
  then show ?case by (auto simp: rev_image_eqI split: if_splits)
qed auto

lemma group_payouts_distinct: "distinct (map fst (group_payouts ps))"
  unfolding group_payouts_def by (rule distinct_fold_map_upd) simp

definition groups_ok :: "payout set \<Rightarrow> (int \<times> payout list \<times> int) list \<Rightarrow> bool" where
  "groups_ok A m \<longleftrightarrow> distinct (map fst m) \<and> (\<forall>g \<in> set m. set (fst (snd g)) \<subseteq> A \<and> (\<forall>p \<in> set (fst (snd g)). po_SellerID p = fst g))"

lemma groups_ok_add:
  assumes "groups_ok A m" "p \<in> A"
  shows "groups_ok A (map_upd (po_SellerID p) (add_payout p) m)"
proof -
  have d: "distinct (map fst m)" using assms(1) by (simp add: groups_ok_def)
  have new: "set (fst (add_payout p (map_of m (po_SellerID p)))) \<subseteq> A \<and>
      (\<forall>q \<in> set (fst (add_payout p (map_of m (po_SellerID p)))). po_SellerID q = po_SellerID p)"
  proof (cases "map_of m (po_SellerID p)")
    case None
    then show ?thesis using assms(2) by (simp add: add_payout_def)
  next
    case (Some v)
    then have "(po_SellerID p, v) \<in> set m" by (rule map_of_SomeD)
    then show ?thesis using assms Some by (cases v) (fastforce simp: groups_ok_def add_payout_def)
  qed
  have "set (fst (snd g)) \<subseteq> A \<and> (\<forall>q \<in> set (fst (snd g)). po_SellerID q = fst g)"
    if "g \<in> set (map_upd (po_SellerID p) (add_payout p) m)" for g
  proof (cases "g \<in> set m")
    case True
    then show ?thesis using assms(1) by (simp add: groups_ok_def)
  next
    case False
    then have "g = (po_SellerID p, add_payout p (map_of m (po_SellerID p)))" using that unfolding set_map_upd [OF d] by auto
    then show ?thesis using new by simp
  qed
  then show ?thesis using distinct_map_upd [OF d] unfolding groups_ok_def by blast
qed

lemma groups_ok_fold: "groups_ok A m \<Longrightarrow> set xs \<subseteq> A \<Longrightarrow> groups_ok A (fold (\<lambda>p. map_upd (po_SellerID p) (add_payout p)) xs m)"
  by (induction xs arbitrary: m) (auto intro: groups_ok_add)

lemma group_payouts_members:
  assumes "(s, qs, t) \<in> set (group_payouts ps)"
  shows "set qs \<subseteq> set ps \<and> (\<forall>p \<in> set qs. po_SellerID p = s)"
proof -
  have "groups_ok (set ps) (group_payouts ps)"
    using groups_ok_fold [of "set ps" "[]" ps] by (simp add: groups_ok_def group_payouts_def)
  then show ?thesis using assms by (fastforce simp: groups_ok_def)
qed

lemma process_groups_moves:
  assumes "sp_inv db" "distinct (map fst gs)" "\<forall>g \<in> set gs. group_ready db g" "FindAccount (sp_wallet db) escrowAcctType cur = Inr e"
    and "process_groups psp srv d market cur e gs db l = (db', l')"
  shows "sp_move\<^sup>*\<^sup>* db db'"
  using assms
proof (induction gs arbitrary: db l)
  case (Cons g gs)
  obtain sid ps t where g: "g = (sid, ps, t)" by (metis prod_cases3)
  obtain err d1 l1 where r: "processBatch psp (srv sid) sid ps t d market cur e db l = (err, d1, l1)" by (metis prod_cases3)
  have gr: "group_ready db (sid, ps, t)" using Cons.prems(3) g by simp
  note m = processBatch_moves [OF Cons.prems(1) gr Cons.prems(4) r]
  have k: "sp_inv d1" "FindAccount (sp_wallet d1) escrowAcctType cur = Inr e"
    using sp_moves_keep [of db d1] m Cons.prems(1,4) by (auto simp: conserves_def)
  have "group_ready d1 h" if h: "h \<in> set gs" for h
    unfolding group_ready_def
  proof (intro ballI impI)
    fix p r' assume p: "p \<in> set (fst (snd h))" "r' \<in> set (sp_payouts d1)" "po_ID r' = po_ID p"
    then obtain r where r: "r \<in> set (sp_payouts db)" "po_ID r' = po_ID r" "po_SellerID r' = po_SellerID r" "po_Status r' = po_Status r \<or> po_SellerID r = sid"
      using m by blast
    have "po_Status r = ''scheduled'' \<and> po_SellerID r = fst h" using Cons.prems(3) h p r by (simp add: group_ready_def)
    moreover have "fst h \<noteq> sid" using Cons.prems(2) h g by (auto simp: rev_image_eqI)
    ultimately show "po_Status r' = ''scheduled'' \<and> po_SellerID r' = fst h" using r by auto
  qed
  then have "sp_move\<^sup>*\<^sup>* d1 db'" using Cons.IH [OF k(1) _ _ k(2)] Cons.prems g r by (simp split: if_splits)
  then show ?case using m by auto
qed simp

lemma fetched_ready:
  assumes "sp_inv db" "g \<in> set (group_payouts (FetchScheduledPayouts db d cur n))"
  shows "group_ready db g"
proof -
  obtain s qs t where g: "g = (s, qs, t)" by (metis prod_cases3)
  have "p \<in> set (sp_payouts db) \<and> po_Status p = ''scheduled''" if "p \<in> set (FetchScheduledPayouts db d cur n)" for p
    using that by (auto simp: FetchScheduledPayouts_def is_payable_def dest!: in_set_takeD)
  moreover have "r = p" if "r \<in> set (sp_payouts db)" "p \<in> set (sp_payouts db)" "po_ID r = po_ID p" for p r
    using assms(1) that by (auto simp: sp_inv_def fresh_ids_def distinct_map dest: inj_onD)
  moreover have "set qs \<subseteq> set (FetchScheduledPayouts db d cur n) \<and> (\<forall>p \<in> set qs. po_SellerID p = s)"
    using group_payouts_members assms(2) unfolding g by blast
  ultimately show ?thesis unfolding g group_ready_def fst_conv snd_conv by blast
qed

lemma daily_loop_moves:
  assumes "sp_inv db" "FindAccount (sp_wallet db) escrowAcctType cur = Inr e"
    and "daily_loop fuel psp envs n d market cur e db l = Some (err, db', l')"
  shows "sp_move\<^sup>*\<^sup>* db db'"
  using assms
proof (induction fuel arbitrary: n db l)
  case (Suc fuel)
  define ps where "ps = FetchScheduledPayouts db d cur dailyBatchSize"
  define gs where "gs = range_map (de_prio (envs n)) (group_payouts ps)"
  obtain d1 l1 where r: "process_groups psp (de_srv (envs n)) d market cur e gs db l = (d1, l1)" by fastforce
  have m: "sp_move\<^sup>*\<^sup>* db d1"
    by (rule process_groups_moves [OF Suc.prems(1) _ _ Suc.prems(2) r])
      (use fetched_ready [OF Suc.prems(1)] in \<open>auto simp: gs_def ps_def group_payouts_distinct\<close>)
  have k: "sp_inv d1" "FindAccount (sp_wallet d1) escrowAcctType cur = Inr e"
    using sp_moves_keep [OF m Suc.prems(1)] Suc.prems(2) by (auto simp: conserves_def)
  have "db' = db \<or> db' = d1 \<or> daily_loop fuel psp envs (Suc n) d market cur e d1 l1 = Some (err, db', l')"
    using Suc.prems(3) r by (auto simp: Let_def ps_def gs_def split: if_splits)
  then show ?case using m Suc.IH [OF k] by (metis rtranclp.rtrancl_refl rtranclp_trans)
qed simp

lemma RunDailyPayouts_moves:
  assumes "sp_inv db" "RunDailyPayouts fuel psp envs d market cur db l = Some (err, db', l')"
  shows "sp_move\<^sup>*\<^sup>* db db'"
  using assms daily_loop_moves [OF assms(1)] by (auto simp: RunDailyPayouts_def Let_def split: sum.splits)

section \<open>Scheduling is exact\<close>

definition seller_net :: "delivered_item list \<Rightarrow> int \<Rightarrow> int" where
  "seller_net items s = wrap64 (sum_list (map di_SellerNetMinor (filter (\<lambda>it. di_SellerID it = s) items)))"

lemma bySellerNet_fold:
  "map_of (fold (\<lambda>it. map_upd (di_SellerID it) (\<lambda>v. wrap64 ((case v of None \<Rightarrow> 0 | Some n \<Rightarrow> n) + di_SellerNetMinor it))) items m) s =
     (if (\<exists>it \<in> set items. di_SellerID it = s)
      then Some (wrap64 ((case map_of m s of None \<Rightarrow> 0 | Some n \<Rightarrow> n) + sum_list (map di_SellerNetMinor (filter (\<lambda>it. di_SellerID it = s) items))))
      else map_of m s)"
proof (induction items arbitrary: m)
  case (Cons it items)
  then show ?case by (auto simp: map_of_map_upd filter_empty_conv add.assoc)
qed simp

lemma bySellerNet_map: "map_of (bySellerNet items) s =
    (if \<exists>it \<in> set items. di_SellerID it = s then Some (seller_net items s) else None)"
  unfolding bySellerNet_def bySellerNet_fold by (simp add: seller_net_def)

lemma bySellerNet_distinct: "distinct (map fst (bySellerNet items))"
  unfolding bySellerNet_def by (rule distinct_fold_map_upd) simp

lemma bySellerNet_set: "(s, n) \<in> set (bySellerNet items) \<longleftrightarrow> (\<exists>it \<in> set items. di_SellerID it = s) \<and> n = seller_net items s"
proof -
  have "(s, n) \<in> set (bySellerNet items) \<longleftrightarrow> map_of (bySellerNet items) s = Some n"
    using bySellerNet_distinct [of items] by (simp add: map_of_eq_Some_iff)
  then show ?thesis by (auto simp: bySellerNet_map)
qed

lemma schedule_body_rows:
  assumes "schedule_body cfg ev u nets db = Inr db'"
  shows "\<exists>ps. sp_payouts db' = sp_payouts db @ ps \<and>
    map (\<lambda>p. (po_SellerID p, po_AmountMinor p)) ps = filter (\<lambda>(s, n). 0 < n) nets \<and>
    (\<forall>p \<in> set ps. po_OrderID p = pe_OrderID ev \<and> po_UnlockAt p = u \<and> po_Status p = ''scheduled'' \<and> po_Currency p = sc_currency cfg \<and>
       po_IdempotencyKey p = payout_key (pe_OrderID ev) (po_SellerID p))"
  using assms
proof (induction nets arbitrary: db)
  case (Cons x nets)
  obtain s n where x: "x = (s, n)" by fastforce
  show ?case
  proof (cases "n \<le> 0")
    case True
    then show ?thesis using Cons x by (simp add: schedule_body_def)
  next
    case False
    then obtain d where d: "InsertPayout (new_payout cfg ev u s n) db = Inr d" "schedule_body cfg ev u nets d = Inr db'"
      using Cons.prems x by (auto simp: schedule_body_def split: sum.splits)
    then have "sp_payouts d = sp_payouts db @ [(new_payout cfg ev u s n)\<lparr>po_ID := sp_next_payout db, po_BatchID := None\<rparr>]"
      by (auto simp: InsertPayout_def split: if_splits)
    then show ?thesis using Cons.IH [OF d(2)] x False by (auto simp: new_payout_def)
  qed
qed (simp add: schedule_body_def)

lemma schedule_cases:
  assumes "SchedulePayoutsForOrder cfg prio outs ev db = (err, db')"
  obtains (same) "db' = db" "err \<noteq> None \<or> pe_Items ev = []"
  | (exists) "db' = db" "err = None" "\<exists>u. schedule_body cfg ev u (range_map prio (bySellerNet (pe_Items ev))) db = Inl SpPayoutAlreadyExists"
  | (inserted) cal where "err = None" "static_Load (sc_calendars cfg) (pe_Market ev) = Some cal"
      "schedule_body cfg ev (day_of (AddBusinessDays (pe_DeliveredAt ev) 3 cal)) (range_map prio (bySellerNet (pe_Items ev))) db = Inr db'"
proof (cases "bySellerNet (pe_Items ev) = []")
  case True
  then have "pe_Items ev = []" using bySellerNet_set [of _ _ "pe_Items ev"] by (cases "pe_Items ev") auto
  then show thesis using assms True same by (simp add: SchedulePayoutsForOrder_def)
next
  case ne: False
  show thesis
  proof (cases "static_Load (sc_calendars cfg) (pe_Market ev)")
    case None
    then show thesis using assms ne same by (auto simp: SchedulePayoutsForOrder_def Let_def)
  next
    case (Some cal)
    define u where "u = day_of (AddBusinessDays (pe_DeliveredAt ev) 3 cal)"
    define fn where "fn = (\<lambda>tx (c :: unit). (map_sum id (\<lambda>d. ((), d)) (schedule_body cfg ev u (range_map prio (bySellerNet (pe_Items ev))) tx), c))"
    obtain r d c where tx: "sellerpayout_WithTx outs fn db () = (r, d, c)" by (metis prod_cases3)
    have res: "(err, db') = (case r of Inl e \<Rightarrow> (if e = TxFn SpPayoutAlreadyExists then None else Some e, d) | Inr _ \<Rightarrow> (None, d))"
      using assms ne Some tx by (cases r) (simp_all add: SchedulePayoutsForOrder_def Let_def u_def fn_def)
    show thesis
    proof (cases r)
      case (Inl e)
      then have d: "d = db" using single_tx [OF tx] by simp
      show thesis
      proof (cases "e = TxFn SpPayoutAlreadyExists")
        case True
        then obtain c0 where "fn db c0 = (Inl SpPayoutAlreadyExists, c)"
          using with_retry_fn_error tx Inl unfolding sellerpayout_WithTx_def by metis
        then have "schedule_body cfg ev u (range_map prio (bySellerNet (pe_Items ev))) db = Inl SpPayoutAlreadyExists"
          by (auto simp: fn_def map_sum_def split: sum.splits)
        then show thesis using exists res Inl d True by auto
      qed (use res Inl d same in auto)
    next
      case (Inr un)
      then obtain c0 where "fn db c0 = (Inr (un, d), c)" using single_tx [OF tx] by auto
      then show thesis using inserted [OF _ Some] res Inr
        by (auto simp: fn_def u_def map_sum_def split: sum.splits)
    qed
  qed
qed

text \<open>
  Scheduling is all-or-nothing and exact: an error changes nothing; a success either changes nothing
  (no items, or the order was scheduled before) or appends, for the sellers whose net total over the order's
  items is positive and for no others, one payout each, of exactly that total, due on the third business
  day after delivery.
\<close>

theorem schedule_effect:
  assumes "SchedulePayoutsForOrder cfg prio outs ev db = (err, db')"
  shows "db' = db \<or> err = None \<and> (\<exists>ps cal. sp_payouts db' = sp_payouts db @ ps \<and>
    static_Load (sc_calendars cfg) (pe_Market ev) = Some cal \<and> distinct (map po_SellerID ps) \<and>
    set (map po_SellerID ps) = {s \<in> set (map di_SellerID (pe_Items ev)). 0 < seller_net (pe_Items ev) s} \<and>
    (\<forall>p \<in> set ps. po_OrderID p = pe_OrderID ev \<and> po_AmountMinor p = seller_net (pe_Items ev) (po_SellerID p) \<and>
       po_Status p = ''scheduled'' \<and> po_UnlockAt p = day_of (AddBusinessDays (pe_DeliveredAt ev) 3 cal)))"
  using assms
proof (cases rule: schedule_cases)
  case (inserted cal)
  define nets where "nets = range_map prio (bySellerNet (pe_Items ev))"
  obtain ps where ps: "sp_payouts db' = sp_payouts db @ ps"
    "map (\<lambda>p. (po_SellerID p, po_AmountMinor p)) ps = filter (\<lambda>(s, n). 0 < n) nets"
    "\<forall>p \<in> set ps. po_OrderID p = pe_OrderID ev \<and> po_UnlockAt p = day_of (AddBusinessDays (pe_DeliveredAt ev) 3 cal) \<and> po_Status p = ''scheduled''"
    using schedule_body_rows [OF inserted(3)] unfolding nets_def by blast
  have pairs: "(\<lambda>p. (po_SellerID p, po_AmountMinor p)) ` set ps = {(s, n). (s, n) \<in> set nets \<and> 0 < n}"
    using arg_cong [OF ps(2), of set] by auto
  have "map po_SellerID ps = map fst (filter (\<lambda>(s, n). 0 < n) nets)"
    using arg_cong [OF ps(2), of "map fst"] by (simp add: comp_def)
  then have "distinct (map po_SellerID ps)"
    using bySellerNet_distinct [of "pe_Items ev"] by (simp add: nets_def distinct_map_filter)
  moreover have "set (map po_SellerID ps) = {s \<in> set (map di_SellerID (pe_Items ev)). 0 < seller_net (pe_Items ev) s}"
  proof -
    have m: "s \<in> set (map po_SellerID ps) \<longleftrightarrow> (\<exists>n. (s, n) \<in> {(s, n). (s, n) \<in> set nets \<and> 0 < n})" for s
      unfolding pairs [symmetric] by auto
    have "s \<in> set (map po_SellerID ps) \<longleftrightarrow> s \<in> {s \<in> set (map di_SellerID (pe_Items ev)). 0 < seller_net (pe_Items ev) s}" for s
      unfolding m by (auto simp: nets_def bySellerNet_set)
    then show ?thesis by blast
  qed
  moreover have "po_AmountMinor p = seller_net (pe_Items ev) (po_SellerID p)" if "p \<in> set ps" for p
  proof -
    have "(po_SellerID p, po_AmountMinor p) \<in> {(s, n). (s, n) \<in> set nets \<and> 0 < n}" using that unfolding pairs [symmetric] by simp
    then show ?thesis by (simp add: nets_def bySellerNet_set)
  qed
  ultimately have "sp_payouts db' = sp_payouts db @ ps \<and>
    static_Load (sc_calendars cfg) (pe_Market ev) = Some cal \<and> distinct (map po_SellerID ps) \<and>
    set (map po_SellerID ps) = {s \<in> set (map di_SellerID (pe_Items ev)). 0 < seller_net (pe_Items ev) s} \<and>
    (\<forall>p \<in> set ps. po_OrderID p = pe_OrderID ev \<and> po_AmountMinor p = seller_net (pe_Items ev) (po_SellerID p) \<and>
       po_Status p = ''scheduled'' \<and> po_UnlockAt p = day_of (AddBusinessDays (pe_DeliveredAt ev) 3 cal))"
    using inserted ps by simp
  then show ?thesis using inserted(1) by blast
qed simp_all

text \<open>
  An order is settled when one of its sellers has a payout row of it, or no seller is owed anything.
\<close>

definition payout_settled :: "sp_db \<Rightarrow> event \<Rightarrow> bool" where
  "payout_settled db ev \<longleftrightarrow>
     (case decode_payout_event ev of None \<Rightarrow> False
      | Some pe \<Rightarrow> (\<forall>s \<in> di_SellerID ` set (pe_Items pe). seller_net (pe_Items pe) s \<le> 0) \<or>
          (\<exists>s \<in> di_SellerID ` set (pe_Items pe). 0 < seller_net (pe_Items pe) s \<and> FindPayoutByKey db (payout_key (pe_OrderID pe) s) \<noteq> None))"

fun payout_handle :: "sp_cfg \<times> (int \<Rightarrow> int) \<times> tx_outcome list \<Rightarrow> event \<Rightarrow> sp_db \<Rightarrow> bool \<times> sp_db" where
  "payout_handle (cfg, prio, outs) ev db =
     (case payout_handleDelivered cfg prio outs ev db of (err, db') \<Rightarrow> (err = None, db'))"

lemma schedule_body_none: "\<forall>(s, n) \<in> set nets. n \<le> 0 \<Longrightarrow> schedule_body cfg ev u nets db = Inr db"
  by (induction nets) (auto simp: schedule_body_def)

lemma schedule_body_conflict:
  assumes "(s, n) \<in> set nets" "0 < n" "FindPayoutByKey db (payout_key (pe_OrderID ev) s) \<noteq> None"
  shows "\<exists>e. schedule_body cfg ev u nets db = Inl e"
proof (rule ccontr)
  assume "\<nexists>e. schedule_body cfg ev u nets db = Inl e"
  then obtain db' where ok: "schedule_body cfg ev u nets db = Inr db'" by (cases "schedule_body cfg ev u nets db") auto
  have "FindPayoutByKey d (payout_key (pe_OrderID ev) s) \<noteq> None \<Longrightarrow> (s, n) \<in> set ns \<Longrightarrow> schedule_body cfg ev u ns d \<noteq> Inr db'" for d ns
  proof (induction ns arbitrary: d)
    case (Cons x ns)
    obtain s' n' where x: "x = (s', n')" by fastforce
    show ?case
    proof (cases "n' \<le> 0")
      case True
      then show ?thesis using Cons x assms(2) by (auto simp: schedule_body_def)
    next
      case False
      show ?thesis
      proof (cases "InsertPayout (new_payout cfg ev u s' n') d")
        case (Inl e)
        then show ?thesis using x False by (simp add: schedule_body_def)
      next
        case (Inr d1)
        have "FindPayoutByKey d1 (payout_key (pe_OrderID ev) s) \<noteq> None" "s' \<noteq> s"
          using Inr Cons.prems(1) by (auto simp: InsertPayout_def FindPayoutByKey_def new_payout_def find_append split: if_splits)
        then show ?thesis using Cons x False Inr by (auto simp: schedule_body_def)
      qed
    qed
  qed simp
  then show False using assms(1,3) ok by blast
qed

lemma schedule_body_exists:
  assumes "schedule_body cfg ev u nets db = Inl SpPayoutAlreadyExists" "distinct (map fst nets)"
  shows "\<exists>(s, n) \<in> set nets. 0 < n \<and> FindPayoutByKey db (payout_key (pe_OrderID ev) s) \<noteq> None"
  using assms
proof (induction nets arbitrary: db)
  case (Cons x nets)
  obtain s n where x: "x = (s, n)" by fastforce
  show ?case
  proof (cases "n \<le> 0")
    case True
    then show ?thesis using Cons x by (auto simp: schedule_body_def)
  next
    case False
    show ?thesis
    proof (cases "InsertPayout (new_payout cfg ev u s n) db")
      case (Inl e)
      then have "FindPayoutByKey db (payout_key (pe_OrderID ev) s) \<noteq> None"
        using Cons.prems x False by (auto simp: schedule_body_def InsertPayout_def new_payout_def FindPayoutByKey_def split: if_splits)
      then show ?thesis using x False by auto
    next
      case (Inr d)
      then have "schedule_body cfg ev u nets d = Inl SpPayoutAlreadyExists" using Cons.prems x False by (simp add: schedule_body_def)
      then obtain s' n' where s': "(s', n') \<in> set nets" "0 < n'" "FindPayoutByKey d (payout_key (pe_OrderID ev) s') \<noteq> None"
        using Cons.IH [of d] Cons.prems(2) by auto
      moreover have "s' \<noteq> s" using s'(1) Cons.prems(2) x by (auto simp: rev_image_eqI)
      ultimately have "FindPayoutByKey db (payout_key (pe_OrderID ev) s') \<noteq> None"
        using Inr by (auto simp: InsertPayout_def FindPayoutByKey_def new_payout_def find_append split: if_splits option.splits)
      then show ?thesis using s' by auto
    qed
  qed
qed (simp add: schedule_body_def)

lemma schedule_payouts_append:
  assumes "SchedulePayoutsForOrder cfg prio outs ev db = (err, db')"
  shows "\<exists>ps. sp_payouts db' = sp_payouts db @ ps"
  using assms by (cases rule: schedule_cases) (auto dest: schedule_body_rows)

lemma schedule_inv:
  assumes "sp_inv db" "SchedulePayoutsForOrder cfg prio outs ev db = (err, db')"
  shows "sp_inv db'"
  using assms(2) by (cases rule: schedule_cases) (use assms(1) schedule_body_inv in auto)

lemma payout_handle_cases:
  assumes "payout_handle x ev db = (acked, db')"
  obtains (bad) "decode_payout_event ev = None" "\<not> acked" "db' = db"
  | (run) pe cfg prio outs err where "decode_payout_event ev = Some pe" "acked = (err = None)"
      "SchedulePayoutsForOrder cfg prio outs pe db = (err, db')"
proof -
  obtain cfg prio outs where x: "x = (cfg, prio, outs)" by (metis prod_cases3)
  show thesis
  proof (cases "decode_payout_event ev")
    case None
    then show thesis using assms x bad by (simp add: payout_handleDelivered_def)
  next
    case (Some pe)
    obtain err d where "SchedulePayoutsForOrder cfg prio outs pe db = (err, d)" by fastforce
    then show thesis using assms x Some run [of pe err cfg prio outs] by (simp add: payout_handleDelivered_def)
  qed
qed

lemma schedule_settles:
  assumes "SchedulePayoutsForOrder cfg prio outs pe db = (None, db')" "\<exists>s \<in> di_SellerID ` set (pe_Items pe). 0 < seller_net (pe_Items pe) s"
  shows "\<exists>s \<in> di_SellerID ` set (pe_Items pe). 0 < seller_net (pe_Items pe) s \<and> FindPayoutByKey db' (payout_key (pe_OrderID pe) s) \<noteq> None"
  using assms(1)
proof (cases rule: schedule_cases)
  case same
  then show ?thesis using assms(2) by auto
next
  case exists
  then show ?thesis using schedule_body_exists bySellerNet_distinct [of "pe_Items pe"]
    by (fastforce simp: bySellerNet_set)
next
  case (inserted cal)
  obtain ps where ps: "sp_payouts db' = sp_payouts db @ ps"
    "map (\<lambda>p. (po_SellerID p, po_AmountMinor p)) ps = filter (\<lambda>(s, n). 0 < n) (range_map prio (bySellerNet (pe_Items pe)))"
    "\<forall>p \<in> set ps. po_IdempotencyKey p = payout_key (pe_OrderID pe) (po_SellerID p)"
    using schedule_body_rows [OF inserted(3)] by blast
  obtain s where s: "s \<in> di_SellerID ` set (pe_Items pe)" "0 < seller_net (pe_Items pe) s" using assms(2) by blast
  then have "(s, seller_net (pe_Items pe) s) \<in> set (filter (\<lambda>(s, n). 0 < n) (range_map prio (bySellerNet (pe_Items pe))))"
    by (auto simp: bySellerNet_set)
  then obtain p where "p \<in> set ps" "po_SellerID p = s" unfolding ps(2) [symmetric] by auto
  then have "FindPayoutByKey db' (payout_key (pe_OrderID pe) s) \<noteq> None"
    using ps(1,3) by (auto simp: FindPayoutByKey_def find_None_iff2)
  then show ?thesis using s by blast
qed

lemma schedule_settled:
  assumes "SchedulePayoutsForOrder cfg prio outs pe db = (err, db')"
    and "(\<forall>s \<in> di_SellerID ` set (pe_Items pe). seller_net (pe_Items pe) s \<le> 0) \<or>
      (\<exists>s \<in> di_SellerID ` set (pe_Items pe). 0 < seller_net (pe_Items pe) s \<and> FindPayoutByKey db (payout_key (pe_OrderID pe) s) \<noteq> None)"
  shows "db' = db"
  using assms(1)
proof (cases rule: schedule_cases)
  case (inserted cal)
  let ?nets = "range_map prio (bySellerNet (pe_Items pe))"
  from assms(2) show ?thesis
  proof
    assume "\<forall>s \<in> di_SellerID ` set (pe_Items pe). seller_net (pe_Items pe) s \<le> 0"
    then have "\<forall>(s, n) \<in> set ?nets. n \<le> 0" by (auto simp: bySellerNet_set)
    then show ?thesis using schedule_body_none inserted(3) by simp
  next
    assume "\<exists>s \<in> di_SellerID ` set (pe_Items pe). 0 < seller_net (pe_Items pe) s \<and> FindPayoutByKey db (payout_key (pe_OrderID pe) s) \<noteq> None"
    then obtain s where s: "s \<in> di_SellerID ` set (pe_Items pe)" "0 < seller_net (pe_Items pe) s" "FindPayoutByKey db (payout_key (pe_OrderID pe) s) \<noteq> None" by blast
    then have "(s, seller_net (pe_Items pe) s) \<in> set ?nets" by (auto simp: bySellerNet_set)
    then obtain e where "schedule_body cfg pe (day_of (AddBusinessDays (pe_DeliveredAt pe) 3 cal)) ?nets db = Inl e"
      using schedule_body_conflict [OF _ s(2,3)] by blast
    then show ?thesis using inserted(3) by simp
  qed
qed simp_all

interpretation spc: idempotent_consumer sp_inv payout_handle payout_settled
proof
  fix s x m acked s'
  assume i: "sp_inv s" and h: "payout_handle x m s = (acked, s')"
  from h show "sp_inv s'" by (cases rule: payout_handle_cases) (use i schedule_inv in auto)
next
  fix s x m s'
  assume i: "sp_inv s" and h: "payout_handle x m s = (True, s')"
  from h show "payout_settled s' m"
  proof (cases rule: payout_handle_cases)
    case (run pe cfg prio outs err)
    then show ?thesis using schedule_settles [of cfg prio outs pe s s'] unfolding payout_settled_def by (simp only: option.case) (meson not_le)
  qed simp
next
  fix s m x acked s'
  assume i: "sp_inv s" and p: "payout_settled s m" and h: "payout_handle x m s = (acked, s')"
  from h show "s' = s"
  proof (cases rule: payout_handle_cases)
    case (run pe cfg prio outs err)
    then show ?thesis using schedule_settled [OF run(3)] p by (simp add: payout_settled_def)
  qed
next
  fix s m x k acked s'
  assume i: "sp_inv s" and p: "payout_settled s m" and h: "payout_handle x k s = (acked, s')"
  from h have "\<exists>ps. sp_payouts s' = sp_payouts s @ ps"
    by (cases rule: payout_handle_cases) (use schedule_payouts_append in auto)
  then show "payout_settled s' m" using p
    by (auto simp: payout_settled_def FindPayoutByKey_def find_None_iff2 split: option.splits)
qed

text \<open>
  At-least-once delivery schedules each order once: after the delivered event has been acknowledged by
  the payout engine, re-delivering it at any later point, among any other deliveries, with another
  configuration, iteration order and any server interference, changes nothing.
\<close>

theorem payouts_scheduled_once:
  assumes "sp_inv db" "payout_handle x ev db = (True, db1)"
  shows "deliver payout_handle (ms @ (y, ev) # ns) db1 = deliver payout_handle (ms @ ns) db1"
  using assms by (rule spc.redelivery)

section \<open>Reachable states\<close>

inductive sp_step :: "sp_db \<Rightarrow> sp_db \<Rightarrow> bool" where
  st_schedule: "SchedulePayoutsForOrder cfg prio outs ev db = (err, db') \<Longrightarrow> sp_step db db'"
| st_daily: "RunDailyPayouts fuel psp envs d market cur db l = Some (err, db', l') \<Longrightarrow> sp_step db db'"
| st_reconcile: "ReconcileProcessing psp fetch_ok now srv db l = (err, db', l') \<Longrightarrow> sp_step db db'"
| st_onboarded: "sp_step db (HandlePspOnboarded sid m market db)"
| st_fraud: "sp_step db (HandleFraudHoldSet sid cur reason db)"

lemma sp_step_moves: "sp_step db db' \<Longrightarrow> sp_inv db \<Longrightarrow> sp_move\<^sup>*\<^sup>* db db'"
proof (induction rule: sp_step.induct)
  case (st_schedule cfg prio outs ev db err db')
  then show ?case by (cases rule: schedule_cases) (auto intro: mv_schedule)
next
  case (st_daily fuel psp envs d market cur db l err db' l')
  then show ?case using RunDailyPayouts_moves by blast
next
  case (st_reconcile psp fetch_ok now srv db l err db' l')
  then show ?case using ReconcileProcessing_moves by blast
next
  case (st_onboarded db sid m market)
  then show ?case unfolding HandlePspOnboarded_def using mv_psp by blast
next
  case (st_fraud db sid cur reason)
  then show ?case unfolding HandleFraudHoldSet_def using mv_alert by blast
qed

text \<open>
  C5. In every reachable state of the engine, whatever the payment provider answered, whatever failed and
  however often the jobs ran, the escrow account of a currency has been credited exactly the totals of the
  batches of that currency that became paid, and every payout marked paid belongs to a paid batch whose
  ledger transaction is the one recorded under the batch's key.
\<close>

theorem payouts_backed_by_ledger:
  assumes "sp_step\<^sup>*\<^sup>* db0 db" "sp_inv db0" "FindAccount (sp_wallet db0) escrowAcctType cur = Inr e"
  shows "GetBalanceStrict (sp_wallet db) e - GetBalanceStrict (sp_wallet db0) e = paid_total db cur - paid_total db0 cur \<and>
    (\<forall>p \<in> set (sp_payouts db). po_Status p = ''paid'' \<longrightarrow> (\<exists>b \<in> set (sp_batches db). po_BatchID p = Some (bt_ID b) \<and>
       bt_Status b = ''paid'' \<and> bt_LedgerTransactionID b \<noteq> None \<and>
       posted (sp_wallet db) (bt_IdempotencyKey b) = bt_LedgerTransactionID b))"
proof -
  have "sp_move\<^sup>*\<^sup>* db0 db"
    using assms(1)
  proof (induction rule: rtranclp_induct)
    case (step y z)
    then show ?case using sp_step_moves sp_moves_keep [OF step.IH assms(2)] by (meson rtranclp_trans)
  qed simp
  then have k: "sp_inv db" "conserves db0 db" using sp_moves_keep assms(2) by auto
  have "\<exists>b \<in> set (sp_batches db). po_BatchID p = Some (bt_ID b) \<and> bt_Status b = ''paid'' \<and> bt_LedgerTransactionID b \<noteq> None \<and>
       posted (sp_wallet db) (bt_IdempotencyKey b) = bt_LedgerTransactionID b" if p: "p \<in> set (sp_payouts db)" "po_Status p = ''paid''" for p
  proof -
    obtain b where b: "b \<in> set (sp_batches db)" "po_BatchID p = Some (bt_ID b)" "bt_Status b = ''paid''"
      using k(1) p by (auto simp: sp_inv_def payout_inv_def)
    then have "batch_inv db b" using k(1) by (simp add: sp_inv_def)
    then show ?thesis using b by (auto simp: batch_inv_def)
  qed
  moreover have "GetBalanceStrict (sp_wallet db) e - paid_total db cur = GetBalanceStrict (sp_wallet db0) e - paid_total db0 cur"
    using k(2) assms(3) by (simp add: conserves_def)
  ultimately show ?thesis by simp
qed

section \<open>Three hazards\<close>

lemma psp_phase_sent:
  assumes "psp_phase psp sv b member u e db l = (err, db', l')"
  shows "sl_sent l' = sl_sent l @ [\<lparr>tr_BatchID = bt_ID b, tr_PspMemberID = member, tr_AmountMinor = bt_TotalAmountMinor b,
    tr_Currency = bt_Currency b, tr_IdempotencyKey = bt_IdempotencyKey b, tr_Market = bt_Market b\<rparr>]"
  using assms by (auto simp: psp_phase_def runTx2_def add_skipped_def Let_def split: sum.splits if_splits prod.splits)

lemma psp_phase_failed:
  assumes "psp_phase psp sv b member u e db l = (Some err, db', l')"
  shows "sp_payouts db' = sp_payouts db \<and> sp_wallet db' = sp_wallet db \<and> sp_psp_accounts db' = sp_psp_accounts db \<and>
    map bt_IdempotencyKey (sp_batches db') = map bt_IdempotencyKey (sp_batches db)"
proof -
  have tx: "d' = d" if "sellerpayout_WithTx outs fn d c = (Inl x, d', c')" for outs and fn :: "(sp_db, wcache, sp_error, unit) tx_body" and d c x d' c'
    using single_tx [OF that] by simp
  show ?thesis
    using assms by (auto simp: psp_phase_def runTx2_def Let_def UpdateBatchStatus_def UpdateBatchPspTransferID_def update_where_def
        split: sum.splits if_splits prod.splits dest!: tx)
qed

lemma processBatch_runs:
  assumes "sv_find_ok sv" "sv_tx1 sv = []" "\<not> db_aborted (sp_wallet db)" "FindSellerPspAccount db sid = Inr a"
    and "FindAccountByOwner (sp_wallet db) ''seller'' sid cur = Inr acct" "0 < t" "FindBatchByKey db (batchIdempotencyKey sid (day_of d) cur) = None"
  shows "\<exists>b d1. tx1_body (we_now (sv_env sv)) (new_batch sid d t market cur) ps db = Inr (b, d1) \<and>
    processBatch psp sv sid ps t d market cur e db l = psp_phase psp sv b (pa_PspMemberID a) (acct_ID acct) e d1 (add_batched l)"
proof -
  obtain b d1 where t1: "tx1_body (we_now (sv_env sv)) (new_batch sid d t market cur) ps db = Inr (b, d1)"
    using assms(6,7) by (auto simp: tx1_body_def InsertBatch_def FindBatchByKey_def new_batch_def Let_def)
  then have "sp_commit_ok db d1" using tx1_effect [OF t1] assms(3) by (simp add: sp_commit_ok_def commit_ok_def)
  moreover have "FindOrOpenSellerPayable (sv_env sv) (sv_oouts sv) sid cur (sp_wallet db) = (Inr (acct_ID acct), sp_wallet db)"
    using assms(5) by (simp add: FindOrOpenSellerPayable_def openOrFind_def)
  ultimately show ?thesis using assms t1
    by (auto simp: processBatch_def sellerpayout_WithTx_def with_retry_quiet)
qed

text \<open>
  C35. A payout can be transferred twice. When a day's batch has been sent to the payment provider and
  anything after the first transaction fails, its payouts are still scheduled, and the run of another
  day sends the same amount for the same payouts to the same member under a different idempotency key,
  so the provider cannot recognise the repetition.
\<close>

theorem payout_sent_twice:
  assumes inv: "sp_inv db" and a: "FindSellerPspAccount db sid = Inr a" and acct: "FindAccountByOwner (sp_wallet db) ''seller'' sid cur = Inr acct"
    and t: "0 < t" and days: "day_of d1 \<noteq> day_of d2"
    and none: "FindBatchByKey db (batchIdempotencyKey sid (day_of d1) cur) = None" "FindBatchByKey db (batchIdempotencyKey sid (day_of d2) cur) = None"
    and sv: "sv_find_ok sv1" "sv_tx1 sv1 = []" "sv_find_ok sv2" "sv_tx1 sv2 = []"
    and r1: "processBatch psp sv1 sid ps t d1 market cur e db l = (Some err, db1, l1)"
    and r2: "processBatch psp sv2 sid ps t d2 market cur e db1 l1 = (err2, db2, l2)"
  shows "(\<forall>p \<in> set (sp_payouts db). \<exists>p' \<in> set (sp_payouts db1). po_ID p' = po_ID p \<and> po_Status p' = po_Status p \<and> po_AmountMinor p' = po_AmountMinor p) \<and>
    (\<exists>req1 req2. sl_sent l2 = sl_sent l @ [req1, req2] \<and> tr_AmountMinor req1 = t \<and> tr_AmountMinor req2 = t \<and>
       tr_PspMemberID req1 = tr_PspMemberID req2 \<and> tr_IdempotencyKey req1 \<noteq> tr_IdempotencyKey req2)"
proof -
  have na: "\<not> db_aborted (sp_wallet db)" using inv by (simp add: sp_inv_def wallet_inv_def)
  obtain b x where b: "tx1_body (we_now (sv_env sv1)) (new_batch sid d1 t market cur) ps db = Inr (b, x)"
    "psp_phase psp sv1 b (pa_PspMemberID a) (acct_ID acct) e x (add_batched l) = (Some err, db1, l1)"
    using processBatch_runs [OF sv(1,2) na a acct t none(1)] r1 by metis
  note eff = tx1_effect [OF b(1)]
  note failed = psp_phase_failed [OF b(2)]
  have keys: "map bt_IdempotencyKey (sp_batches db1) = map bt_IdempotencyKey (sp_batches db) @ [batchIdempotencyKey sid (day_of d1) cur]"
    using failed eff by (simp add: new_batch_def)
  then have "set (map bt_IdempotencyKey (sp_batches db1)) = insert (batchIdempotencyKey sid (day_of d1) cur) (bt_IdempotencyKey ` set (sp_batches db))"
    by simp
  then have "batchIdempotencyKey sid (day_of d2) cur \<notin> set (map bt_IdempotencyKey (sp_batches db1))"
    using none(2) days by (auto simp: FindBatchByKey_def find_None_iff2)
  then have "FindBatchByKey db1 (batchIdempotencyKey sid (day_of d2) cur) = None"
    unfolding FindBatchByKey_def find_None_iff2 by (metis image_eqI set_map)
  moreover have "sp_wallet db1 = sp_wallet db" "FindSellerPspAccount db1 sid = Inr a"
    using failed eff a by (simp_all add: FindSellerPspAccount_def)
  ultimately obtain b' x' where b': "tx1_body (we_now (sv_env sv2)) (new_batch sid d2 t market cur) ps db1 = Inr (b', x')"
    "psp_phase psp sv2 b' (pa_PspMemberID a) (acct_ID acct) e x' (add_batched l1) = (err2, db2, l2)"
    using processBatch_runs [of sv2 db1 sid a cur acct t d2] sv(3,4) na acct t r2 by metis
  have "sl_sent l2 = sl_sent l @ [\<lparr>tr_BatchID = bt_ID b, tr_PspMemberID = pa_PspMemberID a, tr_AmountMinor = bt_TotalAmountMinor b,
      tr_Currency = bt_Currency b, tr_IdempotencyKey = bt_IdempotencyKey b, tr_Market = bt_Market b\<rparr>,
    \<lparr>tr_BatchID = bt_ID b', tr_PspMemberID = pa_PspMemberID a, tr_AmountMinor = bt_TotalAmountMinor b',
      tr_Currency = bt_Currency b', tr_IdempotencyKey = bt_IdempotencyKey b', tr_Market = bt_Market b'\<rparr>]"
    using psp_phase_sent [OF b(2)] psp_phase_sent [OF b'(2)] by (simp add: add_batched_def)
  moreover have "bt_TotalAmountMinor b = t" "bt_TotalAmountMinor b' = t" "bt_IdempotencyKey b \<noteq> bt_IdempotencyKey b'"
    using eff tx1_effect [OF b'(1)] days by (simp_all add: new_batch_def)
  moreover have "\<exists>p' \<in> set (sp_payouts db1). po_ID p' = po_ID p \<and> po_Status p' = po_Status p \<and> po_AmountMinor p' = po_AmountMinor p"
    if "p \<in> set (sp_payouts db)" for p
    by (rule bexI [of _ "if po_ID p \<in> po_ID ` set ps then p\<lparr>po_BatchID := Some (sp_next_batch db)\<rparr> else p"])
      (use that failed eff in auto)
  ultimately show ?thesis by auto
qed

lemma tx2_body_alert:
  "tx2_body env w i tid post (InsertLedgerAlert al db) c =
     (case tx2_body env w i tid post db c of (Inl e, c') \<Rightarrow> (Inl e, c') | (Inr (a, d), c') \<Rightarrow> (Inr (a, InsertLedgerAlert al d), c'))"
  by (simp add: tx2_body_def InsertLedgerAlert_def MarkPayoutsPaidByBatch_def UpdateBatchPaid_def split: sum.split prod.split)

lemma fraud_tx:
  "sellerpayout_WithTx outs (tx2_body env w i tid post) (InsertLedgerAlert al db) c =
     (case sellerpayout_WithTx outs (tx2_body env w i tid post) db c of (r, d, c') \<Rightarrow> (r, InsertLedgerAlert al d, c'))"
proof -
  have ok: "sp_commit_ok (InsertLedgerAlert al x) (InsertLedgerAlert al y) = sp_commit_ok x y" for x y
    by (simp add: sp_commit_ok_def InsertLedgerAlert_def)
  show ?thesis
    by (simp add: sellerpayout_WithTx_def with_retry.simps(2) tx2_body_alert ok split: tx_outcome.split sum.split prod.split)
qed

text \<open>
  A fraud hold holds nothing: the alert it records names no batch, so the second transaction, which asks
  for open alerts of its batch, does with the alert exactly what it does without it.
\<close>

theorem fraud_hold_ineffective:
  "runTx2 sv counted i tid sid u e t cur market key (HandleFraudHoldSet seller c reason db) l =
     (case runTx2 sv counted i tid sid u e t cur market key db l of (err, db', l') \<Rightarrow> (err, HandleFraudHoldSet seller c reason db', l'))"
proof -
  define al where "al = \<lparr>la_Severity = ''SEV1'', la_Currency = c, la_BatchID = None, la_AlertType = ''fraud_hold'',
       la_Message = ''fraud hold set for seller '' @ itoa seller @ '': '' @ reason, la_AcknowledgedAt = None\<rparr>"
  have al: "HandleFraudHoldSet seller c reason d = InsertLedgerAlert al d" for d
    by (simp add: HandleFraudHoldSet_def al_def)
  have open_eq: "HasOpenAlertForBatch (InsertLedgerAlert al db) i = HasOpenAlertForBatch db i"
    by (simp add: HasOpenAlertForBatch_def InsertLedgerAlert_def al_def)
  have "sp_wallet (InsertLedgerAlert al db) = sp_wallet db" by (simp add: InsertLedgerAlert_def)
  then show ?thesis unfolding al runTx2_def open_eq by (simp add: fraud_tx split: sum.split prod.split)
qed

text \<open>A seller is stuck on a day when it has no payment account, or a batch of that day already.\<close>

definition seller_stuck :: "sp_db \<Rightarrow> instant \<Rightarrow> string \<Rightarrow> int \<Rightarrow> bool" where
  "seller_stuck db d cur sid \<longleftrightarrow> FindSellerPspAccount db sid = Inl SpPspAccountNotFound \<or>
     FindBatchByKey db (batchIdempotencyKey sid (day_of d) cur) \<noteq> None"

lemma process_groups_stuck:
  "\<forall>g \<in> set gs. seller_stuck db d cur (fst g) \<Longrightarrow> \<exists>l'. process_groups psp srv d market cur e gs db l = (db, l')"
proof (induction gs arbitrary: l)
  case (Cons g gs)
  obtain sid ps t where g: "g = (sid, ps, t)" by (metis prod_cases3)
  have "seller_stuck db d cur sid" using Cons.prems g by simp
  then have "\<exists>err l1. processBatch psp (srv sid) sid ps t d market cur e db l = (err, db, l1)"
    by (cases "FindBatchByKey db (batchIdempotencyKey sid (day_of d) cur)") (auto simp: processBatch_def seller_stuck_def)
  then obtain err l1 where "processBatch psp (srv sid) sid ps t d market cur e db l = (err, db, l1)" by blast
  then show ?case using Cons g by simp
qed simp

text \<open>
  The daily run does not return while 200 due payouts of stuck sellers head the queue: the loop fetches
  the same rows again in every round. As long as the fetch succeeds, no number of rounds is enough.
\<close>

theorem daily_run_never_returns:
  assumes "length (FetchScheduledPayouts db d cur dailyBatchSize) = dailyBatchSize"
    and "\<forall>p \<in> set (FetchScheduledPayouts db d cur dailyBatchSize). seller_stuck db d cur (po_SellerID p)"
    and "\<forall>n. de_fetch_ok (envs n)" "FindAccount (sp_wallet db) escrowAcctType cur = Inr e"
  shows "RunDailyPayouts fuel psp envs d market cur db l = None"
proof -
  define ps where "ps = FetchScheduledPayouts db d cur dailyBatchSize"
  have len: "length ps = dailyBatchSize" "ps \<noteq> []" using assms(1) by (auto simp: ps_def dailyBatchSize_def)
  have stuck: "\<forall>g \<in> set (range_map prio (group_payouts ps)). seller_stuck db d cur (fst g)" for prio
  proof
    fix g assume g: "g \<in> set (range_map prio (group_payouts ps))"
    have "fst ` set (fold (\<lambda>p. map_upd (po_SellerID p) (add_payout p)) xs m) = po_SellerID ` set xs \<union> fst ` set m" for xs m
      by (induction xs arbitrary: m) (auto simp: dom_map_upd)
    then have "fst ` set (group_payouts ps) = po_SellerID ` set ps" by (simp add: group_payouts_def)
    then have "fst g \<in> po_SellerID ` set ps" using g by (metis image_eqI set_range_map)
    then show "seller_stuck db d cur (fst g)" using assms(2) by (auto simp: ps_def)
  qed
  have "daily_loop fuel psp envs n d market cur e db l = None" for n l
  proof (induction fuel arbitrary: n l)
    case (Suc fuel)
    obtain l' where "process_groups psp (de_srv (envs n)) d market cur e (range_map (de_prio (envs n)) (group_payouts ps)) db l = (db, l')"
      using process_groups_stuck [OF stuck] by blast
    then show ?case using Suc assms(3) len by (simp add: ps_def [symmetric])
  qed simp
  then show ?thesis using assms(4) by (simp add: RunDailyPayouts_def Let_def)
qed

section \<open>A concrete day\<close>

definition sp_cfg_ex :: sp_cfg where
  "sp_cfg_ex = \<lparr>sc_currency = ''TRY'', sc_calendars = [(''TR'', \<lparr>cal_market = ''TR'', cal_holidays = []\<rparr>)]\<rparr>"

definition sp_empty :: sp_db where
  "sp_empty = \<lparr>sp_wallet = ledger_ex, sp_payouts = [], sp_next_payout = 1, sp_batches = [], sp_next_batch = 1,
     sp_psp_accounts = [], sp_next_psp = 1, sp_alerts = []\<rparr>"

definition sp_event_ex :: event where
  "sp_event_ex = \<lparr>ev_id = ''order:delivered:500'', ev_type = ''ecom.order.delivered.v1'', ev_aggregate = ''order'',
     ev_idempotency_key = ''order:delivered:500'', ev_market = ''TR'', ev_currency = ''TRY'', ev_trace_id = [],
     ev_span_id = [], ev_occurred_at = 0,
     ev_payload = JObj [(''order_id'', JInt 500), (''delivered_at'', JTime (at_midnight 19990)), (''market'', JStr ''TR''),
       (''currency'', JStr ''TRY''),
       (''items'', JArr [JObj [(''seller_id'', JInt 80), (''seller_net_minor'', JInt 8800)],
                         JObj [(''seller_id'', JInt 81), (''seller_net_minor'', JInt 0)],
                         JObj [(''seller_id'', JInt 80), (''seller_net_minor'', JInt 200)]])]\<rparr>"

definition sp_scheduled :: sp_db where
  "sp_scheduled = HandlePspOnboarded 80 ''m80'' ''TR''
     (snd (payout_handle (sp_cfg_ex, (\<lambda>s. - s), []) sp_event_ex sp_empty))"

definition sv_ex :: "tx_outcome list \<Rightarrow> sp_srv" where
  "sv_ex tx2 = \<lparr>sv_env = wenv_ex, sv_find_ok = True, sv_oouts = [], sv_tx1 = [], sv_store_ok = True, sv_status_ok = True,
     sv_alert_ok = True, sv_tx2 = tx2\<rparr>"

text \<open>The client in shadow mode is a provider that always answers.\<close>

definition psp_ex :: psp where
  "psp_ex = \<lparr>ps_Transfer = (\<lambda>_. sipay_Transfer ModeShadow (\<lambda>_ _ _ _. Inl [])),
     ps_GetTransferStatus = (\<lambda>_. sipay_GetTransferStatus ModeShadow (\<lambda>_. Inl []))\<rparr>"

definition sl_ex :: sp_local where
  "sl_ex = \<lparr>sl_cache = cache_ex, sl_sent = [], sl_result = \<lparr>rd_Batched = 0, rd_Failed = 0, rd_Skipped = 0\<rparr>\<rparr>"

definition day_ex :: "tx_outcome list \<Rightarrow> (sp_error option \<times> sp_db \<times> sp_local) option" where
  "day_ex tx2 = RunDailyPayouts 1 psp_ex (\<lambda>_. \<lparr>de_fetch_ok = True, de_prio = id, de_srv = (\<lambda>_. sv_ex tx2)\<rparr>)
     (at_midnight 20000) ''TR'' ''TRY'' sp_scheduled sl_ex"

lemma sp_empty_inv: "sp_inv sp_empty"
  using ledger_ex_inv by (simp add: sp_inv_def sp_empty_def fresh_ids_def posted_def) (simp add: ledger_ex_def)

lemma sp_scheduled_rows:
  "map (\<lambda>p. (po_ID p, po_SellerID p, po_AmountMinor p, po_Status p)) (sp_payouts sp_scheduled) = [(1, 80, 9000, ''scheduled'')]"
  by code_simp

lemma day_ex_eval:
  "map_option (\<lambda>(err, db, l). (err, map po_Status (sp_payouts db), GetBalanceStrict (sp_wallet db) 1, paid_total db ''TRY'')) (day_ex []) =
     Some (None, [''paid''], 9000, 9000)"
  by code_simp

lemma sp_scheduled_step: "sp_step\<^sup>*\<^sup>* sp_empty sp_scheduled"
proof -
  obtain pe where d: "decode_payout_event sp_event_ex = Some pe"
    by (simp add: decode_payout_event_def decode_delivered_item_def sp_event_ex_def Let_def jint_def jstr_def jarr_def jtime_def)
  obtain err db where s: "SchedulePayoutsForOrder sp_cfg_ex (\<lambda>s. - s) [] pe sp_empty = (err, db)" by fastforce
  then have "sp_scheduled = HandlePspOnboarded 80 ''m80'' ''TR'' db"
    by (simp add: sp_scheduled_def payout_handleDelivered_def d)
  then show ?thesis using st_schedule [OF s] st_onboarded by (metis converse_rtranclp_into_rtranclp rtranclp.rtrancl_refl)
qed

theorem payouts_backed_by_ledger_witness:
  "\<exists>db. GetBalanceStrict (sp_wallet db) 1 - GetBalanceStrict (sp_wallet sp_empty) 1 = paid_total db ''TRY'' - paid_total sp_empty ''TRY'' \<and>
     paid_total db ''TRY'' = 9000 \<and> (\<exists>p \<in> set (sp_payouts db). po_Status p = ''paid'')"
proof -
  obtain err db l where d: "day_ex [] = Some (err, db, l)" "map po_Status (sp_payouts db) = [''paid'']" "paid_total db ''TRY'' = 9000"
    using day_ex_eval by auto
  have "sp_step\<^sup>*\<^sup>* sp_empty db"
    using sp_scheduled_step st_daily [OF d(1) [unfolded day_ex_def]] by (rule rtranclp.rtrancl_into_rtrancl)
  moreover have "FindAccount (sp_wallet sp_empty) escrowAcctType ''TRY'' = Inr 1" by code_simp
  ultimately show ?thesis
    using payouts_backed_by_ledger [OF _ sp_empty_inv, of db "''TRY''" 1] d(2,3) by (intro exI [of _ db]) auto
qed

lemma sp_scheduled_inv: "sp_inv sp_scheduled"
proof -
  have "sp_move\<^sup>*\<^sup>* sp_empty sp_scheduled"
    using sp_scheduled_step
  proof (induction rule: rtranclp_induct)
    case (step y z)
    then show ?case using sp_step_moves sp_moves_keep [OF step.IH sp_empty_inv] by (meson rtranclp_trans)
  qed simp
  then show ?thesis using sp_moves_keep sp_empty_inv by blast
qed

lemma handle_ex: "payout_handle (sp_cfg_ex, (\<lambda>s. - s), []) sp_event_ex sp_empty =
    (True, snd (payout_handle (sp_cfg_ex, (\<lambda>s. - s), []) sp_event_ex sp_empty))"
proof -
  have "fst (payout_handle (sp_cfg_ex, (\<lambda>s. - s), []) sp_event_ex sp_empty) = True" by code_simp
  then show ?thesis by (simp add: prod_eq_iff)
qed

theorem payouts_scheduled_once_witness:
  "deliver payout_handle [((sp_cfg_ex, id, []), sp_event_ex)] (snd (payout_handle (sp_cfg_ex, (\<lambda>s. - s), []) sp_event_ex sp_empty)) =
     snd (payout_handle (sp_cfg_ex, (\<lambda>s. - s), []) sp_event_ex sp_empty)"
  using payouts_scheduled_once [OF sp_empty_inv handle_ex, of "[]" "(sp_cfg_ex, id, [])" "[]"] by (simp del: payout_handle.simps)

definition pe_ex :: payout_event where
  "pe_ex = the (decode_payout_event sp_event_ex)"

lemma pe_ex_eval:
  "(case SchedulePayoutsForOrder sp_cfg_ex id [TxOk] pe_ex sp_empty of (err, db) \<Rightarrow> (err, map po_AmountMinor (sp_payouts db))) = (None, [9000])"
  by code_simp

theorem schedule_effect_witness:
  "\<exists>db ps. SchedulePayoutsForOrder sp_cfg_ex id [TxOk] pe_ex sp_empty = (None, db) \<and> sp_payouts db = ps \<and>
     set (map po_SellerID ps) = {s \<in> set (map di_SellerID (pe_Items pe_ex)). 0 < seller_net (pe_Items pe_ex) s}"
proof -
  obtain db where d: "SchedulePayoutsForOrder sp_cfg_ex id [TxOk] pe_ex sp_empty = (None, db)" "map po_AmountMinor (sp_payouts db) = [9000]"
    using pe_ex_eval by (auto split: prod.splits)
  then have "db \<noteq> sp_empty" by (auto simp: sp_empty_def)
  moreover have "sp_payouts sp_empty = []" by (simp add: sp_empty_def)
  ultimately show ?thesis using schedule_effect [OF d(1)] d(1) by auto
qed

lemma sent_twice_ex:
  "(case processBatch psp_ex (sv_ex [TxCommitFails]) 80 (sp_payouts sp_scheduled) 9000 (at_midnight 20000) ''TR'' ''TRY'' 1 sp_scheduled sl_ex of
      (err, db, l) \<Rightarrow> err) = Some TxCommit"
  by code_simp

lemma sp_scheduled_facts:
  "(FindSellerPspAccount sp_scheduled 80, map_sum id acct_ID (FindAccountByOwner (sp_wallet sp_scheduled) ''seller'' 80 ''TRY''), sp_batches sp_scheduled) =
     (Inr \<lparr>pa_ID = 1, pa_SellerID = 80, pa_PspMemberID = ''m80'', pa_Market = ''TR'', pa_Status = ''active''\<rparr>, Inr 7, [])"
  by code_simp

theorem payout_sent_twice_witness:
  "\<exists>db1 l1 err2 db2 l2.
     processBatch psp_ex (sv_ex [TxCommitFails]) 80 (sp_payouts sp_scheduled) 9000 (at_midnight 20000) ''TR'' ''TRY'' 1 sp_scheduled sl_ex = (Some TxCommit, db1, l1) \<and>
     processBatch psp_ex (sv_ex []) 80 (sp_payouts sp_scheduled) 9000 (at_midnight 20001) ''TR'' ''TRY'' 1 db1 l1 = (err2, db2, l2) \<and>
     map tr_AmountMinor (sl_sent l2) = [9000, 9000] \<and> distinct (map tr_IdempotencyKey (sl_sent l2))"
proof -
  obtain db1 l1 where r1: "processBatch psp_ex (sv_ex [TxCommitFails]) 80 (sp_payouts sp_scheduled) 9000 (at_midnight 20000) ''TR'' ''TRY'' 1 sp_scheduled sl_ex = (Some TxCommit, db1, l1)"
    using sent_twice_ex by (auto split: prod.splits)
  obtain err2 db2 l2 where r2: "processBatch psp_ex (sv_ex []) 80 (sp_payouts sp_scheduled) 9000 (at_midnight 20001) ''TR'' ''TRY'' 1 db1 l1 = (err2, db2, l2)"
    by (metis prod_cases3)
  obtain acct where acct: "FindAccountByOwner (sp_wallet sp_scheduled) ''seller'' 80 ''TRY'' = Inr acct"
    using sp_scheduled_facts by (cases "FindAccountByOwner (sp_wallet sp_scheduled) ''seller'' 80 ''TRY''") auto
  have "\<exists>req1 req2. sl_sent l2 = sl_sent sl_ex @ [req1, req2] \<and> tr_AmountMinor req1 = 9000 \<and> tr_AmountMinor req2 = 9000 \<and>
       tr_PspMemberID req1 = tr_PspMemberID req2 \<and> tr_IdempotencyKey req1 \<noteq> tr_IdempotencyKey req2"
    using payout_sent_twice [OF sp_scheduled_inv _ acct _ _ _ _ _ _ _ _ r1 r2] sp_scheduled_facts
    by (simp add: FindBatchByKey_def sv_ex_def day_of_def at_midnight_def ns_per_day_def ns_per_sec_def)
  then show ?thesis using r1 r2 by (auto simp: sl_ex_def)
qed

text \<open>Two hundred due payouts of one seller that has not been registered with the provider.\<close>

definition sp_stuck_ex :: sp_db where
  "sp_stuck_ex = sp_empty\<lparr>sp_payouts := map (\<lambda>i. \<lparr>po_ID = i, po_OrderID = i, po_SellerID = 80, po_AmountMinor = 100, po_Currency = ''TRY'',
     po_DeliveredAt = 0, po_UnlockAt = 3, po_Status = ''scheduled'', po_Market = ''TR'', po_IdempotencyKey = payout_key i 80, po_BatchID = None\<rparr>) [1..200]\<rparr>"

lemma sort_key_const: "(\<And>x. x \<in> set xs \<Longrightarrow> f x = c) \<Longrightarrow> sort_key f xs = xs"
  by (induction xs) (auto simp: insort_is_Cons)

lemma sp_stuck_fetch: "FetchScheduledPayouts sp_stuck_ex (at_midnight 20000) ''TRY'' dailyBatchSize = sp_payouts sp_stuck_ex"
proof -
  have "filter (is_payable (at_midnight 20000) ''TRY'') (sp_payouts sp_stuck_ex) = sp_payouts sp_stuck_ex"
    by (rule filter_True) (auto simp: sp_stuck_ex_def is_payable_def day_of_def at_midnight_def ns_per_day_def ns_per_sec_def)
  moreover have "sort_key po_SellerID (sp_payouts sp_stuck_ex) = sp_payouts sp_stuck_ex"
    by (rule sort_key_const [of _ _ 80]) (auto simp: sp_stuck_ex_def)
  moreover have "length (sp_payouts sp_stuck_ex) = 200" by (simp add: sp_stuck_ex_def)
  ultimately show ?thesis by (simp add: FetchScheduledPayouts_def dailyBatchSize_def)
qed

theorem daily_run_never_returns_witness:
  "RunDailyPayouts 1000 psp_ex (\<lambda>_. \<lparr>de_fetch_ok = True, de_prio = id, de_srv = (\<lambda>_. sv_ex [])\<rparr>) (at_midnight 20000) ''TR'' ''TRY'' sp_stuck_ex sl_ex = None"
proof (rule daily_run_never_returns, unfold sp_stuck_fetch)
  show "length (sp_payouts sp_stuck_ex) = dailyBatchSize" by (simp add: sp_stuck_ex_def dailyBatchSize_def)
  show "\<forall>p \<in> set (sp_payouts sp_stuck_ex). seller_stuck sp_stuck_ex (at_midnight 20000) ''TRY'' (po_SellerID p)"
    by (simp add: seller_stuck_def FindSellerPspAccount_def sp_stuck_ex_def sp_empty_def)
  show "FindAccount (sp_wallet sp_stuck_ex) escrowAcctType ''TRY'' = Inr 1"
    by (simp add: sp_stuck_ex_def sp_empty_def FindAccount_def FindAccountByType_def escrowAcctType_def ledger_ex_def acct_ex_def)
qed simp

end
