(* ===== verification/OrderFlow.thy ===== *)
theory OrderFlow
  imports OrderGrowth OrderLedger Cashback SellerPayout
begin

text \<open>
  From the order service to the ledger engines: the events of \<^verbatim>\<open>MarkPaid\<close> and \<^verbatim>\<open>MarkDelivered\<close> are decoded by
  the consumers of the capture ledger, the cashback engine and the payout engine exactly as they were built,
  and what the engines compute from them agrees with the order.
\<close>

section \<open>The payment event\<close>

definition paid_of :: "order_item \<Rightarrow> paid_item" where
  "paid_of it = \<lparr>pd_VariantID = oi_VariantID it, pd_SellerID = oi_SellerID it, pd_Qty = oi_Qty it, pd_UnitPriceMinor = oi_UnitPriceMinor it,
     pd_CommissionPctBps = oi_CommissionPctBps it, pd_KdvPctBps = oi_KdvPctBps it, pd_CommissionAmountMinor = oi_CommissionAmountMinor it,
     pd_KdvAmountMinor = oi_KdvAmountMinor it, pd_SellerNetMinor = oi_SellerNetMinor it\<rparr>"

definition order_paid_of :: "order \<Rightarrow> order_item list \<Rightarrow> instant \<Rightarrow> order_paid" where
  "order_paid_of ord items paidAt = \<lparr>op_OrderID = or_ID ord, op_UserID = or_UserID ord, op_SellerID = or_SellerID ord, op_PaidAt = paidAt,
     op_GrossMinor = or_TotalMinor ord, op_ShippingMinor = or_ShippingMinor ord, op_Currency = or_Currency ord, op_Market = or_Market ord,
     op_Items = map paid_of items\<rparr>"

lemma decode_paid_item_json: "decode_paid_item (paid_item_json it) = Some (paid_of it)"
  by (simp add: decode_paid_item_def paid_item_json_def item_fields_def paid_of_def jint_def)

lemma decode_paid_row:
  "o_payload row = buildPaidPayload ord items t \<Longrightarrow> o_currency row = or_Currency ord \<Longrightarrow> o_market row = or_Market ord \<Longrightarrow>
     decode_paid (rowToEvent row) = Some (order_paid_of ord items t)"
  by (simp add: decode_paid_def rowToEvent_def buildPaidPayload_def order_paid_of_def jint_def jstr_def jtime_def jarr_def Let_def
      traverse_map [of items decode_paid_item paid_item_json paid_of] decode_paid_item_json)

section \<open>The delivery event\<close>

definition commission_of :: "order_item \<Rightarrow> commission_item" where
  "commission_of it = \<lparr>ci_VariantID = oi_VariantID it, ci_SellerID = oi_SellerID it, ci_CategoryID = oi_CategoryID it, ci_Qty = oi_Qty it,
     ci_UnitPriceMinor = oi_UnitPriceMinor it, ci_CommissionPctBps = oi_CommissionPctBps it, ci_KdvPctBps = oi_KdvPctBps it,
     ci_CommissionAmountMinor = oi_CommissionAmountMinor it, ci_KdvAmountMinor = oi_KdvAmountMinor it, ci_SellerNetMinor = oi_SellerNetMinor it\<rparr>"

definition delivered_of :: "order_item \<Rightarrow> delivered_item" where
  "delivered_of it = \<lparr>di_SellerID = oi_SellerID it, di_SellerNetMinor = oi_SellerNetMinor it\<rparr>"

lemma decode_item_json:
  "decode_item (delivered_item_json it) = Some (commission_of it)" "decode_delivered_item (delivered_item_json it) = Some (delivered_of it)"
  by (simp_all add: decode_item_def decode_delivered_item_def delivered_item_json_def item_fields_def commission_of_def delivered_of_def jint_def)

lemma decode_delivered_row:
  assumes "o_payload row = buildDeliveredPayload ord items t (pid, title, url)" "o_currency row = or_Currency ord" "o_market row = or_Market ord"
  shows "decode_delivered (rowToEvent row) = Some \<lparr>od_OrderID = or_ID ord, od_UserID = or_UserID ord, od_DeliveredAt = t, od_Market = or_Market ord,
      od_Currency = or_Currency ord, od_PriceMinor = 0, od_CommissionBps = 0, od_Items = map commission_of items, od_ProductID = pid,
      od_ProductTitle = title, od_ProductImageURL = url\<rparr>"
    and "decode_payout_event (rowToEvent row) = Some \<lparr>pe_OrderID = or_ID ord, pe_DeliveredAt = t, pe_Market = or_Market ord,
      pe_Currency = or_Currency ord, pe_Items = map delivered_of items\<rparr>"
  using assms
  by (simp_all add: decode_delivered_def decode_payout_event_def rowToEvent_def buildDeliveredPayload_def jint_def jstr_def jtime_def jarr_def Let_def
      traverse_map [of items decode_item delivered_item_json commission_of] decode_item_json
      traverse_map [of items decode_delivered_item delivered_item_json delivered_of])

section \<open>An event of a committed operation\<close>

lemma event_committed:
  assumes "err_of (order_WithTx outs (\<lambda>tx. with_outbox env row (upd tx)) db) = (None, db')"
  shows "\<exists>y db1. upd db = Inr (y, db1) \<and> dbo_orders db' = dbo_orders db1 \<and> (\<exists>i. ob_rows (dbo_outbox db') =
    ob_rows (dbo_outbox db1) @ [row\<lparr>o_id := i, o_created_at := oe_now env, o_published_at := None\<rparr>])"
proof -
  obtain res db2 where r: "order_WithTx outs (\<lambda>tx. with_outbox env row (upd tx)) db = (res, db2)" by fastforce
  from r show ?thesis
  proof (cases rule: order_WithTx_cases)
    case (error e)
    then show ?thesis using assms r by (simp add: err_of_def)
  next
    case (commit a)
    have "db2 = db'" using assms r by (simp add: err_of_def split: sum.splits)
    moreover obtain y db1 ob where "upd db = Inr (y, db1)" "outbox_Insert (oe_now env) row (dbo_outbox db1) = Inr ob" "db2 = db1\<lparr>dbo_outbox := ob\<rparr>"
      using commit(2) by (rule with_outbox_cases)
    ultimately show ?thesis by (auto simp: outbox_Insert_def split: if_splits)
  qed
qed

lemma status_update_outbox:
  "repo_UpdateStatus i st t db = Inr (y, db1) \<Longrightarrow> dbo_outbox db1 = dbo_outbox db"
  "SetDelivered i t db = Inr (y, db1) \<Longrightarrow> dbo_outbox db1 = dbo_outbox db"
  by (auto simp: repo_UpdateStatus_def SetDelivered_def split: if_splits)

lemma MarkPaid_event:
  assumes "MarkPaid env i db = (None, db')" "repo_GetOrder db i = Inr (ord, items)" "or_Status ord \<noteq> StatusPaid"
  shows "\<exists>row. ob_rows (dbo_outbox db') = ob_rows (dbo_outbox db) @ [row] \<and> o_event_type row = ''ecom.order.paid.v1'' \<and>
    decode_paid (rowToEvent row) = Some (order_paid_of ord items (oe_now env))"
proof -
  define row where "row = order_outbox_row ''ecom.order.paid.v1'' (buildPaidPayload ord items (oe_now env)) (paid_event_key i) ord"
  have "err_of (order_WithTx (oe_outs env) (\<lambda>tx. with_outbox env row (repo_UpdateStatus i StatusPaid (oe_now env) tx)) db) = (None, db')"
    using assms by (simp add: MarkPaid_def row_def split: option.splits)
  from event_committed [OF this] obtain n where
    "ob_rows (dbo_outbox db') = ob_rows (dbo_outbox db) @ [row\<lparr>o_id := n, o_created_at := oe_now env, o_published_at := None\<rparr>]"
    by (auto dest: status_update_outbox)
  moreover have "decode_paid (rowToEvent (row\<lparr>o_id := n, o_created_at := oe_now env, o_published_at := None\<rparr>)) = Some (order_paid_of ord items (oe_now env))"
    by (rule decode_paid_row) (simp_all add: row_def order_outbox_row_def)
  ultimately show ?thesis by (simp add: row_def order_outbox_row_def)
qed

lemma MarkDelivered_event:
  assumes "MarkDelivered env product i t db = (None, db')" "repo_GetOrder db i = Inr (ord, items)" "or_Status ord \<noteq> StatusDelivered"
  shows "\<exists>row ode. ob_rows (dbo_outbox db') = ob_rows (dbo_outbox db) @ [row] \<and> o_event_type row = ''ecom.order.delivered.v1'' \<and>
    decode_delivered (rowToEvent row) = Some ode \<and> od_OrderID ode = or_ID ord \<and> od_UserID ode = or_UserID ord \<and> od_DeliveredAt ode = t \<and>
    od_PriceMinor ode = 0 \<and> od_Items ode = map commission_of items \<and>
    decode_payout_event (rowToEvent row) = Some \<lparr>pe_OrderID = or_ID ord, pe_DeliveredAt = t, pe_Market = or_Market ord,
      pe_Currency = or_Currency ord, pe_Items = map delivered_of items\<rparr>"
proof -
  obtain pid title url where p: "(case items of [] \<Rightarrow> (0, [], []) | it # _ \<Rightarrow> product it) = (pid, title, url)" by (metis prod_cases3)
  define row where "row = order_outbox_row ''ecom.order.delivered.v1'' (buildDeliveredPayload ord items t (pid, title, url)) (delivered_event_key i) ord"
  have "err_of (order_WithTx (oe_outs env) (\<lambda>tx. with_outbox env row (SetDelivered i t tx)) db) = (None, db')"
    using assms p by (simp add: MarkDelivered_def row_def)
  from event_committed [OF this] obtain n where
    o: "ob_rows (dbo_outbox db') = ob_rows (dbo_outbox db) @ [row\<lparr>o_id := n, o_created_at := oe_now env, o_published_at := None\<rparr>]"
    by (auto dest: status_update_outbox)
  define row' where "row' = row\<lparr>o_id := n, o_created_at := oe_now env, o_published_at := None\<rparr>"
  have r: "o_payload row' = buildDeliveredPayload ord items t (pid, title, url)" "o_currency row' = or_Currency ord" "o_market row' = or_Market ord"
    "o_event_type row' = ''ecom.order.delivered.v1''"
    by (simp_all add: row'_def row_def order_outbox_row_def)
  show ?thesis
    using o [folded row'_def] decode_delivered_row [OF r(1,2,3)] r(4) by (intro exI conjI) auto
qed

section \<open>The capture of an order\<close>

text \<open>The capture calculator on the event of an order without overflow.\<close>

lemma capture_of_order:
  assumes inv: "order_inv db" and o: "repo_GetOrder db i = Inr (ord, items)" and range: "in_range items" and big: "100 \<le> or_TotalMinor ord"
  shows "\<exists>ls. Compute (Aggregate (order_paid_of ord items t)) = Inr ls \<and> lines_total ''D'' ls = or_TotalMinor ord \<and>
    lines_total ''C'' ls = or_TotalMinor ord \<and>
    (\<forall>l \<in> set ls. ll_AccountType l = ''equity:retained_commission'' \<longrightarrow> ll_AmountMinor l = sum_list (map oi_CommissionAmountMinor items)) \<and>
    (\<forall>l \<in> set ls. ll_AccountType l = ''liability:seller_payable'' \<longrightarrow>
       ll_SellerID l = or_SellerID ord \<and> ll_AmountMinor l = sum_list (map oi_SellerNetMinor items))"
proof -
  define c k n where "c = sum_list (map oi_CommissionAmountMinor items)" and "k = sum_list (map oi_KdvAmountMinor items)"
    and "n = sum_list (map oi_SellerNetMinor items)"
  have ok: "item_ok it" if "it \<in> set items" for it using order_of_inv(4) [OF inv o that] .
  have pos: "0 \<le> c" "0 \<le> k" "0 \<le> n" using ok unfolding c_def k_def n_def by (auto intro!: sum_list_nonneg simp: item_ok_def)
  have sum: "sum_list (map item_parts items) = c + k + n"
    unfolding item_parts_def c_def k_def n_def by (simp add: sum_list_addf)
  have total: "or_TotalMinor ord = c + k + n" "or_TotalMinor ord \<le> max_i64"
    using order_total_exact(2) [OF inv o range] range sum by (simp_all add: in_range_def)
  have s: "sum64 oi_KdvAmountMinor items = k" "sum64 oi_SellerNetMinor items = n"
    using ok pos total unfolding k_def n_def by (auto intro!: sum64_exact simp: item_ok_def c_def)
  have a: "cx_GrossMinor (Aggregate (order_paid_of ord items t)) = c + k + n" "cx_SellerNetMinor (Aggregate (order_paid_of ord items t)) = n"
      "cx_KdvMinor (Aggregate (order_paid_of ord items t)) = k" "cx_ShippingMinor (Aggregate (order_paid_of ord items t)) = 0"
      "cx_SellerID (Aggregate (order_paid_of ord items t)) = or_SellerID ord"
    using s total order_of_inv(2) [OF inv o] by (simp_all add: Aggregate_def order_paid_of_def sum64_map paid_of_def order_ok_def)
  have w: "wrap64 (wrap64 (wrap64 (c + k + n - n) - k) - 0) = c + k + n - n - k - 0"
    using pos total by (intro commission_revenue) auto
  show ?thesis
    using big pos total w unfolding Compute_def capture_candidates_def Let_def a c_def [symmetric] n_def [symmetric] by auto
qed

section \<open>Properties\<close>

text \<open>
  C11. A paid order is captured to the kurus. When an order of any reachable state is marked paid, exactly one
  event joins the outbox; the capture ledger decodes it, and from one lira up its calculator turns it into lines
  that debit and credit exactly the total the customer was charged, with the commission of the items
  as revenue and the net of the items for the order's seller, provided no sum of the order overflows.
\<close>

theorem paid_order_capture_balanced:
  assumes "order_inv db0" "order_step\<^sup>*\<^sup>* db0 db" "MarkPaid env i db = (None, db')" "repo_GetOrder db i = Inr (ord, items)"
    "or_Status ord \<noteq> StatusPaid" "in_range items"
  shows "\<exists>row ev. ob_rows (dbo_outbox db') = ob_rows (dbo_outbox db) @ [row] \<and> o_event_type row = ''ecom.order.paid.v1'' \<and>
    decode_paid (rowToEvent row) = Some ev \<and> op_OrderID ev = i \<and> op_GrossMinor ev = or_TotalMinor ord \<and>
    (100 \<le> or_TotalMinor ord \<longrightarrow> (\<exists>ls. Compute (Aggregate ev) = Inr ls \<and> lines_total ''D'' ls = or_TotalMinor ord \<and>
       lines_total ''C'' ls = or_TotalMinor ord \<and>
       (\<forall>l \<in> set ls. ll_AccountType l = ''equity:retained_commission'' \<longrightarrow> ll_AmountMinor l = sum_list (map oi_CommissionAmountMinor items)) \<and>
       (\<forall>l \<in> set ls. ll_AccountType l = ''liability:seller_payable'' \<longrightarrow>
          ll_SellerID l = or_SellerID ord \<and> ll_AmountMinor l = sum_list (map oi_SellerNetMinor items))))"
proof -
  have inv: "order_inv db" using orders_reachable_inv assms(1,2) by blast
  obtain row where row: "ob_rows (dbo_outbox db') = ob_rows (dbo_outbox db) @ [row]" "o_event_type row = ''ecom.order.paid.v1''"
      "decode_paid (rowToEvent row) = Some (order_paid_of ord items (oe_now env))"
    using MarkPaid_event [OF assms(3-5)] by blast
  moreover have "op_OrderID (order_paid_of ord items (oe_now env)) = i" "op_GrossMinor (order_paid_of ord items (oe_now env)) = or_TotalMinor ord"
    using order_of_inv(1) [OF inv assms(4)] by (simp_all add: order_paid_of_def)
  ultimately show ?thesis
    using capture_of_order [OF inv assms(4,6)] by (intro exI conjI) blast+
qed

text \<open>
  C12. A delivery event carries the order to both engines. When an order of any reachable state is marked delivered, exactly
  one event joins the outbox; the cashback consumer decodes it and prices the plan at exactly the total of
  the order, and the payout consumer decodes it with the net of every item for the item's seller.
\<close>

theorem delivered_event_roundtrip:
  assumes "order_inv db0" "order_step\<^sup>*\<^sup>* db0 db" "MarkDelivered env product i t db = (None, db')" "repo_GetOrder db i = Inr (ord, items)"
    "or_Status ord \<noteq> StatusDelivered"
  shows "\<exists>row ode pe. ob_rows (dbo_outbox db') = ob_rows (dbo_outbox db) @ [row] \<and> o_event_type row = ''ecom.order.delivered.v1'' \<and>
    decode_delivered (rowToEvent row) = Some ode \<and> od_OrderID ode = i \<and> od_UserID ode = or_UserID ord \<and> od_DeliveredAt ode = t \<and>
    od_PriceMinor (resolve_price ode) = or_TotalMinor ord \<and>
    decode_payout_event (rowToEvent row) = Some pe \<and> pe_OrderID pe = i \<and> pe_DeliveredAt pe = t \<and>
    map (\<lambda>d. (di_SellerID d, di_SellerNetMinor d)) (pe_Items pe) = map (\<lambda>it. (oi_SellerID it, oi_SellerNetMinor it)) items"
proof -
  have inv: "order_inv db" using orders_reachable_inv assms(1,2) by blast
  note o = order_of_inv [OF inv assms(4)]
  obtain row ode where row: "ob_rows (dbo_outbox db') = ob_rows (dbo_outbox db) @ [row]" "o_event_type row = ''ecom.order.delivered.v1''"
      "decode_delivered (rowToEvent row) = Some ode" "od_OrderID ode = or_ID ord" "od_UserID ode = or_UserID ord" "od_DeliveredAt ode = t"
      "od_PriceMinor ode = 0" "od_Items ode = map commission_of items"
      "decode_payout_event (rowToEvent row) = Some \<lparr>pe_OrderID = or_ID ord, pe_DeliveredAt = t, pe_Market = or_Market ord,
        pe_Currency = or_Currency ord, pe_Items = map delivered_of items\<rparr>"
    using MarkDelivered_event [OF assms(3-5)] by blast
  have "or_TotalMinor ord = sum64 item_charge items" using o(2,3) by (simp add: order_ok_def)
  then have "od_PriceMinor (resolve_price ode) = or_TotalMinor ord"
    using row(7,8) by (auto simp: resolve_price_def sum64_map commission_of_def item_charge_def [abs_def])
  then show ?thesis using row o(1) by (intro exI conjI) (auto simp: delivered_of_def)
qed

text \<open>
  C34. Delivery ignores the status machine. An order in a state from which the status machine rejects
  delivery (never paid, cancelled, refunded) is marked delivered all the same, and the event that opens a
  cashback plan and a seller payout is emitted.
\<close>

theorem MarkDelivered_unguarded:
  assumes "repo_GetOrder db i = Inr (ord, items)" "ValidTransition (or_Status ord) StatusDelivered = Some ErrInvalidTransition"
    "or_Status ord \<noteq> StatusDelivered" "oe_outs env = []"
    "\<forall>r \<in> set (ob_rows (dbo_outbox db)). o_idempotency_key r \<noteq> delivered_event_key i"
  shows "\<exists>db' ord' row ode. MarkDelivered env product i t db = (None, db') \<and> ord' \<in> set (dbo_orders db') \<and> or_ID ord' = i \<and>
    or_Status ord' = StatusDelivered \<and> ob_rows (dbo_outbox db') = ob_rows (dbo_outbox db) @ [row] \<and>
    decode_delivered (rowToEvent row) = Some ode \<and> od_OrderID ode = i"
proof -
  have o: "ord \<in> set (dbo_orders db)" "or_ID ord = i"
    using assms(1) by (auto simp: repo_GetOrder_def split: option.splits dest!: find_SomeD)
  have "rows_affected (\<lambda>r. or_ID r = i) (dbo_orders db) \<noteq> 0" using o by (auto simp: rows_affected_def filter_empty_conv)
  then obtain db1 where s: "SetDelivered i t db = Inr ((), db1)" by (simp add: SetDelivered_def)
  have fresh: "List.find (\<lambda>r. o_idempotency_key r = delivered_event_key i) (ob_rows (dbo_outbox db1)) = None"
    using assms(5) status_update_outbox(2) [OF s] by (auto simp: find_None_iff2)
  obtain db' where m: "MarkDelivered env product i t db = (None, db')"
    using assms(1,3,4) s fresh
    by (auto simp: MarkDelivered_def order_WithTx_quiet with_outbox_def outbox_Insert_def order_outbox_row_def err_of_def)
  have "ord\<lparr>or_Status := StatusDelivered, or_DeliveredAt := Some t, or_UpdatedAt := t\<rparr> \<in> set (dbo_orders db1)"
    using s o by (auto simp: SetDelivered_def set_update_where split: if_splits)
  moreover have "dbo_orders db' = dbo_orders db1"
    using m assms(1,3) s by (auto simp: MarkDelivered_def dest!: event_committed)
  moreover obtain row ode where "ob_rows (dbo_outbox db') = ob_rows (dbo_outbox db) @ [row]" "decode_delivered (rowToEvent row) = Some ode"
      "od_OrderID ode = or_ID ord"
    using MarkDelivered_event [OF m assms(1,3)] by blast
  ultimately show ?thesis
    using m o(2) by (intro exI [of _ db'] exI [of _ "ord\<lparr>or_Status := StatusDelivered, or_DeliveredAt := Some t, or_UpdatedAt := t\<rparr>"]) simp
qed

section \<open>An order of the shop with two sellers\<close>

definition shop_db :: order_db where
  "shop_db = fst (snd (saga_ex False True))"

lemma shop_db_step: "order_step\<^sup>*\<^sup>* order_db_ex shop_db"
proof -
  obtain res db r where s: "saga_ex False True = (res, db, r)" by (metis prod_cases3)
  then show ?thesis using order_step.intros(2) [OF s [unfolded saga_ex_def]] by (auto simp: shop_db_def)
qed

lemma shop_order_eval:
  "(case repo_GetOrder shop_db 2 of Inl e \<Rightarrow> False | Inr (ord, items) \<Rightarrow>
     or_Status ord = StatusPendingPayment \<and> or_TotalMinor ord = 1620 \<and> in_range items \<and> map oi_CommissionAmountMinor items = [243])"
  by code_simp

lemma shop_paid_eval: "fst (MarkPaid (order_env_ex False) 2 shop_db) = None"
  by code_simp

lemma shop_delivered_eval: "fst (MarkDelivered (order_env_ex False) (\<lambda>_. (0, [], [])) 2 200 shop_db) = None"
  by code_simp

lemma shop_outbox_eval: "ob_rows (dbo_outbox shop_db) = []"
  by code_simp

lemma shop_order:
  obtains ord items where "repo_GetOrder shop_db 2 = Inr (ord, items)" "or_Status ord = StatusPendingPayment" "or_TotalMinor ord = 1620"
    "in_range items" "sum_list (map oi_CommissionAmountMinor items) = 243"
  using shop_order_eval by (auto split: sum.splits)

theorem paid_order_capture_balanced_witness:
  "\<exists>row ev ls. ob_rows (dbo_outbox (snd (MarkPaid (order_env_ex False) 2 shop_db))) = [row] \<and> decode_paid (rowToEvent row) = Some ev \<and>
     Compute (Aggregate ev) = Inr ls \<and> lines_total ''D'' ls = 1620 \<and> lines_total ''C'' ls = 1620"
proof -
  obtain ord items where o: "repo_GetOrder shop_db 2 = Inr (ord, items)" "or_Status ord = StatusPendingPayment" "or_TotalMinor ord = 1620" "in_range items"
    by (rule shop_order)
  have "MarkPaid (order_env_ex False) 2 shop_db = (None, snd (MarkPaid (order_env_ex False) 2 shop_db))"
    using shop_paid_eval by (metis prod.collapse)
  from paid_order_capture_balanced [OF order_db_ex_inv shop_db_step this o(1) _ o(4)] show ?thesis
    using o(2,3) by (auto simp: shop_outbox_eval)
qed

theorem delivered_event_roundtrip_witness:
  "\<exists>row ode. ob_rows (dbo_outbox (snd (MarkDelivered (order_env_ex False) (\<lambda>_. (0, [], [])) 2 200 shop_db))) = [row] \<and>
     decode_delivered (rowToEvent row) = Some ode \<and> od_PriceMinor (resolve_price ode) = 1620"
proof -
  obtain ord items where o: "repo_GetOrder shop_db 2 = Inr (ord, items)" "or_Status ord = StatusPendingPayment" "or_TotalMinor ord = 1620"
    by (rule shop_order)
  have "MarkDelivered (order_env_ex False) (\<lambda>_. (0, [], [])) 2 200 shop_db =
      (None, snd (MarkDelivered (order_env_ex False) (\<lambda>_. (0, [], [])) 2 200 shop_db))"
    using shop_delivered_eval by (metis prod.collapse)
  from delivered_event_roundtrip [OF order_db_ex_inv shop_db_step this o(1)] show ?thesis
    using o(2,3) by (auto simp: shop_outbox_eval)
qed

theorem MarkDelivered_unguarded_witness:
  "\<exists>db' ord' row. MarkDelivered (order_env_ex False) (\<lambda>_. (0, [], [])) 2 200 shop_db = (None, db') \<and> ord' \<in> set (dbo_orders db') \<and>
     or_ID ord' = 2 \<and> or_Status ord' = StatusDelivered \<and> ob_rows (dbo_outbox db') = [row]"
proof -
  obtain ord items where o: "repo_GetOrder shop_db 2 = Inr (ord, items)" "or_Status ord = StatusPendingPayment"
    by (rule shop_order)
  from MarkDelivered_unguarded [OF o(1), of "order_env_ex False" "\<lambda>_. (0, [], [])" 200] show ?thesis
    using o(2) by (auto simp: shop_outbox_eval order_env_ex_def ValidTransition_def validTransitions_def)
qed

end
