(* ===== verification/Refund.thy ===== *)
theory Refund
  imports Wallet Consumer
begin

text \<open>
  Refund settlement: \<^verbatim>\<open>internal/refund\<close>. An approved return is paid back as coins, one ledger
  transaction per return, from the refund equity account to the buyer's coin wallet.
\<close>

section \<open>The service\<close>

record refund_event =
  rf_ReturnID :: int
  rf_OrderID :: int
  rf_UserID :: int
  rf_RefundAmountMinor :: int
  rf_Market :: string

datatype refund_error = RefundUnmarshal | RefundFind wallet_error | RefundOpen "wallet_error tx_error" | RefundPost "wallet_error tx_error"

definition refundAcctType :: string where
  "refundAcctType = ''equity:refund_distribution''"

definition refund_key :: "int \<Rightarrow> string" where
  "refund_key returnID = ''refund:'' @ itoa returnID"

definition refund_post :: "string \<Rightarrow> refund_event \<Rightarrow> int \<Rightarrow> int \<Rightarrow> post_input" where
  "refund_post coin ev equityAcctID userAcctID =
     \<lparr>pi_Type = ''refund_settlement'', pi_Reference = ''return:'' @ itoa (rf_ReturnID ev), pi_FxPairID = [],
      pi_IdempotencyKey = refund_key (rf_ReturnID ev), pi_Market = rf_Market ev, pi_Currency = coin,
      pi_Entries = [\<lparr>e_AccountID = equityAcctID, e_Direction = Debit, e_AmountMinor = rf_RefundAmountMinor ev\<rparr>,
                    \<lparr>e_AccountID = userAcctID, e_Direction = Credit, e_AmountMinor = rf_RefundAmountMinor ev\<rparr>],
      pi_EventType = ''fin.refund.coin.credited.v1'',
      pi_Metadata = [(''order_id'', itoa (rf_OrderID ev)), (''return_id'', itoa (rf_ReturnID ev)), (''user_id'', itoa (rf_UserID ev))]\<rparr>"

definition SettleRefund :: "string \<Rightarrow> wenv \<Rightarrow> tx_outcome list \<Rightarrow> tx_outcome list \<Rightarrow> refund_event \<Rightarrow> wallet_db \<Rightarrow> wcache
    \<Rightarrow> refund_error option \<times> wallet_db \<times> wcache" where
  "SettleRefund coin env oouts outs ev db c =
     (if rf_RefundAmountMinor ev \<le> 0 then (None, db, c)
      else (case FindAccount db refundAcctType coin of
              Inl e \<Rightarrow> (Some (RefundFind e), db, c)
            | Inr equityAcctID \<Rightarrow>
                (case OpenOrFindUserWallet env oouts (rf_UserID ev) coin db of
                   (Inl e, db1) \<Rightarrow> (Some (RefundOpen e), db1, c)
                 | (Inr userAcctID, db1) \<Rightarrow>
                     (case Post env outs (refund_post coin ev equityAcctID userAcctID) db1 c of
                        (Inl e, db2, c2) \<Rightarrow> (Some (RefundPost e), db2, c2)
                      | (Inr t, db2, c2) \<Rightarrow> (None, db2, c2)))))"

section \<open>The consumer\<close>

definition decode_refunded :: "event \<Rightarrow> refund_event option" where
  "decode_refunded ev =
     (let j = ev_payload ev in
      case (jint ''return_id'' j, jint ''order_id'' j, jint ''user_id'' j, jint ''refund_amount_minor'' j, jstr ''currency'' j, jstr ''market'' j) of
        (Some rid, Some oid, Some uid, Some amount, Some _, Some market) \<Rightarrow>
          Some \<lparr>rf_ReturnID = rid, rf_OrderID = oid, rf_UserID = uid, rf_RefundAmountMinor = amount,
                rf_Market = (if market = [] then ev_market ev else market)\<rparr>
      | _ \<Rightarrow> None)"

definition handleRefunded :: "string \<Rightarrow> wenv \<Rightarrow> tx_outcome list \<Rightarrow> tx_outcome list \<Rightarrow> event \<Rightarrow> wallet_db \<Rightarrow> wcache
    \<Rightarrow> refund_error option \<times> wallet_db \<times> wcache" where
  "handleRefunded coin env oouts outs ev db c =
     (case decode_refunded ev of
        None \<Rightarrow> (Some RefundUnmarshal, db, c)
      | Some re \<Rightarrow> SettleRefund coin env oouts outs re db c)"

section \<open>Settlement\<close>

lemma refund_key_inj [simp]: "refund_key a = refund_key b \<longleftrightarrow> a = b"
  by (simp add: refund_key_def)

lemma refund_post_simps [simp]:
  "pi_IdempotencyKey (refund_post coin ev eq u) = refund_key (rf_ReturnID ev)"
  "pi_legs (refund_post coin ev eq u) = [(eq, - rf_RefundAmountMinor ev), (u, rf_RefundAmountMinor ev)]"
  by (simp_all add: refund_post_def pi_legs_def)

definition has_wallet :: "wallet_db \<Rightarrow> int \<Rightarrow> string \<Rightarrow> bool" where
  "has_wallet db userID coin \<longleftrightarrow> (\<exists>a \<in> set (db_accounts db). acct_Type a = ''liability:wallet:user'' \<and>
     acct_OwnerType a = ''user'' \<and> acct_OwnerID a = Some userID \<and> acct_Currency a = coin)"

text \<open>Every account of owner type \<^verbatim>\<open>user\<close> is a coin wallet, as the only code that opens one makes it.\<close>

definition refund_inv :: "wallet_db \<Rightarrow> bool" where
  "refund_inv db \<longleftrightarrow> wallet_inv db \<and> (\<forall>a \<in> set (db_accounts db). acct_OwnerType a = ''user'' \<longrightarrow> acct_Type a = ''liability:wallet:user'')"

lemma Post_accounts:
  assumes "Post env outs i db c = (r, db', c')"
  shows "db_accounts db' = db_accounts db"
proof (cases r)
  case (Inl e)
  then show ?thesis using assms with_retry_error unfolding Post_retried by fastforce
next
  case (Inr t)
  then obtain c0 where c0: "PostInTx_seq env i db c0 = (Inr (t, db'), c')" "commit_ok db db'"
    using with_retry_success [OF assms [unfolded Post_retried Inr]] by blast
  from PostInTx_seq_body [OF c0(1)] show ?thesis
    by (cases rule: post_body_cases) (use c0(2) in \<open>auto simp: posted_db_def commit_ok_def\<close>)
qed

lemma open_wallet_cases:
  assumes "refund_inv db" "OpenOrFindUserWallet env outs u coin db = (r, db')"
  shows "refund_inv db' \<and> posted db' = posted db \<and> GetBalanceStrict db' = GetBalanceStrict db \<and>
    (has_wallet db u coin \<longrightarrow> db' = db) \<and> (\<forall>i. r = Inr i \<longrightarrow> has_wallet db' u coin) \<and>
    (\<forall>v k. has_wallet db v k \<longrightarrow> has_wallet db' v k)"
proof -
  have wi: "wallet_inv db" using assms(1) by (simp add: refund_inv_def)
  have same: "posted db' = posted db \<and> GetBalanceStrict db' = GetBalanceStrict db" "wallet_inv db'"
    using openOrFind_append assms(2) openOrFind_inv [OF wi] unfolding OpenOrFindUserWallet_def
    by (fastforce simp: fun_eq_iff posted_def GetBalanceStrict_def)+
  have typed: "acct_Type a = ''liability:wallet:user''" if "FindAccountByOwner db ''user'' u coin = Inr a" for a
    using that assms(1) by (auto simp: FindAccountByOwner_def refund_inv_def split: option.splits dest!: find_SomeD)
  from assms(2) [unfolded OpenOrFindUserWallet_def] show ?thesis
  proof (cases rule: openOrFind_cases)
    case (found a)
    then have "has_wallet db u coin"
      using typed [OF found(1)] by (auto simp: FindAccountByOwner_def has_wallet_def split: option.splits dest!: find_SomeD)
    then show ?thesis using found assms(1) by simp
  next
    case (failed e)
    then show ?thesis using assms(1) by simp
  next
    case (created i)
    then show ?thesis using same assms(1)
      by (auto simp: InsertAccount_def new_account_def refund_inv_def has_wallet_def find_None_iff2 split: if_splits)
  next
    case (conflict i)
    have "db_next_account db > 0" using wi by (simp add: wallet_inv_def fresh_ids_def)
    then have "db' = db" "has_wallet db u coin"
      using conflict(2,3) by (auto simp: InsertAccount_def new_account_def has_wallet_def find_None_iff2 split: if_splits)
    then show ?thesis using assms(1) by simp
  qed
qed

lemma SettleRefund_cases:
  assumes inv: "refund_inv db" and r: "SettleRefund coin env oouts outs ev db c = (err, db', c')"
  obtains (zero) "rf_RefundAmountMinor ev \<le> 0" "err = None" "db' = db"
  | (failed) e where "0 < rf_RefundAmountMinor ev" "err = Some e" "refund_inv db'" "posted db' = posted db"
      "GetBalanceStrict db' = GetBalanceStrict db" "has_wallet db (rf_UserID ev) coin \<Longrightarrow> db' = db"
      "\<And>v k. has_wallet db v k \<Longrightarrow> has_wallet db' v k"
  | (settled) eq u t where "0 < rf_RefundAmountMinor ev" "err = None" "refund_inv db'" "has_wallet db' (rf_UserID ev) coin"
      "FindAccount db refundAcctType coin = Inr eq" "posted db' (refund_key (rf_ReturnID ev)) = Some t"
      "posted db (refund_key (rf_ReturnID ev)) \<noteq> None \<Longrightarrow> has_wallet db (rf_UserID ev) coin \<Longrightarrow> db' = db"
      "posted db (refund_key (rf_ReturnID ev)) \<noteq> None \<Longrightarrow> GetBalanceStrict db' = GetBalanceStrict db"
      "posted db (refund_key (rf_ReturnID ev)) = None \<Longrightarrow>
         GetBalanceStrict db' = (\<lambda>a. GetBalanceStrict db a + leg_sum [(eq, - rf_RefundAmountMinor ev), (u, rf_RefundAmountMinor ev)] a)"
      "\<And>v k. has_wallet db v k \<Longrightarrow> has_wallet db' v k"
proof (cases "rf_RefundAmountMinor ev \<le> 0")
  case True
  then show thesis using r by (intro zero) (simp_all add: SettleRefund_def)
next
  case False
  then have pos: "0 < rf_RefundAmountMinor ev" by simp
  show thesis
  proof (cases "FindAccount db refundAcctType coin")
    case (Inl e)
    then show thesis using r inv pos False by (intro failed [of "RefundFind e"]) (simp_all add: SettleRefund_def)
  next
    case eq: (Inr eq)
    obtain ro db1 where o: "OpenOrFindUserWallet env oouts (rf_UserID ev) coin db = (ro, db1)" by fastforce
    note op = open_wallet_cases [OF inv o]
    show thesis
    proof (cases ro)
      case (Inl e)
      then show thesis using r op pos eq o False by (intro failed [of "RefundOpen e"]) (simp_all add: SettleRefund_def)
    next
      case u: (Inr u)
      obtain rp db2 c2 where p: "Post env outs (refund_post coin ev eq u) db1 c = (rp, db2, c2)" by (metis prod_cases3)
      have wi: "wallet_inv db1" using op by (simp add: refund_inv_def)
      have accts: "db_accounts db2 = db_accounts db1" using Post_accounts [OF p] .
      then have hw: "has_wallet db2 v k = has_wallet db1 v k" for v k by (simp add: has_wallet_def)
      have res: "db' = db2 \<and> err = (case rp of Inl e \<Rightarrow> Some (RefundPost e) | Inr _ \<Rightarrow> None)"
        using r False eq o u p by (auto simp: SettleRefund_def split: sum.splits)
      note ps = Post_spec [OF wi p]
      have i2: "refund_inv db2" using ps op accts by (simp add: refund_inv_def)
      show thesis
      proof (cases rp)
        case (Inl e)
        then show thesis using res ps op pos by (intro failed [of "RefundPost e"]) auto
      next
        case (Inr t)
        then show thesis
          using res ps op pos eq i2 hw u by (intro settled [of eq t u]) auto
      qed
    qed
  qed
qed

text \<open>
  Settlement is atomic and pays exactly the refund: an error, at whichever step, moves no balance and
  records no transaction. On success a non-positive amount has done nothing; otherwise the ledger holds
  the transaction of this return, a return settled before has moved nothing again, and a new one has moved
  exactly the amount from the refund equity account to one other account.
\<close>

theorem SettleRefund_effect:
  assumes "refund_inv db" "SettleRefund coin env oouts outs ev db c = (err, db', c')"
  shows "if err \<noteq> None then posted db' = posted db \<and> GetBalanceStrict db' = GetBalanceStrict db
    else if rf_RefundAmountMinor ev \<le> 0 then db' = db
    else posted db' (refund_key (rf_ReturnID ev)) \<noteq> None \<and> has_wallet db' (rf_UserID ev) coin \<and>
      (if posted db (refund_key (rf_ReturnID ev)) \<noteq> None then GetBalanceStrict db' = GetBalanceStrict db
       else \<exists>eq u. FindAccount db refundAcctType coin = Inr eq \<and>
          (\<forall>a. GetBalanceStrict db' a = GetBalanceStrict db a +
             leg_sum [(eq, - rf_RefundAmountMinor ev), (u, rf_RefundAmountMinor ev)] a))"
  using assms
proof (cases rule: SettleRefund_cases)
  case (settled eq u t)
  then show ?thesis by auto
qed auto

text \<open>A return is settled when there is nothing to pay, or its transaction and the wallet it was paid to exist.\<close>

definition refund_settled :: "string \<Rightarrow> wallet_db \<Rightarrow> event \<Rightarrow> bool" where
  "refund_settled coin db ev \<longleftrightarrow>
     (case decode_refunded ev of None \<Rightarrow> False
      | Some re \<Rightarrow> rf_RefundAmountMinor re \<le> 0 \<or>
          posted db (refund_key (rf_ReturnID re)) \<noteq> None \<and> has_wallet db (rf_UserID re) coin)"

text \<open>A delivery happens with some clock, server behaviour and read-only cache of the process.\<close>

fun refund_handle :: "string \<Rightarrow> wenv \<times> tx_outcome list \<times> tx_outcome list \<times> wcache \<Rightarrow> event \<Rightarrow> wallet_db \<Rightarrow> bool \<times> wallet_db" where
  "refund_handle coin (env, oouts, outs, c) ev db =
     (case handleRefunded coin env oouts outs ev db c of (err, db', c') \<Rightarrow> (err = None, db'))"

lemma refund_handle_cases:
  assumes "refund_handle coin x ev db = (acked, db')"
  obtains (bad) "decode_refunded ev = None" "\<not> acked" "db' = db"
  | (run) re err env oouts outs c c' where "decode_refunded ev = Some re" "acked = (err = None)"
      "SettleRefund coin env oouts outs re db c = (err, db', c')"
proof (cases "decode_refunded ev")
  case None
  then show thesis using assms by (cases x) (auto simp: handleRefunded_def intro: bad)
next
  case (Some re)
  obtain env oouts outs c where x: "x = (env, oouts, outs, c)" by (metis prod_cases4)
  obtain err d c' where s: "SettleRefund coin env oouts outs re db c = (err, d, c')" by (metis prod_cases3)
  then show thesis using assms Some x by (intro run [of re err env oouts outs c c']) (auto simp: handleRefunded_def)
qed

lemma SettleRefund_inv:
  assumes "refund_inv db" "SettleRefund coin env oouts outs ev db c = (err, db', c')"
  shows "refund_inv db'"
  using assms by (cases rule: SettleRefund_cases) (use assms(1) in auto)

lemma SettleRefund_wallets:
  assumes "refund_inv db" "SettleRefund coin env oouts outs ev db c = (err, db', c')" "has_wallet db v k"
  shows "has_wallet db' v k"
  using assms(1,2) by (cases rule: SettleRefund_cases) (use assms(3) in auto)

lemma SettleRefund_posted:
  assumes "refund_inv db" "SettleRefund coin env oouts outs ev db c = (err, db', c')" "posted db k \<noteq> None"
  shows "posted db' k \<noteq> None"
proof -
  have "\<exists>xs es. db_transactions db' = db_transactions db @ xs \<and> db_entries db' = db_entries db @ es"
    using assms(2) by (auto simp: SettleRefund_def OpenOrFindUserWallet_def
        dest!: Post_append openOrFind_append split: if_splits sum.splits prod.splits)
  then show ?thesis using assms(3) by (auto simp: posted_def find_append split: option.splits)
qed

interpretation rfc: idempotent_consumer refund_inv "refund_handle coin" "refund_settled coin" for coin
proof
  fix s x m acked s'
  assume i: "refund_inv s" and h: "refund_handle coin x m s = (acked, s')"
  from h show "refund_inv s'" by (cases rule: refund_handle_cases) (use i SettleRefund_inv in auto)
next
  fix s x m s'
  assume i: "refund_inv s" and h: "refund_handle coin x m s = (True, s')"
  from h show "refund_settled coin s' m"
  proof (cases rule: refund_handle_cases)
    case (run re err env oouts outs c c')
    from i run(3) show ?thesis by (cases rule: SettleRefund_cases) (use run in \<open>auto simp: refund_settled_def\<close>)
  qed simp
next
  fix s m x acked s'
  assume i: "refund_inv s" and st: "refund_settled coin s m" and h: "refund_handle coin x m s = (acked, s')"
  from h show "s' = s"
  proof (cases rule: refund_handle_cases)
    case (run re err env oouts outs c c')
    from i run(3) show ?thesis by (cases rule: SettleRefund_cases) (use run st in \<open>auto simp: refund_settled_def\<close>)
  qed simp
next
  fix s m x k acked s'
  assume i: "refund_inv s" and st: "refund_settled coin s m" and h: "refund_handle coin x k s = (acked, s')"
  from h show "refund_settled coin s' m"
  proof (cases rule: refund_handle_cases)
    case (run re err env oouts outs c c')
    then show ?thesis
      using st SettleRefund_posted [OF i run(3)] SettleRefund_wallets [OF i run(3)]
      by (auto simp: refund_settled_def split: option.splits)
  qed (use st in simp)
qed

text \<open>
  At-least-once delivery refunds each return once: after \<^verbatim>\<open>ecom.return.refunded.v1\<close> has been
  acknowledged, re-delivering it at any later point, among any other deliveries, with any clock, read-only
  cache and server interference, leaves the ledger exactly as without the re-delivery.
\<close>

theorem refunded_exactly_once:
  assumes "refund_inv db" "refund_handle coin x ev db = (True, db1)"
  shows "deliver (refund_handle coin) (ms @ (y, ev) # ns) db1 = deliver (refund_handle coin) (ms @ ns) db1"
  using assms by (rule rfc.redelivery)

section \<open>A concrete refund\<close>

definition refund_ex_event :: event where
  "refund_ex_event = \<lparr>ev_id = ''return:refunded:9'', ev_type = ''ecom.return.refunded.v1'', ev_aggregate = ''order'',
     ev_idempotency_key = ''return:refunded:9'', ev_market = ''TR'', ev_currency = ''TRY'', ev_trace_id = [],
     ev_span_id = [], ev_occurred_at = 0,
     ev_payload = JObj [(''return_id'', JInt 9), (''order_id'', JInt 500), (''user_id'', JInt 71),
       (''refund_amount_minor'', JInt 4000), (''currency'', JStr ''TRY''), (''market'', JStr ''TR'')]\<rparr>"

definition refund_run :: "bool \<times> wallet_db" where
  "refund_run = refund_handle ''TRY_COIN'' (wenv_ex, [], [TxCommitSerialization], cache_ex) refund_ex_event ledger_ex"

lemma refund_run_eval:
  "(fst refund_run, posted (snd refund_run) (refund_key 9), map (GetBalanceStrict (snd refund_run)) [5, 8]) =
   (True, Some 1, [-4000, 4000])"
  by code_simp

lemma refund_ex_inv: "refund_inv ledger_ex"
  using ledger_ex_inv by (simp add: refund_inv_def) (simp add: ledger_ex_def acct_ex_def)

theorem refunded_exactly_once_witness:
  "deliver (refund_handle ''TRY_COIN'') [((wenv_ex, [], [], cache_ex), refund_ex_event)] (snd refund_run) = snd refund_run \<and>
   GetBalanceStrict (snd refund_run) 8 = 4000"
proof -
  have "refund_run = (True, snd refund_run)" using refund_run_eval by (simp add: prod_eq_iff)
  then have h: "refund_handle ''TRY_COIN'' (wenv_ex, [], [TxCommitSerialization], cache_ex) refund_ex_event ledger_ex = (True, snd refund_run)"
    by (simp add: refund_run_def)
  show ?thesis
    using refunded_exactly_once [OF refund_ex_inv h, of "[]" "(wenv_ex, [], [], cache_ex)" "[]"] refund_run_eval by simp
qed

theorem SettleRefund_effect_witness:
  "\<exists>re db' c'. decode_refunded refund_ex_event = Some re \<and>
     SettleRefund ''TRY_COIN'' wenv_ex [] [TxCommitSerialization] re ledger_ex cache_ex = (None, db', c') \<and>
     posted db' (refund_key 9) \<noteq> None \<and> has_wallet db' 71 ''TRY_COIN''"
proof -
  obtain re where d: "decode_refunded refund_ex_event = Some re" "rf_ReturnID re = 9" "rf_UserID re = 71" "rf_RefundAmountMinor re = 4000"
    by (simp add: decode_refunded_def refund_ex_event_def Let_def jint_def jstr_def)
  obtain err db' c' where p: "SettleRefund ''TRY_COIN'' wenv_ex [] [TxCommitSerialization] re ledger_ex cache_ex = (err, db', c')"
    by (metis prod_cases3)
  then have "err = None" using refund_run_eval by (simp add: refund_run_def handleRefunded_def d)
  then show ?thesis using SettleRefund_effect [OF refund_ex_inv p] p d by auto
qed

end
