(* ===== verification/Returns.thy ===== *)
theory Returns
  imports OrderGrowth Refund
begin

text \<open>
  Returns of delivered orders: \<^verbatim>\<open>internal/order/returns.go\<close> and \<^verbatim>\<open>returns_repository.go\<close> with the constraints of
  \<^verbatim>\<open>migrations/ecom/0070\<close>, \<^verbatim>\<open>0103\<close> and \<^verbatim>\<open>0104\<close>. A buyer asks to return items of a delivered order, the
  seller rejects the request or approves it, and an approval writes the event that refund settlement pays out.
\<close>

section \<open>Rows\<close>

datatype return_status = ReturnPending | ReturnApproved | ReturnRejected | ReturnRefunded

definition reason_valid :: "string \<Rightarrow> bool" where
  "reason_valid r \<longleftrightarrow> r \<in> {''wrong_product'', ''not_as_described'', ''damaged'', ''size_issue'', ''changed_mind'', ''other''}"

record return_request =
  rr_ID :: int
  rr_OrderID :: int
  rr_UserID :: int
  rr_Status :: return_status
  rr_Reason :: string
  rr_Description :: string
  rr_RefundAmountMinor :: int
  rr_RefundCurrency :: string
  rr_CreatedAt :: instant
  rr_UpdatedAt :: instant

record return_item =
  ri_ID :: int
  ri_ReturnID :: int
  ri_OrderID :: int
  ri_OrderItemID :: int
  ri_Quantity :: int
  ri_Reason :: string
  ri_Note :: string

record return_status_event =
  rh_ReturnID :: int
  rh_Status :: return_status
  rh_Note :: string
  rh_CreatedAt :: instant

record return_photo =
  ph_ReturnID :: int
  ph_Key :: string
  ph_SortRank :: int

record return_item_input =
  rl_OrderItemID :: int
  rl_Quantity :: int
  rl_Reason :: string
  rl_Note :: string

record return_input =
  rx_OrderID :: int
  rx_UserID :: int
  rx_Reason :: string
  rx_Description :: string
  rx_Items :: "return_item_input list"
  rx_PhotoKeys :: "string list"

record order_actions =
  oa_CanCancel :: bool
  oa_CanReturn :: bool
  oa_ReturnableUntil :: "instant option"
  oa_ReturnableItems :: "(int \<times> int) list"

datatype return_error =
    ErrReturnNotFound | ErrOrderNotDelivered | ErrReturnWindowExpired | ErrItemNotInOrder | ErrQuantityExceedsReturn
  | ErrReturnAlreadyExists | ErrNoReturnableItems | ErrInvalidReturnReason | ErrReturnNotPending | ErrReturnNotOwned
  | RetOutboxNotConfigured | RetOrder order_error | RetQuery | RetConstraint | RetOutbox outbox_error | RetTx "return_error tx_error"

text \<open>The tables of the returns beside those of the orders; the outbox is the one of the orders.\<close>

record ret_db =
  rt_orders :: order_db
  rt_returns :: "return_request list"
  rt_next :: int
  rt_items :: "return_item list"
  rt_next_item :: int
  rt_history :: "return_status_event list"
  rt_photos :: "return_photo list"

section \<open>Repository\<close>

definition returns_WithTx :: "tx_outcome list \<Rightarrow> (ret_db \<Rightarrow> return_error + 'a \<times> ret_db) \<Rightarrow> ret_db \<Rightarrow> (return_error + 'a) \<times> ret_db" where
  "returns_WithTx outs fn db = one_tx RetTx outs fn db"

definition InsertReturn :: "instant \<Rightarrow> return_request \<Rightarrow> ret_db \<Rightarrow> return_error + return_request \<times> ret_db" where
  "InsertReturn now rec db =
     (if \<not> reason_valid (rr_Reason rec) then Inl RetConstraint
      else (let row = rec\<lparr>rr_ID := rt_next db, rr_CreatedAt := now, rr_UpdatedAt := now\<rparr> in
            Inr (row, db\<lparr>rt_returns := rt_returns db @ [row], rt_next := rt_next db + 1\<rparr>)))"

text \<open>An empty reason is stored as NULL, which the CHECK of migration 0103 allows.\<close>

definition InsertReturnItem :: "return_item \<Rightarrow> ret_db \<Rightarrow> return_error + return_item \<times> ret_db" where
  "InsertReturnItem it db =
     (if ri_Quantity it < 1 \<or> \<not> is_i32 (ri_Quantity it) \<or> ri_Reason it \<noteq> [] \<and> \<not> reason_valid (ri_Reason it) \<or>
         List.find (\<lambda>r. rr_ID r = ri_ReturnID it) (rt_returns db) = None
      then Inl RetConstraint
      else if List.find (\<lambda>r. ri_OrderID r = ri_OrderID it \<and> ri_OrderItemID r = ri_OrderItemID it) (rt_items db) \<noteq> None
      then Inl ErrReturnAlreadyExists
      else (let row = it\<lparr>ri_ID := rt_next_item db\<rparr> in
            Inr (row, db\<lparr>rt_items := rt_items db @ [row], rt_next_item := rt_next_item db + 1\<rparr>)))"

definition InsertReturnPhoto :: "int \<Rightarrow> string \<Rightarrow> int \<Rightarrow> ret_db \<Rightarrow> return_error + ret_db" where
  "InsertReturnPhoto returnID photoKey sortRank db =
     (if \<not> is_i32 sortRank \<or> List.find (\<lambda>r. rr_ID r = returnID) (rt_returns db) = None then Inl RetConstraint
      else Inr (db\<lparr>rt_photos := rt_photos db @ [\<lparr>ph_ReturnID = returnID, ph_Key = photoKey, ph_SortRank = sortRank\<rparr>]\<rparr>))"

definition ListReturnPhotos :: "ret_db \<Rightarrow> int \<Rightarrow> string list" where
  "ListReturnPhotos db returnID = map ph_Key (sort_key ph_SortRank (filter (\<lambda>p. ph_ReturnID p = returnID) (rt_photos db)))"

definition InsertReturnStatusHistory :: "instant \<Rightarrow> int \<Rightarrow> return_status \<Rightarrow> string \<Rightarrow> ret_db \<Rightarrow> return_error + ret_db" where
  "InsertReturnStatusHistory now returnID status note db =
     (if List.find (\<lambda>r. rr_ID r = returnID) (rt_returns db) = None then Inl RetConstraint
      else Inr (db\<lparr>rt_history := rt_history db @ [\<lparr>rh_ReturnID = returnID, rh_Status = status, rh_Note = note, rh_CreatedAt = now\<rparr>]\<rparr>))"

definition ListReturnStatusHistory :: "ret_db \<Rightarrow> int \<Rightarrow> return_status_event list" where
  "ListReturnStatusHistory db returnID = sort_key rh_CreatedAt (filter (\<lambda>h. rh_ReturnID h = returnID) (rt_history db))"

definition repo_GetReturn :: "ret_db \<Rightarrow> int \<Rightarrow> return_error + return_request \<times> return_item list" where
  "repo_GetReturn db returnID =
     (case List.find (\<lambda>r. rr_ID r = returnID) (rt_returns db) of
        None \<Rightarrow> Inl ErrReturnNotFound
      | Some rec \<Rightarrow> Inr (rec, filter (\<lambda>i. ri_ReturnID i = returnID) (rt_items db)))"

text \<open>\<^verbatim>\<open>ORDER BY created_at DESC, id DESC LIMIT limit OFFSET offset\<close>: insertion order is id order.\<close>

definition page :: "int \<Rightarrow> int \<Rightarrow> return_request list \<Rightarrow> return_request list" where
  "page limit offset rows = take (nat limit) (drop (nat offset) (rev (sort_key rr_CreatedAt rows)))"

definition ListReturnsByUser :: "ret_db \<Rightarrow> int \<Rightarrow> int \<Rightarrow> int \<Rightarrow> return_request list" where
  "ListReturnsByUser db userID limit offset = page limit offset (filter (\<lambda>r. rr_UserID r = userID) (rt_returns db))"

text \<open>
  Two queries read the column \<^verbatim>\<open>order_items.product_id\<close>. No migration creates it: in the deployed schema \<open>product\<close> is
  \<open>None\<close> and the queries fail.
\<close>

definition item_products :: "(order_item \<Rightarrow> int) \<Rightarrow> ret_db \<Rightarrow> int \<Rightarrow> int list" where
  "item_products pcol db returnID =
     concat (map (\<lambda>ri. map pcol (filter (\<lambda>oi. oi_ID oi = ri_OrderItemID ri) (dbo_items (rt_orders db))))
       (filter (\<lambda>ri. ri_ReturnID ri = returnID) (rt_items db)))"

definition ReturnProductIDs :: "(order_item \<Rightarrow> int) option \<Rightarrow> ret_db \<Rightarrow> int \<Rightarrow> return_error + int list" where
  "ReturnProductIDs product db returnID =
     (case product of None \<Rightarrow> Inl RetQuery | Some pcol \<Rightarrow> Inr (remdups (item_products pcol db returnID)))"

definition ListReturnsByProductIDs :: "(order_item \<Rightarrow> int) option \<Rightarrow> ret_db \<Rightarrow> int list \<Rightarrow> return_status option \<Rightarrow> int \<Rightarrow> int
    \<Rightarrow> return_error + return_request list" where
  "ListReturnsByProductIDs product db productIDs status limit offset =
     (case product of
        None \<Rightarrow> Inl RetQuery
      | Some pcol \<Rightarrow> Inr (page limit offset (filter (\<lambda>r. list_ex (\<lambda>p. p \<in> set productIDs) (item_products pcol db (rr_ID r)) \<and>
          (case status of None \<Rightarrow> True | Some s \<Rightarrow> rr_Status r = s)) (rt_returns db))))"

definition UpdateReturnStatus :: "instant \<Rightarrow> int \<Rightarrow> return_status \<Rightarrow> ret_db \<Rightarrow> ret_db" where
  "UpdateReturnStatus now returnID status db =
     db\<lparr>rt_returns := update_where (\<lambda>r. rr_ID r = returnID) (\<lambda>r. r\<lparr>rr_Status := status, rr_UpdatedAt := now\<rparr>) (rt_returns db)\<rparr>"

definition ReturnedQtyByOrder :: "ret_db \<Rightarrow> int \<Rightarrow> int \<Rightarrow> int" where
  "ReturnedQtyByOrder db orderID itemID =
     sum_list (map ri_Quantity (filter (\<lambda>i. ri_OrderID i = orderID \<and> ri_OrderItemID i = itemID) (rt_items db)))"

section \<open>Service\<close>

definition ReturnWindowDays :: int where
  "ReturnWindowDays = 14"

text \<open>\<^verbatim>\<open>AddDate(0, 0, ReturnWindowDays)\<close> of a UTC time.\<close>

definition return_until :: "instant \<Rightarrow> instant" where
  "return_until deliveredAt = deliveredAt + ReturnWindowDays * ns_per_day"

text \<open>
  The clock, the outcome of the reads and of the transaction, the product column, and whether an outbox is
  configured.
\<close>

record ret_env =
  rn_now :: instant
  rn_qty_ok :: bool
  rn_outs :: "tx_outcome list"
  rn_product :: "(order_item \<Rightarrow> int) option"
  rn_outbox :: bool

definition returnable_items :: "(int \<Rightarrow> int) \<Rightarrow> order_item list \<Rightarrow> (int \<times> int) list" where
  "returnable_items returned items =
     concat (map (\<lambda>it. let remaining = oi_Qty it - returned (oi_ID it) in if remaining > 0 then [(oi_ID it, remaining)] else []) items)"

definition ComputeActions :: "ret_env \<Rightarrow> order \<Rightarrow> order_item list \<Rightarrow> ret_db \<Rightarrow> return_error option \<times> order_actions" where
  "ComputeActions env ord items db =
     (let act = \<lparr>oa_CanCancel = (or_Status ord = StatusPendingPayment \<or> or_Status ord = StatusPaid), oa_CanReturn = False,
            oa_ReturnableUntil = None, oa_ReturnableItems = []\<rparr> in
      case or_DeliveredAt ord of
        None \<Rightarrow> (None, act)
      | Some deliveredAt \<Rightarrow>
          if or_Status ord \<noteq> StatusDelivered then (None, act)
          else (let until = return_until deliveredAt; act1 = act\<lparr>oa_ReturnableUntil := Some until\<rparr> in
                if \<not> rn_qty_ok env then (Some RetQuery, act1)
                else (let its = returnable_items (ReturnedQtyByOrder db (or_ID ord)) items in
                      (None, act1\<lparr>oa_ReturnableItems := its, oa_CanReturn := (\<not> until < rn_now env \<and> its \<noteq> [])\<rparr>))))"

definition validateReturnable :: "ret_env \<Rightarrow> return_input \<Rightarrow> ret_db \<Rightarrow> return_error + order \<times> order_item list \<times> (int \<Rightarrow> int)" where
  "validateReturnable env inp db =
     (if \<not> reason_valid (rx_Reason inp) then Inl ErrInvalidReturnReason
      else (case repo_GetOrder (rt_orders db) (rx_OrderID inp) of
        Inl e \<Rightarrow> Inl (RetOrder e)
      | Inr (ord, items) \<Rightarrow>
          if or_UserID ord \<noteq> rx_UserID inp then Inl (RetOrder ErrOrderNotFound)
          else (case or_DeliveredAt ord of
            None \<Rightarrow> Inl ErrOrderNotDelivered
          | Some deliveredAt \<Rightarrow>
              if or_Status ord \<noteq> StatusDelivered then Inl ErrOrderNotDelivered
              else if return_until deliveredAt < rn_now env then Inl ErrReturnWindowExpired
              else if \<not> rn_qty_ok env then Inl RetQuery
              else Inr (ord, items, ReturnedQtyByOrder db (or_ID ord)))))"

definition all_lines :: "(int \<Rightarrow> int) \<Rightarrow> order_item list \<Rightarrow> return_item_input list" where
  "all_lines returned items = map (\<lambda>(i, q). \<lparr>rl_OrderItemID = i, rl_Quantity = q, rl_Reason = [], rl_Note = []\<rparr>) (returnable_items returned items)"

text \<open>A later item of the same id would overwrite an earlier one in the map; ids are unique.\<close>

definition check_line :: "order_item list \<Rightarrow> (int \<Rightarrow> int) \<Rightarrow> return_item_input \<Rightarrow> int \<Rightarrow> return_error + int" where
  "check_line items returned ri refundMinor =
     (case List.find (\<lambda>it. oi_ID it = rl_OrderItemID ri) (rev items) of
        None \<Rightarrow> Inl ErrItemNotInOrder
      | Some oi \<Rightarrow>
          if rl_Quantity ri < 1 \<or> rl_Quantity ri > oi_Qty oi - returned (oi_ID oi) then Inl ErrQuantityExceedsReturn
          else Inr (wrap64 (refundMinor + wrap64 (oi_UnitPriceMinor oi * rl_Quantity ri))))"

definition resolveLines :: "order_item list \<Rightarrow> (int \<Rightarrow> int) \<Rightarrow> return_item_input list \<Rightarrow> return_error + return_item_input list \<times> int" where
  "resolveLines items returned requested =
     (let lines = (if requested = [] then all_lines returned items else requested) in
      if lines = [] then Inl ErrNoReturnableItems
      else (case for_each (check_line items returned) lines 0 of Inl e \<Rightarrow> Inl e | Inr refundMinor \<Rightarrow> Inr (lines, refundMinor)))"

definition insert_line :: "string \<Rightarrow> int \<Rightarrow> int \<Rightarrow> return_item_input \<Rightarrow> return_item list \<times> ret_db \<Rightarrow> return_error + return_item list \<times> ret_db" where
  "insert_line header returnID orderID ri st =
     (if rl_Reason ri \<noteq> [] \<and> \<not> reason_valid (rl_Reason ri) then Inl ErrInvalidReturnReason
      else (case InsertReturnItem \<lparr>ri_ID = 0, ri_ReturnID = returnID, ri_OrderID = orderID, ri_OrderItemID = rl_OrderItemID ri,
                   ri_Quantity = rl_Quantity ri, ri_Reason = (if rl_Reason ri = [] then header else rl_Reason ri), ri_Note = rl_Note ri\<rparr> (snd st) of
              Inl e \<Rightarrow> Inl e
            | Inr (item, db) \<Rightarrow> Inr (fst st @ [item], db)))"

definition insert_photos :: "int \<Rightarrow> string list \<Rightarrow> ret_db \<Rightarrow> return_error + ret_db" where
  "insert_photos returnID keys db =
     for_each (\<lambda>(i, key) d. if key = [] then Inr d else InsertReturnPhoto returnID key i d) (zip (map int [0..<length keys]) keys) db"

definition create_return_body :: "ret_env \<Rightarrow> return_input \<Rightarrow> order \<Rightarrow> return_item_input list \<Rightarrow> int \<Rightarrow> ret_db
    \<Rightarrow> return_error + (return_request \<times> return_item list) \<times> ret_db" where
  "create_return_body env inp ord lines refundMinor db =
     (case InsertReturn (rn_now env) \<lparr>rr_ID = 0, rr_OrderID = or_ID ord, rr_UserID = rx_UserID inp, rr_Status = ReturnPending, rr_Reason = rx_Reason inp,
              rr_Description = rx_Description inp, rr_RefundAmountMinor = refundMinor, rr_RefundCurrency = or_Currency ord, rr_CreatedAt = 0, rr_UpdatedAt = 0\<rparr> db of
        Inl e \<Rightarrow> Inl e
      | Inr (rec, db1) \<Rightarrow>
          (case for_each (insert_line (rx_Reason inp) (rr_ID rec) (or_ID ord)) lines ([], db1) of
             Inl e \<Rightarrow> Inl e
           | Inr (items, db2) \<Rightarrow>
               (case InsertReturnStatusHistory (rn_now env) (rr_ID rec) ReturnPending ''submitted'' db2 of
                  Inl e \<Rightarrow> Inl e
                | Inr db3 \<Rightarrow>
                    (case insert_photos (rr_ID rec) (rx_PhotoKeys inp) db3 of
                       Inl e \<Rightarrow> Inl e
                     | Inr db4 \<Rightarrow> Inr ((rec, items), db4)))))"

text \<open>
  \<open>pre\<close> is the state that the reads before the transaction see; other transactions may commit between them and it.
\<close>

definition CreateReturn :: "ret_env \<Rightarrow> ret_db \<Rightarrow> return_input \<Rightarrow> ret_db \<Rightarrow> (return_error + return_request \<times> return_item list) \<times> ret_db" where
  "CreateReturn env pre inp db =
     (case validateReturnable env inp pre of
        Inl e \<Rightarrow> (Inl e, db)
      | Inr (ord, items, returned) \<Rightarrow>
          (case resolveLines items returned (rx_Items inp) of
             Inl e \<Rightarrow> (Inl e, db)
           | Inr (lines, refundMinor) \<Rightarrow> returns_WithTx (rn_outs env) (create_return_body env inp ord lines refundMinor) db))"

definition GetReturn :: "ret_db \<Rightarrow> int \<Rightarrow> int \<Rightarrow> return_error + return_request \<times> return_item list" where
  "GetReturn db userID returnID =
     (case repo_GetReturn db returnID of
        Inl e \<Rightarrow> Inl e
      | Inr (rec, items) \<Rightarrow> if rr_UserID rec \<noteq> userID then Inl ErrReturnNotFound else Inr (rec, items))"

definition GetReturnHistory :: "ret_db \<Rightarrow> int \<Rightarrow> int \<Rightarrow> return_error + return_status_event list" where
  "GetReturnHistory db userID returnID =
     (case repo_GetReturn db returnID of
        Inl e \<Rightarrow> Inl e
      | Inr (rec, _) \<Rightarrow> if rr_UserID rec \<noteq> userID then Inl ErrReturnNotFound else Inr (ListReturnStatusHistory db returnID))"

definition GetReturnPhotos :: "ret_db \<Rightarrow> int \<Rightarrow> int \<Rightarrow> return_error + string list" where
  "GetReturnPhotos db userID returnID =
     (case repo_GetReturn db returnID of
        Inl e \<Rightarrow> Inl e
      | Inr (rec, _) \<Rightarrow> if rr_UserID rec \<noteq> userID then Inl ErrReturnNotFound else Inr (ListReturnPhotos db returnID))"

definition clamp_limit :: "int \<Rightarrow> int" where
  "clamp_limit limit = (if limit \<le> 0 \<or> limit > 100 then 20 else limit)"

definition ListReturns :: "ret_db \<Rightarrow> int \<Rightarrow> int \<Rightarrow> int \<Rightarrow> return_request list" where
  "ListReturns db userID limit offset = ListReturnsByUser db userID (clamp_limit limit) (if offset < 0 then 0 else offset)"

definition ListSellerReturns :: "ret_env \<Rightarrow> ret_db \<Rightarrow> int list \<Rightarrow> return_status option \<Rightarrow> int \<Rightarrow> int \<Rightarrow> return_error + return_request list" where
  "ListSellerReturns env db productIDs status limit offset =
     (if productIDs = [] then Inr []
      else ListReturnsByProductIDs (rn_product env) db productIDs status (clamp_limit limit) (if offset < 0 then 0 else offset))"

definition returnOwnedBySeller :: "ret_env \<Rightarrow> ret_db \<Rightarrow> int \<Rightarrow> int list \<Rightarrow> return_error + bool" where
  "returnOwnedBySeller env db returnID sellerProductIDs =
     (if sellerProductIDs = [] then Inr False
      else (case ReturnProductIDs (rn_product env) db returnID of
              Inl e \<Rightarrow> Inl e
            | Inr pids \<Rightarrow> Inr (list_ex (\<lambda>i. i \<in> set sellerProductIDs) pids)))"

text \<open>The guards that approval and rejection share.\<close>

definition pending_return :: "ret_env \<Rightarrow> ret_db \<Rightarrow> int \<Rightarrow> int list \<Rightarrow> return_error + return_request" where
  "pending_return env db returnID sellerProductIDs =
     (case repo_GetReturn db returnID of
        Inl e \<Rightarrow> Inl e
      | Inr (rec, _) \<Rightarrow>
          (case returnOwnedBySeller env db returnID sellerProductIDs of
             Inl e \<Rightarrow> Inl e
           | Inr owns \<Rightarrow> if \<not> owns then Inl ErrReturnNotOwned else if rr_Status rec \<noteq> ReturnPending then Inl ErrReturnNotPending else Inr rec))"

definition refunded_json :: "return_request \<Rightarrow> string \<Rightarrow> json" where
  "refunded_json rec market =
     JObj [(''return_id'', JInt (rr_ID rec)), (''order_id'', JInt (rr_OrderID rec)), (''user_id'', JInt (rr_UserID rec)),
       (''refund_amount_minor'', JInt (rr_RefundAmountMinor rec)), (''currency'', JStr (rr_RefundCurrency rec)), (''market'', JStr market)]"

definition refunded_event_key :: "int \<Rightarrow> string" where
  "refunded_event_key returnID = ''return:refunded:'' @ itoa returnID"

definition refunded_row :: "return_request \<Rightarrow> string \<Rightarrow> outbox_row" where
  "refunded_row rec market =
     \<lparr>o_id = 0, o_aggregate = ''return'', o_event_type = ''ecom.return.refunded.v1'', o_payload = refunded_json rec market,
      o_idempotency_key = refunded_event_key (rr_ID rec), o_trace_id = [], o_span_id = [], o_market = market, o_currency = rr_RefundCurrency rec,
      o_created_at = 0, o_published_at = None\<rparr>"

definition approve_body :: "ret_env \<Rightarrow> return_request \<Rightarrow> string \<Rightarrow> int \<Rightarrow> ret_db \<Rightarrow> return_error + unit \<times> ret_db" where
  "approve_body env rec market returnID db =
     (case InsertReturnStatusHistory (rn_now env) returnID ReturnApproved ''seller approved'' (UpdateReturnStatus (rn_now env) returnID ReturnApproved db) of
        Inl e \<Rightarrow> Inl e
      | Inr db1 \<Rightarrow>
          (case InsertReturnStatusHistory (rn_now env) returnID ReturnRefunded ''refund issued as Mopro Coin''
                  (UpdateReturnStatus (rn_now env) returnID ReturnRefunded db1) of
             Inl e \<Rightarrow> Inl e
           | Inr db2 \<Rightarrow>
               (case outbox_Insert (rn_now env) (refunded_row rec market) (dbo_outbox (rt_orders db2)) of
                  Inl e \<Rightarrow> Inl (RetOutbox e)
                | Inr ob \<Rightarrow> Inr ((), db2\<lparr>rt_orders := (rt_orders db2)\<lparr>dbo_outbox := ob\<rparr>\<rparr>))))"

definition SellerApprove :: "ret_env \<Rightarrow> ret_db \<Rightarrow> int \<Rightarrow> int list \<Rightarrow> ret_db \<Rightarrow> (return_error + return_request) \<times> ret_db" where
  "SellerApprove env pre returnID sellerProductIDs db =
     (if \<not> rn_outbox env then (Inl RetOutboxNotConfigured, db)
      else (case pending_return env pre returnID sellerProductIDs of
        Inl e \<Rightarrow> (Inl e, db)
      | Inr rec \<Rightarrow>
          (case repo_GetOrder (rt_orders pre) (rr_OrderID rec) of
             Inl e \<Rightarrow> (Inl (RetOrder e), db)
           | Inr (ord, _) \<Rightarrow>
               (case returns_WithTx (rn_outs env) (approve_body env rec (or_Market ord) returnID) db of
                  (Inl e, db') \<Rightarrow> (Inl e, db')
                | (Inr _, db') \<Rightarrow> (Inr (rec\<lparr>rr_Status := ReturnRefunded\<rparr>), db')))))"

definition transition_body :: "ret_env \<Rightarrow> int \<Rightarrow> return_status \<Rightarrow> string \<Rightarrow> ret_db \<Rightarrow> return_error + unit \<times> ret_db" where
  "transition_body env returnID status note db =
     (case InsertReturnStatusHistory (rn_now env) returnID status note (UpdateReturnStatus (rn_now env) returnID status db) of
        Inl e \<Rightarrow> Inl e | Inr db' \<Rightarrow> Inr ((), db'))"

definition transition :: "ret_env \<Rightarrow> ret_db \<Rightarrow> int \<Rightarrow> int list \<Rightarrow> return_status \<Rightarrow> string \<Rightarrow> ret_db \<Rightarrow> (return_error + return_request) \<times> ret_db" where
  "transition env pre returnID sellerProductIDs status note db =
     (case pending_return env pre returnID sellerProductIDs of
        Inl e \<Rightarrow> (Inl e, db)
      | Inr rec \<Rightarrow>
          (case returns_WithTx (rn_outs env) (transition_body env returnID status note) db of
             (Inl e, db') \<Rightarrow> (Inl e, db')
           | (Inr _, db') \<Rightarrow> (Inr (rec\<lparr>rr_Status := status\<rparr>), db')))"

text \<open>The dash of the note is the three bytes of its UTF-8 encoding.\<close>

definition SellerReject :: "ret_env \<Rightarrow> ret_db \<Rightarrow> int \<Rightarrow> int list \<Rightarrow> string \<Rightarrow> string \<Rightarrow> ret_db \<Rightarrow> (return_error + return_request) \<times> ret_db" where
  "SellerReject env pre returnID sellerProductIDs reasonCode note db =
     transition env pre returnID sellerProductIDs ReturnRejected
       (''seller rejected: '' @ reasonCode @ (if note = [] then [] else '' '' @ map char_of [0xE2, 0x80, 0x94 :: nat] @ '' '' @ note)) db"

end
