(* ===== verification/ReturnFlow.thy ===== *)
theory ReturnFlow
  imports Returns
begin

text \<open>
  The returns of a shop in any order of events: buyers asking, sellers approving and rejecting, orders placed and
  delivered meanwhile, every operation acting on reads that may be out of date by the time it commits.
  No item is returned twice, a refund is worth what was paid for its items, and all refunds of an order stay within
  what the order charged.
\<close>

section \<open>Runs\<close>

text \<open>
  A run is the list of the states so far, the newest first. An operation reads some state \<open>pre\<close> of the run and
  commits to the newest one.
\<close>

inductive ret_run :: "ret_db \<Rightarrow> ret_db list \<Rightarrow> bool" for db0 where
  start: "ret_run db0 [db0]"
| order: "ret_run db0 (db # h) \<Longrightarrow> order_step (rt_orders db) od \<Longrightarrow> ret_run db0 (db\<lparr>rt_orders := od\<rparr> # db # h)"
| create: "ret_run db0 (db # h) \<Longrightarrow> pre \<in> set (db # h) \<Longrightarrow> CreateReturn env pre inp db = (res, db') \<Longrightarrow> ret_run db0 (db' # db # h)"
| approve: "ret_run db0 (db # h) \<Longrightarrow> pre \<in> set (db # h) \<Longrightarrow> SellerApprove env pre rid pids db = (ares, db') \<Longrightarrow> ret_run db0 (db' # db # h)"
| reject: "ret_run db0 (db # h) \<Longrightarrow> pre \<in> set (db # h) \<Longrightarrow> SellerReject env pre rid pids code note db = (rres, db') \<Longrightarrow> ret_run db0 (db' # db # h)"

section \<open>What never changes\<close>

definition return_core :: "return_request \<Rightarrow> int \<times> int \<times> int \<times> int \<times> string" where
  "return_core r = (rr_ID r, rr_OrderID r, rr_UserID r, rr_RefundAmountMinor r, rr_RefundCurrency r)"

definition ret_grows :: "ret_db \<Rightarrow> ret_db \<Rightarrow> bool" where
  "ret_grows db db' \<longleftrightarrow> (\<exists>xs. dbo_items (rt_orders db') = dbo_items (rt_orders db) @ xs) \<and>
     (\<exists>ys. map return_core (rt_returns db') = map return_core (rt_returns db) @ ys)"

lemma ret_grows_refl [simp]: "ret_grows db db"
  by (simp add: ret_grows_def)

lemma ret_grows_trans: "ret_grows a b \<Longrightarrow> ret_grows b c \<Longrightarrow> ret_grows a c"
  unfolding ret_grows_def by (elim conjE exE) (intro conjI; force)

section \<open>Effects of the operations\<close>

definition item_key :: "return_item \<Rightarrow> int \<times> int" where
  "item_key i = (ri_OrderID i, ri_OrderItemID i)"

lemma InsertReturnItem_effect:
  assumes "InsertReturnItem it d = Inr (row, d')"
  shows "row = it\<lparr>ri_ID := rt_next_item d\<rparr>" "d' = d\<lparr>rt_items := rt_items d @ [row], rt_next_item := rt_next_item d + 1\<rparr>"
    "item_key row \<notin> item_key ` set (rt_items d)"
  using assms by (auto simp: InsertReturnItem_def Let_def item_key_def find_None_iff2 split: if_splits)

lemma insert_line_effect:
  assumes "insert_line hdr rid oid l (acc, d) = Inr (acc', d')"
  shows "\<exists>row n. d' = d\<lparr>rt_items := rt_items d @ [row], rt_next_item := n\<rparr> \<and> ri_OrderItemID row = rl_OrderItemID l \<and>
    ri_Quantity row = rl_Quantity l \<and> ri_ReturnID row = rid \<and> ri_OrderID row = oid \<and> item_key row \<notin> item_key ` set (rt_items d)"
proof -
  obtain it row where "InsertReturnItem it d = Inr (row, d')" "ri_OrderItemID it = rl_OrderItemID l"
    "ri_Quantity it = rl_Quantity l" "ri_ReturnID it = rid" "ri_OrderID it = oid"
    using assms by (auto simp: insert_line_def split: if_splits sum.splits)
  then show ?thesis using InsertReturnItem_effect by (metis return_item.select_convs return_item.surjective return_item.update_convs(1))
qed

lemma insert_lines_effect:
  assumes "for_each (insert_line hdr rid oid) ls (acc, d) = Inr (acc', d')" "distinct (map item_key (rt_items d))"
  shows "\<exists>rows n. d' = d\<lparr>rt_items := rt_items d @ rows, rt_next_item := n\<rparr> \<and> map ri_OrderItemID rows = map rl_OrderItemID ls \<and>
    map ri_Quantity rows = map rl_Quantity ls \<and> (\<forall>r \<in> set rows. ri_ReturnID r = rid \<and> ri_OrderID r = oid) \<and>
    distinct (map item_key (rt_items d'))"
  using assms
proof (induction ls arbitrary: acc d)
  case Nil
  then have "d' = d\<lparr>rt_items := rt_items d @ [], rt_next_item := rt_next_item d\<rparr>" by simp
  then show ?case using Nil by fastforce
next
  case (Cons l ls)
  then obtain acc1 d1 where s: "insert_line hdr rid oid l (acc, d) = Inr (acc1, d1)" "for_each (insert_line hdr rid oid) ls (acc1, d1) = Inr (acc', d')"
    by (auto split: sum.splits)
  obtain row n where r: "d1 = d\<lparr>rt_items := rt_items d @ [row], rt_next_item := n\<rparr>" "ri_OrderItemID row = rl_OrderItemID l"
      "ri_Quantity row = rl_Quantity l" "ri_ReturnID row = rid" "ri_OrderID row = oid" "item_key row \<notin> item_key ` set (rt_items d)"
    using insert_line_effect [OF s(1)] by blast
  have "distinct (map item_key (rt_items d1))" using Cons(3) r(1,6) by auto
  from Cons.IH [OF s(2) this] obtain rows m where
    "d' = d1\<lparr>rt_items := rt_items d1 @ rows, rt_next_item := m\<rparr>" "map ri_OrderItemID rows = map rl_OrderItemID ls"
    "map ri_Quantity rows = map rl_Quantity ls" "\<forall>r \<in> set rows. ri_ReturnID r = rid \<and> ri_OrderID r = oid"
    "distinct (map item_key (rt_items d'))"
    by blast
  then show ?case using r by (intro exI [of _ "row # rows"] exI [of _ m]) auto
qed

lemma insert_photos_effect:
  assumes "insert_photos rid keys d = Inr d'"
  shows "\<exists>ps. d' = d\<lparr>rt_photos := ps\<rparr>"
  by (rule for_each_invariant [OF assms [unfolded insert_photos_def]])
    (auto simp: InsertReturnPhoto_def split: if_splits prod.splits intro: exI [of _ "rt_photos d"])

lemma check_lines_sum:
  assumes "for_each (check_line items returned) ls (wrap64 m) = Inr m'"
    "distinct (map oi_ID items)"
  shows "m' = wrap64 (m + (\<Sum>l\<leftarrow>ls. (case List.find (\<lambda>it. oi_ID it = rl_OrderItemID l) items of None \<Rightarrow> 0 | Some oi \<Rightarrow> oi_UnitPriceMinor oi) * rl_Quantity l)) \<and>
    (\<forall>l \<in> set ls. \<exists>oi \<in> set items. oi_ID oi = rl_OrderItemID l \<and> 1 \<le> rl_Quantity l \<and> rl_Quantity l \<le> oi_Qty oi - returned (oi_ID oi))"
  using assms
proof (induction ls arbitrary: m)
  case (Cons l ls)
  obtain oi where oi: "List.find (\<lambda>it. oi_ID it = rl_OrderItemID l) (rev items) = Some oi" "1 \<le> rl_Quantity l" "rl_Quantity l \<le> oi_Qty oi - returned (oi_ID oi)"
      "for_each (check_line items returned) ls (wrap64 (m + oi_UnitPriceMinor oi * rl_Quantity l)) = Inr m'"
    using Cons.prems(1) by (auto simp: check_line_def [of _ _ l] split: option.splits if_splits sum.splits)
  have in_items: "oi \<in> set items" "oi_ID oi = rl_OrderItemID l" using oi(1) by (auto dest!: find_SomeD)
  then have "List.find (\<lambda>it. oi_ID it = rl_OrderItemID l) items = Some oi" using find_distinct_key [OF Cons.prems(2)] by metis
  then show ?case using Cons.IH [OF oi(4) Cons.prems(2)] oi(2,3) in_items by (auto simp: add.assoc)
qed simp

section \<open>The invariant\<close>

definition unit_of :: "order_db \<Rightarrow> int \<Rightarrow> int" where
  "unit_of db k = (case List.find (\<lambda>oi. oi_ID oi = k) (dbo_items db) of None \<Rightarrow> 0 | Some oi \<Rightarrow> oi_UnitPriceMinor oi)"

definition item_value :: "ret_db \<Rightarrow> return_item \<Rightarrow> int" where
  "item_value db i = unit_of (rt_orders db) (ri_OrderItemID i) * ri_Quantity i"

definition items_of :: "ret_db \<Rightarrow> int \<Rightarrow> return_item list" where
  "items_of db rid = filter (\<lambda>i. ri_ReturnID i = rid) (rt_items db)"

text \<open>Every returned item is an item of the order of its return, within the quantity bought, and a return is worth its items.\<close>

definition line_ok :: "ret_db \<Rightarrow> return_item \<Rightarrow> bool" where
  "line_ok db i \<longleftrightarrow> (\<exists>r \<in> set (rt_returns db). rr_ID r = ri_ReturnID i \<and> rr_OrderID r = ri_OrderID i) \<and>
     (\<exists>oi \<in> set (dbo_items (rt_orders db)). oi_ID oi = ri_OrderItemID i \<and> oi_OrderID oi = ri_OrderID i \<and> 1 \<le> ri_Quantity i \<and> ri_Quantity i \<le> oi_Qty oi)"

definition lines_ok :: "ret_db \<Rightarrow> bool" where
  "lines_ok db \<longleftrightarrow> fresh_ids rr_ID (rt_next db) (rt_returns db) \<and> distinct (map item_key (rt_items db)) \<and>
     (\<forall>i \<in> set (rt_items db). line_ok db i) \<and>
     (\<forall>r \<in> set (rt_returns db). rr_RefundAmountMinor r = sum64 (item_value db) (items_of db (rr_ID r)))"

text \<open>The refund events: one per refunded return at most, saying what the return says, and one for every refunded return.\<close>

definition return_rows :: "ret_db \<Rightarrow> outbox_row list" where
  "return_rows db = filter (\<lambda>o'. o_aggregate o' = ''return'') (ob_rows (dbo_outbox (rt_orders db)))"

definition row_for :: "ret_db \<Rightarrow> outbox_row \<Rightarrow> return_request \<Rightarrow> bool" where
  "row_for db row r \<longleftrightarrow> r \<in> set (rt_returns db) \<and> o_idempotency_key row = refunded_event_key (rr_ID r) \<and>
     o_event_type row = ''ecom.return.refunded.v1'' \<and> (\<exists>market. o_payload row = refunded_json r market)"

definition events_ok :: "ret_db \<Rightarrow> bool" where
  "events_ok db \<longleftrightarrow> distinct (map o_idempotency_key (return_rows db)) \<and> (\<forall>row \<in> set (return_rows db). \<exists>r. row_for db row r) \<and>
     (\<forall>r \<in> set (rt_returns db). rr_Status r = ReturnRefunded \<longrightarrow> refunded_event_key (rr_ID r) \<in> o_idempotency_key ` set (return_rows db))"

definition ret_inv :: "ret_db \<Rightarrow> bool" where
  "ret_inv db \<longleftrightarrow> order_inv (rt_orders db) \<and> lines_ok db \<and> events_ok db"

subsection \<open>Updates that keep the cores of the returns\<close>

lemma core_mem:
  assumes "map return_core rs' = map return_core rs @ ys" "r \<in> set rs"
  shows "\<exists>r' \<in> set rs'. return_core r' = return_core r"
  using assms by (metis Un_iff image_iff imageI list.set_map set_append)

lemma core_fields:
  assumes "return_core r' = return_core r"
  shows "rr_ID r' = rr_ID r" "rr_OrderID r' = rr_OrderID r" "rr_UserID r' = rr_UserID r" "rr_RefundAmountMinor r' = rr_RefundAmountMinor r"
    "refunded_json r' m = refunded_json r m"
  using assms by (simp_all add: return_core_def refunded_json_def)

lemma unit_of_grows:
  assumes "dbo_items od' = dbo_items od @ xs" "oi \<in> set (dbo_items od)" "oi_ID oi = k"
  shows "unit_of od' k = unit_of od k"
proof -
  have "List.find (\<lambda>oi. oi_ID oi = k) (dbo_items od) \<noteq> None" using assms(2,3) by (auto simp: find_None_iff2)
  then show ?thesis using assms(1) by (auto simp: unit_of_def find_append)
qed

lemma line_ok_grows: "ret_grows db db' \<Longrightarrow> line_ok db i \<Longrightarrow> line_ok db' i"
  unfolding ret_grows_def line_ok_def by (auto dest!: core_mem) (metis core_fields(1,2))+

lemma item_value_grows: "ret_grows db db' \<Longrightarrow> line_ok db i \<Longrightarrow> item_value db' i = item_value db i"
  unfolding ret_grows_def line_ok_def item_value_def by (auto simp: unit_of_grows)

lemma sum64_items_grows:
  assumes "ret_grows db db'" "\<forall>i \<in> set is. line_ok db i"
  shows "sum64 (item_value db') is = sum64 (item_value db) is"
  using assms item_value_grows by (simp add: sum64_eq cong: map_cong)

lemma lines_ok_same_core:
  assumes "lines_ok db" "ret_grows db db'" "map return_core (rt_returns db') = map return_core (rt_returns db)" "rt_next db' = rt_next db"
    "rt_items db' = rt_items db"
  shows "lines_ok db'"
proof -
  have "map rr_ID (rt_returns db') = map rr_ID (rt_returns db)"
    using arg_cong [OF assms(3), of "map fst"] by (simp add: return_core_def comp_def)
  then have "fresh_ids rr_ID (rt_next db') (rt_returns db')" using assms(1,4) by (simp add: lines_ok_def fresh_ids_def del: set_map)
  moreover have "rr_RefundAmountMinor r = sum64 (item_value db') (items_of db' (rr_ID r))" if r: "r \<in> set (rt_returns db')" for r
  proof -
    obtain r0 where r0: "r0 \<in> set (rt_returns db)" "return_core r0 = return_core r"
      using core_mem [of "rt_returns db" "rt_returns db'" "[]" r] r assms(3) by auto
    have "sum64 (item_value db') (items_of db' (rr_ID r)) = sum64 (item_value db) (items_of db (rr_ID r0))"
      using assms(1,5) core_fields(1) [OF r0(2)] sum64_items_grows [OF assms(2), of "items_of db (rr_ID r0)"] by (simp add: items_of_def lines_ok_def)
    then show ?thesis using assms(1) r0(1) core_fields(4) [OF r0(2)] by (simp add: lines_ok_def)
  qed
  ultimately show ?thesis using assms line_ok_grows by (simp add: lines_ok_def)
qed

lemma row_for_core:
  assumes "row_for db row r" "map return_core (rt_returns db') = map return_core (rt_returns db) @ ys"
  shows "\<exists>r'. row_for db' row r'"
  using core_mem [OF assms(2), of r] assms(1) core_fields(1,5) unfolding row_for_def by metis

lemma events_ok_same_rows:
  assumes "events_ok db" "ret_grows db db'" "return_rows db' = return_rows db"
    "\<And>r'. r' \<in> set (rt_returns db') \<Longrightarrow> rr_Status r' = ReturnRefunded \<Longrightarrow> \<exists>r \<in> set (rt_returns db). rr_Status r = ReturnRefunded \<and> rr_ID r = rr_ID r'"
  shows "events_ok db'"
proof -
  obtain ys where "map return_core (rt_returns db') = map return_core (rt_returns db) @ ys" using assms(2) by (auto simp: ret_grows_def)
  then have "\<exists>r. row_for db' row r" if "row \<in> set (return_rows db)" for row
    using that assms(1) row_for_core unfolding events_ok_def by metis
  moreover have "refunded_event_key (rr_ID r) \<in> o_idempotency_key ` set (return_rows db)"
    if "r \<in> set (rt_returns db')" "rr_Status r = ReturnRefunded" for r
    using assms(1) assms(4) [OF that] unfolding events_ok_def by metis
  ultimately show ?thesis using assms(1,3) by (simp add: events_ok_def)
qed

subsection \<open>Orders\<close>

lemma order_inv_step:
  assumes "ret_inv db" "order_step (rt_orders db) od"
  shows "ret_inv (db\<lparr>rt_orders := od\<rparr>)" "ret_grows db (db\<lparr>rt_orders := od\<rparr>)"
proof -
  have g: "order_grows (rt_orders db) od" using assms(2) by (rule order_step_grows)
  then show r: "ret_grows db (db\<lparr>rt_orders := od\<rparr>)" by (simp add: ret_grows_def order_grows_def)
  have "return_rows (db\<lparr>rt_orders := od\<rparr>) = return_rows db" using g by (auto simp: return_rows_def order_grows_def filter_empty_conv)
  then have "events_ok (db\<lparr>rt_orders := od\<rparr>)" using events_ok_same_rows [OF _ r] assms(1) by (simp add: ret_inv_def) blast
  moreover have "lines_ok (db\<lparr>rt_orders := od\<rparr>)" using lines_ok_same_core [OF _ r] assms(1) by (simp add: ret_inv_def)
  ultimately show "ret_inv (db\<lparr>rt_orders := od\<rparr>)" using assms order_step_inv by (simp add: ret_inv_def)
qed

subsection \<open>Decisions of the seller\<close>

lemma UpdateReturnStatus_core: "map return_core (rt_returns (UpdateReturnStatus now rid st db)) = map return_core (rt_returns db)"
  by (simp add: UpdateReturnStatus_def map_update_where return_core_def)

lemma transition_body_effect:
  assumes "transition_body env rid st note db = Inr (x, db')"
  shows "\<exists>h. db' = (UpdateReturnStatus (rn_now env) rid st db)\<lparr>rt_history := h\<rparr>"
  using assms by (auto simp: transition_body_def InsertReturnStatusHistory_def split: sum.splits if_splits)

lemma update_where_hit: "(\<And>r. P (f r)) \<Longrightarrow> q \<in> set (update_where p f rows) \<Longrightarrow> p q \<Longrightarrow> P q"
  by (auto simp: set_update_where)

lemma SellerReject_cases:
  assumes "SellerReject env pre rid pids code note db = (res, db')"
  obtains (error) "db' = db" | (commit) h where "db' = (UpdateReturnStatus (rn_now env) rid ReturnRejected db)\<lparr>rt_history := h\<rparr>"
proof -
  define n where "n = ''seller rejected: '' @ code @ (if note = [] then [] else '' '' @ map char_of [0xE2, 0x80, 0x94 :: nat] @ '' '' @ note)"
  have t: "transition env pre rid pids ReturnRejected n db = (res, db')" using assms by (simp only: SellerReject_def n_def)
  show thesis
  proof (cases "pending_return env pre rid pids")
    case (Inl e)
    then show ?thesis using t error by (simp add: transition_def)
  next
    case (Inr rec)
    obtain r d where w: "returns_WithTx (rn_outs env) (transition_body env rid ReturnRejected n) db = (r, d)" by fastforce
    have "d = db'" using t w Inr by (simp add: transition_def split: sum.splits)
    from w [unfolded returns_WithTx_def] show ?thesis
      by (cases rule: one_tx_cases) (use \<open>d = db'\<close> error commit transition_body_effect in blast)+
  qed
qed

lemma reject_step:
  assumes "ret_inv db" "SellerReject env pre rid pids code note db = (res, db')"
  shows "ret_inv db' \<and> ret_grows db db'"
  using assms(2)
proof (cases rule: SellerReject_cases)
  case error
  then show ?thesis using assms(1) by simp
next
  case (commit h)
  have c: "map return_core (rt_returns db') = map return_core (rt_returns db)" unfolding commit by (simp add: UpdateReturnStatus_core)
  have o: "rt_orders db' = rt_orders db" "rt_next db' = rt_next db" "rt_items db' = rt_items db" unfolding commit by (simp_all add: UpdateReturnStatus_def)
  have g: "ret_grows db db'" using c o(1) by (simp add: ret_grows_def)
  have s: "\<exists>r \<in> set (rt_returns db). rr_Status r = ReturnRefunded \<and> rr_ID r = rr_ID r'"
    if "r' \<in> set (rt_returns db')" "rr_Status r' = ReturnRefunded" for r'
    using that unfolding commit by (auto simp: UpdateReturnStatus_def set_update_where split: if_splits)
  have "events_ok db'" using assms(1) o(1) unfolding ret_inv_def by (intro events_ok_same_rows [OF _ g _ s]) (simp_all add: return_rows_def)
  moreover have "lines_ok db'" using lines_ok_same_core [OF _ g c] assms(1) o by (simp add: ret_inv_def)
  ultimately show ?thesis using assms(1) g o(1) by (simp add: ret_inv_def)
qed

lemma pending_return_found:
  assumes "pending_return env pre rid pids = Inr rec"
  shows "rec \<in> set (rt_returns pre)" "rr_ID rec = rid" "rr_Status rec = ReturnPending"
  using assms by (auto simp: pending_return_def repo_GetReturn_def split: sum.splits if_splits option.splits dest!: find_SomeD)

lemma approve_body_effect:
  assumes "approve_body env rec market rid db = Inr (x, db')"
  shows "\<exists>h ob. db' = (UpdateReturnStatus (rn_now env) rid ReturnRefunded (UpdateReturnStatus (rn_now env) rid ReturnApproved db))
      \<lparr>rt_history := h, rt_orders := (rt_orders db)\<lparr>dbo_outbox := ob\<rparr>\<rparr> \<and>
    outbox_Insert (rn_now env) (refunded_row rec market) (dbo_outbox (rt_orders db)) = Inr ob"
  using assms by (auto simp: approve_body_def InsertReturnStatusHistory_def UpdateReturnStatus_def split: sum.splits if_splits)

lemma SellerApprove_cases:
  assumes "SellerApprove env pre rid pids db = (res, db')"
  obtains (error) "db' = db" "\<exists>e. res = Inl e" | (commit) rec market where "res = Inr (rec\<lparr>rr_Status := ReturnRefunded\<rparr>)"
    "pending_return env pre rid pids = Inr rec" "approve_body env rec market rid db = Inr ((), db')"
proof -
  consider "db' = db \<and> (\<exists>e. res = Inl e)" | rec ord its where "pending_return env pre rid pids = Inr rec" "repo_GetOrder (rt_orders pre) (rr_OrderID rec) = Inr (ord, its)"
      "(case returns_WithTx (rn_outs env) (approve_body env rec (or_Market ord) rid) db of
         (Inl e, d) \<Rightarrow> (Inl e, d) | (Inr _, d) \<Rightarrow> (Inr (rec\<lparr>rr_Status := ReturnRefunded\<rparr>), d)) = (res, db')"
  proof (cases "pending_return env pre rid pids")
    case (Inl e)
    then have "SellerApprove env pre rid pids db = (Inl (if rn_outbox env then e else RetOutboxNotConfigured), db)" by (simp add: SellerApprove_def)
    then show ?thesis using assms by (intro that(1)) auto
  next
    case (Inr rec)
    then show ?thesis using assms that(1) that(2) [of rec] by (auto simp: SellerApprove_def split: if_splits sum.splits)
  qed
  then show thesis
  proof cases
    case 1
    then show ?thesis using error by blast
  next
    case 2
    obtain r d where w: "returns_WithTx (rn_outs env) (approve_body env rec (or_Market ord) rid) db = (r, d)" by fastforce
    from w [unfolded returns_WithTx_def] show ?thesis
      by (cases rule: one_tx_cases) (use 2 w error commit in auto)
  qed
qed

lemma refunded_key_inj [simp]: "refunded_event_key a = refunded_event_key b \<longleftrightarrow> a = b"
  by (simp add: refunded_event_key_def)

lemma approve_effect:
  assumes "approve_body env rec market rid db = Inr (x, db')" "ret_grows pre db" "rec \<in> set (rt_returns pre)" "rr_ID rec = rid"
  shows "map return_core (rt_returns db') = map return_core (rt_returns db)" "same_orders (rt_orders db) (rt_orders db')"
    "rt_next db' = rt_next db" "rt_items db' = rt_items db"
    "\<exists>row. return_rows db' = return_rows db @ [row] \<and> o_idempotency_key row = refunded_event_key rid \<and> (\<exists>r. row_for db' row r) \<and>
       refunded_event_key rid \<notin> o_idempotency_key ` set (return_rows db)"
    "\<And>r'. r' \<in> set (rt_returns db') \<Longrightarrow> rr_Status r' = ReturnRefunded \<Longrightarrow> rr_ID r' = rid \<or> r' \<in> set (rt_returns db)"
proof -
  obtain h ob where e: "db' = (UpdateReturnStatus (rn_now env) rid ReturnRefunded (UpdateReturnStatus (rn_now env) rid ReturnApproved db))
      \<lparr>rt_history := h, rt_orders := (rt_orders db)\<lparr>dbo_outbox := ob\<rparr>\<rparr>"
      "outbox_Insert (rn_now env) (refunded_row rec market) (dbo_outbox (rt_orders db)) = Inr ob"
    using approve_body_effect [OF assms(1)] by blast
  show c: "map return_core (rt_returns db') = map return_core (rt_returns db)" unfolding e(1) by (simp add: UpdateReturnStatus_core)
  show "same_orders (rt_orders db) (rt_orders db')" "rt_next db' = rt_next db" "rt_items db' = rt_items db"
    unfolding e(1) by (simp_all add: UpdateReturnStatus_def same_orders_def)
  define row where "row = (refunded_row rec market)\<lparr>o_id := ob_next (dbo_outbox (rt_orders db)), o_created_at := rn_now env, o_published_at := None\<rparr>"
  have ob: "ob_rows ob = ob_rows (dbo_outbox (rt_orders db)) @ [row]" "refunded_event_key rid \<notin> o_idempotency_key ` set (return_rows db)"
    using e(2) assms(4) by (auto simp: outbox_Insert_def row_def refunded_row_def return_rows_def find_None_iff2 split: if_splits)
  obtain ys where "map return_core (rt_returns db') = map return_core (rt_returns pre) @ ys" using c assms(2) by (auto simp: ret_grows_def)
  then obtain r where r: "r \<in> set (rt_returns db')" "return_core r = return_core rec" using core_mem assms(3) by blast
  then have "row_for db' row r" using assms(4) core_fields(1) [OF r(2)] core_fields(5) [OF r(2), of market]
    by (auto simp: row_for_def row_def refunded_row_def dest: sym)
  moreover have "return_rows db' = return_rows db @ [row]" using ob(1) by (simp add: return_rows_def e(1) row_def refunded_row_def)
  moreover have "o_idempotency_key row = refunded_event_key rid" using assms(4) by (simp add: row_def refunded_row_def)
  ultimately show "\<exists>row. return_rows db' = return_rows db @ [row] \<and> o_idempotency_key row = refunded_event_key rid \<and> (\<exists>r. row_for db' row r) \<and>
       refunded_event_key rid \<notin> o_idempotency_key ` set (return_rows db)"
    using ob(2) by blast
  show "rr_ID r' = rid \<or> r' \<in> set (rt_returns db)" if "r' \<in> set (rt_returns db')" "rr_Status r' = ReturnRefunded" for r'
  proof -
    have "rt_returns db' = map (\<lambda>r. if rr_ID r = rid then r\<lparr>rr_Status := ReturnRefunded, rr_UpdatedAt := rn_now env\<rparr> else r) (rt_returns db)"
      unfolding e(1) by (simp add: UpdateReturnStatus_def update_where_def)
    then show ?thesis using that(1) by auto
  qed
qed

lemma approve_step:
  assumes "ret_inv db" "ret_grows pre db" "SellerApprove env pre rid pids db = (res, db')"
  shows "ret_inv db' \<and> ret_grows db db'"
  using assms(3)
proof (cases rule: SellerApprove_cases)
  case error
  then show ?thesis using assms(1) by simp
next
  case (commit rec market)
  note f = approve_effect [OF commit(3) assms(2) pending_return_found(1,2) [OF commit(2)]]
  have g: "ret_grows db db'" using f(1,2) by (simp add: ret_grows_def same_orders_def)
  have l: "lines_ok db'" using lines_ok_same_core [OF _ g f(1,3,4)] assms(1) by (simp add: ret_inv_def)
  obtain row where row: "return_rows db' = return_rows db @ [row]" "o_idempotency_key row = refunded_event_key rid" "\<exists>r. row_for db' row r"
      "refunded_event_key rid \<notin> o_idempotency_key ` set (return_rows db)"
    using f(5) by blast
  have "\<exists>r. row_for db' x r" if "x \<in> set (return_rows db)" for x
    using that assms(1) row_for_core [of db x _ db' "[]"] f(1) unfolding ret_inv_def events_ok_def by auto
  moreover have "refunded_event_key (rr_ID r) \<in> o_idempotency_key ` set (return_rows db')"
    if "r \<in> set (rt_returns db')" "rr_Status r = ReturnRefunded" for r
    using f(6) [OF that] that(2) assms(1) row(1,2) unfolding ret_inv_def events_ok_def by auto
  ultimately have "events_ok db'" using row assms(1) by (auto simp: events_ok_def ret_inv_def)
  then show ?thesis using l g assms(1) same_orders_inv [OF f(2)] by (simp add: ret_inv_def)
qed

subsection \<open>Requests of the buyer\<close>

lemma create_body_effect:
  assumes "create_return_body env inp ord lines m db = Inr (x, db')" "distinct (map item_key (rt_items db))"
  shows "\<exists>rec rows. rt_returns db' = rt_returns db @ [rec] \<and> rr_ID rec = rt_next db \<and> rr_OrderID rec = or_ID ord \<and> rr_UserID rec = rx_UserID inp \<and>
    rr_RefundAmountMinor rec = m \<and> rr_Status rec = ReturnPending \<and> rt_next db' = rt_next db + 1 \<and> rt_orders db' = rt_orders db \<and>
    rt_items db' = rt_items db @ rows \<and> map ri_OrderItemID rows = map rl_OrderItemID lines \<and> map ri_Quantity rows = map rl_Quantity lines \<and>
    (\<forall>r \<in> set rows. ri_ReturnID r = rt_next db \<and> ri_OrderID r = or_ID ord) \<and> distinct (map item_key (rt_items db')) \<and> fst x = rec"
proof -
  obtain rec db1 items db2 db3 where b:
    "InsertReturn (rn_now env) \<lparr>rr_ID = 0, rr_OrderID = or_ID ord, rr_UserID = rx_UserID inp, rr_Status = ReturnPending, rr_Reason = rx_Reason inp,
       rr_Description = rx_Description inp, rr_RefundAmountMinor = m, rr_RefundCurrency = or_Currency ord, rr_CreatedAt = 0, rr_UpdatedAt = 0\<rparr> db = Inr (rec, db1)"
    "for_each (insert_line (rx_Reason inp) (rr_ID rec) (or_ID ord)) lines ([], db1) = Inr (items, db2)"
    "InsertReturnStatusHistory (rn_now env) (rr_ID rec) ReturnPending ''submitted'' db2 = Inr db3"
    "insert_photos (rr_ID rec) (rx_PhotoKeys inp) db3 = Inr db'" "fst x = rec"
    using assms(1) by (auto simp: create_return_body_def split: sum.splits prod.splits)
  have i: "db1 = db\<lparr>rt_returns := rt_returns db @ [rec], rt_next := rt_next db + 1\<rparr>" "rr_ID rec = rt_next db" "rr_OrderID rec = or_ID ord"
      "rr_UserID rec = rx_UserID inp" "rr_RefundAmountMinor rec = m" "rr_Status rec = ReturnPending"
    using b(1) by (auto simp: InsertReturn_def Let_def split: if_splits)
  have "distinct (map item_key (rt_items db1))" using i(1) assms(2) by simp
  from insert_lines_effect [OF b(2) this] obtain rows n where r: "db2 = db1\<lparr>rt_items := rt_items db1 @ rows, rt_next_item := n\<rparr>"
      "map ri_OrderItemID rows = map rl_OrderItemID lines" "map ri_Quantity rows = map rl_Quantity lines"
      "\<forall>r \<in> set rows. ri_ReturnID r = rr_ID rec \<and> ri_OrderID r = or_ID ord" "distinct (map item_key (rt_items db2))"
    by blast
  obtain ps where "db' = db3\<lparr>rt_photos := ps\<rparr>" using insert_photos_effect [OF b(4)] by blast
  moreover obtain h where "db3 = db2\<lparr>rt_history := h\<rparr>" using b(3) by (auto simp: InsertReturnStatusHistory_def split: if_splits)
  ultimately show ?thesis using i r b(5) by (intro exI [of _ rec] exI [of _ rows]) simp
qed

lemma CreateReturn_cases:
  assumes "CreateReturn env pre inp db = (res, db')"
  obtains (error) "db' = db" "\<exists>e. res = Inl e" | (commit) ord items returned lines m x where "res = Inr x"
    "validateReturnable env inp pre = Inr (ord, items, returned)" "resolveLines items returned (rx_Items inp) = Inr (lines, m)"
    "create_return_body env inp ord lines m db = Inr (x, db')"
proof -
  consider "db' = db \<and> (\<exists>e. res = Inl e)" | ord items returned lines m where "validateReturnable env inp pre = Inr (ord, items, returned)"
      "resolveLines items returned (rx_Items inp) = Inr (lines, m)"
      "returns_WithTx (rn_outs env) (create_return_body env inp ord lines m) db = (res, db')"
    using assms unfolding CreateReturn_def by (auto split: sum.splits prod.splits)
  then show thesis
  proof cases
    case 1
    then show ?thesis using error by blast
  next
    case 2
    from 2(3) [unfolded returns_WithTx_def] show ?thesis by (cases rule: one_tx_cases) (use 2 error commit in blast)+
  qed
qed

lemma validateReturnable_reads:
  assumes "validateReturnable env inp pre = Inr (ord, items, returned)" "ret_inv pre"
  shows "repo_GetOrder (rt_orders pre) (rx_OrderID inp) = Inr (ord, items)" "or_UserID ord = rx_UserID inp"
    "returned = ReturnedQtyByOrder pre (or_ID ord)" "or_Status ord = StatusDelivered" "0 \<le> returned k"
proof -
  show "repo_GetOrder (rt_orders pre) (rx_OrderID inp) = Inr (ord, items)" "or_UserID ord = rx_UserID inp"
    "or_Status ord = StatusDelivered" and r: "returned = ReturnedQtyByOrder pre (or_ID ord)"
    using assms(1) by (auto simp: validateReturnable_def split: if_splits sum.splits option.splits)
  have "0 \<le> ri_Quantity i" if "i \<in> set (rt_items pre)" for i
    using assms(2) that by (fastforce simp: ret_inv_def lines_ok_def line_ok_def)
  then show "0 \<le> returned k" unfolding r ReturnedQtyByOrder_def by (intro sum_list_nonneg) auto
qed

text \<open>The lines of a request, checked against the older state, as lines of the newest one.\<close>

lemma resolved_lines:
  assumes "validateReturnable env inp pre = Inr (ord, items, returned)" "resolveLines items returned (rx_Items inp) = Inr (lines, m)"
    "ret_inv pre" "ret_inv db" "ret_grows pre db"
  shows "m = wrap64 (\<Sum>l\<leftarrow>lines. unit_of (rt_orders db) (rl_OrderItemID l) * rl_Quantity l)"
    "\<And>l. l \<in> set lines \<Longrightarrow> \<exists>oi \<in> set (dbo_items (rt_orders db)). oi_ID oi = rl_OrderItemID l \<and> oi_OrderID oi = or_ID ord \<and>
       1 \<le> rl_Quantity l \<and> rl_Quantity l \<le> oi_Qty oi"
proof -
  note v = validateReturnable_reads [OF assms(1,3)]
  have items: "items = GetOrderItems (rt_orders pre) (or_ID ord)"
    using order_of_inv(3) [OF _ v(1)] assms(3) by (simp add: ret_inv_def)
  have sub: "set (dbo_items (rt_orders pre)) \<subseteq> set (dbo_items (rt_orders db))" using assms(5) by (auto simp: ret_grows_def)
  have dist: "distinct (map oi_ID (dbo_items (rt_orders db)))" "distinct (map oi_ID items)"
    using assms(3,4) unfolding items GetOrderItems_def ret_inv_def order_inv_def fresh_ids_def by (auto simp: distinct_map_filter)
  have "for_each (check_line items returned) lines (wrap64 0) = Inr m"
    using assms(2) by (auto simp: resolveLines_def Let_def split: if_splits sum.splits)
  note c = check_lines_sum [OF this dist(2)]
  show found: "\<exists>oi \<in> set (dbo_items (rt_orders db)). oi_ID oi = rl_OrderItemID l \<and> oi_OrderID oi = or_ID ord \<and>
       1 \<le> rl_Quantity l \<and> rl_Quantity l \<le> oi_Qty oi" if l: "l \<in> set lines" for l
  proof -
    obtain oi where oi: "oi \<in> set items" "oi_ID oi = rl_OrderItemID l" "1 \<le> rl_Quantity l" "rl_Quantity l \<le> oi_Qty oi - returned (oi_ID oi)"
      using conjunct2 [OF c] l by blast
    have "oi \<in> set (dbo_items (rt_orders db))" "oi_OrderID oi = or_ID ord" using oi(1) sub by (auto simp: items GetOrderItems_def)
    moreover have "rl_Quantity l \<le> oi_Qty oi" using oi(4) v(5) [of "oi_ID oi"] by linarith
    ultimately show ?thesis using oi(2,3) by blast
  qed
  have "(case List.find (\<lambda>it. oi_ID it = rl_OrderItemID l) items of None \<Rightarrow> 0 | Some oi \<Rightarrow> oi_UnitPriceMinor oi) = unit_of (rt_orders db) (rl_OrderItemID l)"
    if l: "l \<in> set lines" for l
  proof -
    obtain oi where oi: "oi \<in> set items" "oi_ID oi = rl_OrderItemID l" using conjunct2 [OF c] l by blast
    have "oi \<in> set (dbo_items (rt_orders db))" using oi(1) sub by (auto simp: items GetOrderItems_def)
    then show ?thesis using find_distinct_key [OF dist(1)] find_distinct_key [OF dist(2)] oi by (simp add: unit_of_def flip: oi(2))
  qed
  then show "m = wrap64 (\<Sum>l\<leftarrow>lines. unit_of (rt_orders db) (rl_OrderItemID l) * rl_Quantity l)"
    using conjunct1 [OF c] by (simp cong: map_cong)
qed

lemma create_step:
  assumes "ret_inv db" "ret_inv pre" "ret_grows pre db" "CreateReturn env pre inp db = (res, db')"
  shows "ret_inv db' \<and> ret_grows db db'"
  using assms(4)
proof (cases rule: CreateReturn_cases)
  case error
  then show ?thesis using assms(1) by simp
next
  case (commit ord items returned lines m x)
  have l: "lines_ok db" using assms(1) by (simp add: ret_inv_def)
  then have d: "distinct (map item_key (rt_items db))" by (simp add: lines_ok_def)
  obtain rec rows where e: "rt_returns db' = rt_returns db @ [rec]" "rr_ID rec = rt_next db" "rr_OrderID rec = or_ID ord"
      "rr_RefundAmountMinor rec = m" "rr_Status rec = ReturnPending" "rt_next db' = rt_next db + 1" "rt_orders db' = rt_orders db"
      "rt_items db' = rt_items db @ rows" "map ri_OrderItemID rows = map rl_OrderItemID lines" "map ri_Quantity rows = map rl_Quantity lines"
      "\<forall>r \<in> set rows. ri_ReturnID r = rt_next db \<and> ri_OrderID r = or_ID ord" "distinct (map item_key (rt_items db'))"
    using create_body_effect [OF commit(4) d] by blast
  note r = resolved_lines [OF commit(2,3) assms(2,1,3)]
  have g: "ret_grows db db'" using e(1,7) by (simp add: ret_grows_def)
  have ids: "fresh_ids rr_ID (rt_next db') (rt_returns db')" using l e(1,2,6) by (simp add: lines_ok_def fresh_ids_append)
  have rows: "line_ok db' i" if i: "i \<in> set rows" for i
  proof -
    have "(ri_OrderItemID i, ri_Quantity i) \<in> set (zip (map ri_OrderItemID rows) (map ri_Quantity rows))" using i by (auto simp: zip_map_map zip_same)
    then obtain k where k: "k \<in> set lines" "rl_OrderItemID k = ri_OrderItemID i" "rl_Quantity k = ri_Quantity i"
      unfolding e(9,10) by (auto simp: zip_map_map zip_same)
    show ?thesis using r(2) [OF k(1)] e(1,2,3,7,11) i k(2,3) by (auto simp: line_ok_def)
  qed
  have new: "rr_RefundAmountMinor rec = sum64 (item_value db') (items_of db' (rr_ID rec))"
  proof -
    have "ri_ReturnID i \<noteq> rt_next db" if "i \<in> set (rt_items db)" for i
      using l that by (fastforce simp: lines_ok_def line_ok_def fresh_ids_def)
    then have "items_of db' (rr_ID rec) = rows" using e(2,8,11) by (auto simp: items_of_def filter_empty_conv intro: filter_True)
    moreover have "map (item_value db') rows = map (\<lambda>(k, q). unit_of (rt_orders db) k * q) (zip (map ri_OrderItemID rows) (map ri_Quantity rows))"
      by (auto simp: zip_map_map zip_same_conv_map item_value_def e(7))
    moreover have "\<dots> = map (\<lambda>l. unit_of (rt_orders db) (rl_OrderItemID l) * rl_Quantity l) lines"
      unfolding e(9,10) by (auto simp: zip_map_map zip_same_conv_map)
    ultimately show ?thesis using e(4) r(1) by (simp add: sum64_eq)
  qed
  have old: "rr_RefundAmountMinor q = sum64 (item_value db') (items_of db' (rr_ID q))" if q: "q \<in> set (rt_returns db)" for q
  proof -
    have "rr_ID q \<noteq> rt_next db" using l q by (auto simp: lines_ok_def fresh_ids_def)
    then have "items_of db' (rr_ID q) = items_of db (rr_ID q)" using e(8,11) by (auto simp: items_of_def filter_empty_conv)
    moreover have "sum64 (item_value db') (items_of db (rr_ID q)) = sum64 (item_value db) (items_of db (rr_ID q))"
      using l by (intro sum64_items_grows [OF g]) (auto simp: items_of_def lines_ok_def)
    ultimately show ?thesis using l q by (simp add: lines_ok_def)
  qed
  have "lines_ok db'" unfolding lines_ok_def using ids e(12) new old rows l line_ok_grows [OF g] by (auto simp: e(1,8) lines_ok_def)
  moreover have "events_ok db'"
    using assms(1) e(1,5,7) unfolding ret_inv_def by (intro events_ok_same_rows [OF _ g]) (auto simp: return_rows_def)
  ultimately show ?thesis using assms(1) e(7) g by (simp add: ret_inv_def)
qed

definition run_ok :: "ret_db list \<Rightarrow> bool" where
  "run_ok h \<longleftrightarrow> h \<noteq> [] \<and> (\<forall>pre \<in> set h. ret_inv pre \<and> ret_grows pre (hd h))"

lemma run_extend: "run_ok (db # h) \<Longrightarrow> ret_inv db' \<Longrightarrow> ret_grows db db' \<Longrightarrow> run_ok (db' # db # h)"
  unfolding run_ok_def by (auto intro: ret_grows_trans)

lemma run_okD: "run_ok (db # h) \<Longrightarrow> ret_inv db" "run_ok (db # h) \<Longrightarrow> pre \<in> set (db # h) \<Longrightarrow> ret_inv pre \<and> ret_grows pre db"
  by (auto simp: run_ok_def)

lemma ret_run_ok:
  assumes "ret_run db0 h" "ret_inv db0"
  shows "run_ok h"
  using assms
proof (induction rule: ret_run.induct)
  case start
  then show ?case by (simp add: run_ok_def)
next
  case (order db h od)
  then have "ret_inv db" by (blast dest: run_okD(1))
  from order_inv_step [OF this order(2)] show ?case using run_extend order(3,4) by blast
next
  case (create db h pre env inp res db')
  then have "ret_inv db" "ret_inv pre" "ret_grows pre db" by (blast dest: run_okD)+
  from create_step [OF this create(3)] show ?case using run_extend create(4,5) by blast
next
  case (approve db h pre env rid pids res db')
  then have "ret_inv db" "ret_grows pre db" by (blast dest: run_okD)+
  from approve_step [OF this approve(3)] show ?case using run_extend approve(4,5) by blast
next
  case (reject db h pre env rid pids code nt res db')
  then have "ret_inv db" by (blast dest: run_okD(1))
  from reject_step [OF this reject(3)] show ?case using run_extend reject(4,5) by blast
qed

section \<open>The refunds of an order\<close>

text \<open>A row is the only one with its key.\<close>

lemma filter_distinct_key: "distinct (map k rows) \<Longrightarrow> r \<in> set rows \<Longrightarrow> filter (\<lambda>x. k x = k r) rows = [r]"
proof (induction rows)
  case (Cons x xs)
  then show ?case by (cases "x = r") (auto simp: image_iff filter_empty_conv)
qed simp

definition order_returns :: "ret_db \<Rightarrow> int \<Rightarrow> return_request list" where
  "order_returns db i = filter (\<lambda>r. rr_OrderID r = i) (rt_returns db)"

definition order_lines :: "ret_db \<Rightarrow> int \<Rightarrow> return_item list" where
  "order_lines db i = filter (\<lambda>l. ri_OrderID l = i) (rt_items db)"

lemma order_item_unit:
  assumes "order_inv od" "oi \<in> set (dbo_items od)"
  shows "unit_of od (oi_ID oi) = oi_UnitPriceMinor oi"
  using assms find_distinct_key [of oi_ID "dbo_items od" oi] by (simp add: unit_of_def order_inv_def fresh_ids_def)

lemma line_value_bounds:
  assumes "ret_inv db" "l \<in> set (rt_items db)"
  shows "\<exists>oi \<in> set (GetOrderItems (rt_orders db) (ri_OrderID l)). oi_ID oi = ri_OrderItemID l \<and> 0 \<le> item_value db l \<and> item_value db l \<le> item_gross oi"
proof -
  obtain oi where oi: "oi \<in> set (dbo_items (rt_orders db))" "oi_ID oi = ri_OrderItemID l" "oi_OrderID oi = ri_OrderID l"
      "1 \<le> ri_Quantity l" "ri_Quantity l \<le> oi_Qty oi"
    using assms unfolding ret_inv_def lines_ok_def line_ok_def by blast
  have inv: "order_inv (rt_orders db)" using assms(1) by (simp add: ret_inv_def)
  then have "0 \<le> oi_UnitPriceMinor oi" using oi(1) by (auto simp: order_inv_def item_ok_def)
  moreover have "item_value db l = oi_UnitPriceMinor oi * ri_Quantity l" using order_item_unit [OF inv oi(1)] oi(2) by (simp add: item_value_def)
  ultimately show ?thesis using oi by (intro bexI [of _ oi]) (auto simp: item_gross_def GetOrderItems_def intro: mult_left_mono)
qed

lemma returned_value_within:
  assumes "ret_inv db"
  shows "(\<Sum>l \<in> set (order_lines db i). item_value db l) \<le> sum_list (map item_gross (GetOrderItems (rt_orders db) i))"
proof -
  define S where "S = set (order_lines db i)"
  define I where "I = set (GetOrderItems (rt_orders db) i)"
  have dist: "distinct (map oi_ID (dbo_items (rt_orders db)))" "distinct (map item_key (rt_items db))"
    using assms by (auto simp: ret_inv_def order_inv_def fresh_ids_def lines_ok_def)
  have "\<forall>l \<in> S. \<exists>oi \<in> I. oi_ID oi = ri_OrderItemID l \<and> 0 \<le> item_value db l \<and> item_value db l \<le> item_gross oi"
    using line_value_bounds [OF assms] by (fastforce simp: S_def I_def order_lines_def)
  then obtain f where f: "\<And>l. l \<in> S \<Longrightarrow> f l \<in> I \<and> oi_ID (f l) = ri_OrderItemID l \<and> item_value db l \<le> item_gross (f l)" by metis
  have "inj_on f S"
  proof (rule inj_onI)
    fix a b assume ab: "a \<in> S" "b \<in> S" "f a = f b"
    then have "item_key a = item_key b" using f [OF ab(1)] f [OF ab(2)] by (simp add: item_key_def S_def order_lines_def)
    then show "a = b" using dist(2) ab(1,2) by (auto simp: distinct_map S_def order_lines_def dest: inj_onD)
  qed
  then have "(\<Sum>l \<in> S. item_gross (f l)) = sum item_gross (f ` S)" by (simp add: sum.reindex)
  also have "\<dots> \<le> sum item_gross I"
  proof (rule sum_mono2)
    show "0 \<le> item_gross oi" if "oi \<in> I - f ` S" for oi
      using assms that by (auto simp: ret_inv_def order_inv_def item_ok_def item_gross_def I_def GetOrderItems_def)
  qed (use f in \<open>auto simp: I_def\<close>)
  also have "\<dots> = sum_list (map item_gross (GetOrderItems (rt_orders db) i))"
    using dist(1) unfolding I_def GetOrderItems_def by (simp add: sum_list_distinct_conv_sum_set distinct_map)
  finally show ?thesis using f sum_mono [of S "item_value db" "\<lambda>l. item_gross (f l)"] by (fastforce simp: S_def)
qed

lemma refund_amount:
  assumes "ret_inv db" "r \<in> set (order_returns db i)" "in_range (GetOrderItems (rt_orders db) i)"
  shows "rr_RefundAmountMinor r = (\<Sum>l \<in> set (items_of db (rr_ID r)). item_value db l)" "set (items_of db (rr_ID r)) \<subseteq> set (order_lines db i)"
proof -
  have r: "r \<in> set (rt_returns db)" "rr_OrderID r = i" using assms(2) by (auto simp: order_returns_def)
  have l: "lines_ok db" using assms(1) by (simp add: ret_inv_def)
  have "rr_OrderID q = rr_OrderID r" if "q \<in> set (rt_returns db)" "rr_ID q = rr_ID r" for q
    using l that r(1) by (auto simp: lines_ok_def fresh_ids_def distinct_map dest: inj_onD)
  then show sub: "set (items_of db (rr_ID r)) \<subseteq> set (order_lines db i)"
    using l r(2) by (fastforce simp: items_of_def order_lines_def lines_ok_def line_ok_def)
  have pos: "0 \<le> item_value db x" if "x \<in> set (rt_items db)" for x using line_value_bounds [OF assms(1) that] by blast
  have d: "distinct (items_of db (rr_ID r))" using l by (simp add: lines_ok_def items_of_def distinct_map)
  have e: "sum_list (map (item_value db) (items_of db (rr_ID r))) = (\<Sum>l \<in> set (items_of db (rr_ID r)). item_value db l)"
    using d by (rule sum_list_distinct_conv_sum_set)
  also have "\<dots> \<le> (\<Sum>l \<in> set (order_lines db i). item_value db l)"
    using sub pos by (intro sum_mono2) (auto simp: order_lines_def)
  also have "\<dots> \<le> max_i64" using returned_value_within [OF assms(1), of i] assms(3) by (simp add: in_range_def)
  finally have "sum64 (item_value db) (items_of db (rr_ID r)) = sum_list (map (item_value db) (items_of db (rr_ID r)))"
    using pos by (intro sum64_exact) (auto simp: items_of_def)
  then show "rr_RefundAmountMinor r = (\<Sum>l \<in> set (items_of db (rr_ID r)). item_value db l)"
    using e l r(1) by (simp add: lines_ok_def)
qed

lemma refunds_within:
  assumes "ret_inv db" "repo_GetOrder (rt_orders db) i = Inr (ord, items)" "in_range items"
  shows "sum_list (map rr_RefundAmountMinor (order_returns db i)) \<le> or_TotalMinor ord" "\<forall>r \<in> set (order_returns db i). 0 \<le> rr_RefundAmountMinor r"
proof -
  have inv: "order_inv (rt_orders db)" using assms(1) by (simp add: ret_inv_def)
  have items: "items = GetOrderItems (rt_orders db) i" using order_of_inv(1,3) [OF inv assms(2)] by simp
  note amount = refund_amount [OF assms(1) _ assms(3) [unfolded items]]
  have pos: "0 \<le> item_value db x" if "x \<in> set (rt_items db)" for x using line_value_bounds [OF assms(1) that] by blast
  then show "\<forall>r \<in> set (order_returns db i). 0 \<le> rr_RefundAmountMinor r" using amount(1) by (auto intro!: sum_nonneg simp: items_of_def)
  define R where "R = set (order_returns db i)"
  have ids: "distinct (map rr_ID (rt_returns db))" using assms(1) by (simp add: ret_inv_def lines_ok_def fresh_ids_def)
  then have "sum_list (map rr_RefundAmountMinor (order_returns db i)) = sum rr_RefundAmountMinor R"
    unfolding R_def order_returns_def by (intro sum_list_distinct_conv_sum_set) (simp add: distinct_map)
  also have "\<dots> = (\<Sum>r \<in> R. \<Sum>l \<in> set (items_of db (rr_ID r)). item_value db l)" using amount(1) by (simp add: R_def)
  also have "\<dots> = (\<Sum>l \<in> (\<Union>r \<in> R. set (items_of db (rr_ID r))). item_value db l)"
    using ids by (intro sum.UNION_disjoint [symmetric]) (auto simp: R_def order_returns_def items_of_def distinct_map dest: inj_onD)
  also have "\<dots> \<le> (\<Sum>l \<in> set (order_lines db i). item_value db l)"
    using amount(2) pos by (intro sum_mono2) (fastforce simp: R_def order_lines_def)+
  also have "\<dots> \<le> or_TotalMinor ord"
    using returned_value_within [OF assms(1), of i] order_total_exact(1) [OF inv assms(2,3)] by (simp add: items)
  finally show "sum_list (map rr_RefundAmountMinor (order_returns db i)) \<le> or_TotalMinor ord" .
qed

section \<open>The refund events\<close>

definition refund_events :: "ret_db \<Rightarrow> refund_event list" where
  "refund_events db = List.map_filter (\<lambda>row. decode_refunded (rowToEvent row)) (return_rows db)"

lemma decode_row_for:
  assumes "row_for db row r"
  shows "\<exists>m. decode_refunded (rowToEvent row) = Some \<lparr>rf_ReturnID = rr_ID r, rf_OrderID = rr_OrderID r, rf_UserID = rr_UserID r,
    rf_RefundAmountMinor = rr_RefundAmountMinor r, rf_Market = m\<rparr>"
  using assms by (auto simp: row_for_def decode_refunded_def refunded_json_def rowToEvent_def jint_def jstr_def Let_def)

lemma refund_events_returns:
  assumes "ret_inv db"
  shows "\<exists>rs. set rs \<subseteq> set (rt_returns db) \<and> distinct (map rr_ID rs) \<and>
    map (\<lambda>e. (rf_ReturnID e, rf_OrderID e, rf_UserID e, rf_RefundAmountMinor e)) (refund_events db) = map (\<lambda>r. (rr_ID r, rr_OrderID r, rr_UserID r, rr_RefundAmountMinor r)) rs \<and>
    (\<forall>r \<in> set (rt_returns db). rr_Status r = ReturnRefunded \<longrightarrow> r \<in> set rs)"
proof -
  have ev: "events_ok db" using assms by (simp add: ret_inv_def)
  then obtain f where f: "\<And>row. row \<in> set (return_rows db) \<Longrightarrow> row_for db row (f row)" unfolding events_ok_def by metis
  define rs where "rs = map f (return_rows db)"
  have keys: "map o_idempotency_key (return_rows db) = map refunded_event_key (map rr_ID rs)" using f by (auto simp: rs_def row_for_def)
  then have "distinct (map rr_ID rs)" using ev by (simp add: events_ok_def distinct_map del: map_map)
  moreover have "set rs \<subseteq> set (rt_returns db)" using f by (auto simp: rs_def row_for_def)
  moreover have "map (\<lambda>e. (rf_ReturnID e, rf_OrderID e, rf_UserID e, rf_RefundAmountMinor e)) (List.map_filter (\<lambda>row. decode_refunded (rowToEvent row)) rows) =
      map (\<lambda>row. (rr_ID (f row), rr_OrderID (f row), rr_UserID (f row), rr_RefundAmountMinor (f row))) rows" if "set rows \<subseteq> set (return_rows db)" for rows
    using that
  proof (induction rows)
    case (Cons row rows)
    then show ?case using decode_row_for [OF f, of row] by (auto simp: map_filter_simps)
  qed (simp add: map_filter_simps)
  moreover have "r \<in> set rs" if r: "r \<in> set (rt_returns db)" "rr_Status r = ReturnRefunded" for r
  proof -
    have "refunded_event_key (rr_ID r) \<in> set (map o_idempotency_key (return_rows db))" using ev r by (simp add: events_ok_def)
    then obtain q where "q \<in> set rs" "rr_ID q = rr_ID r" unfolding keys by auto
    moreover have "distinct (map rr_ID (rt_returns db))" using assms by (simp add: ret_inv_def lines_ok_def fresh_ids_def)
    ultimately show ?thesis using r(1) \<open>set rs \<subseteq> set (rt_returns db)\<close> by (auto simp: distinct_map dest: inj_onD)
  qed
  ultimately show ?thesis by (intro exI [of _ rs]) (simp add: refund_events_def rs_def comp_def)
qed

section \<open>An item with a return\<close>

lemma returned_qty:
  assumes "ret_inv db" "i \<in> set (rt_items db)"
  shows "ReturnedQtyByOrder db (ri_OrderID i) (ri_OrderItemID i) = ri_Quantity i"
proof -
  have d: "distinct (map item_key (rt_items db))" using assms(1) by (simp add: ret_inv_def lines_ok_def)
  have "filter (\<lambda>x. ri_OrderID x = ri_OrderID i \<and> ri_OrderItemID x = ri_OrderItemID i) (rt_items db) = filter (\<lambda>x. item_key x = item_key i) (rt_items db)"
    by (simp add: item_key_def)
  then show ?thesis unfolding ReturnedQtyByOrder_def by (simp add: filter_distinct_key [OF d assms(2)])
qed

lemma named_item_refused:
  assumes "i \<in> set (rt_items db)" "ri_OrderID i = rx_OrderID inp" "rl_OrderItemID l = ri_OrderItemID i" "l \<in> set (rx_Items inp)"
    "ret_inv db"
  shows "\<exists>e. CreateReturn env db inp db = (Inl e, db)"
proof (cases "CreateReturn env db inp db")
  case (Pair res db')
  from Pair show ?thesis
  proof (cases rule: CreateReturn_cases)
    case (commit ord items returned lines m x)
    have d: "distinct (map item_key (rt_items db))" using assms(5) by (simp add: ret_inv_def lines_ok_def)
    obtain rows where r: "rt_items db' = rt_items db @ rows" "map ri_OrderItemID rows = map rl_OrderItemID lines"
        "\<forall>r \<in> set rows. ri_OrderID r = or_ID ord" "distinct (map item_key (rt_items db'))"
      using create_body_effect [OF commit(4) d] by blast
    have "repo_GetOrder (rt_orders db) (rx_OrderID inp) = Inr (ord, items)" using validateReturnable_reads(1) [OF commit(2) assms(5)] .
    then have o: "or_ID ord = rx_OrderID inp" using order_of_inv(1) assms(5) by (auto simp: ret_inv_def)
    have "lines = rx_Items inp" using commit(3) assms(4) by (auto simp: resolveLines_def Let_def split: if_splits sum.splits)
    then have "ri_OrderItemID i \<in> set (map ri_OrderItemID rows)" using assms(3,4) unfolding r(2) by force
    then obtain q where "q \<in> set rows" "ri_OrderItemID q = ri_OrderItemID i" by auto
    then have "item_key q = item_key i" "q \<in> set rows" using r(3) o assms(2) by (simp_all add: item_key_def)
    then show ?thesis using r(1,4) assms(1) by (metis disjoint_iff distinct_append imageI list.set_map map_append)
  qed (use Pair in auto)
qed

section \<open>Properties\<close>

text \<open>
  C8. Refunds never exceed the order. Whatever buyers and sellers do, in any order and with any reads that were out
  of date when the operation committed, the refund events of an order add up to no more than its returns, and these
  to no more than the order charged, provided no sum of the order overflows.
\<close>

theorem refunds_within_order:
  assumes "ret_inv db0" "ret_run db0 (db # h)" "repo_GetOrder (rt_orders db) i = Inr (ord, items)" "in_range items"
  shows "sum_list (map rf_RefundAmountMinor (filter (\<lambda>e. rf_OrderID e = i) (refund_events db))) \<le> sum_list (map rr_RefundAmountMinor (order_returns db i)) \<and>
    sum_list (map rr_RefundAmountMinor (order_returns db i)) \<le> or_TotalMinor ord"
proof -
  have inv: "ret_inv db" using ret_run_ok [OF assms(2,1)] by (rule run_okD(1))
  note w = refunds_within [OF inv assms(3,4)]
  obtain rs where rs: "set rs \<subseteq> set (rt_returns db)" "distinct (map rr_ID rs)"
      "map (\<lambda>e. (rf_ReturnID e, rf_OrderID e, rf_UserID e, rf_RefundAmountMinor e)) (refund_events db) = map (\<lambda>r. (rr_ID r, rr_OrderID r, rr_UserID r, rr_RefundAmountMinor r)) rs"
    using refund_events_returns [OF inv] by blast
  have "map rf_RefundAmountMinor (filter (\<lambda>e. rf_OrderID e = i) (refund_events db)) =
      map (\<lambda>(_, _, _, a). a) (filter (\<lambda>(_, q, _, _). q = i) (map (\<lambda>e. (rf_ReturnID e, rf_OrderID e, rf_UserID e, rf_RefundAmountMinor e)) (refund_events db)))"
    by (simp add: filter_map comp_def)
  also have "\<dots> = map rr_RefundAmountMinor (filter (\<lambda>r. rr_OrderID r = i) rs)" unfolding rs(3) by (simp add: filter_map comp_def)
  also have "sum_list \<dots> = sum rr_RefundAmountMinor (set (filter (\<lambda>r. rr_OrderID r = i) rs))"
    using rs(2) by (intro sum_list_distinct_conv_sum_set) (simp add: distinct_map)
  also have "\<dots> \<le> sum rr_RefundAmountMinor (set (order_returns db i))"
    using rs(1) w(2) by (intro sum_mono2) (auto simp: order_returns_def)
  also have "\<dots> = sum_list (map rr_RefundAmountMinor (order_returns db i))"
    using inv by (intro sum_list_distinct_conv_sum_set [symmetric]) (simp add: ret_inv_def lines_ok_def fresh_ids_def order_returns_def distinct_map)
  finally show ?thesis using w(1) by simp
qed

text \<open>
  C13. A refunded return is paid out once. In every state of a run, a return that is refunded has exactly one event in
  the outbox, and refund settlement decodes it with the return's own order, buyer and amount.
\<close>

theorem refund_event_exact:
  assumes "ret_inv db0" "ret_run db0 (db # h)" "r \<in> set (rt_returns db)" "rr_Status r = ReturnRefunded"
  shows "map (\<lambda>e. (rf_OrderID e, rf_UserID e, rf_RefundAmountMinor e)) (filter (\<lambda>e. rf_ReturnID e = rr_ID r) (refund_events db)) =
    [(rr_OrderID r, rr_UserID r, rr_RefundAmountMinor r)]"
proof -
  have inv: "ret_inv db" using ret_run_ok [OF assms(2,1)] by (rule run_okD(1))
  obtain rs where rs: "distinct (map rr_ID rs)" "r \<in> set rs"
      "map (\<lambda>e. (rf_ReturnID e, rf_OrderID e, rf_UserID e, rf_RefundAmountMinor e)) (refund_events db) = map (\<lambda>r. (rr_ID r, rr_OrderID r, rr_UserID r, rr_RefundAmountMinor r)) rs"
    using refund_events_returns [OF inv] assms(3,4) by blast
  have "map (\<lambda>e. (rf_OrderID e, rf_UserID e, rf_RefundAmountMinor e)) (filter (\<lambda>e. rf_ReturnID e = rr_ID r) (refund_events db)) =
      map snd (filter (\<lambda>x. fst x = rr_ID r) (map (\<lambda>e. (rf_ReturnID e, rf_OrderID e, rf_UserID e, rf_RefundAmountMinor e)) (refund_events db)))"
    by (simp add: filter_map comp_def)
  also have "\<dots> = map (\<lambda>q. (rr_OrderID q, rr_UserID q, rr_RefundAmountMinor q)) (filter (\<lambda>q. rr_ID q = rr_ID r) rs)"
    unfolding rs(3) by (simp add: filter_map comp_def)
  also have "filter (\<lambda>q. rr_ID q = rr_ID r) rs = [r]" using rs(1,2) by (rule filter_distinct_key)
  finally show ?thesis by simp
qed

text \<open>
  C40. A rejection can follow the payment. When a seller's rejection read the return while it was pending and commits after an
  approval of it, the return ends rejected although its refund event is in the outbox and will be settled.
\<close>

theorem approve_reject_race:
  assumes "SellerApprove env db rid pids db = (Inr rec, db1)" "pending_return env' db rid pids' = Inr rec'" "rn_outs env' = []"
  shows "\<exists>db2 r. SellerReject env' db rid pids' code nt db1 = (Inr r, db2) \<and> rr_Status r = ReturnRejected \<and>
    (\<forall>q \<in> set (rt_returns db2). rr_ID q = rid \<longrightarrow> rr_Status q = ReturnRejected) \<and>
    refunded_event_key rid \<in> o_idempotency_key ` set (return_rows db2)"
  using assms(1)
proof (cases rule: SellerApprove_cases)
  case (commit q market)
  note f = approve_effect [OF commit(3) ret_grows_refl pending_return_found(1,2) [OF commit(2)]]
  define n where "n = ''seller rejected: '' @ code @ (if nt = [] then [] else '' '' @ map char_of [0xE2, 0x80, 0x94 :: nat] @ '' '' @ nt)"
  define u where "u = UpdateReturnStatus (rn_now env') rid ReturnRejected db1"
  have "rid \<in> rr_ID ` set (rt_returns db)" using pending_return_found(1,2) [OF commit(2)] by blast
  moreover have "rr_ID ` set (rt_returns db1) = rr_ID ` set (rt_returns db)"
    using arg_cong [OF f(1), of "\<lambda>xs. fst ` set xs"] by (simp add: return_core_def image_image)
  moreover have "rr_ID ` set (rt_returns u) = rr_ID ` set (rt_returns db1)"
    using arg_cong [OF UpdateReturnStatus_core [of "rn_now env'" rid ReturnRejected db1], of "\<lambda>xs. fst ` set xs"] by (simp add: return_core_def image_image u_def)
  ultimately have "rid \<in> rr_ID ` set (rt_returns u)" by simp
  then have "List.find (\<lambda>r. rr_ID r = rid) (rt_returns u) \<noteq> None" by (auto simp: find_None_iff2)
  then obtain h where h: "transition_body env' rid ReturnRejected n db1 = Inr ((), u\<lparr>rt_history := h\<rparr>)"
    by (auto simp: transition_body_def InsertReturnStatusHistory_def u_def)
  have "SellerReject env' db rid pids' code nt db1 = (Inr (rec'\<lparr>rr_Status := ReturnRejected\<rparr>), u\<lparr>rt_history := h\<rparr>)"
    unfolding SellerReject_def n_def [symmetric] using assms(2,3) h by (simp add: transition_def returns_WithTx_def one_tx_quiet)
  moreover have "\<forall>q \<in> set (rt_returns u). rr_ID q = rid \<longrightarrow> rr_Status q = ReturnRejected"
    using update_where_hit [where P = "\<lambda>q. rr_Status q = ReturnRejected" and p = "\<lambda>r. rr_ID r = rid" and rows = "rt_returns db1" and
        f = "\<lambda>r. r\<lparr>rr_Status := ReturnRejected, rr_UpdatedAt := rn_now env'\<rparr>"]
    unfolding u_def UpdateReturnStatus_def by simp
  moreover have "return_rows (u\<lparr>rt_history := h\<rparr>) = return_rows db1" by (simp add: return_rows_def u_def UpdateReturnStatus_def)
  moreover have "refunded_event_key rid \<in> o_idempotency_key ` set (return_rows db1)" using f(5) by force
  ultimately show ?thesis by (intro exI [of _ "u\<lparr>rt_history := h\<rparr>"] exI [of _ "rec'\<lparr>rr_Status := ReturnRejected\<rparr>"]) simp
qed auto

text \<open>
  No seller can decide on a return in the deployed schema. With no \<^verbatim>\<open>product_id\<close> column on the order items, both
  approving and rejecting fail, whatever the return, and nothing changes.
\<close>

theorem deployed_schema_blocks_decisions:
  assumes "rn_product env = None"
  shows "(\<exists>e. SellerApprove env pre rid pids db = (Inl e, db)) \<and> (\<exists>e. SellerReject env pre rid pids code nt db = (Inl e, db))"
proof -
  have "\<exists>e. pending_return env pre rid pids = Inl e"
    using assms by (auto simp: pending_return_def returnOwnedBySeller_def ReturnProductIDs_def split: sum.splits)
  then show ?thesis by (auto simp: SellerApprove_def SellerReject_def transition_def)
qed

text \<open>
  An offered return is refused. Once some units of an item were asked back, whatever became of that request, the
  remaining units stay among the returnable items that \<^verbatim>\<open>ComputeActions\<close> offers, but every request that names the item fails:
  a line of the same order and item exists.
\<close>

theorem offered_return_refused:
  assumes "ret_inv db0" "ret_run db0 (db # h)" "repo_GetOrder (rt_orders db) (rx_OrderID inp) = Inr (ord, items)"
    "or_Status ord = StatusDelivered" "or_DeliveredAt ord = Some t" "rn_qty_ok env" "oi \<in> set items"
    "i \<in> set (rt_items db)" "item_key i = (rx_OrderID inp, oi_ID oi)" "ri_Quantity i < oi_Qty oi" "l \<in> set (rx_Items inp)" "rl_OrderItemID l = oi_ID oi"
  shows "(oi_ID oi, oi_Qty oi - ri_Quantity i) \<in> set (oa_ReturnableItems (snd (ComputeActions env ord items db))) \<and> (\<exists>e. CreateReturn env db inp db = (Inl e, db))"
proof -
  have inv: "ret_inv db" using ret_run_ok [OF assms(2,1)] by (rule run_okD(1))
  have "or_ID ord = rx_OrderID inp" using order_of_inv(1) [OF _ assms(3)] inv by (simp add: ret_inv_def)
  then have "ReturnedQtyByOrder db (or_ID ord) (oi_ID oi) = ri_Quantity i" using returned_qty [OF inv assms(8)] assms(9) by (simp add: item_key_def)
  then have "(oi_ID oi, oi_Qty oi - ri_Quantity i) \<in> set (returnable_items (ReturnedQtyByOrder db (or_ID ord)) items)"
    using assms(7,10) by (auto simp: returnable_items_def Let_def intro!: bexI [of _ oi])
  then have "(oi_ID oi, oi_Qty oi - ri_Quantity i) \<in> set (oa_ReturnableItems (snd (ComputeActions env ord items db)))"
    using assms(4-6) by (simp add: ComputeActions_def Let_def)
  then show ?thesis using named_item_refused [OF assms(8) _ _ assms(11) inv] assms(9,12) by (simp add: item_key_def)
qed


section \<open>A return in the shop\<close>

text \<open>A delivered order with two units of an item; one unit is returned and refunded.\<close>

definition ret_orders_ex :: order_db where
  "ret_orders_ex = \<lparr>dbo_orders = [\<lparr>or_ID = 2, or_UserID = 70, or_SellerID = 81, or_CheckoutSessionID = [], or_Status = StatusDelivered, or_SubtotalMinor = 1800,
     or_ShippingMinor = 0, or_ShippingPayer = [], or_DiscountMinor = 180, or_CouponCode = [], or_CouponDiscountMinor = 180, or_TotalMinor = 1620, or_Currency = ''TRY'',
     or_Market = ''TR'', or_DeliveredAt = Some 200, or_CashbackEligible = True, or_CashbackCurrency = ''TRY_COIN'', or_IdempotencyKey = ''k2'', or_CreatedAt = 100,
     or_UpdatedAt = 200\<rparr>], dbo_next_order = 3,
   dbo_items = [\<lparr>oi_ID = 2, oi_OrderID = 2, oi_VariantID = 5, oi_SellerID = 81, oi_CategoryID = 1, oi_Qty = 2, oi_UnitPriceMinor = 810, oi_ListUnitPriceMinor = 900,
     oi_BasketDiscountPct = 0, oi_UnitPriceCurrency = ''TRY'', oi_CommissionPctBps = 1500, oi_KdvPctBps = 0, oi_CommissionAmountMinor = 243, oi_KdvAmountMinor = 0,
     oi_SellerNetMinor = 1377\<rparr>], dbo_next_item = 3, dbo_sessions = [], dbo_coupons = [], dbo_redemptions = [], dbo_addresses = [],
   dbo_outbox = \<lparr>ob_rows = [], ob_next = 1\<rparr>\<rparr>"

definition ret_db0 :: ret_db where
  "ret_db0 = \<lparr>rt_orders = ret_orders_ex, rt_returns = [], rt_next = 1, rt_items = [], rt_next_item = 1, rt_history = [], rt_photos = []\<rparr>"

definition ret_env_ex :: ret_env where
  "ret_env_ex = \<lparr>rn_now = 300, rn_qty_ok = True, rn_outs = [], rn_product = Some (\<lambda>_. 7), rn_outbox = True\<rparr>"

definition ret_input_ex :: return_input where
  "ret_input_ex = \<lparr>rx_OrderID = 2, rx_UserID = 70, rx_Reason = ''damaged'', rx_Description = [],
     rx_Items = [\<lparr>rl_OrderItemID = 2, rl_Quantity = 1, rl_Reason = [], rl_Note = []\<rparr>], rx_PhotoKeys = []\<rparr>"

definition ret_db1 :: ret_db where
  "ret_db1 = snd (CreateReturn ret_env_ex ret_db0 ret_input_ex ret_db0)"

definition ret_db2 :: ret_db where
  "ret_db2 = snd (SellerApprove ret_env_ex ret_db1 1 [7] ret_db1)"

lemma ret_db0_inv: "ret_inv ret_db0"
proof -
  have "order_inv ret_orders_ex"
    by (simp add: order_inv_def ret_orders_ex_def fresh_ids_def item_ok_def order_ok_def GetOrderItems_def item_charge_def sum64_eq wrap64_def)
  moreover have "lines_ok ret_db0" "events_ok ret_db0" by (simp_all add: lines_ok_def events_ok_def return_rows_def ret_db0_def ret_orders_ex_def fresh_ids_def)
  ultimately show ?thesis by (simp add: ret_inv_def) (simp add: ret_db0_def)
qed

lemma ret_run1: "ret_run ret_db0 [ret_db1, ret_db0]"
  using ret_run.create [OF ret_run.start, of ret_db0 _ ret_env_ex ret_input_ex "fst (CreateReturn ret_env_ex ret_db0 ret_input_ex ret_db0)" ret_db1]
  by (simp add: ret_db1_def)

lemma ret_run2: "ret_run ret_db0 [ret_db2, ret_db1, ret_db0]"
  using ret_run.approve [OF ret_run1, of ret_db1 ret_env_ex 1 "[7]" "fst (SellerApprove ret_env_ex ret_db1 1 [7] ret_db1)" ret_db2]
  by (simp add: ret_db2_def)

lemma ret_db2_eval:
  "map (\<lambda>r. (rr_ID r, rr_OrderID r, rr_UserID r, rr_RefundAmountMinor r, rr_Status r)) (rt_returns ret_db2) = [(1, 2, 70, 810, ReturnRefunded)]"
  "map rf_RefundAmountMinor (filter (\<lambda>e. rf_OrderID e = 2) (refund_events ret_db2)) = [810]"
  "(case repo_GetOrder (rt_orders ret_db2) 2 of Inl e \<Rightarrow> False | Inr (ord, items) \<Rightarrow> or_TotalMinor ord = 1620 \<and> in_range items)"
  by code_simp+

theorem refunds_within_order_witness:
  "sum_list (map rf_RefundAmountMinor (filter (\<lambda>e. rf_OrderID e = 2) (refund_events ret_db2))) = 810 \<and>
   sum_list (map rr_RefundAmountMinor (order_returns ret_db2 2)) \<le> 1620"
proof -
  obtain ord items where o: "repo_GetOrder (rt_orders ret_db2) 2 = Inr (ord, items)" "or_TotalMinor ord = 1620" "in_range items"
    using ret_db2_eval(3) by (auto split: sum.splits)
  show ?thesis using refunds_within_order [OF ret_db0_inv ret_run2 o(1,3)] o(2) ret_db2_eval(2) by simp
qed

theorem refund_event_exact_witness:
  "map (\<lambda>e. (rf_OrderID e, rf_UserID e, rf_RefundAmountMinor e)) (filter (\<lambda>e. rf_ReturnID e = 1) (refund_events ret_db2)) = [(2, 70, 810)]"
proof -
  obtain r where "rt_returns ret_db2 = [r]" "(rr_ID r, rr_OrderID r, rr_UserID r, rr_RefundAmountMinor r, rr_Status r) = (1, 2, 70, 810, ReturnRefunded)"
    using ret_db2_eval(1) by (auto simp: map_eq_Cons_conv)
  then show ?thesis using refund_event_exact [OF ret_db0_inv ret_run2, of r] by simp
qed

lemma ret_approve_eval: "\<exists>rec. SellerApprove ret_env_ex ret_db1 1 [7] ret_db1 = (Inr rec, ret_db2)"
proof -
  have "\<not> isl (fst (SellerApprove ret_env_ex ret_db1 1 [7] ret_db1))" by code_simp
  then show ?thesis by (metis prod.collapse ret_db2_def sum.collapse(2))
qed

lemma ret_pending_eval: "\<exists>rec. pending_return ret_env_ex ret_db1 1 [7] = Inr rec"
proof -
  have "\<not> isl (pending_return ret_env_ex ret_db1 1 [7])" by code_simp
  then show ?thesis by (metis sum.collapse(2))
qed

theorem approve_reject_race_witness:
  "\<exists>db r. SellerReject ret_env_ex ret_db1 1 [7] ''late'' [] ret_db2 = (Inr r, db) \<and> rr_Status r = ReturnRejected \<and>
     refunded_event_key 1 \<in> o_idempotency_key ` set (return_rows db)"
proof -
  obtain rec rec' where r: "SellerApprove ret_env_ex ret_db1 1 [7] ret_db1 = (Inr rec, ret_db2)" "pending_return ret_env_ex ret_db1 1 [7] = Inr rec'"
    using ret_approve_eval ret_pending_eval by blast
  have "rn_outs ret_env_ex = []" by (simp add: ret_env_ex_def)
  from approve_reject_race [OF r this] show ?thesis by blast
qed

theorem deployed_schema_blocks_decisions_witness:
  "\<exists>e. SellerApprove (ret_env_ex\<lparr>rn_product := None\<rparr>) ret_db1 1 [7] ret_db1 = (Inl e, ret_db1)"
  using deployed_schema_blocks_decisions [of "ret_env_ex\<lparr>rn_product := None\<rparr>" ret_db1 1 "[7]" ret_db1] by simp

lemma ret_db1_eval:
  "(case repo_GetOrder (rt_orders ret_db1) 2 of Inl e \<Rightarrow> False | Inr (ord, items) \<Rightarrow>
     or_Status ord = StatusDelivered \<and> or_DeliveredAt ord = Some 200 \<and> map (\<lambda>oi. (oi_ID oi, oi_Qty oi)) items = [(2, 2)])"
  "map (\<lambda>i. (item_key i, ri_Quantity i)) (rt_items ret_db1) = [((2, 2), 1)]"
  by code_simp+

theorem offered_return_refused_witness:
  "\<exists>ord items. (2, 1) \<in> set (oa_ReturnableItems (snd (ComputeActions ret_env_ex ord items ret_db1))) \<and>
     (\<exists>e. CreateReturn ret_env_ex ret_db1 ret_input_ex ret_db1 = (Inl e, ret_db1))"
proof -
  obtain ord oi where o: "repo_GetOrder (rt_orders ret_db1) 2 = Inr (ord, [oi])" "or_Status ord = StatusDelivered" "or_DeliveredAt ord = Some 200"
      "oi_ID oi = 2" "oi_Qty oi = 2"
    using ret_db1_eval(1) by (auto split: sum.splits simp: map_eq_Cons_conv)
  obtain i where i: "rt_items ret_db1 = [i]" "item_key i = (2, 2)" "ri_Quantity i = 1" using ret_db1_eval(2) by (auto simp: map_eq_Cons_conv)
  have "(oi_ID oi, oi_Qty oi - ri_Quantity i) \<in> set (oa_ReturnableItems (snd (ComputeActions ret_env_ex ord [oi] ret_db1))) \<and>
      (\<exists>e. CreateReturn ret_env_ex ret_db1 ret_input_ex ret_db1 = (Inl e, ret_db1))"
    by (rule offered_return_refused [OF ret_db0_inv ret_run1, where t = 200 and l = "\<lparr>rl_OrderItemID = 2, rl_Quantity = 1, rl_Reason = [], rl_Note = []\<rparr>"])
      (use o i in \<open>simp_all add: ret_input_ex_def ret_env_ex_def\<close>)
  then show ?thesis using o i by auto
qed

end
