(* ===== verification/Sipay.thy ===== *)
theory Sipay
  imports Orders
begin

text \<open>
  The Sipay client and adapter: \<^verbatim>\<open>internal/payment/domain.go\<close>, \<^verbatim>\<open>errors.go\<close>, \<^verbatim>\<open>service.go\<close> and
  \<^verbatim>\<open>internal/payment/sipay/{client,adapter,hmac}.go\<close>. The provider is a parameter: what each HTTP round trip
  returns. Logs and metrics are left out. \<open>sha256\<close> and \<open>sha512\<close> stand for the base64 of the two digests.
\<close>

section \<open>Types\<close>

datatype payment_event_type = PaymentEventCaptured | PaymentEventFailed | PaymentEventRefunded

datatype payment_status = PaymentStatusPending | PaymentStatusCaptured | PaymentStatusFailed | PaymentStatusRefunded | PaymentStatusUnknown

record payment_event =
  ve_Type :: payment_event_type
  ve_OrderID :: int
  ve_ProviderRef :: string
  ve_ProviderOrderNo :: string
  ve_AmountMinor :: int
  ve_Currency :: string
  ve_OccurredAt :: instant
  ve_FailureReason :: string
  ve_RefundRef :: string

record initiate_payment_request =
  ip_OrderID :: int
  ip_AmountMinor :: int
  ip_Currency :: string
  ip_IdempotencyKey :: string
  ip_BuyerName :: string
  ip_BuyerSurname :: string
  ip_BuyerEmail :: string
  ip_Market :: string
  ip_ReturnURL :: string
  ip_CancelURL :: string
  ip_Installments :: int

record initiate_payment_response =
  ipr_ProviderRef :: string
  ipr_ThreeDSHTML :: string
  ipr_ThreeDSURL :: string
  ipr_ExpiresAt :: instant

record payment_intent =
  pa_ID :: int
  pa_OrderID :: int
  pa_IdempotencyKey :: string
  pa_Provider :: string
  pa_ProviderRef :: string
  pa_ProviderOrderNo :: string
  pa_Status :: payment_status
  pa_AmountMinor :: int
  pa_Currency :: string
  pa_CapturedAt :: "instant option"
  pa_FailedAt :: "instant option"
  pa_FailureReason :: string
  pa_RefundedAt :: "instant option"
  pa_RefundRef :: string
  pa_RefundAmountMinor :: int
  pa_CreatedAt :: instant
  pa_UpdatedAt :: instant
  pa_ExpiresAt :: "instant option"

record sipay_config =
  cfg_BaseURL :: string
  cfg_MerchantKey :: string
  cfg_AppID :: string
  cfg_AppSecret :: string
  cfg_MerchantID :: string
  cfg_ReturnURL :: string
  cfg_CancelURL :: string
  cfg_Environment :: string

datatype pay_error =
    ErrProviderNotImplemented | ErrInvalidSignature | ErrPaymentNotFound | ErrPaymentAlreadyCaptured | ErrInvalidAmount | ErrPayInstallments
  | ErrProviderRequired | ErrUnknownProvider | ErrProviderNotRegistered
  | PayCircuitOpen | PayToken | PayCall | PayHTTP int | PayDecode | PayContext | PayRefused int | PayConfig
  | PayQuery | PayConstraint | PayOutbox outbox_error | PayTx "pay_error tx_error" | PayOrder order_error

section \<open>Signatures\<close>

definition ComputeHashKey :: "(string \<Rightarrow> string) \<Rightarrow> string \<Rightarrow> string \<Rightarrow> string \<Rightarrow> string \<Rightarrow> string \<Rightarrow> string" where
  "ComputeHashKey sha512 merchantKey statusCode invoiceID totalAmount currencyCode =
     sha512 (merchantKey @ statusCode @ invoiceID @ totalAmount @ currencyCode)"

record payment3d_sign_fields =
  sf_Total :: string
  sf_Installment :: string
  sf_CurrencyCode :: string
  sf_MerchantKey :: string
  sf_InvoiceID :: string
  sf_AppSecret :: string

definition SignPayment3D :: "(string \<Rightarrow> string) \<Rightarrow> payment3d_sign_fields \<Rightarrow> string" where
  "SignPayment3D sha256 f = sha256 (sf_Total f @ sf_Installment f @ sf_CurrencyCode f @ sf_MerchantKey f @ sf_InvoiceID f @ sf_AppSecret f)"

definition SignGetToken :: "(string \<Rightarrow> string) \<Rightarrow> string \<Rightarrow> string \<Rightarrow> string \<Rightarrow> string" where
  "SignGetToken sha256 appID appSecret merchantID = sha256 (appID @ appSecret @ merchantID)"

definition SignWebhook :: "(string \<Rightarrow> string) \<Rightarrow> string \<Rightarrow> string \<Rightarrow> string \<Rightarrow> string \<Rightarrow> string \<Rightarrow> string" where
  "SignWebhook sha512 merchantKey statusCode invoiceID totalAmount currencyCode = ComputeHashKey sha512 merchantKey statusCode invoiceID totalAmount currencyCode"

section \<open>Configuration\<close>

definition has_prefix :: "string \<Rightarrow> string \<Rightarrow> bool" where
  "has_prefix s p \<longleftrightarrow> take (length p) s = p"

definition contains :: "string \<Rightarrow> string \<Rightarrow> bool" where
  "contains s sub \<longleftrightarrow> list_ex (\<lambda>i. has_prefix (drop i s) sub) [0..<length s + 1]"

definition validateConfig :: "sipay_config \<Rightarrow> pay_error option" where
  "validateConfig cfg =
     (if cfg_BaseURL cfg = [] then Some PayConfig
      else if cfg_MerchantKey cfg = [] then Some PayConfig
      else if cfg_Environment cfg = ''production'' \<and>
              (\<not> contains (cfg_BaseURL cfg) ''provisioning.sipay.com.tr'' \<or>
               has_prefix (cfg_MerchantKey cfg) ''test_'' \<or> has_prefix (cfg_MerchantKey cfg) ''sandbox_'') then Some PayConfig
      else None)"

section \<open>Circuit breaker and token cache\<close>

datatype cb_state = CbClosed | CbOpen | CbHalfOpen

record circuit_breaker =
  cb_state :: cb_state
  cb_failures :: int
  cb_openedAt :: instant

definition cbThreshold :: int where
  "cbThreshold = 5"

definition cbTimeout :: int where
  "cbTimeout = 30 * 10 ^ 9"

definition tokenTTL :: int where
  "tokenTTL = 25 * 60 * 10 ^ 9"

definition newCircuitBreaker :: circuit_breaker where
  "newCircuitBreaker = \<lparr>cb_state = CbClosed, cb_failures = 0, cb_openedAt = 0\<rparr>"

definition allow :: "instant \<Rightarrow> circuit_breaker \<Rightarrow> bool \<times> circuit_breaker" where
  "allow now cb =
     (if cb_state cb = CbOpen
      then (if now - cb_openedAt cb < cbTimeout then (False, cb) else (True, cb\<lparr>cb_state := CbHalfOpen\<rparr>))
      else (True, cb))"

definition recordSuccess :: "circuit_breaker \<Rightarrow> circuit_breaker" where
  "recordSuccess cb = cb\<lparr>cb_state := CbClosed, cb_failures := 0\<rparr>"

definition recordFailure :: "instant \<Rightarrow> circuit_breaker \<Rightarrow> bool \<times> circuit_breaker" where
  "recordFailure now cb =
     (let cb1 = cb\<lparr>cb_failures := wrap64 (cb_failures cb + 1)\<rparr> in
      if cb_state cb1 \<noteq> CbOpen \<and> cb_failures cb1 \<ge> cbThreshold then (True, cb1\<lparr>cb_state := CbOpen, cb_openedAt := now\<rparr>) else (False, cb1))"

record token_cache =
  tk_token :: string
  tk_expiresAt :: instant

definition tokens_get :: "instant \<Rightarrow> token_cache \<Rightarrow> string option" where
  "tokens_get now tc = (if tk_token tc = [] \<or> now > tk_expiresAt tc then None else Some (tk_token tc))"

definition tokens_set :: "instant \<Rightarrow> string \<Rightarrow> token_cache \<Rightarrow> token_cache" where
  "tokens_set now token tc = tc\<lparr>tk_token := token, tk_expiresAt := now + tokenTTL\<rparr>"

definition tokens_invalidate :: "token_cache \<Rightarrow> token_cache" where
  "tokens_invalidate tc = tc\<lparr>tk_token := []\<rparr>"

section \<open>Requests\<close>

text \<open>
  The mutable part of the adapter, with the requests it sent to the provider. The breaker and the token cache are behind
  mutexes of their own; a request is modelled as running alone.
\<close>

record sipay_state =
  sx_cb :: circuit_breaker
  sx_tokens :: token_cache
  sx_sent :: "(string \<times> json) list"

text \<open>What the provider answers: no response, or an HTTP status with a body that is JSON or not.\<close>

datatype http_result = HttpError | HttpResponse int "json option"

text \<open>
  The clock and the answers of the provider by attempt: the token endpoint, the endpoint called, and whether the context ends
  during the back-off.
\<close>

record sipay_env =
  sh_now :: "nat \<Rightarrow> instant"
  sh_token :: "nat \<Rightarrow> http_result"
  sh_call :: "nat \<Rightarrow> string \<Rightarrow> string \<Rightarrow> json \<Rightarrow> http_result"
  sh_cancelled :: "nat \<Rightarrow> bool"

definition jobj :: "string \<Rightarrow> json \<Rightarrow> json option" where
  "jobj k j = (case jfield k j of None \<Rightarrow> None | Some JNull \<Rightarrow> Some (JObj []) | Some (JObj fs) \<Rightarrow> Some (JObj fs) | Some _ \<Rightarrow> None)"

text \<open>A response with a status code, a message and a string in \<^verbatim>\<open>data\<close>.\<close>

definition decode_data :: "string \<Rightarrow> json \<Rightarrow> (int \<times> string) option" where
  "decode_data k j =
     (case (jint ''status_code'' j, jstr ''message'' j, jobj ''data'' j) of
        (Some code, Some _, Some data) \<Rightarrow> (case jstr k data of Some v \<Rightarrow> Some (code, v) | None \<Rightarrow> None)
      | _ \<Rightarrow> None)"

definition fetchToken :: "sipay_env \<Rightarrow> nat \<Rightarrow> sipay_state \<Rightarrow> (pay_error + string) \<times> sipay_state" where
  "fetchToken env k st =
     (case sh_token env k of
        HttpError \<Rightarrow> (Inl PayToken, st)
      | HttpResponse _ None \<Rightarrow> (Inl PayDecode, st)
      | HttpResponse _ (Some raw) \<Rightarrow>
          (case decode_data ''token'' raw of
             None \<Rightarrow> (Inl PayDecode, st)
           | Some (code, token) \<Rightarrow>
               if code \<noteq> 100 \<or> token = [] then (Inl (PayRefused code), st)
               else (Inr token, st\<lparr>sx_tokens := tokens_set (sh_now env k) token (sx_tokens st)\<rparr>)))"

definition getToken :: "sipay_env \<Rightarrow> nat \<Rightarrow> sipay_state \<Rightarrow> (pay_error + string) \<times> sipay_state" where
  "getToken env k st =
     (case tokens_get (sh_now env k) (sx_tokens st) of Some tok \<Rightarrow> (Inr tok, st) | None \<Rightarrow> fetchToken env k st)"

record attempt_result =
  ar_raw :: "json option"
  ar_httpStatus :: int
  ar_err :: bool
  ar_tokenInvalidate :: bool

definition doAttempt :: "sipay_env \<Rightarrow> string \<Rightarrow> string \<Rightarrow> json \<Rightarrow> nat \<Rightarrow> sipay_state \<Rightarrow> attempt_result \<times> sipay_state" where
  "doAttempt env path tok body attempt st =
     (let st1 = st\<lparr>sx_sent := sx_sent st @ [(path, body)]\<rparr> in
      case sh_call env attempt path tok body of
        HttpError \<Rightarrow> (\<lparr>ar_raw = None, ar_httpStatus = 0, ar_err = True, ar_tokenInvalidate = False\<rparr>, st1)
      | HttpResponse status raw \<Rightarrow>
          (\<lparr>ar_raw = raw, ar_httpStatus = status, ar_err = False, ar_tokenInvalidate = (status = 401 \<and> attempt = 0)\<rparr>, st1))"

datatype attempt_decision = DecisionSuccess | DecisionRetry "pay_error option"

definition inspect :: "instant \<Rightarrow> attempt_result \<Rightarrow> sipay_state \<Rightarrow> attempt_decision \<times> sipay_state" where
  "inspect now res st =
     (if ar_tokenInvalidate res then (DecisionRetry None, st\<lparr>sx_tokens := tokens_invalidate (sx_tokens st)\<rparr>)
      else if ar_err res then (DecisionRetry (Some PayCall), st\<lparr>sx_cb := snd (recordFailure now (sx_cb st))\<rparr>)
      else if ar_httpStatus res < 200 \<or> ar_httpStatus res \<ge> 300
      then (DecisionRetry (Some (PayHTTP (ar_httpStatus res))), st\<lparr>sx_cb := snd (recordFailure now (sx_cb st))\<rparr>)
      else (DecisionSuccess, st))"

text \<open>
  The loop over the attempts, from number \<open>attempt\<close> with \<open>left\<close> to go; \<open>lastErr\<close> is what it returns when none is
  left. A nil error after the last attempt would be returned as success with an empty response: \<open>None\<close>.
\<close>

fun attempts :: "sipay_env \<Rightarrow> bool \<Rightarrow> (json \<Rightarrow> 'a option) \<Rightarrow> string \<Rightarrow> json \<Rightarrow> nat \<Rightarrow> nat \<Rightarrow> pay_error option \<Rightarrow> sipay_state
    \<Rightarrow> (pay_error + 'a option) \<times> sipay_state" where
  "attempts env idem dec path body attempt 0 lastErr st = ((case lastErr of Some e \<Rightarrow> Inl e | None \<Rightarrow> Inr None), st)"
| "attempts env idem dec path body attempt (Suc left) lastErr st =
     (if attempt > 0 \<and> idem \<and> sh_cancelled env attempt then (Inl PayContext, st)
      else (case getToken env attempt st of
        (Inl e, st1) \<Rightarrow> (Inl e, st1)
      | (Inr tok, st1) \<Rightarrow>
          (case doAttempt env path tok body attempt st1 of
             (res, st2) \<Rightarrow>
               (case inspect (sh_now env attempt) res st2 of
                  (DecisionSuccess, st3) \<Rightarrow>
                    (case Option.bind (ar_raw res) dec of
                       None \<Rightarrow> (Inl PayDecode, st3)
                     | Some v \<Rightarrow> (Inr (Some v), st3\<lparr>sx_cb := recordSuccess (sx_cb st3)\<rparr>))
                | (DecisionRetry decErr, st3) \<Rightarrow>
                    (if \<not> idem \<and> decErr \<noteq> None \<and> \<not> ar_tokenInvalidate res then (Inl (the decErr), st3)
                     else attempts env idem dec path body (attempt + 1) left decErr st3)))))"

definition maxAttempts :: nat where
  "maxAttempts = 2"

definition maxReadAttempts :: nat where
  "maxReadAttempts = 3"

definition doJSONWithOpts :: "sipay_env \<Rightarrow> (json \<Rightarrow> 'a option) \<Rightarrow> string \<Rightarrow> json \<Rightarrow> bool \<Rightarrow> sipay_state \<Rightarrow> (pay_error + 'a option) \<times> sipay_state" where
  "doJSONWithOpts env dec path payload idem st =
     (case allow (sh_now env 0) (sx_cb st) of
        (False, cb) \<Rightarrow> (Inl PayCircuitOpen, st\<lparr>sx_cb := cb\<rparr>)
      | (True, cb) \<Rightarrow> attempts env idem dec path payload 0 (if idem then maxReadAttempts else maxAttempts) None (st\<lparr>sx_cb := cb\<rparr>))"

definition doJSON :: "sipay_env \<Rightarrow> (json \<Rightarrow> 'a option) \<Rightarrow> string \<Rightarrow> json \<Rightarrow> sipay_state \<Rightarrow> (pay_error + 'a option) \<times> sipay_state" where
  "doJSON env dec path payload st = doJSONWithOpts env dec path payload False st"

section \<open>Decimal numbers\<close>

text \<open>
  \<^verbatim>\<open>strconv.ParseInt(s, 10, 64)\<close> with its error dropped: 0 for text that is no number, the nearest bound for a number
  out of range.
\<close>

definition is_digit :: "char \<Rightarrow> bool" where
  "is_digit c \<longleftrightarrow> 48 \<le> (of_char c :: nat) \<and> (of_char c :: nat) \<le> 57"

definition ParseInt64 :: "string \<Rightarrow> int" where
  "ParseInt64 s =
     (let neg = (s \<noteq> [] \<and> hd s = CHR ''-''); ds = (if s \<noteq> [] \<and> (hd s = CHR ''-'' \<or> hd s = CHR ''+'') then tl s else s) in
      if ds = [] \<or> \<not> list_all is_digit ds then 0
      else if neg then max min_i64 (- int (dec_val ds)) else min max_i64 (int (dec_val ds)))"

section \<open>The adapter\<close>

definition quote :: char where
  "quote = char_of (34 :: nat)"

text \<open>The first match of \<^verbatim>\<open>action="([^"]+)"\<close>.\<close>

fun extractFormAction :: "string \<Rightarrow> string" where
  "extractFormAction [] = []"
| "extractFormAction (c # cs) =
     (let p = ''action='' @ [quote]; rest = drop (length p) (c # cs) in
      if has_prefix (c # cs) p \<and> takeWhile (\<lambda>x. x \<noteq> quote) rest \<noteq> [] \<and> dropWhile (\<lambda>x. x \<noteq> quote) rest \<noteq> []
      then takeWhile (\<lambda>x. x \<noteq> quote) rest
      else extractFormAction cs)"

definition init_pay_json :: "(string \<Rightarrow> string) \<Rightarrow> sipay_config \<Rightarrow> initiate_payment_request \<Rightarrow> int \<Rightarrow> json" where
  "init_pay_json sha256 cfg req installments =
     JObj [(''invoice_id'', JStr (ip_IdempotencyKey req)), (''total_amount'', JStr (itoa (ip_AmountMinor req))),
       (''currency_code'', JStr (ip_Currency req)), (''merchant_id'', JStr (cfg_MerchantID cfg)),
       (''return_url'', JStr (if ip_ReturnURL req = [] then cfg_ReturnURL cfg else ip_ReturnURL req)),
       (''cancel_url'', JStr (if ip_CancelURL req = [] then cfg_CancelURL cfg else ip_CancelURL req)),
       (''cc_holder_name'', JStr (ip_BuyerName req @ '' '' @ ip_BuyerSurname req)), (''invoice_description'', JStr (ip_BuyerEmail req)),
       (''market'', JStr (ip_Market req)), (''installments_number'', JStr (itoa installments)),
       (''hash_key'', JStr (SignPayment3D sha256 \<lparr>sf_Total = itoa (ip_AmountMinor req), sf_Installment = itoa installments,
          sf_CurrencyCode = ip_Currency req, sf_MerchantKey = cfg_MerchantKey cfg, sf_InvoiceID = ip_IdempotencyKey req,
          sf_AppSecret = cfg_AppSecret cfg\<rparr>))]"

definition decode_initiate :: "json \<Rightarrow> (int \<times> string) option" where
  "decode_initiate j =
     (case (decode_data ''invoice_id'' j, decode_data ''ccform'' j) of (Some _, Some r) \<Rightarrow> Some r | _ \<Rightarrow> None)"

definition thirty_minutes :: int where
  "thirty_minutes = 30 * 60 * 10 ^ 9"

text \<open>A response left at its zero value.\<close>

definition response :: "(int \<times> string) option \<Rightarrow> int \<times> string" where
  "response r = (case r of None \<Rightarrow> (0, []) | Some d \<Rightarrow> d)"

definition call_psp :: "sipay_env \<Rightarrow> (json \<Rightarrow> (int \<times> string) option) \<Rightarrow> string \<Rightarrow> json \<Rightarrow> sipay_state \<Rightarrow> (pay_error + string) \<times> sipay_state" where
  "call_psp env dec path payload st =
     (case doJSON env dec path payload st of
        (Inl e, st1) \<Rightarrow> (Inl e, st1)
      | (Inr r, st1) \<Rightarrow> if fst (response r) \<noteq> 100 then (Inl (PayRefused (fst (response r))), st1) else (Inr (snd (response r)), st1))"

text \<open>\<open>lookup\<close> is the repository's lookup by idempotency key.\<close>

definition InitiatePayment :: "sipay_env \<Rightarrow> (string \<Rightarrow> string) \<Rightarrow> sipay_config \<Rightarrow> (string \<Rightarrow> pay_error + payment_intent) \<Rightarrow> initiate_payment_request \<Rightarrow> sipay_state
    \<Rightarrow> (pay_error + initiate_payment_response) \<times> sipay_state" where
  "InitiatePayment env sha256 cfg lookup req st =
     (if ip_AmountMinor req \<le> 0 then (Inl ErrInvalidAmount, st)
      else (case lookup (ip_IdempotencyKey req) of
        Inr existing \<Rightarrow>
          (Inr \<lparr>ipr_ProviderRef = pa_ProviderRef existing, ipr_ThreeDSHTML = [], ipr_ThreeDSURL = [],
                ipr_ExpiresAt = pa_CreatedAt existing + thirty_minutes\<rparr>, st)
      | Inl e \<Rightarrow>
          if e \<noteq> ErrPaymentNotFound then (Inl e, st)
          else (case NormalizeInstallments (ip_Installments req) of
            Inl _ \<Rightarrow> (Inl ErrPayInstallments, st)
          | Inr installments \<Rightarrow>
              (case call_psp env decode_initiate ''/ccpayment/api/paySmart3D'' (init_pay_json sha256 cfg req installments) st of
                 (Inl e, st1) \<Rightarrow> (Inl e, st1)
               | (Inr html, st1) \<Rightarrow>
                   (Inr \<lparr>ipr_ProviderRef = ip_IdempotencyKey req, ipr_ThreeDSHTML = html, ipr_ThreeDSURL = extractFormAction html,
                         ipr_ExpiresAt = sh_now env 0 + thirty_minutes\<rparr>, st1)))))"

record webhook_body =
  wb_StatusCode :: int
  wb_InvoiceID :: string
  wb_OrderNo :: string
  wb_TotalAmount :: string
  wb_CurrencyCode :: string
  wb_ErrorMessage :: string

definition decode_webhook :: "json \<Rightarrow> webhook_body option" where
  "decode_webhook j =
     (case (jint ''status_code'' j, jstr ''invoice_id'' j, jstr ''order_no'' j, jstr ''total_amount'' j, jstr ''currency_code'' j,
            jstr ''hash_key'' j, jstr ''error_message'' j) of
        (Some code, Some invoice, Some no, Some amount, Some cur, Some _, Some msg) \<Rightarrow>
          Some \<lparr>wb_StatusCode = code, wb_InvoiceID = invoice, wb_OrderNo = no, wb_TotalAmount = amount, wb_CurrencyCode = cur, wb_ErrorMessage = msg\<rparr>
      | _ \<Rightarrow> None)"

definition webhook_type :: "int \<Rightarrow> payment_event_type" where
  "webhook_type code =
     (if code = 100 then PaymentEventCaptured else if code = 200 \<or> code = 201 then PaymentEventRefunded else PaymentEventFailed)"

text \<open>The event's order is never resolved: \<^verbatim>\<open>OrderID\<close> keeps its zero value.\<close>

definition ConfirmWebhook :: "(string \<Rightarrow> string) \<Rightarrow> sipay_config \<Rightarrow> instant \<Rightarrow> json \<Rightarrow> string \<Rightarrow> pay_error + payment_event" where
  "ConfirmWebhook sha512 cfg now rawBody sig =
     (case decode_webhook rawBody of
        None \<Rightarrow> Inl PayDecode
      | Some wh \<Rightarrow>
          if sig \<noteq> ComputeHashKey sha512 (cfg_MerchantKey cfg) (itoa (wb_StatusCode wh)) (wb_InvoiceID wh) (wb_TotalAmount wh) (wb_CurrencyCode wh)
          then Inl ErrInvalidSignature
          else Inr \<lparr>ve_Type = webhook_type (wb_StatusCode wh), ve_OrderID = 0, ve_ProviderRef = wb_InvoiceID wh, ve_ProviderOrderNo = wb_OrderNo wh,
                    ve_AmountMinor = ParseInt64 (wb_TotalAmount wh), ve_Currency = wb_CurrencyCode wh, ve_OccurredAt = now,
                    ve_FailureReason = wb_ErrorMessage wh, ve_RefundRef = []\<rparr>)"

record refund_request =
  rq_ProviderRef :: string
  rq_AmountMinor :: int
  rq_IdempotencyKey :: string

definition refund_json :: "refund_request \<Rightarrow> json" where
  "refund_json req = JObj [(''invoice_id'', JStr (rq_ProviderRef req)), (''amount'', JStr (itoa (rq_AmountMinor req))),
     (''currency_code'', JStr []), (''idempotency_key'', JStr (rq_IdempotencyKey req))]"

definition Refund :: "sipay_env \<Rightarrow> refund_request \<Rightarrow> sipay_state \<Rightarrow> (pay_error + string \<times> instant \<times> int) \<times> sipay_state" where
  "Refund env req st =
     (if rq_AmountMinor req < 0 then (Inl ErrInvalidAmount, st)
      else (case call_psp env (decode_data ''refund_id'') ''/ccpayment/api/refund'' (refund_json req) st of
              (Inl e, st1) \<Rightarrow> (Inl e, st1)
            | (Inr ref, st1) \<Rightarrow> (Inr (ref, sh_now env 0, rq_AmountMinor req), st1)))"

definition payment_status_of :: "string \<Rightarrow> payment_status" where
  "payment_status_of s =
     (if s = ''captured'' then PaymentStatusCaptured else if s = ''failed'' then PaymentStatusFailed
      else if s = ''refunded'' then PaymentStatusRefunded else if s = ''pending'' then PaymentStatusPending else PaymentStatusUnknown)"

definition CheckStatus :: "sipay_env \<Rightarrow> string \<Rightarrow> sipay_state \<Rightarrow> (pay_error + payment_status) \<times> sipay_state" where
  "CheckStatus env providerRef st =
     (case call_psp env (decode_data ''payment_status'') ''/ccpayment/api/checkStatus'' (JObj [(''invoice_id'', JStr providerRef)]) st of
        (Inl e, st1) \<Rightarrow> (Inl e, st1)
      | (Inr s, st1) \<Rightarrow> (Inr (payment_status_of s), st1))"

record register_request =
  rg_Name :: string
  rg_TaxNumber :: string
  rg_IBAN :: string
  rg_Address :: string

definition RegisterSubMerchant :: "sipay_env \<Rightarrow> sipay_config \<Rightarrow> register_request \<Rightarrow> sipay_state \<Rightarrow> (pay_error + string \<times> instant) \<times> sipay_state" where
  "RegisterSubMerchant env cfg req st =
     (case call_psp env (decode_data ''member_id'') ''/ccpayment/api/member/create''
             (JObj [(''merchant_key'', JStr (cfg_MerchantKey cfg)), (''name'', JStr (rg_Name req)), (''tax_number'', JStr (rg_TaxNumber req)),
                (''iban'', JStr (rg_IBAN req)), (''address'', JStr (rg_Address req)), (''settlement_type'', JInt 1)]) st of
        (Inl e, st1) \<Rightarrow> (Inl e, st1)
      | (Inr member, st1) \<Rightarrow> (Inr (member, sh_now env 0), st1))"

record transfer_to_seller =
  ts_ProviderMemberID :: string
  ts_AmountMinor :: int
  ts_Currency :: string
  ts_IdempotencyKey :: string

definition TransferToSeller :: "sipay_env \<Rightarrow> sipay_config \<Rightarrow> transfer_to_seller \<Rightarrow> sipay_state \<Rightarrow> (pay_error + string \<times> instant) \<times> sipay_state" where
  "TransferToSeller env cfg req st =
     (if ts_AmountMinor req \<le> 0 then (Inl ErrInvalidAmount, st)
      else (case call_psp env (decode_data ''transfer_id'') ''/ccpayment/api/member/transfer''
                   (JObj [(''merchant_key'', JStr (cfg_MerchantKey cfg)), (''member_id'', JStr (ts_ProviderMemberID req)),
                      (''amount'', JStr (itoa (ts_AmountMinor req))), (''currency_code'', JStr (ts_Currency req)),
                      (''idempotency_key'', JStr (ts_IdempotencyKey req))]) st of
              (Inl e, st1) \<Rightarrow> (Inl e, st1)
            | (Inr transfer, st1) \<Rightarrow> (Inr (transfer, sh_now env 0), st1)))"

section \<open>Provider selection\<close>

datatype provider = SipayProvider | CraftgateStub | IyzicoStub

definition NewService :: "bool \<Rightarrow> string \<Rightarrow> pay_error + provider" where
  "NewService registered provider =
     (if provider = ''sipay'' then (if registered then Inr SipayProvider else Inl ErrProviderNotRegistered)
      else if provider = ''craftgate'' then Inr CraftgateStub
      else if provider = ''iyzico'' then Inr IyzicoStub
      else if provider = [] then Inl ErrProviderRequired
      else Inl ErrUnknownProvider)"

section \<open>Requests that reach the provider\<close>

lemma getToken_sent: "getToken env k st = (r, st') \<Longrightarrow> sx_sent st' = sx_sent st \<and> sx_cb st' = sx_cb st"
  by (auto simp: getToken_def fetchToken_def split: option.splits http_result.splits if_splits)

lemma inspect_sent: "inspect now res st = (d, st') \<Longrightarrow> sx_sent st' = sx_sent st"
  by (auto simp: inspect_def split: if_splits)

lemma doAttempt_sent:
  "doAttempt env path tok body k st = (res, st') \<Longrightarrow> sx_sent st' = sx_sent st @ [(path, body)] \<and> sx_cb st' = sx_cb st \<and> sx_tokens st' = sx_tokens st \<and>
     (ar_tokenInvalidate res \<longrightarrow> k = 0 \<and> (\<exists>raw. sh_call env 0 path tok body = HttpResponse 401 raw))"
  by (auto simp: doAttempt_def Let_def split: http_result.splits)

text \<open>One attempt of a request that is not retried.\<close>

lemma attempts_cases:
  assumes "attempts env False dec path body k (Suc left) lastErr st = (r, st')"
  obtains (token) e where "sx_sent st' = sx_sent st" "r = Inl e"
  | (final) "sx_sent st' = sx_sent st @ [(path, body)]" "(\<exists>e. r = Inl e) \<or> (\<exists>v. r = Inr (Some v))"
  | (again) tok raw st1 where "k = 0" "sh_call env 0 path tok body = HttpResponse 401 raw" "sx_sent st1 = sx_sent st @ [(path, body)]"
      "attempts env False dec path body (k + 1) left None st1 = (r, st')"
proof -
  obtain t st1 where g: "getToken env k st = (t, st1)" by fastforce
  note s1 = getToken_sent [OF g]
  show thesis
  proof (cases t)
    case (Inl e)
    then show ?thesis using assms g s1 by (intro token [of e]) auto
  next
    case (Inr tok)
    obtain res st2 where a: "doAttempt env path tok body k st1 = (res, st2)" by fastforce
    obtain d st3 where i: "inspect (sh_now env k) res st2 = (d, st3)" by fastforce
    have s3: "sx_sent st3 = sx_sent st @ [(path, body)]" using s1 doAttempt_sent [OF a] inspect_sent [OF i] by simp
    show ?thesis
    proof (cases "ar_tokenInvalidate res")
      case True
      then have d: "d = DecisionRetry None" using i by (auto simp: inspect_def)
      obtain raw where "k = 0" "sh_call env 0 path tok body = HttpResponse 401 raw" using True doAttempt_sent [OF a] by blast
      then show ?thesis using assms g Inr a i True s3 d by (intro again [of tok raw st3]) auto
    next
      case False
      then have "d = DecisionSuccess \<or> (\<exists>e. d = DecisionRetry (Some e))" using i by (auto simp: inspect_def split: if_splits)
      then show ?thesis using assms g Inr a i False s3 final by (auto split: option.splits)
    qed
  qed
qed

lemma doJSON_sent:
  assumes "doJSON env dec path payload st = (r, st')"
  shows "\<exists>n. sx_sent st' = sx_sent st @ replicate n (path, payload) \<and> n \<le> 2 \<and>
    (n = 2 \<longrightarrow> (\<exists>tok raw. sh_call env 0 path tok payload = HttpResponse 401 raw)) \<and> r \<noteq> Inr None"
proof (cases "allow (sh_now env 0) (sx_cb st)")
  case (Pair ok cb)
  show ?thesis
  proof (cases ok)
    case False
    then have "sx_sent st' = sx_sent st @ replicate 0 (path, payload) \<and> r \<noteq> Inr None"
      using assms Pair by (auto simp: doJSON_def doJSONWithOpts_def)
    then show ?thesis by (intro exI [of _ 0]) simp
  next
    case True
    then have "attempts env False dec path payload 0 (Suc (Suc 0)) None (st\<lparr>sx_cb := cb\<rparr>) = (r, st')"
      using assms Pair by (simp add: doJSON_def doJSONWithOpts_def maxAttempts_def numeral_2_eq_2)
    then show ?thesis
    proof (cases rule: attempts_cases)
      case token
      then show ?thesis by (intro exI [of _ 0]) auto
    next
      case final
      then show ?thesis by (intro exI [of _ 1]) auto
    next
      case (again tok raw st1)
      from again(4) show ?thesis
      proof (cases rule: attempts_cases)
        case token
        then show ?thesis using again(2,3) by (intro exI [of _ 1]) auto
      next
        case final
        then show ?thesis using again(2,3) by (intro exI [of _ 2]) (auto simp: numeral_2_eq_2)
      qed (use again in simp)
    qed
  qed
qed

lemma attempts_decoded:
  "attempts env idem dec path body k left lastErr st = (Inr (Some v), st') \<Longrightarrow>
     \<exists>k tok s j. sh_call env k path tok body = HttpResponse s (Some j) \<and> dec j = Some v"
proof (induction env idem dec path body k left lastErr st rule: attempts.induct)
  case (2 env idem dec path body k left lastErr st)
  obtain tok st1 where g: "getToken env k st = (Inr tok, st1)" using 2(2) by (auto split: if_splits sum.splits prod.splits)
  obtain res st2 where a: "doAttempt env path tok body k st1 = (res, st2)" by fastforce
  obtain d st3 where i: "inspect (sh_now env k) res st2 = (d, st3)" by fastforce
  show ?case
  proof (cases d)
    case DecisionSuccess
    then have "Option.bind (ar_raw res) dec = Some v" using 2(2) g a i by (auto split: if_splits option.splits)
    then obtain j where "ar_raw res = Some j" "dec j = Some v" by (auto simp: bind_eq_Some_conv)
    moreover from this obtain s where "sh_call env k path tok body = HttpResponse s (Some j)"
      using a by (auto simp: doAttempt_def Let_def split: http_result.splits)
    ultimately show ?thesis by blast
  next
    case (DecisionRetry e)
    then show ?thesis using 2 g a i by (auto split: if_splits)
  qed
qed (auto split: option.splits)

lemma doJSON_decoded:
  "doJSON env dec path payload st = (Inr (Some v), st') \<Longrightarrow>
     \<exists>k tok s j. sh_call env k path tok payload = HttpResponse s (Some j) \<and> dec j = Some v"
  by (auto simp: doJSON_def doJSONWithOpts_def split: prod.splits bool.splits dest: attempts_decoded)

section \<open>The circuit breaker\<close>

text \<open>A call that the provider fails to serve: a token is at hand, but there is no answer, or none of success.\<close>

definition fails :: "token_cache \<Rightarrow> sipay_env \<times> string \<times> json \<Rightarrow> bool" where
  "fails tc c =
     (case c of (env, path, payload) \<Rightarrow>
        (case tokens_get (sh_now env 0) tc of
           None \<Rightarrow> False
         | Some tok \<Rightarrow> (case sh_call env 0 path tok payload of HttpError \<Rightarrow> True | HttpResponse s _ \<Rightarrow> s \<noteq> 401 \<and> (s < 200 \<or> 300 \<le> s))))"

definition call_state :: "sipay_env \<times> string \<times> json \<Rightarrow> sipay_state \<Rightarrow> sipay_state" where
  "call_state c st = (case c of (env, path, payload) \<Rightarrow> snd (doJSON env (decode_data []) path payload st))"

lemma failing_call:
  assumes "fails (sx_tokens st) (env, path, payload)" "cb_state (sx_cb st) \<noteq> CbOpen"
  shows "call_state (env, path, payload) st =
    st\<lparr>sx_cb := snd (recordFailure (sh_now env 0) (sx_cb st)), sx_sent := sx_sent st @ [(path, payload)]\<rparr>"
proof -
  obtain tok where t: "tokens_get (sh_now env 0) (sx_tokens st) = Some tok"
      "sh_call env 0 path tok payload = HttpError \<or> (\<exists>s raw. sh_call env 0 path tok payload = HttpResponse s raw \<and> s \<noteq> 401 \<and> (s < 200 \<or> 300 \<le> s))"
    using assms(1) by (auto simp: fails_def split: option.splits http_result.splits)
  have "allow (sh_now env 0) (sx_cb st) = (True, sx_cb st)" using assms(2) by (simp add: allow_def)
  then show ?thesis
    using t by (auto simp: call_state_def doJSON_def doJSONWithOpts_def maxAttempts_def numeral_2_eq_2 getToken_def doAttempt_def inspect_def Let_def)
qed

lemma failing_calls:
  assumes "\<forall>c \<in> set cs. fails (sx_tokens st) c" "cb_state (sx_cb st) = CbClosed" "cb_failures (sx_cb st) = 0" "int (length cs) < cbThreshold"
  shows "fold call_state cs st = st\<lparr>sx_cb := (sx_cb st)\<lparr>cb_failures := int (length cs)\<rparr>, sx_sent := sx_sent st @ map snd cs\<rparr>"
  using assms
proof (induction cs rule: rev_induct)
  case Nil
  then show ?case by simp
next
  case (snoc c cs)
  obtain env path payload where c: "c = (env, path, payload)" by (metis prod_cases3)
  define st1 where "st1 = st\<lparr>sx_cb := (sx_cb st)\<lparr>cb_failures := int (length cs)\<rparr>, sx_sent := sx_sent st @ map snd cs\<rparr>"
  have f: "fold call_state cs st = st1" using snoc by (simp add: st1_def)
  have small: "int (length cs) + 1 < 5" "wrap64 (int (length cs) + 1) = int (length cs) + 1"
    using snoc.prems(4) by (auto simp: cbThreshold_def intro!: wrap64_id is_i64_small)
  have "fails (sx_tokens st1) (env, path, payload)" "cb_state (sx_cb st1) \<noteq> CbOpen" using snoc.prems(1,2) c by (simp_all add: st1_def)
  from failing_call [OF this] show ?case
    using f small snoc.prems(2) by (simp add: c st1_def recordFailure_def Let_def cbThreshold_def)
qed

section \<open>Amounts and webhooks\<close>

lemma nat_dec_digits: "nat_dec n \<noteq> []" "list_all is_digit (nat_dec n)"
proof -
  show "nat_dec n \<noteq> []" by (subst nat_dec.simps) simp
  have "is_digit c" if "c \<in> set (nat_dec n)" for c using nat_dec_no_char [OF that] unfolding is_digit_def by linarith
  then show "list_all is_digit (nat_dec n)" by (simp add: list_all_iff)
qed

lemma ParseInt64_itoa: "is_i64 n \<Longrightarrow> ParseInt64 (itoa n) = n"
proof -
  assume n: "is_i64 n"
  have h: "hd (nat_dec m) \<noteq> CHR ''-''" "hd (nat_dec m) \<noteq> CHR ''+''" for m
    using nat_dec_no_char [of "hd (nat_dec m)" m] nat_dec_digits(1) [of m] by auto
  show ?thesis
    using n by (auto simp: ParseInt64_def itoa_def Let_def h nat_dec_digits dec_val_nat_dec is_i64_def)
qed

lemma ParseInt64_range: "is_i64 (ParseInt64 s)"
  by (auto simp: ParseInt64_def Let_def is_i64_def min_i64_def max_i64_def)

definition webhook_json :: "webhook_body \<Rightarrow> string \<Rightarrow> int \<Rightarrow> json" where
  "webhook_json wh sig timestamp =
     JObj [(''status_code'', JInt (wb_StatusCode wh)), (''invoice_id'', JStr (wb_InvoiceID wh)), (''order_no'', JStr (wb_OrderNo wh)),
       (''total_amount'', JStr (wb_TotalAmount wh)), (''currency_code'', JStr (wb_CurrencyCode wh)), (''hash_key'', JStr sig),
       (''error_message'', JStr (wb_ErrorMessage wh)), (''timestamp'', JInt timestamp)]"

lemma decode_webhook_json [simp]: "decode_webhook (webhook_json wh sig t) = Some wh"
  by (simp add: decode_webhook_def webhook_json_def jint_def jstr_def)

lemma ConfirmWebhook_iff:
  "ConfirmWebhook sha512 cfg now j sig = Inr ev \<longleftrightarrow>
     (\<exists>wh. decode_webhook j = Some wh \<and>
        sig = ComputeHashKey sha512 (cfg_MerchantKey cfg) (itoa (wb_StatusCode wh)) (wb_InvoiceID wh) (wb_TotalAmount wh) (wb_CurrencyCode wh) \<and>
        ev = \<lparr>ve_Type = webhook_type (wb_StatusCode wh), ve_OrderID = 0, ve_ProviderRef = wb_InvoiceID wh, ve_ProviderOrderNo = wb_OrderNo wh,
              ve_AmountMinor = ParseInt64 (wb_TotalAmount wh), ve_Currency = wb_CurrencyCode wh, ve_OccurredAt = now,
              ve_FailureReason = wb_ErrorMessage wh, ve_RefundRef = []\<rparr>)"
  by (auto simp: ConfirmWebhook_def split: option.splits if_splits)

section \<open>Properties\<close>

text \<open>
  C26. A charge, refund or transfer is not sent blindly again. One call of the adapter sends its request at most
  twice, and a second time only after the provider refused the first with 401; it never reports success without a decoded response.
\<close>

theorem request_sent_once:
  assumes "call_psp env dec path payload st = (r, st')"
  shows "\<exists>n. sx_sent st' = sx_sent st @ replicate n (path, payload) \<and> n \<le> 2 \<and>
    (n = 2 \<longrightarrow> (\<exists>tok raw. sh_call env 0 path tok payload = HttpResponse 401 raw)) \<and>
    (\<forall>v. r = Inr v \<longrightarrow> (\<exists>k tok raw j. sh_call env k path tok payload = HttpResponse raw (Some j) \<and> dec j = Some (100, v)))"
proof -
  obtain d where d: "doJSON env dec path payload st = (d, st')" using assms by (auto simp: call_psp_def split: prod.splits sum.splits if_splits)
  have "\<exists>k tok s j. sh_call env k path tok payload = HttpResponse s (Some j) \<and> dec j = Some (100, v)" if "r = Inr v" for v
  proof -
    have "\<exists>x. d = Inr x \<and> response x = (100, v)" using assms d that by (auto simp: call_psp_def prod_eq_iff split: sum.splits if_splits)
    then have "doJSON env dec path payload st = (Inr (Some (100, v)), st')" using d by (auto simp: response_def split: option.splits)
    then show ?thesis by (rule doJSON_decoded)
  qed
  then show ?thesis using doJSON_sent [OF d] by blast
qed

text \<open>
  The circuit breaker opens after five failed calls in a row: until thirty seconds after the last of them every call is
  refused without contacting the provider, and afterwards a call is let through again.
\<close>

theorem circuit_opens:
  assumes "\<forall>c \<in> set (calls @ [(env5, path5, payload5)]). fails (sx_tokens st) c" "length calls = 4"
    "cb_state (sx_cb st) = CbClosed" "cb_failures (sx_cb st) = 0"
  shows "let st' = fold call_state (calls @ [(env5, path5, payload5)]) st in
    (sh_now env 0 < sh_now env5 0 + cbTimeout \<longrightarrow> doJSON env dec path payload st' = (Inl PayCircuitOpen, st')) \<and>
    (sh_now env5 0 + cbTimeout \<le> sh_now env 0 \<longrightarrow> allow (sh_now env 0) (sx_cb st') = (True, (sx_cb st')\<lparr>cb_state := CbHalfOpen\<rparr>))"
proof -
  define st4 where "st4 = st\<lparr>sx_cb := (sx_cb st)\<lparr>cb_failures := 4\<rparr>, sx_sent := sx_sent st @ map snd calls\<rparr>"
  have f: "fold call_state calls st = st4" using failing_calls [of calls st] assms by (simp add: cbThreshold_def st4_def)
  have "fails (sx_tokens st4) (env5, path5, payload5)" "cb_state (sx_cb st4) \<noteq> CbOpen" using assms(1,3) by (simp_all add: st4_def)
  from failing_call [OF this] have "fold call_state (calls @ [(env5, path5, payload5)]) st =
      st4\<lparr>sx_cb := snd (recordFailure (sh_now env5 0) (sx_cb st4)), sx_sent := sx_sent st4 @ [(path5, payload5)]\<rparr>"
    using f by simp
  moreover have "snd (recordFailure (sh_now env5 0) (sx_cb st4)) = (sx_cb st4)\<lparr>cb_failures := 5, cb_state := CbOpen, cb_openedAt := sh_now env5 0\<rparr>"
    using assms(3) by (simp add: recordFailure_def st4_def Let_def cbThreshold_def wrap64_id is_i64_small)
  ultimately show ?thesis by (auto simp: Let_def doJSON_def doJSONWithOpts_def allow_def)
qed

text \<open>
  The amount survives the trip to the provider and back. When the provider confirms with the invoice and the total that
  the payment request carried, correctly signed, the event holds the request's key and, to the kurus, its amount.
\<close>

theorem payment_amount_roundtrip:
  assumes "is_i64 (ip_AmountMinor req)" "jstr ''total_amount'' (init_pay_json sha256 cfg req inst) = Some amount"
    "jstr ''invoice_id'' (init_pay_json sha256 cfg req inst) = Some invoice"
  shows "\<exists>ev. ConfirmWebhook sha512 cfg now (webhook_json \<lparr>wb_StatusCode = 100, wb_InvoiceID = invoice, wb_OrderNo = no, wb_TotalAmount = amount,
      wb_CurrencyCode = cur, wb_ErrorMessage = msg\<rparr> (SignWebhook sha512 (cfg_MerchantKey cfg) ''100'' invoice amount cur) t)
      (SignWebhook sha512 (cfg_MerchantKey cfg) ''100'' invoice amount cur) = Inr ev \<and>
    ve_Type ev = PaymentEventCaptured \<and> ve_ProviderRef ev = ip_IdempotencyKey req \<and> ve_AmountMinor ev = ip_AmountMinor req"
proof -
  have f: "amount = itoa (ip_AmountMinor req)" "invoice = ip_IdempotencyKey req" using assms(2,3) by (simp_all add: init_pay_json_def jstr_def)
  have "itoa 100 = ''100''" by code_simp
  then show ?thesis using f ParseInt64_itoa [OF assms(1)] by (simp add: ConfirmWebhook_iff SignWebhook_def webhook_type_def)
qed

text \<open>
  The webhook signature does not separate its fields. Whatever the digest, a signed webhook can be altered without the
  key: moving the first digit of the amount to the end of the invoice gives another invoice and another amount that the same
  signature confirms, and the timestamp is not covered at all.
\<close>

theorem signature_ambiguous:
  assumes "ConfirmWebhook sha512 cfg now (webhook_json wh sig t) sig = Inr ev" "wb_TotalAmount wh = d # rest"
  shows "\<exists>ev'. ConfirmWebhook sha512 cfg now' (webhook_json (wh\<lparr>wb_InvoiceID := wb_InvoiceID wh @ [d], wb_TotalAmount := rest\<rparr>) sig t') sig = Inr ev' \<and>
    ve_Type ev' = ve_Type ev \<and> ve_ProviderRef ev' = ve_ProviderRef ev @ [d] \<and> ve_AmountMinor ev' = ParseInt64 rest"
  using assms by (auto simp: ConfirmWebhook_iff ComputeHashKey_def)

section \<open>A provider that answers\<close>

definition sipay_cfg_ex :: sipay_config where
  "sipay_cfg_ex = \<lparr>cfg_BaseURL = ''https://provisioning.sipay.com.tr'', cfg_MerchantKey = ''mk'', cfg_AppID = ''app'', cfg_AppSecret = ''s'', cfg_MerchantID = ''7'',
     cfg_ReturnURL = ''r'', cfg_CancelURL = ''c'', cfg_Environment = ''production''\<rparr>"

definition sipay_down :: sipay_env where
  "sipay_down = \<lparr>sh_now = (\<lambda>_. 1000), sh_token = (\<lambda>_. HttpError), sh_call = (\<lambda>_ _ _ _. HttpError), sh_cancelled = (\<lambda>_. False)\<rparr>"

definition sipay_expired :: sipay_env where
  "sipay_expired = \<lparr>sh_now = (\<lambda>_. 1000), sh_token = (\<lambda>_. HttpResponse 200 (Some (JObj [(''status_code'', JInt 100), (''data'', JObj [(''token'', JStr ''t2'')])]))),
     sh_call = (\<lambda>k _ _ _. if k = 0 then HttpResponse 401 None else HttpResponse 200 (Some (JObj [(''status_code'', JInt 100), (''data'', JObj [(''transfer_id'', JStr ''x'')])]))),
     sh_cancelled = (\<lambda>_. False)\<rparr>"

definition sipay_st :: sipay_state where
  "sipay_st = \<lparr>sx_cb = newCircuitBreaker, sx_tokens = \<lparr>tk_token = ''t1'', tk_expiresAt = 2000\<rparr>, sx_sent = []\<rparr>"

lemma expired_eval:
  "fst (call_psp sipay_expired (decode_data ''transfer_id'') ''/t'' (JObj []) sipay_st) = Inr ''x''"
  "sx_sent (snd (call_psp sipay_expired (decode_data ''transfer_id'') ''/t'' (JObj []) sipay_st)) = [(''/t'', JObj []), (''/t'', JObj [])]"
  by code_simp+

theorem request_sent_once_witness:
  "sx_sent (snd (call_psp sipay_expired (decode_data ''transfer_id'') ''/t'' (JObj []) sipay_st)) = replicate 2 (''/t'', JObj []) \<and>
   (\<exists>tok raw. sh_call sipay_expired 0 ''/t'' tok (JObj []) = HttpResponse 401 raw)"
proof -
  obtain n where "sx_sent (snd (call_psp sipay_expired (decode_data ''transfer_id'') ''/t'' (JObj []) sipay_st)) = sx_sent sipay_st @ replicate n (''/t'', JObj [])"
      "n = 2 \<longrightarrow> (\<exists>tok raw. sh_call sipay_expired 0 ''/t'' tok (JObj []) = HttpResponse 401 raw)"
    using request_sent_once [OF prod.collapse [symmetric], of sipay_expired "decode_data ''transfer_id''" "''/t''" "JObj []" sipay_st] by blast
  moreover from this have "n = 2" using arg_cong [OF expired_eval(2), of length] by (simp add: sipay_st_def)
  ultimately show ?thesis by (simp add: sipay_st_def)
qed

theorem circuit_opens_witness:
  "doJSON sipay_down (decode_data ''transfer_id'') ''/t'' (JObj []) (fold call_state (replicate 5 (sipay_down, ''/t'', JObj [])) sipay_st) =
     (Inl PayCircuitOpen, fold call_state (replicate 5 (sipay_down, ''/t'', JObj [])) sipay_st)"
proof -
  have "replicate 5 (sipay_down, ''/t'', JObj []) = replicate 4 (sipay_down, ''/t'', JObj []) @ [(sipay_down, ''/t'', JObj [])]"
    by (simp add: numeral_eq_Suc)
  then show ?thesis
    using circuit_opens [of "replicate 4 (sipay_down, ''/t'', JObj [])" sipay_down "''/t''" "JObj []" sipay_st sipay_down "decode_data ''transfer_id''" "''/t''" "JObj []"]
    by (simp add: fails_def sipay_st_def tokens_get_def sipay_down_def newCircuitBreaker_def cbTimeout_def Let_def)
qed

definition pay_req_ex :: initiate_payment_request where
  "pay_req_ex = \<lparr>ip_OrderID = 2, ip_AmountMinor = 1620, ip_Currency = ''TRY'', ip_IdempotencyKey = ''s1'', ip_BuyerName = ''A'', ip_BuyerSurname = ''B'', ip_BuyerEmail = ''e'',
     ip_Market = ''TR'', ip_ReturnURL = [], ip_CancelURL = [], ip_Installments = 0\<rparr>"

theorem payment_amount_roundtrip_witness:
  "\<exists>ev. ConfirmWebhook (\<lambda>s. s) sipay_cfg_ex 5 (webhook_json \<lparr>wb_StatusCode = 100, wb_InvoiceID = ''s1'', wb_OrderNo = [], wb_TotalAmount = ''1620'',
      wb_CurrencyCode = ''TRY'', wb_ErrorMessage = []\<rparr> (SignWebhook (\<lambda>s. s) ''mk'' ''100'' ''s1'' ''1620'' ''TRY'') 0)
      (SignWebhook (\<lambda>s. s) ''mk'' ''100'' ''s1'' ''1620'' ''TRY'') = Inr ev \<and> ve_AmountMinor ev = 1620"
proof -
  have "itoa 1620 = ''1620''" by code_simp
  then show ?thesis
    using payment_amount_roundtrip [of pay_req_ex "\<lambda>s. s" sipay_cfg_ex 1 "''1620''" "''s1''" "\<lambda>s. s" 5 "[]" "''TRY''" "[]" 0]
    by (auto simp: pay_req_ex_def init_pay_json_def jstr_def is_i64_small sipay_cfg_ex_def)
qed

theorem signature_ambiguous_witness:
  "\<exists>ev'. ConfirmWebhook (\<lambda>s. s) sipay_cfg_ex 9 (webhook_json \<lparr>wb_StatusCode = 100, wb_InvoiceID = ''s11'', wb_OrderNo = [], wb_TotalAmount = ''620'',
      wb_CurrencyCode = ''TRY'', wb_ErrorMessage = []\<rparr> (SignWebhook (\<lambda>s. s) ''mk'' ''100'' ''s1'' ''1620'' ''TRY'') 8)
      (SignWebhook (\<lambda>s. s) ''mk'' ''100'' ''s1'' ''1620'' ''TRY'') = Inr ev' \<and> ve_ProviderRef ev' = ''s11'' \<and> ve_AmountMinor ev' = 620"
proof -
  define wh where "wh = \<lparr>wb_StatusCode = 100, wb_InvoiceID = ''s1'', wb_OrderNo = [], wb_TotalAmount = ''1620'', wb_CurrencyCode = ''TRY'', wb_ErrorMessage = []\<rparr>"
  define sig where "sig = SignWebhook (\<lambda>s. s) ''mk'' ''100'' ''s1'' ''1620'' ''TRY''"
  have h: "itoa 100 = ''100''" "ParseInt64 ''620'' = 620" by code_simp+
  obtain ev where "ConfirmWebhook (\<lambda>s. s) sipay_cfg_ex 5 (webhook_json wh sig 0) sig = Inr ev" "ve_ProviderRef ev = ''s1''"
    using h by (auto simp: ConfirmWebhook_iff wh_def sig_def SignWebhook_def sipay_cfg_ex_def)
  then show ?thesis
    using signature_ambiguous [of "\<lambda>s. s" sipay_cfg_ex 5 wh sig 0 ev "CHR ''1''" "''620''" 9 8] h(2) by (auto simp: wh_def sig_def)
qed

end
