(* ===== verification/Payments.thy ===== *)
theory Payments
  imports Sipay OrderGrowth
begin

text \<open>
  Payments on the platform's side: \<^verbatim>\<open>internal/payment/repository.go\<close>, the webhook handler of
  \<^verbatim>\<open>internal/payment/sipay/webhook.go\<close>, the reconciler of \<^verbatim>\<open>internal/payment/reconciler.go\<close> and the refund handler of
  \<^verbatim>\<open>cmd/core-svc/main.go\<close>, over the table of \<^verbatim>\<open>deploy/postgres-ecom/init/70-payments.sql\<close>. A webhook of a capture
  stores the payment with its outbox event and then marks the orders of the checkout session paid.
\<close>

section \<open>Repository\<close>

record pay_db =
  pt_orders :: order_db
  pt_payments :: "payment_intent list"
  pt_next :: int

text \<open>
  \<^verbatim>\<open>WithTx\<close>. The body also says whether one of its statements failed: a transaction in which a statement failed
  cannot commit, and \<^verbatim>\<open>Commit\<close> then returns an error of its own even if the body returned nil.
\<close>

definition pay_WithTx :: "tx_outcome list \<Rightarrow> (pay_db \<Rightarrow> (pay_error + 'a \<times> pay_db) \<times> bool) \<Rightarrow> pay_db \<Rightarrow> (pay_error + 'a) \<times> pay_db" where
  "pay_WithTx outs fn db =
     one_tx PayTx outs (\<lambda>tx. case fn tx of (Inl e, _) \<Rightarrow> Inl e | (Inr r, failed) \<Rightarrow> if failed then Inl PayQuery else Inr r) db"

text \<open>
  \<open>fk\<close>: the foreign key of \<^verbatim>\<open>order_id\<close>, as in the deployed table; the tables of the integration tests are without it. The
  columns the statement does not name keep their defaults, \<^verbatim>\<open>captured_at\<close> and \<^verbatim>\<open>expires_at\<close> among them.
\<close>

definition InsertPaymentIntent :: "bool \<Rightarrow> instant \<Rightarrow> payment_intent \<Rightarrow> pay_db \<Rightarrow> pay_error + pay_db" where
  "InsertPaymentIntent fk now p db =
     (if List.find (\<lambda>r. pa_IdempotencyKey r = pa_IdempotencyKey p) (pt_payments db) \<noteq> None then Inl ErrPaymentAlreadyCaptured
      else if fk \<and> List.find (\<lambda>r. or_ID r = pa_OrderID p) (dbo_orders (pt_orders db)) = None then Inl PayConstraint
      else Inr (db\<lparr>pt_payments := pt_payments db @ [p\<lparr>pa_ID := pt_next db, pa_CapturedAt := None, pa_FailedAt := None, pa_FailureReason := [],
                    pa_RefundedAt := None, pa_RefundRef := [], pa_RefundAmountMinor := 0, pa_CreatedAt := now, pa_UpdatedAt := now, pa_ExpiresAt := None\<rparr>],
                  pt_next := pt_next db + 1\<rparr>))"

definition FindPaymentIntentByIdempotencyKey :: "pay_db \<Rightarrow> string \<Rightarrow> pay_error + payment_intent" where
  "FindPaymentIntentByIdempotencyKey db key =
     (case List.find (\<lambda>r. pa_IdempotencyKey r = key) (pt_payments db) of None \<Rightarrow> Inl ErrPaymentNotFound | Some p \<Rightarrow> Inr p)"

definition FindPaymentByOrderID :: "pay_db \<Rightarrow> int \<Rightarrow> pay_error + payment_intent" where
  "FindPaymentByOrderID db orderID =
     (case rev (sort_key pa_CreatedAt (filter (\<lambda>r. pa_OrderID r = orderID) (pt_payments db))) of [] \<Rightarrow> Inl ErrPaymentNotFound | p # _ \<Rightarrow> Inr p)"

definition two_minutes :: int where
  "two_minutes = 2 * 60 * 10 ^ 9"

definition FindExpiredPendingPayments :: "instant \<Rightarrow> nat \<Rightarrow> pay_db \<Rightarrow> payment_intent list" where
  "FindExpiredPendingPayments now limit db =
     take limit (sort_key (\<lambda>p. the (pa_ExpiresAt p)) (filter (\<lambda>p. pa_Status p = PaymentStatusPending \<and>
       (case pa_ExpiresAt p of None \<Rightarrow> False | Some t \<Rightarrow> t < now - two_minutes)) (pt_payments db)))"

definition UpdatePaymentStatus :: "instant \<Rightarrow> string \<Rightarrow> payment_status \<Rightarrow> instant option \<Rightarrow> instant option \<Rightarrow> instant option \<Rightarrow> string \<Rightarrow> string \<Rightarrow> int
    \<Rightarrow> pay_db \<Rightarrow> pay_db" where
  "UpdatePaymentStatus now providerRef status capturedAt failedAt refundedAt failureReason refundRef refundAmountMinor db =
     db\<lparr>pt_payments := update_where (\<lambda>p. pa_ProviderRef p = providerRef)
       (\<lambda>p. p\<lparr>pa_Status := status, pa_CapturedAt := capturedAt, pa_FailedAt := failedAt, pa_FailureReason := failureReason, pa_RefundedAt := refundedAt,
              pa_RefundRef := refundRef, pa_RefundAmountMinor := refundAmountMinor, pa_UpdatedAt := now\<rparr>) (pt_payments db)\<rparr>"

section \<open>The webhook handler\<close>

definition paymentStatusFromEvent :: "payment_event_type \<Rightarrow> payment_status" where
  "paymentStatusFromEvent t =
     (case t of PaymentEventCaptured \<Rightarrow> PaymentStatusCaptured | PaymentEventFailed \<Rightarrow> PaymentStatusFailed | PaymentEventRefunded \<Rightarrow> PaymentStatusRefunded)"

definition outboxEventType :: "payment_event_type \<Rightarrow> string" where
  "outboxEventType t =
     (case t of PaymentEventCaptured \<Rightarrow> ''ecom.payment.captured.v1'' | PaymentEventFailed \<Rightarrow> ''ecom.payment.failed.v1''
      | PaymentEventRefunded \<Rightarrow> ''ecom.payment.refunded.v1'')"

definition event_type_string :: "payment_event_type \<Rightarrow> string" where
  "event_type_string t = (case t of PaymentEventCaptured \<Rightarrow> ''captured'' | PaymentEventFailed \<Rightarrow> ''failed'' | PaymentEventRefunded \<Rightarrow> ''refunded'')"

text \<open>The keys the handler set in Redis with their expiry, and the reservations of the carts.\<close>

record pay_state =
  py_db :: pay_db
  py_seen :: "(string \<times> instant) list"
  py_redis :: redis

text \<open>
  The clock, the digest, the configuration, the foreign key, the outcome of the transaction, whether Redis is configured and
  answers, and what the finalizer meets.
\<close>

record webhook_env =
  wn_now :: instant
  wn_sha512 :: "string \<Rightarrow> string"
  wn_cfg :: sipay_config
  wn_fk :: bool
  wn_outs :: "tx_outcome list"
  wn_redis :: bool
  wn_exists_ok :: bool
  wn_set_ok :: bool
  wn_market :: string
  wn_currency :: string
  wn_find_ok :: bool
  wn_orders :: "int \<Rightarrow> order_env"

definition webhook_redis_key :: "string \<Rightarrow> string" where
  "webhook_redis_key ref = ''webhook:sipay:'' @ ref"

definition webhookRedisExpiry :: int where
  "webhookRedisExpiry = 7 * 24 * 60 * 60 * 10 ^ 9"

definition intent_of :: "payment_event \<Rightarrow> payment_intent" where
  "intent_of ev =
     \<lparr>pa_ID = 0, pa_OrderID = ve_OrderID ev, pa_IdempotencyKey = ve_ProviderRef ev, pa_Provider = ''sipay'', pa_ProviderRef = ve_ProviderRef ev,
      pa_ProviderOrderNo = ve_ProviderOrderNo ev, pa_Status = paymentStatusFromEvent (ve_Type ev), pa_AmountMinor = ve_AmountMinor ev,
      pa_Currency = ve_Currency ev, pa_CapturedAt = (if ve_Type ev = PaymentEventCaptured then Some (ve_OccurredAt ev) else None), pa_FailedAt = None,
      pa_FailureReason = [], pa_RefundedAt = None, pa_RefundRef = [], pa_RefundAmountMinor = 0, pa_CreatedAt = 0, pa_UpdatedAt = 0, pa_ExpiresAt = None\<rparr>"

definition payment_json :: "payment_event \<Rightarrow> json" where
  "payment_json ev =
     JObj [(''provider_ref'', JStr (ve_ProviderRef ev)), (''order_id'', JInt (ve_OrderID ev)), (''amount_minor'', JInt (ve_AmountMinor ev)),
       (''currency'', JStr (ve_Currency ev)), (''event_type'', JStr (event_type_string (ve_Type ev))), (''occurred_at'', JTime (ve_OccurredAt ev - ve_OccurredAt ev mod 10 ^ 9)),
       (''failure_reason'', JStr (ve_FailureReason ev)), (''refund_ref'', JStr (ve_RefundRef ev))]"

definition psp_key :: "string \<Rightarrow> string" where
  "psp_key ref = ''psp:'' @ ref"

definition payment_row :: "webhook_env \<Rightarrow> payment_event \<Rightarrow> outbox_row" where
  "payment_row env ev =
     \<lparr>o_id = 0, o_aggregate = ''payment'', o_event_type = outboxEventType (ve_Type ev), o_payload = payment_json ev,
      o_idempotency_key = psp_key (ve_ProviderRef ev), o_trace_id = [], o_span_id = [], o_market = wn_market env, o_currency = wn_currency env,
      o_created_at = 0, o_published_at = None\<rparr>"

text \<open>The body of the transaction: the result says whether the payment was already stored.\<close>

definition webhook_tx :: "webhook_env \<Rightarrow> payment_event \<Rightarrow> pay_db \<Rightarrow> (pay_error + bool \<times> pay_db) \<times> bool" where
  "webhook_tx env ev tx =
     (case InsertPaymentIntent (wn_fk env) (wn_now env) (intent_of ev) tx of
        Inl e \<Rightarrow> if e = ErrPaymentAlreadyCaptured then (Inr (True, tx), True) else (Inl e, True)
      | Inr db1 \<Rightarrow>
          (case outbox_Insert (wn_now env) (payment_row env ev) (dbo_outbox (pt_orders db1)) of
             Inl e \<Rightarrow> (Inl (PayOutbox e), True)
           | Inr ob \<Rightarrow> (Inr (False, db1\<lparr>pt_orders := (pt_orders db1)\<lparr>dbo_outbox := ob\<rparr>\<rparr>), False)))"

definition five_minutes :: int where
  "five_minutes = 5 * 60 * 10 ^ 9"

definition set_seen :: "webhook_env \<Rightarrow> string \<Rightarrow> pay_state \<Rightarrow> pay_state" where
  "set_seen env ref st =
     (if wn_redis env \<and> wn_set_ok env then st\<lparr>py_seen := (webhook_redis_key ref, wn_now env + webhookRedisExpiry) # py_seen st\<rparr> else st)"

definition seen :: "webhook_env \<Rightarrow> string \<Rightarrow> pay_state \<Rightarrow> bool" where
  "seen env ref st \<longleftrightarrow> wn_redis env \<and> wn_exists_ok env \<and> list_ex (\<lambda>(k, t). k = webhook_redis_key ref \<and> wn_now env < t) (py_seen st)"

text \<open>The store and the side effects of an accepted event.\<close>

definition process_event :: "webhook_env \<Rightarrow> payment_event \<Rightarrow> pay_state \<Rightarrow> int \<times> pay_state" where
  "process_event env ev st =
     (if seen env (ve_ProviderRef ev) st then (200, st)
      else (case pay_WithTx (wn_outs env) (webhook_tx env ev) (py_db st) of
        (Inl e, db1) \<Rightarrow> (500, st\<lparr>py_db := db1\<rparr>)
      | (Inr alreadyDone, db1) \<Rightarrow>
          (let st1 = set_seen env (ve_ProviderRef ev) (st\<lparr>py_db := db1\<rparr>) in
           if alreadyDone then (200, st1)
           else if ve_Type ev = PaymentEventCaptured
           then (case captureFinalizer (wn_find_ok env) (wn_orders env) (ve_ProviderRef ev) (pt_orders db1) (py_redis st1) of
                   (od, r) \<Rightarrow> (200, st1\<lparr>py_db := db1\<lparr>pt_orders := od\<rparr>, py_redis := r\<rparr>))
           else (200, st1))))"

text \<open>
  \<^verbatim>\<open>ServeHTTP\<close>: the body is a JSON value or nothing (unreadable, cut off at 64 KB, or no JSON). All three event types of
  the adapter are known ones.
\<close>

definition ServeHTTP :: "webhook_env \<Rightarrow> json option \<Rightarrow> pay_state \<Rightarrow> int \<times> pay_state" where
  "ServeHTTP env body st =
     (case body of
        None \<Rightarrow> (400, st)
      | Some j \<Rightarrow>
          (case (jstr ''hash_key'' j, jint ''timestamp'' j) of
             (Some hashKey, Some timestamp) \<Rightarrow>
               (case ConfirmWebhook (wn_sha512 env) (wn_cfg env) (wn_now env) j hashKey of
                  Inl e \<Rightarrow> if e = ErrInvalidSignature then (401, st) else (400, st)
                | Inr ev \<Rightarrow>
                    if timestamp > 0 \<and> wn_now env - timestamp * 10 ^ 9 > five_minutes then (401, st)
                    else process_event env ev st)
           | _ \<Rightarrow> (400, st)))"

section \<open>The reconciler\<close>

definition paymentEventTypeFromStatus :: "payment_status \<Rightarrow> payment_event_type" where
  "paymentEventTypeFromStatus s =
     (if s = PaymentStatusCaptured then PaymentEventCaptured else if s = PaymentStatusRefunded then PaymentEventRefunded else PaymentEventFailed)"

definition outboxEventFromStatus :: "payment_status \<Rightarrow> string" where
  "outboxEventFromStatus s =
     (if s = PaymentStatusCaptured then ''ecom.payment.captured.v1'' else if s = PaymentStatusRefunded then ''ecom.payment.refunded.v1''
      else ''ecom.payment.failed.v1'')"

record reconciler_env =
  rv_now :: instant
  rv_outs :: "string \<Rightarrow> tx_outcome list"
  rv_check :: "string \<Rightarrow> pay_error + payment_status"
  rv_find_ok :: bool
  rv_market :: string
  rv_currency :: string

definition reconcile_row :: "reconciler_env \<Rightarrow> payment_intent \<Rightarrow> payment_status \<Rightarrow> outbox_row" where
  "reconcile_row env p newStatus =
     \<lparr>o_id = 0, o_aggregate = ''payment'', o_event_type = outboxEventFromStatus newStatus,
      o_payload = JObj [(''provider_ref'', JStr (pa_ProviderRef p)), (''order_id'', JInt (pa_OrderID p)), (''amount_minor'', JInt (pa_AmountMinor p)),
        (''currency'', JStr (pa_Currency p)), (''event_type'', JStr (event_type_string (paymentEventTypeFromStatus newStatus))),
        (''occurred_at'', JTime (rv_now env)), (''failure_reason'', JStr []), (''source'', JStr ''reconciler'')],
      o_idempotency_key = ''reconcile:psp:'' @ pa_ProviderRef p, o_trace_id = [], o_span_id = [], o_market = rv_market env, o_currency = rv_currency env,
      o_created_at = 0, o_published_at = None\<rparr>"

definition reconcile_tx :: "reconciler_env \<Rightarrow> payment_intent \<Rightarrow> payment_status \<Rightarrow> pay_db \<Rightarrow> (pay_error + unit \<times> pay_db) \<times> bool" where
  "reconcile_tx env p newStatus tx =
     (let at = (\<lambda>s. if newStatus = s then Some (rv_now env) else None);
          db1 = UpdatePaymentStatus (rv_now env) (pa_ProviderRef p) newStatus (at PaymentStatusCaptured) (at PaymentStatusFailed) (at PaymentStatusRefunded) [] [] 0 tx in
      case outbox_Insert (rv_now env) (reconcile_row env p newStatus) (dbo_outbox (pt_orders db1)) of
        Inl e \<Rightarrow> (Inl (PayOutbox e), True)
      | Inr ob \<Rightarrow> (Inr ((), db1\<lparr>pt_orders := (pt_orders db1)\<lparr>dbo_outbox := ob\<rparr>\<rparr>), False))"

definition reconcileOne :: "reconciler_env \<Rightarrow> payment_intent \<Rightarrow> pay_db \<Rightarrow> (pay_error + unit) \<times> pay_db" where
  "reconcileOne env p db =
     (case rv_check env (pa_ProviderRef p) of
        Inl e \<Rightarrow> (Inl e, db)
      | Inr providerStatus \<Rightarrow>
          if providerStatus = PaymentStatusPending \<or> providerStatus = PaymentStatusUnknown then (Inr (), db)
          else pay_WithTx (rv_outs env (pa_ProviderRef p)) (reconcile_tx env p providerStatus) db)"

definition reconcilerBatchSize :: nat where
  "reconcilerBatchSize = 50"

definition runOnce :: "reconciler_env \<Rightarrow> pay_db \<Rightarrow> pay_error option \<times> pay_db" where
  "runOnce env db =
     (if \<not> rv_find_ok env then (Some PayQuery, db)
      else (None, fold (\<lambda>p d. snd (reconcileOne env p d)) (FindExpiredPendingPayments (rv_now env) reconcilerBatchSize db) db))"

section \<open>The refund handler\<close>

text \<open>
  \<^verbatim>\<open>handleRefundOrder\<close> for a request with an idempotency key. The status update of the order runs in a transaction of its
  own inside that of the payment: \<open>outs\<close> is the outcome of the outer one, \<open>oenv\<close> holds that of the inner one.
\<close>

definition refundable :: "order_status \<Rightarrow> bool" where
  "refundable s \<longleftrightarrow> s = StatusPaid \<or> s = StatusShipped \<or> s = StatusDelivered"

definition handleRefundOrder :: "sipay_env \<Rightarrow> order_env \<Rightarrow> tx_outcome list \<Rightarrow> instant \<Rightarrow> string \<Rightarrow> int \<Rightarrow> pay_db \<times> sipay_state \<Rightarrow> int \<times> pay_db \<times> sipay_state" where
  "handleRefundOrder env oenv outs now idempKey orderID s =
     (let (db, st) = s in
      case repo_GetOrder (pt_orders db) orderID of
        Inl e \<Rightarrow> (if e = ErrOrderNotFound then 404 else 500, db, st)
      | Inr (ord, _) \<Rightarrow>
          if \<not> refundable (or_Status ord) then (409, db, st)
          else (case FindPaymentByOrderID db orderID of
            Inl e \<Rightarrow> (if e = ErrPaymentNotFound then 404 else 500, db, st)
          | Inr pi \<Rightarrow>
              (case Refund env \<lparr>rq_ProviderRef = pa_ProviderRef pi, rq_AmountMinor = 0, rq_IdempotencyKey = idempKey\<rparr> st of
                 (Inl e, st1) \<Rightarrow> (502, db, st1)
               | (Inr (ref, refundedAt, amount), st1) \<Rightarrow>
                   (if next_outcome outs = TxBeginFails \<or> next_outcome outs = TxFnSerialization then (500, db, st1)
                    else (case UpdateStatus oenv orderID StatusRefunded (pt_orders db) of
                      (Some e, od) \<Rightarrow> (500, db\<lparr>pt_orders := od\<rparr>, st1)
                    | (None, od) \<Rightarrow>
                        (if next_outcome outs = TxOk
                         then (200, (UpdatePaymentStatus now (pa_ProviderRef pi) PaymentStatusRefunded None None (Some now) [] ref amount db)\<lparr>pt_orders := od\<rparr>, st1)
                         else (500, db\<lparr>pt_orders := od\<rparr>, st1)))))))"

section \<open>Runs\<close>

text \<open>
  Everything that touches payments: webhooks, passes of the reconciler, refunds of orders, and the operations on the orders
  themselves.
\<close>

inductive pay_step :: "pay_state \<Rightarrow> pay_state \<Rightarrow> bool" where
  webhook: "ServeHTTP env body st = (code, st') \<Longrightarrow> pay_step st st'"
| reconcile: "runOnce renv (py_db st) = (e, db) \<Longrightarrow> pay_step st (st\<lparr>py_db := db\<rparr>)"
| refund: "handleRefundOrder senv oenv outs now key i (py_db st, sx) = (code, db, sx') \<Longrightarrow> pay_step st (st\<lparr>py_db := db\<rparr>)"
| order: "order_step (pt_orders (py_db st)) od \<Longrightarrow> pay_step st (st\<lparr>py_db := (py_db st)\<lparr>pt_orders := od\<rparr>\<rparr>)"

section \<open>The invariant\<close>

definition payment_rows :: "order_db \<Rightarrow> outbox_row list" where
  "payment_rows od = filter (\<lambda>row. o_aggregate row = ''payment'') (ob_rows (dbo_outbox od))"

text \<open>The event of a stored payment.\<close>

definition event_of :: "payment_intent \<Rightarrow> outbox_row \<Rightarrow> bool" where
  "event_of p row \<longleftrightarrow> o_idempotency_key row = psp_key (pa_IdempotencyKey p) \<and> o_event_type row = outboxEventFromStatus (pa_Status p) \<and>
     jint ''amount_minor'' (o_payload row) = Some (pa_AmountMinor p) \<and> jstr ''provider_ref'' (o_payload row) = Some (pa_ProviderRef p)"

definition payment_ok :: "payment_intent \<Rightarrow> bool" where
  "payment_ok p \<longleftrightarrow> pa_Status p \<in> {PaymentStatusCaptured, PaymentStatusFailed, PaymentStatusRefunded} \<and> pa_OrderID p = 0 \<and> pa_ProviderRef p = pa_IdempotencyKey p \<and>
     is_i64 (pa_AmountMinor p) \<and> pa_CapturedAt p = None \<and> pa_ExpiresAt p = None"

definition pay_inv :: "pay_db \<Rightarrow> bool" where
  "pay_inv db \<longleftrightarrow> order_inv (pt_orders db) \<and> fresh_ids pa_ID (pt_next db) (pt_payments db) \<and> distinct (map pa_IdempotencyKey (pt_payments db)) \<and>
     (\<forall>p \<in> set (pt_payments db). payment_ok p) \<and> list_all2 event_of (pt_payments db) (payment_rows (pt_orders db))"

lemma order_grows_rows:
  assumes "order_grows od od'"
  shows "payment_rows od' = payment_rows od"
proof -
  obtain zs where "ob_rows (dbo_outbox od') = ob_rows (dbo_outbox od) @ zs" "\<forall>z \<in> set zs. o_aggregate z = ''order''"
    using assms by (auto simp: order_grows_def)
  then show ?thesis by (auto simp: payment_rows_def filter_empty_conv)
qed

lemma pay_inv_orders:
  assumes "pay_inv db" "order_grows (pt_orders db) od" "order_inv od"
  shows "pay_inv (db\<lparr>pt_orders := od\<rparr>)"
  using assms order_grows_rows by (simp add: pay_inv_def)

subsection \<open>Webhooks\<close>

lemma pay_WithTx_cases:
  assumes "pay_WithTx outs fn db = (res, db')"
  obtains (error) e where "res = Inl e" "db' = db" | (commit) a where "res = Inr a" "fn db = (Inr (a, db'), False)"
proof -
  from assms [unfolded pay_WithTx_def] show thesis
  proof (cases rule: one_tx_cases)
    case (error e)
    then show ?thesis using that(1) by blast
  next
    case (commit a)
    then show ?thesis using that(2) by (auto split: prod.splits sum.splits if_splits)
  qed
qed

lemma webhook_tx_commit:
  assumes "webhook_tx env ev db = (Inr (a, db'), False)"
  shows "\<not> a" "\<exists>p row n. db' = db\<lparr>pt_payments := pt_payments db @ [p], pt_next := pt_next db + 1,
      pt_orders := (pt_orders db)\<lparr>dbo_outbox := \<lparr>ob_rows = ob_rows (dbo_outbox (pt_orders db)) @ [row], ob_next = n\<rparr>\<rparr>\<rparr> \<and>
    p = (intent_of ev)\<lparr>pa_ID := pt_next db, pa_CapturedAt := None, pa_CreatedAt := wn_now env, pa_UpdatedAt := wn_now env\<rparr> \<and>
    row = (payment_row env ev)\<lparr>o_id := ob_next (dbo_outbox (pt_orders db)), o_created_at := wn_now env, o_published_at := None\<rparr> \<and>
    ve_ProviderRef ev \<notin> pa_IdempotencyKey ` set (pt_payments db)"
proof -
  obtain db1 ob where i: "InsertPaymentIntent (wn_fk env) (wn_now env) (intent_of ev) db = Inr db1"
      "outbox_Insert (wn_now env) (payment_row env ev) (dbo_outbox (pt_orders db1)) = Inr ob"
      "db' = db1\<lparr>pt_orders := (pt_orders db1)\<lparr>dbo_outbox := ob\<rparr>\<rparr>" and "\<not> a"
    using assms by (auto simp: webhook_tx_def split: sum.splits if_splits)
  then show "\<not> a" by blast
  have db1: "db1 = db\<lparr>pt_payments := pt_payments db @ [(intent_of ev)\<lparr>pa_ID := pt_next db, pa_CapturedAt := None, pa_CreatedAt := wn_now env, pa_UpdatedAt := wn_now env\<rparr>],
      pt_next := pt_next db + 1\<rparr>" "ve_ProviderRef ev \<notin> pa_IdempotencyKey ` set (pt_payments db)"
    using i(1) by (auto simp: InsertPaymentIntent_def find_None_iff2 intent_of_def split: if_splits)
  have "ob = \<lparr>ob_rows = ob_rows (dbo_outbox (pt_orders db)) @ [(payment_row env ev)\<lparr>o_id := ob_next (dbo_outbox (pt_orders db)), o_created_at := wn_now env, o_published_at := None\<rparr>],
      ob_next = ob_next (dbo_outbox (pt_orders db)) + 1\<rparr>"
    using i(2) unfolding db1(1) by (auto simp: outbox_Insert_def split: if_splits)
  then show "\<exists>p row n. db' = db\<lparr>pt_payments := pt_payments db @ [p], pt_next := pt_next db + 1,
      pt_orders := (pt_orders db)\<lparr>dbo_outbox := \<lparr>ob_rows = ob_rows (dbo_outbox (pt_orders db)) @ [row], ob_next = n\<rparr>\<rparr>\<rparr> \<and>
    p = (intent_of ev)\<lparr>pa_ID := pt_next db, pa_CapturedAt := None, pa_CreatedAt := wn_now env, pa_UpdatedAt := wn_now env\<rparr> \<and>
    row = (payment_row env ev)\<lparr>o_id := ob_next (dbo_outbox (pt_orders db)), o_created_at := wn_now env, o_published_at := None\<rparr> \<and>
    ve_ProviderRef ev \<notin> pa_IdempotencyKey ` set (pt_payments db)"
    using i(3) db1 by (intro exI) (auto)
qed

lemma webhook_tx_inv:
  assumes "pay_inv db" "webhook_tx env ev db = (Inr (a, db'), False)" "ve_OrderID ev = 0" "is_i64 (ve_AmountMinor ev)"
  shows "pay_inv db'"
proof -
  obtain p row n where e: "db' = db\<lparr>pt_payments := pt_payments db @ [p], pt_next := pt_next db + 1,
      pt_orders := (pt_orders db)\<lparr>dbo_outbox := \<lparr>ob_rows = ob_rows (dbo_outbox (pt_orders db)) @ [row], ob_next = n\<rparr>\<rparr>\<rparr>"
      "p = (intent_of ev)\<lparr>pa_ID := pt_next db, pa_CapturedAt := None, pa_CreatedAt := wn_now env, pa_UpdatedAt := wn_now env\<rparr>"
      "row = (payment_row env ev)\<lparr>o_id := ob_next (dbo_outbox (pt_orders db)), o_created_at := wn_now env, o_published_at := None\<rparr>"
      "ve_ProviderRef ev \<notin> pa_IdempotencyKey ` set (pt_payments db)"
    using webhook_tx_commit(2) [OF assms(2)] by blast
  have "payment_ok p" unfolding e(2) using assms(3,4)
    by (simp add: payment_ok_def intent_of_def paymentStatusFromEvent_def split: payment_event_type.splits)
  moreover have "event_of p row" unfolding e(2,3)
    by (simp add: event_of_def intent_of_def payment_row_def payment_json_def psp_key_def jint_def jstr_def outboxEventType_def outboxEventFromStatus_def
        paymentStatusFromEvent_def split: payment_event_type.splits)
  moreover have "payment_rows (pt_orders db') = payment_rows (pt_orders db) @ [row]" unfolding e(1) by (simp add: payment_rows_def e(3) payment_row_def)
  moreover have "order_inv (pt_orders db')" using assms(1) same_orders_inv [of "pt_orders db" "pt_orders db'"] unfolding e(1) by (simp add: pay_inv_def same_orders_def)
  moreover have "pa_IdempotencyKey p \<notin> pa_IdempotencyKey ` set (pt_payments db)" "pa_ID p = pt_next db" using e(2,4) by (simp_all add: intent_of_def)
  ultimately show ?thesis using assms(1) unfolding pay_inv_def by (simp add: e(1) fresh_ids_append list_all2_appendI)
qed

lemma set_seen_db [simp]: "py_db (set_seen env ref st) = py_db st" "py_redis (set_seen env ref st) = py_redis st"
  by (simp_all add: set_seen_def)

lemma process_event_inv:
  assumes "pay_inv (py_db st)" "process_event env ev st = (code, st')" "ve_OrderID ev = 0" "is_i64 (ve_AmountMinor ev)"
  shows "pay_inv (py_db st')"
proof (cases "seen env (ve_ProviderRef ev) st")
  case True
  then show ?thesis using assms(1,2) by (simp add: process_event_def)
next
  case False
  obtain res db1 where w: "pay_WithTx (wn_outs env) (webhook_tx env ev) (py_db st) = (res, db1)" by fastforce
  have inv: "pay_inv db1" using w by (cases rule: pay_WithTx_cases) (use assms(1) webhook_tx_inv [OF assms(1) _ assms(3,4)] in blast)+
  have "pay_inv (db1\<lparr>pt_orders := od\<rparr>)" if "captureFinalizer ok envs ref (pt_orders db1) r = (od, r')" for ok envs ref r od r'
    using pay_inv_orders [OF inv captureFinalizer_grows captureFinalizer_inv] inv that by (metis fst_conv pay_inv_def)
  then show ?thesis
    using assms(2) False w inv by (auto simp: process_event_def Let_def split: sum.splits if_splits prod.splits)
qed

lemma ServeHTTP_cases:
  assumes "ServeHTTP env body st = (code, st')"
  obtains (refused) "st' = st" "code \<in> {400, 401}"
  | (accepted) j sig t ev where "body = Some j" "jstr ''hash_key'' j = Some sig" "jint ''timestamp'' j = Some t"
      "ConfirmWebhook (wn_sha512 env) (wn_cfg env) (wn_now env) j sig = Inr ev" "process_event env ev st = (code, st')"
      "\<not> (t > 0 \<and> wn_now env - t * 10 ^ 9 > five_minutes)"
  using assms by (auto simp: ServeHTTP_def split: option.splits sum.splits if_splits)

lemma ServeHTTP_inv:
  assumes "pay_inv (py_db st)" "ServeHTTP env body st = (code, st')"
  shows "pay_inv (py_db st')"
  using assms(2)
proof (cases rule: ServeHTTP_cases)
  case (accepted j sig t ev)
  then have "ve_OrderID ev = 0" "is_i64 (ve_AmountMinor ev)" by (auto simp: ConfirmWebhook_iff ParseInt64_range)
  then show ?thesis using process_event_inv assms(1) accepted(5) by blast
qed (use assms(1) in simp)

subsection \<open>Reconciler and refunds\<close>

lemma runOnce_idle: "pay_inv db \<Longrightarrow> snd (runOnce env db) = db"
proof -
  assume "pay_inv db"
  then have "filter (\<lambda>p. pa_Status p = PaymentStatusPending \<and> (case pa_ExpiresAt p of None \<Rightarrow> False | Some t \<Rightarrow> t < rv_now env - two_minutes)) (pt_payments db) = []"
    by (auto simp: pay_inv_def payment_ok_def filter_empty_conv)
  then have "FindExpiredPendingPayments (rv_now env) reconcilerBatchSize db = []" by (simp add: FindExpiredPendingPayments_def)
  then show ?thesis by (simp add: runOnce_def)
qed

lemma refund_idle:
  assumes "pay_inv db"
  shows "\<exists>code. (code = 404 \<or> code = 409) \<and> handleRefundOrder senv oenv outs now key i (db, sx) = (code, db, sx)"
proof (cases "repo_GetOrder (pt_orders db) i")
  case (Inl e)
  then have "e = ErrOrderNotFound" by (auto simp: repo_GetOrder_def split: option.splits)
  then show ?thesis using Inl by (simp add: handleRefundOrder_def)
next
  case (Inr r)
  obtain ord items where o: "r = (ord, items)" by fastforce
  have "0 < i" using Inr o assms by (auto simp: repo_GetOrder_def pay_inv_def order_inv_def fresh_ids_def split: option.splits dest!: find_SomeD)
  then have "filter (\<lambda>r. pa_OrderID r = i) (pt_payments db) = []" using assms by (auto simp: pay_inv_def payment_ok_def filter_empty_conv)
  then have "FindPaymentByOrderID db i = Inl ErrPaymentNotFound" by (simp add: FindPaymentByOrderID_def)
  then show ?thesis using Inr o by (simp add: handleRefundOrder_def)
qed

lemma pay_step_inv: "pay_step st st' \<Longrightarrow> pay_inv (py_db st) \<Longrightarrow> pay_inv (py_db st')"
proof (induction rule: pay_step.induct)
  case (webhook env body st code st')
  then show ?case using ServeHTTP_inv by blast
next
  case (reconcile renv st e db)
  then have "db = py_db st" using runOnce_idle [OF reconcile(2), of renv] by simp
  then show ?case using reconcile(2) by simp
next
  case (refund senv oenv outs now key i st sx code db sx')
  obtain c where "handleRefundOrder senv oenv outs now key i (py_db st, sx) = (c, py_db st, sx)"
    using refund_idle [OF refund(2)] by blast
  then have "db = py_db st" using refund(1) by simp
  then show ?case using refund(2) by simp
next
  case (order st od)
  have "order_inv od" using order(1) order(2) order_step_inv by (auto simp: pay_inv_def)
  then show ?case using pay_inv_orders [OF order(2) order_step_grows [OF order(1)]] by simp
qed

lemma pay_reachable: "pay_step\<^sup>*\<^sup>* st st' \<Longrightarrow> pay_inv (py_db st) \<Longrightarrow> pay_inv (py_db st')"
  by (induction rule: rtranclp_induct) (auto intro: pay_step_inv)

section \<open>Properties\<close>

text \<open>
  C9. One payment, one event. Whatever webhooks arrive, repeated, reordered or failing half way, every provider reference has at
  most one stored payment, and the outbox holds one event per payment, in the same order, with the payment's reference, amount
  and outcome.
\<close>

theorem payments_once:
  assumes "pay_inv (py_db st0)" "pay_step\<^sup>*\<^sup>* st0 st"
  shows "distinct (map pa_ProviderRef (pt_payments (py_db st))) \<and>
    list_all2 (\<lambda>p row. o_idempotency_key row = psp_key (pa_ProviderRef p) \<and> o_event_type row = outboxEventFromStatus (pa_Status p) \<and>
      jint ''amount_minor'' (o_payload row) = Some (pa_AmountMinor p)) (pt_payments (py_db st)) (payment_rows (pt_orders (py_db st)))"
proof -
  have inv: "pay_inv (py_db st)" using pay_reachable [OF assms(2,1)] .
  have ref: "pa_ProviderRef p = pa_IdempotencyKey p" if "p \<in> set (pt_payments (py_db st))" for p using inv that by (simp add: pay_inv_def payment_ok_def)
  then have m: "map pa_ProviderRef (pt_payments (py_db st)) = map pa_IdempotencyKey (pt_payments (py_db st))" by simp
  have "distinct (map pa_ProviderRef (pt_payments (py_db st)))" unfolding m using inv by (simp add: pay_inv_def)
  moreover have "list_all2 event_of (pt_payments (py_db st)) (payment_rows (pt_orders (py_db st)))" using inv by (simp add: pay_inv_def)
  then have "list_all2 (\<lambda>p row. o_idempotency_key row = psp_key (pa_ProviderRef p) \<and> o_event_type row = outboxEventFromStatus (pa_Status p) \<and>
      jint ''amount_minor'' (o_payload row) = Some (pa_AmountMinor p)) (pt_payments (py_db st)) (payment_rows (pt_orders (py_db st)))"
    using ref by (auto simp: list_all2_conv_all_nth event_of_def)
  ultimately show ?thesis by blast
qed

text \<open>
  C27. The rows of the payments table are well formed in every reachable state: a status the webhook can produce, an
  amount that fits its column whatever digits the webhook carried, a reference that is the idempotency key, and ids from the sequence.
\<close>

theorem payments_well_typed:
  assumes "pay_inv (py_db st0)" "pay_step\<^sup>*\<^sup>* st0 st"
  shows "\<forall>p \<in> set (pt_payments (py_db st)). is_i64 (pa_AmountMinor p) \<and> pa_ProviderRef p = pa_IdempotencyKey p \<and> 0 < pa_ID p \<and> pa_ID p < pt_next (py_db st) \<and>
    pa_Status p \<in> {PaymentStatusCaptured, PaymentStatusFailed, PaymentStatusRefunded}"
  using pay_reachable [OF assms(2,1)] by (auto simp: pay_inv_def payment_ok_def fresh_ids_def)

text \<open>
  C25. Only signed webhooks act. If a request changes anything, its body carries the digest of the merchant key and its own
  fields; and if it carries a timestamp (a positive one), it is by that timestamp at most five minutes old. A body with timestamp 0, as
  old clients send it, is accepted at any age.
\<close>

theorem webhook_signed:
  assumes "ServeHTTP env body st = (code, st')" "st' \<noteq> st"
  shows "\<exists>j wh t. body = Some j \<and> decode_webhook j = Some wh \<and> jint ''timestamp'' j = Some t \<and>
    jstr ''hash_key'' j = Some (SignWebhook (wn_sha512 env) (cfg_MerchantKey (wn_cfg env)) (itoa (wb_StatusCode wh)) (wb_InvoiceID wh) (wb_TotalAmount wh) (wb_CurrencyCode wh)) \<and>
    (0 < t \<longrightarrow> wn_now env \<le> t * 10 ^ 9 + five_minutes)"
  using assms(1)
proof (cases rule: ServeHTTP_cases)
  case (accepted j sig t ev)
  then show ?thesis by (auto simp: ConfirmWebhook_iff SignWebhook_def)
qed (use assms(2) in simp)

text \<open>An order that waits for its payment, and has no payment event yet.\<close>

definition awaits_payment :: "order_db \<Rightarrow> int \<Rightarrow> bool" where
  "awaits_payment db oid \<longleftrightarrow>
     (\<exists>ord items. repo_GetOrder db oid = Inr (ord, items) \<and> or_Status ord = StatusPendingPayment) \<and>
     paid_event_key oid \<notin> o_idempotency_key ` set (ob_rows (dbo_outbox db))"

text \<open>The same database after the orders of a set have been paid: their status, and one event each with the order as it was.\<close>

definition paid_row :: "order \<Rightarrow> instant \<Rightarrow> order" where
  "paid_row r t = r\<lparr>or_Status := StatusPaid, or_UpdatedAt := t\<rparr>"

definition paid_event :: "(int \<Rightarrow> order_env) \<Rightarrow> order_db \<Rightarrow> int \<Rightarrow> outbox_row \<Rightarrow> bool" where
  "paid_event env db oid row \<longleftrightarrow>
     (\<exists>ord items. repo_GetOrder db oid = Inr (ord, items) \<and> o_event_type row = ''ecom.order.paid.v1'' \<and>
        o_idempotency_key row = paid_event_key oid \<and> o_payload row = buildPaidPayload ord items (oe_now (env oid)))"

definition orders_paid :: "(int \<Rightarrow> order_env) \<Rightarrow> int set \<Rightarrow> order_db \<Rightarrow> order_db \<Rightarrow> bool" where
  "orders_paid env ids db db' \<longleftrightarrow>
     finite ids \<and> dbo_items db' = dbo_items db \<and>
     dbo_orders db' = map (\<lambda>r. if or_ID r \<in> ids then paid_row r (oe_now (env (or_ID r))) else r) (dbo_orders db) \<and>
     (\<exists>rows. ob_rows (dbo_outbox db') = ob_rows (dbo_outbox db) @ rows \<and> length rows = card ids \<and> (\<forall>row \<in> set rows. \<exists>oid \<in> ids. paid_event env db oid row) \<and>
        (\<forall>oid \<in> ids. \<exists>row \<in> set rows. paid_event env db oid row))"

lemma orders_paid_refl: "orders_paid env {} db db"
  by (simp add: orders_paid_def)

lemma paid_event_key_inj: "paid_event_key a = paid_event_key b \<longleftrightarrow> a = b"
  by (simp add: paid_event_key_def)

lemma find_same_id: "(\<And>r. or_ID (f r) = or_ID r) \<Longrightarrow> List.find (\<lambda>r. or_ID r = i) (map f rows) = map_option f (List.find (\<lambda>r. or_ID r = i) rows)"
  by (induction rows) auto

lemma GetOrder_paid:
  assumes "orders_paid env ids db db'" "repo_GetOrder db oid = Inr (ord, items)"
  shows "repo_GetOrder db' oid = Inr (if oid \<in> ids then paid_row ord (oe_now (env oid)) else ord, items)"
proof -
  let ?f = "\<lambda>r. if or_ID r \<in> ids then paid_row r (oe_now (env (or_ID r))) else r"
  have f: "List.find (\<lambda>r. or_ID r = oid) (dbo_orders db) = Some ord" "items = GetOrderItems db oid"
    using assms(2) by (auto simp: repo_GetOrder_def split: option.splits)
  have i: "or_ID ord = oid" using find_SomeD [OF f(1)] by simp
  have "List.find (\<lambda>r. or_ID r = oid) (map ?f (dbo_orders db)) = Some (?f ord)"
    using f(1) by (subst find_same_id) (simp_all add: paid_row_def)
  then show ?thesis using assms(1) f(2) i by (simp add: orders_paid_def repo_GetOrder_def GetOrderItems_def)
qed

lemma MarkPaid_pays:
  assumes paid: "orders_paid env ids db db'" and wait: "awaits_payment db oid" and quiet: "oe_outs (env oid) = []"
  shows "orders_paid env (insert oid ids) db (snd (MarkPaid (env oid) oid db'))"
proof -
  obtain ord items where g: "repo_GetOrder db oid = Inr (ord, items)" "or_Status ord = StatusPendingPayment"
      "paid_event_key oid \<notin> o_idempotency_key ` set (ob_rows (dbo_outbox db))" using wait by (auto simp: awaits_payment_def)
  note g' = GetOrder_paid [OF paid g(1)]
  show ?thesis
  proof (cases "oid \<in> ids")
    case True
    then have "snd (MarkPaid (env oid) oid db') = db'" using g' by (simp add: MarkPaid_def paid_row_def)
    then show ?thesis using paid True by (simp add: insert_absorb)
  next
    case False
    define row where "row = order_outbox_row ''ecom.order.paid.v1'' (buildPaidPayload ord items (oe_now (env oid))) (paid_event_key oid) ord"
    obtain rows where rows: "ob_rows (dbo_outbox db') = ob_rows (dbo_outbox db) @ rows" "\<forall>row \<in> set rows. \<exists>o2 \<in> ids. paid_event env db o2 row"
        "\<forall>o2 \<in> ids. \<exists>row \<in> set rows. paid_event env db o2 row" "length rows = card ids" "finite ids" using paid by (auto simp: orders_paid_def)
    have key: "o_idempotency_key row = paid_event_key oid" by (simp add: row_def order_outbox_row_def)
    have "paid_event_key oid \<notin> o_idempotency_key ` set rows"
    proof
      assume "paid_event_key oid \<in> o_idempotency_key ` set rows"
      then obtain r where r: "r \<in> set rows" "o_idempotency_key r = paid_event_key oid" by auto
      then obtain o2 where "o2 \<in> ids" "o_idempotency_key r = paid_event_key o2" using rows(2) by (auto simp: paid_event_def)
      then show False using r(2) False by (simp add: paid_event_key_inj)
    qed
    then have none: "List.find (\<lambda>r. o_idempotency_key r = o_idempotency_key row) (ob_rows (dbo_outbox db')) = None"
      using g(3) by (simp add: find_None_iff2 rows(1) key) (metis image_eqI Un_iff)
    have o: "List.find (\<lambda>r. or_ID r = oid) (dbo_orders db') = Some ord" using g' False by (auto simp: repo_GetOrder_def split: option.splits)
    then have hit: "rows_affected (\<lambda>r. or_ID r = oid) (dbo_orders db') \<noteq> 0"
      using find_SomeD [OF o] by (auto simp: rows_affected_def filter_empty_conv)
    define row' where "row' = row\<lparr>o_id := ob_next (dbo_outbox db'), o_created_at := oe_now (env oid), o_published_at := None\<rparr>"
    have run: "snd (MarkPaid (env oid) oid db') = db'\<lparr>dbo_orders := update_where (\<lambda>r. or_ID r = oid) (\<lambda>r. paid_row r (oe_now (env oid))) (dbo_orders db'),
        dbo_outbox := \<lparr>ob_rows = ob_rows (dbo_outbox db') @ [row'], ob_next = ob_next (dbo_outbox db') + 1\<rparr>\<rparr>"
      using g' g(2) False none hit quiet
      by (simp add: MarkPaid_def ValidTransition_def validTransitions_def order_WithTx_quiet with_outbox_def repo_UpdateStatus_def outbox_Insert_def
          err_of_def paid_row_def row'_def flip: row_def)
    have ev: "paid_event env db oid row'"
      using g(1) by (simp add: paid_event_def row'_def row_def order_outbox_row_def)
    have "update_where (\<lambda>r. or_ID r = oid) (\<lambda>r. paid_row r (oe_now (env oid))) (dbo_orders db') =
        map (\<lambda>r. if or_ID r \<in> insert oid ids then paid_row r (oe_now (env (or_ID r))) else r) (dbo_orders db)"
      using paid False by (auto simp: orders_paid_def update_where_def paid_row_def)
    moreover have "dbo_items db' = dbo_items db" using paid by (simp add: orders_paid_def)
    ultimately show ?thesis unfolding run orders_paid_def
      using rows ev False by (intro conjI exI [of _ "rows @ [row']"]) auto
  qed
qed

lemma mark_all_paid_pays:
  "orders_paid env ids db db' \<Longrightarrow> \<forall>oid \<in> set oids. awaits_payment db oid \<Longrightarrow> \<forall>oid. oe_outs (env oid) = [] \<Longrightarrow>
     orders_paid env (ids \<union> set oids) db (mark_all_paid env oids db')"
proof (induction oids arbitrary: ids db')
  case (Cons oid oids)
  have "orders_paid env (insert oid ids) db (snd (MarkPaid (env oid) oid db'))" by (rule MarkPaid_pays) (use Cons.prems in auto)
  from Cons.IH [OF this] show ?case using Cons.prems by simp
qed simp

text \<open>
  C15. A capture is stored and pays the orders, where the payments table has no foreign key to the orders (the deployed one refuses it, see
  below). A signed and fresh capture for a reference not seen before is answered 200 and stores the payment with
  its event. If the reference is the session of a checkout whose orders wait for payment, and the database answers, every order of the session becomes
  paid and leaves one event with its items and total, every other order stays as it is, and the session's reservation is committed; the
  amount of the webhook is not compared with the orders.
\<close>

theorem capture_pays_orders:
  assumes "ConfirmWebhook (wn_sha512 env) (wn_cfg env) (wn_now env) (webhook_json wh sig t) sig = Inr ev" "wb_StatusCode wh = 100"
    "0 < t \<longrightarrow> wn_now env \<le> t * 10 ^ 9 + five_minutes"
    "\<not> wn_fk env" "wn_outs env = []" "\<not> seen env (wb_InvoiceID wh) st" "wb_InvoiceID wh \<notin> pa_IdempotencyKey ` set (pt_payments (py_db st))"
    "psp_key (wb_InvoiceID wh) \<notin> o_idempotency_key ` set (ob_rows (dbo_outbox (pt_orders (py_db st))))"
    and session: "wn_find_ok env" "FindCheckoutSessionByID (pt_orders (py_db st)) (wb_InvoiceID wh) = Inr session"
      "\<forall>oid \<in> set (se_OrderIDs session). awaits_payment (pt_orders (py_db st)) oid" "\<forall>oid. oe_outs (wn_orders env oid) = []"
  shows "\<exists>st' p row rows. ServeHTTP env (Some (webhook_json wh sig t)) st = (200, st') \<and>
    pt_payments (py_db st') = pt_payments (py_db st) @ [p] \<and> pa_ProviderRef p = wb_InvoiceID wh \<and> pa_AmountMinor p = ParseInt64 (wb_TotalAmount wh) \<and>
    pa_Status p = PaymentStatusCaptured \<and>
    dbo_orders (pt_orders (py_db st')) = map (\<lambda>r. if or_ID r \<in> set (se_OrderIDs session)
      then r\<lparr>or_Status := StatusPaid, or_UpdatedAt := oe_now (wn_orders env (or_ID r))\<rparr> else r) (dbo_orders (pt_orders (py_db st))) \<and>
    ob_rows (dbo_outbox (pt_orders (py_db st'))) = ob_rows (dbo_outbox (pt_orders (py_db st))) @ row # rows \<and> length rows = card (set (se_OrderIDs session)) \<and>
    o_event_type row = ''ecom.payment.captured.v1'' \<and> o_idempotency_key row = psp_key (wb_InvoiceID wh) \<and>
    (\<forall>r \<in> set rows. \<exists>oid \<in> set (se_OrderIDs session). paid_event (wn_orders env) (pt_orders (py_db st)) oid r) \<and>
    (\<forall>oid \<in> set (se_OrderIDs session). \<exists>r \<in> set rows. paid_event (wn_orders env) (pt_orders (py_db st)) oid r) \<and>
    py_redis st' = (if se_ReservationID session \<noteq> [] then snd (CommitReservation (se_ReservationID session) (py_redis st)) else py_redis st)"
proof -
  let ?o = "pt_orders (py_db st)"
  have ev: "ve_ProviderRef ev = wb_InvoiceID wh" "ve_Type ev = PaymentEventCaptured" "ve_AmountMinor ev = ParseInt64 (wb_TotalAmount wh)"
    using assms(1,2) by (auto simp: ConfirmWebhook_iff webhook_type_def)
  define p where "p = (intent_of ev)\<lparr>pa_ID := pt_next (py_db st), pa_CapturedAt := None, pa_CreatedAt := wn_now env, pa_UpdatedAt := wn_now env\<rparr>"
  define row where "row = (payment_row env ev)\<lparr>o_id := ob_next (dbo_outbox ?o), o_created_at := wn_now env, o_published_at := None\<rparr>"
  define od where "od = ?o\<lparr>dbo_outbox := \<lparr>ob_rows = ob_rows (dbo_outbox ?o) @ [row], ob_next = ob_next (dbo_outbox ?o) + 1\<rparr>\<rparr>"
  define db1 where "db1 = (py_db st)\<lparr>pt_payments := pt_payments (py_db st) @ [p], pt_next := pt_next (py_db st) + 1, pt_orders := od\<rparr>"
  have k: "pa_IdempotencyKey (intent_of ev) = wb_InvoiceID wh" "o_idempotency_key (payment_row env ev) = psp_key (wb_InvoiceID wh)"
    by (simp_all add: intent_of_def payment_row_def ev)
  have "InsertPaymentIntent (wn_fk env) (wn_now env) (intent_of ev) (py_db st) = Inr ((py_db st)\<lparr>pt_payments := pt_payments (py_db st) @ [p], pt_next := pt_next (py_db st) + 1\<rparr>)"
    using assms(4,7) by (auto simp: InsertPaymentIntent_def find_None_iff2 k p_def intent_of_def ev image_iff)
  moreover have "outbox_Insert (wn_now env) (payment_row env ev) (dbo_outbox ?o) = Inr (dbo_outbox od)"
    using assms(8) by (auto simp: outbox_Insert_def find_None_iff2 k od_def row_def image_iff)
  ultimately have "webhook_tx env ev (py_db st) = (Inr (False, db1), False)" by (simp add: webhook_tx_def db1_def od_def)
  then have w: "pay_WithTx (wn_outs env) (webhook_tx env ev) (py_db st) = (Inr False, db1)" using assms(5) by (simp add: pay_WithTx_def one_tx_quiet)
  obtain od2 r2 where c: "captureFinalizer (wn_find_ok env) (wn_orders env) (wb_InvoiceID wh) od (py_redis st) = (od2, r2)" by fastforce
  define st' where "st' = (set_seen env (wb_InvoiceID wh) (st\<lparr>py_db := db1\<rparr>))\<lparr>py_db := db1\<lparr>pt_orders := od2\<rparr>, py_redis := r2\<rparr>"
  have "process_event env ev st = (200, st')" using assms(6) w c ev by (simp add: process_event_def st'_def Let_def db1_def)
  moreover have "jstr ''hash_key'' (webhook_json wh sig t) = Some sig" "jint ''timestamp'' (webhook_json wh sig t) = Some t"
    by (simp_all add: webhook_json_def jstr_def jint_def)
  moreover have "\<not> (0 < t \<and> five_minutes < wn_now env - t * 10 ^ 9)" using assms(3) by auto
  ultimately have serve: "ServeHTTP env (Some (webhook_json wh sig t)) st = (200, st')" using assms(1) by (auto simp: ServeHTTP_def)
  have row: "o_event_type row = ''ecom.payment.captured.v1''" "o_idempotency_key row = psp_key (wb_InvoiceID wh)"
    by (simp_all add: row_def payment_row_def ev outboxEventType_def)
  have "repo_GetOrder od oid = repo_GetOrder ?o oid" for oid by (simp add: repo_GetOrder_def GetOrderItems_def od_def split: option.split)
  moreover have "paid_event_key oid \<noteq> psp_key x" for oid x by (simp add: paid_event_key_def psp_key_def)
  ultimately have od: "awaits_payment od oid \<longleftrightarrow> awaits_payment ?o oid" "paid_event (wn_orders env) od oid r \<longleftrightarrow> paid_event (wn_orders env) ?o oid r" for oid r
    by (simp_all add: awaits_payment_def paid_event_def) (simp add: od_def row)
  have fin: "od2 = mark_all_paid (wn_orders env) (se_OrderIDs session) od"
      "r2 = (if se_ReservationID session \<noteq> [] then snd (CommitReservation (se_ReservationID session) (py_redis st)) else py_redis st)"
    using c session(1,2) by (auto simp: captureFinalizer_def FindCheckoutSessionByID_def od_def split: option.splits)
  have paid: "orders_paid (wn_orders env) (set (se_OrderIDs session)) od od2"
    using mark_all_paid_pays [OF orders_paid_refl, of "se_OrderIDs session" od "wn_orders env"] session(3,4) by (simp add: fin(1) od(1))
  obtain rows where rows: "ob_rows (dbo_outbox od2) = ob_rows (dbo_outbox od) @ rows"
      "\<forall>r \<in> set rows. \<exists>oid \<in> set (se_OrderIDs session). paid_event (wn_orders env) ?o oid r"
      "\<forall>oid \<in> set (se_OrderIDs session). \<exists>r \<in> set rows. paid_event (wn_orders env) ?o oid r" "length rows = card (set (se_OrderIDs session))"
    using paid unfolding orders_paid_def od(2) by blast
  have st': "pt_payments (py_db st') = pt_payments (py_db st) @ [p]" "pt_orders (py_db st') = od2" "py_redis st' = r2" by (simp_all add: st'_def db1_def)
  have "pa_ProviderRef p = wb_InvoiceID wh" "pa_AmountMinor p = ParseInt64 (wb_TotalAmount wh)" "pa_Status p = PaymentStatusCaptured"
    by (simp_all add: p_def intent_of_def ev paymentStatusFromEvent_def)
  moreover have "dbo_orders od2 = map (\<lambda>r. if or_ID r \<in> set (se_OrderIDs session)
      then r\<lparr>or_Status := StatusPaid, or_UpdatedAt := oe_now (wn_orders env (or_ID r))\<rparr> else r) (dbo_orders ?o)"
    using paid by (simp add: orders_paid_def paid_row_def od_def)
  moreover have "ob_rows (dbo_outbox od2) = ob_rows (dbo_outbox ?o) @ row # rows" using rows(1) by (simp add: od_def)
  ultimately show ?thesis unfolding fin(2) [symmetric]
    using serve st' row rows(2-4) by (intro exI [of _ st'] exI [of _ p] exI [of _ row] exI [of _ rows]) simp
qed

text \<open>
  The first webhook of a reference is the only one that counts. Once a payment is stored, any later webhook for its
  reference changes nothing: a capture after a failed attempt is lost, and a refund after the capture too. Unless Redis
  remembers the reference, the answer is 500, so the provider keeps retrying.
\<close>

theorem repeated_reference:
  assumes "p \<in> set (pt_payments (py_db st))" "pa_IdempotencyKey p = wb_InvoiceID wh"
    "ConfirmWebhook (wn_sha512 env) (wn_cfg env) (wn_now env) (webhook_json wh sig 0) sig = Inr ev"
  shows "ServeHTTP env (Some (webhook_json wh sig 0)) st = (if seen env (wb_InvoiceID wh) st then 200 else 500, st)"
proof -
  have ref: "ve_ProviderRef ev = wb_InvoiceID wh" using assms(3) by (auto simp: ConfirmWebhook_iff)
  then have "webhook_tx env ev (py_db st) = (Inr (True, py_db st), True)"
    using assms(1,2) by (auto simp: webhook_tx_def InsertPaymentIntent_def intent_of_def find_None_iff2)
  then have "\<exists>e. pay_WithTx (wn_outs env) (webhook_tx env ev) (py_db st) = (Inl e, py_db st)"
  proof -
    obtain res db' where w: "pay_WithTx (wn_outs env) (webhook_tx env ev) (py_db st) = (res, db')" by fastforce
    then show ?thesis by (cases rule: pay_WithTx_cases) (use w \<open>webhook_tx env ev (py_db st) = _\<close> in auto)
  qed
  then obtain e where "pay_WithTx (wn_outs env) (webhook_tx env ev) (py_db st) = (Inl e, py_db st)" ..
  then have "process_event env ev st = (if seen env (wb_InvoiceID wh) st then 200 else 500, st)" by (simp add: process_event_def ref)
  moreover have "jstr ''hash_key'' (webhook_json wh sig 0) = Some sig" "jint ''timestamp'' (webhook_json wh sig 0) = Some 0"
    by (simp_all add: webhook_json_def jstr_def jint_def)
  ultimately show ?thesis using assms(3) by (simp add: ServeHTTP_def)
qed

text \<open>
  C37. The deployed foreign key refuses every payment. Events carry order 0, no order has that id, so with the table as
  deployed no webhook stores a payment, adds an event or touches an order: the state stays as it is, and every signed and fresh one is answered 500, so that
  the provider keeps repeating it. (An order can still become paid by the status endpoint, without a payment.)
\<close>

theorem deployed_schema_refuses_payments:
  assumes "order_inv (pt_orders (py_db st))" "pt_payments (py_db st) = []" "py_seen st = []" "wn_fk env"
  shows "snd (ServeHTTP env body st) = st \<and> fst (ServeHTTP env body st) \<in> {400, 401, 500} \<and>
    (\<forall>j sig t ev. body = Some j \<and> jstr ''hash_key'' j = Some sig \<and> jint ''timestamp'' j = Some t \<and>
       ConfirmWebhook (wn_sha512 env) (wn_cfg env) (wn_now env) j sig = Inr ev \<and> (0 < t \<longrightarrow> wn_now env \<le> t * 10 ^ 9 + five_minutes) \<longrightarrow>
       fst (ServeHTTP env body st) = 500)"
proof -
  have refused: "process_event env ev st = (500, st)"
    if "ConfirmWebhook (wn_sha512 env) (wn_cfg env) (wn_now env) j sig = Inr ev" for j sig ev
  proof -
    have z: "ve_OrderID ev = 0" using that by (auto simp: ConfirmWebhook_iff)
    have "0 \<notin> or_ID ` set (dbo_orders (pt_orders (py_db st)))" using assms(1) by (auto simp: order_inv_def fresh_ids_def)
    then have "InsertPaymentIntent (wn_fk env) (wn_now env) (intent_of ev) (py_db st) = Inl PayConstraint"
      using assms(2,4) z by (auto simp: InsertPaymentIntent_def intent_of_def find_None_iff2)
    then have f: "webhook_tx env ev (py_db st) = (Inl PayConstraint, True)" by (simp add: webhook_tx_def)
    obtain res db' where w: "pay_WithTx (wn_outs env) (webhook_tx env ev) (py_db st) = (res, db')" by fastforce
    then have "(\<exists>e. res = Inl e) \<and> db' = py_db st" using f by (cases rule: pay_WithTx_cases) auto
    then show ?thesis using w assms(3) by (auto simp: process_event_def seen_def)
  qed
  have "snd (ServeHTTP env body st) = st \<and> fst (ServeHTTP env body st) \<in> {400, 401, 500}"
  proof (cases "ServeHTTP env body st")
    case (Pair code st')
    from Pair show ?thesis
    proof (cases rule: ServeHTTP_cases)
      case (accepted j sig t ev)
      then show ?thesis using Pair refused [OF accepted(4)] by simp
    qed (use Pair in auto)
  qed
  moreover have "fst (ServeHTTP env (Some j) st) = 500"
    if "jstr ''hash_key'' j = Some sig" "jint ''timestamp'' j = Some t" "ConfirmWebhook (wn_sha512 env) (wn_cfg env) (wn_now env) j sig = Inr ev"
      "0 < t \<longrightarrow> wn_now env \<le> t * 10 ^ 9 + five_minutes" for j sig t ev
  proof -
    have "\<not> (0 < t \<and> five_minutes < wn_now env - t * 10 ^ 9)" using that(4) by auto
    then show ?thesis using that(1-3) refused [OF that(3)] by (auto simp: ServeHTTP_def)
  qed
  ultimately show ?thesis by blast
qed

text \<open>
  Neither the reconciler nor the refund of an order ever finds a payment. No payment is ever pending or has an
  expiry, and none names its order: in every reachable state a pass of the reconciler changes nothing, and refunding an order is answered
  404 or 409 without reaching the provider.
\<close>

theorem reconciler_and_refund_idle:
  assumes "pay_inv (py_db st0)" "pay_step\<^sup>*\<^sup>* st0 st"
  shows "snd (runOnce renv (py_db st)) = py_db st \<and>
    (\<exists>code. (code = 404 \<or> code = 409) \<and> handleRefundOrder senv oenv outs now key i (py_db st, sx) = (code, py_db st, sx))"
proof
  have inv: "pay_inv (py_db st)" using pay_reachable [OF assms(2,1)] .
  then show "snd (runOnce renv (py_db st)) = py_db st" by (rule runOnce_idle)
  from inv show "\<exists>code. (code = 404 \<or> code = 409) \<and> handleRefundOrder senv oenv outs now key i (py_db st, sx) = (code, py_db st, sx)" by (rule refund_idle)
qed

section \<open>A payment in the shop\<close>

text \<open>An order that waits for its payment, and the checkout session of its invoice.\<close>

definition pay_orders_ex :: order_db where
  "pay_orders_ex = \<lparr>dbo_orders = [\<lparr>or_ID = 2, or_UserID = 70, or_SellerID = 81, or_CheckoutSessionID = ''s1'', or_Status = StatusPendingPayment, or_SubtotalMinor = 1800,
     or_ShippingMinor = 0, or_ShippingPayer = [], or_DiscountMinor = 180, or_CouponCode = [], or_CouponDiscountMinor = 180, or_TotalMinor = 1620, or_Currency = ''TRY'',
     or_Market = ''TR'', or_DeliveredAt = None, or_CashbackEligible = True, or_CashbackCurrency = ''TRY_COIN'', or_IdempotencyKey = ''k2'', or_CreatedAt = 100,
     or_UpdatedAt = 100\<rparr>], dbo_next_order = 3,
   dbo_items = [\<lparr>oi_ID = 2, oi_OrderID = 2, oi_VariantID = 5, oi_SellerID = 81, oi_CategoryID = 1, oi_Qty = 2, oi_UnitPriceMinor = 810, oi_ListUnitPriceMinor = 900,
     oi_BasketDiscountPct = 0, oi_UnitPriceCurrency = ''TRY'', oi_CommissionPctBps = 1500, oi_KdvPctBps = 0, oi_CommissionAmountMinor = 243, oi_KdvAmountMinor = 0,
     oi_SellerNetMinor = 1377\<rparr>], dbo_next_item = 3,
   dbo_sessions = [\<lparr>se_ID = ''s1'', se_UserID = 70, se_ReservationID = [], se_Status = CheckoutSessionPSPInitiated, se_OrderIDs = [2], se_AmountMinor = 1620, se_Currency = ''TRY'',
     se_ProviderRef = ''s1'', se_Installments = 1, se_ExpiresAt = 5000\<rparr>],
   dbo_coupons = [], dbo_redemptions = [], dbo_addresses = [], dbo_outbox = \<lparr>ob_rows = [], ob_next = 1\<rparr>\<rparr>"

definition pay_st0 :: pay_state where
  "pay_st0 = \<lparr>py_db = \<lparr>pt_orders = pay_orders_ex, pt_payments = [], pt_next = 1\<rparr>, py_seen = [], py_redis = shop_ex\<rparr>"

definition webhook_env_ex :: "bool \<Rightarrow> webhook_env" where
  "webhook_env_ex fk = \<lparr>wn_now = 200, wn_sha512 = (\<lambda>s. s), wn_cfg = sipay_cfg_ex, wn_fk = fk, wn_outs = [], wn_redis = False, wn_exists_ok = True, wn_set_ok = True,
     wn_market = ''TR'', wn_currency = ''TRY_COIN'', wn_find_ok = True, wn_orders = (\<lambda>_. order_env_ex False)\<rparr>"

definition wh_ex :: "int \<Rightarrow> string \<Rightarrow> webhook_body" where
  "wh_ex code amount = \<lparr>wb_StatusCode = code, wb_InvoiceID = ''s1'', wb_OrderNo = ''n'', wb_TotalAmount = amount, wb_CurrencyCode = ''TRY'', wb_ErrorMessage = []\<rparr>"

definition sig_ex :: "int \<Rightarrow> string \<Rightarrow> string" where
  "sig_ex code amount = SignWebhook (\<lambda>s. s) ''mk'' (itoa code) ''s1'' amount ''TRY''"

definition pay_st1 :: "int \<Rightarrow> string \<Rightarrow> pay_state" where
  "pay_st1 code amount = snd (ServeHTTP (webhook_env_ex False) (Some (webhook_json (wh_ex code amount) (sig_ex code amount) 0)) pay_st0)"

lemma pay_st0_inv: "pay_inv (py_db pay_st0)"
proof -
  have "order_inv pay_orders_ex"
    by (simp add: order_inv_def pay_orders_ex_def fresh_ids_def item_ok_def order_ok_def GetOrderItems_def item_charge_def sum64_eq wrap64_def)
  then show ?thesis by (simp add: pay_inv_def pay_st0_def fresh_ids_def payment_rows_def) (simp add: pay_orders_ex_def)
qed

lemma pay_st1_run: "pay_step\<^sup>*\<^sup>* pay_st0 (pay_st1 code amount)"
  unfolding pay_st1_def by (rule r_into_rtranclp) (rule pay_step.webhook [OF prod.collapse [symmetric]])

lemma confirm_ex:
  "\<exists>ev. ConfirmWebhook (wn_sha512 (webhook_env_ex fk)) (wn_cfg (webhook_env_ex fk)) (wn_now (webhook_env_ex fk)) (webhook_json (wh_ex code amount) (sig_ex code amount) 0)
     (sig_ex code amount) = Inr ev"
  by (simp add: ConfirmWebhook_iff webhook_env_ex_def wh_ex_def sig_ex_def SignWebhook_def sipay_cfg_ex_def)

lemma pay_st1_eval:
  "map (\<lambda>p. (pa_ProviderRef p, pa_AmountMinor p, pa_Status p)) (pt_payments (py_db (pay_st1 100 ''5''))) = [(''s1'', 5, PaymentStatusCaptured)]"
  "map (\<lambda>p. (pa_IdempotencyKey p, pa_Status p)) (pt_payments (py_db (pay_st1 300 ''1620''))) = [(''s1'', PaymentStatusFailed)]"
  "map or_Status (dbo_orders (pt_orders (py_db (pay_st1 100 ''5'')))) = [StatusPaid]"
  "py_seen (pay_st1 300 ''1620'') = []"
  by code_simp+

theorem payments_once_witness:
  "distinct (map pa_ProviderRef (pt_payments (py_db (pay_st1 100 ''5'')))) \<and> length (pt_payments (py_db (pay_st1 100 ''5''))) = 1 \<and>
   length (payment_rows (pt_orders (py_db (pay_st1 100 ''5'')))) = 1"
proof -
  have n: "length (pt_payments (py_db (pay_st1 100 ''5''))) = 1" using arg_cong [OF pay_st1_eval(1), of length] by simp
  then show ?thesis using payments_once [OF pay_st0_inv pay_st1_run [of 100 "''5''"]] by (auto dest: list_all2_lengthD)
qed

theorem payments_well_typed_witness:
  "\<exists>p. pt_payments (py_db (pay_st1 100 ''5'')) = [p] \<and> is_i64 (pa_AmountMinor p) \<and> 0 < pa_ID p"
proof -
  obtain p where "pt_payments (py_db (pay_st1 100 ''5'')) = [p]" using pay_st1_eval(1) by (auto simp: map_eq_Cons_conv)
  then show ?thesis using payments_well_typed [OF pay_st0_inv pay_st1_run [of 100 "''5''"]] by simp
qed

text \<open>A webhook of its own time: signed, with a timestamp 200 seconds old.\<close>

definition timed_env_ex :: webhook_env where
  "timed_env_ex = (webhook_env_ex False)\<lparr>wn_now := 400 * 10 ^ 9\<rparr>"

lemma timed_eval:
  "map pa_ProviderRef (pt_payments (py_db (snd (ServeHTTP timed_env_ex (Some (webhook_json (wh_ex 100 ''5'') (sig_ex 100 ''5'') 200)) pay_st0)))) = [''s1'']"
  "fst (ServeHTTP timed_env_ex (Some (webhook_json (wh_ex 100 ''5'') (sig_ex 100 ''5'') 99)) pay_st0) = 401"
  by code_simp+

theorem webhook_signed_witness:
  "\<exists>wh. decode_webhook (webhook_json (wh_ex 100 ''5'') (sig_ex 100 ''5'') 200) = Some wh \<and>
     jstr ''hash_key'' (webhook_json (wh_ex 100 ''5'') (sig_ex 100 ''5'') 200) =
       Some (SignWebhook (\<lambda>s. s) ''mk'' (itoa (wb_StatusCode wh)) (wb_InvoiceID wh) (wb_TotalAmount wh) (wb_CurrencyCode wh)) \<and>
     wn_now timed_env_ex \<le> 200 * 10 ^ 9 + five_minutes"
proof -
  have "snd (ServeHTTP timed_env_ex (Some (webhook_json (wh_ex 100 ''5'') (sig_ex 100 ''5'') 200)) pay_st0) \<noteq> pay_st0"
    using timed_eval(1) by (auto simp: pay_st0_def)
  from webhook_signed [OF prod.collapse [symmetric] this]
  obtain wh where "decode_webhook (webhook_json (wh_ex 100 ''5'') (sig_ex 100 ''5'') 200) = Some wh"
      "jint ''timestamp'' (webhook_json (wh_ex 100 ''5'') (sig_ex 100 ''5'') 200) = Some t \<Longrightarrow> 0 < t \<Longrightarrow> wn_now timed_env_ex \<le> t * 10 ^ 9 + five_minutes"
      "jstr ''hash_key'' (webhook_json (wh_ex 100 ''5'') (sig_ex 100 ''5'') 200) =
         Some (SignWebhook (wn_sha512 timed_env_ex) (cfg_MerchantKey (wn_cfg timed_env_ex)) (itoa (wb_StatusCode wh)) (wb_InvoiceID wh) (wb_TotalAmount wh) (wb_CurrencyCode wh))" for t
    by auto
  moreover have "jint ''timestamp'' (webhook_json (wh_ex 100 ''5'') (sig_ex 100 ''5'') 200) = Some 200" by (simp add: webhook_json_def jint_def)
  ultimately show ?thesis by (auto simp: timed_env_ex_def webhook_env_ex_def sipay_cfg_ex_def)
qed

theorem capture_pays_orders_witness:
  "\<exists>st' p row r. ServeHTTP (webhook_env_ex False) (Some (webhook_json (wh_ex 100 ''5'') (sig_ex 100 ''5'') 0)) pay_st0 = (200, st') \<and>
     pt_payments (py_db st') = [p] \<and> pa_AmountMinor p = 5 \<and> map or_Status (dbo_orders (pt_orders (py_db st'))) = [StatusPaid] \<and>
     {row, r} \<subseteq> set (ob_rows (dbo_outbox (pt_orders (py_db st')))) \<and> o_event_type row = ''ecom.payment.captured.v1'' \<and> o_event_type r = ''ecom.order.paid.v1''"
proof -
  let ?env = "webhook_env_ex False" and ?wh = "wh_ex 100 ''5''"
  obtain ev where c: "ConfirmWebhook (wn_sha512 ?env) (wn_cfg ?env) (wn_now ?env) (webhook_json ?wh (sig_ex 100 ''5'') 0) (sig_ex 100 ''5'') = Inr ev"
    using confirm_ex by blast
  define se where "se = hd (dbo_sessions pay_orders_ex)"
  have se: "se_OrderIDs se = [2]" "FindCheckoutSessionByID pay_orders_ex ''s1'' = Inr se" by (simp_all add: se_def pay_orders_ex_def FindCheckoutSessionByID_def)
  have w: "\<forall>oid \<in> set (se_OrderIDs se). awaits_payment (pt_orders (py_db pay_st0)) oid"
    by (simp add: se(1) awaits_payment_def pay_st0_def repo_GetOrder_def) (simp add: pay_orders_ex_def)
  have env: "\<not> wn_fk ?env" "wn_outs ?env = []" "wn_find_ok ?env" "\<forall>oid. oe_outs (wn_orders ?env oid) = []" "wb_StatusCode ?wh = 100"
    by (simp_all add: webhook_env_ex_def wh_ex_def order_env_ex_def)
  have st0: "\<not> seen ?env (wb_InvoiceID ?wh) pay_st0" "wb_InvoiceID ?wh \<notin> pa_IdempotencyKey ` set (pt_payments (py_db pay_st0))"
      "FindCheckoutSessionByID (pt_orders (py_db pay_st0)) (wb_InvoiceID ?wh) = Inr se"
    using se(2) by (simp_all add: seen_def pay_st0_def wh_ex_def)
  have k: "psp_key (wb_InvoiceID ?wh) \<notin> o_idempotency_key ` set (ob_rows (dbo_outbox (pt_orders (py_db pay_st0))))"
    by (simp add: pay_st0_def) (simp add: pay_orders_ex_def)
  have "\<exists>st' p row rows. ServeHTTP ?env (Some (webhook_json ?wh (sig_ex 100 ''5'') 0)) pay_st0 = (200, st') \<and> pt_payments (py_db st') = pt_payments (py_db pay_st0) @ [p] \<and>
      pa_AmountMinor p = ParseInt64 (wb_TotalAmount ?wh) \<and>
      dbo_orders (pt_orders (py_db st')) = map (\<lambda>r. if or_ID r \<in> set (se_OrderIDs se) then r\<lparr>or_Status := StatusPaid, or_UpdatedAt := oe_now (wn_orders ?env (or_ID r))\<rparr> else r)
        (dbo_orders (pt_orders (py_db pay_st0))) \<and>
      ob_rows (dbo_outbox (pt_orders (py_db st'))) = ob_rows (dbo_outbox (pt_orders (py_db pay_st0))) @ row # rows \<and> o_event_type row = ''ecom.payment.captured.v1'' \<and>
      (\<forall>oid \<in> set (se_OrderIDs se). \<exists>r \<in> set rows. paid_event (wn_orders ?env) (pt_orders (py_db pay_st0)) oid r)"
    using capture_pays_orders [OF c env(5) _ env(1,2) st0(1,2) k env(3) st0(3) w env(4)] by auto
  then obtain st' p row rows where r: "ServeHTTP ?env (Some (webhook_json ?wh (sig_ex 100 ''5'') 0)) pay_st0 = (200, st')"
      "pt_payments (py_db st') = pt_payments (py_db pay_st0) @ [p]" "pa_AmountMinor p = ParseInt64 (wb_TotalAmount ?wh)"
      "dbo_orders (pt_orders (py_db st')) = map (\<lambda>r. if or_ID r \<in> set (se_OrderIDs se) then r\<lparr>or_Status := StatusPaid, or_UpdatedAt := oe_now (wn_orders ?env (or_ID r))\<rparr> else r)
        (dbo_orders (pt_orders (py_db pay_st0)))"
      "ob_rows (dbo_outbox (pt_orders (py_db st'))) = ob_rows (dbo_outbox (pt_orders (py_db pay_st0))) @ row # rows" "o_event_type row = ''ecom.payment.captured.v1''"
      "\<forall>oid \<in> set (se_OrderIDs se). \<exists>r \<in> set rows. paid_event (wn_orders ?env) (pt_orders (py_db pay_st0)) oid r" by blast
  have "ParseInt64 ''5'' = 5" by code_simp
  moreover obtain r2 where "r2 \<in> set rows" "o_event_type r2 = ''ecom.order.paid.v1''" using r(7) by (auto simp: paid_event_def se(1))
  moreover have "pt_payments (py_db pay_st0) = []" "map or_ID (dbo_orders (pt_orders (py_db pay_st0))) = [2]" by (simp_all add: pay_st0_def) (simp add: pay_orders_ex_def)
  moreover from this(2) have "map or_Status (dbo_orders (pt_orders (py_db st'))) = [StatusPaid]" unfolding r(4) se(1) by (auto simp: map_eq_Cons_conv)
  ultimately show ?thesis using r(1-3,5,6) by (intro exI [of _ st'] exI [of _ p] exI [of _ row] exI [of _ r2]) (simp add: wh_ex_def)
qed

theorem repeated_reference_witness:
  "ServeHTTP (webhook_env_ex False) (Some (webhook_json (wh_ex 100 ''1620'') (sig_ex 100 ''1620'') 0)) (pay_st1 300 ''1620'') = (500, pay_st1 300 ''1620'')"
proof -
  obtain ev where ev: "ConfirmWebhook (wn_sha512 (webhook_env_ex False)) (wn_cfg (webhook_env_ex False)) (wn_now (webhook_env_ex False))
      (webhook_json (wh_ex 100 ''1620'') (sig_ex 100 ''1620'') 0) (sig_ex 100 ''1620'') = Inr ev" using confirm_ex by blast
  obtain p where "p \<in> set (pt_payments (py_db (pay_st1 300 ''1620'')))" "pa_IdempotencyKey p = wb_InvoiceID (wh_ex 100 ''1620'')"
    using pay_st1_eval(2) by (auto simp: map_eq_Cons_conv wh_ex_def)
  from repeated_reference [OF this ev] show ?thesis by (simp add: seen_def pay_st1_eval(4))
qed

theorem deployed_schema_refuses_payments_witness:
  "ServeHTTP (webhook_env_ex True) (Some (webhook_json (wh_ex 100 ''1620'') (sig_ex 100 ''1620'') 0)) pay_st0 = (500, pay_st0)"
proof -
  let ?j = "webhook_json (wh_ex 100 ''1620'') (sig_ex 100 ''1620'') 0"
  obtain ev where "ConfirmWebhook (wn_sha512 (webhook_env_ex True)) (wn_cfg (webhook_env_ex True)) (wn_now (webhook_env_ex True)) ?j (sig_ex 100 ''1620'') = Inr ev"
    using confirm_ex by blast
  moreover have "jstr ''hash_key'' ?j = Some (sig_ex 100 ''1620'')" "jint ''timestamp'' ?j = Some 0" by (simp_all add: webhook_json_def jstr_def jint_def)
  moreover have "order_inv (pt_orders (py_db pay_st0))" "pt_payments (py_db pay_st0) = []" "py_seen pay_st0 = []" "wn_fk (webhook_env_ex True)"
    using pay_st0_inv by (simp_all add: pay_inv_def webhook_env_ex_def) (simp_all add: pay_st0_def)
  ultimately show ?thesis
    using deployed_schema_refuses_payments [of pay_st0 "webhook_env_ex True" "Some ?j"] by (metis order_less_irrefl prod.collapse)
qed

theorem reconciler_and_refund_idle_witness:
  "\<exists>code. (code = 404 \<or> code = 409) \<and> handleRefundOrder sipay_down (order_env_ex False) [] 300 ''k'' 2 (py_db (pay_st1 100 ''5''), sipay_st) = (code, py_db (pay_st1 100 ''5''), sipay_st)"
  by (rule conjunct2 [OF reconciler_and_refund_idle [OF pay_st0_inv pay_st1_run [of 100 "''5''"]]])

end
