(* ===== verification/EventBus.thy ===== *)
theory EventBus
  imports Outbox Consumer
begin

text \<open>
  The event bus: \<^verbatim>\<open>internal/eventbus/{redis_bus,attempts,dlq}.go\<close> and the dead-letter commands of
  \<^verbatim>\<open>cmd/mopro/dlq.go\<close>. One consumer group on one stream: the entries, the pending entries list, the log of attempts and
  its queue, the dead-letter table, and the state the handler works on. Traces, metrics, logs and Slack alerts are left out.
\<close>

section \<open>Stream entries\<close>

text \<open>
  The values of an entry are strings; a time is the RFC 3339 string of an instant and the payload the text of a JSON
  value, each kept as what it renders.
\<close>

datatype sval = SText string | STime instant | SJson json

record stream_msg =
  sm_id :: nat
  sm_values :: "(string \<times> sval) list"

definition publish_values :: "event \<Rightarrow> (string \<times> sval) list" where
  "publish_values ev =
     [(''event_id'', SText (ev_id ev)), (''event_type'', SText (ev_type ev)), (''aggregate'', SText (ev_aggregate ev)),
      (''idempotency_key'', SText (ev_idempotency_key ev)), (''market'', SText (ev_market ev)), (''currency'', SText (ev_currency ev)),
      (''trace_id'', SText (ev_trace_id ev)), (''span_id'', SText (ev_span_id ev)), (''occurred_at'', STime (ev_occurred_at ev)),
      (''payload'', SJson (ev_payload ev))]"

definition get_text :: "(string \<times> sval) list \<Rightarrow> string \<Rightarrow> string" where
  "get_text vs k = (case map_of vs k of Some (SText s) \<Rightarrow> s | _ \<Rightarrow> [])"

definition parseStreamEntry :: "(string \<times> sval) list \<Rightarrow> event option" where
  "parseStreamEntry vs =
     (case map_of vs ''occurred_at'' of
        Some (STime t) \<Rightarrow>
          Some \<lparr>ev_id = get_text vs ''event_id'', ev_type = get_text vs ''event_type'', ev_aggregate = get_text vs ''aggregate'',
                ev_idempotency_key = get_text vs ''idempotency_key'', ev_market = get_text vs ''market'', ev_currency = get_text vs ''currency'',
                ev_trace_id = get_text vs ''trace_id'', ev_span_id = get_text vs ''span_id'', ev_occurred_at = t,
                ev_payload = (case map_of vs ''payload'' of Some (SJson j) \<Rightarrow> j | _ \<Rightarrow> JObj [])\<rparr>
      | _ \<Rightarrow> None)"

section \<open>Attempts and dead letters\<close>

datatype outcome = OutcomeSuccess | OutcomeError | OutcomePanic

record attempt_row =
  at_MessageID :: nat
  at_ConsumerName :: string
  at_Outcome :: outcome
  at_At :: instant

datatype dlq_status = DlqOpen | DlqReplayed | DlqDismissed

record dlq_row =
  dq_ID :: int
  dq_MessageID :: nat
  dq_IdempotencyKey :: string
  dq_Payload :: "(string \<times> sval) list"
  dq_AttemptCount :: nat
  dq_Status :: dlq_status
  dq_CreatedAt :: instant
  dq_ReplayedBy :: string
  dq_ReplayedMessageID :: nat
  dq_DismissedBy :: string
  dq_DismissalReason :: string

text \<open>The group's side of a stream; \<open>bu_app\<close> is the state the handler works on.\<close>

record 's bus =
  bu_stream :: "stream_msg list"
  bu_next :: nat
  bu_last :: nat
  bu_pel :: "(nat \<times> string) list"
  bu_queue :: "attempt_row list"
  bu_attempts :: "attempt_row list"
  bu_dlq :: "dlq_row list"
  bu_dlq_next :: int
  bu_app :: 's

definition DLQThreshold :: nat where
  "DLQThreshold = 3"

definition is_failure :: "outcome \<Rightarrow> bool" where
  "is_failure o' \<longleftrightarrow> o' = OutcomeError \<or> o' = OutcomePanic"

definition CountFailures :: "'s bus \<Rightarrow> nat \<Rightarrow> nat" where
  "CountFailures b i = length (filter (\<lambda>r. at_MessageID r = i \<and> is_failure (at_Outcome r)) (bu_attempts b))"

text \<open>
  The environment of one dispatch: the clock, whether the attempt log and the dead-letter table are configured, whether the
  handler panicked when it failed, whether the queue of attempts is full, how many queued attempts the workers store before the
  dead-letter check reads them, whether that check's statements succeed, and whether the acknowledgement reaches Redis.
\<close>

record dispatch_env =
  de_now :: instant
  de_attempts :: bool
  de_dlq :: bool
  de_panic :: bool
  de_full :: bool
  de_flush :: nat
  de_dlq_ok :: bool
  de_xack_ok :: bool

datatype dlq_result = DLQBelowThreshold | DLQAlreadyExists | DLQInserted

definition prior_attempts :: "'s bus \<Rightarrow> nat \<Rightarrow> attempt_row list" where
  "prior_attempts b i = take 10 (sort_key at_At (filter (\<lambda>r. at_MessageID r = i) (bu_attempts b)))"

text \<open>The stored attempts and the current one.\<close>

definition failureCount :: "'s bus \<Rightarrow> nat \<Rightarrow> attempt_row \<Rightarrow> nat" where
  "failureCount b i current = length (filter (\<lambda>r. is_failure (at_Outcome r)) (prior_attempts b i)) + (if is_failure (at_Outcome current) then 1 else 0)"

definition new_dlq_row :: "dispatch_env \<Rightarrow> 's bus \<Rightarrow> nat \<Rightarrow> string \<Rightarrow> (string \<times> sval) list \<Rightarrow> nat \<Rightarrow> dlq_row" where
  "new_dlq_row env b i key values n =
     \<lparr>dq_ID = bu_dlq_next b, dq_MessageID = i, dq_IdempotencyKey = key, dq_Payload = values, dq_AttemptCount = n,
      dq_Status = DlqOpen, dq_CreatedAt = de_now env, dq_ReplayedBy = [], dq_ReplayedMessageID = 0, dq_DismissedBy = [], dq_DismissalReason = []\<rparr>"

definition InsertIfThreshold :: "dispatch_env \<Rightarrow> nat \<Rightarrow> string \<Rightarrow> (string \<times> sval) list \<Rightarrow> attempt_row \<Rightarrow> 's bus \<Rightarrow> dlq_result option \<times> 's bus" where
  "InsertIfThreshold env i key values current b =
     (let n = failureCount b i current in
      if \<not> de_dlq_ok env then (None, b)
      else if n < DLQThreshold then (Some DLQBelowThreshold, b)
      else if List.find (\<lambda>r. dq_MessageID r = i) (bu_dlq b) \<noteq> None then (Some DLQAlreadyExists, b\<lparr>bu_dlq_next := bu_dlq_next b + 1\<rparr>)
      else (Some DLQInserted, b\<lparr>bu_dlq := bu_dlq b @ [new_dlq_row env b i key values n], bu_dlq_next := bu_dlq_next b + 1\<rparr>))"

section \<open>Dispatch\<close>

definition xack :: "dispatch_env \<Rightarrow> nat \<Rightarrow> 's bus \<Rightarrow> 's bus" where
  "xack env i b = (if de_xack_ok env then b\<lparr>bu_pel := filter (\<lambda>(j, _). j \<noteq> i) (bu_pel b)\<rparr> else b)"

definition attemptChanBuf :: nat where
  "attemptChanBuf = 512"

definition sendAttempt :: "dispatch_env \<Rightarrow> attempt_row \<Rightarrow> 's bus \<Rightarrow> 's bus" where
  "sendAttempt env row b =
     (if \<not> de_attempts env \<or> de_full env \<or> length (bu_queue b) \<ge> attemptChanBuf then b else b\<lparr>bu_queue := bu_queue b @ [row]\<rparr>)"

text \<open>The workers: \<open>n\<close> queued attempts are stored.\<close>

definition flush :: "nat \<Rightarrow> 's bus \<Rightarrow> 's bus" where
  "flush n b = b\<lparr>bu_attempts := bu_attempts b @ take n (bu_queue b), bu_queue := drop n (bu_queue b)\<rparr>"

text \<open>A malformed entry has no key; its own id stands in.\<close>

definition insertDLQIfThreshold :: "dispatch_env \<Rightarrow> stream_msg \<Rightarrow> event option \<Rightarrow> attempt_row \<Rightarrow> 's bus \<Rightarrow> 's bus" where
  "insertDLQIfThreshold env msg ev current b =
     (let i = sm_id msg; key = (case ev of Some e \<Rightarrow> if ev_idempotency_key e = [] then itoa (int i) else ev_idempotency_key e | None \<Rightarrow> itoa (int i)) in
      case InsertIfThreshold env i key (sm_values msg) current b of
        (None, b1) \<Rightarrow> b1
      | (Some DLQBelowThreshold, b1) \<Rightarrow> b1
      | (Some DLQAlreadyExists, b1) \<Rightarrow> xack env i b1
      | (Some DLQInserted, b1) \<Rightarrow> xack env i b1)"

text \<open>
  \<open>handle x ev s\<close> is the handler: whether it returned nil, and the state it left; \<open>x\<close> is what its own environment does.
\<close>

definition dispatchMessage :: "('x \<Rightarrow> event \<Rightarrow> 's \<Rightarrow> bool \<times> 's) \<Rightarrow> dispatch_env \<Rightarrow> 'x \<Rightarrow> string \<Rightarrow> stream_msg \<Rightarrow> 's bus \<Rightarrow> 's bus" where
  "dispatchMessage handle env x consumer msg b =
     (let ev = parseStreamEntry (sm_values msg);
          (ok, app) = (case ev of None \<Rightarrow> (False, bu_app b) | Some e \<Rightarrow> handle x e (bu_app b));
          b1 = b\<lparr>bu_app := app\<rparr>;
          outcome = (if ok then OutcomeSuccess else if ev \<noteq> None \<and> de_panic env then OutcomePanic else OutcomeError);
          row = \<lparr>at_MessageID = sm_id msg, at_ConsumerName = consumer, at_Outcome = outcome, at_At = de_now env\<rparr>;
          b2 = (if ok then xack env (sm_id msg) b1 else b1);
          b3 = flush (de_flush env) (sendAttempt env row b2) in
      if outcome \<noteq> OutcomeSuccess \<and> de_dlq env then insertDLQIfThreshold env msg ev row b3 else b3)"

section \<open>Reading\<close>

text \<open>
  A group is created at the end of the stream (\<^verbatim>\<open>$\<close>): what was published before is not delivered to it. An existing group
  (\<^verbatim>\<open>BUSYGROUP\<close>) is left as it is.
\<close>

definition ensureGroup :: "bool \<Rightarrow> 's bus \<Rightarrow> 's bus" where
  "ensureGroup exists b = (if exists then b else b\<lparr>bu_last := bu_next b - 1, bu_pel := []\<rparr>)"

definition xreadCount :: nat where
  "xreadCount = 100"

text \<open>\<^verbatim>\<open>XREADGROUP ... >\<close>: the next entries join the consumer's pending list.\<close>

definition read_new :: "string \<Rightarrow> 's bus \<Rightarrow> stream_msg list \<times> 's bus" where
  "read_new consumer b =
     (let msgs = take xreadCount (filter (\<lambda>m. sm_id m > bu_last b) (bu_stream b)) in
      (msgs, if msgs = [] then b
             else b\<lparr>bu_pel := bu_pel b @ map (\<lambda>m. (sm_id m, consumer)) msgs, bu_last := sm_id (last msgs)\<rparr>))"

text \<open>An entry that was trimmed from the stream while pending is read with no values.\<close>

definition message_of :: "'s bus \<Rightarrow> nat \<Rightarrow> stream_msg" where
  "message_of b i = (case List.find (\<lambda>m. sm_id m = i) (bu_stream b) of Some m \<Rightarrow> m | None \<Rightarrow> \<lparr>sm_id = i, sm_values = []\<rparr>)"

text \<open>\<^verbatim>\<open>XREADGROUP ... 0\<close>: the consumer's own pending entries.\<close>

definition read_pending :: "string \<Rightarrow> 's bus \<Rightarrow> stream_msg list" where
  "read_pending consumer b = take xreadCount (map (\<lambda>(i, _). message_of b i) (filter (\<lambda>(_, c). c = consumer) (bu_pel b)))"

text \<open>\<^verbatim>\<open>XAUTOCLAIM\<close>: entries idle for too long (\<open>idle\<close>) change hands; those trimmed from the stream leave the list.\<close>

definition here :: "'s bus \<Rightarrow> nat \<Rightarrow> bool" where
  "here b i \<longleftrightarrow> i \<in> set (map sm_id (bu_stream b))"

definition xautoclaim :: "(nat \<Rightarrow> bool) \<Rightarrow> string \<Rightarrow> 's bus \<Rightarrow> stream_msg list \<times> 's bus" where
  "xautoclaim idle consumer b =
     (map (\<lambda>(i, _). message_of b i) (filter (\<lambda>(i, _). idle i \<and> here b i) (bu_pel b)),
      b\<lparr>bu_pel := map (\<lambda>(i, c). if idle i then (i, consumer) else (i, c)) (filter (\<lambda>(i, _). idle i \<longrightarrow> here b i) (bu_pel b))\<rparr>)"

text \<open>Each message of a batch in turn; \<open>envs\<close> gives the environment of each.\<close>

definition dispatch_all :: "('x \<Rightarrow> event \<Rightarrow> 's \<Rightarrow> bool \<times> 's) \<Rightarrow> (nat \<Rightarrow> dispatch_env \<times> 'x) \<Rightarrow> string \<Rightarrow> stream_msg list \<Rightarrow> 's bus \<Rightarrow> 's bus" where
  "dispatch_all handle envs consumer msgs b =
     fold (\<lambda>m. dispatchMessage handle (fst (envs (sm_id m))) (snd (envs (sm_id m))) consumer m) msgs b"

definition claimOrphaned :: "('x \<Rightarrow> event \<Rightarrow> 's \<Rightarrow> bool \<times> 's) \<Rightarrow> (nat \<Rightarrow> dispatch_env \<times> 'x) \<Rightarrow> (nat \<Rightarrow> bool) \<Rightarrow> string \<Rightarrow> 's bus \<Rightarrow> 's bus" where
  "claimOrphaned handle envs idle consumer b =
     (let (msgs, b1) = xautoclaim idle consumer b in dispatch_all handle envs consumer msgs b1)"

text \<open>One turn of \<^verbatim>\<open>Subscribe\<close>: first the pending entries, then new ones.\<close>

definition Subscribe_turn :: "('x \<Rightarrow> event \<Rightarrow> 's \<Rightarrow> bool \<times> 's) \<Rightarrow> (nat \<Rightarrow> dispatch_env \<times> 'x) \<Rightarrow> (nat \<Rightarrow> dispatch_env \<times> 'x) \<Rightarrow> string \<Rightarrow> 's bus \<Rightarrow> 's bus" where
  "Subscribe_turn handle envs0 envs1 consumer b =
     (let b1 = dispatch_all handle envs0 consumer (read_pending consumer b) b; (msgs, b2) = read_new consumer b1 in
      dispatch_all handle envs1 consumer msgs b2)"

section \<open>Publishing and trimming\<close>

definition xadd :: "(string \<times> sval) list \<Rightarrow> 's bus \<Rightarrow> 's bus" where
  "xadd values b = b\<lparr>bu_stream := bu_stream b @ [\<lparr>sm_id = bu_next b, sm_values = values\<rparr>], bu_next := bu_next b + 1\<rparr>"

definition Publish :: "event \<Rightarrow> 's bus \<Rightarrow> 's bus" where
  "Publish ev b = xadd (publish_values ev) b"

definition trim :: "nat \<Rightarrow> 's bus \<Rightarrow> 's bus" where
  "trim n b = b\<lparr>bu_stream := drop n (bu_stream b)\<rparr>"

section \<open>Operator commands\<close>

definition GetByID :: "'s bus \<Rightarrow> int \<Rightarrow> dlq_row option" where
  "GetByID b dlqID = List.find (\<lambda>r. dq_ID r = dlqID) (bu_dlq b)"

text \<open>The result says whether a row was updated; if none was, the caller gets \<^verbatim>\<open>ErrDLQNotOpen\<close>.\<close>

definition MarkReplayed :: "int \<Rightarrow> string \<Rightarrow> nat \<Rightarrow> 's bus \<Rightarrow> bool \<times> 's bus" where
  "MarkReplayed dlqID operator msgID b =
     (let p = (\<lambda>r. dq_ID r = dlqID \<and> dq_Status r = DlqOpen) in
      (rows_affected p (bu_dlq b) \<noteq> 0,
       b\<lparr>bu_dlq := update_where p (\<lambda>r. r\<lparr>dq_Status := DlqReplayed, dq_ReplayedBy := operator, dq_ReplayedMessageID := msgID\<rparr>) (bu_dlq b)\<rparr>))"

definition MarkDismissed :: "int \<Rightarrow> string \<Rightarrow> string \<Rightarrow> 's bus \<Rightarrow> bool \<times> 's bus" where
  "MarkDismissed dlqID operator reason b =
     (let p = (\<lambda>r. dq_ID r = dlqID \<and> dq_Status r = DlqOpen) in
      (rows_affected p (bu_dlq b) \<noteq> 0,
       b\<lparr>bu_dlq := update_where p (\<lambda>r. r\<lparr>dq_Status := DlqDismissed, dq_DismissedBy := operator, dq_DismissalReason := reason\<rparr>) (bu_dlq b)\<rparr>))"

text \<open>\<^verbatim>\<open>replaySingle\<close>: the entry is added again (Redis refuses one with no fields), then the row is marked; \<open>mark_ok\<close> is whether the mark reaches the database.\<close>

definition replaySingle :: "bool \<Rightarrow> bool \<Rightarrow> int \<Rightarrow> string \<Rightarrow> 's bus \<Rightarrow> bool \<times> 's bus" where
  "replaySingle dryRun mark_ok dlqID operator b =
     (case GetByID b dlqID of
        None \<Rightarrow> (False, b)
      | Some row \<Rightarrow>
          if dq_Status row \<noteq> DlqOpen then (False, b)
          else if dryRun then (True, b)
          else if dq_Payload row = [] then (False, b)
          else (let b1 = xadd (dq_Payload row) b in
                (True, if mark_ok then snd (MarkReplayed dlqID operator (bu_next b) b1) else b1)))"

definition DLQ_List :: "instant option \<Rightarrow> dlq_status option \<Rightarrow> 's bus \<Rightarrow> dlq_row list" where
  "DLQ_List since status b =
     sort_key dq_CreatedAt (filter (\<lambda>r. (case since of None \<Rightarrow> True | Some t \<Rightarrow> t \<le> dq_CreatedAt r) \<and>
       (case status of None \<Rightarrow> True | Some s \<Rightarrow> dq_Status r = s)) (bu_dlq b))"

definition CountInWindow :: "instant \<Rightarrow> int \<Rightarrow> 's bus \<Rightarrow> nat" where
  "CountInWindow now windowMin b = length (filter (\<lambda>r. now - windowMin * 60 * 10 ^ 9 < dq_CreatedAt r) (bu_dlq b))"

text \<open>The bulk form of the command: every open row of the window in turn.\<close>

definition replay_bulk :: "bool \<Rightarrow> (int \<Rightarrow> bool) \<Rightarrow> instant \<Rightarrow> string \<Rightarrow> 's bus \<Rightarrow> 's bus" where
  "replay_bulk dryRun mark_ok since operator b =
     fold (\<lambda>r b. snd (replaySingle dryRun (mark_ok (dq_ID r)) (dq_ID r) operator b)) (DLQ_List (Some since) (Some DlqOpen) b) b"

section \<open>Round trip of an entry\<close>

lemma parse_publish_values: "parseStreamEntry (publish_values ev) = Some ev"
  by (simp add: parseStreamEntry_def publish_values_def get_text_def)

section \<open>Steps\<close>

text \<open>
  Everything that can happen to the group. A message in flight is one the group has read; if its entry is still in the stream,
  the values are those of the entry. A worker may fail to store queued attempts (\<open>lost\<close>).
\<close>

definition in_flight :: "'s bus \<Rightarrow> stream_msg \<Rightarrow> bool" where
  "in_flight b m \<longleftrightarrow> sm_id m \<le> bu_last b \<and> (\<forall>m' \<in> set (bu_stream b). sm_id m' = sm_id m \<longrightarrow> m' = m)"

inductive bus_step :: "('x \<Rightarrow> event \<Rightarrow> 's \<Rightarrow> bool \<times> 's) \<Rightarrow> 's bus \<Rightarrow> 's bus \<Rightarrow> bool" for handle where
  publish: "bus_step handle b (Publish ev b)"
| foreign: "bus_step handle b (xadd values b)"
| trimmed: "bus_step handle b (trim n b)"
| read: "bus_step handle b (snd (read_new c b))"
| claim: "bus_step handle b (snd (xautoclaim idle c b))"
| dispatch: "in_flight b m \<Longrightarrow> bus_step handle b (dispatchMessage handle env x c m b)"
| stored: "bus_step handle b (flush n b)"
| lost: "bus_step handle b (b\<lparr>bu_queue := drop n (bu_queue b)\<rparr>)"
| replay: "bus_step handle b (snd (replaySingle dry mk i op b))"
| dismiss: "bus_step handle b (snd (MarkDismissed i op reason b))"

abbreviation bus_run :: "('x \<Rightarrow> event \<Rightarrow> 's \<Rightarrow> bool \<times> 's) \<Rightarrow> 's bus \<Rightarrow> 's bus \<Rightarrow> bool" where
  "bus_run handle \<equiv> (bus_step handle)\<^sup>*\<^sup>*"

section \<open>What a dispatch changes\<close>

named_theorems bus_frame

lemma xack_frame [bus_frame]:
  "bu_stream (xack env i b) = bu_stream b" "bu_next (xack env i b) = bu_next b" "bu_last (xack env i b) = bu_last b"
  "bu_dlq (xack env i b) = bu_dlq b" "bu_app (xack env i b) = bu_app b" "bu_attempts (xack env i b) = bu_attempts b"
  "bu_queue (xack env i b) = bu_queue b"
  by (simp_all add: xack_def)

lemma xack_pel: "j \<noteq> i \<Longrightarrow> j \<in> fst ` set (bu_pel (xack env i b)) \<longleftrightarrow> j \<in> fst ` set (bu_pel b)"
  by (force simp: xack_def)

lemma xack_pel_le: "\<forall>j \<in> fst ` set (bu_pel b). j \<le> n \<Longrightarrow> \<forall>j \<in> fst ` set (bu_pel (xack env i b)). j \<le> n"
  by (auto simp: xack_def)

lemma sendAttempt_frame [bus_frame]:
  "bu_stream (sendAttempt env r b) = bu_stream b" "bu_next (sendAttempt env r b) = bu_next b" "bu_last (sendAttempt env r b) = bu_last b"
  "bu_dlq (sendAttempt env r b) = bu_dlq b" "bu_app (sendAttempt env r b) = bu_app b" "bu_pel (sendAttempt env r b) = bu_pel b"
  "bu_attempts (sendAttempt env r b) = bu_attempts b"
  by (simp_all add: sendAttempt_def)

lemma flush_frame [bus_frame]:
  "bu_stream (flush n b) = bu_stream b" "bu_next (flush n b) = bu_next b" "bu_last (flush n b) = bu_last b"
  "bu_dlq (flush n b) = bu_dlq b" "bu_app (flush n b) = bu_app b" "bu_pel (flush n b) = bu_pel b"
  by (simp_all add: flush_def)

text \<open>The ends of the dead-letter check: nothing changed, or there is a dead letter for the message.\<close>

lemma InsertIfThreshold_cases:
  assumes "InsertIfThreshold env i key vs cur b = (r, b')"
  obtains (kept) "b' = b" "r = None \<or> r = Some DLQBelowThreshold"
  | (already) q where "r = Some DLQAlreadyExists" "q \<in> set (bu_dlq b)" "dq_MessageID q = i" "b' = b\<lparr>bu_dlq_next := bu_dlq_next b + 1\<rparr>"
  | (inserted) q where "r = Some DLQInserted" "dq_MessageID q = i" "dq_Payload q = vs" "dq_Status q = DlqOpen"
      "b' = b\<lparr>bu_dlq := bu_dlq b @ [q], bu_dlq_next := bu_dlq_next b + 1\<rparr>"
proof (cases "List.find (\<lambda>r. dq_MessageID r = i) (bu_dlq b)")
  case None
  have f: "dq_MessageID (new_dlq_row env b i key vs n) = i" "dq_Payload (new_dlq_row env b i key vs n) = vs"
    "dq_Status (new_dlq_row env b i key vs n) = DlqOpen" for n by (simp_all add: new_dlq_row_def)
  show ?thesis
  proof (cases "de_dlq_ok env \<and> \<not> failureCount b i cur < DLQThreshold")
    case True
    then show ?thesis using assms None inserted [OF _ f, of "failureCount b i cur"] by (simp add: InsertIfThreshold_def)
  next
    case False
    then show ?thesis using assms kept by (auto simp: InsertIfThreshold_def Let_def split: if_split_asm)
  qed
next
  case (Some q)
  then have "q \<in> set (bu_dlq b)" "dq_MessageID q = i" using find_SomeD [OF Some] by auto
  moreover have "b' = b \<and> (r = None \<or> r = Some DLQBelowThreshold) \<or> r = Some DLQAlreadyExists \<and> b' = b\<lparr>bu_dlq_next := bu_dlq_next b + 1\<rparr>"
    using assms Some by (auto simp: InsertIfThreshold_def Let_def split: if_split_asm)
  ultimately show ?thesis using kept already by blast
qed

definition dead_letter :: "stream_msg \<Rightarrow> 's bus \<Rightarrow> 's bus \<Rightarrow> bool" where
  "dead_letter m b b' \<longleftrightarrow>
     (\<exists>q. dq_MessageID q = sm_id m \<and> (q \<in> set (bu_dlq b) \<and> bu_dlq b' = bu_dlq b \<or> dq_Payload q = sm_values m \<and> bu_dlq b' = bu_dlq b @ [q]))"

lemma insertDLQ_cases:
  obtains (kept) "insertDLQIfThreshold env m ev cur b = b"
  | (dead) b1 where "insertDLQIfThreshold env m ev cur b = xack env (sm_id m) b1" "dead_letter m b b1" "bu_pel b1 = bu_pel b"
      "bu_stream b1 = bu_stream b" "bu_next b1 = bu_next b" "bu_last b1 = bu_last b" "bu_app b1 = bu_app b"
proof -
  define key where "key = (case ev of Some e \<Rightarrow> if ev_idempotency_key e = [] then itoa (int (sm_id m)) else ev_idempotency_key e
    | None \<Rightarrow> itoa (int (sm_id m)))"
  obtain r b1 where i: "InsertIfThreshold env (sm_id m) key (sm_values m) cur b = (r, b1)" by fastforce
  then have e: "insertDLQIfThreshold env m ev cur b =
      (case r of None \<Rightarrow> b1 | Some DLQBelowThreshold \<Rightarrow> b1 | _ \<Rightarrow> xack env (sm_id m) b1)"
    by (simp add: insertDLQIfThreshold_def Let_def key_def split: option.split dlq_result.split)
  from i show ?thesis
  proof (cases rule: InsertIfThreshold_cases)
    case kept
    with e show ?thesis by (intro that(1)) auto
  next
    case (already q)
    then have "dead_letter m b b1" by (auto simp: dead_letter_def)
    with already e show ?thesis by (intro that(2) [of b1]) auto
  next
    case (inserted q)
    then have "dead_letter m b b1" by (auto simp: dead_letter_def)
    with inserted e show ?thesis by (intro that(2) [of b1]) auto
  qed
qed

text \<open>What the handler does with a message; one that does not parse never reaches it.\<close>

definition dispatched_app :: "('x \<Rightarrow> event \<Rightarrow> 's \<Rightarrow> bool \<times> 's) \<Rightarrow> 'x \<Rightarrow> stream_msg \<Rightarrow> 's \<Rightarrow> bool \<times> 's" where
  "dispatched_app handle x m s = (case parseStreamEntry (sm_values m) of None \<Rightarrow> (False, s) | Some e \<Rightarrow> handle x e s)"

definition same_stream :: "'s bus \<Rightarrow> 's bus \<Rightarrow> bool" where
  "same_stream b b' \<longleftrightarrow> bu_stream b' = bu_stream b \<and> bu_next b' = bu_next b \<and> bu_last b' = bu_last b"

text \<open>
  The ends of a dispatch. It leaves the stream alone; the handler took the message, or the message stays where it was, or there
  is a dead letter for it.
\<close>

lemma dispatch_cases:
  obtains (acked) s' where "dispatched_app handle x m (bu_app b) = (True, s')" "bu_app (dispatchMessage handle env x c m b) = s'"
      "same_stream b (dispatchMessage handle env x c m b)" "bu_dlq (dispatchMessage handle env x c m b) = bu_dlq b"
      "bu_pel (dispatchMessage handle env x c m b) = bu_pel (xack env (sm_id m) b)"
  | (kept) s' where "dispatched_app handle x m (bu_app b) = (False, s')" "bu_app (dispatchMessage handle env x c m b) = s'"
      "same_stream b (dispatchMessage handle env x c m b)" "bu_dlq (dispatchMessage handle env x c m b) = bu_dlq b"
      "bu_pel (dispatchMessage handle env x c m b) = bu_pel b"
  | (dead) s' where "dispatched_app handle x m (bu_app b) = (False, s')" "bu_app (dispatchMessage handle env x c m b) = s'"
      "same_stream b (dispatchMessage handle env x c m b)" "dead_letter m b (dispatchMessage handle env x c m b)"
      "bu_pel (dispatchMessage handle env x c m b) = bu_pel (xack env (sm_id m) b)"
proof -
  let ?b' = "dispatchMessage handle env x c m b"
  obtain ok s' where h: "dispatched_app handle x m (bu_app b) = (ok, s')" by fastforce
  define oc where "oc = (if ok then OutcomeSuccess else if parseStreamEntry (sm_values m) \<noteq> None \<and> de_panic env then OutcomePanic else OutcomeError)"
  define row where "row = \<lparr>at_MessageID = sm_id m, at_ConsumerName = c, at_Outcome = oc, at_At = de_now env\<rparr>"
  define b3 where "b3 = flush (de_flush env) (sendAttempt env row (if ok then xack env (sm_id m) (b\<lparr>bu_app := s'\<rparr>) else b\<lparr>bu_app := s'\<rparr>))"
  have e: "?b' = (if oc \<noteq> OutcomeSuccess \<and> de_dlq env then insertDLQIfThreshold env m (parseStreamEntry (sm_values m)) row b3 else b3)"
    using h unfolding dispatchMessage_def dispatched_app_def Let_def b3_def row_def oc_def by simp
  have f: "same_stream b b3" "bu_app b3 = s'" "bu_dlq b3 = bu_dlq b"
    by (simp_all add: b3_def bus_frame same_stream_def)
  have p: "bu_pel b3 = (if ok then bu_pel (xack env (sm_id m) b) else bu_pel b)"
    by (simp add: b3_def bus_frame xack_def)
  have oc: "oc = OutcomeSuccess \<longleftrightarrow> ok" by (simp add: oc_def)
  show ?thesis
  proof (cases ok)
    case True
    then have "?b' = b3" using e oc by simp
    with f p h True show ?thesis by (intro that(1)) auto
  next
    case False
    show ?thesis
    proof (cases rule: insertDLQ_cases [of env m "parseStreamEntry (sm_values m)" row b3])
      case kept
      then have "?b' = b3" using e by simp
      with f p h False show ?thesis by (intro that(2)) auto
    next
      case (dead b1)
      show ?thesis
      proof (cases "de_dlq env")
        case True
        then have d: "?b' = xack env (sm_id m) b1" using e dead(1) oc False by simp
        have "dead_letter m b ?b'" using dead(2) f(3) by (simp add: dead_letter_def d bus_frame)
        moreover have "same_stream b ?b'" using f(1) dead by (simp add: same_stream_def d bus_frame)
        moreover have "bu_pel ?b' = bu_pel (xack env (sm_id m) b)" using p False dead(3) by (simp add: d xack_def)
        ultimately show ?thesis using h False f dead by (intro that(3)) (auto simp: d bus_frame)
      next
        case nd: False
        then have "?b' = b3" using e by simp
        with f p h False show ?thesis by (intro that(2)) auto
      qed
    qed
  qed
qed

section \<open>Nothing is dropped\<close>

text \<open>An entry the group has read is pending, or its event is settled, or a dead letter keeps its values.\<close>

definition accounted :: "('s \<Rightarrow> event \<Rightarrow> bool) \<Rightarrow> 's bus \<Rightarrow> stream_msg \<Rightarrow> bool" where
  "accounted settled b m \<longleftrightarrow>
     sm_id m \<in> fst ` set (bu_pel b) \<or> (\<exists>ev. parseStreamEntry (sm_values m) = Some ev \<and> settled (bu_app b) ev) \<or>
     (\<exists>r \<in> set (bu_dlq b). dq_MessageID r = sm_id m \<and> dq_Payload r = sm_values m)"

definition stream_ok :: "'s bus \<Rightarrow> bool" where
  "stream_ok b \<longleftrightarrow>
     sorted_wrt (<) (map sm_id (bu_stream b)) \<and> (\<forall>m \<in> set (bu_stream b). sm_id m < bu_next b) \<and> bu_last b < bu_next b \<and> (\<forall>i \<in> fst ` set (bu_pel b). i \<le> bu_last b) \<and>
     (\<forall>r \<in> set (bu_dlq b). dq_MessageID r \<le> bu_last b \<and>
        (\<forall>m \<in> set (bu_stream b). sm_id m = dq_MessageID r \<longrightarrow> dq_Payload r = sm_values m))"

definition bus_inv :: "('s \<Rightarrow> bool) \<Rightarrow> ('s \<Rightarrow> event \<Rightarrow> bool) \<Rightarrow> 's bus \<Rightarrow> bool" where
  "bus_inv ok settled b \<longleftrightarrow>
     ok (bu_app b) \<and> stream_ok b \<and> (\<forall>m \<in> set (bu_stream b). sm_id m \<le> bu_last b \<longrightarrow> accounted settled b m)"

lemma take_covers:
  assumes "sorted_wrt (<) (map f xs)" "m \<in> set xs" "P m" "take n (filter P xs) \<noteq> []" "f m \<le> (f (last (take n (filter P xs))) :: nat)"
  shows "m \<in> set (take n (filter P xs))"
proof (rule ccontr)
  let ?t = "take n (filter P xs)" and ?d = "drop n (filter P xs)"
  assume "m \<notin> set ?t"
  moreover have "m \<in> set (?t @ ?d)" using assms(2,3) by simp
  ultimately have d: "m \<in> set ?d" unfolding set_append by blast
  have "sorted_wrt (\<lambda>x y. f x < f y) (filter P xs)" using assms(1) by (simp add: sorted_wrt_map sorted_wrt_filter)
  then have "sorted_wrt (\<lambda>x y. f x < f y) (?t @ ?d)" by simp
  then have "f (last ?t) < f m" using last_in_set [OF assms(4)] d unfolding sorted_wrt_append by blast
  then show False using assms(5) by simp
qed

lemma last_max:
  assumes "sorted_wrt (\<lambda>x y. f x < (f y :: nat)) xs" "x \<in> set xs"
  shows "f x \<le> f (last xs)"
  using assms by (cases xs rule: rev_cases) (auto simp: sorted_wrt_append less_imp_le)

lemma accounted_mono:
  assumes "accounted settled b m" "sm_id m \<in> fst ` set (bu_pel b) \<Longrightarrow> sm_id m \<in> fst ` set (bu_pel b')"
    and "\<And>ev. settled (bu_app b) ev \<Longrightarrow> settled (bu_app b') ev" "set (bu_dlq b) \<subseteq> set (bu_dlq b')"
  shows "accounted settled b' m"
  using assms unfolding accounted_def by blast

definition dlq_key :: "dlq_row \<Rightarrow> nat \<times> (string \<times> sval) list" where
  "dlq_key r = (dq_MessageID r, dq_Payload r)"

lemma accounted_alt:
  "accounted settled b m \<longleftrightarrow>
     sm_id m \<in> fst ` set (bu_pel b) \<or> (\<exists>ev. parseStreamEntry (sm_values m) = Some ev \<and> settled (bu_app b) ev) \<or>
     (sm_id m, sm_values m) \<in> dlq_key ` set (bu_dlq b)"
proof -
  have "(\<exists>r \<in> set (bu_dlq b). dq_MessageID r = sm_id m \<and> dq_Payload r = sm_values m) \<longleftrightarrow> (sm_id m, sm_values m) \<in> dlq_key ` set (bu_dlq b)"
    by (auto simp: dlq_key_def image_iff eq_commute)
  then show ?thesis by (simp only: accounted_def)
qed

lemma stream_ok_alt:
  "stream_ok b \<longleftrightarrow>
     sorted_wrt (<) (map sm_id (bu_stream b)) \<and> (\<forall>m \<in> set (bu_stream b). sm_id m < bu_next b) \<and> bu_last b < bu_next b \<and> (\<forall>i \<in> fst ` set (bu_pel b). i \<le> bu_last b) \<and>
     (\<forall>(i, vs) \<in> dlq_key ` set (bu_dlq b). i \<le> bu_last b \<and> (\<forall>m \<in> set (bu_stream b). sm_id m = i \<longrightarrow> vs = sm_values m))"
  by (simp add: stream_ok_def dlq_key_def)

text \<open>A step that leaves the group's books alone keeps the invariant; of a dead letter only the message and its values count.\<close>

lemma bus_inv_cong:
  assumes "bus_inv ok settled b" "bu_pel b' = bu_pel b" "bu_app b' = bu_app b" "dlq_key ` set (bu_dlq b') = dlq_key ` set (bu_dlq b)" "same_stream b b'"
  shows "bus_inv ok settled b'"
  using assms unfolding bus_inv_def accounted_alt stream_ok_alt same_stream_def by simp

lemma dlq_key_update_where:
  "(\<And>r. dlq_key (f r) = dlq_key r) \<Longrightarrow> dlq_key ` set (update_where p f rows) = dlq_key ` set rows"
  using map_update_where [of dlq_key f p rows] by (metis list.set_map)

lemma marks_inv:
  assumes "bus_inv ok settled b"
  shows "bus_inv ok settled (snd (MarkReplayed i op k b))" "bus_inv ok settled (snd (MarkDismissed i op reason b))"
proof -
  have u: "dlq_key ` set (update_where p (\<lambda>r. r\<lparr>dq_Status := DlqReplayed, dq_ReplayedBy := op, dq_ReplayedMessageID := k\<rparr>) rows) = dlq_key ` set rows"
    "dlq_key ` set (update_where p (\<lambda>r. r\<lparr>dq_Status := DlqDismissed, dq_DismissedBy := op, dq_DismissalReason := reason\<rparr>) rows) = dlq_key ` set rows" for p rows
    by (rule dlq_key_update_where, simp add: dlq_key_def)+
  show "bus_inv ok settled (snd (MarkReplayed i op k b))"
    by (rule bus_inv_cong [OF assms]) (simp_all add: MarkReplayed_def Let_def same_stream_def u)
  show "bus_inv ok settled (snd (MarkDismissed i op reason b))"
    by (rule bus_inv_cong [OF assms]) (simp_all add: MarkDismissed_def Let_def same_stream_def u)
qed

lemma bus_inv_xadd: "bus_inv ok settled b \<Longrightarrow> bus_inv ok settled (xadd vs b)"
proof -
  assume i: "bus_inv ok settled b"
  have k: "stream_ok b" using i by (simp add: bus_inv_def)
  have "bu_next b \<noteq> dq_MessageID r" if "r \<in> set (bu_dlq b)" for r using k that by (fastforce simp: stream_ok_def)
  then have "stream_ok (xadd vs b)" using k
    unfolding stream_ok_def by (simp add: xadd_def sorted_wrt_append less_Suc_eq)
  moreover have "accounted settled (xadd vs b) m = accounted settled b m" for m by (simp add: accounted_def xadd_def)
  moreover have "m \<in> set (bu_stream b)" if "m \<in> set (bu_stream (xadd vs b))" "sm_id m \<le> bu_last b" for m
    using that i by (auto simp: xadd_def bus_inv_def stream_ok_def)
  moreover have "bu_last (xadd vs b) = bu_last b" "bu_app (xadd vs b) = bu_app b" by (simp_all add: xadd_def)
  ultimately show ?thesis using i by (simp add: bus_inv_def)
qed

lemma bus_inv_trim:
  assumes "bus_inv ok settled b"
  shows "bus_inv ok settled (trim n b)"
proof -
  have "set (bu_stream (trim n b)) \<subseteq> set (bu_stream b)" by (simp add: trim_def set_drop_subset)
  moreover have "sorted_wrt (<) (map sm_id (bu_stream (trim n b)))"
    using assms by (simp add: bus_inv_def stream_ok_def trim_def sorted_wrt_drop flip: drop_map)
  ultimately show ?thesis using assms
    by (auto simp: bus_inv_def stream_ok_def trim_def accounted_def subset_iff)
qed

lemma bus_inv_read:
  assumes i: "bus_inv ok settled b"
  shows "bus_inv ok settled (snd (read_new c b))"
proof -
  let ?P = "\<lambda>m. sm_id m > bu_last b"
  let ?ms = "take xreadCount (filter ?P (bu_stream b))"
  have s: "sorted_wrt (<) (map sm_id (bu_stream b))" using i by (simp add: bus_inv_def stream_ok_def)
  show ?thesis
  proof (cases "?ms = []")
    case True
    then show ?thesis using i by (simp add: read_new_def Let_def)
  next
    case False
    define b' where "b' = b\<lparr>bu_pel := bu_pel b @ map (\<lambda>m. (sm_id m, c)) ?ms, bu_last := sm_id (last ?ms)\<rparr>"
    have l: "last ?ms \<in> set (bu_stream b)" "bu_last b < sm_id (last ?ms)"
      using last_in_set [OF False] by (auto dest: in_set_takeD)
    have "accounted settled b' m" if m: "m \<in> set (bu_stream b)" "sm_id m \<le> sm_id (last ?ms)" for m
    proof (cases "?P m")
      case True
      then have "m \<in> set ?ms" using take_covers [OF s m(1), where P = ?P, OF _ False m(2)] by blast
      then show ?thesis by (force simp: accounted_def b'_def)
    next
      case old: False
      then have "accounted settled b m" using i m(1) by (simp add: bus_inv_def)
      then show ?thesis by (auto simp: accounted_def b'_def)
    qed
    moreover have "sm_id m \<le> sm_id (last ?ms)" if "m \<in> set ?ms" for m
      using last_max [of sm_id ?ms m] that s by (simp add: sorted_wrt_map sorted_wrt_filter sorted_wrt_take)
    then have "\<forall>j \<in> fst ` set (bu_pel b'). j \<le> bu_last b'" using i l(2)
      by (auto simp: bus_inv_def stream_ok_def b'_def intro: less_imp_le order.trans)
    then have "stream_ok b'" using i l unfolding bus_inv_def stream_ok_def b'_def
      by (auto intro: less_imp_le order.strict_trans1 order.trans)
    ultimately have "bus_inv ok settled b'" using i by (simp add: bus_inv_def b'_def)
    then show ?thesis using False by (simp add: read_new_def Let_def b'_def)
  qed
qed

lemma bus_inv_claim:
  assumes i: "bus_inv ok settled b"
  shows "bus_inv ok settled (snd (xautoclaim idle c b))"
proof -
  let ?b = "snd (xautoclaim idle c b)"
  have "sm_id m \<in> fst ` set (bu_pel ?b)" if m: "m \<in> set (bu_stream b)" "sm_id m \<in> fst ` set (bu_pel b)" for m
  proof -
    obtain d where "(sm_id m, d) \<in> set (bu_pel b)" using m(2) by force
    moreover have "here b (sm_id m)" using m(1) by (simp add: here_def)
    ultimately show ?thesis by (force simp: xautoclaim_def)
  qed
  then have "accounted settled ?b m" if "m \<in> set (bu_stream b)" "accounted settled b m" for m
    using accounted_mono [OF that(2), of ?b] that(1) by (simp add: xautoclaim_def)
  moreover have p: "fst ` set (bu_pel ?b) \<subseteq> fst ` set (bu_pel b)" by (force simp: xautoclaim_def split: if_splits)
  have f: "bu_stream ?b = bu_stream b" "bu_last ?b = bu_last b" "bu_app ?b = bu_app b" "bu_next ?b = bu_next b" "bu_dlq ?b = bu_dlq b"
    by (simp_all add: xautoclaim_def)
  have "\<forall>j \<in> fst ` set (bu_pel b). j \<le> bu_last b" using i by (simp add: bus_inv_def stream_ok_def)
  then have "\<forall>j \<in> fst ` set (bu_pel ?b). j \<le> bu_last b" using p by (meson subsetD)
  then have "stream_ok ?b" using i unfolding bus_inv_def stream_ok_def f by simp
  ultimately show ?thesis using i f by (simp add: bus_inv_def)
qed

lemma bus_inv_replay:
  assumes "bus_inv ok settled b"
  shows "bus_inv ok settled (snd (replaySingle dry mk i op b))"
  using assms marks_inv(1) [OF bus_inv_xadd [OF assms]] bus_inv_xadd [OF assms]
  by (simp add: replaySingle_def Let_def split: option.split)

text \<open>A dispatch of a message in flight keeps every entry accounted for, given what the handler promises.\<close>

locale event_consumer = idempotent_consumer ok handle settled
  for ok :: "'s \<Rightarrow> bool" and handle :: "'x \<Rightarrow> event \<Rightarrow> 's \<Rightarrow> bool \<times> 's" and settled :: "'s \<Rightarrow> event \<Rightarrow> bool"
begin

lemma dispatched:
  assumes "ok s" "dispatched_app handle x m s = (acked, s')"
  shows "ok s'" "settled s ev \<Longrightarrow> settled s' ev" "acked \<Longrightarrow> \<exists>e. parseStreamEntry (sm_values m) = Some e \<and> settled s' e"
proof -
  show "ok s'" using assms handle_inv [of s x] by (simp add: dispatched_app_def split: option.splits)
  show "settled s' ev" if "settled s ev" using assms that settled_stays [of s ev x] by (simp add: dispatched_app_def split: option.splits)
  show "\<exists>e. parseStreamEntry (sm_values m) = Some e \<and> settled s' e" if acked
    using assms that handle_settles [of s x] by (simp add: dispatched_app_def split: option.splits)
qed

lemma bus_inv_dispatch:
  assumes i: "bus_inv ok settled b" and fl: "in_flight b m"
  shows "bus_inv ok settled (dispatchMessage handle env x c m b)"
proof -
  let ?b = "dispatchMessage handle env x c m b"
  have o: "ok (bu_app b)" and k: "stream_ok b"
    and a: "\<And>m'. m' \<in> set (bu_stream b) \<Longrightarrow> sm_id m' \<le> bu_last b \<Longrightarrow> accounted settled b m'"
    using i by (simp_all add: bus_inv_def)
  have mono: "accounted settled ?b m'"
    if "m' \<in> set (bu_stream b)" "sm_id m' \<le> bu_last b" "m' = m \<Longrightarrow> accounted settled ?b m" "set (bu_dlq b) \<subseteq> set (bu_dlq ?b)"
      "bu_pel ?b = bu_pel b \<or> bu_pel ?b = bu_pel (xack env (sm_id m) b)" "dispatched_app handle x m (bu_app b) = (acked, bu_app ?b)" for m' acked
  proof (cases "m' = m")
    case False
    then have "sm_id m' \<noteq> sm_id m" using fl that(1) by (auto simp: in_flight_def)
    then show ?thesis using accounted_mono [OF a [OF that(1,2)]] that(4,5) xack_pel dispatched(2) [OF o that(6)] by metis
  qed (use that in simp)
  show ?thesis
  proof (cases rule: dispatch_cases [of handle x m b env c])
    case (acked s')
    have "stream_ok ?b" using k acked xack_pel_le unfolding stream_ok_def same_stream_def by metis
    moreover have "accounted settled ?b m" using acked dispatched(3) [OF o acked(1)] by (simp add: accounted_def)
    ultimately show ?thesis using acked mono dispatched(1) [OF o acked(1)] by (simp add: bus_inv_def same_stream_def)
  next
    case (kept s')
    have "accounted settled ?b m'" if "m' \<in> set (bu_stream b)" "sm_id m' \<le> bu_last b" for m'
      using accounted_mono [OF a [OF that], of ?b] kept dispatched(2) [OF o kept(1)] by simp
    with kept dispatched(1) [OF o kept(1)] k show ?thesis by (simp add: bus_inv_def same_stream_def stream_ok_def)
  next
    case (dead s')
    then obtain q where q: "dq_MessageID q = sm_id m" "set (bu_dlq ?b) = insert q (set (bu_dlq b))"
        "q \<in> set (bu_dlq b) \<or> dq_Payload q = sm_values m"
      unfolding dead_letter_def by (metis insert_absorb list.set(1,2) set_append Un_insert_right sup_bot_right)
    have p: "dq_Payload q = sm_values m'" if "m' \<in> set (bu_stream b)" "sm_id m' = sm_id m" for m'
      using q(1,3) k that fl by (auto simp: stream_ok_def in_flight_def)
    have "\<forall>j \<in> fst ` set (bu_pel ?b). j \<le> bu_last ?b" using k dead xack_pel_le unfolding stream_ok_def same_stream_def by metis
    then have "stream_ok ?b" using k dead(3) q(1,2) p fl by (auto simp: stream_ok_def same_stream_def in_flight_def)
    moreover have "accounted settled ?b m" if "m \<in> set (bu_stream b)" using q p [OF that] by (auto simp: accounted_def)
    ultimately show ?thesis using dead mono q dispatched(1) [OF o dead(1)]
      by (auto simp: bus_inv_def same_stream_def)
  qed
qed

lemma bus_inv_step: "bus_step handle b b' \<Longrightarrow> bus_inv ok settled b \<Longrightarrow> bus_inv ok settled b'"
proof (induction rule: bus_step.induct)
  case (stored b n)
  then show ?case by (rule bus_inv_cong) (simp_all add: bus_frame same_stream_def)
next
  case (lost b n)
  then show ?case by (rule bus_inv_cong) (simp_all add: same_stream_def)
qed (simp_all add: Publish_def bus_inv_xadd bus_inv_trim bus_inv_read bus_inv_claim bus_inv_dispatch bus_inv_replay marks_inv)

lemma bus_inv_run: "bus_run handle b b' \<Longrightarrow> bus_inv ok settled b \<Longrightarrow> bus_inv ok settled b'"
  by (induction rule: rtranclp_induct) (auto intro: bus_inv_step)

text \<open>A message whose event is settled, whether delivered again or replayed by an operator, leaves the state as it is.\<close>

lemma dispatch_settled:
  assumes "bus_inv ok settled b" "parseStreamEntry (sm_values m) = Some ev" "settled (bu_app b) ev"
  shows "bu_app (dispatchMessage handle env x c m b) = bu_app b"
proof -
  have "snd (dispatched_app handle x m (bu_app b)) = bu_app b"
    using assms handle_settled [of "bu_app b" ev x] by (simp add: dispatched_app_def bus_inv_def) (metis prod.collapse)
  then show ?thesis by (cases rule: dispatch_cases [of handle x m b env c]) auto
qed

end

lemma find_update_where:
  assumes "List.find (\<lambda>r. k r = i) rows = Some r" "p r" "\<And>r. k (f r) = k r"
  shows "List.find (\<lambda>r. k r = i) (update_where (\<lambda>r. k r = i \<and> p r) f rows) = Some (f r)"
  using assms by (induction rows) (auto simp: update_where_def split: if_splits)

lemma GetByID_MarkReplayed:
  "GetByID b i = Some r \<Longrightarrow> dq_Status r = DlqOpen \<Longrightarrow>
   GetByID (snd (MarkReplayed i op k b)) i = Some (r\<lparr>dq_Status := DlqReplayed, dq_ReplayedBy := op, dq_ReplayedMessageID := k\<rparr>)"
  unfolding GetByID_def MarkReplayed_def Let_def by (simp add: find_update_where)

section \<open>The loops are runs\<close>

lemma in_flight_same: "same_stream b b' \<Longrightarrow> in_flight b' m = in_flight b m"
  by (simp add: in_flight_def same_stream_def)

lemma dispatch_same: "same_stream b (dispatchMessage handle env x c m b)"
  by (cases rule: dispatch_cases [of handle x m b env c]) auto

lemma dispatch_all_run:
  "\<forall>m \<in> set msgs. in_flight b m \<Longrightarrow> bus_run handle b (dispatch_all handle envs c msgs b)"
proof (induction msgs arbitrary: b)
  case (Cons m msgs)
  let ?b = "dispatchMessage handle (fst (envs (sm_id m))) (snd (envs (sm_id m))) c m b"
  have "bus_step handle b ?b" using Cons.prems by (intro bus_step.dispatch) simp
  moreover have "bus_run handle ?b (dispatch_all handle envs c msgs ?b)"
    using Cons.prems by (intro Cons.IH) (simp add: in_flight_same [OF dispatch_same])
  ultimately show ?case by (simp add: dispatch_all_def)
qed (simp add: dispatch_all_def)

lemma unique_entry:
  "stream_ok b \<Longrightarrow> m \<in> set (bu_stream b) \<Longrightarrow> m' \<in> set (bu_stream b) \<Longrightarrow> sm_id m = sm_id m' \<Longrightarrow> m = m'"
  unfolding stream_ok_def strict_sorted_iff distinct_map inj_on_def by blast

lemma message_in_flight:
  assumes "stream_ok b" "i \<le> bu_last b"
  shows "in_flight b (message_of b i)" "sm_id (message_of b i) = i"
proof -
  have "sm_id (message_of b i) = i \<and> (\<forall>m \<in> set (bu_stream b). sm_id m = i \<longrightarrow> m = message_of b i)"
    using unique_entry [OF assms(1)]
    by (auto simp: message_of_def find_None_iff2 split: option.split dest!: find_SomeD)
  then show "in_flight b (message_of b i)" "sm_id (message_of b i) = i" using assms(2) by (auto simp: in_flight_def)
qed

lemma read_pending_in_flight:
  assumes "stream_ok b" "m \<in> set (read_pending c b)"
  shows "in_flight b m"
proof -
  obtain i d where "(i, d) \<in> set (bu_pel b)" "m = message_of b i"
    using assms(2) by (auto simp: read_pending_def dest!: in_set_takeD)
  moreover then have "i \<le> bu_last b" using assms(1) by (force simp: stream_ok_def)
  ultimately show ?thesis using message_in_flight(1) [OF assms(1)] by simp
qed

lemma read_new_in_flight:
  assumes k: "stream_ok b" and m: "m \<in> set (fst (read_new c b))"
  shows "in_flight (snd (read_new c b)) m"
proof -
  let ?ms = "take xreadCount (filter (\<lambda>m. sm_id m > bu_last b) (bu_stream b))"
  have ms: "m \<in> set ?ms" using m by (simp add: read_new_def Let_def)
  then have "sm_id m \<le> sm_id (last ?ms)"
    using last_max [of sm_id ?ms m] k by (simp add: stream_ok_def sorted_wrt_map sorted_wrt_filter sorted_wrt_take)
  moreover have "m \<in> set (bu_stream b)" using ms by (auto dest: in_set_takeD)
  moreover have "?ms \<noteq> []" using ms by (metis empty_iff list.set(1))
  ultimately show ?thesis using unique_entry [OF k] by (auto simp: in_flight_def read_new_def Let_def)
qed

lemma claim_in_flight:
  assumes "stream_ok b" "m \<in> set (fst (xautoclaim idle c b))"
  shows "in_flight (snd (xautoclaim idle c b)) m"
proof -
  obtain i d where "(i, d) \<in> set (bu_pel b)" "m = message_of b i" using assms(2) by (auto simp: xautoclaim_def)
  moreover then have "i \<le> bu_last b" using assms(1) by (force simp: stream_ok_def)
  ultimately have "in_flight b m" using message_in_flight(1) [OF assms(1)] by simp
  then show ?thesis by (simp add: in_flight_def xautoclaim_def)
qed

context event_consumer
begin

lemma Subscribe_turn_run:
  assumes "bus_inv ok settled b"
  shows "bus_run handle b (Subscribe_turn handle envs0 envs1 c b)"
proof -
  let ?b1 = "dispatch_all handle envs0 c (read_pending c b) b"
  have k: "stream_ok b" using assms by (simp add: bus_inv_def)
  have r1: "bus_run handle b ?b1" by (rule dispatch_all_run) (use read_pending_in_flight [OF k] in blast)
  then have "stream_ok ?b1" using bus_inv_run [OF r1 assms] by (simp add: bus_inv_def)
  then have "bus_run handle (snd (read_new c ?b1)) (dispatch_all handle envs1 c (fst (read_new c ?b1)) (snd (read_new c ?b1)))"
    using read_new_in_flight by (intro dispatch_all_run) blast
  moreover have "bus_step handle ?b1 (snd (read_new c ?b1))" by (rule bus_step.read)
  ultimately show ?thesis using r1
    by (simp add: Subscribe_turn_def Let_def case_prod_beta)
qed

lemma claimOrphaned_run:
  assumes "bus_inv ok settled b"
  shows "bus_run handle b (claimOrphaned handle envs idle c b)"
proof -
  let ?c = "xautoclaim idle c b"
  have "stream_ok b" using assms by (simp add: bus_inv_def)
  then have "bus_run handle (snd ?c) (dispatch_all handle envs c (fst ?c) (snd ?c))"
    using claim_in_flight by (intro dispatch_all_run) blast
  moreover have "bus_step handle b (snd ?c)" by (rule bus_step.claim)
  ultimately show ?thesis by (simp add: claimOrphaned_def case_prod_beta)
qed

end

section \<open>When a message is given up\<close>

definition has_dead :: "'s bus \<Rightarrow> nat \<Rightarrow> bool" where
  "has_dead b i \<longleftrightarrow> (\<exists>q \<in> set (bu_dlq b). dq_MessageID q = i)"

definition stored_attempts :: "'s bus \<Rightarrow> nat \<Rightarrow> attempt_row list" where
  "stored_attempts b i = filter (\<lambda>r. at_MessageID r = i) (bu_attempts b)"

text \<open>All that a dispatch relies on is there: attempt log, dead-letter table, database and Redis.\<close>

definition all_up :: "dispatch_env \<Rightarrow> bool" where
  "all_up env \<longleftrightarrow> de_attempts env \<and> \<not> de_full env \<and> de_dlq env \<and> de_dlq_ok env \<and> de_xack_ok env"

text \<open>A message delivered again and again, the workers storing what is queued before the next delivery.\<close>

definition delivery :: "('x \<Rightarrow> event \<Rightarrow> 's \<Rightarrow> bool \<times> 's) \<Rightarrow> string \<Rightarrow> stream_msg \<Rightarrow> dispatch_env \<times> 'x \<Rightarrow> 's bus \<Rightarrow> 's bus" where
  "delivery handle c m e b = flush attemptChanBuf (dispatchMessage handle (fst e) (snd e) c m b)"

lemma failureCount_all:
  assumes "\<forall>r \<in> set (stored_attempts b i). is_failure (at_Outcome r)" "is_failure (at_Outcome cur)"
  shows "failureCount b i cur = min 10 (length (stored_attempts b i)) + 1"
proof -
  have "set (prior_attempts b i) \<subseteq> set (stored_attempts b i)"
    unfolding prior_attempts_def stored_attempts_def by (metis set_sort set_take_subset)
  then have "filter (\<lambda>r. is_failure (at_Outcome r)) (prior_attempts b i) = prior_attempts b i"
    using assms(1) by (auto intro!: filter_True)
  then show ?thesis using assms(2) by (simp add: failureCount_def prior_attempts_def stored_attempts_def)
qed

lemma insertDLQ_log:
  "bu_attempts (insertDLQIfThreshold env m ev cur b) = bu_attempts b" "bu_queue (insertDLQIfThreshold env m ev cur b) = bu_queue b"
  by (auto simp: insertDLQIfThreshold_def InsertIfThreshold_def Let_def xack_def)

lemma insertDLQ_dead:
  assumes "de_dlq_ok env" "de_xack_ok env"
  shows "has_dead (insertDLQIfThreshold env m ev cur b) (sm_id m) \<longleftrightarrow> has_dead b (sm_id m) \<or> DLQThreshold \<le> failureCount b (sm_id m) cur"
    and "DLQThreshold \<le> failureCount b (sm_id m) cur \<Longrightarrow> sm_id m \<notin> fst ` set (bu_pel (insertDLQIfThreshold env m ev cur b))"
proof -
  have f: "List.find (\<lambda>r. dq_MessageID r = sm_id m) (bu_dlq b) = None \<longleftrightarrow> \<not> has_dead b (sm_id m)"
    by (auto simp: find_None_iff has_dead_def)
  show "has_dead (insertDLQIfThreshold env m ev cur b) (sm_id m) \<longleftrightarrow> has_dead b (sm_id m) \<or> DLQThreshold \<le> failureCount b (sm_id m) cur"
  proof (cases "DLQThreshold \<le> failureCount b (sm_id m) cur")
    case True
    then show ?thesis using assms f
      by (cases "has_dead b (sm_id m)") (auto simp: insertDLQIfThreshold_def InsertIfThreshold_def Let_def has_dead_def bus_frame new_dlq_row_def)
  next
    case False
    then show ?thesis using assms by (simp add: insertDLQIfThreshold_def InsertIfThreshold_def Let_def)
  qed
  show "sm_id m \<notin> fst ` set (bu_pel (insertDLQIfThreshold env m ev cur b))" if "DLQThreshold \<le> failureCount b (sm_id m) cur"
    using assms f that
    by (cases "has_dead b (sm_id m)") (auto simp: insertDLQIfThreshold_def InsertIfThreshold_def Let_def xack_def)
qed

lemma poison_delivery:
  fixes b m c
  defines "i \<equiv> sm_id m"
  assumes up: "all_up env" and fails: "\<not> fst (dispatched_app handle x m (bu_app b))"
    and q: "bu_queue b = []" and all: "\<forall>r \<in> set (stored_attempts b i). is_failure (at_Outcome r)"
  defines "b' \<equiv> delivery handle c m (env, x) b" and "n \<equiv> length (stored_attempts b i)"
  shows "bu_queue b' = []" "\<forall>r \<in> set (stored_attempts b' i). is_failure (at_Outcome r)" "length (stored_attempts b' i) = Suc n"
    and "has_dead b' i \<longleftrightarrow> has_dead b i \<or> (if de_flush env = 0 then 2 else 1) \<le> n"
    and "(if de_flush env = 0 then 2 else 1) \<le> n \<Longrightarrow> i \<notin> fst ` set (bu_pel b')"
proof -
  obtain s' where h: "dispatched_app handle x m (bu_app b) = (False, s')" using fails by (cases "dispatched_app handle x m (bu_app b)") auto
  define oc where "oc = (if parseStreamEntry (sm_values m) \<noteq> None \<and> de_panic env then OutcomePanic else OutcomeError)"
  define row where "row = \<lparr>at_MessageID = i, at_ConsumerName = c, at_Outcome = oc, at_At = de_now env\<rparr>"
  define b3 where "b3 = flush (de_flush env) (b\<lparr>bu_app := s', bu_queue := [row]\<rparr>)"
  have r: "is_failure (at_Outcome row)" "at_MessageID row = i" by (simp_all add: row_def oc_def is_failure_def)
  have e: "dispatchMessage handle env x c m b = insertDLQIfThreshold env m (parseStreamEntry (sm_values m)) row b3"
    using h up q unfolding dispatchMessage_def dispatched_app_def Let_def b3_def row_def oc_def i_def all_up_def
    by (simp add: sendAttempt_def attemptChanBuf_def)
  have l: "bu_attempts b' = bu_attempts b @ [row]" "bu_queue b' = []"
    unfolding b'_def delivery_def by (simp_all add: e flush_def insertDLQ_log b3_def attemptChanBuf_def take_Cons' drop_Cons' split: if_split)
  then show "bu_queue b' = []" "length (stored_attempts b' i) = Suc n" "\<forall>r \<in> set (stored_attempts b' i). is_failure (at_Outcome r)"
    using all r by (auto simp: stored_attempts_def n_def)
  have s: "stored_attempts b3 i = stored_attempts b i @ (if de_flush env = 0 then [] else [row])"
    using r by (simp add: stored_attempts_def b3_def flush_def take_Cons')
  then have "failureCount b3 i row = min 10 (n + (if de_flush env = 0 then 0 else 1)) + 1"
    using failureCount_all [of b3 i row] all r by (simp add: n_def)
  then have t: "DLQThreshold \<le> failureCount b3 i row \<longleftrightarrow> (if de_flush env = 0 then 2 else 1) \<le> n"
    by (auto simp: DLQThreshold_def)
  have d: "has_dead b3 i = has_dead b i" by (simp add: has_dead_def b3_def bus_frame)
  have ok: "de_dlq_ok env" "de_xack_ok env" using up by (simp_all add: all_up_def)
  have b': "has_dead b' i = has_dead (insertDLQIfThreshold env m (parseStreamEntry (sm_values m)) row b3) i"
    "bu_pel b' = bu_pel (insertDLQIfThreshold env m (parseStreamEntry (sm_values m)) row b3)"
    by (simp_all add: b'_def delivery_def e has_dead_def bus_frame)
  show "has_dead b' i \<longleftrightarrow> has_dead b i \<or> (if de_flush env = 0 then 2 else 1) \<le> n"
    using insertDLQ_dead(1) [OF ok, of m "parseStreamEntry (sm_values m)" row b3] b'(1) t d by (simp add: i_def)
  show "i \<notin> fst ` set (bu_pel b')" if "(if de_flush env = 0 then 2 else 1) \<le> n"
    using insertDLQ_dead(2) [OF ok, of b3 m row "parseStreamEntry (sm_values m)"] b'(2) t that by (simp add: i_def)
qed

text \<open>
  A message its handler always refuses: the number of failed deliveries that makes it a dead letter, with the workers storing an
  attempt either after the dead-letter check of its own delivery or before it.
\<close>

lemma poison_run:
  fixes c
  assumes "\<forall>e \<in> set es. all_up (fst e) \<and> (de_flush (fst e) = 0 \<longleftrightarrow> lag)" "\<And>x s. \<not> fst (dispatched_app handle x m s)"
    and "bu_queue b = []" "stored_attempts b (sm_id m) = []" "\<not> has_dead b (sm_id m)"
  defines "b' \<equiv> fold (delivery handle c m) es b" and "lim \<equiv> if lag then 3 else 2 :: nat"
  shows "bu_queue b' = [] \<and> (\<forall>r \<in> set (stored_attempts b' (sm_id m)). is_failure (at_Outcome r)) \<and>
    length (stored_attempts b' (sm_id m)) = length es \<and> (has_dead b' (sm_id m) \<longleftrightarrow> lim \<le> length es) \<and>
    (lim \<le> length es \<longrightarrow> sm_id m \<notin> fst ` set (bu_pel b'))"
  unfolding b'_def using assms(1)
proof (induction es rule: rev_induct)
  case Nil
  then show ?case using assms(3-5) by (simp add: lim_def)
next
  case (snoc e es)
  define b1 where "b1 = fold (delivery handle c m) es b"
  have ih: "bu_queue b1 = []" "\<forall>r \<in> set (stored_attempts b1 (sm_id m)). is_failure (at_Outcome r)"
      "length (stored_attempts b1 (sm_id m)) = length es" "has_dead b1 (sm_id m) \<longleftrightarrow> lim \<le> length es"
    using snoc by (simp_all add: b1_def)
  have up: "all_up (fst e)" and l: "(if de_flush (fst e) = 0 then 2 else 1) = lim - 1" "1 < lim"
    using snoc.prems by (auto simp: lim_def)
  have lim: "lim - 1 \<le> length es \<longleftrightarrow> lim \<le> length (es @ [e])" "lim \<le> length es \<Longrightarrow> lim \<le> length (es @ [e])" by auto
  note step = poison_delivery [OF up assms(2) ih(1,2), where x = "snd e" and c = c, unfolded ih(3,4) l(1) prod.collapse]
  show ?case using step lim by (auto simp: b1_def)
qed

end
