(* ===== verification/EventDelivery.thy ===== *)
theory EventDelivery
  imports EventBus Cashback OrderLedger SellerPayout Refund
begin

text \<open>
  The event bus with the engines that consume from it. Each engine's handler keeps the consumer contract, so the bus accounts
  for every entry it has read as long as no trim takes it away. Then the operator's replay of a dead letter, and when a message becomes one.
\<close>

section \<open>The fate of an entry\<close>

text \<open>An entry is safe once its event is settled or a dead letter keeps its values.\<close>

definition safe :: "('s \<Rightarrow> event \<Rightarrow> bool) \<Rightarrow> 's bus \<Rightarrow> stream_msg \<Rightarrow> bool" where
  "safe settled b m \<longleftrightarrow>
     (\<exists>ev. parseStreamEntry (sm_values m) = Some ev \<and> settled (bu_app b) ev) \<or>
     (\<exists>r \<in> set (bu_dlq b). dq_MessageID r = sm_id m \<and> dq_Payload r = sm_values m)"

lemma accounted_safe: "accounted settled b m \<longleftrightarrow> sm_id m \<in> fst ` set (bu_pel b) \<or> safe settled b m"
  by (simp add: accounted_def safe_def)

lemma safe_mono:
  assumes "safe settled b m" "\<And>ev. settled (bu_app b) ev \<Longrightarrow> settled (bu_app b') ev" "dlq_key ` set (bu_dlq b) \<subseteq> dlq_key ` set (bu_dlq b')"
  shows "safe settled b' m"
proof -
  have "(\<exists>r \<in> set (bu_dlq c). dq_MessageID r = sm_id m \<and> dq_Payload r = sm_values m) \<longleftrightarrow> (sm_id m, sm_values m) \<in> dlq_key ` set (bu_dlq c)" for c :: "'a bus"
    by (auto simp: dlq_key_def image_iff eq_commute)
  then show ?thesis using assms unfolding safe_def by blast
qed

lemma mark_keeps_dlq: "dlq_key ` set (bu_dlq (snd (MarkReplayed i op k b))) = dlq_key ` set (bu_dlq b)"
  "dlq_key ` set (bu_dlq (snd (MarkDismissed i op reason b))) = dlq_key ` set (bu_dlq b)"
  unfolding MarkReplayed_def MarkDismissed_def Let_def by (simp_all, (rule dlq_key_update_where, simp add: dlq_key_def)+)

lemma mark_frame: "bu_app (snd (MarkReplayed i op k b)) = bu_app b" "bu_stream (snd (MarkReplayed i op k b)) = bu_stream b"
  "bu_app (snd (MarkDismissed i op reason b)) = bu_app b" "bu_stream (snd (MarkDismissed i op reason b)) = bu_stream b"
  by (simp_all add: MarkReplayed_def MarkDismissed_def Let_def)

lemma replay_keeps: "bu_app (snd (replaySingle dry mk i op b)) = bu_app b"
  "dlq_key ` set (bu_dlq (snd (replaySingle dry mk i op b))) = dlq_key ` set (bu_dlq b)"
  by (simp_all add: replaySingle_def Let_def mark_keeps_dlq mark_frame xadd_def split: option.split)

text \<open>Only a trim takes an entry off the stream.\<close>

lemma stream_step: "bus_step handle b b' \<Longrightarrow> m \<in> set (bu_stream b) \<Longrightarrow> m \<in> set (bu_stream b') \<or> (\<exists>n. b' = trim n b)"
proof (induction rule: bus_step.induct)
  case (dispatch b msg env x c)
  have "same_stream b (dispatchMessage handle env x c msg b)" by (cases rule: dispatch_cases [of handle x msg b env c]) auto
  then show ?case using dispatch by (simp add: same_stream_def)
qed (auto simp: Publish_def xadd_def read_new_def Let_def xautoclaim_def bus_frame replaySingle_def mark_frame split: option.splits)

context event_consumer begin

lemma safe_step:
  assumes "bus_step handle b b'" "bus_inv ok settled b" "safe settled b m"
  shows "safe settled b' m"
  using assms
proof (induction rule: bus_step.induct)
  case (dispatch b msg env x c)
  have o: "ok (bu_app b)" using dispatch by (simp add: bus_inv_def)
  show ?case
  proof (cases rule: dispatch_cases [of handle x msg b env c])
    case (acked s')
    then show ?thesis using safe_mono [OF dispatch(3)] dispatched(2) [OF o acked(1)] by auto
  next
    case (kept s')
    then show ?thesis using safe_mono [OF dispatch(3)] dispatched(2) [OF o kept(1)] by auto
  next
    case (dead s')
    then have "dlq_key ` set (bu_dlq b) \<subseteq> dlq_key ` set (bu_dlq (dispatchMessage handle env x c msg b))"
      unfolding dead_letter_def by (intro image_mono) auto
    then show ?thesis using safe_mono [OF dispatch(3)] dispatched(2) [OF o dead(1)] dead(2) by auto
  qed
next
  case (replay b dry mk i op)
  show ?case by (rule safe_mono [OF replay(2)]) (simp_all add: replay_keeps)
next
  case (dismiss b i op reason)
  show ?case by (rule safe_mono [OF dismiss(2)]) (simp_all add: mark_keeps_dlq mark_frame)
qed (simp_all add: safe_def Publish_def xadd_def trim_def read_new_def Let_def xautoclaim_def bus_frame)

lemma safe_run: "bus_run handle b b' \<Longrightarrow> bus_inv ok settled b \<Longrightarrow> safe settled b m \<Longrightarrow> safe settled b' m"
  by (induction rule: rtranclp_induct) (auto intro: safe_step bus_inv_run)

text \<open>Whatever was on the stream is unread, pending or safe, unless a trim took it before it was safe.\<close>

lemma entry_fate:
  assumes run: "bus_run handle b b'" and inv: "bus_inv ok settled b" and m: "m \<in> set (bu_stream b)"
  shows "(m \<in> set (bu_stream b') \<and> (bu_last b' < sm_id m \<or> sm_id m \<in> fst ` set (bu_pel b'))) \<or> safe settled b' m \<or>
    (\<exists>x n. bus_run handle b x \<and> bus_run handle (trim n x) b' \<and> m \<in> set (bu_stream x) \<and> m \<notin> set (bu_stream (trim n x)) \<and> \<not> safe settled x m)"
proof -
  have "m \<in> set (bu_stream b') \<or> (\<exists>x n. bus_run handle b x \<and> bus_run handle (trim n x) b' \<and> m \<in> set (bu_stream x) \<and> m \<notin> set (bu_stream (trim n x)))"
    using run
  proof (induction rule: rtranclp_induct)
    case (step y z)
    then show ?case
      using stream_step [OF step(2)] by (metis rtranclp.rtrancl_into_rtrancl rtranclp.rtrancl_refl)
  qed (use m in simp)
  then show ?thesis
  proof (elim disjE exE conjE)
    assume s: "m \<in> set (bu_stream b')"
    then have "sm_id m \<le> bu_last b' \<Longrightarrow> accounted settled b' m" using bus_inv_run [OF run inv] by (simp add: bus_inv_def)
    then show ?thesis using s by (auto simp: accounted_safe not_le)
  next
    fix x n
    assume x: "bus_run handle b x" "bus_run handle (trim n x) b'" "m \<in> set (bu_stream x)" "m \<notin> set (bu_stream (trim n x))"
    show ?thesis
    proof (cases "safe settled x m")
      case True
      have i: "bus_inv ok settled (trim n x)" using bus_inv_trim [OF bus_inv_run [OF x(1) inv]] .
      have "safe settled (trim n x) m" using True by (simp add: safe_def trim_def)
      then show ?thesis using safe_run [OF x(2) i] by blast
    qed (use x in blast)
  qed
qed

end

section \<open>The engines on the bus\<close>

interpretation rfb: event_consumer refund_inv "refund_handle coin" "refund_settled coin" for coin ..
interpretation olb: event_consumer "\<lambda>s. ol_inv (fst s)" ol_handle capture_settled ..
interpretation cbb: event_consumer "cb_inv allowed" "cb_handle_for allowed" plan_settled for allowed ..
interpretation spb: event_consumer sp_inv payout_handle payout_settled ..

text \<open>
  C10. Only trimming loses a refund on the bus. Start from a bus where all is accounted for and let anything happen: events published by
  the relay or added by anybody, trims, reads, claims from dead consumers, deliveries of messages in flight in any order
  and any number of times, with handler failures and panics, failed acknowledgements, failed dead-letter inserts, lost attempt
  rows, replays and dismissals. Then every entry that was on the stream at the start is still there, unread or pending, or its refund is settled
  in the ledger, or a dead letter keeps exactly its values, or a trim took it off the stream before one of these was so (the loss that the
  length limit of the streams accepts). Of the entries on the stream at the end, those that the group has read are pending, settled or dead letters. A turn of
  the subscriber loop and a sweep of the claimer from there are again such runs.
\<close>

theorem refund_lost_only_by_trim:
  assumes "bus_inv refund_inv (refund_settled coin) b" "bus_run (refund_handle coin) b b'"
  shows "(\<forall>m \<in> set (bu_stream b).
            (m \<in> set (bu_stream b') \<and> (bu_last b' < sm_id m \<or> sm_id m \<in> fst ` set (bu_pel b'))) \<or>
            (\<exists>ev. parseStreamEntry (sm_values m) = Some ev \<and> refund_settled coin (bu_app b') ev) \<or>
            (\<exists>r \<in> set (bu_dlq b'). dq_MessageID r = sm_id m \<and> dq_Payload r = sm_values m) \<or>
            (\<exists>x n. bus_run (refund_handle coin) b x \<and> bus_run (refund_handle coin) (trim n x) b' \<and>
               m \<in> set (bu_stream x) \<and> m \<notin> set (bu_stream (trim n x)) \<and> \<not> safe (refund_settled coin) x m)) \<and>
         (\<forall>m \<in> set (bu_stream b'). sm_id m \<le> bu_last b' \<longrightarrow>
            sm_id m \<in> fst ` set (bu_pel b') \<or>
            (\<exists>ev. parseStreamEntry (sm_values m) = Some ev \<and> refund_settled coin (bu_app b') ev) \<or>
            (\<exists>r \<in> set (bu_dlq b'). dq_MessageID r = sm_id m \<and> dq_Payload r = sm_values m)) \<and>
         bus_run (refund_handle coin) b' (Subscribe_turn (refund_handle coin) envs0 envs1 c b') \<and>
         bus_run (refund_handle coin) b' (claimOrphaned (refund_handle coin) envs idle c b')"
proof (intro conjI ballI)
  fix m assume "m \<in> set (bu_stream b)"
  from rfb.entry_fate [OF assms(2,1) this] show "(m \<in> set (bu_stream b') \<and> (bu_last b' < sm_id m \<or> sm_id m \<in> fst ` set (bu_pel b'))) \<or>
            (\<exists>ev. parseStreamEntry (sm_values m) = Some ev \<and> refund_settled coin (bu_app b') ev) \<or>
            (\<exists>r \<in> set (bu_dlq b'). dq_MessageID r = sm_id m \<and> dq_Payload r = sm_values m) \<or>
            (\<exists>x n. bus_run (refund_handle coin) b x \<and> bus_run (refund_handle coin) (trim n x) b' \<and>
               m \<in> set (bu_stream x) \<and> m \<notin> set (bu_stream (trim n x)) \<and> \<not> safe (refund_settled coin) x m)"
    unfolding safe_def [of _ b'] by blast
qed (use rfb.bus_inv_run [OF assms(2,1)] rfb.Subscribe_turn_run rfb.claimOrphaned_run in \<open>simp_all add: bus_inv_def accounted_def\<close>)

section \<open>Replay\<close>

text \<open>
  An operator's replay brings back the event as it was published. If a dead letter is open and its entry was published for
  \<open>ev\<close>, the replay adds one entry at the end of the stream that parses to \<open>ev\<close> and marks the row with that entry's id; then a second
  replay of the row is refused. If the mark does not reach the database the row stays open and can be replayed again, and whichever copy
  comes second changes nothing in the ledger once the refund is settled.
\<close>

theorem replay_exact:
  assumes "bus_inv refund_inv (refund_settled coin) b" "GetByID b i = Some r" "dq_Status r = DlqOpen"
    and "m \<in> set (bu_stream b)" "sm_id m = dq_MessageID r" "sm_values m = publish_values ev"
  shows "\<exists>k. bu_stream (snd (replaySingle False mk i op b)) = bu_stream b @ [k] \<and> parseStreamEntry (sm_values k) = Some ev \<and>
           fst (replaySingle False mk i op b) \<and>
           (mk \<longrightarrow> (\<exists>r'. GetByID (snd (replaySingle False mk i op b)) i = Some r' \<and> dq_Status r' = DlqReplayed \<and> dq_ReplayedMessageID r' = sm_id k)) \<and>
           fst (replaySingle False mk i op (snd (replaySingle False mk i op b))) = (\<not> mk) \<and>
           (refund_settled coin (bu_app b) ev \<longrightarrow> bu_app (dispatchMessage (refund_handle coin) env x c k b) = bu_app b)"
proof -
  let ?k = "\<lparr>sm_id = bu_next b, sm_values = dq_Payload r\<rparr>" and ?b1 = "xadd (dq_Payload r) b"
  have r: "r \<in> set (bu_dlq b)" "dq_ID r = i" using find_SomeD [OF assms(2) [unfolded GetByID_def]] by auto
  have p: "dq_Payload r = publish_values ev" using assms(1,4-6) r(1) unfolding bus_inv_def stream_ok_def by metis
  then have ne: "dq_Payload r \<noteq> []" by (simp add: publish_values_def)
  have e: "replaySingle False mk i op b = (True, if mk then snd (MarkReplayed i op (bu_next b) ?b1) else ?b1)"
    using assms(2,3) ne by (simp add: replaySingle_def Let_def)
  have g: "GetByID (snd (MarkReplayed i op (bu_next b) ?b1)) i =
      Some (r\<lparr>dq_Status := DlqReplayed, dq_ReplayedBy := op, dq_ReplayedMessageID := bu_next b\<rparr>)"
    using assms(2,3) by (intro GetByID_MarkReplayed) (simp_all add: GetByID_def xadd_def)
  have "parseStreamEntry (sm_values ?k) = Some ev" by (simp add: p parse_publish_values)
  moreover have "bu_stream (snd (replaySingle False mk i op b)) = bu_stream b @ [?k]"
    by (simp add: e MarkReplayed_def Let_def xadd_def)
  moreover have "fst (replaySingle False mk i op (snd (replaySingle False mk i op b))) = (\<not> mk)"
    using assms(2,3) ne g by (cases mk) (simp_all add: e replaySingle_def Let_def, simp add: GetByID_def xadd_def)
  moreover have "bu_app (dispatchMessage (refund_handle coin) env x c ?k b) = bu_app b" if "refund_settled coin (bu_app b) ev"
    using rfb.dispatch_settled [OF assms(1) _ that, of ?k] by (simp add: p parse_publish_values)
  moreover have "GetByID (snd (replaySingle False mk i op b)) i = Some (r\<lparr>dq_Status := DlqReplayed, dq_ReplayedBy := op, dq_ReplayedMessageID := bu_next b\<rparr>)" if mk
    using g that e by simp
  ultimately show ?thesis using e by (intro exI [of _ ?k]) simp
qed

section \<open>Dead letters\<close>

text \<open>
  C28. A message its handler always refuses does not block the stream: with the attempt log, the dead-letter table, the
  database and Redis up, it becomes a dead letter and leaves the pending list. The number of failures that takes depends on the workers that store
  the attempts: if they store an attempt after the dead-letter check of its own delivery, the third failure does it, as
  \<^verbatim>\<open>DLQThreshold\<close> says; if they store it before, the check counts the attempt once from the table and once as the
  current one, and the second failure does it.
\<close>

theorem poison_dead_lettered:
  assumes "\<forall>e \<in> set es. all_up (fst e) \<and> (de_flush (fst e) = 0 \<longleftrightarrow> lag)" "\<And>x s. \<not> fst (dispatched_app handle x m s)"
    and "bu_queue b = []" "stored_attempts b (sm_id m) = []" "\<not> has_dead b (sm_id m)"
  shows "(has_dead (fold (delivery handle c m) es b) (sm_id m) \<longleftrightarrow> (if lag then DLQThreshold else DLQThreshold - 1) \<le> length es) \<and>
    (DLQThreshold \<le> length es \<longrightarrow> sm_id m \<notin> fst ` set (bu_pel (fold (delivery handle c m) es b)))"
  using poison_run [OF assms, of c] by (auto simp: DLQThreshold_def split: if_splits)

section \<open>A concrete group\<close>

definition msg_ex :: stream_msg where
  "msg_ex = \<lparr>sm_id = 1, sm_values = publish_values refund_ex_event\<rparr>"

definition bus_ex :: "wallet_db bus" where
  "bus_ex = \<lparr>bu_stream = [], bu_next = 1, bu_last = 0, bu_pel = [], bu_queue = [], bu_attempts = [], bu_dlq = [], bu_dlq_next = 1, bu_app = ledger_ex\<rparr>"

definition denv_ex :: dispatch_env where
  "denv_ex = \<lparr>de_now = 0, de_attempts = True, de_dlq = True, de_panic = False, de_full = False, de_flush = 0, de_dlq_ok = True, de_xack_ok = True\<rparr>"

definition dlq_ex :: dlq_row where
  "dlq_ex = \<lparr>dq_ID = 1, dq_MessageID = 1, dq_IdempotencyKey = ''return:refunded:9'', dq_Payload = publish_values refund_ex_event, dq_AttemptCount = 3,
     dq_Status = DlqOpen, dq_CreatedAt = 0, dq_ReplayedBy = [], dq_ReplayedMessageID = 0, dq_DismissedBy = [], dq_DismissalReason = []\<rparr>"

definition bus_dead_ex :: "wallet_db bus" where
  "bus_dead_ex = bus_ex\<lparr>bu_stream := [msg_ex], bu_next := 2, bu_last := 1, bu_dlq := [dlq_ex], bu_dlq_next := 2\<rparr>"

abbreviation refund_x :: "wenv \<times> tx_outcome list \<times> tx_outcome list \<times> wcache" where
  "refund_x \<equiv> (wenv_ex, [], [TxCommitSerialization], cache_ex)"

abbreviation bus_read_ex :: "wallet_db bus" where
  "bus_read_ex \<equiv> snd (read_new ''c'' (Publish refund_ex_event bus_ex))"

lemma bus_ex_inv: "bus_inv refund_inv (refund_settled coin) bus_ex"
  using refund_ex_inv by (simp add: bus_inv_def stream_ok_def bus_ex_def)

lemma bus_dead_ex_inv: "bus_inv refund_inv (refund_settled coin) bus_dead_ex"
  using refund_ex_inv
  by (simp add: bus_inv_def stream_ok_def accounted_def bus_ex_def bus_dead_ex_def msg_ex_def dlq_ex_def)

lemma bus_read_ex_eq: "bu_stream bus_read_ex = [msg_ex] \<and> bu_last bus_read_ex = 1"
  by (simp add: read_new_def Publish_def xadd_def bus_ex_def msg_ex_def xreadCount_def Let_def)

theorem refund_lost_only_by_trim_witness:
  "\<exists>b. bus_run (refund_handle ''TRY_COIN'') (Publish refund_ex_event bus_ex) b \<and> msg_ex \<in> set (bu_stream b) \<and> sm_id msg_ex \<le> bu_last b \<and>
     (sm_id msg_ex \<in> fst ` set (bu_pel b) \<or>
      (\<exists>ev. parseStreamEntry (sm_values msg_ex) = Some ev \<and> refund_settled ''TRY_COIN'' (bu_app b) ev) \<or>
      (\<exists>r \<in> set (bu_dlq b). dq_MessageID r = sm_id msg_ex \<and> dq_Payload r = sm_values msg_ex))"
proof -
  let ?h = "refund_handle ''TRY_COIN''"
  let ?b = "dispatchMessage ?h denv_ex refund_x ''c'' msg_ex bus_read_ex"
  have "in_flight bus_read_ex msg_ex" using bus_read_ex_eq by (simp add: in_flight_def msg_ex_def)
  then have run: "bus_run ?h (Publish refund_ex_event bus_ex) ?b"
    by (meson bus_step.dispatch bus_step.read rtranclp.rtrancl_into_rtrancl rtranclp.rtrancl_refl)
  have s: "msg_ex \<in> set (bu_stream ?b)" "sm_id msg_ex \<le> bu_last ?b"
    using dispatch_same [of bus_read_ex ?h denv_ex refund_x "''c''" msg_ex] bus_read_ex_eq by (simp_all add: same_stream_def msg_ex_def)
  have "bus_inv refund_inv (refund_settled ''TRY_COIN'') (Publish refund_ex_event bus_ex)"
    unfolding Publish_def by (rule bus_inv_xadd [OF bus_ex_inv])
  from refund_lost_only_by_trim [OF this run] show ?thesis using run s by blast
qed

text \<open>The loss is real: a pending refund that is trimmed is neither settled nor a dead letter, and the next claim forgets it.\<close>

lemma trimmed_while_pending:
  "sm_id msg_ex \<in> fst ` set (bu_pel bus_read_ex)"
  "bu_stream (trim 1 bus_read_ex) = []" "bu_dlq (trim 1 bus_read_ex) = []" "bu_app (trim 1 bus_read_ex) = ledger_ex"
  "bu_pel (snd (xautoclaim (\<lambda>_. True) ''d'' (trim 1 bus_read_ex))) = []"
  by (simp_all add: read_new_def Publish_def xadd_def bus_ex_def msg_ex_def xreadCount_def Let_def trim_def xautoclaim_def here_def)

theorem replay_exact_witness:
  "\<exists>k. bu_stream (snd (replaySingle False True 1 ''ops'' bus_dead_ex)) = [msg_ex, k] \<and> parseStreamEntry (sm_values k) = Some refund_ex_event"
proof -
  have g: "GetByID bus_dead_ex 1 = Some dlq_ex" "dq_Status dlq_ex = DlqOpen" "sm_id msg_ex = dq_MessageID dlq_ex" "sm_values msg_ex = publish_values refund_ex_event"
    "bu_stream bus_dead_ex = [msg_ex]"
    by (simp_all add: GetByID_def bus_dead_ex_def dlq_ex_def msg_ex_def)
  then show ?thesis
    using replay_exact [OF bus_dead_ex_inv g(1,2) _ g(3,4), of True "''ops''" "''TRY_COIN''" denv_ex refund_x "''c''"] by auto
qed

text \<open>An entry trimmed while it was pending is read with no values and refused by every handler.\<close>

theorem poison_dead_lettered_witness:
  "has_dead (fold (delivery (refund_handle ''TRY_COIN'') ''c'' \<lparr>sm_id = 1, sm_values = []\<rparr>) (replicate 3 (denv_ex, refund_x)) bus_ex) 1"
  using poison_dead_lettered [of "replicate 3 (denv_ex, refund_x)" True "refund_handle ''TRY_COIN''" "\<lparr>sm_id = 1, sm_values = []\<rparr>" bus_ex "''c''"]
  by (simp add: all_up_def denv_ex_def dispatched_app_def parseStreamEntry_def bus_ex_def stored_attempts_def has_dead_def DLQThreshold_def)

end
