(* ===== verification/Carriers.thy ===== *)
theory Carriers
  imports Sipay
begin

text \<open>
  The carrier adapters of \<^verbatim>\<open>internal/shipping\<close>: the shared types (\<^verbatim>\<open>domain.go\<close>) and the four REST carriers Aras, MNG, Surat and
  HepsiJet (\<^verbatim>\<open>adapter.go\<close>, \<^verbatim>\<open>client.go\<close>), with the token caches of the last two. What a carrier answers to a request is a parameter. A webhook's
  body is its text and what \<^verbatim>\<open>json.Unmarshal\<close> makes of it; \<^verbatim>\<open>HMAC-SHA256\<close> in hexadecimal is a parameter. Of the two SOAP
  carriers only the status codes and the missing webhooks are here.
\<close>

section \<open>Types\<close>

datatype shipment_state =
    ShipmentStatePending | ShipmentStatePickedUp | ShipmentStateInTransit | ShipmentStateOutForDelivery
  | ShipmentStateDelivered | ShipmentStateReturned | ShipmentStateCancelled | ShipmentStateFailed

datatype ship_error =
    ErrShipmentNotFound | ErrInvalidCarrier | ErrInvalidSignature | WebhookDecode
  | CarrierCall | CarrierStatus int | CarrierDecode | CarrierAuth
  | ShipDuplicate | ShipForeignKey | ShipQuery | ShipTx "ship_error tx_error"

record shipment_input =
  si_OrderID :: int
  si_IdempotencyKey :: string
  si_WeightGrams :: int
  si_ServiceLevel :: string

record shipment_result =
  sr_TrackingNumber :: string
  sr_CarrierShipmentID :: string
  sr_LabelPDFBase64 :: string
  sr_CostMinor :: int
  sr_CostCurrency :: string

record raw_body =
  rb_text :: string
  rb_json :: "json option"

record track_result =
  tr_TrackingNumber :: string
  tr_State :: shipment_state
  tr_Description :: string
  tr_EventAt :: instant
  tr_CarrierRaw :: string

record rate_result =
  rr_CostMinor :: int
  rr_Currency :: string
  rr_EstimatedDays :: int
  rr_ServiceLevel :: string

record webhook_event =
  we_TrackingNumber :: string
  we_State :: shipment_state
  we_Description :: string
  we_EventAt :: instant
  we_CarrierRaw :: string

record adapter =
  ad_CalculateRate :: "shipment_input \<Rightarrow> ship_error + rate_result"
  ad_CreateLabel :: "shipment_input \<Rightarrow> ship_error + shipment_result"
  ad_TrackShipment :: "string \<Rightarrow> ship_error + track_result"
  ad_CreateReturnLabel :: "int \<Rightarrow> ship_error + shipment_result"
  ad_HandleWebhook :: "raw_body \<Rightarrow> (string \<Rightarrow> string) \<Rightarrow> ship_error + webhook_event"
  ad_CancelShipment :: "string \<Rightarrow> ship_error option"

section \<open>Requests and responses\<close>

record http_req =
  rq_method :: string
  rq_url :: string
  rq_headers :: "(string \<times> string) list"
  rq_body :: "json option"

text \<open>One request; \<open>out\<close> is whether the caller wants the response decoded.\<close>

definition send_json :: "(http_req \<Rightarrow> http_result) \<Rightarrow> string \<Rightarrow> (string \<times> string) list \<Rightarrow> bool \<Rightarrow> string \<Rightarrow> string \<Rightarrow> json option \<Rightarrow> ship_error + json" where
  "send_json call baseURL auth out method path body =
     (case call \<lparr>rq_method = method, rq_url = baseURL @ path, rq_headers = auth @ [(''Content-Type'', ''application/json'')], rq_body = body\<rparr> of
        HttpError \<Rightarrow> Inl CarrierCall
      | HttpResponse status raw \<Rightarrow>
          if status \<ge> 400 then Inl (CarrierStatus status)
          else if \<not> out then Inr JNull
          else (case raw of None \<Rightarrow> Inl CarrierDecode | Some j \<Rightarrow> Inr j))"

type_synonym carrier_do = "bool \<Rightarrow> string \<Rightarrow> string \<Rightarrow> json option \<Rightarrow> ship_error + json"

definition aras_do :: "(http_req \<Rightarrow> http_result) \<Rightarrow> string \<Rightarrow> string \<Rightarrow> carrier_do" where
  "aras_do call baseURL basicAuth = send_json call baseURL [(''Authorization'', basicAuth)]"

definition mng_do :: "(http_req \<Rightarrow> http_result) \<Rightarrow> string \<Rightarrow> string \<Rightarrow> carrier_do" where
  "mng_do call baseURL apiKey = send_json call baseURL [(''X-API-Key'', apiKey)]"

text \<open>The decoders: a field of the wrong type is an error. A time that does not parse is the zero time.\<close>

fun text_time :: "json \<Rightarrow> instant option" where
  "text_time (JTime t) = Some t"
| "text_time (JStr s) = Some zero_time"
| "text_time JNull = Some zero_time"
| "text_time _ = None"

definition jtime0 :: "string \<Rightarrow> json \<Rightarrow> instant option" where
  "jtime0 k j = Option.bind (jfield k j) text_time"

definition decode_rate :: "string \<Rightarrow> string \<Rightarrow> json \<Rightarrow> ship_error + rate_result" where
  "decode_rate kTotal kDays j =
     (case (jint kTotal j, jstr ''currency'' j, jint kDays j) of
        (Some t, Some c, Some d) \<Rightarrow> Inr \<lparr>rr_CostMinor = t, rr_Currency = c, rr_EstimatedDays = d, rr_ServiceLevel = []\<rparr>
      | _ \<Rightarrow> Inl CarrierDecode)"

definition decode_label :: "string \<Rightarrow> string \<Rightarrow> string \<Rightarrow> string \<Rightarrow> json \<Rightarrow> ship_error + shipment_result" where
  "decode_label kTrack kShip kLabel kCost j =
     (case (jstr kTrack j, jstr kShip j, jstr kLabel j, jint kCost j, jstr ''currency'' j) of
        (Some t, Some s, Some l, Some c, Some cur) \<Rightarrow>
          Inr \<lparr>sr_TrackingNumber = t, sr_CarrierShipmentID = s, sr_LabelPDFBase64 = l, sr_CostMinor = c, sr_CostCurrency = cur\<rparr>
      | _ \<Rightarrow> Inl CarrierDecode)"

definition decode_track :: "string \<Rightarrow> string \<Rightarrow> json \<Rightarrow> ship_error + string \<times> string \<times> instant" where
  "decode_track kStatus kAt j =
     (case (jstr kStatus j, jstr ''description'' j, jtime0 kAt j) of
        (Some s, Some d, Some t) \<Rightarrow> Inr (s, d, t)
      | _ \<Rightarrow> Inl CarrierDecode)"

definition bind_sum :: "'e + 'a \<Rightarrow> ('a \<Rightarrow> 'e + 'b) \<Rightarrow> 'e + 'b" where
  "bind_sum r f = (case r of Inl e \<Rightarrow> Inl e | Inr a \<Rightarrow> f a)"

text \<open>\<^verbatim>\<open>Data\<close> wraps the answers of Surat.\<close>

definition data_of :: "json \<Rightarrow> ship_error + json" where
  "data_of j = (case jobj ''Data'' j of None \<Rightarrow> Inl CarrierDecode | Some d \<Rightarrow> Inr d)"

definition rate_for :: "shipment_input \<Rightarrow> ship_error + rate_result \<Rightarrow> ship_error + rate_result" where
  "rate_for req r = bind_sum r (\<lambda>x. Inr (x\<lparr>rr_ServiceLevel := si_ServiceLevel req\<rparr>))"

text \<open>The cost of a return label is not taken over.\<close>

definition return_of :: "ship_error + shipment_result \<Rightarrow> ship_error + shipment_result" where
  "return_of r = bind_sum r (\<lambda>x. Inr (x\<lparr>sr_CostMinor := 0, sr_CostCurrency := []\<rparr>))"

definition tracked :: "(string \<Rightarrow> shipment_state) \<Rightarrow> string \<Rightarrow> ship_error + string \<times> string \<times> instant \<Rightarrow> ship_error + track_result" where
  "tracked mapState trackingNumber r =
     bind_sum r (\<lambda>(s, d, t). Inr \<lparr>tr_TrackingNumber = trackingNumber, tr_State = mapState s, tr_Description = d, tr_EventAt = t, tr_CarrierRaw = []\<rparr>)"

definition err_only :: "'e + 'a \<Rightarrow> 'e option" where
  "err_only r = (case r of Inl e \<Rightarrow> Some e | Inr _ \<Rightarrow> None)"

definition no_webhook :: "raw_body \<Rightarrow> (string \<Rightarrow> string) \<Rightarrow> ship_error + webhook_event" where
  "no_webhook body headers = Inl ErrInvalidSignature"

definition decode_event :: "(string \<Rightarrow> shipment_state) \<Rightarrow> string \<Rightarrow> string \<Rightarrow> string \<Rightarrow> raw_body \<Rightarrow> ship_error + webhook_event" where
  "decode_event mapState kTrack kStatus kAt body =
     (case rb_json body of
        None \<Rightarrow> Inl WebhookDecode
      | Some j \<Rightarrow>
          (case (jstr kTrack j, jstr kStatus j, jstr ''description'' j, jtime0 kAt j) of
             (Some tn, Some s, Some d, Some t) \<Rightarrow>
               Inr \<lparr>we_TrackingNumber = tn, we_State = mapState s, we_Description = d, we_EventAt = t, we_CarrierRaw = rb_text body\<rparr>
           | _ \<Rightarrow> Inl WebhookDecode))"

definition validHMAC :: "(string \<Rightarrow> string \<Rightarrow> string) \<Rightarrow> string \<Rightarrow> string \<Rightarrow> string \<Rightarrow> bool" where
  "validHMAC hmac body secret sig \<longleftrightarrow> hmac secret body = sig"

section \<open>Aras\<close>

definition aras_mapState :: "string \<Rightarrow> shipment_state" where
  "aras_mapState code =
     (case map_of [(''1'', ShipmentStatePickedUp), (''2'', ShipmentStateInTransit), (''3'', ShipmentStateOutForDelivery),
                   (''4'', ShipmentStateDelivered), (''5'', ShipmentStateReturned), (''6'', ShipmentStateCancelled)] code of
        Some s \<Rightarrow> s | None \<Rightarrow> ShipmentStateInTransit)"

definition aras_CalculateRate :: "carrier_do \<Rightarrow> string \<Rightarrow> shipment_input \<Rightarrow> ship_error + rate_result" where
  "aras_CalculateRate run customerCode req =
     rate_for req (bind_sum (run True ''POST'' ''/api/v1/rate''
       (Some (JObj [(''customerCode'', JStr customerCode), (''weightGrams'', JInt (si_WeightGrams req))])))
       (decode_rate ''totalMinor'' ''estimatedDays''))"

definition aras_CreateLabel :: "carrier_do \<Rightarrow> string \<Rightarrow> shipment_input \<Rightarrow> ship_error + shipment_result" where
  "aras_CreateLabel run customerCode req =
     bind_sum (run True ''POST'' ''/api/v1/shipment''
       (Some (JObj [(''customerCode'', JStr customerCode), (''orderId'', JInt (si_OrderID req)),
         (''idempotencyKey'', JStr (si_IdempotencyKey req)), (''weightGrams'', JInt (si_WeightGrams req))])))
       (decode_label ''trackingNumber'' ''shipmentId'' ''labelPdfBase64'' ''costMinor'')"

definition aras_TrackShipment :: "carrier_do \<Rightarrow> string \<Rightarrow> ship_error + track_result" where
  "aras_TrackShipment run tn =
     tracked aras_mapState tn (bind_sum (run True ''GET'' (''/api/v1/shipment/'' @ tn) None) (decode_track ''statusCode'' ''eventAt''))"

definition aras_CreateReturnLabel :: "carrier_do \<Rightarrow> int \<Rightarrow> ship_error + shipment_result" where
  "aras_CreateReturnLabel run i =
     return_of (bind_sum (run True ''POST'' (''/api/v1/shipment/'' @ itoa i @ ''/return'') None)
       (decode_label ''trackingNumber'' ''shipmentId'' ''labelPdfBase64'' ''costMinor''))"

definition aras_CancelShipment :: "carrier_do \<Rightarrow> string \<Rightarrow> ship_error option" where
  "aras_CancelShipment run tn = err_only (run False ''DELETE'' (''/api/v1/shipment/'' @ tn) None)"

definition aras_adapter :: "carrier_do \<Rightarrow> string \<Rightarrow> adapter" where
  "aras_adapter run customerCode =
     \<lparr>ad_CalculateRate = aras_CalculateRate run customerCode, ad_CreateLabel = aras_CreateLabel run customerCode, ad_TrackShipment = aras_TrackShipment run,
      ad_CreateReturnLabel = aras_CreateReturnLabel run, ad_HandleWebhook = no_webhook, ad_CancelShipment = aras_CancelShipment run\<rparr>"

section \<open>MNG\<close>

definition mng_mapState :: "string \<Rightarrow> shipment_state" where
  "mng_mapState raw =
     (case map_of [(''KABUL'', ShipmentStatePickedUp), (''TRANSFER'', ShipmentStateInTransit), (''DAGITIMDA'', ShipmentStateOutForDelivery),
                   (''TESLIM'', ShipmentStateDelivered), (''IADE'', ShipmentStateReturned), (''IPTAL'', ShipmentStateCancelled)] raw of
        Some s \<Rightarrow> s | None \<Rightarrow> ShipmentStateInTransit)"

definition mng_CalculateRate :: "carrier_do \<Rightarrow> shipment_input \<Rightarrow> ship_error + rate_result" where
  "mng_CalculateRate run req =
     rate_for req (bind_sum (run True ''POST'' ''/v1/rate''
       (Some (JObj [(''weight_grams'', JInt (si_WeightGrams req)), (''service_code'', JStr (si_ServiceLevel req))])))
       (decode_rate ''total_minor'' ''estimated_days''))"

definition mng_CreateLabel :: "carrier_do \<Rightarrow> shipment_input \<Rightarrow> ship_error + shipment_result" where
  "mng_CreateLabel run req =
     bind_sum (run True ''POST'' ''/v1/shipment''
       (Some (JObj [(''order_id'', JInt (si_OrderID req)), (''idempotency_key'', JStr (si_IdempotencyKey req)), (''weight_grams'', JInt (si_WeightGrams req))])))
       (decode_label ''tracking_number'' ''shipment_id'' ''label_pdf_base64'' ''cost_minor'')"

definition mng_TrackShipment :: "carrier_do \<Rightarrow> string \<Rightarrow> ship_error + track_result" where
  "mng_TrackShipment run tn =
     tracked mng_mapState tn (bind_sum (run True ''GET'' (''/v1/shipment/'' @ tn @ ''/status'') None) (decode_track ''status_code'' ''event_at''))"

definition mng_CreateReturnLabel :: "carrier_do \<Rightarrow> int \<Rightarrow> ship_error + shipment_result" where
  "mng_CreateReturnLabel run i =
     return_of (bind_sum (run True ''POST'' (''/v1/shipment/'' @ itoa i @ ''/return'') None)
       (decode_label ''tracking_number'' ''shipment_id'' ''label_pdf_base64'' ''cost_minor''))"

definition mng_CancelShipment :: "carrier_do \<Rightarrow> string \<Rightarrow> ship_error option" where
  "mng_CancelShipment run tn = err_only (run False ''DELETE'' (''/v1/shipment/'' @ tn) None)"

definition mng_HandleWebhook :: "(string \<Rightarrow> string \<Rightarrow> string) \<Rightarrow> string \<Rightarrow> raw_body \<Rightarrow> (string \<Rightarrow> string) \<Rightarrow> ship_error + webhook_event" where
  "mng_HandleWebhook hmac webhookSecret body headers =
     (if \<not> validHMAC hmac (rb_text body) webhookSecret (headers ''X-MNG-Signature'') then Inl ErrInvalidSignature
      else decode_event mng_mapState ''tracking_number'' ''status_code'' ''event_at'' body)"

definition mng_adapter :: "(string \<Rightarrow> string \<Rightarrow> string) \<Rightarrow> carrier_do \<Rightarrow> string \<Rightarrow> adapter" where
  "mng_adapter hmac run webhookSecret =
     \<lparr>ad_CalculateRate = mng_CalculateRate run, ad_CreateLabel = mng_CreateLabel run, ad_TrackShipment = mng_TrackShipment run,
      ad_CreateReturnLabel = mng_CreateReturnLabel run, ad_HandleWebhook = mng_HandleWebhook hmac webhookSecret, ad_CancelShipment = mng_CancelShipment run\<rparr>"

section \<open>Token caches\<close>

record carrier_token =
  ct_token :: string
  ct_expiresAt :: instant

definition ct_get :: "instant \<Rightarrow> carrier_token \<Rightarrow> string option" where
  "ct_get now tc = (if ct_token tc \<noteq> [] \<and> now < ct_expiresAt tc then Some (ct_token tc) else None)"

definition ct_set :: "instant \<Rightarrow> string \<Rightarrow> int \<Rightarrow> carrier_token" where
  "ct_set now token ttl = \<lparr>ct_token = token, ct_expiresAt = now + (ttl - 30 * ns_per_sec)\<rparr>"

text \<open>The lifetime of a token: a 64-bit product, and 30 minutes when that is not positive.\<close>

definition token_ttl :: "int \<Rightarrow> int" where
  "token_ttl expiresIn = (let ttl = wrap64 (expiresIn * ns_per_sec) in if ttl \<le> 0 then 30 * 60 * ns_per_sec else ttl)"

definition auth_json :: "(http_req \<Rightarrow> http_result) \<Rightarrow> string \<Rightarrow> json \<Rightarrow> ship_error + json" where
  "auth_json call url body =
     (case call \<lparr>rq_method = ''POST'', rq_url = url, rq_headers = [(''Content-Type'', ''application/json'')], rq_body = Some body\<rparr> of
        HttpError \<Rightarrow> Inl CarrierCall
      | HttpResponse _ raw \<Rightarrow> (case raw of None \<Rightarrow> Inl CarrierDecode | Some j \<Rightarrow> Inr j))"

definition surat_bearerToken :: "instant \<Rightarrow> (http_req \<Rightarrow> http_result) \<Rightarrow> string \<Rightarrow> string \<times> string \<Rightarrow> carrier_token \<Rightarrow> (ship_error + string) \<times> carrier_token" where
  "surat_bearerToken now call baseURL cred tc =
     (case ct_get now tc of
        Some tok \<Rightarrow> (Inr tok, tc)
      | None \<Rightarrow>
          (case auth_json call (baseURL @ ''/api/v1/auth/login'') (JObj [(''Username'', JStr (fst cred)), (''Password'', JStr (snd cred))]) of
             Inl e \<Rightarrow> (Inl e, tc)
           | Inr j \<Rightarrow>
               (case (jobj ''Data'' j, jint ''Status'' j) of
                  (Some d, Some st) \<Rightarrow>
                    (case (jstr ''Token'' d, jint ''ExpiresIn'' d) of
                       (Some tok, Some secs) \<Rightarrow>
                         if st \<noteq> 200 \<or> tok = [] then (Inl CarrierAuth, tc) else (Inr tok, ct_set now tok (token_ttl secs))
                     | _ \<Rightarrow> (Inl CarrierDecode, tc))
                | _ \<Rightarrow> (Inl CarrierDecode, tc))))"

definition hepsijet_bearerToken :: "instant \<Rightarrow> (http_req \<Rightarrow> http_result) \<Rightarrow> string \<Rightarrow> string \<times> string \<Rightarrow> carrier_token \<Rightarrow> (ship_error + string) \<times> carrier_token" where
  "hepsijet_bearerToken now call baseURL cred tc =
     (case ct_get now tc of
        Some tok \<Rightarrow> (Inr tok, tc)
      | None \<Rightarrow>
          (case auth_json call (baseURL @ ''/oauth/token'')
                  (JObj [(''client_id'', JStr (fst cred)), (''client_secret'', JStr (snd cred)), (''grant_type'', JStr ''client_credentials'')]) of
             Inl e \<Rightarrow> (Inl e, tc)
           | Inr j \<Rightarrow>
               (case (jstr ''access_token'' j, jint ''expires_in'' j) of
                  (Some tok, Some secs) \<Rightarrow> if tok = [] then (Inl CarrierAuth, tc) else (Inr tok, ct_set now tok (token_ttl secs))
                | _ \<Rightarrow> (Inl CarrierDecode, tc))))"

text \<open>A call of either client: the token first, then the request with it.\<close>

definition bearer_do :: "((ship_error + string) \<times> carrier_token) \<Rightarrow> (http_req \<Rightarrow> http_result) \<Rightarrow> string \<Rightarrow> bool \<Rightarrow> string \<Rightarrow> string \<Rightarrow> json option
    \<Rightarrow> (ship_error + json) \<times> carrier_token" where
  "bearer_do t call baseURL out method path body =
     (case t of (Inl e, tc) \<Rightarrow> (Inl e, tc)
      | (Inr tok, tc) \<Rightarrow> (send_json call baseURL [(''Authorization'', ''Bearer '' @ tok)] out method path body, tc))"

definition surat_do :: "instant \<Rightarrow> (http_req \<Rightarrow> http_result) \<Rightarrow> string \<Rightarrow> string \<times> string \<Rightarrow> carrier_token \<Rightarrow> bool \<Rightarrow> string \<Rightarrow> string \<Rightarrow> json option
    \<Rightarrow> (ship_error + json) \<times> carrier_token" where
  "surat_do now call baseURL cred tc = bearer_do (surat_bearerToken now call baseURL cred tc) call baseURL"

definition hepsijet_do :: "instant \<Rightarrow> (http_req \<Rightarrow> http_result) \<Rightarrow> string \<Rightarrow> string \<times> string \<Rightarrow> carrier_token \<Rightarrow> bool \<Rightarrow> string \<Rightarrow> string \<Rightarrow> json option
    \<Rightarrow> (ship_error + json) \<times> carrier_token" where
  "hepsijet_do now call baseURL cred tc = bearer_do (hepsijet_bearerToken now call baseURL cred tc) call baseURL"

section \<open>Surat\<close>

definition surat_mapState :: "string \<Rightarrow> shipment_state" where
  "surat_mapState raw =
     (case map_of [(''RECEIVED'', ShipmentStatePickedUp), (''IN_TRANSIT'', ShipmentStateInTransit), (''OUT_FOR_DELIVERY'', ShipmentStateOutForDelivery),
                   (''DELIVERED'', ShipmentStateDelivered), (''RETURNED'', ShipmentStateReturned), (''CANCELLED'', ShipmentStateCancelled)] raw of
        Some s \<Rightarrow> s | None \<Rightarrow> ShipmentStateInTransit)"

definition surat_CalculateRate :: "carrier_do \<Rightarrow> shipment_input \<Rightarrow> ship_error + rate_result" where
  "surat_CalculateRate run req =
     rate_for req (bind_sum (bind_sum (run True ''POST'' ''/api/v1/shipment/rate''
       (Some (JObj [(''weightGrams'', JInt (si_WeightGrams req)), (''serviceCode'', JStr (si_ServiceLevel req))]))) data_of)
       (decode_rate ''totalMinor'' ''estimatedDays''))"

definition surat_CreateLabel :: "carrier_do \<Rightarrow> shipment_input \<Rightarrow> ship_error + shipment_result" where
  "surat_CreateLabel run req =
     bind_sum (bind_sum (run True ''POST'' ''/api/v1/shipment/create''
       (Some (JObj [(''orderId'', JInt (si_OrderID req)), (''idempotencyKey'', JStr (si_IdempotencyKey req)),
         (''weightGrams'', JInt (si_WeightGrams req)), (''serviceCode'', JStr (si_ServiceLevel req))]))) data_of)
       (decode_label ''trackingNumber'' ''shipmentId'' ''labelPdfBase64'' ''costMinor'')"

definition surat_TrackShipment :: "carrier_do \<Rightarrow> string \<Rightarrow> ship_error + track_result" where
  "surat_TrackShipment run tn =
     tracked surat_mapState tn (bind_sum (bind_sum (run True ''GET'' (''/api/v1/shipment/track/'' @ tn) None) data_of) (decode_track ''status'' ''eventAt''))"

definition surat_CreateReturnLabel :: "carrier_do \<Rightarrow> int \<Rightarrow> ship_error + shipment_result" where
  "surat_CreateReturnLabel run i =
     return_of (bind_sum (bind_sum (run True ''POST'' (''/api/v1/shipment/'' @ itoa i @ ''/return'') None) data_of)
       (decode_label ''trackingNumber'' ''shipmentId'' ''labelPdfBase64'' ''costMinor''))"

definition surat_CancelShipment :: "carrier_do \<Rightarrow> string \<Rightarrow> ship_error option" where
  "surat_CancelShipment run tn = err_only (run False ''POST'' (''/api/v1/shipment/cancel/'' @ tn) None)"

definition surat_HandleWebhook :: "(string \<Rightarrow> string \<Rightarrow> string) \<Rightarrow> string \<Rightarrow> raw_body \<Rightarrow> (string \<Rightarrow> string) \<Rightarrow> ship_error + webhook_event" where
  "surat_HandleWebhook hmac webhookSecret body headers =
     (if \<not> validHMAC hmac (rb_text body) webhookSecret (headers ''X-Surat-Sign'') then Inl ErrInvalidSignature
      else decode_event surat_mapState ''trackingNumber'' ''status'' ''eventAt'' body)"

definition surat_adapter :: "(string \<Rightarrow> string \<Rightarrow> string) \<Rightarrow> carrier_do \<Rightarrow> string \<Rightarrow> adapter" where
  "surat_adapter hmac run webhookSecret =
     \<lparr>ad_CalculateRate = surat_CalculateRate run, ad_CreateLabel = surat_CreateLabel run, ad_TrackShipment = surat_TrackShipment run,
      ad_CreateReturnLabel = surat_CreateReturnLabel run, ad_HandleWebhook = surat_HandleWebhook hmac webhookSecret, ad_CancelShipment = surat_CancelShipment run\<rparr>"

section \<open>HepsiJet\<close>

definition hepsijet_mapState :: "string \<Rightarrow> shipment_state" where
  "hepsijet_mapState raw =
     (case map_of [(''PACKAGE_RECEIVED'', ShipmentStatePickedUp), (''IN_TRANSIT'', ShipmentStateInTransit), (''OUT_FOR_DELIVERY'', ShipmentStateOutForDelivery),
                   (''DELIVERED'', ShipmentStateDelivered), (''RETURNED_TO_SENDER'', ShipmentStateReturned), (''CANCELLED'', ShipmentStateCancelled)] raw of
        Some s \<Rightarrow> s | None \<Rightarrow> ShipmentStateInTransit)"

definition hepsijet_CalculateRate :: "carrier_do \<Rightarrow> shipment_input \<Rightarrow> ship_error + rate_result" where
  "hepsijet_CalculateRate run req =
     rate_for req (bind_sum (run True ''POST'' ''/api/v1/rate''
       (Some (JObj [(''weightGrams'', JInt (si_WeightGrams req)), (''serviceCode'', JStr (si_ServiceLevel req))])))
       (decode_rate ''totalMinor'' ''estimatedDays''))"

definition hepsijet_CreateLabel :: "carrier_do \<Rightarrow> shipment_input \<Rightarrow> ship_error + shipment_result" where
  "hepsijet_CreateLabel run req =
     bind_sum (run True ''POST'' ''/api/v1/shipment''
       (Some (JObj [(''orderId'', JInt (si_OrderID req)), (''idempotencyKey'', JStr (si_IdempotencyKey req)), (''weightGrams'', JInt (si_WeightGrams req))])))
       (decode_label ''trackingNumber'' ''shipmentId'' ''labelPdfBase64'' ''costMinor'')"

definition hepsijet_TrackShipment :: "carrier_do \<Rightarrow> string \<Rightarrow> ship_error + track_result" where
  "hepsijet_TrackShipment run tn =
     tracked hepsijet_mapState tn (bind_sum (run True ''GET'' (''/api/v1/shipment/'' @ tn) None) (decode_track ''status'' ''eventAt''))"

definition hepsijet_CreateReturnLabel :: "carrier_do \<Rightarrow> int \<Rightarrow> ship_error + shipment_result" where
  "hepsijet_CreateReturnLabel run i =
     return_of (bind_sum (run True ''POST'' (''/api/v1/shipment/'' @ itoa i @ ''/return'') None)
       (decode_label ''trackingNumber'' ''shipmentId'' ''labelPdfBase64'' ''costMinor''))"

definition hepsijet_CancelShipment :: "carrier_do \<Rightarrow> string \<Rightarrow> ship_error option" where
  "hepsijet_CancelShipment run tn = err_only (run False ''DELETE'' (''/api/v1/shipment/'' @ tn) None)"

definition hepsijet_HandleWebhook :: "string \<Rightarrow> raw_body \<Rightarrow> (string \<Rightarrow> string) \<Rightarrow> ship_error + webhook_event" where
  "hepsijet_HandleWebhook webhookToken body headers =
     (if \<not> EqualFold (headers ''Authorization'') (''Bearer '' @ webhookToken) then Inl ErrInvalidSignature
      else decode_event hepsijet_mapState ''trackingNumber'' ''status'' ''eventAt'' body)"

definition hepsijet_adapter :: "carrier_do \<Rightarrow> string \<Rightarrow> adapter" where
  "hepsijet_adapter run webhookToken =
     \<lparr>ad_CalculateRate = hepsijet_CalculateRate run, ad_CreateLabel = hepsijet_CreateLabel run, ad_TrackShipment = hepsijet_TrackShipment run,
      ad_CreateReturnLabel = hepsijet_CreateReturnLabel run, ad_HandleWebhook = hepsijet_HandleWebhook webhookToken,
      ad_CancelShipment = hepsijet_CancelShipment run\<rparr>"

section \<open>SOAP carriers\<close>

definition mapYurticiState :: "string \<Rightarrow> shipment_state" where
  "mapYurticiState code =
     (case map_of [(''10'', ShipmentStatePickedUp), (''20'', ShipmentStateInTransit), (''30'', ShipmentStateOutForDelivery),
                   (''40'', ShipmentStateDelivered), (''50'', ShipmentStateReturned), (''60'', ShipmentStateCancelled)] code of
        Some s \<Rightarrow> s | None \<Rightarrow> ShipmentStateInTransit)"

definition mapPTTState :: "string \<Rightarrow> shipment_state" where
  "mapPTTState code =
     (case map_of [(''10'', ShipmentStatePickedUp), (''20'', ShipmentStateInTransit), (''30'', ShipmentStateOutForDelivery),
                   (''40'', ShipmentStateDelivered), (''50'', ShipmentStateReturned), (''60'', ShipmentStateCancelled)] code of
        Some s \<Rightarrow> s | None \<Rightarrow> ShipmentStateInTransit)"

end
