(* ===== verification/Shipping.thy ===== *)
theory Shipping
  imports Carriers OrderFlow
begin

text \<open>
  Shipping: \<^verbatim>\<open>internal/shipping/{service,repository}.go\<close> and the webhook endpoint \<^verbatim>\<open>cmd/core-svc/handlers_shipping.go\<close>. The
  shipping tables and the order tables are in one database, written in separate transactions. A carrier's webhook or poll
  that reports a delivery calls \<^verbatim>\<open>order.MarkDelivered\<close>, which starts the cashback and payout clocks.
\<close>

section \<open>Tables\<close>

text \<open>An empty string is the NULL of the nullable columns.\<close>

record shipment =
  sh_ID :: int
  sh_OrderID :: int
  sh_Carrier :: string
  sh_TrackingNumber :: string
  sh_CarrierShipmentID :: string
  sh_State :: shipment_state
  sh_LabelPDFB2Key :: string
  sh_EstimatedDeliveryAt :: "instant option"
  sh_DeliveredAt :: "instant option"
  sh_LastPolledAt :: "instant option"
  sh_IdempotencyKey :: string
  sh_CostMinor :: int
  sh_CostCurrency :: string
  sh_CreatedAt :: instant
  sh_UpdatedAt :: instant

record shipment_event =
  sev_ID :: int
  sev_ShipmentID :: int
  sev_State :: shipment_state
  sev_Source :: string
  sev_CarrierRaw :: string
  sev_EventAt :: instant

record ship_db =
  sd_shipments :: "shipment list"
  sd_next :: int
  sd_events :: "shipment_event list"
  sd_ev_next :: int
  sd_orders :: order_db

text \<open>\<^verbatim>\<open>UNIQUE (idempotency_key)\<close> and the partial unique index on the carrier and its tracking number.\<close>

definition InsertShipment :: "instant \<Rightarrow> shipment \<Rightarrow> ship_db \<Rightarrow> ship_error + shipment \<times> ship_db" where
  "InsertShipment now s db =
     (if List.find (\<lambda>r. sh_IdempotencyKey r = sh_IdempotencyKey s) (sd_shipments db) \<noteq> None \<or>
         sh_TrackingNumber s \<noteq> [] \<and> List.find (\<lambda>r. sh_Carrier r = sh_Carrier s \<and> sh_TrackingNumber r = sh_TrackingNumber s) (sd_shipments db) \<noteq> None
      then Inl ShipDuplicate
      else (let r = s\<lparr>sh_ID := sd_next db, sh_CreatedAt := now, sh_UpdatedAt := now\<rparr> in
            Inr (r, db\<lparr>sd_shipments := sd_shipments db @ [r\<lparr>sh_DeliveredAt := None, sh_LastPolledAt := None\<rparr>], sd_next := sd_next db + 1\<rparr>)))"

definition FindShipmentByOrderID :: "ship_db \<Rightarrow> int \<Rightarrow> ship_error + shipment" where
  "FindShipmentByOrderID db orderID =
     (case rev (sort_key sh_CreatedAt (filter (\<lambda>r. sh_OrderID r = orderID) (sd_shipments db))) of [] \<Rightarrow> Inl ErrShipmentNotFound | r # _ \<Rightarrow> Inr r)"

definition FindShipmentByTrackingNumber :: "ship_db \<Rightarrow> string \<Rightarrow> string \<Rightarrow> ship_error + shipment" where
  "FindShipmentByTrackingNumber db carrier tn =
     (case List.find (\<lambda>r. sh_Carrier r = carrier \<and> sh_TrackingNumber r \<noteq> [] \<and> sh_TrackingNumber r = tn) (sd_shipments db) of
        None \<Rightarrow> Inl ErrShipmentNotFound | Some r \<Rightarrow> Inr r)"

definition UpdateShipmentState :: "instant \<Rightarrow> int \<Rightarrow> shipment_state \<Rightarrow> instant option \<Rightarrow> ship_db \<Rightarrow> ship_db" where
  "UpdateShipmentState now i st deliveredAt db =
     db\<lparr>sd_shipments := update_where (\<lambda>r. sh_ID r = i) (\<lambda>r. r\<lparr>sh_State := st, sh_DeliveredAt := deliveredAt, sh_UpdatedAt := now\<rparr>) (sd_shipments db)\<rparr>"

definition InsertShipmentEvent :: "shipment_event \<Rightarrow> ship_db \<Rightarrow> ship_error + ship_db" where
  "InsertShipmentEvent e db =
     (if List.find (\<lambda>r. sh_ID r = sev_ShipmentID e) (sd_shipments db) = None then Inl ShipForeignKey
      else Inr (db\<lparr>sd_events := sd_events db @ [e\<lparr>sev_ID := sd_ev_next db\<rparr>], sd_ev_next := sd_ev_next db + 1\<rparr>))"

definition active :: "shipment_state \<Rightarrow> bool" where
  "active st \<longleftrightarrow> st \<in> {ShipmentStatePending, ShipmentStatePickedUp, ShipmentStateInTransit, ShipmentStateOutForDelivery}"

definition poll_gap :: int where
  "poll_gap = 285 * ns_per_sec"

text \<open>\<^verbatim>\<open>NULLS FIRST\<close>: a shipment never polled comes before all others.\<close>

definition FindPollableShipments :: "instant \<Rightarrow> string \<Rightarrow> nat \<Rightarrow> ship_db \<Rightarrow> shipment list" where
  "FindPollableShipments now carrier limit db =
     (let rows = filter (\<lambda>r. sh_Carrier r = carrier \<and> active (sh_State r) \<and> (case sh_LastPolledAt r of None \<Rightarrow> True | Some t \<Rightarrow> t < now - poll_gap))
                   (sd_shipments db) in
      take limit (filter (\<lambda>r. sh_LastPolledAt r = None) rows @
                  sort_key (\<lambda>r. case sh_LastPolledAt r of None \<Rightarrow> 0 | Some t \<Rightarrow> t) (filter (\<lambda>r. sh_LastPolledAt r \<noteq> None) rows)))"

definition UpdateLastPolledAt :: "instant \<Rightarrow> int \<Rightarrow> ship_db \<Rightarrow> ship_db" where
  "UpdateLastPolledAt now i db =
     db\<lparr>sd_shipments := update_where (\<lambda>r. sh_ID r = i) (\<lambda>r. r\<lparr>sh_LastPolledAt := Some now\<rparr>) (sd_shipments db)\<rparr>"

section \<open>Service\<close>

definition ship_NewService :: "bool \<Rightarrow> string \<Rightarrow> (string \<Rightarrow> adapter option) \<Rightarrow> bool" where
  "ship_NewService inProduction defaultCarrier adapters \<longleftrightarrow>
     \<not> inProduction \<or> defaultCarrier \<noteq> [] \<and> adapters defaultCarrier \<noteq> None"

definition ship_adapter :: "(string \<Rightarrow> adapter option) \<Rightarrow> string \<Rightarrow> ship_error + adapter" where
  "ship_adapter adapters carrier = (case adapters carrier of None \<Rightarrow> Inl ErrInvalidCarrier | Some a \<Rightarrow> Inr a)"

definition CalculateRate :: "(string \<Rightarrow> adapter option) \<Rightarrow> string \<Rightarrow> shipment_input \<Rightarrow> ship_error + rate_result" where
  "CalculateRate adapters carrier req = bind_sum (ship_adapter adapters carrier) (\<lambda>a. ad_CalculateRate a req)"

definition CreateLabel :: "(string \<Rightarrow> adapter option) \<Rightarrow> string \<Rightarrow> shipment_input \<Rightarrow> ship_error + shipment_result" where
  "CreateLabel adapters carrier req = bind_sum (ship_adapter adapters carrier) (\<lambda>a. ad_CreateLabel a req)"

definition TrackShipment :: "(string \<Rightarrow> adapter option) \<Rightarrow> string \<Rightarrow> string \<Rightarrow> ship_error + track_result" where
  "TrackShipment adapters carrier tn = bind_sum (ship_adapter adapters carrier) (\<lambda>a. ad_TrackShipment a tn)"

definition CreateReturnLabel :: "(string \<Rightarrow> adapter option) \<Rightarrow> string \<Rightarrow> int \<Rightarrow> ship_error + shipment_result" where
  "CreateReturnLabel adapters carrier i = bind_sum (ship_adapter adapters carrier) (\<lambda>a. ad_CreateReturnLabel a i)"

definition CancelShipment :: "(string \<Rightarrow> adapter option) \<Rightarrow> string \<Rightarrow> string \<Rightarrow> ship_error option" where
  "CancelShipment adapters carrier tn =
     (case ship_adapter adapters carrier of Inl e \<Rightarrow> Some e | Inr a \<Rightarrow> ad_CancelShipment a tn)"

definition ship_HandleWebhook :: "(string \<Rightarrow> adapter option) \<Rightarrow> string \<Rightarrow> raw_body \<Rightarrow> (string \<Rightarrow> string) \<Rightarrow> ship_error + webhook_event" where
  "ship_HandleWebhook adapters carrier body headers = bind_sum (ship_adapter adapters carrier) (\<lambda>a. ad_HandleWebhook a body headers)"

text \<open>
  The environment of one call: the clock, whether the look-up succeeds, the transaction's outcomes, the environment of the order
  service and the catalog's answers to it.
\<close>

record ship_env =
  hv_now :: instant
  hv_find_ok :: bool
  hv_outs :: "tx_outcome list"
  hv_order :: order_env
  hv_product :: "order_item \<Rightarrow> int \<times> string \<times> string"

definition ship_WithTx :: "tx_outcome list \<Rightarrow> (ship_db \<Rightarrow> ship_error + unit \<times> ship_db) \<Rightarrow> ship_db \<Rightarrow> (ship_error + unit) \<times> ship_db" where
  "ship_WithTx outs fn db = one_tx ShipTx outs fn db"

text \<open>What the webhook and the poll store, and what they do then; an error of \<^verbatim>\<open>MarkDelivered\<close> is only logged.\<close>

definition ship_tx :: "instant \<Rightarrow> int \<Rightarrow> shipment_state \<Rightarrow> string \<Rightarrow> string \<Rightarrow> instant \<Rightarrow> ship_db \<Rightarrow> ship_error + unit \<times> ship_db" where
  "ship_tx now i st source raw at db =
     (case InsertShipmentEvent \<lparr>sev_ID = 0, sev_ShipmentID = i, sev_State = st, sev_Source = source, sev_CarrierRaw = raw, sev_EventAt = at\<rparr>
             (UpdateShipmentState now i st (if st = ShipmentStateDelivered then Some at else None) db) of
        Inl e \<Rightarrow> Inl e | Inr db' \<Rightarrow> Inr ((), db'))"

definition mark_delivered :: "ship_env \<Rightarrow> int \<Rightarrow> shipment_state \<Rightarrow> instant \<Rightarrow> ship_db \<Rightarrow> ship_db" where
  "mark_delivered env orderID st at db =
     (if st = ShipmentStateDelivered
      then db\<lparr>sd_orders := snd (MarkDelivered (hv_order env) (hv_product env) orderID at (sd_orders db))\<rparr> else db)"

definition ProcessWebhookEvent :: "ship_env \<Rightarrow> string \<Rightarrow> webhook_event \<Rightarrow> ship_db \<Rightarrow> ship_error option \<times> ship_db" where
  "ProcessWebhookEvent env carrier ev db =
     (case (if hv_find_ok env then FindShipmentByTrackingNumber db carrier (we_TrackingNumber ev) else Inl ShipQuery) of
        Inl e \<Rightarrow> (if e = ErrShipmentNotFound then None else Some e, db)
      | Inr sh \<Rightarrow>
          (case ship_WithTx (hv_outs env) (ship_tx (hv_now env) (sh_ID sh) (we_State ev) ''webhook'' (we_CarrierRaw ev) (we_EventAt ev)) db of
             (Inl e, db1) \<Rightarrow> (Some e, db1)
           | (Inr _, db1) \<Rightarrow> (None, mark_delivered env (sh_OrderID sh) (we_State ev) (we_EventAt ev) db1)))"

definition ProcessPollResult :: "ship_env \<Rightarrow> int \<Rightarrow> int \<Rightarrow> track_result \<Rightarrow> ship_db \<Rightarrow> ship_error option \<times> ship_db" where
  "ProcessPollResult env shipmentID orderID result db =
     (case ship_WithTx (hv_outs env) (ship_tx (hv_now env) shipmentID (tr_State result) ''poll'' (tr_CarrierRaw result) (tr_EventAt result)) db of
        (Inl e, db1) \<Rightarrow> (Some e, db1)
      | (Inr _, db1) \<Rightarrow> (None, mark_delivered env orderID (tr_State result) (tr_EventAt result) db1))"

definition poll_one :: "(int \<Rightarrow> ship_env) \<Rightarrow> (int \<Rightarrow> bool) \<Rightarrow> adapter \<Rightarrow> shipment \<Rightarrow> ship_db \<Rightarrow> ship_db" where
  "poll_one envs polled_ok a sh db =
     (let env = envs (sh_ID sh); db1 = (if polled_ok (sh_ID sh) then UpdateLastPolledAt (hv_now env) (sh_ID sh) db else db) in
      case ad_TrackShipment a (sh_TrackingNumber sh) of
        Inl e \<Rightarrow> db1
      | Inr result \<Rightarrow>
          if tr_State result = sh_State sh then db1
          else snd (ProcessPollResult env (sh_ID sh) (sh_OrderID sh) result db1))"

definition PollCarrier :: "bool \<Rightarrow> instant \<Rightarrow> (int \<Rightarrow> ship_env) \<Rightarrow> (int \<Rightarrow> bool) \<Rightarrow> (string \<Rightarrow> adapter option) \<Rightarrow> string \<Rightarrow> nat \<Rightarrow> ship_db
    \<Rightarrow> ship_error option \<times> ship_db" where
  "PollCarrier find_ok now envs polled_ok adapters carrier limit db =
     (case ship_adapter adapters carrier of
        Inl e \<Rightarrow> (Some e, db)
      | Inr a \<Rightarrow>
          if \<not> find_ok then (Some ShipQuery, db)
          else (None, fold (poll_one envs polled_ok a) (FindPollableShipments now carrier limit db) db))"

section \<open>The webhook endpoint\<close>

text \<open>
  \<^verbatim>\<open>net/http\<close> stores a request's header fields under their canonical names: the first letter and every letter after a hyphen
  in upper case, the rest in lower case; a name with a byte that is not a token byte stays as it is.
\<close>

definition token_char :: "char \<Rightarrow> bool" where
  "token_char c \<longleftrightarrow>
     (let n = of_char c :: nat in 48 \<le> n \<and> n \<le> 57 \<or> 65 \<le> n \<and> n \<le> 90 \<or> 97 \<le> n \<and> n \<le> 122 \<or>
        n \<in> {33, 35, 36, 37, 38, 39, 42, 43, 45, 46, 94, 95, 96, 124, 126})"

fun canonical_from :: "bool \<Rightarrow> string \<Rightarrow> string" where
  "canonical_from up [] = []"
| "canonical_from up (c # cs) = (if up then upper c else lower c) # canonical_from (c = CHR ''-'') cs"

definition CanonicalMIMEHeaderKey :: "string \<Rightarrow> string" where
  "CanonicalMIMEHeaderKey s = (if list_all token_char s then canonical_from True s else s)"

text \<open>The handler copies the first value of each name; an absent name reads as the empty string.\<close>

definition header_map :: "(string \<times> string) list \<Rightarrow> string \<Rightarrow> string" where
  "header_map hs k = (case map_of (map (\<lambda>(n, v). (CanonicalMIMEHeaderKey n, v)) hs) k of None \<Rightarrow> [] | Some v \<Rightarrow> v)"

definition handleShippingWebhook :: "ship_env \<Rightarrow> (string \<Rightarrow> adapter option) \<Rightarrow> string \<Rightarrow> (string \<times> string) list \<Rightarrow> raw_body option \<Rightarrow> ship_db \<Rightarrow> int \<times> ship_db" where
  "handleShippingWebhook env adapters carrier hs rawBody db =
     (case rawBody of
        None \<Rightarrow> (500, db)
      | Some body \<Rightarrow>
          (case ship_HandleWebhook adapters carrier body (header_map hs) of
             Inl e \<Rightarrow> (if e = ErrInvalidSignature then 400 else 500, db)
           | Inr ev \<Rightarrow>
               (case ProcessWebhookEvent env carrier ev db of
                  (Some e, db') \<Rightarrow> (500, db')
                | (None, db') \<Rightarrow> (200, db'))))"

section \<open>Header names\<close>

lemma canonical_Cons:
  assumes "canonical_from up s = x # xs"
  obtains c cs where "x = (if up then upper c else lower c)" "canonical_from (c = CHR ''-'') cs = xs"
  using assms that by (cases s) auto

lemma hyphen_case: "upper CHR ''-'' = CHR ''-''" "lower CHR ''-'' = CHR ''-''"
  by (simp_all add: upper_def lower_def)

lemma canonical_not_mng: "CanonicalMIMEHeaderKey n \<noteq> ''X-MNG-Signature''"
proof
  assume e: "CanonicalMIMEHeaderKey n = ''X-MNG-Signature''"
  have t: "list_all token_char ''X-MNG-Signature''" by (simp add: token_char_def)
  then have "canonical_from True n = ''X-MNG-Signature''" using e by (auto simp: CanonicalMIMEHeaderKey_def split: if_splits)
  then obtain c1 n1 where "canonical_from (c1 = CHR ''-'') n1 = ''-MNG-Signature''" by (rule canonical_Cons)
  then obtain c2 n2 where "canonical_from (c2 = CHR ''-'') n2 = ''MNG-Signature''" by (rule canonical_Cons)
  then obtain c3 n3 where c3: "CHR ''M'' = (if c2 = CHR ''-'' then upper c3 else lower c3)" "canonical_from (c3 = CHR ''-'') n3 = ''NG-Signature''"
    by (rule canonical_Cons)
  from c3(2) obtain c4 n4 where c4: "CHR ''N'' = (if c3 = CHR ''-'' then upper c4 else lower c4)" by (rule canonical_Cons)
  have "c3 \<noteq> CHR ''-''" using c3(1) hyphen_case by (auto split: if_splits)
  then have "lower c4 = CHR ''N''" using c4 by simp
  then show False using lower_not_upper [of c4] by simp
qed

lemma header_map_mng: "header_map hs ''X-MNG-Signature'' = []"
proof -
  have "map_of (map (\<lambda>(n, v). (CanonicalMIMEHeaderKey n, v)) hs) ''X-MNG-Signature'' = None"
    by (force simp: map_of_eq_None_iff canonical_not_mng [symmetric])
  then show ?thesis by (simp add: header_map_def)
qed

section \<open>What processing an event does\<close>

lemma FindShipment_Inr:
  "FindShipmentByTrackingNumber db carrier tn = Inr sh \<Longrightarrow>
     sh \<in> set (sd_shipments db) \<and> sh_Carrier sh = carrier \<and> sh_TrackingNumber sh = tn \<and> tn \<noteq> []"
  by (auto simp: FindShipmentByTrackingNumber_def dest: find_SomeD split: option.splits)

definition stored_state :: "instant \<Rightarrow> int \<Rightarrow> shipment_state \<Rightarrow> instant \<Rightarrow> shipment \<Rightarrow> shipment" where
  "stored_state now i st at r =
     (if sh_ID r = i then r\<lparr>sh_State := st, sh_DeliveredAt := (if st = ShipmentStateDelivered then Some at else None), sh_UpdatedAt := now\<rparr> else r)"

lemma stored_state_id [simp]:
  "sh_ID (stored_state now i st at r) = sh_ID r" "sh_OrderID (stored_state now i st at r) = sh_OrderID r"
  by (simp_all add: stored_state_def)

lemma ship_tx_cases:
  assumes "ship_WithTx outs (ship_tx now i st source raw at) db = (res, db')"
  obtains (error) e where "res = Inl e" "db' = db"
  | (stored) n where "res = Inr ()" "sd_shipments db' = map (stored_state now i st at) (sd_shipments db)" "sd_orders db' = sd_orders db"
      "sd_events db' = sd_events db @ [\<lparr>sev_ID = n, sev_ShipmentID = i, sev_State = st, sev_Source = source, sev_CarrierRaw = raw, sev_EventAt = at\<rparr>]"
  using assms unfolding ship_WithTx_def
proof (cases rule: one_tx_cases)
  case (error e)
  then show ?thesis by (intro that(1)) auto
next
  case (commit a)
  then show ?thesis
    by (intro that(2) [of "sd_ev_next db"])
      (auto simp: ship_tx_def InsertShipmentEvent_def UpdateShipmentState_def update_where_def stored_state_def split: sum.splits if_splits intro!: map_cong)
qed

lemma ship_tx_quiet:
  assumes "sh \<in> set (sd_shipments db)"
  shows "\<exists>db'. ship_WithTx [] (ship_tx now (sh_ID sh) st source raw at) db = (Inr (), db')"
proof -
  have "sh \<in> set rows \<Longrightarrow> List.find (\<lambda>r. sh_ID r = sh_ID sh)
      (update_where (\<lambda>r. sh_ID r = sh_ID sh) (\<lambda>r. r\<lparr>sh_State := st, sh_DeliveredAt := d, sh_UpdatedAt := now\<rparr>) rows) \<noteq> None" for d rows
    by (induction rows) (auto simp: update_where_def)
  note assms [THEN this]
  then show ?thesis
    by (auto simp: ship_WithTx_def one_tx_quiet ship_tx_def InsertShipmentEvent_def UpdateShipmentState_def split: sum.split)
qed

lemma mark_delivered_frame [simp]:
  "sd_shipments (mark_delivered env oid st at db) = sd_shipments db" "sd_events (mark_delivered env oid st at db) = sd_events db"
  "st \<noteq> ShipmentStateDelivered \<Longrightarrow> mark_delivered env oid st at db = db"
  "sd_orders (mark_delivered env oid ShipmentStateDelivered at db) = snd (MarkDelivered (hv_order env) (hv_product env) oid at (sd_orders db))"
  by (simp_all add: mark_delivered_def)

lemma MarkDelivered_error: "MarkDelivered env product i t db = (Some e, db') \<Longrightarrow> db' = db"
proof -
  assume m: "MarkDelivered env product i t db = (Some e, db')"
  have "db' = db" if "err_of (order_WithTx outs fn db) = (Some e, db')" for outs and fn :: "order_db \<Rightarrow> order_error + unit \<times> order_db"
  proof (cases "order_WithTx outs fn db")
    case (Pair res db2)
    from this show ?thesis by (cases rule: order_WithTx_cases) (use that Pair in \<open>auto simp: err_of_def\<close>)
  qed
  then show ?thesis using m by (auto simp: MarkDelivered_def split: sum.splits if_splits)
qed

definition orders_of :: "int \<Rightarrow> order_db \<Rightarrow> order list" where
  "orders_of oid db = filter (\<lambda>r. or_ID r = oid) (dbo_orders db)"

lemma MarkDelivered_other:
  assumes "i \<noteq> oid"
  shows "orders_of oid (snd (MarkDelivered env product i t db)) = orders_of oid db"
proof (cases "MarkDelivered env product i t db")
  case (Pair e db')
  have u: "filter (\<lambda>r. or_ID r = oid) (update_where (\<lambda>r. or_ID r = i) f rows) = filter (\<lambda>r. or_ID r = oid) rows"
    if "\<And>r. or_ID (f r) = or_ID r" for f rows
    using assms that by (induction rows) (auto simp: update_where_def)
  show ?thesis
  proof (cases e)
    case (Some x)
    then show ?thesis using MarkDelivered_error Pair by (metis snd_conv)
  next
    case None
    show ?thesis
    proof (cases "\<exists>ord items. repo_GetOrder db i = Inr (ord, items) \<and> or_Status ord \<noteq> StatusDelivered")
      case True
      then obtain outs row where "err_of (order_WithTx outs (\<lambda>tx. with_outbox env row (SetDelivered i t tx)) db) = (None, db')"
        using Pair None by (auto simp: MarkDelivered_def)
      then obtain y db1 where "SetDelivered i t db = Inr (y, db1)" "dbo_orders db' = dbo_orders db1" using event_committed by blast
      then show ?thesis using Pair by (auto simp: orders_of_def SetDelivered_def u split: if_splits)
    next
      case False
      then show ?thesis using Pair None by (auto simp: MarkDelivered_def split: sum.splits)
    qed
  qed
qed

text \<open>Processing a webhook for a known shipment with the shipping side up.\<close>

lemma ProcessWebhook_stored:
  assumes f: "FindShipmentByTrackingNumber db carrier (we_TrackingNumber ev) = Inr sh" and up: "hv_find_ok env" "hv_outs env = []"
  obtains db1 n where "ProcessWebhookEvent env carrier ev db = (None, mark_delivered env (sh_OrderID sh) (we_State ev) (we_EventAt ev) db1)"
    "sd_shipments db1 = map (stored_state (hv_now env) (sh_ID sh) (we_State ev) (we_EventAt ev)) (sd_shipments db)" "sd_orders db1 = sd_orders db"
    "sd_events db1 = sd_events db @ [\<lparr>sev_ID = n, sev_ShipmentID = sh_ID sh, sev_State = we_State ev, sev_Source = ''webhook'',
       sev_CarrierRaw = we_CarrierRaw ev, sev_EventAt = we_EventAt ev\<rparr>]"
proof -
  obtain db1 where t: "ship_WithTx [] (ship_tx (hv_now env) (sh_ID sh) (we_State ev) ''webhook'' (we_CarrierRaw ev) (we_EventAt ev)) db = (Inr (), db1)"
    using ship_tx_quiet FindShipment_Inr [OF f] by blast
  then have p: "ProcessWebhookEvent env carrier ev db = (None, mark_delivered env (sh_OrderID sh) (we_State ev) (we_EventAt ev) db1)"
    using f up by (simp add: ProcessWebhookEvent_def)
  from t show ?thesis by (cases rule: ship_tx_cases) (use p that in auto)
qed

section \<open>Polling leaves a delivered shipment alone\<close>

definition ships_of :: "int \<Rightarrow> ship_db \<Rightarrow> shipment list" where
  "ships_of oid db = filter (\<lambda>r. sh_OrderID r = oid) (sd_shipments db)"

definition ship_keys :: "ship_db \<Rightarrow> (int \<times> int) list" where
  "ship_keys db = map (\<lambda>r. (sh_ID r, sh_OrderID r)) (sd_shipments db)"

text \<open>The shipments of an order and the order itself are as before.\<close>

definition untouched :: "int \<Rightarrow> ship_db \<Rightarrow> ship_db \<Rightarrow> bool" where
  "untouched oid db db' \<longleftrightarrow>
     ships_of oid db' = ships_of oid db \<and> ship_keys db' = ship_keys db \<and> orders_of oid (sd_orders db') = orders_of oid (sd_orders db)"

lemma untouched_trans: "untouched oid a b \<Longrightarrow> untouched oid b c \<Longrightarrow> untouched oid a c"
  by (simp add: untouched_def)

lemma filter_map_same: "(\<And>x. x \<in> set xs \<Longrightarrow> p (f x) = p x) \<Longrightarrow> (\<And>x. x \<in> set xs \<Longrightarrow> p x \<Longrightarrow> f x = x) \<Longrightarrow> filter p (map f xs) = filter p xs"
  by (induction xs) auto

lemma rows_untouched:
  assumes "sd_shipments db' = map f (sd_shipments db)" "\<And>r. sh_ID (f r) = sh_ID r" "\<And>r. sh_OrderID (f r) = sh_OrderID r" "sd_orders db' = sd_orders db"
    and "\<And>r. r \<in> set (sd_shipments db) \<Longrightarrow> sh_OrderID r = oid \<Longrightarrow> f r = r"
  shows "untouched oid db db'"
  using assms by (auto simp: untouched_def ships_of_def ship_keys_def intro!: filter_map_same)

lemma poll_one_untouched:
  assumes o: "sh_OrderID sh \<noteq> oid" and ids: "\<And>o'. (sh_ID sh, o') \<in> set (ship_keys db) \<Longrightarrow> o' \<noteq> oid"
  shows "untouched oid db (poll_one envs polled_ok a sh db)"
proof -
  let ?env = "envs (sh_ID sh)"
  have n: "sh_ID r \<noteq> sh_ID sh" if "r \<in> set (sd_shipments d)" "sh_OrderID r = oid" "ship_keys d = ship_keys db" for r d
    using ids [of "sh_OrderID r"] that unfolding ship_keys_def by (metis (mono_tags, lifting) image_eqI list.set_map)
  define db1 where "db1 = (if polled_ok (sh_ID sh) then UpdateLastPolledAt (hv_now ?env) (sh_ID sh) db else db)"
  have u1: "untouched oid db db1"
  proof (cases "polled_ok (sh_ID sh)")
    case True
    show ?thesis
      by (rule rows_untouched [where f = "\<lambda>r. if sh_ID r = sh_ID sh then r\<lparr>sh_LastPolledAt := Some (hv_now ?env)\<rparr> else r"])
        (use True n in \<open>auto simp: db1_def UpdateLastPolledAt_def update_where_def\<close>)
  qed (simp add: db1_def untouched_def)
  have "untouched oid db1 (snd (ProcessPollResult ?env (sh_ID sh) (sh_OrderID sh) result db1))" for result
  proof -
    obtain res db2 where t: "ship_WithTx (hv_outs ?env) (ship_tx (hv_now ?env) (sh_ID sh) (tr_State result) ''poll'' (tr_CarrierRaw result) (tr_EventAt result)) db1 = (res, db2)"
      by fastforce
    from t show ?thesis
    proof (cases rule: ship_tx_cases)
      case (error e)
      then show ?thesis using t by (simp add: ProcessPollResult_def untouched_def)
    next
      case (stored k)
      have "untouched oid db1 db2"
        by (rule rows_untouched [OF stored(2) _ _ stored(3)]) (use n u1 in \<open>auto simp: stored_state_def untouched_def\<close>)
      moreover have "untouched oid db2 (mark_delivered ?env (sh_OrderID sh) (tr_State result) (tr_EventAt result) db2)"
        using MarkDelivered_other [OF o] by (simp add: untouched_def ships_of_def ship_keys_def mark_delivered_def)
      ultimately show ?thesis using t stored(1) untouched_trans by (simp add: ProcessPollResult_def)
    qed
  qed
  then have "untouched oid db (snd (ProcessPollResult ?env (sh_ID sh) (sh_OrderID sh) result db1))" for result
    using untouched_trans [OF u1] by blast
  then show ?thesis using u1 unfolding poll_one_def Let_def db1_def [symmetric] by (cases "ad_TrackShipment a (sh_TrackingNumber sh)") auto
qed

lemma polls_untouched:
  assumes "\<And>sh. sh \<in> set shs \<Longrightarrow> sh_OrderID sh \<noteq> oid \<and> (\<forall>o'. (sh_ID sh, o') \<in> set (ship_keys db) \<longrightarrow> o' \<noteq> oid)"
  shows "untouched oid db (fold (poll_one envs polled_ok a) shs db)"
  using assms
proof (induction shs arbitrary: db)
  case (Cons sh shs)
  have u: "untouched oid db (poll_one envs polled_ok a sh db)" using Cons.prems [of sh] by (intro poll_one_untouched) auto
  then have "untouched oid (poll_one envs polled_ok a sh db) (fold (poll_one envs polled_ok a) shs (poll_one envs polled_ok a sh db))"
    using Cons.prems by (intro Cons.IH) (auto simp: untouched_def)
  then show ?case using untouched_trans [OF u] by simp
qed (simp add: untouched_def)

lemma pollable_row:
  "sh \<in> set (FindPollableShipments now carrier limit db) \<Longrightarrow> sh \<in> set (sd_shipments db) \<and> active (sh_State sh)"
  by (auto simp: FindPollableShipments_def Let_def dest!: in_set_takeD)

lemma PollCarrier_untouched:
  assumes "distinct (map sh_ID (sd_shipments db))" "\<forall>r \<in> set (ships_of oid db). \<not> active (sh_State r)"
  shows "untouched oid db (snd (PollCarrier find_ok now envs polled_ok adapters carrier limit db))"
proof -
  have "untouched oid db (fold (poll_one envs polled_ok a) (FindPollableShipments now carrier limit db) db)" for a
  proof (rule polls_untouched)
    fix sh assume "sh \<in> set (FindPollableShipments now carrier limit db)"
    then have s: "sh \<in> set (sd_shipments db)" "active (sh_State sh)" using pollable_row by blast+
    then have "sh_OrderID sh \<noteq> oid" using assms(2) by (auto simp: ships_of_def)
    moreover have "o' = sh_OrderID sh" if "(sh_ID sh, o') \<in> set (ship_keys db)" for o'
      using that s(1) assms(1) by (auto simp: ship_keys_def distinct_map dest: inj_onD)
    ultimately show "sh_OrderID sh \<noteq> oid \<and> (\<forall>o'. (sh_ID sh, o') \<in> set (ship_keys db) \<longrightarrow> o' \<noteq> oid)" by blast
  qed
  then show ?thesis by (simp add: PollCarrier_def untouched_def split: sum.split)
qed

section \<open>Properties\<close>

text \<open>
  C38. No MNG webhook is ever accepted. The endpoint hands the adapter a map from the canonical header names, and no name has the
  canonical form \<^verbatim>\<open>X-MNG-Signature\<close> under which the adapter looks the signature up; it finds an empty one, and a hexadecimal MAC is not empty. Whatever
  the request carries, it is answered 400 and nothing changes. (The names Surat and HepsiJet use are canonical.)
\<close>

theorem mng_webhook_refused:
  assumes "\<And>k b. hmac k b \<noteq> []" "adapters ''mng'' = Some (mng_adapter hmac run webhookSecret)"
  shows "handleShippingWebhook env adapters ''mng'' hs (Some body) db = (400, db)"
  using assms(1) [of webhookSecret "rb_text body"]
  by (simp add: handleShippingWebhook_def ship_HandleWebhook_def ship_adapter_def assms(2) bind_sum_def mng_adapter_def mng_HandleWebhook_def
      validHMAC_def header_map_mng)

text \<open>
  A webhook that changes anything is authentic: if a request to the Surat or the HepsiJet endpoint changes the shipments, their events or the orders, then it carried the
  MAC of its body under the configured secret, or the configured token (up to the case of its letters).
\<close>

theorem webhook_authentic:
  assumes "adapters ''surat'' = Some (surat_adapter hmac run1 webhookSecret)" "adapters ''hepsijet'' = Some (hepsijet_adapter run2 webhookToken)"
    and "snd (handleShippingWebhook env adapters carrier hs rawBody db) \<noteq> db"
  shows "\<exists>body. rawBody = Some body \<and>
    (carrier = ''surat'' \<longrightarrow> header_map hs ''X-Surat-Sign'' = hmac webhookSecret (rb_text body)) \<and>
    (carrier = ''hepsijet'' \<longrightarrow> map lower (header_map hs ''Authorization'') = map lower (''Bearer '' @ webhookToken))"
proof (cases rawBody)
  case None
  then show ?thesis using assms(3) by (simp add: handleShippingWebhook_def)
next
  case (Some body)
  then obtain ev where ev: "ship_HandleWebhook adapters carrier body (header_map hs) = Inr ev"
    using assms(3) by (auto simp: handleShippingWebhook_def split: sum.splits)
  have "header_map hs ''X-Surat-Sign'' = hmac webhookSecret (rb_text body)" if "carrier = ''surat''"
    using ev that assms(1) by (simp add: ship_HandleWebhook_def ship_adapter_def bind_sum_def surat_adapter_def surat_HandleWebhook_def validHMAC_def split: if_splits)
  moreover have "map lower (header_map hs ''Authorization'') = map lower (''Bearer '' @ webhookToken)" if "carrier = ''hepsijet''"
    using ev that assms(2) by (simp add: ship_HandleWebhook_def ship_adapter_def bind_sum_def hepsijet_adapter_def hepsijet_HandleWebhook_def EqualFold_def split: if_splits)
  ultimately show ?thesis using Some by blast
qed

text \<open>
  A shipment is what the last event said, also after its delivery. Processing an event for a known shipment sets exactly that row to the event's
  state and appends one event row, whatever the row's state was. In particular an event other than a delivery that arrives after the delivery takes
  the delivery time away; if it reports a state on the way, the shipment is polled again.
\<close>

theorem shipment_follows_last_event:
  assumes "FindShipmentByTrackingNumber db carrier (we_TrackingNumber ev) = Inr sh" "hv_find_ok env" "hv_outs env = []"
    and "we_State ev \<noteq> ShipmentStateDelivered"
  shows "\<exists>db' e. ProcessWebhookEvent env carrier ev db = (None, db') \<and> sd_orders db' = sd_orders db \<and>
    sd_events db' = sd_events db @ [e] \<and> sev_ShipmentID e = sh_ID sh \<and> sev_State e = we_State ev \<and>
    sd_shipments db' = map (\<lambda>r. if sh_ID r = sh_ID sh then r\<lparr>sh_State := we_State ev, sh_DeliveredAt := None, sh_UpdatedAt := hv_now env\<rparr> else r) (sd_shipments db)"
proof -
  obtain db1 n where "ProcessWebhookEvent env carrier ev db = (None, mark_delivered env (sh_OrderID sh) (we_State ev) (we_EventAt ev) db1)"
    and s: "sd_shipments db1 = map (stored_state (hv_now env) (sh_ID sh) (we_State ev) (we_EventAt ev)) (sd_shipments db)" "sd_orders db1 = sd_orders db"
      "sd_events db1 = sd_events db @ [\<lparr>sev_ID = n, sev_ShipmentID = sh_ID sh, sev_State = we_State ev, sev_Source = ''webhook'',
         sev_CarrierRaw = we_CarrierRaw ev, sev_EventAt = we_EventAt ev\<rparr>]"
    using assms(1-3) by (rule ProcessWebhook_stored)
  then show ?thesis using assms(4)
    by (intro exI [of _ db1] exI [of _ "\<lparr>sev_ID = n, sev_ShipmentID = sh_ID sh, sev_State = we_State ev, sev_Source = ''webhook'',
         sev_CarrierRaw = we_CarrierRaw ev, sev_EventAt = we_EventAt ev\<rparr>"]) (auto simp: stored_state_def)
qed

text \<open>
  C14. A carrier's delivery reaches the money engines. A delivered event for a known shipment, with \<^verbatim>\<open>MarkDelivered\<close> succeeding on an order not yet delivered,
  is acknowledged, stores the delivery time, and leaves in the outbox one event which the cashback engine and the payout engine decode with
  the carrier's time as the time of delivery.
\<close>

theorem carrier_delivery_reaches_engines:
  assumes "FindShipmentByTrackingNumber db carrier (we_TrackingNumber ev) = Inr sh" "hv_find_ok env" "hv_outs env = []"
    and "we_State ev = ShipmentStateDelivered" "MarkDelivered (hv_order env) (hv_product env) (sh_OrderID sh) (we_EventAt ev) (sd_orders db) = (None, od)"
    and "repo_GetOrder (sd_orders db) (sh_OrderID sh) = Inr (ord, items)" "or_Status ord \<noteq> StatusDelivered"
  shows "\<exists>db' row ode pe. ProcessWebhookEvent env carrier ev db = (None, db') \<and>
    (\<forall>r \<in> set (sd_shipments db'). sh_ID r = sh_ID sh \<longrightarrow> sh_State r = ShipmentStateDelivered \<and> sh_DeliveredAt r = Some (we_EventAt ev)) \<and>
    ob_rows (dbo_outbox (sd_orders db')) = ob_rows (dbo_outbox (sd_orders db)) @ [row] \<and>
    decode_delivered (rowToEvent row) = Some ode \<and> od_OrderID ode = or_ID ord \<and> od_DeliveredAt ode = we_EventAt ev \<and>
    decode_payout_event (rowToEvent row) = Some pe \<and> pe_OrderID pe = or_ID ord \<and> pe_DeliveredAt pe = we_EventAt ev"
proof -
  obtain db1 where p: "ProcessWebhookEvent env carrier ev db = (None, mark_delivered env (sh_OrderID sh) (we_State ev) (we_EventAt ev) db1)"
    "sd_shipments db1 = map (stored_state (hv_now env) (sh_ID sh) (we_State ev) (we_EventAt ev)) (sd_shipments db)" "sd_orders db1 = sd_orders db"
    using assms(1-3) by (rule ProcessWebhook_stored)
  obtain row ode where r: "ob_rows (dbo_outbox od) = ob_rows (dbo_outbox (sd_orders db)) @ [row]" "decode_delivered (rowToEvent row) = Some ode"
    "od_OrderID ode = or_ID ord" "od_DeliveredAt ode = we_EventAt ev"
    "decode_payout_event (rowToEvent row) = Some \<lparr>pe_OrderID = or_ID ord, pe_DeliveredAt = we_EventAt ev, pe_Market = or_Market ord,
       pe_Currency = or_Currency ord, pe_Items = map delivered_of items\<rparr>"
    using MarkDelivered_event [OF assms(5-7)] by blast
  have "sd_orders (mark_delivered env (sh_OrderID sh) (we_State ev) (we_EventAt ev) db1) = od" using assms(4,5) p(3) by simp
  then show ?thesis using p(1,2) r assms(4)
    by (intro exI [of _ "mark_delivered env (sh_OrderID sh) (we_State ev) (we_EventAt ev) db1"] exI conjI) (auto simp: stored_state_def)
qed

lemma find_shipment_stored:
  assumes "FindShipmentByTrackingNumber db carrier tn = Inr sh" "sd_shipments db' = map (stored_state now i st at) (sd_shipments db)"
  obtains sh' where "FindShipmentByTrackingNumber db' carrier tn = Inr sh'" "sh_OrderID sh' = sh_OrderID sh"
proof -
  have f: "List.find (\<lambda>r. sh_Carrier r = carrier \<and> sh_TrackingNumber r \<noteq> [] \<and> sh_TrackingNumber r = tn) (map (stored_state now i st at) rows) =
      map_option (stored_state now i st at) (List.find (\<lambda>r. sh_Carrier r = carrier \<and> sh_TrackingNumber r \<noteq> [] \<and> sh_TrackingNumber r = tn) rows)" for rows
    by (induction rows) (auto simp: stored_state_def)
  have "FindShipmentByTrackingNumber db' carrier tn = Inr (stored_state now i st at sh)"
    using assms by (auto simp: FindShipmentByTrackingNumber_def f split: option.splits)
  then show thesis by (rule that) simp
qed

text \<open>
  C39. A delivery whose order update fails is not picked up by any poll. If \<^verbatim>\<open>MarkDelivered\<close> fails while a delivered event is processed, the event is
  acknowledged all the same and the order is as before; since the shipment now counts as delivered, no later poll of any carrier, however often and whatever the
  carriers answer, touches the order, so no poll starts its cashback or its payouts. What the comment of the service counts on is that the carrier
  sends the same event once more, although it was told that the first one was accepted: if the update works then, the order is delivered.
\<close>

theorem failed_delivery_not_polled_again:
  assumes "FindShipmentByTrackingNumber db carrier (we_TrackingNumber ev) = Inr sh" "hv_find_ok env" "hv_outs env = []"
    and "we_State ev = ShipmentStateDelivered" "MarkDelivered (hv_order env) (hv_product env) (sh_OrderID sh) (we_EventAt ev) (sd_orders db) = (Some e, od)"
    and "distinct (map sh_ID (sd_shipments db))" "\<forall>r \<in> set (sd_shipments db). sh_OrderID r = sh_OrderID sh \<longrightarrow> sh_ID r = sh_ID sh"
  shows "\<exists>db'. ProcessWebhookEvent env carrier ev db = (None, db') \<and> sd_orders db' = sd_orders db \<and>
    (\<forall>polls. orders_of (sh_OrderID sh) (sd_orders (fold (\<lambda>(find_ok, now, envs, polled_ok, adapters, c, limit) d.
        snd (PollCarrier find_ok now envs polled_ok adapters c limit d)) polls db')) = orders_of (sh_OrderID sh) (sd_orders db)) \<and>
    (\<forall>env2 od2. hv_find_ok env2 \<and> hv_outs env2 = [] \<and> MarkDelivered (hv_order env2) (hv_product env2) (sh_OrderID sh) (we_EventAt ev) (sd_orders db) = (None, od2) \<longrightarrow>
       (\<exists>db2. ProcessWebhookEvent env2 carrier ev db' = (None, db2) \<and> sd_orders db2 = od2))"
proof -
  let ?oid = "sh_OrderID sh"
  obtain db1 where p: "ProcessWebhookEvent env carrier ev db = (None, mark_delivered env ?oid (we_State ev) (we_EventAt ev) db1)"
    "sd_shipments db1 = map (stored_state (hv_now env) (sh_ID sh) (we_State ev) (we_EventAt ev)) (sd_shipments db)" "sd_orders db1 = sd_orders db"
    using assms(1-3) by (rule ProcessWebhook_stored)
  define db2 where "db2 = mark_delivered env ?oid (we_State ev) (we_EventAt ev) db1"
  have o: "sd_orders db2 = sd_orders db" using MarkDelivered_error [OF assms(5)] assms(4,5) p(3) by (simp add: db2_def)
  have d: "distinct (map sh_ID (sd_shipments db2))" using assms(6) p(2) by (simp add: db2_def comp_def)
  have a: "\<forall>r \<in> set (ships_of ?oid db2). \<not> active (sh_State r)"
    using assms(4,7) p(2) by (auto simp: db2_def ships_of_def stored_state_def active_def)
  have "untouched ?oid d' (fold (\<lambda>(find_ok, now, envs, polled_ok, adapters, c, limit) d. snd (PollCarrier find_ok now envs polled_ok adapters c limit d)) polls d')"
    if "distinct (map sh_ID (sd_shipments d'))" "\<forall>r \<in> set (ships_of ?oid d'). \<not> active (sh_State r)" for polls d'
    using that
  proof (induction polls arbitrary: d')
    case (Cons q polls)
    obtain f n es pk ad c l where q: "q = (f, n, es, pk, ad, c, l)" by (metis prod_cases7)
    have u: "untouched ?oid d' (snd (PollCarrier f n es pk ad c l d'))" using Cons.prems by (rule PollCarrier_untouched)
    then have "map fst (ship_keys (snd (PollCarrier f n es pk ad c l d'))) = map fst (ship_keys d')" by (simp add: untouched_def)
    then have "distinct (map sh_ID (sd_shipments (snd (PollCarrier f n es pk ad c l d'))))" using Cons.prems(1) by (simp add: ship_keys_def comp_def)
    then show ?case using Cons.IH Cons.prems(2) u untouched_trans [OF u] by (simp add: q untouched_def)
  qed (simp add: untouched_def)
  note polls = this [OF d a]
  have again: "\<exists>d3. ProcessWebhookEvent env2 carrier ev db2 = (None, d3) \<and> sd_orders d3 = od2"
    if e2: "hv_find_ok env2" "hv_outs env2 = []" "MarkDelivered (hv_order env2) (hv_product env2) ?oid (we_EventAt ev) (sd_orders db) = (None, od2)" for env2 od2
  proof -
    have "sd_shipments db2 = map (stored_state (hv_now env) (sh_ID sh) (we_State ev) (we_EventAt ev)) (sd_shipments db)" using p(2) by (simp add: db2_def)
    then obtain sh' where sh': "FindShipmentByTrackingNumber db2 carrier (we_TrackingNumber ev) = Inr sh'" "sh_OrderID sh' = ?oid"
      by (rule find_shipment_stored [OF assms(1)])
    from sh'(1) e2(1,2) obtain d3 where d3: "ProcessWebhookEvent env2 carrier ev db2 = (None, mark_delivered env2 (sh_OrderID sh') (we_State ev) (we_EventAt ev) d3)" "sd_orders d3 = sd_orders db2"
      by (rule ProcessWebhook_stored) blast
    have "sd_orders (mark_delivered env2 (sh_OrderID sh') (we_State ev) (we_EventAt ev) d3) = od2"
      using e2(3) assms(4) d3(2) o sh'(2) by (simp add: mark_delivered_def)
    then show ?thesis using d3(1) by blast
  qed
  show ?thesis using p(1) o polls again unfolding db2_def [symmetric] by (intro exI [of _ db2]) (simp add: untouched_def)
qed

section \<open>A concrete shipment\<close>

definition ship_row_ex :: shipment where
  "ship_row_ex = \<lparr>sh_ID = 1, sh_OrderID = 2, sh_Carrier = ''surat'', sh_TrackingNumber = ''T1'', sh_CarrierShipmentID = [], sh_State = ShipmentStateInTransit,
     sh_LabelPDFB2Key = [], sh_EstimatedDeliveryAt = None, sh_DeliveredAt = None, sh_LastPolledAt = None, sh_IdempotencyKey = ''k1'', sh_CostMinor = 0,
     sh_CostCurrency = [], sh_CreatedAt = 0, sh_UpdatedAt = 0\<rparr>"

definition ship_db_ex :: ship_db where
  "ship_db_ex = \<lparr>sd_shipments = [ship_row_ex], sd_next = 2, sd_events = [], sd_ev_next = 1, sd_orders = shop_db\<rparr>"

definition ship_env_ex :: "tx_outcome list \<Rightarrow> ship_env" where
  "ship_env_ex outs = \<lparr>hv_now = 300, hv_find_ok = True, hv_outs = [], hv_order = (order_env_ex False)\<lparr>oe_outs := outs\<rparr>, hv_product = \<lambda>_. (0, [], [])\<rparr>"

definition carrier_ev_ex :: webhook_event where
  "carrier_ev_ex = \<lparr>we_TrackingNumber = ''T1'', we_State = ShipmentStateDelivered, we_Description = [], we_EventAt = 200, we_CarrierRaw = []\<rparr>"

definition hmac_ex :: "string \<Rightarrow> string \<Rightarrow> string" where
  "hmac_ex k b = CHR ''h'' # k @ b"

definition adapters_ex :: "string \<Rightarrow> adapter option" where
  "adapters_ex c = map_of [(''surat'', surat_adapter hmac_ex (\<lambda>_ _ _ _. Inl CarrierCall) ''s''), (''mng'', mng_adapter hmac_ex (\<lambda>_ _ _ _. Inl CarrierCall) ''s''),
     (''hepsijet'', hepsijet_adapter (\<lambda>_ _ _ _. Inl CarrierCall) ''s'')] c"

definition surat_body_ex :: raw_body where
  "surat_body_ex = \<lparr>rb_text = ''b'', rb_json = Some (JObj [(''trackingNumber'', JStr ''T1''), (''status'', JStr ''IN_TRANSIT''), (''description'', JStr []), (''eventAt'', JTime 200)])\<rparr>"

lemma ship_ex_found: "FindShipmentByTrackingNumber ship_db_ex ''surat'' (we_TrackingNumber carrier_ev_ex) = Inr ship_row_ex"
  by (simp add: FindShipmentByTrackingNumber_def ship_db_ex_def ship_row_ex_def carrier_ev_ex_def)

lemma ship_ex_orders: "sd_orders ship_db_ex = shop_db" "sh_OrderID ship_row_ex = 2" "we_EventAt carrier_ev_ex = 200" "we_State carrier_ev_ex = ShipmentStateDelivered"
  "hv_find_ok (ship_env_ex outs)" "hv_outs (ship_env_ex outs) = []"
  by (simp_all add: ship_db_ex_def ship_row_ex_def carrier_ev_ex_def ship_env_ex_def)

theorem mng_webhook_refused_witness:
  "handleShippingWebhook (ship_env_ex []) adapters_ex ''mng'' [(''X-MNG-Signature'', ''hsb'')] (Some \<lparr>rb_text = ''b'', rb_json = None\<rparr>) ship_db_ex = (400, ship_db_ex)"
  by (rule mng_webhook_refused [of hmac_ex _ "\<lambda>_ _ _ _. Inl CarrierCall" "''s''"]) (simp_all add: hmac_ex_def adapters_ex_def)

lemma surat_ex_changes:
  "sd_events (snd (handleShippingWebhook (ship_env_ex []) adapters_ex ''surat'' [(''x-surat-sign'', ''hsb'')] (Some surat_body_ex) ship_db_ex)) \<noteq> []"
proof -
  have "header_map [(''x-surat-sign'', ''hsb'')] ''X-Surat-Sign'' = hmac_ex ''s'' (rb_text surat_body_ex)" by code_simp
  then have "ship_HandleWebhook adapters_ex ''surat'' surat_body_ex (header_map [(''x-surat-sign'', ''hsb'')]) =
      Inr \<lparr>we_TrackingNumber = ''T1'', we_State = ShipmentStateInTransit, we_Description = [], we_EventAt = 200, we_CarrierRaw = ''b''\<rparr>"
    by (simp add: ship_HandleWebhook_def ship_adapter_def adapters_ex_def bind_sum_def surat_adapter_def surat_HandleWebhook_def validHMAC_def
        decode_event_def surat_body_ex_def jstr_def jtime0_def surat_mapState_def)
  then show ?thesis
    by (simp add: handleShippingWebhook_def ProcessWebhookEvent_def FindShipmentByTrackingNumber_def ship_db_ex_def ship_row_ex_def ship_env_ex_def
        ship_WithTx_def one_tx_quiet ship_tx_def InsertShipmentEvent_def UpdateShipmentState_def)
qed

theorem webhook_authentic_witness:
  "header_map [(''x-surat-sign'', ''hsb'')] ''X-Surat-Sign'' = hmac_ex ''s'' (rb_text surat_body_ex)"
proof -
  have "snd (handleShippingWebhook (ship_env_ex []) adapters_ex ''surat'' [(''x-surat-sign'', ''hsb'')] (Some surat_body_ex) ship_db_ex) \<noteq> ship_db_ex"
    using surat_ex_changes by (auto simp: ship_db_ex_def)
  from webhook_authentic [OF _ _ this, of hmac_ex "\<lambda>_ _ _ _. Inl CarrierCall" "''s''" "\<lambda>_ _ _ _. Inl CarrierCall" "''s''"]
  show ?thesis by (simp add: adapters_ex_def)
qed

theorem shipment_follows_last_event_witness:
  "\<exists>db'. ProcessWebhookEvent (ship_env_ex []) ''surat'' (carrier_ev_ex\<lparr>we_State := ShipmentStateReturned\<rparr>) ship_db_ex = (None, db') \<and>
     map sh_State (sd_shipments db') = [ShipmentStateReturned]"
proof -
  have "FindShipmentByTrackingNumber ship_db_ex ''surat'' (we_TrackingNumber (carrier_ev_ex\<lparr>we_State := ShipmentStateReturned\<rparr>)) = Inr ship_row_ex"
    using ship_ex_found by simp
  from shipment_follows_last_event [OF this ship_ex_orders(5,6) [of "[]"]] show ?thesis
    by (auto simp: ship_db_ex_def)
qed

theorem carrier_delivery_reaches_engines_witness:
  "\<exists>db' row ode. ProcessWebhookEvent (ship_env_ex []) ''surat'' carrier_ev_ex ship_db_ex = (None, db') \<and>
     ob_rows (dbo_outbox (sd_orders db')) = [row] \<and> decode_delivered (rowToEvent row) = Some ode \<and> od_DeliveredAt ode = 200"
proof -
  obtain ord items where o: "repo_GetOrder shop_db 2 = Inr (ord, items)" "or_Status ord = StatusPendingPayment" by (rule shop_order)
  have e: "hv_order (ship_env_ex []) = order_env_ex False" "hv_product (ship_env_ex []) = (\<lambda>_. (0, [], []))"
    by (simp_all add: ship_env_ex_def order_env_ex_def)
  have "MarkDelivered (hv_order (ship_env_ex [])) (hv_product (ship_env_ex [])) (sh_OrderID ship_row_ex) (we_EventAt carrier_ev_ex) (sd_orders ship_db_ex) =
      (None, snd (MarkDelivered (order_env_ex False) (\<lambda>_. (0, [], [])) 2 200 shop_db))"
    using shop_delivered_eval unfolding e ship_ex_orders by (metis prod.collapse)
  from carrier_delivery_reaches_engines [OF ship_ex_found ship_ex_orders(5,6,4) this] o show ?thesis
    by (auto simp: ship_ex_orders shop_outbox_eval)
qed

lemma delivery_fails_eval: "fst (MarkDelivered ((order_env_ex False)\<lparr>oe_outs := [TxBeginFails]\<rparr>) (\<lambda>_. (0, [], [])) 2 200 shop_db) \<noteq> None"
proof -
  obtain ord items where "repo_GetOrder shop_db 2 = Inr (ord, items)" "or_Status ord = StatusPendingPayment" by (rule shop_order)
  then show ?thesis by (simp add: MarkDelivered_def order_WithTx_def one_tx_def err_of_def with_retry.simps(2) One_nat_def next_outcome_def)
qed

lemma shop_delivered_outbox: "length (ob_rows (dbo_outbox (snd (MarkDelivered (order_env_ex False) (\<lambda>_. (0, [], [])) 2 200 shop_db)))) = 1"
  by code_simp

theorem failed_delivery_not_polled_again_witness:
  "\<exists>db' db2. ProcessWebhookEvent (ship_env_ex [TxBeginFails]) ''surat'' carrier_ev_ex ship_db_ex = (None, db') \<and> sd_orders db' = shop_db \<and>
     ProcessWebhookEvent (ship_env_ex []) ''surat'' carrier_ev_ex db' = (None, db2) \<and> length (ob_rows (dbo_outbox (sd_orders db2))) = 1"
proof -
  let ?fail = "ship_env_ex [TxBeginFails]" and ?works = "ship_env_ex []"
  obtain e od where "MarkDelivered ((order_env_ex False)\<lparr>oe_outs := [TxBeginFails]\<rparr>) (\<lambda>_. (0, [], [])) 2 200 shop_db = (Some e, od)"
    using delivery_fails_eval by (metis option.exhaust prod.collapse)
  then have fails: "MarkDelivered (hv_order ?fail) (hv_product ?fail) (sh_OrderID ship_row_ex) (we_EventAt carrier_ev_ex) (sd_orders ship_db_ex) = (Some e, od)"
    by (simp add: ship_env_ex_def ship_ex_orders)
  have e: "hv_order ?works = order_env_ex False" "hv_product ?works = (\<lambda>_. (0, [], []))" by (simp_all add: ship_env_ex_def order_env_ex_def)
  have works: "MarkDelivered (hv_order ?works) (hv_product ?works) (sh_OrderID ship_row_ex) (we_EventAt carrier_ev_ex) (sd_orders ship_db_ex) =
      (None, snd (MarkDelivered (order_env_ex False) (\<lambda>_. (0, [], [])) 2 200 shop_db))"
    using shop_delivered_eval unfolding e ship_ex_orders by (metis prod.collapse)
  have "distinct (map sh_ID (sd_shipments ship_db_ex))"
      "\<forall>r \<in> set (sd_shipments ship_db_ex). sh_OrderID r = sh_OrderID ship_row_ex \<longrightarrow> sh_ID r = sh_ID ship_row_ex"
    by (simp_all add: ship_db_ex_def)
  from failed_delivery_not_polled_again [OF ship_ex_found ship_ex_orders(5,6,4) fails this] obtain db' where
    db': "ProcessWebhookEvent ?fail ''surat'' carrier_ev_ex ship_db_ex = (None, db')" "sd_orders db' = sd_orders ship_db_ex"
      "\<And>env2 od2. hv_find_ok env2 \<Longrightarrow> hv_outs env2 = [] \<Longrightarrow> MarkDelivered (hv_order env2) (hv_product env2) (sh_OrderID ship_row_ex) (we_EventAt carrier_ev_ex)
         (sd_orders ship_db_ex) = (None, od2) \<Longrightarrow> \<exists>db2. ProcessWebhookEvent env2 ''surat'' carrier_ev_ex db' = (None, db2) \<and> sd_orders db2 = od2"
    by blast
  from db'(3) [OF ship_ex_orders(5,6) works] db'(1,2) show ?thesis
    by (metis ship_ex_orders(1) shop_delivered_outbox)
qed

end
