(* ===== verification/Identity.thy ===== *)
theory Identity
  imports Calendar Ascii
begin

text \<open>
  Accounts and sessions: the types, validation, tables and rate limiter of \<^verbatim>\<open>internal/identity\<close> (\<^verbatim>\<open>domain.go\<close>, \<^verbatim>\<open>errors.go\<close>,
  \<^verbatim>\<open>repository.go\<close>, \<^verbatim>\<open>ratelimit/limiter.go\<close>, \<^verbatim>\<open>cleanup/cleanup.go\<close>). A hash (\<^verbatim>\<open>HMAC-SHA256\<close> of a phone or an address) is kept as its
  hexadecimal text. Each operation of the repository is one statement or one transaction, so it changes all it has to or nothing.
\<close>

section \<open>Types\<close>

datatype user_status = StatusActive | StatusSuspended | StatusDeleted

record user =
  us_ID :: int
  us_PhoneHash :: "string option"
  us_PhoneEnc :: string
  us_EmailHash :: "string option"
  us_EmailEnc :: string
  us_PasswordHash :: string
  us_EmailVerified :: bool
  us_MFAEnabled :: bool
  us_MFAPhoneHash :: "string option"
  us_MFAPhoneEnc :: string
  us_Name :: string
  us_Locale :: string
  us_Status :: user_status
  us_CreatedAt :: instant
  us_UpdatedAt :: instant
  us_DeletedAt :: "instant option"

record email_verification =
  emv_ID :: int
  emv_UserID :: int
  emv_CodeHash :: string
  emv_ExpiresAt :: instant
  emv_UsedAt :: "instant option"
  emv_CreatedAt :: instant

record password_reset =
  pwr_ID :: int
  pwr_UserID :: int
  pwr_TokenHash :: string
  pwr_ExpiresAt :: instant
  pwr_UsedAt :: "instant option"
  pwr_CreatedAt :: instant

record mfa_challenge =
  mfc_ID :: int
  mfc_UserID :: int
  mfc_ChallengeHash :: string
  mfc_CodeHash :: string
  mfc_ExpiresAt :: instant
  mfc_VerifiedAt :: "instant option"
  mfc_CreatedAt :: instant

record otp =
  otp_ID :: int
  otp_PhoneHash :: string
  otp_Purpose :: string
  otp_CodeHash :: string
  otp_CreatedAt :: instant
  otp_ExpiresAt :: instant
  otp_VerifiedAt :: "instant option"

record refresh_token =
  rt_ID :: int
  rt_UserID :: int
  rt_TokenHash :: string
  rt_FamilyRoot :: string
  rt_IssuedAt :: instant
  rt_ExpiresAt :: instant
  rt_RevokedAt :: "instant option"
  rt_RevokedReason :: string

record device =
  dev_ID :: int
  dev_UserID :: int
  dev_FCMToken :: string
  dev_DeviceModel :: string
  dev_OSVersion :: string
  dev_RegisteredAt :: instant
  dev_RevokedAt :: "instant option"

record device_info =
  di_FCMToken :: string
  di_DeviceModel :: string
  di_OSVersion :: string

record user_updates =
  uu_Name :: "string option"
  uu_Email :: "string option"
  uu_Locale :: "string option"

text \<open>An address as it is stored (its private fields encrypted) and as it is shown have the same type.\<close>

record address_input =
  ain_Label :: string
  ain_Name :: string
  ain_Phone :: string
  ain_FullAddress :: string
  ain_Neighborhood :: string
  ain_District :: string
  ain_City :: string
  ain_PostalCode :: string
  ain_IsDefault :: bool

record address_row =
  arw_Label :: string
  arw_NameEnc :: string
  arw_PhoneEnc :: string
  arw_FullAddressEnc :: string
  arw_NeighborhoodEnc :: string
  arw_District :: string
  arw_City :: string
  arw_PostalCode :: string
  arw_IsDefault :: bool

record address =
  adr_ID :: int
  adr_UserID :: int
  adr_Label :: string
  adr_Name :: string
  adr_Phone :: string
  adr_FullAddress :: string
  adr_Neighborhood :: string
  adr_District :: string
  adr_City :: string
  adr_PostalCode :: string
  adr_IsDefault :: bool
  adr_CreatedAt :: instant
  adr_UpdatedAt :: instant

datatype id_error =
    ErrOTPNotFound | ErrOTPExpired | ErrOTPAlreadyUsed | ErrOTPInvalid
  | ErrOTPRateLimitExceeded | ErrOTPVerifyLocked
  | ErrTokenNotFound | ErrTokenExpired | ErrTokenRevoked | ErrTokenFamilyRevoked | ErrStepUpTokenInvalid
  | ErrUserNotFound | ErrUserSuspended | ErrUserDeleted | ErrDeviceNotFound
  | ErrSMSSendFailed | ErrSMSInsufficientBalance
  | ErrInvalidPhone | ErrInvalidEmail | ErrInvalidLocale
  | ErrAddressNotFound | ErrAddressInvalidPhone
  | ErrEmailAlreadyExists | ErrInvalidCredentials | ErrEmailNotVerified
  | ErrEmailTokenExpired | ErrEmailTokenInvalid | ErrEmailTokenUsed
  | ErrPasswordResetExpired | ErrPasswordResetInvalid | ErrWeakPassword
  | ErrMFANotEnabled | ErrMFAChallengeExpired | ErrMFAChallengeInvalid | ErrMFACodeInvalid | ErrMFAAlreadyEnabled
  | IdCrypto | IdQuery | IdConstraint | IdRedis | IdSign

text \<open>Lifetimes in nanoseconds.\<close>

definition minutes :: "int \<Rightarrow> int" where
  "minutes n = n * 60 * ns_per_sec"

definition otpTTL :: int where "otpTTL = minutes 10"
definition refreshTokenTTL :: int where "refreshTokenTTL = minutes (30 * 24 * 60)"
definition emailVerifyTTL :: int where "emailVerifyTTL = minutes 15"
definition passwordResetTTL :: int where "passwordResetTTL = minutes 60"
definition mfaChallengeTTL :: int where "mfaChallengeTTL = minutes 5"

definition MaskPhone :: "string \<Rightarrow> string" where
  "MaskPhone e164 =
     (if take 1 e164 \<noteq> ''+'' then ''***''
      else if length e164 < 4 then ''***''
      else if length e164 = 13 \<and> take 3 e164 = ''+90'' then ''+90 '' @ [e164 ! 3] @ ''XX XXX XX '' @ take 2 (drop 11 e164)
      else take 3 e164 @ ''***'' @ drop (length e164 - 2) e164)"

section \<open>Validation\<close>

text \<open>The regular expressions on ASCII texts. An empty address passes \<^verbatim>\<open>validateEmail\<close>.\<close>

fun validatePhone :: "string \<Rightarrow> bool" where
  "validatePhone (p # d # ds) \<longleftrightarrow> p = CHR ''+'' \<and> in_range_of 49 57 d \<and> list_all is_digit_char ds \<and> 7 \<le> length ds \<and> length ds \<le> 14"
| "validatePhone _ \<longleftrightarrow> False"

fun e164Regexp :: "string \<Rightarrow> bool" where
  "e164Regexp (p # ds) \<longleftrightarrow> p = CHR ''+'' \<and> list_all is_digit_char ds \<and> 7 \<le> length ds \<and> length ds \<le> 15"
| "e164Regexp [] \<longleftrightarrow> False"

definition minPasswordLen :: nat where
  "minPasswordLen = 8"

definition is_special :: "char \<Rightarrow> bool" where
  "is_special c \<longleftrightarrow> in_range_of 33 47 c \<or> in_range_of 58 64 c \<or> in_range_of 91 96 c \<or> in_range_of 123 126 c"

definition validatePassword :: "string \<Rightarrow> bool" where
  "validatePassword p \<longleftrightarrow>
     minPasswordLen \<le> length p \<and> list_ex is_upper_char p \<and> list_ex is_lower_char p \<and> list_ex is_special p"

definition validateLocale :: "string \<Rightarrow> bool" where
  "validateLocale s =
     (let lang = takeWhile is_lower_char s; rest = dropWhile is_lower_char s in
      2 \<le> length lang \<and> length lang \<le> 3 \<and>
      (case rest of [] \<Rightarrow> True
       | c # region \<Rightarrow> c = CHR ''-'' \<and> list_all is_upper_char region \<and> 2 \<le> length region \<and> length region \<le> 4))"

text \<open>The class \<^verbatim>\<open>[^@\s]\<close>.\<close>

definition address_char :: "char \<Rightarrow> bool" where
  "address_char c \<longleftrightarrow> c \<noteq> CHR ''@'' \<and> (of_char c :: nat) \<notin> {9, 10, 12, 13, 32}"

definition emailRe :: "string \<Rightarrow> bool" where
  "emailRe s =
     (let local_part = takeWhile (\<lambda>c. c \<noteq> CHR ''@'') s in
      case dropWhile (\<lambda>c. c \<noteq> CHR ''@'') s of
        [] \<Rightarrow> False
      | _ # host \<Rightarrow> local_part \<noteq> [] \<and> list_all address_char local_part \<and> list_all address_char host \<and> CHR ''.'' \<in> set (butlast (tl host)))"

definition validateEmail :: "string \<Rightarrow> bool" where
  "validateEmail email \<longleftrightarrow> email = [] \<or> emailRe (trim_space email)"

section \<open>Tables\<close>

record id_db =
  idb_users :: "user list"
  idb_user_next :: int
  idb_otps :: "otp list"
  idb_otp_next :: int
  idb_tokens :: "refresh_token list"
  idb_token_next :: int
  idb_verifications :: "email_verification list"
  idb_verification_next :: int
  idb_resets :: "password_reset list"
  idb_reset_next :: int
  idb_challenges :: "mfa_challenge list"
  idb_challenge_next :: int
  idb_devices :: "device list"
  idb_device_next :: int
  idb_addresses :: "address list"
  idb_address_next :: int

type_synonym 'a id_write = "id_db \<Rightarrow> (id_error + 'a) \<times> id_db"

definition user_exists :: "int \<Rightarrow> id_db \<Rightarrow> bool" where
  "user_exists i db \<longleftrightarrow> List.find (\<lambda>u. us_ID u = i) (idb_users db) \<noteq> None"

subsection \<open>Users\<close>

definition GetUser :: "id_db \<Rightarrow> int \<Rightarrow> id_error + user" where
  "GetUser db i = (case List.find (\<lambda>u. us_ID u = i) (idb_users db) of None \<Rightarrow> Inl ErrUserNotFound | Some u \<Rightarrow> Inr u)"

definition FindUserByPhoneHash :: "id_db \<Rightarrow> string \<Rightarrow> id_error + user" where
  "FindUserByPhoneHash db h = (case List.find (\<lambda>u. us_PhoneHash u = Some h) (idb_users db) of None \<Rightarrow> Inl ErrUserNotFound | Some u \<Rightarrow> Inr u)"

definition FindUserByEmailHash :: "id_db \<Rightarrow> string \<Rightarrow> id_error + user" where
  "FindUserByEmailHash db h = (case List.find (\<lambda>u. us_EmailHash u = Some h) (idb_users db) of None \<Rightarrow> Inl ErrUserNotFound | Some u \<Rightarrow> Inr u)"

definition blank_user :: "instant \<Rightarrow> id_db \<Rightarrow> user" where
  "blank_user now db =
     \<lparr>us_ID = idb_user_next db, us_PhoneHash = None, us_PhoneEnc = [], us_EmailHash = None, us_EmailEnc = [], us_PasswordHash = [],
      us_EmailVerified = False, us_MFAEnabled = False, us_MFAPhoneHash = None, us_MFAPhoneEnc = [], us_Name = [], us_Locale = ''tr-TR'',
      us_Status = StatusActive, us_CreatedAt = now, us_UpdatedAt = now, us_DeletedAt = None\<rparr>"

text \<open>\<^verbatim>\<open>UNIQUE (email_hash)\<close>; a failed insert still consumes an id.\<close>

definition CreateEmailUser :: "instant \<Rightarrow> string \<Rightarrow> string \<Rightarrow> string \<Rightarrow> string \<Rightarrow> string \<Rightarrow> user id_write" where
  "CreateEmailUser now emailHash emailEnc passwordHash name locale db =
     (let u = (blank_user now db)\<lparr>us_EmailHash := Some emailHash, us_EmailEnc := emailEnc, us_PasswordHash := passwordHash,
                us_Name := name, us_Locale := locale\<rparr>;
          db' = db\<lparr>idb_user_next := idb_user_next db + 1\<rparr> in
      if \<exists>v \<in> set (idb_users db). us_EmailHash v = Some emailHash then (Inl IdConstraint, db')
      else (Inr u, db'\<lparr>idb_users := idb_users db @ [u]\<rparr>))"

definition update_user :: "instant \<Rightarrow> int \<Rightarrow> (user \<Rightarrow> user) \<Rightarrow> id_db \<Rightarrow> id_db" where
  "update_user now i f db = db\<lparr>idb_users := update_where (\<lambda>u. us_ID u = i) (\<lambda>u. (f u)\<lparr>us_UpdatedAt := now\<rparr>) (idb_users db)\<rparr>"

definition SetPasswordHash :: "instant \<Rightarrow> int \<Rightarrow> string \<Rightarrow> unit id_write" where
  "SetPasswordHash now i h db = (Inr (), update_user now i (\<lambda>u. u\<lparr>us_PasswordHash := h\<rparr>) db)"

definition MarkEmailVerified :: "instant \<Rightarrow> int \<Rightarrow> unit id_write" where
  "MarkEmailVerified now i db = (Inr (), update_user now i (\<lambda>u. u\<lparr>us_EmailVerified := True\<rparr>) db)"

definition UpdateMFAConfig :: "instant \<Rightarrow> int \<Rightarrow> bool \<Rightarrow> string option \<Rightarrow> string \<Rightarrow> unit id_write" where
  "UpdateMFAConfig now i enabled phoneHash phoneEnc db =
     (Inr (), update_user now i (\<lambda>u. u\<lparr>us_MFAEnabled := enabled, us_MFAPhoneHash := phoneHash, us_MFAPhoneEnc := phoneEnc\<rparr>) db)"

definition apply_updates :: "user_updates \<Rightarrow> user \<Rightarrow> user" where
  "apply_updates up u =
     u\<lparr>us_Name := (case uu_Name up of None \<Rightarrow> us_Name u | Some n \<Rightarrow> n),
       us_EmailEnc := (case uu_Email up of None \<Rightarrow> us_EmailEnc u | Some e \<Rightarrow> e),
       us_Locale := (case uu_Locale up of None \<Rightarrow> us_Locale u | Some l \<Rightarrow> l)\<rparr>"

definition UpdateUser :: "instant \<Rightarrow> int \<Rightarrow> user_updates \<Rightarrow> user id_write" where
  "UpdateUser now i up db = (let db' = update_user now i (apply_updates up) db in (GetUser db' i, db'))"

subsection \<open>Refresh tokens\<close>

definition revoke :: "instant \<Rightarrow> string \<Rightarrow> refresh_token \<Rightarrow> refresh_token" where
  "revoke now reason t = t\<lparr>rt_RevokedAt := Some now, rt_RevokedReason := reason\<rparr>"

text \<open>\<^verbatim>\<open>WHERE ... AND revoked_at IS NULL\<close>\<close>

definition revoke_where :: "instant \<Rightarrow> string \<Rightarrow> (refresh_token \<Rightarrow> bool) \<Rightarrow> id_db \<Rightarrow> id_db" where
  "revoke_where now reason p db =
     db\<lparr>idb_tokens := update_where (\<lambda>t. p t \<and> rt_RevokedAt t = None) (revoke now reason) (idb_tokens db)\<rparr>"

text \<open>\<^verbatim>\<open>UNIQUE (token_hash)\<close> and the reference to the user.\<close>

definition insert_token :: "instant \<Rightarrow> int \<Rightarrow> string \<Rightarrow> string \<Rightarrow> instant \<Rightarrow> refresh_token id_write" where
  "insert_token now userID tokenHash familyRoot expiresAt db =
     (let t = \<lparr>rt_ID = idb_token_next db, rt_UserID = userID, rt_TokenHash = tokenHash, rt_FamilyRoot = familyRoot, rt_IssuedAt = now,
               rt_ExpiresAt = expiresAt, rt_RevokedAt = None, rt_RevokedReason = []\<rparr> in
      if tokenHash \<in> rt_TokenHash ` set (idb_tokens db) \<or> \<not> user_exists userID db then (Inl IdConstraint, db)
      else (Inr t, db\<lparr>idb_tokens := idb_tokens db @ [t], idb_token_next := idb_token_next db + 1\<rparr>))"

definition CreateSession :: "instant \<Rightarrow> int \<Rightarrow> refresh_token \<Rightarrow> unit id_write" where
  "CreateSession now userID t db =
     (case insert_token now userID (rt_TokenHash t) (rt_FamilyRoot t) (rt_ExpiresAt t) db of
        (Inl e, db') \<Rightarrow> (Inl e, db') | (Inr _, db') \<Rightarrow> (Inr (), db'))"

text \<open>
  \<open>check\<close>: the table as deployed (\<^verbatim>\<open>migrations/ecom/0055\<close>) has a CHECK on the reasons. An UPDATE that would store another
  reason in some row fails as a whole.
\<close>

definition revoked_reasons :: "string list" where
  "revoked_reasons = [''rotation'', ''logout'', ''theft'', ''admin'', ''expired'']"

definition RevokeAllUserTokens :: "bool \<Rightarrow> instant \<Rightarrow> int \<Rightarrow> unit id_write" where
  "RevokeAllUserTokens check now userID db =
     (if check \<and> ''password_reset'' \<notin> set revoked_reasons \<and> (\<exists>t \<in> set (idb_tokens db). rt_UserID t = userID \<and> rt_RevokedAt t = None)
      then (Inl IdConstraint, db)
      else (Inr (), revoke_where now ''password_reset'' (\<lambda>t. rt_UserID t = userID) db))"

definition FindTokenByHash :: "id_db \<Rightarrow> string \<Rightarrow> id_error + refresh_token" where
  "FindTokenByHash db h = (case List.find (\<lambda>t. rt_TokenHash t = h) (idb_tokens db) of None \<Rightarrow> Inl ErrTokenNotFound | Some t \<Rightarrow> Inr t)"

text \<open>
  One transaction. A token that is revoked already ends its whole family (errors of that UPDATE and its COMMIT are ignored:
  \<open>theft_ok\<close>); otherwise it is revoked and a successor of the same family takes its place.
\<close>

definition RotateRefreshToken :: "bool \<Rightarrow> instant \<Rightarrow> string \<Rightarrow> refresh_token \<Rightarrow> (user \<times> refresh_token) id_write" where
  "RotateRefreshToken theft_ok now h new db =
     (case FindTokenByHash db h of
        Inl e \<Rightarrow> (Inl e, db)
      | Inr cur \<Rightarrow>
          if rt_RevokedAt cur \<noteq> None
          then (Inl ErrTokenFamilyRevoked,
                if theft_ok then revoke_where now ''theft'' (\<lambda>t. rt_FamilyRoot t = rt_FamilyRoot cur) db else db)
          else if rt_ExpiresAt cur < now then (Inl ErrTokenExpired, db)
          else (let db1 = db\<lparr>idb_tokens := update_where (\<lambda>t. rt_ID t = rt_ID cur) (revoke now ''rotation'') (idb_tokens db)\<rparr> in
                case insert_token now (rt_UserID cur) (rt_TokenHash new) (rt_FamilyRoot cur) (rt_ExpiresAt new) db1 of
                  (Inl e, _) \<Rightarrow> (Inl e, db)
                | (Inr created, db2) \<Rightarrow>
                    (case GetUser db2 (rt_UserID cur) of Inl e \<Rightarrow> (Inl e, db) | Inr u \<Rightarrow> (Inr (u, created), db2))))"

definition RevokeToken :: "instant \<Rightarrow> string \<Rightarrow> unit id_write" where
  "RevokeToken now h db =
     (if \<exists>t \<in> set (idb_tokens db). rt_TokenHash t = h \<and> rt_RevokedAt t = None
      then (Inr (), revoke_where now ''logout'' (\<lambda>t. rt_TokenHash t = h) db) else (Inl ErrTokenNotFound, db))"

definition RevokeTokenFamily :: "instant \<Rightarrow> string \<Rightarrow> unit id_write" where
  "RevokeTokenFamily now family db = (Inr (), revoke_where now ''theft'' (\<lambda>t. rt_FamilyRoot t = family) db)"

definition SoftDeleteWithRevoke :: "instant \<Rightarrow> int \<Rightarrow> unit id_write" where
  "SoftDeleteWithRevoke now userID db =
     (Inr (), revoke_where now ''admin'' (\<lambda>t. rt_UserID t = userID)
        (update_user now userID (\<lambda>u. u\<lparr>us_Status := StatusDeleted, us_DeletedAt := Some now\<rparr>) db))"

subsection \<open>Codes\<close>

definition otp_purposes :: "string list" where
  "otp_purposes = [''login'', ''step_up'', ''mfa_enroll'']"

definition CreateOTP :: "instant \<Rightarrow> otp \<Rightarrow> unit id_write" where
  "CreateOTP now o' db =
     (if otp_Purpose o' \<notin> set otp_purposes then (Inl IdConstraint, db)
      else (Inr (), db\<lparr>idb_otps := idb_otps db @ [o'\<lparr>otp_ID := idb_otp_next db, otp_CreatedAt := now, otp_VerifiedAt := None\<rparr>],
                       idb_otp_next := idb_otp_next db + 1\<rparr>))"

text \<open>\<^verbatim>\<open>ORDER BY expires_at DESC LIMIT 1\<close>\<close>

definition FindLatestOTP :: "id_db \<Rightarrow> string \<Rightarrow> string \<Rightarrow> id_error + otp" where
  "FindLatestOTP db h purpose =
     (case rev (sort_key otp_ExpiresAt (filter (\<lambda>x. otp_PhoneHash x = h \<and> otp_Purpose x = purpose \<and> otp_VerifiedAt x = None) (idb_otps db))) of
        [] \<Rightarrow> Inl ErrOTPNotFound | x # _ \<Rightarrow> Inr x)"

definition MarkOTPVerified :: "instant \<Rightarrow> int \<Rightarrow> unit id_write" where
  "MarkOTPVerified now i db =
     (if \<exists>x \<in> set (idb_otps db). otp_ID x = i \<and> otp_VerifiedAt x = None
      then (Inr (), db\<lparr>idb_otps := update_where (\<lambda>x. otp_ID x = i \<and> otp_VerifiedAt x = None) (\<lambda>x. x\<lparr>otp_VerifiedAt := Some now\<rparr>) (idb_otps db)\<rparr>)
      else (Inl ErrOTPAlreadyUsed, db))"

text \<open>\<^verbatim>\<open>ON CONFLICT (phone_hash) DO UPDATE SET updated_at = now()\<close>\<close>

definition upsert_phone_user :: "instant \<Rightarrow> string \<Rightarrow> string \<Rightarrow> string \<Rightarrow> id_db \<Rightarrow> user \<times> id_db" where
  "upsert_phone_user now phoneHash phoneEnc locale db =
     (let db1 = db\<lparr>idb_user_next := idb_user_next db + 1\<rparr> in
      case FindUserByPhoneHash db phoneHash of
        Inl _ \<Rightarrow> (let u = (blank_user now db)\<lparr>us_PhoneHash := Some phoneHash, us_PhoneEnc := phoneEnc, us_Locale := locale\<rparr> in
                  (u, db1\<lparr>idb_users := idb_users db @ [u]\<rparr>))
      | Inr u \<Rightarrow> (u\<lparr>us_UpdatedAt := now\<rparr>, update_user now (us_ID u) (\<lambda>v. v) db1))"

text \<open>\<open>otpID = 0\<close> is the development mode that accepts any code.\<close>

definition MarkOTPVerifiedAndCreateSession :: "instant \<Rightarrow> int \<Rightarrow> string \<Rightarrow> string \<Rightarrow> string \<Rightarrow> refresh_token \<Rightarrow> user id_write" where
  "MarkOTPVerifiedAndCreateSession now otpID phoneHash phoneEnc defaultLocale new db =
     (case (if otpID \<noteq> 0 then MarkOTPVerified now otpID db else (Inr (), db)) of
        (Inl e, _) \<Rightarrow> (Inl e, db)
      | (Inr _, db1) \<Rightarrow>
          (let (u, db2) = upsert_phone_user now phoneHash phoneEnc defaultLocale db1 in
           case CreateSession now (us_ID u) new db2 of (Inl e, _) \<Rightarrow> (Inl e, db) | (Inr _, db3) \<Rightarrow> (Inr u, db3)))"

definition CreateEmailVerification :: "instant \<Rightarrow> int \<Rightarrow> string \<Rightarrow> instant \<Rightarrow> unit id_write" where
  "CreateEmailVerification now userID codeHash expiresAt db =
     (if \<not> user_exists userID db then (Inl IdConstraint, db)
      else (Inr (), db\<lparr>idb_verifications := idb_verifications db @
                         [\<lparr>emv_ID = idb_verification_next db, emv_UserID = userID, emv_CodeHash = codeHash, emv_ExpiresAt = expiresAt, emv_UsedAt = None, emv_CreatedAt = now\<rparr>],
                       idb_verification_next := idb_verification_next db + 1\<rparr>))"

definition FindLatestEmailVerification :: "id_db \<Rightarrow> int \<Rightarrow> id_error + email_verification" where
  "FindLatestEmailVerification db userID =
     (case rev (sort_key emv_ExpiresAt (filter (\<lambda>v. emv_UserID v = userID \<and> emv_UsedAt v = None) (idb_verifications db))) of
        [] \<Rightarrow> Inl ErrEmailTokenInvalid | v # _ \<Rightarrow> Inr v)"

definition MarkEmailVerificationUsed :: "instant \<Rightarrow> int \<Rightarrow> unit id_write" where
  "MarkEmailVerificationUsed now i db =
     (if \<exists>v \<in> set (idb_verifications db). emv_ID v = i \<and> emv_UsedAt v = None
      then (Inr (), db\<lparr>idb_verifications := update_where (\<lambda>v. emv_ID v = i \<and> emv_UsedAt v = None) (\<lambda>v. v\<lparr>emv_UsedAt := Some now\<rparr>) (idb_verifications db)\<rparr>)
      else (Inl ErrEmailTokenUsed, db))"

definition CreatePasswordReset :: "instant \<Rightarrow> int \<Rightarrow> string \<Rightarrow> instant \<Rightarrow> unit id_write" where
  "CreatePasswordReset now userID tokenHash expiresAt db =
     (if \<not> user_exists userID db \<or> tokenHash \<in> pwr_TokenHash ` set (idb_resets db) then (Inl IdConstraint, db)
      else (Inr (), db\<lparr>idb_resets := idb_resets db @
                         [\<lparr>pwr_ID = idb_reset_next db, pwr_UserID = userID, pwr_TokenHash = tokenHash, pwr_ExpiresAt = expiresAt, pwr_UsedAt = None, pwr_CreatedAt = now\<rparr>],
                       idb_reset_next := idb_reset_next db + 1\<rparr>))"

definition FindPasswordReset :: "id_db \<Rightarrow> string \<Rightarrow> id_error + password_reset" where
  "FindPasswordReset db h =
     (case List.find (\<lambda>p. pwr_TokenHash p = h \<and> pwr_UsedAt p = None) (idb_resets db) of None \<Rightarrow> Inl ErrPasswordResetInvalid | Some p \<Rightarrow> Inr p)"

definition MarkPasswordResetUsed :: "instant \<Rightarrow> int \<Rightarrow> unit id_write" where
  "MarkPasswordResetUsed now i db = (Inr (), db\<lparr>idb_resets := update_where (\<lambda>p. pwr_ID p = i) (\<lambda>p. p\<lparr>pwr_UsedAt := Some now\<rparr>) (idb_resets db)\<rparr>)"

definition CreateMFAChallenge :: "instant \<Rightarrow> int \<Rightarrow> string \<Rightarrow> string \<Rightarrow> instant \<Rightarrow> unit id_write" where
  "CreateMFAChallenge now userID challengeHash codeHash expiresAt db =
     (if \<not> user_exists userID db \<or> challengeHash \<in> mfc_ChallengeHash ` set (idb_challenges db) then (Inl IdConstraint, db)
      else (Inr (), db\<lparr>idb_challenges := idb_challenges db @
                         [\<lparr>mfc_ID = idb_challenge_next db, mfc_UserID = userID, mfc_ChallengeHash = challengeHash, mfc_CodeHash = codeHash,
                           mfc_ExpiresAt = expiresAt, mfc_VerifiedAt = None, mfc_CreatedAt = now\<rparr>],
                       idb_challenge_next := idb_challenge_next db + 1\<rparr>))"

definition FindMFAChallenge :: "id_db \<Rightarrow> string \<Rightarrow> id_error + mfa_challenge" where
  "FindMFAChallenge db h =
     (case List.find (\<lambda>c. mfc_ChallengeHash c = h \<and> mfc_VerifiedAt c = None) (idb_challenges db) of None \<Rightarrow> Inl ErrMFAChallengeInvalid | Some c \<Rightarrow> Inr c)"

definition MarkMFAChallengeVerified :: "instant \<Rightarrow> int \<Rightarrow> unit id_write" where
  "MarkMFAChallengeVerified now i db =
     (Inr (), db\<lparr>idb_challenges := update_where (\<lambda>c. mfc_ID c = i) (\<lambda>c. c\<lparr>mfc_VerifiedAt := Some now\<rparr>) (idb_challenges db)\<rparr>)"

subsection \<open>Devices and addresses\<close>

definition CreateDevice :: "instant \<Rightarrow> int \<Rightarrow> device_info \<Rightarrow> device id_write" where
  "CreateDevice now userID info db =
     (let d = \<lparr>dev_ID = idb_device_next db, dev_UserID = userID, dev_FCMToken = di_FCMToken info, dev_DeviceModel = di_DeviceModel info,
               dev_OSVersion = di_OSVersion info, dev_RegisteredAt = now, dev_RevokedAt = None\<rparr> in
      if \<not> user_exists userID db then (Inl IdConstraint, db)
      else (Inr d, db\<lparr>idb_devices := update_where (\<lambda>x. dev_FCMToken x = di_FCMToken info \<and> dev_RevokedAt x = None)
                                       (\<lambda>x. x\<lparr>dev_RevokedAt := Some now\<rparr>) (idb_devices db) @ [d],
                      idb_device_next := idb_device_next db + 1\<rparr>))"

text \<open>\<^verbatim>\<open>ORDER BY is_default DESC, id ASC\<close>\<close>

definition repo_ListAddresses :: "id_db \<Rightarrow> int \<Rightarrow> address list" where
  "repo_ListAddresses db userID =
     (let rows = sort_key adr_ID (filter (\<lambda>a. adr_UserID a = userID) (idb_addresses db)) in
      filter adr_IsDefault rows @ filter (\<lambda>a. \<not> adr_IsDefault a) rows)"

definition ClearDefaultAddresses :: "int \<Rightarrow> unit id_write" where
  "ClearDefaultAddresses userID db =
     (Inr (), db\<lparr>idb_addresses := update_where (\<lambda>a. adr_UserID a = userID) (\<lambda>a. a\<lparr>adr_IsDefault := False\<rparr>) (idb_addresses db)\<rparr>)"

definition set_address :: "instant \<Rightarrow> address_row \<Rightarrow> address \<Rightarrow> address" where
  "set_address now row a =
     a\<lparr>adr_Label := arw_Label row, adr_Name := arw_NameEnc row, adr_Phone := arw_PhoneEnc row, adr_FullAddress := arw_FullAddressEnc row,
       adr_Neighborhood := arw_NeighborhoodEnc row, adr_District := arw_District row, adr_City := arw_City row,
       adr_PostalCode := arw_PostalCode row, adr_IsDefault := arw_IsDefault row, adr_UpdatedAt := now\<rparr>"

definition InsertAddress :: "instant \<Rightarrow> int \<Rightarrow> address_row \<Rightarrow> address id_write" where
  "InsertAddress now userID row db =
     (let a = set_address now row \<lparr>adr_ID = idb_address_next db, adr_UserID = userID, adr_Label = [], adr_Name = [], adr_Phone = [],
                adr_FullAddress = [], adr_Neighborhood = [], adr_District = [], adr_City = [], adr_PostalCode = [], adr_IsDefault = False,
                adr_CreatedAt = now, adr_UpdatedAt = now\<rparr> in
      if \<not> user_exists userID db then (Inl IdConstraint, db)
      else (Inr a, db\<lparr>idb_addresses := idb_addresses db @ [a], idb_address_next := idb_address_next db + 1\<rparr>))"

definition own_address :: "int \<Rightarrow> int \<Rightarrow> address \<Rightarrow> bool" where
  "own_address userID i a \<longleftrightarrow> adr_ID a = i \<and> adr_UserID a = userID"

definition repo_GetAddress :: "id_db \<Rightarrow> int \<Rightarrow> int \<Rightarrow> id_error + address" where
  "repo_GetAddress db userID i = (case List.find (own_address userID i) (idb_addresses db) of None \<Rightarrow> Inl ErrAddressNotFound | Some a \<Rightarrow> Inr a)"

definition repo_UpdateAddress :: "instant \<Rightarrow> int \<Rightarrow> int \<Rightarrow> address_row \<Rightarrow> address id_write" where
  "repo_UpdateAddress now userID i row db =
     (let db' = db\<lparr>idb_addresses := update_where (own_address userID i) (set_address now row) (idb_addresses db)\<rparr> in
      (repo_GetAddress db' userID i, db'))"

definition repo_DeleteAddress :: "int \<Rightarrow> int \<Rightarrow> unit id_write" where
  "repo_DeleteAddress userID i db =
     (if \<exists>a \<in> set (idb_addresses db). own_address userID i a
      then (Inr (), db\<lparr>idb_addresses := filter (\<lambda>a. \<not> own_address userID i a) (idb_addresses db)\<rparr>) else (Inl ErrAddressNotFound, db))"

subsection \<open>Cleanup\<close>

text \<open>One tick of the worker; each of its statements may fail.\<close>

definition cleanup :: "bool \<Rightarrow> bool \<Rightarrow> instant \<Rightarrow> id_db \<Rightarrow> id_db" where
  "cleanup otp_ok token_ok now db =
     (let db1 = (if otp_ok then db\<lparr>idb_otps := filter (\<lambda>x. \<not> otp_CreatedAt x < now - minutes (7 * 24 * 60)) (idb_otps db)\<rparr> else db) in
      if token_ok then db1\<lparr>idb_tokens := filter (\<lambda>t. \<not> rt_ExpiresAt t < now - minutes (30 * 24 * 60)) (idb_tokens db1)\<rparr> else db1)"

section \<open>Rate limits\<close>

text \<open>
  The Redis keys of \<^verbatim>\<open>ratelimit/limiter.go\<close>: a sorted set of times per key of a sliding window (its members are unique, so the set is
  the list of its scores) and a counter of failures per phone with the time it expires. The window's own expiry removes what the
  next call would trim.
\<close>

record limiter =
  lm_windows :: "string \<Rightarrow> int list"
  lm_fails :: "string \<Rightarrow> (nat \<times> instant) option"

definition slidingWindow :: "int \<Rightarrow> nat \<Rightarrow> int \<Rightarrow> int list \<Rightarrow> bool \<times> int list" where
  "slidingWindow windowSec mx now_ms w =
     (let kept = filter (\<lambda>s. now_ms - windowSec * 1000 < s) w in
      if length kept \<ge> mx then (False, kept) else (True, kept @ [now_ms]))"

definition slidingCheck :: "(string \<Rightarrow> bool) \<Rightarrow> string \<Rightarrow> int \<Rightarrow> nat \<Rightarrow> int \<Rightarrow> limiter \<Rightarrow> (id_error + unit) \<times> limiter" where
  "slidingCheck redis key windowSec mx now_ms lm =
     (if \<not> redis key then (Inl IdRedis, lm)
      else (let (allowed, w) = slidingWindow windowSec mx now_ms (lm_windows lm key) in
            (if allowed then Inr () else Inl ErrOTPRateLimitExceeded, lm\<lparr>lm_windows := (lm_windows lm)(key := w)\<rparr>)))"

definition phone_key :: "string \<Rightarrow> string" where
  "phone_key h = ''rl:otp_req:phone:'' @ h"

definition phone_hour_key :: "string \<Rightarrow> string" where
  "phone_hour_key h = ''rl:otp_req:phone:'' @ h @ '':hr''"

definition ip_key :: "string \<Rightarrow> string" where
  "ip_key ip = ''rl:otp_req:ip:'' @ ip"

definition CheckOTPRequest :: "(string \<Rightarrow> bool) \<Rightarrow> instant \<Rightarrow> string \<Rightarrow> string \<Rightarrow> limiter \<Rightarrow> (id_error + unit) \<times> limiter" where
  "CheckOTPRequest redis now h clientIP lm =
     (let now_ms = now div 10 ^ 6 in
      case slidingCheck redis (phone_key h) (10 * 60) 3 now_ms lm of
        (Inl e, lm1) \<Rightarrow> (Inl e, lm1)
      | (Inr _, lm1) \<Rightarrow>
          (case slidingCheck redis (phone_hour_key h) 3600 5 now_ms lm1 of
             (Inl e, lm2) \<Rightarrow> (Inl e, lm2)
           | (Inr _, lm2) \<Rightarrow> if clientIP \<noteq> [] then slidingCheck redis (ip_key clientIP) 3600 10 now_ms lm2 else (Inr (), lm2)))"

definition lockThreshold :: nat where
  "lockThreshold = 10"

definition RecordVerifyFailure :: "bool \<Rightarrow> instant \<Rightarrow> string \<Rightarrow> limiter \<Rightarrow> (id_error + unit) \<times> limiter" where
  "RecordVerifyFailure redis now h lm =
     (if \<not> redis then (Inl IdRedis, lm)
      else (let (n, deadline) = (case lm_fails lm h of Some (k, d) \<Rightarrow> if now < d then (k + 1, d) else (1, now + minutes 60) | None \<Rightarrow> (1, now + minutes 60)) in
            (if n \<ge> lockThreshold then Inl ErrOTPVerifyLocked else Inr (), lm\<lparr>lm_fails := (lm_fails lm)(h := Some (n, deadline))\<rparr>)))"

definition ResetVerifyFailures :: "bool \<Rightarrow> string \<Rightarrow> limiter \<Rightarrow> (id_error + unit) \<times> limiter" where
  "ResetVerifyFailures redis h lm = (if \<not> redis then (Inl IdRedis, lm) else (Inr (), lm\<lparr>lm_fails := (lm_fails lm)(h := None)\<rparr>))"

end
