(* ===== verification/Sessions.thy ===== *)
theory Sessions
  imports Identity
begin

text \<open>
  The identity service: \<^verbatim>\<open>internal/identity/service.go\<close>. An operation threads the state (tables, rate limiter, sent messages)
  and stops at the first error. What the environment decides is an argument: the clock, which statements and Redis commands fail, the random
  draws, the digests (\<^verbatim>\<open>PhoneHash\<close>, \<^verbatim>\<open>bcrypt\<close>, \<^verbatim>\<open>SHA-256\<close>), the encryption and the signer of access tokens. The rate limiter's errors are the
  ones \<^verbatim>\<open>mapRatelimitErr\<close> makes of them. Business counters are left out.
\<close>

section \<open>State and environment\<close>

datatype mail = MailVerification string string | MailReset string string

record id_state =
  ist_db :: id_db
  ist_limiter :: limiter
  ist_sms :: "(string \<times> string) list"
  ist_mail :: "mail list"

text \<open>
  \<open>ie_ok\<close> says whether the statement of a repository method succeeds, \<open>ie_redis\<close> whether the command on a key does; \<open>ie_check\<close> is
  the CHECK on the reasons of revocation.
\<close>

record id_env =
  ie_now :: instant
  ie_ok :: "string \<Rightarrow> bool"
  ie_redis :: "string \<Rightarrow> bool"
  ie_check :: bool
  ie_hash :: "string \<Rightarrow> string option"
  ie_encrypt :: "string \<Rightarrow> string option"
  ie_decrypt :: "string \<Rightarrow> string option"
  ie_bcrypt :: "string \<Rightarrow> string option"
  ie_compare :: "string \<Rightarrow> string \<Rightarrow> bool"
  ie_sha :: "string \<Rightarrow> string"
  ie_draw :: "nat option"
  ie_letters :: "(nat \<Rightarrow> nat) option"
  ie_raw :: string
  ie_family :: string
  ie_opaque :: string
  ie_sms_error :: "id_error option"
  ie_mail_ok :: bool
  ie_access :: "int \<Rightarrow> string option"
  ie_step_up :: "int \<Rightarrow> (string \<times> instant) option"
  ie_defaultLocale :: string
  ie_devOTPAcceptAny :: bool

type_synonym 'a act = "id_state \<Rightarrow> (id_error + 'a) \<times> id_state"

section \<open>Sequencing\<close>

definition give :: "'a \<Rightarrow> 'a act" where
  "give a st = (Inr a, st)"

definition fail :: "id_error \<Rightarrow> 'a act" where
  "fail e st = (Inl e, st)"

definition andThen :: "'a act \<Rightarrow> ('a \<Rightarrow> 'b act) \<Rightarrow> 'b act" where
  "andThen m f st = (case m st of (Inl e, st') \<Rightarrow> (Inl e, st') | (Inr a, st') \<Rightarrow> f a st')"

definition require :: "bool \<Rightarrow> id_error \<Rightarrow> unit act" where
  "require b e = (if b then give () else fail e)"

definition of_option :: "id_error \<Rightarrow> 'a option \<Rightarrow> 'a act" where
  "of_option e r = (case r of None \<Rightarrow> fail e | Some a \<Rightarrow> give a)"

text \<open>An error that is only logged, or not looked at.\<close>

definition ignore :: "'a act \<Rightarrow> unit act" where
  "ignore m st = (Inr (), snd (m st))"

text \<open>One error reported as another.\<close>

definition as_error :: "id_error \<Rightarrow> id_error \<Rightarrow> 'a act \<Rightarrow> 'a act" where
  "as_error e e' m st = (case m st of (Inl x, st') \<Rightarrow> (Inl (if x = e then e' else x), st') | (Inr a, st') \<Rightarrow> (Inr a, st'))"

definition reads :: "id_env \<Rightarrow> string \<Rightarrow> (id_db \<Rightarrow> id_error + 'a) \<Rightarrow> 'a act" where
  "reads env n f st = (if ie_ok env n then (f (ist_db st), st) else (Inl IdQuery, st))"

definition writes :: "id_env \<Rightarrow> string \<Rightarrow> 'a id_write \<Rightarrow> 'a act" where
  "writes env n f st = (if ie_ok env n then (let (r, db) = f (ist_db st) in (r, st\<lparr>ist_db := db\<rparr>)) else (Inl IdQuery, st))"

definition limits :: "(limiter \<Rightarrow> (id_error + unit) \<times> limiter) \<Rightarrow> unit act" where
  "limits f st = (let (r, lm) = f (ist_limiter st) in (r, st\<lparr>ist_limiter := lm\<rparr>))"

section \<open>Helpers\<close>

definition PhoneHash :: "id_env \<Rightarrow> string \<Rightarrow> string act" where
  "PhoneHash env s = of_option IdCrypto (ie_hash env s)"

definition EncryptPII :: "id_env \<Rightarrow> string \<Rightarrow> string act" where
  "EncryptPII env s = of_option IdCrypto (ie_encrypt env s)"

definition DecryptPII :: "id_env \<Rightarrow> string \<Rightarrow> string act" where
  "DecryptPII env s = of_option IdCrypto (ie_decrypt env s)"

definition formatOTP :: "nat \<Rightarrow> string" where
  "formatOTP n = pad_dec 6 n"

definition generateOTPCode :: "id_env \<Rightarrow> string act" where
  "generateOTPCode env = of_option IdCrypto (map_option (\<lambda>n. formatOTP (n mod 1000000)) (ie_draw env))"

definition codeAlphabet :: string where
  "codeAlphabet = ''ABCDEFGHJKMNPQRSTUVWXYZ23456789''"

definition generateVerificationCode :: "id_env \<Rightarrow> string act" where
  "generateVerificationCode env = of_option IdCrypto (map_option (\<lambda>d. map (\<lambda>i. codeAlphabet ! (d i mod length codeAlphabet)) [0..<8]) (ie_letters env))"

definition hashToken :: "id_env \<Rightarrow> string \<Rightarrow> string" where
  "hashToken env raw = ie_sha env raw"

definition newRefreshTokenCreation :: "id_env \<Rightarrow> string \<times> refresh_token" where
  "newRefreshTokenCreation env =
     (ie_raw env,
      \<lparr>rt_ID = 0, rt_UserID = 0, rt_TokenHash = ie_sha env (ie_raw env), rt_FamilyRoot = ie_family env, rt_IssuedAt = 0,
       rt_ExpiresAt = ie_now env + refreshTokenTTL, rt_RevokedAt = None, rt_RevokedReason = []\<rparr>)"

record token_pair =
  tp_AccessToken :: string
  tp_RefreshToken :: string
  tp_RefreshExpiresAt :: instant

datatype login_result = LoginTokens token_pair | LoginMFA string string

definition access_pair :: "id_env \<Rightarrow> int \<Rightarrow> string \<Rightarrow> instant \<Rightarrow> token_pair act" where
  "access_pair env userID raw expiresAt =
     andThen (of_option IdSign (ie_access env userID)) (\<lambda>acc.
     give \<lparr>tp_AccessToken = acc, tp_RefreshToken = raw, tp_RefreshExpiresAt = expiresAt\<rparr>)"

definition issueTokensForUser :: "id_env \<Rightarrow> int \<Rightarrow> token_pair act" where
  "issueTokensForUser env userID =
     (let (raw, tok) = newRefreshTokenCreation env in
      andThen (writes env ''CreateSession'' (CreateSession (ie_now env) userID tok)) (\<lambda>_.
      access_pair env userID raw (rt_ExpiresAt tok)))"

definition sms_Send :: "id_env \<Rightarrow> string \<Rightarrow> string \<Rightarrow> unit act" where
  "sms_Send env phone code st =
     (case ie_sms_error env of Some e \<Rightarrow> (Inl e, st) | None \<Rightarrow> (Inr (), st\<lparr>ist_sms := ist_sms st @ [(phone, code)]\<rparr>))"

definition send_mail :: "id_env \<Rightarrow> mail \<Rightarrow> unit act" where
  "send_mail env m st = (Inr (), if ie_mail_ok env then st\<lparr>ist_mail := ist_mail st @ [m]\<rparr> else st)"

definition sendEmailVerification :: "id_env \<Rightarrow> int \<Rightarrow> string \<Rightarrow> unit act" where
  "sendEmailVerification env userID emailAddr =
     andThen (generateVerificationCode env) (\<lambda>c. let code = map upper c in
     andThen (of_option IdCrypto (ie_bcrypt env code)) (\<lambda>h.
     andThen (writes env ''CreateEmailVerification'' (CreateEmailVerification (ie_now env) userID h (ie_now env + emailVerifyTTL))) (\<lambda>_.
     send_mail env (MailVerification emailAddr code))))"

definition not_deleted :: "user \<Rightarrow> unit act" where
  "not_deleted u = require (us_Status u \<noteq> StatusDeleted) ErrUserDeleted"

text \<open>A secret against its hash: a failure is counted under \<open>h\<close>, a success clears the count.\<close>

definition fail_key :: "string \<Rightarrow> string" where
  "fail_key h = ''rl:otp_verify_fails:'' @ h"

definition check_secret :: "id_env \<Rightarrow> string \<Rightarrow> id_error \<Rightarrow> string \<Rightarrow> string \<Rightarrow> unit act" where
  "check_secret env h e stored given =
     (if ie_compare env stored given then ignore (limits (ResetVerifyFailures (ie_redis env (fail_key h)) h))
      else andThen (limits (RecordVerifyFailure (ie_redis env (fail_key h)) (ie_now env) h)) (\<lambda>_. fail e))"

section \<open>Phone codes\<close>

definition id_NewService :: "bool \<Rightarrow> bool \<Rightarrow> bool" where
  "id_NewService devOTPAcceptAny inProduction \<longleftrightarrow> \<not> (devOTPAcceptAny \<and> inProduction)"

definition RequestOTP :: "id_env \<Rightarrow> string \<Rightarrow> string \<Rightarrow> string \<Rightarrow> unit act" where
  "RequestOTP env phoneE164 purpose clientIP =
     andThen (require (validatePhone phoneE164) ErrInvalidPhone) (\<lambda>_.
     andThen (PhoneHash env phoneE164) (\<lambda>h.
     andThen (limits (CheckOTPRequest (ie_redis env) (ie_now env) h clientIP)) (\<lambda>_.
     andThen (generateOTPCode env) (\<lambda>code.
     andThen (of_option IdCrypto (ie_bcrypt env code)) (\<lambda>hash.
     andThen (writes env ''CreateOTP'' (CreateOTP (ie_now env)
       \<lparr>otp_ID = 0, otp_PhoneHash = h, otp_Purpose = purpose, otp_CodeHash = hash, otp_CreatedAt = 0,
        otp_ExpiresAt = ie_now env + otpTTL, otp_VerifiedAt = None\<rparr>)) (\<lambda>_.
     sms_Send env phoneE164 code))))))"

definition open_session :: "id_env \<Rightarrow> int \<Rightarrow> string \<Rightarrow> string \<Rightarrow> (user \<times> string \<times> instant) act" where
  "open_session env otpID h phoneE164 =
     (let (raw, tok) = newRefreshTokenCreation env in
      andThen (EncryptPII env phoneE164) (\<lambda>enc.
      andThen (writes env ''MarkOTPVerifiedAndCreateSession''
        (MarkOTPVerifiedAndCreateSession (ie_now env) otpID h enc (ie_defaultLocale env) tok)) (\<lambda>u.
      give (u, raw, rt_ExpiresAt tok))))"

definition issueSessionForPhone :: "id_env \<Rightarrow> string \<Rightarrow> string \<Rightarrow> token_pair act" where
  "issueSessionForPhone env h phoneE164 =
     andThen (open_session env 0 h phoneE164) (\<lambda>(u, raw, expiresAt). access_pair env (us_ID u) raw expiresAt)"

definition latest_otp :: "id_env \<Rightarrow> string \<Rightarrow> string \<Rightarrow> id_error \<Rightarrow> otp act" where
  "latest_otp env h purpose expired =
     andThen (reads env ''FindLatestOTP'' (\<lambda>db. FindLatestOTP db h purpose)) (\<lambda>x.
     andThen (require (\<not> otp_ExpiresAt x < ie_now env) expired) (\<lambda>_. give x))"

definition VerifyOTP :: "id_env \<Rightarrow> string \<Rightarrow> string \<Rightarrow> string \<Rightarrow> token_pair act" where
  "VerifyOTP env phoneE164 purpose code =
     andThen (require (validatePhone phoneE164) ErrInvalidPhone) (\<lambda>_.
     andThen (PhoneHash env phoneE164) (\<lambda>h.
     if ie_devOTPAcceptAny env then issueSessionForPhone env h phoneE164
     else
       andThen (latest_otp env h purpose ErrOTPExpired) (\<lambda>x.
       andThen (check_secret env h ErrOTPInvalid (otp_CodeHash x) code) (\<lambda>_.
       andThen (open_session env (otp_ID x) h phoneE164) (\<lambda>(u, raw, expiresAt).
       andThen (not_deleted u) (\<lambda>_.
       andThen (require (us_Status u \<noteq> StatusSuspended) ErrUserSuspended) (\<lambda>_.
       access_pair env (us_ID u) raw expiresAt)))))))"

definition RequestStepUpOTP :: "id_env \<Rightarrow> int \<Rightarrow> string \<Rightarrow> unit act" where
  "RequestStepUpOTP env userID clientIP =
     andThen (reads env ''GetUser'' (\<lambda>db. GetUser db userID)) (\<lambda>u.
     andThen (not_deleted u) (\<lambda>_.
     andThen (DecryptPII env (us_PhoneEnc u)) (\<lambda>phone.
     RequestOTP env phone ''step_up'' clientIP)))"

definition VerifyStepUpOTP :: "id_env \<Rightarrow> int \<Rightarrow> string \<Rightarrow> (string \<times> instant) act" where
  "VerifyStepUpOTP env userID code =
     andThen (reads env ''GetUser'' (\<lambda>db. GetUser db userID)) (\<lambda>u.
     andThen (not_deleted u) (\<lambda>_.
     andThen (DecryptPII env (us_PhoneEnc u)) (\<lambda>phone.
     andThen (PhoneHash env phone) (\<lambda>h.
     andThen (latest_otp env h ''step_up'' ErrOTPExpired) (\<lambda>x.
     andThen (check_secret env h ErrOTPInvalid (otp_CodeHash x) code) (\<lambda>_.
     andThen (writes env ''MarkOTPVerified'' (MarkOTPVerified (ie_now env) (otp_ID x))) (\<lambda>_.
     of_option IdSign (ie_step_up env userID))))))))"

section \<open>Sessions and the account\<close>

definition RefreshTokens :: "id_env \<Rightarrow> string \<Rightarrow> token_pair act" where
  "RefreshTokens env refreshToken =
     (let (raw, tok) = newRefreshTokenCreation env in
      andThen (writes env ''RotateRefreshToken''
        (RotateRefreshToken (ie_ok env ''theft'') (ie_now env) (hashToken env refreshToken) tok)) (\<lambda>(u, created).
      andThen (require (us_Status u \<noteq> StatusSuspended) ErrUserSuspended) (\<lambda>_.
      andThen (not_deleted u) (\<lambda>_.
      access_pair env (us_ID u) raw (rt_ExpiresAt created)))))"

definition Logout :: "id_env \<Rightarrow> string \<Rightarrow> unit act" where
  "Logout env refreshToken st =
     (case writes env ''RevokeToken'' (RevokeToken (ie_now env) (hashToken env refreshToken)) st of
        (Inl e, st') \<Rightarrow> (if e = ErrTokenNotFound then Inr () else Inl e, st')
      | (Inr _, st') \<Rightarrow> (Inr (), st'))"

definition GetMe :: "id_env \<Rightarrow> int \<Rightarrow> user act" where
  "GetMe env userID =
     andThen (reads env ''GetUser'' (\<lambda>db. GetUser db userID)) (\<lambda>u. andThen (not_deleted u) (\<lambda>_. give u))"

definition UpdateMe :: "id_env \<Rightarrow> int \<Rightarrow> user_updates \<Rightarrow> user act" where
  "UpdateMe env userID up =
     andThen (reads env ''GetUser'' (\<lambda>db. GetUser db userID)) (\<lambda>u.
     andThen (not_deleted u) (\<lambda>_.
     andThen (case uu_Email up of
                None \<Rightarrow> give up
              | Some e \<Rightarrow>
                  if e = [] then give up
                  else andThen (require (validateEmail e) ErrInvalidEmail) (\<lambda>_.
                       andThen (EncryptPII env e) (\<lambda>enc. give (up\<lparr>uu_Email := Some enc\<rparr>)))) (\<lambda>up'.
     andThen (case uu_Locale up' of None \<Rightarrow> give () | Some l \<Rightarrow> require (validateLocale l) ErrInvalidLocale) (\<lambda>_.
     writes env ''UpdateUser'' (UpdateUser (ie_now env) userID up')))))"

definition DeleteMe :: "id_env \<Rightarrow> int \<Rightarrow> unit act" where
  "DeleteMe env userID = writes env ''SoftDeleteWithRevoke'' (SoftDeleteWithRevoke (ie_now env) userID)"

definition RegisterDevice :: "id_env \<Rightarrow> int \<Rightarrow> device_info \<Rightarrow> device act" where
  "RegisterDevice env userID info = writes env ''CreateDevice'' (CreateDevice (ie_now env) userID info)"

section \<open>Email and password\<close>

record register_input =
  ri_Email :: string
  ri_Password :: string
  ri_NameFirst :: string
  ri_NameLast :: string
  ri_Locale :: string

definition normal_email :: "string \<Rightarrow> string" where
  "normal_email s = map lower (trim_space s)"

definition email_free :: "id_env \<Rightarrow> string \<Rightarrow> unit act" where
  "email_free env h st =
     (case reads env ''FindUserByEmailHash'' (\<lambda>db. FindUserByEmailHash db h) st of
        (Inr _, st') \<Rightarrow> (Inl ErrEmailAlreadyExists, st')
      | (Inl e, st') \<Rightarrow> (if e = ErrUserNotFound then Inr () else Inl e, st'))"

definition Register :: "id_env \<Rightarrow> register_input \<Rightarrow> unit act" where
  "Register env inp =
     andThen (require (validateEmail (ri_Email inp)) ErrInvalidEmail) (\<lambda>_.
     andThen (require (validatePassword (ri_Password inp)) ErrWeakPassword) (\<lambda>_.
     let locale = (if validateLocale (ri_Locale inp) then ri_Locale inp else ie_defaultLocale env) in
     andThen (PhoneHash env (ri_Email inp)) (\<lambda>h.
     andThen (email_free env h) (\<lambda>_.
     andThen (EncryptPII env (normal_email (ri_Email inp))) (\<lambda>enc.
     andThen (of_option IdCrypto (ie_bcrypt env (ri_Password inp))) (\<lambda>pw.
     andThen (writes env ''CreateEmailUser''
       (CreateEmailUser (ie_now env) h enc pw (trim_space (ri_NameFirst inp @ '' '' @ ri_NameLast inp)) locale)) (\<lambda>u.
     sendEmailVerification env (us_ID u) (ri_Email inp))))))))"

text \<open>The SMS of the second factor is sent without looking at its error.\<close>

definition start_mfa :: "id_env \<Rightarrow> user \<Rightarrow> login_result act" where
  "start_mfa env u =
     andThen (DecryptPII env (us_MFAPhoneEnc u)) (\<lambda>phone.
     andThen (generateOTPCode env) (\<lambda>code.
     andThen (of_option IdCrypto (ie_bcrypt env code)) (\<lambda>h.
     andThen (writes env ''CreateMFAChallenge''
       (CreateMFAChallenge (ie_now env) (us_ID u) (hashToken env (ie_opaque env)) h (ie_now env + mfaChallengeTTL))) (\<lambda>_.
     andThen (ignore (sms_Send env phone code)) (\<lambda>_.
     give (LoginMFA (ie_opaque env) (MaskPhone phone)))))))"

definition LoginEmail :: "id_env \<Rightarrow> string \<Rightarrow> string \<Rightarrow> login_result act" where
  "LoginEmail env emailAddr password =
     andThen (require (validateEmail emailAddr) ErrInvalidCredentials) (\<lambda>_.
     andThen (PhoneHash env (normal_email emailAddr)) (\<lambda>h.
     andThen (as_error ErrUserNotFound ErrInvalidCredentials (reads env ''FindUserByEmailHash'' (\<lambda>db. FindUserByEmailHash db h))) (\<lambda>u.
     andThen (require (us_Status u \<noteq> StatusSuspended) ErrUserSuspended) (\<lambda>_.
     andThen (not_deleted u) (\<lambda>_.
     andThen (require (us_PasswordHash u \<noteq> []) ErrInvalidCredentials) (\<lambda>_.
     andThen (check_secret env h ErrInvalidCredentials (us_PasswordHash u) password) (\<lambda>_.
     andThen (require (us_EmailVerified u) ErrEmailNotVerified) (\<lambda>_.
     if us_MFAEnabled u then start_mfa env u
     else andThen (issueTokensForUser env (us_ID u)) (\<lambda>p. give (LoginTokens p))))))))))"

definition VerifyEmail :: "id_env \<Rightarrow> string \<Rightarrow> string \<Rightarrow> token_pair act" where
  "VerifyEmail env emailAddr code =
     andThen (PhoneHash env (normal_email emailAddr)) (\<lambda>h.
     andThen (as_error ErrUserNotFound ErrEmailTokenInvalid (reads env ''FindUserByEmailHash'' (\<lambda>db. FindUserByEmailHash db h))) (\<lambda>u.
     andThen (not_deleted u) (\<lambda>_.
     if us_EmailVerified u then issueTokensForUser env (us_ID u)
     else
       andThen (reads env ''FindLatestEmailVerification'' (\<lambda>db. FindLatestEmailVerification db (us_ID u))) (\<lambda>v.
       andThen (require (\<not> emv_ExpiresAt v < ie_now env) ErrEmailTokenExpired) (\<lambda>_.
       andThen (require (ie_compare env (emv_CodeHash v) (map upper code)) ErrEmailTokenInvalid) (\<lambda>_.
       andThen (writes env ''MarkEmailVerificationUsed'' (MarkEmailVerificationUsed (ie_now env) (emv_ID v))) (\<lambda>_.
       andThen (writes env ''MarkEmailVerified'' (MarkEmailVerified (ie_now env) (us_ID u))) (\<lambda>_.
       issueTokensForUser env (us_ID u)))))))))"

text \<open>An unknown, deleted or verified account is answered like any other: nothing is sent, no error.\<close>

definition quiet_user :: "id_env \<Rightarrow> string \<Rightarrow> id_state \<Rightarrow> user option" where
  "quiet_user env emailAddr st =
     (case andThen (PhoneHash env (normal_email emailAddr)) (\<lambda>h. reads env ''FindUserByEmailHash'' (\<lambda>db. FindUserByEmailHash db h)) st of
        (Inl _, _) \<Rightarrow> None | (Inr u, _) \<Rightarrow> if us_Status u = StatusDeleted then None else Some u)"

definition ResendVerification :: "id_env \<Rightarrow> string \<Rightarrow> unit act" where
  "ResendVerification env emailAddr st =
     (case quiet_user env emailAddr st of
        None \<Rightarrow> (Inr (), st)
      | Some u \<Rightarrow>
          if us_EmailVerified u then (Inr (), st)
          else andThen (DecryptPII env (us_EmailEnc u)) (sendEmailVerification env (us_ID u)) st)"

definition ForgotPassword :: "id_env \<Rightarrow> string \<Rightarrow> unit act" where
  "ForgotPassword env emailAddr st =
     (case quiet_user env emailAddr st of
        None \<Rightarrow> (Inr (), st)
      | Some u \<Rightarrow>
          andThen (writes env ''CreatePasswordReset''
            (CreatePasswordReset (ie_now env) (us_ID u) (hashToken env (ie_opaque env)) (ie_now env + passwordResetTTL))) (\<lambda>_.
          send_mail env (MailReset emailAddr (ie_opaque env))) st)"

definition revoke_all :: "id_env \<Rightarrow> int \<Rightarrow> unit act" where
  "revoke_all env userID = ignore (writes env ''RevokeAllUserTokens'' (RevokeAllUserTokens (ie_check env) (ie_now env) userID))"

definition ResetPassword :: "id_env \<Rightarrow> string \<Rightarrow> string \<Rightarrow> unit act" where
  "ResetPassword env token newPassword =
     andThen (require (validatePassword newPassword) ErrWeakPassword) (\<lambda>_.
     andThen (reads env ''FindPasswordReset'' (\<lambda>db. FindPasswordReset db (hashToken env token))) (\<lambda>r.
     andThen (require (\<not> pwr_ExpiresAt r < ie_now env) ErrPasswordResetExpired) (\<lambda>_.
     andThen (reads env ''GetUser'' (\<lambda>db. GetUser db (pwr_UserID r))) (\<lambda>u.
     andThen (not_deleted u) (\<lambda>_.
     andThen (of_option IdCrypto (ie_bcrypt env newPassword)) (\<lambda>h.
     andThen (writes env ''SetPasswordHash'' (SetPasswordHash (ie_now env) (pwr_UserID r) h)) (\<lambda>_.
     andThen (ignore (writes env ''MarkPasswordResetUsed'' (MarkPasswordResetUsed (ie_now env) (pwr_ID r)))) (\<lambda>_.
     revoke_all env (pwr_UserID r)))))))))"

definition ChangePassword :: "id_env \<Rightarrow> int \<Rightarrow> string \<Rightarrow> string \<Rightarrow> unit act" where
  "ChangePassword env userID oldPassword newPassword =
     andThen (reads env ''GetUser'' (\<lambda>db. GetUser db userID)) (\<lambda>u.
     andThen (not_deleted u) (\<lambda>_.
     andThen (require (us_PasswordHash u \<noteq> []) ErrInvalidCredentials) (\<lambda>_.
     andThen (require (ie_compare env (us_PasswordHash u) oldPassword) ErrInvalidCredentials) (\<lambda>_.
     andThen (require (validatePassword newPassword) ErrWeakPassword) (\<lambda>_.
     andThen (of_option IdCrypto (ie_bcrypt env newPassword)) (\<lambda>h.
     andThen (writes env ''SetPasswordHash'' (SetPasswordHash (ie_now env) userID h)) (\<lambda>_.
     revoke_all env userID)))))))"

section \<open>Second factor\<close>

definition EnrollMFA :: "id_env \<Rightarrow> int \<Rightarrow> string \<Rightarrow> string \<Rightarrow> unit act" where
  "EnrollMFA env userID phone clientIP =
     andThen (require (validatePhone phone) ErrInvalidPhone) (\<lambda>_.
     andThen (reads env ''GetUser'' (\<lambda>db. GetUser db userID)) (\<lambda>u.
     andThen (not_deleted u) (\<lambda>_.
     andThen (require (\<not> us_MFAEnabled u) ErrMFAAlreadyEnabled) (\<lambda>_.
     RequestOTP env phone ''mfa_enroll'' clientIP))))"

definition ConfirmMFAEnroll :: "id_env \<Rightarrow> int \<Rightarrow> string \<Rightarrow> string \<Rightarrow> unit act" where
  "ConfirmMFAEnroll env userID phone code =
     andThen (require (validatePhone phone) ErrInvalidPhone) (\<lambda>_.
     andThen (PhoneHash env phone) (\<lambda>h.
     andThen (as_error ErrOTPNotFound ErrMFACodeInvalid (latest_otp env h ''mfa_enroll'' ErrMFAChallengeExpired)) (\<lambda>x.
     andThen (require (ie_compare env (otp_CodeHash x) code) ErrMFACodeInvalid) (\<lambda>_.
     andThen (ignore (writes env ''MarkOTPVerified'' (MarkOTPVerified (ie_now env) (otp_ID x)))) (\<lambda>_.
     andThen (EncryptPII env phone) (\<lambda>enc.
     writes env ''UpdateMFAConfig'' (UpdateMFAConfig (ie_now env) userID True (Some h) enc)))))))"

definition VerifyMFAChallenge :: "id_env \<Rightarrow> string \<Rightarrow> string \<Rightarrow> token_pair act" where
  "VerifyMFAChallenge env challengeToken code =
     andThen (reads env ''FindMFAChallenge'' (\<lambda>db. FindMFAChallenge db (hashToken env challengeToken))) (\<lambda>c.
     andThen (require (\<not> mfc_ExpiresAt c < ie_now env) ErrMFAChallengeExpired) (\<lambda>_.
     andThen (require (ie_compare env (mfc_CodeHash c) code) ErrMFACodeInvalid) (\<lambda>_.
     andThen (ignore (writes env ''MarkMFAChallengeVerified'' (MarkMFAChallengeVerified (ie_now env) (mfc_ID c)))) (\<lambda>_.
     issueTokensForUser env (mfc_UserID c)))))"

definition DisableMFA :: "id_env \<Rightarrow> int \<Rightarrow> unit act" where
  "DisableMFA env userID = writes env ''UpdateMFAConfig'' (UpdateMFAConfig (ie_now env) userID False None [])"

section \<open>Addresses\<close>

definition encryptAddressInput :: "id_env \<Rightarrow> address_input \<Rightarrow> address_row act" where
  "encryptAddressInput env inp =
     andThen (EncryptPII env (ain_Name inp)) (\<lambda>n.
     andThen (EncryptPII env (ain_Phone inp)) (\<lambda>p.
     andThen (EncryptPII env (ain_FullAddress inp)) (\<lambda>f.
     andThen (EncryptPII env (ain_Neighborhood inp)) (\<lambda>h.
     give \<lparr>arw_Label = ain_Label inp, arw_NameEnc = n, arw_PhoneEnc = p, arw_FullAddressEnc = f, arw_NeighborhoodEnc = h,
           arw_District = ain_District inp, arw_City = ain_City inp, arw_PostalCode = ain_PostalCode inp, arw_IsDefault = ain_IsDefault inp\<rparr>))))"

definition decryptAddress :: "id_env \<Rightarrow> address \<Rightarrow> address act" where
  "decryptAddress env a =
     andThen (DecryptPII env (adr_Name a)) (\<lambda>n.
     andThen (DecryptPII env (adr_Phone a)) (\<lambda>p.
     andThen (DecryptPII env (adr_FullAddress a)) (\<lambda>f.
     andThen (if adr_Neighborhood a = [] then give [] else DecryptPII env (adr_Neighborhood a)) (\<lambda>h.
     give (a\<lparr>adr_Name := n, adr_Phone := p, adr_FullAddress := f, adr_Neighborhood := h\<rparr>)))))"

text \<open>An address that does not decrypt is left out.\<close>

definition ListAddresses :: "id_env \<Rightarrow> int \<Rightarrow> address list act" where
  "ListAddresses env userID st =
     andThen (reads env ''ListAddresses'' (\<lambda>db. Inr (repo_ListAddresses db userID))) (\<lambda>rows.
     give (concat (map (\<lambda>a. case fst (decryptAddress env a st) of Inl _ \<Rightarrow> [] | Inr d \<Rightarrow> [d]) rows))) st"

definition clear_defaults :: "id_env \<Rightarrow> int \<Rightarrow> bool \<Rightarrow> unit act" where
  "clear_defaults env userID isDefault =
     (if isDefault then writes env ''ClearDefaultAddresses'' (ClearDefaultAddresses userID) else give ())"

definition CreateAddress :: "id_env \<Rightarrow> int \<Rightarrow> address_input \<Rightarrow> address act" where
  "CreateAddress env userID inp =
     andThen (require (ain_Phone inp = [] \<or> e164Regexp (ain_Phone inp)) ErrAddressInvalidPhone) (\<lambda>_.
     andThen (encryptAddressInput env inp) (\<lambda>row.
     andThen (clear_defaults env userID (ain_IsDefault inp)) (\<lambda>_.
     andThen (writes env ''InsertAddress'' (InsertAddress (ie_now env) userID row)) (decryptAddress env))))"

definition GetAddress :: "id_env \<Rightarrow> int \<Rightarrow> int \<Rightarrow> address act" where
  "GetAddress env userID i = andThen (reads env ''GetAddress'' (\<lambda>db. repo_GetAddress db userID i)) (decryptAddress env)"

definition UpdateAddress :: "id_env \<Rightarrow> int \<Rightarrow> int \<Rightarrow> address_input \<Rightarrow> address act" where
  "UpdateAddress env userID i inp =
     andThen (require (ain_Phone inp = [] \<or> e164Regexp (ain_Phone inp)) ErrAddressInvalidPhone) (\<lambda>_.
     andThen (encryptAddressInput env inp) (\<lambda>row.
     andThen (clear_defaults env userID (ain_IsDefault inp)) (\<lambda>_.
     andThen (writes env ''UpdateAddress'' (repo_UpdateAddress (ie_now env) userID i row)) (decryptAddress env))))"

definition DeleteAddress :: "id_env \<Rightarrow> int \<Rightarrow> int \<Rightarrow> unit act" where
  "DeleteAddress env userID i = writes env ''DeleteAddress'' (repo_DeleteAddress userID i)"

end
