(* ===== verification/SessionFlow.thy ===== *)
theory SessionFlow
  imports Sessions
begin

text \<open>
  What the identity service keeps and what it does not: refresh tokens form chains of which at most one member is live; a replayed
  token ends its chain for good; requests for codes are limited. And where the code falls short of its comments: an
  address that is verified already needs no code, the lock after ten failures does not hold, a password reset ends no session.
\<close>

section \<open>Chains of refresh tokens\<close>

text \<open>The tokens of a state with the next id.\<close>

definition tokens :: "id_state \<Rightarrow> refresh_token list" where
  "tokens st = idb_tokens (ist_db st)"

type_synonym token_table = "refresh_token list \<times> int"

definition token_table :: "id_state \<Rightarrow> token_table" where
  "token_table st = (idb_tokens (ist_db st), idb_token_next (ist_db st))"

text \<open>
  The abstract specification of sessions: tokens are ended, a chain is opened under a root never used, or the live end of a chain is
  ended and replaced.
\<close>

inductive chain_move :: "token_table \<Rightarrow> token_table \<Rightarrow> bool" where
  ended: "chain_move (ts, n) (update_where (\<lambda>t. p t \<and> rt_RevokedAt t = None) (revoke now reason) ts, n)"
| opened: "\<lbrakk>rt_ID t = n; rt_TokenHash t \<notin> rt_TokenHash ` set ts; rt_FamilyRoot t \<notin> rt_FamilyRoot ` set ts; rt_RevokedAt t = None\<rbrakk>
    \<Longrightarrow> chain_move (ts, n) (ts @ [t], n + 1)"
| rotated: "\<lbrakk>cur \<in> set ts; rt_RevokedAt cur = None; rt_ID t = n; rt_TokenHash t \<notin> rt_TokenHash ` set ts; rt_FamilyRoot t = rt_FamilyRoot cur;
      rt_UserID t = rt_UserID cur; rt_RevokedAt t = None\<rbrakk>
    \<Longrightarrow> chain_move (ts, n) (update_where (\<lambda>x. rt_ID x = rt_ID cur) (revoke now ''rotation'') ts @ [t], n + 1)"

abbreviation chain_moves :: "token_table \<Rightarrow> token_table \<Rightarrow> bool" where
  "chain_moves \<equiv> chain_move\<^sup>*\<^sup>*"

definition unrevoked :: "refresh_token \<Rightarrow> bool" where
  "unrevoked t \<longleftrightarrow> rt_RevokedAt t = None"

definition one_unrevoked :: "refresh_token list \<Rightarrow> bool" where
  "one_unrevoked ts \<longleftrightarrow>
     (\<forall>t \<in> set ts. \<forall>u \<in> set ts. rt_FamilyRoot t = rt_FamilyRoot u \<longrightarrow> rt_UserID t = rt_UserID u \<and> (unrevoked t \<and> unrevoked u \<longrightarrow> rt_ID t = rt_ID u))"

definition chains_ok :: "token_table \<Rightarrow> bool" where
  "chains_ok tt \<longleftrightarrow> fresh_ids rt_ID (snd tt) (fst tt) \<and> distinct (map rt_TokenHash (fst tt)) \<and> one_unrevoked (fst tt)"

lemma revoke_simps [simp]:
  "rt_ID (revoke now r t) = rt_ID t" "rt_UserID (revoke now r t) = rt_UserID t" "rt_TokenHash (revoke now r t) = rt_TokenHash t"
  "rt_FamilyRoot (revoke now r t) = rt_FamilyRoot t" "rt_ExpiresAt (revoke now r t) = rt_ExpiresAt t" "\<not> unrevoked (revoke now r t)"
  "rt_RevokedAt (revoke now r t) = Some now"
  by (simp_all add: revoke_def unrevoked_def)

lemma revoked_rows:
  "rt_TokenHash ` set (update_where p (revoke now r) ts) = rt_TokenHash ` set ts"
  "rt_FamilyRoot ` set (update_where p (revoke now r) ts) = rt_FamilyRoot ` set ts"
  "map rt_TokenHash (update_where p (revoke now r) ts) = map rt_TokenHash ts"
  "fresh_ids rt_ID n (update_where p (revoke now r) ts) = fresh_ids rt_ID n ts"
  by (simp_all add: map_update_where fresh_ids_update flip: set_map)

lemma revoked_row:
  assumes "x \<in> set (update_where p (revoke now r) ts)"
  obtains y where "y \<in> set ts" "rt_ID x = rt_ID y" "rt_UserID x = rt_UserID y" "rt_FamilyRoot x = rt_FamilyRoot y"
    "rt_TokenHash x = rt_TokenHash y" "unrevoked x \<longrightarrow> unrevoked y \<and> \<not> p y"
  using assms by (auto simp: set_update_where split: if_splits)

lemma one_unrevoked_revoke: "one_unrevoked ts \<Longrightarrow> one_unrevoked (update_where p (revoke now r) ts)"
  unfolding one_unrevoked_def
proof (intro ballI impI)
  fix t u
  assume o: "\<forall>t \<in> set ts. \<forall>u \<in> set ts. rt_FamilyRoot t = rt_FamilyRoot u \<longrightarrow> rt_UserID t = rt_UserID u \<and> (unrevoked t \<and> unrevoked u \<longrightarrow> rt_ID t = rt_ID u)"
    and t: "t \<in> set (update_where p (revoke now r) ts)" and u: "u \<in> set (update_where p (revoke now r) ts)" and f: "rt_FamilyRoot t = rt_FamilyRoot u"
  from t obtain t0 where "t0 \<in> set ts" "rt_ID t = rt_ID t0" "rt_UserID t = rt_UserID t0" "rt_FamilyRoot t = rt_FamilyRoot t0" "unrevoked t \<longrightarrow> unrevoked t0"
    by (metis revoked_row)
  moreover from u obtain u0 where "u0 \<in> set ts" "rt_ID u = rt_ID u0" "rt_UserID u = rt_UserID u0" "rt_FamilyRoot u = rt_FamilyRoot u0" "unrevoked u \<longrightarrow> unrevoked u0"
    by (metis revoked_row)
  ultimately show "rt_UserID t = rt_UserID u \<and> (unrevoked t \<and> unrevoked u \<longrightarrow> rt_ID t = rt_ID u)" using o f by metis
qed

lemma one_unrevoked_snoc:
  "one_unrevoked ts \<Longrightarrow> (\<And>x. x \<in> set ts \<Longrightarrow> rt_FamilyRoot x = rt_FamilyRoot t \<Longrightarrow> rt_UserID x = rt_UserID t \<and> \<not> unrevoked x) \<Longrightarrow> one_unrevoked (ts @ [t])"
  unfolding one_unrevoked_def by (metis in_set_conv_decomp_last list.set_intros(1) set_ConsD rotate1.simps(2) set_rotate1)

lemma chain_move_ok:
  assumes "chain_move tt tt'" "chains_ok tt"
  shows "chains_ok tt'"
  using assms
proof (cases rule: chain_move.cases)
  case (ended ts n p now reason)
  then show ?thesis using assms(2) by (simp add: chains_ok_def revoked_rows one_unrevoked_revoke)
next
  case (opened t n ts)
  then have "chains_ok (ts, n)" using assms(2) by simp
  moreover have "x \<in> set ts \<Longrightarrow> rt_FamilyRoot x \<noteq> rt_FamilyRoot t" for x using opened(5) by (metis imageI)
  then have "one_unrevoked (ts @ [t])" using \<open>chains_ok (ts, n)\<close> by (intro one_unrevoked_snoc) (auto simp: chains_ok_def)
  ultimately show ?thesis using opened by (auto simp: chains_ok_def fresh_ids_append)
next
  case (rotated cur ts t n now)
  then have ok: "chains_ok (ts, n)" using assms(2) by simp
  then have one: "one_unrevoked ts" by (simp add: chains_ok_def)
  let ?ts = "update_where (\<lambda>x. rt_ID x = rt_ID cur) (revoke now ''rotation'') ts"
  have "rt_UserID x = rt_UserID t \<and> \<not> unrevoked x" if "x \<in> set ?ts" "rt_FamilyRoot x = rt_FamilyRoot t" for x
  proof -
    from that(1) obtain y where y: "y \<in> set ts" "rt_ID x = rt_ID y" "rt_UserID x = rt_UserID y" "rt_FamilyRoot x = rt_FamilyRoot y"
      "rt_TokenHash x = rt_TokenHash y" "unrevoked x \<longrightarrow> unrevoked y \<and> rt_ID y \<noteq> rt_ID cur" by (rule revoked_row)
    have f: "rt_FamilyRoot y = rt_FamilyRoot cur" using that rotated y by simp
    have "rt_UserID y = rt_UserID cur \<and> (unrevoked y \<longrightarrow> rt_ID y = rt_ID cur)"
      using one y(1) rotated(3,4) f unfolding one_unrevoked_def unrevoked_def by blast
    then show ?thesis using y rotated by auto
  qed
  then have "one_unrevoked (?ts @ [t])" using ok by (intro one_unrevoked_snoc one_unrevoked_revoke) (simp_all add: chains_ok_def)
  then show ?thesis using ok rotated by (simp add: chains_ok_def revoked_rows fresh_ids_append)
qed

lemma chain_moves_ok: "chain_moves tt tt' \<Longrightarrow> chains_ok tt \<Longrightarrow> chains_ok tt'"
  by (induction rule: rtranclp_induct) (auto intro: chain_move_ok)

text \<open>No token disappears or changes its owner, and none comes back to life.\<close>

definition same_token :: "refresh_token \<Rightarrow> refresh_token \<Rightarrow> bool" where
  "same_token t u \<longleftrightarrow> rt_ID t = rt_ID u \<and> rt_UserID t = rt_UserID u \<and> rt_TokenHash t = rt_TokenHash u \<and> rt_FamilyRoot t = rt_FamilyRoot u \<and>
     rt_ExpiresAt t = rt_ExpiresAt u \<and> (unrevoked u \<longrightarrow> unrevoked t)"

lemma revoked_keeps: "t \<in> set ts \<Longrightarrow> \<exists>u \<in> set (update_where p (revoke now r) ts). same_token t u"
  unfolding set_update_where same_token_def by (intro bexI [of _ "if p t then revoke now r t else t"]) auto

lemma chain_move_keeps:
  assumes "chain_move tt tt'" "t \<in> set (fst tt)"
  shows "\<exists>u \<in> set (fst tt'). same_token t u"
  using assms(1)
proof (cases rule: chain_move.cases)
  case (opened u n ts)
  then show ?thesis using assms(2) by (auto simp: same_token_def intro!: bexI [of _ t])
qed (use assms(2) revoked_keeps in \<open>auto\<close>)

lemma chain_moves_keep: "chain_moves tt tt' \<Longrightarrow> t \<in> set (fst tt) \<Longrightarrow> \<exists>u \<in> set (fst tt'). same_token t u"
proof (induction rule: rtranclp_induct)
  case base
  then show ?case by (auto simp: same_token_def)
next
  case (step y z)
  then obtain u where "u \<in> set (fst y)" "same_token t u" by blast
  moreover then obtain v where "v \<in> set (fst z)" "same_token u v" using chain_move_keeps [OF step(2)] by blast
  ultimately show ?case by (auto simp: same_token_def intro!: bexI [of _ v])
qed

definition dead_family :: "string \<Rightarrow> token_table \<Rightarrow> bool" where
  "dead_family f tt \<longleftrightarrow> f \<in> rt_FamilyRoot ` set (fst tt) \<and> (\<forall>t \<in> set (fst tt). rt_FamilyRoot t = f \<longrightarrow> \<not> unrevoked t)"

lemma dead_family_revoke: "dead_family f (ts, n) \<Longrightarrow> dead_family f (update_where p (revoke now r) ts, m)"
  unfolding dead_family_def fst_conv revoked_rows by (metis revoked_row)

lemma dead_family_move:
  assumes "chain_move tt tt'" "dead_family f tt"
  shows "dead_family f tt'"
  using assms(1)
proof (cases rule: chain_move.cases)
  case (ended ts n p now reason)
  then show ?thesis using assms(2) dead_family_revoke by blast
next
  case (opened t n ts)
  then show ?thesis using assms(2) by (auto simp: dead_family_def)
next
  case (rotated cur ts t n now)
  then have "rt_FamilyRoot t \<noteq> f" using assms(2) by (auto simp: dead_family_def unrevoked_def)
  moreover have "dead_family f (update_where (\<lambda>x. rt_ID x = rt_ID cur) (revoke now ''rotation'') ts, n + 1)"
    using assms(2) rotated(1) dead_family_revoke by blast
  ultimately show ?thesis using rotated(2) by (auto simp: dead_family_def)
qed

lemma dead_family_moves: "chain_moves tt tt' \<Longrightarrow> dead_family f tt \<Longrightarrow> dead_family f tt'"
  by (induction rule: rtranclp_induct) (auto intro: dead_family_move)

lemma ended_dead:
  assumes "t \<in> set ts"
  shows "dead_family (rt_FamilyRoot t) (update_where (\<lambda>x. rt_FamilyRoot x = rt_FamilyRoot t \<and> rt_RevokedAt x = None) (revoke now r) ts, n)"
proof -
  have "\<not> unrevoked x" if x: "x \<in> set (update_where (\<lambda>x. rt_FamilyRoot x = rt_FamilyRoot t \<and> rt_RevokedAt x = None) (revoke now r) ts)"
    and f: "rt_FamilyRoot x = rt_FamilyRoot t" for x
    using x by (rule revoked_row) (use f in \<open>auto simp: unrevoked_def\<close>)
  then show ?thesis using assms by (simp add: dead_family_def revoked_rows)
qed

section \<open>The service follows the specification\<close>

text \<open>
  Most operations leave the tokens alone (\<open>quiet\<close>); the others follow the specification, as long as the family root they draw, 32
  random bytes, is a new one.
\<close>

definition fresh_draw :: "id_env \<Rightarrow> id_state \<Rightarrow> bool" where
  "fresh_draw env st \<longleftrightarrow> ie_family env \<notin> rt_FamilyRoot ` set (tokens st)"

definition quiet :: "'a act \<Rightarrow> bool" where
  "quiet m \<longleftrightarrow> (\<forall>st. token_table (snd (m st)) = token_table st)"

definition follows :: "id_env \<Rightarrow> 'a act \<Rightarrow> bool" where
  "follows env m \<longleftrightarrow> (\<forall>st. fresh_draw env st \<longrightarrow> chain_moves (token_table st) (token_table (snd (m st))))"

named_theorems act_intro

lemma quiet_follows: "quiet m \<Longrightarrow> follows env m"
  by (simp add: quiet_def follows_def)

lemma quiet_basic [act_intro]:
  "quiet (give a)" "quiet (fail e)" "quiet (require b e)" "quiet (of_option e r)" "quiet (reads env n f)" "quiet (limits g)"
  "quiet (sms_Send env p c)" "quiet (send_mail env mm)"
  by (auto simp: quiet_def give_def fail_def require_def of_option_def reads_def limits_def sms_Send_def send_mail_def token_table_def
      split: option.splits prod.splits)

lemma quiet_andThen [act_intro]: "quiet m \<Longrightarrow> (\<And>a. quiet (f a)) \<Longrightarrow> quiet (andThen m f)"
  unfolding quiet_def andThen_def by (metis (mono_tags, lifting) case_prod_unfold old.sum.simps(5,6) snd_conv sum.exhaust)

lemma quiet_wrappers [act_intro]: "quiet m \<Longrightarrow> quiet (ignore m)" "quiet m \<Longrightarrow> quiet (as_error e e' m)"
  by (auto simp: quiet_def ignore_def as_error_def token_table_def split: prod.splits sum.splits) (metis snd_conv)+

lemma quiet_writes: "(\<And>db. idb_tokens (snd (w db)) = idb_tokens db \<and> idb_token_next (snd (w db)) = idb_token_next db) \<Longrightarrow> quiet (writes env n w)"
  by (auto simp: quiet_def writes_def token_table_def Let_def split: prod.splits) (metis snd_conv)+

lemma follows_first [act_intro]: "quiet m \<Longrightarrow> (\<And>a. follows env (f a)) \<Longrightarrow> follows env (andThen m f)"
  unfolding follows_def
proof (intro allI impI)
  fix st
  assume q: "quiet m" and f: "\<And>a. \<forall>st. fresh_draw env st \<longrightarrow> chain_moves (token_table st) (token_table (snd (f a st)))" and d: "fresh_draw env st"
  obtain r st1 where m: "m st = (r, st1)" by (cases "m st")
  then have t: "token_table st1 = token_table st" using q by (metis quiet_def snd_conv)
  then have "fresh_draw env st1" using d by (simp add: fresh_draw_def tokens_def token_table_def)
  then show "chain_moves (token_table st) (token_table (snd (andThen m f st)))"
    using f [THEN spec, THEN mp, of st1] m t by (cases r) (auto simp: andThen_def)
qed

lemma follows_last: "follows env m \<Longrightarrow> (\<And>a. quiet (f a)) \<Longrightarrow> follows env (andThen m f)"
  unfolding follows_def
proof (intro allI impI)
  fix st
  assume m: "\<forall>st. fresh_draw env st \<longrightarrow> chain_moves (token_table st) (token_table (snd (m st)))" and f: "\<And>a. quiet (f a)" and d: "fresh_draw env st"
  obtain r st1 where r: "m st = (r, st1)" by (cases "m st")
  then have "chain_moves (token_table st) (token_table st1)" using m d by (metis snd_conv)
  then show "chain_moves (token_table st) (token_table (snd (andThen m f st)))"
    using f r by (cases r) (simp_all add: andThen_def quiet_def)
qed

lemma follows_ignore: "follows env m \<Longrightarrow> follows env (ignore m)"
  by (simp add: follows_def ignore_def)

lemma follows_writes:
  assumes "\<And>db. ie_family env \<notin> rt_FamilyRoot ` set (idb_tokens db) \<Longrightarrow>
     chain_moves (idb_tokens db, idb_token_next db) (idb_tokens (snd (w db)), idb_token_next (snd (w db)))"
  shows "follows env (writes env' n w)"
  using assms by (auto simp: follows_def writes_def token_table_def fresh_draw_def tokens_def Let_def split: prod.splits) (metis snd_conv)

text \<open>Conditionals and cases inside an operation.\<close>

lemma act_cases [act_intro]:
  "quiet m \<Longrightarrow> quiet m' \<Longrightarrow> quiet (if b then m else m')"
  "follows env k \<Longrightarrow> follows env k' \<Longrightarrow> follows env (if b then k else k')"
  "quiet n \<Longrightarrow> (\<And>x. quiet (g x)) \<Longrightarrow> quiet (case r of None \<Rightarrow> n | Some x \<Rightarrow> g x)"
  "(\<And>x y. quiet (h x y)) \<Longrightarrow> quiet (case p of (x, y) \<Rightarrow> h x y)"
  "(\<And>x y. follows env (i x y)) \<Longrightarrow> follows env (case p of (x, y) \<Rightarrow> i x y)"
  by (simp_all split: option.split prod.split)

lemmas quiet_tables = update_user_def SetPasswordHash_def MarkEmailVerified_def UpdateMFAConfig_def UpdateUser_def CreateEmailUser_def CreateOTP_def
  MarkOTPVerified_def CreateEmailVerification_def MarkEmailVerificationUsed_def CreatePasswordReset_def MarkPasswordResetUsed_def
  CreateMFAChallenge_def MarkMFAChallengeVerified_def CreateDevice_def ClearDefaultAddresses_def InsertAddress_def repo_UpdateAddress_def
  repo_DeleteAddress_def

lemma quiet_updates [act_intro]:
  "quiet (writes env n (SetPasswordHash now i h))" "quiet (writes env n (MarkEmailVerified now i))"
  "quiet (writes env n (UpdateMFAConfig now i b ph pe))" "quiet (writes env n (UpdateUser now i up))"
  "quiet (writes env n (CreateEmailUser now h pe pw nm loc))" "quiet (writes env n (CreateOTP now x))"
  "quiet (writes env n (MarkOTPVerified now i))" "quiet (writes env n (CreateEmailVerification now i h t))"
  "quiet (writes env n (MarkEmailVerificationUsed now i))" "quiet (writes env n (CreatePasswordReset now i h t))"
  "quiet (writes env n (MarkPasswordResetUsed now i))" "quiet (writes env n (CreateMFAChallenge now i h h' t))"
  "quiet (writes env n (MarkMFAChallengeVerified now i))" "quiet (writes env n (CreateDevice now i di))"
  "quiet (writes env n (ClearDefaultAddresses i))" "quiet (writes env n (InsertAddress now i row))"
  "quiet (writes env n (repo_UpdateAddress now i j row))" "quiet (writes env n (repo_DeleteAddress i j))"
  by (rule quiet_writes; simp add: quiet_tables Let_def)+

lemma ended_move: "chain_moves (ts, n) (update_where (\<lambda>t. p t \<and> rt_RevokedAt t = None) (revoke now reason) ts, n)"
  by (intro r_into_rtranclp chain_move.ended)

lemma revoke_where_moves:
  "chain_moves (idb_tokens db, idb_token_next db) (idb_tokens (revoke_where now reason p db), idb_token_next (revoke_where now reason p db))"
  by (simp add: revoke_where_def ended_move)

lemma insert_token_cases:
  assumes "insert_token now uid h f ex db = (res, db')"
  obtains (bad) e where "res = Inl e" "db' = db"
  | (new) t where "res = Inr t" "idb_tokens db' = idb_tokens db @ [t]" "idb_token_next db' = idb_token_next db + 1"
      "rt_ID t = idb_token_next db" "rt_TokenHash t = h" "h \<notin> rt_TokenHash ` set (idb_tokens db)" "rt_FamilyRoot t = f" "rt_UserID t = uid"
      "rt_RevokedAt t = None" "rt_ExpiresAt t = ex" "idb_users db' = idb_users db"
  using assms by (auto simp: insert_token_def Let_def split: if_splits)

lemma CreateSession_moves:
  assumes "rt_FamilyRoot t \<notin> rt_FamilyRoot ` set (idb_tokens db)"
  shows "chain_moves (idb_tokens db, idb_token_next db) (idb_tokens (snd (CreateSession now i t db)), idb_token_next (snd (CreateSession now i t db)))"
proof (cases "insert_token now i (rt_TokenHash t) (rt_FamilyRoot t) (rt_ExpiresAt t) db")
  case (Pair res db')
  from this show ?thesis
  proof (cases rule: insert_token_cases)
    case (bad e)
    then show ?thesis using Pair by (simp add: CreateSession_def)
  next
    case (new u)
    then have "chain_move (idb_tokens db, idb_token_next db) (idb_tokens db @ [u], idb_token_next db + 1)"
      using assms by (intro chain_move.opened) simp_all
    then show ?thesis using Pair new by (simp add: CreateSession_def)
  qed
qed

lemma RotateRefreshToken_moves:
  "chain_moves (idb_tokens db, idb_token_next db)
     (idb_tokens (snd (RotateRefreshToken ok now h new db)), idb_token_next (snd (RotateRefreshToken ok now h new db)))"
proof (cases "FindTokenByHash db h")
  case (Inl e)
  then show ?thesis by (simp add: RotateRefreshToken_def)
next
  case (Inr cur)
  then have cur: "cur \<in> set (idb_tokens db)" by (auto simp: FindTokenByHash_def dest: find_SomeD split: option.splits)
  let ?ts = "update_where (\<lambda>t. rt_ID t = rt_ID cur) (revoke now ''rotation'') (idb_tokens db)"
  show ?thesis
  proof (cases "rt_RevokedAt cur = None \<and> \<not> rt_ExpiresAt cur < now")
    case True
    obtain res db2 where i: "insert_token now (rt_UserID cur) (rt_TokenHash new) (rt_FamilyRoot cur) (rt_ExpiresAt new) (db\<lparr>idb_tokens := ?ts\<rparr>) = (res, db2)"
      by fastforce
    then show ?thesis
    proof (cases rule: insert_token_cases)
      case (bad e)
      then show ?thesis using Inr True i by (simp add: RotateRefreshToken_def Let_def)
    next
      case (new t)
      then have "chain_move (idb_tokens db, idb_token_next db) (?ts @ [t], idb_token_next db + 1)"
        using cur True by (intro chain_move.rotated) (simp_all add: revoked_rows)
      then show ?thesis using Inr True i new by (auto simp: RotateRefreshToken_def Let_def split: sum.split)
    qed
  qed (use Inr revoke_where_moves in \<open>auto simp: RotateRefreshToken_def\<close>)
qed

lemma upsert_tokens:
  "upsert_phone_user now h enc loc db = (u, db') \<Longrightarrow> idb_tokens db' = idb_tokens db \<and> idb_token_next db' = idb_token_next db"
  by (auto simp: upsert_phone_user_def update_user_def Let_def split: sum.splits)

lemma MarkOTP_moves:
  assumes "rt_FamilyRoot t \<notin> rt_FamilyRoot ` set (idb_tokens db)"
  shows "chain_moves (idb_tokens db, idb_token_next db)
     (idb_tokens (snd (MarkOTPVerifiedAndCreateSession now o' h enc loc t db)), idb_token_next (snd (MarkOTPVerifiedAndCreateSession now o' h enc loc t db)))"
proof -
  define m where "m = (if o' \<noteq> 0 then MarkOTPVerified now o' db else (Inr (), db))"
  obtain r db1 where r: "m = (r, db1)" by fastforce
  have t1: "idb_tokens db1 = idb_tokens db \<and> idb_token_next db1 = idb_token_next db"
    using r by (auto simp: m_def MarkOTPVerified_def split: if_splits)
  obtain u db2 where u: "upsert_phone_user now h enc loc db1 = (u, db2)" by fastforce
  note t2 = upsert_tokens [OF u]
  have "chain_moves (idb_tokens db2, idb_token_next db2)
     (idb_tokens (snd (CreateSession now (us_ID u) t db2)), idb_token_next (snd (CreateSession now (us_ID u) t db2)))"
    using assms t1 t2 by (intro CreateSession_moves) simp
  then show ?thesis
    using t1 t2 u r by (auto simp: MarkOTPVerifiedAndCreateSession_def m_def [symmetric] split: sum.split prod.split)
qed

lemma follows_sessions [act_intro]:
  "follows env (writes env' n (RotateRefreshToken ok now h new))"
  "follows env (writes env' n (RevokeToken now h))"
  "follows env (writes env' n (SoftDeleteWithRevoke now i))"
  "follows env (writes env' n (RevokeAllUserTokens ck now i))"
  "rt_FamilyRoot t = ie_family env \<Longrightarrow> follows env (writes env' n (CreateSession now i t))"
  "rt_FamilyRoot t = ie_family env \<Longrightarrow> follows env (writes env' n (MarkOTPVerifiedAndCreateSession now o' h enc loc t))"
proof -
  show "follows env (writes env' n (RevokeToken now h))"
    by (rule follows_writes) (auto simp: RevokeToken_def revoke_where_moves)
  show "follows env (writes env' n (SoftDeleteWithRevoke now i))"
    by (rule follows_writes) (simp add: SoftDeleteWithRevoke_def revoke_where_def update_user_def ended_move)
  show "follows env (writes env' n (RevokeAllUserTokens ck now i))"
    by (rule follows_writes) (auto simp: RevokeAllUserTokens_def revoke_where_moves)
qed (rule follows_writes; simp add: RotateRefreshToken_moves CreateSession_moves MarkOTP_moves)+

subsection \<open>Every operation\<close>

lemmas act_ops = not_deleted_def latest_otp_def check_secret_def generateOTPCode_def generateVerificationCode_def PhoneHash_def EncryptPII_def
  DecryptPII_def access_pair_def sendEmailVerification_def encryptAddressInput_def clear_defaults_def start_mfa_def

lemma quiet_helpers [act_intro]:
  "quiet (not_deleted u)" "quiet (latest_otp env h p e)" "quiet (check_secret env h e st gv)" "quiet (access_pair env i r x)"
  "quiet (sendEmailVerification env i a)" "quiet (encryptAddressInput env inp)" "quiet (clear_defaults env i b)" "quiet (start_mfa env u)"
  "quiet (PhoneHash env x1)" "quiet (EncryptPII env x2)" "quiet (DecryptPII env x3)" "quiet (generateOTPCode env)"
  unfolding act_ops Let_def by (intro act_intro)+

lemma quiet_email_free [act_intro]: "quiet (email_free env h)"
  by (auto simp: quiet_def email_free_def reads_def split: sum.split)

lemma quiet_decrypt [act_intro]: "quiet (decryptAddress env a)"
  unfolding decryptAddress_def by (intro act_intro)

lemma quiet_operations:
  "quiet (RequestOTP env p pu ip)" "quiet (RequestStepUpOTP env i ip)" "quiet (VerifyStepUpOTP env i c)"
  "quiet (UpdateMe env i up)" "quiet (RegisterDevice env i di)" "quiet (Register env rg)"
  "quiet (EnrollMFA env i p ip)" "quiet (ConfirmMFAEnroll env i p c)" "quiet (DisableMFA env i)"
  "quiet (CreateAddress env i ain)" "quiet (UpdateAddress env i j ain)" "quiet (DeleteAddress env i j)"
  unfolding RequestOTP_def RequestStepUpOTP_def VerifyStepUpOTP_def UpdateMe_def RegisterDevice_def Register_def
    EnrollMFA_def ConfirmMFAEnroll_def DisableMFA_def CreateAddress_def UpdateAddress_def DeleteAddress_def Let_def
  by (intro act_intro)+

lemma quiet_mail_operations:
  "quiet (ResendVerification env e)" "quiet (ForgotPassword env e)"
proof -
  have "quiet (andThen (DecryptPII env x) (sendEmailVerification env i))" for x i by (intro act_intro)
  then show "quiet (ResendVerification env e)" by (auto simp: quiet_def ResendVerification_def split: option.split)
  have "quiet (andThen (writes env n (CreatePasswordReset now i h t)) (\<lambda>_. send_mail env mm))" for n now i h t mm by (intro act_intro)
  then show "quiet (ForgotPassword env e)" by (auto simp: quiet_def ForgotPassword_def split: option.split)
qed

lemma draw_family: "newRefreshTokenCreation env = (raw, tok) \<Longrightarrow> rt_FamilyRoot tok = ie_family env"
  by (auto simp: newRefreshTokenCreation_def)

lemma follows_issue [act_intro]: "follows env (issueTokensForUser env i)"
  unfolding issueTokensForUser_def newRefreshTokenCreation_def Let_def prod.case by (intro follows_last act_intro) simp

lemma follows_open [act_intro]: "follows env (open_session env o' h p)"
  unfolding open_session_def newRefreshTokenCreation_def Let_def prod.case
  by (intro follows_first follows_last act_intro) simp

lemmas follows_then = follows_last [OF follows_open] follows_last [OF follows_issue] follows_last [OF follows_sessions(1)]

lemma follows_revoke_all [act_intro]: "follows env (revoke_all env i)"
  unfolding revoke_all_def by (intro follows_ignore act_intro)

lemma quiet_RequestOTP [act_intro]: "quiet (RequestOTP env p pu ip)"
  by (rule quiet_operations)

lemma follows_phone [act_intro]: "follows env (issueSessionForPhone env h p)"
  unfolding issueSessionForPhone_def by (rule follows_then act_intro)+

lemma follows_operations:
  "follows env (VerifyOTP env p pu c)" "follows env (RefreshTokens env r)" "follows env (LoginEmail env e pw)" "follows env (VerifyEmail env e c)"
  "follows env (VerifyMFAChallenge env t c)" "follows env (DeleteMe env i)" "follows env (ResetPassword env t pw)" "follows env (ChangePassword env i pw pw')"
  unfolding VerifyOTP_def RefreshTokens_def LoginEmail_def VerifyEmail_def VerifyMFAChallenge_def DeleteMe_def ResetPassword_def ChangePassword_def
    newRefreshTokenCreation_def Let_def prod.case
  by (rule follows_then act_intro quiet_follows)+

lemma follows_Logout: "follows env (Logout env r)"
proof -
  have "snd (Logout env r st) = snd (writes env ''RevokeToken'' (RevokeToken (ie_now env) (hashToken env r)) st)" for st
    by (simp add: Logout_def split: sum.split prod.split)
  moreover have "follows env (writes env ''RevokeToken'' (RevokeToken (ie_now env) (hashToken env r)))" by (rule act_intro)
  ultimately show ?thesis by (simp add: follows_def)
qed

text \<open>
  One call of the service that changes something, with any environment whose family root is new. (The clean-up worker, which deletes tokens thirty
  days after they expired, is left out.)
\<close>

inductive id_step :: "id_state \<Rightarrow> id_state \<Rightarrow> bool" where
  request_otp: "id_step st (snd (RequestOTP env phone purpose ip st))"
| verify_otp: "fresh_draw env st \<Longrightarrow> id_step st (snd (VerifyOTP env phone purpose code st))"
| request_step_up: "id_step st (snd (RequestStepUpOTP env i ip st))"
| verify_step_up: "id_step st (snd (VerifyStepUpOTP env i code st))"
| refresh: "fresh_draw env st \<Longrightarrow> id_step st (snd (RefreshTokens env raw st))"
| logout: "fresh_draw env st \<Longrightarrow> id_step st (snd (Logout env raw st))"
| update_me: "id_step st (snd (UpdateMe env i up st))"
| delete_me: "fresh_draw env st \<Longrightarrow> id_step st (snd (DeleteMe env i st))"
| device: "id_step st (snd (RegisterDevice env i info st))"
| register: "id_step st (snd (Register env inp st))"
| login: "fresh_draw env st \<Longrightarrow> id_step st (snd (LoginEmail env email pw st))"
| verify_email: "fresh_draw env st \<Longrightarrow> id_step st (snd (VerifyEmail env email code st))"
| resend: "id_step st (snd (ResendVerification env email st))"
| forgot: "id_step st (snd (ForgotPassword env email st))"
| reset: "fresh_draw env st \<Longrightarrow> id_step st (snd (ResetPassword env token pw st))"
| change: "fresh_draw env st \<Longrightarrow> id_step st (snd (ChangePassword env i pw pw' st))"
| enroll: "id_step st (snd (EnrollMFA env i phone ip st))"
| confirm: "id_step st (snd (ConfirmMFAEnroll env i phone code st))"
| challenge: "fresh_draw env st \<Longrightarrow> id_step st (snd (VerifyMFAChallenge env token code st))"
| disable: "id_step st (snd (DisableMFA env i st))"
| new_address: "id_step st (snd (CreateAddress env i ain st))"
| set_address: "id_step st (snd (UpdateAddress env i j ain st))"
| drop_address: "id_step st (snd (DeleteAddress env i j st))"

lemma quiet_same: "quiet m \<Longrightarrow> chain_moves (token_table st) (token_table (snd (m st)))"
  by (simp add: quiet_def)

lemma id_step_moves: "id_step st st' \<Longrightarrow> chain_moves (token_table st) (token_table st')"
  by (induction rule: id_step.induct)
    (use follows_operations follows_Logout in \<open>auto simp: follows_def intro: quiet_same quiet_operations quiet_mail_operations\<close>)

lemma id_run_moves: "id_step\<^sup>*\<^sup>* st st' \<Longrightarrow> chain_moves (token_table st) (token_table st')"
  by (induction rule: rtranclp_induct) (auto dest: id_step_moves)

section \<open>Properties\<close>

text \<open>
  C22. The service refines the specification of sessions: whatever is called, with whatever failures, the table of refresh tokens changes by ending
  tokens, opening a chain under a new root, or replacing the live end of a chain, and by nothing else. So in every
  reachable state the tokens of a chain belong to one user and at most one of them is live.
\<close>

theorem sessions_form_chains:
  assumes "chains_ok (token_table st0)" "id_step\<^sup>*\<^sup>* st0 st" "id_step st st'"
  shows "chain_moves (token_table st) (token_table st') \<and>
    (\<forall>t \<in> set (tokens st'). \<forall>u \<in> set (tokens st'). rt_FamilyRoot t = rt_FamilyRoot u \<longrightarrow>
       rt_UserID t = rt_UserID u \<and> (rt_RevokedAt t = None \<and> rt_RevokedAt u = None \<longrightarrow> t = u))"
proof -
  have m: "chain_moves (token_table st) (token_table st')" by (rule id_step_moves [OF assms(3)])
  moreover have ok: "chains_ok (token_table st')" by (rule chain_moves_ok [OF m chain_moves_ok [OF id_run_moves [OF assms(2)] assms(1)]])
  then have one: "one_unrevoked (tokens st')" and d: "inj_on rt_ID (set (tokens st'))"
    by (simp_all add: chains_ok_def fresh_ids_def token_table_def tokens_def distinct_map)
  ultimately show ?thesis unfolding one_unrevoked_def unrevoked_def by (metis inj_onD)
qed

text \<open>
  C23. A replayed token ends its chain for good. When a token that was rotated away (or logged out) is presented again, the call is refused, and
  from then on, whatever is called, no token of that chain is live and none of those known at the replay is ever accepted again.
\<close>

theorem replayed_token_ends_chain:
  assumes "chains_ok (token_table st0)" "id_step\<^sup>*\<^sup>* st0 st" "t \<in> set (tokens st)" "rt_TokenHash t = hashToken env raw" "rt_RevokedAt t \<noteq> None"
    "ie_ok env ''RotateRefreshToken''" "ie_ok env ''theft''" "id_step\<^sup>*\<^sup>* (snd (RefreshTokens env raw st)) st'"
  shows "fst (RefreshTokens env raw st) = Inl ErrTokenFamilyRevoked \<and>
    (\<forall>u \<in> set (tokens st'). rt_FamilyRoot u = rt_FamilyRoot t \<longrightarrow> rt_RevokedAt u \<noteq> None) \<and>
    (\<forall>u \<in> set (tokens st). \<forall>env' raw'. rt_FamilyRoot u = rt_FamilyRoot t \<and> hashToken env' raw' = rt_TokenHash u \<longrightarrow>
       fst (RefreshTokens env' raw' st') \<in> {Inl ErrTokenFamilyRevoked, Inl IdQuery})"
proof -
  have ok: "chains_ok (token_table st)" by (rule chain_moves_ok [OF id_run_moves [OF assms(2)] assms(1)])
  have find: "FindTokenByHash (ist_db s) (rt_TokenHash x) = Inr x" if "chains_ok (token_table s)" "x \<in> set (tokens s)" for s x
    using that find_distinct_key [of rt_TokenHash "tokens s" x] by (simp add: FindTokenByHash_def chains_ok_def token_table_def tokens_def)
  let ?st1 = "snd (RefreshTokens env raw st)"
  have r: "RefreshTokens env raw st = (Inl ErrTokenFamilyRevoked, st\<lparr>ist_db := revoke_where (ie_now env) ''theft'' (\<lambda>x. rt_FamilyRoot x = rt_FamilyRoot t) (ist_db st)\<rparr>)"
    using find [OF ok assms(3)] assms(4-7)
    by (simp add: RefreshTokens_def newRefreshTokenCreation_def andThen_def writes_def RotateRefreshToken_def)
  have dead: "dead_family (rt_FamilyRoot t) (token_table ?st1)"
    using ended_dead assms(3) by (simp add: r token_table_def revoke_where_def tokens_def)
  have moves: "chain_moves (token_table ?st1) (token_table st')" by (rule id_run_moves [OF assms(8)])
  have dead': "dead_family (rt_FamilyRoot t) (token_table st')" by (rule dead_family_moves [OF moves dead])
  have all: "chain_moves (token_table st) (token_table st')"
    by (rule rtranclp_trans [OF _ moves]) (simp add: r token_table_def revoke_where_def ended_move)
  have ok': "chains_ok (token_table st')" by (rule chain_moves_ok [OF all ok])
  have "fst (RefreshTokens env' raw' st') \<in> {Inl ErrTokenFamilyRevoked, Inl IdQuery}"
    if u: "u \<in> set (tokens st)" "rt_FamilyRoot u = rt_FamilyRoot t" "hashToken env' raw' = rt_TokenHash u" for u env' raw'
  proof -
    obtain v where v: "v \<in> set (tokens st')" "same_token u v"
      using chain_moves_keep [OF all, of u] u(1) by (auto simp: token_table_def tokens_def)
    then have "rt_RevokedAt v \<noteq> None" using dead' u(2) by (auto simp: dead_family_def same_token_def unrevoked_def token_table_def tokens_def)
    moreover have "FindTokenByHash (ist_db st') (hashToken env' raw') = Inr v"
      using find [OF ok' v(1)] v(2) u(3) by (simp add: same_token_def)
    ultimately show ?thesis
      by (simp add: RefreshTokens_def newRefreshTokenCreation_def andThen_def writes_def RotateRefreshToken_def)
  qed
  moreover have "\<forall>u \<in> set (tokens st'). rt_FamilyRoot u = rt_FamilyRoot t \<longrightarrow> rt_RevokedAt u \<noteq> None"
    using dead' by (auto simp: dead_family_def unrevoked_def token_table_def tokens_def)
  ultimately show ?thesis using r by (simp add: all_conj_distrib)
qed

lemmas run_defs = andThen_def give_def fail_def require_def of_option_def ignore_def as_error_def reads_def writes_def limits_def
  PhoneHash_def EncryptPII_def DecryptPII_def not_deleted_def hashToken_def newRefreshTokenCreation_def access_pair_def

lemma user_exists_GetUser: "user_exists i db \<longleftrightarrow> (\<exists>u. GetUser db i = Inr u)"
  by (auto simp: user_exists_def GetUser_def split: option.split)

lemma FindUserByEmailHash_Inr: "FindUserByEmailHash db h = Inr u \<Longrightarrow> u \<in> set (idb_users db) \<and> us_EmailHash u = Some h \<and> user_exists (us_ID u) db"
  by (auto simp: FindUserByEmailHash_def user_exists_def find_None_iff2 dest: find_SomeD split: option.splits)

text \<open>A session for a known user, with everything up.\<close>

lemma issueTokens_ok:
  assumes "ie_ok env ''CreateSession''" "ie_access env i = Some acc" "user_exists i (ist_db st)" "ie_sha env (ie_raw env) \<notin> rt_TokenHash ` set (tokens st)"
  shows "\<exists>st' t. issueTokensForUser env i st =
      (Inr \<lparr>tp_AccessToken = acc, tp_RefreshToken = ie_raw env, tp_RefreshExpiresAt = ie_now env + refreshTokenTTL\<rparr>, st') \<and>
    tokens st' = tokens st @ [t] \<and> rt_UserID t = i \<and> rt_TokenHash t = ie_sha env (ie_raw env) \<and> rt_RevokedAt t = None"
  using assms by (auto simp: issueTokensForUser_def run_defs CreateSession_def insert_token_def Let_def tokens_def)

text \<open>
  C31. A verified address logs in without a code. For an account whose address is verified (and which is not deleted), \<^verbatim>\<open>VerifyEmail\<close> opens a
  session whatever code it is given: neither the password nor the second factor is asked for, and a suspended account gets one too.
\<close>

theorem verified_email_needs_no_code:
  assumes "ie_hash env (normal_email emailAddr) = Some h" "FindUserByEmailHash (ist_db st) h = Inr u" "us_EmailVerified u" "us_Status u \<noteq> StatusDeleted"
    "ie_ok env ''FindUserByEmailHash''" "ie_ok env ''CreateSession''" "ie_access env (us_ID u) = Some acc" "ie_sha env (ie_raw env) \<notin> rt_TokenHash ` set (tokens st)"
  shows "\<exists>st' t. VerifyEmail env emailAddr code st =
      (Inr \<lparr>tp_AccessToken = acc, tp_RefreshToken = ie_raw env, tp_RefreshExpiresAt = ie_now env + refreshTokenTTL\<rparr>, st') \<and>
    tokens st' = tokens st @ [t] \<and> rt_UserID t = us_ID u \<and> rt_TokenHash t = hashToken env (ie_raw env) \<and> rt_RevokedAt t = None"
proof -
  have "VerifyEmail env emailAddr code st = issueTokensForUser env (us_ID u) st"
    using assms(1-5) by (simp add: VerifyEmail_def run_defs)
  moreover have "user_exists (us_ID u) (ist_db st)" using FindUserByEmailHash_Inr [OF assms(2)] by blast
  ultimately show ?thesis using issueTokens_ok [OF assms(6,7) _ assms(8)] by (simp add: hashToken_def)
qed

section \<open>Codes by phone\<close>

text \<open>A wrong code changes only the counters of the limiter.\<close>

lemma VerifyOTP_wrong:
  assumes "ie_hash env phone = Some h" "\<not> ie_devOTPAcceptAny env" "FindLatestOTP (ist_db st) h purpose = Inr x" "\<not> ie_compare env (otp_CodeHash x) code"
  shows "\<exists>e lm. VerifyOTP env phone purpose code st = (Inl e, st\<lparr>ist_limiter := lm\<rparr>)"
proof -
  have same: "\<exists>lm. s = s\<lparr>ist_limiter := lm\<rparr>" for s :: id_state by (rule exI [of _ "ist_limiter s"]) simp
  obtain r lm where r: "RecordVerifyFailure (ie_redis env (fail_key h)) (ie_now env) h (ist_limiter st) = (r, lm)" by fastforce
  consider "\<not> validatePhone phone \<or> \<not> ie_ok env ''FindLatestOTP'' \<or> otp_ExpiresAt x < ie_now env"
    | "validatePhone phone" "ie_ok env ''FindLatestOTP''" "\<not> otp_ExpiresAt x < ie_now env" by blast
  then show ?thesis
  proof cases
    case 1
    then show ?thesis using assms(1-3) same [of st] by (auto simp: VerifyOTP_def latest_otp_def run_defs)
  next
    case 2
    then show ?thesis using assms r by (cases r) (auto simp: VerifyOTP_def latest_otp_def check_secret_def run_defs)
  qed
qed

text \<open>A right one is accepted whatever the counters say.\<close>

definition oblivious :: "'a act \<Rightarrow> bool" where
  "oblivious m \<longleftrightarrow> (\<forall>st lm. \<exists>lm'. m (st\<lparr>ist_limiter := lm\<rparr>) = (fst (m st), (snd (m st))\<lparr>ist_limiter := lm'\<rparr>))"

lemma oblivious_andThen: "oblivious m \<Longrightarrow> (\<And>a. oblivious (f a)) \<Longrightarrow> oblivious (andThen m f)"
  unfolding oblivious_def
proof (intro allI)
  fix st lm
  assume m: "\<forall>st lm. \<exists>lm'. m (st\<lparr>ist_limiter := lm\<rparr>) = (fst (m st), (snd (m st))\<lparr>ist_limiter := lm'\<rparr>)"
    and f: "\<And>a. \<forall>st lm. \<exists>lm'. f a (st\<lparr>ist_limiter := lm\<rparr>) = (fst (f a st), (snd (f a st))\<lparr>ist_limiter := lm'\<rparr>)"
  obtain r s where r: "m st = (r, s)" by fastforce
  obtain lm' where "m (st\<lparr>ist_limiter := lm\<rparr>) = (r, s\<lparr>ist_limiter := lm'\<rparr>)" using m [THEN spec, THEN spec, of lm st] r by auto
  then show "\<exists>lm'. andThen m f (st\<lparr>ist_limiter := lm\<rparr>) = (fst (andThen m f st), (snd (andThen m f st))\<lparr>ist_limiter := lm'\<rparr>)"
    using r f by (cases r) (auto simp: andThen_def)
qed

lemma oblivious_basic:
  "oblivious (give a)" "oblivious (require b e)" "oblivious (of_option e r)" "oblivious (reads env n g)" "oblivious (ignore (limits k))"
  by (auto simp: oblivious_def give_def fail_def require_def of_option_def reads_def limits_def ignore_def Let_def split: option.split prod.split)

lemma oblivious_writes: "oblivious (writes env n w)"
  unfolding oblivious_def
proof (intro allI)
  fix st :: id_state and lm
  show "\<exists>lm'. writes env n w (st\<lparr>ist_limiter := lm\<rparr>) = (fst (writes env n w st), (snd (writes env n w st))\<lparr>ist_limiter := lm'\<rparr>)"
    by (rule exI [of _ lm]) (simp add: writes_def Let_def split: prod.split)
qed

lemma andThen_Inr: "m s = (Inr a, s') \<Longrightarrow> andThen m f s = f a s'"
  by (simp add: andThen_def)

lemma VerifyOTP_right:
  assumes "VerifyOTP env phone purpose code st = (Inr pair, st1)"
  shows "\<exists>st2. VerifyOTP env phone purpose code (st\<lparr>ist_limiter := lm\<rparr>) = (Inr pair, st2)"
proof -
  obtain h where v: "validatePhone phone" "ie_hash env phone = Some h"
    using assms by (auto simp: VerifyOTP_def run_defs split: if_splits option.splits)
  define last where "last x = (if ie_devOTPAcceptAny env then issueSessionForPhone env h phone else
       andThen (ignore (limits (ResetVerifyFailures (ie_redis env (fail_key h)) h))) (\<lambda>_.
       andThen (open_session env (otp_ID x) h phone) (\<lambda>(u, raw, expiresAt).
       andThen (not_deleted u) (\<lambda>_.
       andThen (require (us_Status u \<noteq> StatusSuspended) ErrUserSuspended) (\<lambda>_.
       access_pair env (us_ID u) raw expiresAt)))))" for x :: otp
  have o: "oblivious (last x)" for x
    unfolding last_def issueSessionForPhone_def open_session_def access_pair_def not_deleted_def EncryptPII_def newRefreshTokenCreation_def Let_def prod.case
    by (auto intro!: oblivious_andThen oblivious_basic oblivious_writes split: prod.split)
  obtain x where x: "VerifyOTP env phone purpose code s = last x s" if "ist_db s = ist_db st" for s
  proof (cases "ie_devOTPAcceptAny env")
    case True
    then show ?thesis using v that by (auto simp: VerifyOTP_def last_def run_defs)
  next
    case False
    obtain x where "ie_ok env ''FindLatestOTP''" "FindLatestOTP (ist_db st) h purpose = Inr x" "\<not> otp_ExpiresAt x < ie_now env"
      using assms v False by (auto simp: VerifyOTP_def latest_otp_def run_defs split: if_splits sum.splits)
    then have x: "ie_ok env ''FindLatestOTP''" "FindLatestOTP (ist_db st) h purpose = Inr x" "\<not> otp_ExpiresAt x < ie_now env" .
    have c: "ie_compare env (otp_CodeHash x) code"
    proof (rule ccontr)
      assume "\<not> ie_compare env (otp_CodeHash x) code"
      then show False using VerifyOTP_wrong [OF v(2) False x(2), of code] assms by auto
    qed
    have "VerifyOTP env phone purpose code s = last x s" if "ist_db s = ist_db st" for s
    proof -
      have "latest_otp env h purpose ErrOTPExpired s = (Inr x, s)" using x that by (simp add: latest_otp_def run_defs)
      then show ?thesis using v False c by (simp add: VerifyOTP_def last_def check_secret_def PhoneHash_def require_def of_option_def andThen_Inr give_def)
    qed
    then show ?thesis by (rule that)
  qed
  have "last x st = (Inr pair, st1)" using x [of st] assms by simp
  moreover obtain lm' where "last x (st\<lparr>ist_limiter := lm\<rparr>) = (fst (last x st), (snd (last x st))\<lparr>ist_limiter := lm'\<rparr>)"
    using o [of x] unfolding oblivious_def by blast
  ultimately show ?thesis using x [of "st\<lparr>ist_limiter := lm\<rparr>"] by auto
qed

text \<open>
  The lock does not hold. However many wrong codes were tried for a phone, and though the limiter has answered that the phone is locked,
  the right code is still accepted: no lock is looked at before a code is compared. (Only new codes are rationed.)
\<close>

theorem lock_does_not_hold:
  assumes "\<forall>(e, c) \<in> set guesses. ie_hash e phone = Some h \<and> \<not> ie_devOTPAcceptAny e \<and> \<not> ie_compare e (otp_CodeHash x) c"
    "FindLatestOTP (ist_db st) h purpose = Inr x" "VerifyOTP env phone purpose code st = (Inr pair, st1)"
  shows "\<exists>st2. VerifyOTP env phone purpose code (fold (\<lambda>(e, c) s. snd (VerifyOTP e phone purpose c s)) guesses st) = (Inr pair, st2)"
proof -
  have "\<exists>lm. fold (\<lambda>(e, c) s. snd (VerifyOTP e phone purpose c s)) guesses (st\<lparr>ist_limiter := l\<rparr>) = st\<lparr>ist_limiter := lm\<rparr>" for l
    using assms(1)
  proof (induction guesses arbitrary: l)
    case Nil
    then show ?case by auto
  next
    case (Cons g gs)
    obtain e c where g: "g = (e, c)" by (cases g)
    obtain err lm where "VerifyOTP e phone purpose c (st\<lparr>ist_limiter := l\<rparr>) = (Inl err, st\<lparr>ist_limiter := lm\<rparr>)"
      using VerifyOTP_wrong [of e phone h "st\<lparr>ist_limiter := l\<rparr>" purpose x c] Cons.prems assms(2) g by auto
    then show ?case using Cons g by simp
  qed
  from this [of "ist_limiter st"] obtain lm where "fold (\<lambda>(e, c) s. snd (VerifyOTP e phone purpose c s)) guesses st = st\<lparr>ist_limiter := lm\<rparr>"
    by auto
  then show ?thesis using VerifyOTP_right [OF assms(3), of lm] by simp
qed

section \<open>Witnesses\<close>

text \<open>An environment with everything up, digests that are the text itself, and draws marked by \<open>mark\<close>.\<close>

definition sample_env :: "instant \<Rightarrow> string \<Rightarrow> id_env" where
  "sample_env now mark =
     \<lparr>ie_now = now, ie_ok = (\<lambda>_. True), ie_redis = (\<lambda>_. True), ie_check = True, ie_hash = Some, ie_encrypt = Some, ie_decrypt = Some,
      ie_bcrypt = Some, ie_compare = (=), ie_sha = (\<lambda>s. s), ie_draw = Some 123456, ie_letters = Some (\<lambda>i. i), ie_raw = ''r'' @ mark,
      ie_family = ''f'' @ mark, ie_opaque = ''o'' @ mark, ie_sms_error = None, ie_mail_ok = True, ie_access = (\<lambda>_. Some ''jwt''),
      ie_step_up = (\<lambda>_. None), ie_defaultLocale = ''tr-TR'', ie_devOTPAcceptAny = False\<rparr>"

definition sample_user :: user where
  "sample_user =
     \<lparr>us_ID = 1, us_PhoneHash = Some ''+905551112233'', us_PhoneEnc = ''+905551112233'', us_EmailHash = Some ''a@b.co'', us_EmailEnc = ''a@b.co'',
      us_PasswordHash = ''Passw0rd!'', us_EmailVerified = True, us_MFAEnabled = True, us_MFAPhoneHash = None, us_MFAPhoneEnc = [], us_Name = [],
      us_Locale = ''tr-TR'', us_Status = StatusSuspended, us_CreatedAt = 0, us_UpdatedAt = 0, us_DeletedAt = None\<rparr>"

definition sample_token :: "int \<Rightarrow> string \<Rightarrow> instant option \<Rightarrow> refresh_token" where
  "sample_token i raw revoked =
     \<lparr>rt_ID = i, rt_UserID = 1, rt_TokenHash = raw, rt_FamilyRoot = ''f1'', rt_IssuedAt = 0, rt_ExpiresAt = refreshTokenTTL,
      rt_RevokedAt = revoked, rt_RevokedReason = []\<rparr>"

definition sample_otp :: otp where
  "sample_otp = \<lparr>otp_ID = 1, otp_PhoneHash = ''+905551112233'', otp_Purpose = ''login'', otp_CodeHash = ''123456'', otp_CreatedAt = 0,
     otp_ExpiresAt = otpTTL, otp_VerifiedAt = None\<rparr>"

definition sample_state :: "user \<Rightarrow> refresh_token list \<Rightarrow> id_state" where
  "sample_state u ts =
     \<lparr>ist_db = \<lparr>idb_users = [u], idb_user_next = 2, idb_otps = [sample_otp], idb_otp_next = 2, idb_tokens = ts,
        idb_token_next = 1 + int (length ts), idb_verifications = [], idb_verification_next = 1,
        idb_resets = [\<lparr>pwr_ID = 1, pwr_UserID = 1, pwr_TokenHash = ''reset'', pwr_ExpiresAt = passwordResetTTL, pwr_UsedAt = None, pwr_CreatedAt = 0\<rparr>],
        idb_reset_next = 2, idb_challenges = [], idb_challenge_next = 1, idb_devices = [], idb_device_next = 1, idb_addresses = [],
        idb_address_next = 1\<rparr>,
      ist_limiter = \<lparr>lm_windows = (\<lambda>_. []), lm_fails = (\<lambda>_. None)\<rparr>, ist_sms = [], ist_mail = []\<rparr>"

lemmas sample_defs = sample_env_def sample_user_def sample_token_def sample_otp_def sample_state_def

lemma sample_chains_ok: "chains_ok (token_table (sample_state u [sample_token 1 ''r1'' rv, sample_token 2 ''r2'' None]))" if "rv \<noteq> None"
  using that by (auto simp: chains_ok_def token_table_def sample_defs fresh_ids_def one_unrevoked_def unrevoked_def)

lemma sample_fresh: "fresh_draw (sample_env now ''3'') (sample_state u [sample_token 1 ''r1'' rv, sample_token 2 ''r2'' None])"
  by (simp add: fresh_draw_def tokens_def sample_defs)

theorem sessions_form_chains_witness:
  "let st = sample_state sample_user [sample_token 1 ''r1'' (Some 0), sample_token 2 ''r2'' None];
       st' = snd (RefreshTokens (sample_env 5 ''3'') ''r2'' st) in
   chain_moves (token_table st) (token_table st') \<and> length (tokens st') = 3"
proof -
  let ?st = "sample_state sample_user [sample_token 1 ''r1'' (Some 0), sample_token 2 ''r2'' None]"
  have "chain_moves (token_table ?st) (token_table (snd (RefreshTokens (sample_env 5 ''3'') ''r2'' ?st)))"
    using sessions_form_chains [OF sample_chains_ok rtranclp.rtrancl_refl id_step.refresh [OF sample_fresh]] by blast
  moreover have "length (tokens (snd (RefreshTokens (sample_env 5 ''3'') ''r2'' ?st))) = 3"
    by (simp add: RefreshTokens_def run_defs RotateRefreshToken_def FindTokenByHash_def insert_token_def Let_def user_exists_def GetUser_def
        update_where_def tokens_def sample_defs refreshTokenTTL_def minutes_def ns_per_sec_def revoke_def)
  ultimately show ?thesis by (simp add: Let_def)
qed

theorem replayed_token_ends_chain_witness:
  "let st = sample_state sample_user [sample_token 1 ''r1'' (Some 0), sample_token 2 ''r2'' None];
       st' = snd (RefreshTokens (sample_env 5 ''3'') ''r1'' st) in
   fst (RefreshTokens (sample_env 5 ''3'') ''r1'' st) = Inl ErrTokenFamilyRevoked \<and>
   fst (RefreshTokens (sample_env 6 ''4'') ''r2'' st') \<in> {Inl ErrTokenFamilyRevoked, Inl IdQuery}"
proof -
  let ?st = "sample_state sample_user [sample_token 1 ''r1'' (Some 0), sample_token 2 ''r2'' None]"
  have t: "sample_token 1 ''r1'' (Some 0) \<in> set (tokens ?st)" "sample_token 2 ''r2'' None \<in> set (tokens ?st)"
    by (simp_all add: tokens_def sample_state_def)
  have "rt_TokenHash (sample_token 1 ''r1'' (Some 0)) = hashToken (sample_env 5 ''3'') ''r1''"
    "rt_RevokedAt (sample_token 1 ''r1'' (Some 0)) \<noteq> None" "ie_ok (sample_env 5 ''3'') x"
    "rt_FamilyRoot (sample_token 2 ''r2'' None) = rt_FamilyRoot (sample_token 1 ''r1'' (Some 0)) \<and>
     hashToken (sample_env 6 ''4'') ''r2'' = rt_TokenHash (sample_token 2 ''r2'' None)" for x
    by (simp_all add: sample_defs hashToken_def)
  note h = this
  show ?thesis
    using replayed_token_ends_chain [OF sample_chains_ok rtranclp.rtrancl_refl t(1) h(1,2,3,3) rtranclp.rtrancl_refl] t(2) h(4)
    unfolding Let_def by blast
qed

theorem verified_email_needs_no_code_witness:
  "let st = sample_state sample_user [] in
   \<exists>st' t. VerifyEmail (sample_env 5 ''1'') '' A@B.co'' ''WRONG!'' st =
       (Inr \<lparr>tp_AccessToken = ''jwt'', tp_RefreshToken = ''r1'', tp_RefreshExpiresAt = 5 + refreshTokenTTL\<rparr>, st') \<and>
     tokens st' = tokens st @ [t] \<and> rt_UserID t = 1 \<and> rt_RevokedAt t = None"
proof -
  have n: "normal_email '' A@B.co'' = ''a@b.co''" by code_simp
  have "ie_hash (sample_env 5 ''1'') (normal_email '' A@B.co'') = Some ''a@b.co''" by (simp add: n sample_env_def)
  moreover have "FindUserByEmailHash (ist_db (sample_state sample_user [])) ''a@b.co'' = Inr sample_user"
    by (simp add: FindUserByEmailHash_def sample_state_def sample_user_def)
  ultimately show ?thesis
    unfolding Let_def
    using verified_email_needs_no_code [of "sample_env 5 ''1''" "'' A@B.co''" "''a@b.co''" "sample_state sample_user []" sample_user "''jwt''" "''WRONG!''"]
    by (auto simp: sample_env_def tokens_def sample_state_def sample_user_def)
qed

theorem lock_does_not_hold_witness:
  "let st = sample_state (sample_user\<lparr>us_Status := StatusActive\<rparr>) [];
       guess = (\<lambda>(e, c) s. snd (VerifyOTP e ''+905551112233'' ''login'' c s)) in
   \<exists>pair st2. VerifyOTP (sample_env 5 ''1'') ''+905551112233'' ''login'' ''123456'' (fold guess (replicate 100 (sample_env 5 ''1'', ''000000'')) st) = (Inr pair, st2)"
proof -
  let ?st = "sample_state (sample_user\<lparr>us_Status := StatusActive\<rparr>) []"
  obtain pair st1 where v: "VerifyOTP (sample_env 5 ''1'') ''+905551112233'' ''login'' ''123456'' ?st = (Inr pair, st1)"
    by (simp add: VerifyOTP_def latest_otp_def check_secret_def open_session_def run_defs sample_defs FindLatestOTP_def in_range_of_def
        otpTTL_def minutes_def ns_per_sec_def ResetVerifyFailures_def MarkOTPVerifiedAndCreateSession_def MarkOTPVerified_def upsert_phone_user_def
        FindUserByPhoneHash_def update_user_def update_where_def CreateSession_def insert_token_def user_exists_def Let_def)
  show ?thesis
    using lock_does_not_hold [OF _ _ v, of "replicate 100 (sample_env 5 ''1'', ''000000'')" "''+905551112233''" sample_otp]
    by (auto simp: sample_defs FindLatestOTP_def Let_def)
qed

end
