(* ===== verification/Accounts.thy ===== *)
theory Accounts
  imports SessionFlow "HOL-Library.Multiset"
begin

text \<open>
  The identity service seen from an account: how many codes a phone can ask for, what a password reset leaves behind, which addresses can log in,
  and what comes back from the address book.
\<close>

section \<open>Rationing of codes\<close>

text \<open>The times after \<open>lo\<close> at which requests were accepted are all in the window.\<close>

definition covers :: "int \<Rightarrow> int list \<Rightarrow> int list \<Rightarrow> bool" where
  "covers lo acc w \<longleftrightarrow> (\<forall>s > lo. count (mset acc) s \<le> count (mset w) s)"

definition ms_now :: "id_env \<Rightarrow> int" where
  "ms_now env = ie_now env div 10 ^ 6"

lemma covers_mono: "covers lo acc w \<Longrightarrow> lo \<le> lo' \<Longrightarrow> covers lo' acc w"
  by (simp add: covers_def)

lemma covers_length: "covers lo acc w \<Longrightarrow> length (filter (\<lambda>s. lo < s) acc) \<le> length w"
proof -
  assume "covers lo acc w"
  then have "mset (filter (\<lambda>s. lo < s) acc) \<subseteq># mset w" by (simp add: covers_def subseteq_mset_def)
  then show ?thesis by (metis size_mset size_mset_mono)
qed

lemma covers_snoc:
  "covers lo acc w \<Longrightarrow> covers lo (acc @ [n]) (w @ [n])"
  "covers lo acc w \<Longrightarrow> covers lo acc (w @ [n])"
  by (simp_all add: covers_def le_SucI)

lemma slide_covers:
  assumes "slidingWindow W' mx n w = (ok, w')" "covers lo acc w" "lo \<le> n - W * 1000" "W \<le> W'"
  shows "covers (n - W * 1000) acc w' \<and> (ok \<longrightarrow> covers (n - W * 1000) (acc @ [n]) w' \<and> length (filter (\<lambda>s. n - W * 1000 < s) acc) < mx)"
proof -
  have k: "covers (n - W * 1000) acc (filter (\<lambda>s. n - W' * 1000 < s) w)"
    using assms by (auto simp: covers_def)
  show ?thesis using assms(1) k covers_snoc [OF k] covers_length [OF k] by (auto simp: slidingWindow_def Let_def split: if_splits)
qed

lemma slidingCheck_covers:
  assumes "slidingCheck redis key W' mx n lm = (r, lm')" "covers lo acc (lm_windows lm k)" "lo \<le> n - W * 1000" "key = k \<longrightarrow> W \<le> W'"
  shows "covers (n - W * 1000) acc (lm_windows lm' k)"
    and "r = Inr () \<Longrightarrow> key = k \<Longrightarrow> covers (n - W * 1000) (acc @ [n]) (lm_windows lm' k) \<and> length (filter (\<lambda>s. n - W * 1000 < s) acc) < mx"
proof -
  obtain ok w' where w: "slidingWindow W' mx n (lm_windows lm key) = (ok, w')" by fastforce
  show "covers (n - W * 1000) acc (lm_windows lm' k)"
    using assms(1) w slide_covers [OF w, of lo acc W] assms(2-4) covers_mono [OF assms(2,3)]
    by (cases "key = k") (auto simp: slidingCheck_def split: if_splits)
  show "r = Inr () \<Longrightarrow> key = k \<Longrightarrow> covers (n - W * 1000) (acc @ [n]) (lm_windows lm' k) \<and> length (filter (\<lambda>s. n - W * 1000 < s) acc) < mx"
    using assms(1) w slide_covers [OF w, of lo acc W] assms(2-4) by (auto simp: slidingCheck_def split: if_splits)
qed

text \<open>What a limit of \<open>mx\<close> in \<open>W\<close> seconds, kept under \<open>k\<close>, makes of one request at \<open>n\<close>: \<open>hit\<close> says that it was accepted and counts.\<close>

definition rations :: "int \<Rightarrow> nat \<Rightarrow> string \<Rightarrow> int \<Rightarrow> bool \<Rightarrow> limiter \<Rightarrow> limiter \<Rightarrow> bool" where
  "rations W mx k n hit lm lm' \<longleftrightarrow>
     (\<forall>lo acc. covers lo acc (lm_windows lm k) \<and> lo \<le> n - W * 1000 \<longrightarrow>
        covers (n - W * 1000) acc (lm_windows lm' k) \<and>
        (hit \<longrightarrow> covers (n - W * 1000) (acc @ [n]) (lm_windows lm' k) \<and> length (filter (\<lambda>s. n - W * 1000 < s) acc) < mx))"

lemma rations_check:
  "slidingCheck redis key W' mx n lm = (r, lm') \<Longrightarrow> (key = k \<longrightarrow> W \<le> W') \<Longrightarrow> rations W mx k n (r = Inr () \<and> key = k) lm lm'"
  unfolding rations_def by (intro allI impI conjI; elim conjE) (use slidingCheck_covers [of redis key W' mx n lm r lm' _ _ k W] in blast)+

lemma rations_idle: "rations W mx k n False lm lm"
  by (auto simp: rations_def intro: covers_mono)

lemma rations_trans:
  "rations W mx k n hit lm lm1 \<Longrightarrow> rations W mx' k n False lm1 lm2 \<Longrightarrow> rations W mx k n hit lm lm2"
  "rations W mx' k n False lm lm1 \<Longrightarrow> rations W mx k n hit lm1 lm2 \<Longrightarrow> rations W mx k n hit lm lm2"
  unfolding rations_def by (meson order_refl)+

lemma rations_weaken: "rations W mx k n hit lm lm' \<Longrightarrow> (hit' \<Longrightarrow> hit) \<Longrightarrow> rations W mx k n hit' lm lm'"
  by (auto simp: rations_def)

lemma CheckOTPRequest_rations:
  assumes "CheckOTPRequest redis now h' ip lm = (r, lm')"
  shows "rations 600 3 (phone_key h) (now div 10 ^ 6) (r = Inr () \<and> h' = h) lm lm'"
    and "CHR '':'' \<notin> set h' \<Longrightarrow> rations 3600 5 (phone_hour_key h) (now div 10 ^ 6) (r = Inr () \<and> h' = h) lm lm'"
proof -
  let ?n = "now div 10 ^ 6"
  obtain r1 lm1 where s1: "slidingCheck redis (phone_key h') (10 * 60) 3 ?n lm = (r1, lm1)" by fastforce
  obtain r2 lm2 where s2: "slidingCheck redis (phone_hour_key h') 3600 5 ?n lm1 = (r2, lm2)" by fastforce
  obtain r3 lm3 where s3: "slidingCheck redis (ip_key ip) 3600 10 ?n lm2 = (r3, lm3)" by fastforce
  have out: "lm' = lm1 \<and> r \<noteq> Inr () \<or> r1 = Inr () \<and> lm' = lm2 \<and> (r = Inr () \<longrightarrow> r2 = Inr ()) \<or> r1 = Inr () \<and> r2 = Inr () \<and> lm' = lm3"
    using assms s1 s2 s3 by (auto simp: CheckOTPRequest_def Let_def split: sum.splits if_splits)
  show "rations 600 3 (phone_key h) ?n (r = Inr () \<and> h' = h) lm lm'"
  proof -
    have a: "rations 600 3 (phone_key h) ?n (r1 = Inr () \<and> h' = h) lm lm1"
      using rations_check [OF s1, of "phone_key h" 600] by (rule rations_weaken) (simp_all add: phone_key_def)
    have b: "rations 600 5 (phone_key h) ?n False lm1 lm2" using rations_check [OF s2, of "phone_key h" 600] by (rule rations_weaken) simp_all
    have c: "rations 600 10 (phone_key h) ?n False lm2 lm3" using rations_check [OF s3, of "phone_key h" 600] by (rule rations_weaken) simp_all
    show ?thesis using out a rations_trans(1) [OF a b] rations_trans(1) [OF rations_trans(1) [OF a b] c] by (auto elim: rations_weaken)
  qed
  assume colon: "CHR '':'' \<notin> set h'"
  have k: "phone_key h' \<noteq> phone_hour_key h"
  proof
    assume "phone_key h' = phone_hour_key h"
    then have "h' = h @ '':hr''" by (simp add: phone_key_def phone_hour_key_def)
    then show False using colon by simp
  qed
  show "rations 3600 5 (phone_hour_key h) ?n (r = Inr () \<and> h' = h) lm lm'"
  proof -
    have a: "rations 3600 3 (phone_hour_key h) ?n False lm lm1"
      using rations_check [OF s1, of "phone_hour_key h" 3600] k by (auto elim: rations_weaken)
    have b: "rations 3600 5 (phone_hour_key h) ?n (r2 = Inr () \<and> h' = h) lm1 lm2"
      using rations_check [OF s2, of "phone_hour_key h" 3600] by (rule rations_weaken) (simp_all add: phone_hour_key_def)
    have c: "rations 3600 10 (phone_hour_key h) ?n False lm2 lm3" using rations_check [OF s3, of "phone_hour_key h" 3600] by (rule rations_weaken) simp_all
    show ?thesis using out a rations_trans(2) [OF a b] rations_trans(1) [OF rations_trans(2) [OF a b] c]
      by (auto elim: rations_weaken) (auto simp: rations_def)
  qed
qed

text \<open>A sequence of requests (environment, phone, purpose, address) and the times, in milliseconds, of those accepted for a phone.\<close>

type_synonym otp_call = "id_env \<times> string \<times> string \<times> string"

fun accepted :: "string \<Rightarrow> otp_call list \<Rightarrow> id_state \<Rightarrow> int list" where
  "accepted h [] st = []"
| "accepted h ((env, phone, purpose, ip) # calls) st =
     (let (r, st') = RequestOTP env phone purpose ip st in
      (if r = Inr () \<and> ie_hash env phone = Some h then [ms_now env] else []) @ accepted h calls st')"

lemma RequestOTP_limiter:
  assumes "RequestOTP env phone purpose ip st = (r, st')"
  shows "r \<noteq> Inr () \<and> ist_limiter st' = ist_limiter st \<or>
    (\<exists>h q. ie_hash env phone = Some h \<and> CheckOTPRequest (ie_redis env) (ie_now env) h ip (ist_limiter st) = (q, ist_limiter st') \<and> (r = Inr () \<longrightarrow> q = Inr ()))"
proof (cases "validatePhone phone")
  case True
  show ?thesis
  proof (cases "ie_hash env phone")
    case (Some h)
    obtain q lm where q: "CheckOTPRequest (ie_redis env) (ie_now env) h ip (ist_limiter st) = (q, lm)" by fastforce
    then have "ist_limiter st' = lm \<and> (r = Inr () \<longrightarrow> q = Inr ())"
      using assms True Some
      by (cases q) (auto simp: RequestOTP_def generateOTPCode_def sms_Send_def run_defs split: option.splits if_splits sum.splits prod.splits)
    then show ?thesis using Some q by auto
  qed (use assms True in \<open>auto simp: RequestOTP_def run_defs\<close>)
qed (use assms in \<open>auto simp: RequestOTP_def run_defs\<close>)

lemma RequestOTP_rations:
  assumes "RequestOTP env phone purpose ip st = (r, st')" "hit = (r = Inr () \<and> ie_hash env phone = Some h)"
  shows "rations 600 3 (phone_key h) (ms_now env) hit (ist_limiter st) (ist_limiter st')"
    and "\<forall>h'. ie_hash env phone = Some h' \<longrightarrow> CHR '':'' \<notin> set h' \<Longrightarrow>
      rations 3600 5 (phone_hour_key h) (ms_now env) hit (ist_limiter st) (ist_limiter st')"
proof -
  consider (idle) "\<not> hit" "ist_limiter st' = ist_limiter st"
    | (call) h' q where "ie_hash env phone = Some h'" "CheckOTPRequest (ie_redis env) (ie_now env) h' ip (ist_limiter st) = (q, ist_limiter st')"
        "hit \<Longrightarrow> q = Inr () \<and> h' = h"
    using RequestOTP_limiter [OF assms(1)] assms(2) by fastforce
  note cases = this
  show "rations 600 3 (phone_key h) (ms_now env) hit (ist_limiter st) (ist_limiter st')"
    unfolding ms_now_def
  proof (cases rule: cases)
    case (call h' q)
    show "rations 600 3 (phone_key h) (ie_now env div 10 ^ 6) hit (ist_limiter st) (ist_limiter st')"
      by (rule CheckOTPRequest_rations(1) [OF call(2), THEN rations_weaken]) (use call(3) in simp)
  qed (simp add: rations_idle)
  assume colon: "\<forall>h'. ie_hash env phone = Some h' \<longrightarrow> CHR '':'' \<notin> set h'"
  show "rations 3600 5 (phone_hour_key h) (ms_now env) hit (ist_limiter st) (ist_limiter st')"
    unfolding ms_now_def
  proof (cases rule: cases)
    case (call h' q)
    then have "CHR '':'' \<notin> set h'" using colon by simp
    then show "rations 3600 5 (phone_hour_key h) (ie_now env div 10 ^ 6) hit (ist_limiter st) (ist_limiter st')"
      by (rule CheckOTPRequest_rations(2) [OF call(2), THEN rations_weaken]) (use call(3) in simp)
  qed (simp add: rations_idle)
qed

lemma window_limit:
  assumes "length (filter (\<lambda>s. n - w < s) acc) < mx" "\<forall>s \<in> set acc. s \<le> n" "\<forall>t. length (filter (\<lambda>s. t - w < s \<and> s \<le> t) acc) \<le> mx"
  shows "length (filter (\<lambda>s. t - w < s \<and> s \<le> t) (acc @ [n :: int])) \<le> mx"
proof (cases "t < n")
  case False
  have "length (filter (\<lambda>s. t - w < s \<and> s \<le> t) acc) \<le> length (filter (\<lambda>s. n - w < s) acc)"
    using False by (induction acc) auto
  then show ?thesis using assms(1) by simp
qed (use assms(3) in simp)

lemma accepted_limit:
  assumes "\<And>env phone purpose ip s r s'. (env, phone, purpose, ip) \<in> set calls \<Longrightarrow> RequestOTP env phone purpose ip s = (r, s') \<Longrightarrow>
      rations W mx k (ms_now env) (r = Inr () \<and> ie_hash env phone = Some h) (ist_limiter s) (ist_limiter s')"
    and "sorted (map (\<lambda>(env, _). ms_now env) calls)" "covers lo acc (lm_windows (ist_limiter st) k)"
    "\<forall>(env, _) \<in> set calls. lo \<le> ms_now env - W * 1000 \<and> (\<forall>s \<in> set acc. s \<le> ms_now env)"
    "\<forall>t. length (filter (\<lambda>s. t - W * 1000 < s \<and> s \<le> t) acc) \<le> mx"
  shows "length (filter (\<lambda>s. t - W * 1000 < s \<and> s \<le> t) (acc @ accepted h calls st)) \<le> mx"
  using assms
proof (induction calls arbitrary: acc lo st)
  case (Cons c calls)
  obtain env phone purpose ip where c: "c = (env, phone, purpose, ip)" by (cases c)
  obtain r st' where r: "RequestOTP env phone purpose ip st = (r, st')" by fastforce
  define hit where "hit = (r = Inr () \<and> ie_hash env phone = Some h)"
  define acc' where "acc' = acc @ (if hit then [ms_now env] else [])"
  have "rations W mx k (ms_now env) hit (ist_limiter st) (ist_limiter st')"
    unfolding hit_def by (rule Cons.prems(1) [OF _ r]) (simp add: c)
  then have one: "covers (ms_now env - W * 1000) acc' (lm_windows (ist_limiter st') k)"
    and room: "hit \<Longrightarrow> length (filter (\<lambda>s. ms_now env - W * 1000 < s) acc) < mx"
    using Cons.prems(3,4) c by (auto simp: rations_def acc'_def)
  have "\<forall>t. length (filter (\<lambda>s. t - W * 1000 < s \<and> s \<le> t) acc') \<le> mx"
    using window_limit [OF room _ Cons.prems(5)] Cons.prems(4,5) c by (auto simp: acc'_def)
  moreover have "\<forall>(e, _) \<in> set calls. ms_now env - W * 1000 \<le> ms_now e - W * 1000 \<and> (\<forall>s \<in> set acc'. s \<le> ms_now e)"
    using Cons.prems(2,4) c by (auto simp: acc'_def)
  ultimately have "length (filter (\<lambda>s. t - W * 1000 < s \<and> s \<le> t) (acc' @ accepted h calls st')) \<le> mx"
    by (intro Cons.IH [OF Cons.prems(1) _ one]) (use Cons.prems(2) in simp_all)
  then show ?case using c r by (simp add: acc'_def hit_def)
qed simp

text \<open>
  C24. Codes are rationed. However many requests are made, with whatever purposes, client addresses and failures, and whatever else was
  asked for before, the requests accepted for one phone are at most 3 in any 10 minutes and at most 5 in any hour.
\<close>

theorem otp_requests_limited:
  assumes "sorted (map (\<lambda>(env, _). ms_now env) calls)" "\<forall>(env, phone, _) \<in> set calls. \<forall>h'. ie_hash env phone = Some h' \<longrightarrow> CHR '':'' \<notin> set h'"
  shows "length (filter (\<lambda>s. t - 600 * 1000 < s \<and> s \<le> t) (accepted h calls st)) \<le> 3 \<and>
    length (filter (\<lambda>s. t - 3600 * 1000 < s \<and> s \<le> t) (accepted h calls st)) \<le> 5"
proof -
  define lo where "lo = (case calls of [] \<Rightarrow> 0 | (env, _) # _ \<Rightarrow> ms_now env - 3600 * 1000)"
  have lo: "\<forall>(env, _) \<in> set calls. lo \<le> ms_now env - 3600 * 1000"
    using assms(1) by (cases calls) (auto simp: lo_def)
  have "length (filter (\<lambda>s. t - 600 * 1000 < s \<and> s \<le> t) ([] @ accepted h calls st)) \<le> 3"
    by (rule accepted_limit [OF RequestOTP_rations(1) assms(1), where lo = lo]) (use lo in \<open>auto simp: covers_def\<close>)
  moreover have "length (filter (\<lambda>s. t - 3600 * 1000 < s \<and> s \<le> t) ([] @ accepted h calls st)) \<le> 5"
    by (rule accepted_limit [OF RequestOTP_rations(2) assms(1), where lo = lo]) (use lo assms(2) in \<open>fastforce simp: covers_def\<close>)+
  ultimately show ?thesis by simp
qed

theorem otp_requests_limited_witness:
  "let calls = replicate 100 (sample_env 5 [], ''+905551112233'', ''login'', []) in
   length (filter (\<lambda>s. 0 - 600 * 1000 < s \<and> s \<le> 0) (accepted ''+905551112233'' calls (sample_state sample_user []))) \<le> 3 \<and>
   accepted ''+905551112233'' (take 2 calls) (sample_state sample_user []) = [0, 0]"
proof -
  have "accepted ''+905551112233'' [(sample_env 5 [], ''+905551112233'', ''login'', []), (sample_env 5 [], ''+905551112233'', ''login'', [])]
    (sample_state sample_user []) = [0, 0]"
    by (simp add: RequestOTP_def run_defs sample_defs CheckOTPRequest_def slidingCheck_def slidingWindow_def Let_def phone_key_def phone_hour_key_def
        generateOTPCode_def CreateOTP_def otp_purposes_def sms_Send_def ms_now_def in_range_of_def)
  then show ?thesis
    using otp_requests_limited [of "replicate 100 (sample_env 5 [], ''+905551112233'', ''login'', [])" 0 "''+905551112233''" "sample_state sample_user []"]
    by (simp add: sample_env_def numeral_eq_Suc [of "num.Bit0 num.One"] Let_def sorted_replicate)
qed

section \<open>Passwords\<close>

lemma revoke_all_deployed:
  assumes "ie_check env" "t \<in> set (tokens st)" "rt_UserID t = i" "rt_RevokedAt t = None"
  shows "revoke_all env i st = (Inr (), st)"
  using assms by (auto simp: revoke_all_def ignore_def writes_def RevokeAllUserTokens_def revoked_reasons_def tokens_def)

text \<open>
  C33. A password reset ends no session. With the tables as deployed, a reset that succeeds leaves every refresh token of the user as it was: the
  UPDATE that revokes them is refused by the CHECK on the reasons, and its error is not looked at. Whoever holds a live token of the
  account goes on refreshing it after the reset.
\<close>

theorem password_reset_keeps_sessions:
  assumes "ie_check env" "ResetPassword env token pw st = (Inr (), st')" "FindPasswordReset (ist_db st) (hashToken env token) = Inr r"
    "t \<in> set (tokens st)" "rt_UserID t = pwr_UserID r" "rt_RevokedAt t = None"
  shows "tokens st' = tokens st \<and>
    (\<forall>u \<in> set (idb_users (ist_db st')). us_ID u = pwr_UserID r \<longrightarrow> Some (us_PasswordHash u) = ie_bcrypt env pw)"
proof -
  have keep: "revoke_all env (pwr_UserID r) s = (Inr (), s)" if "tokens s = tokens st" for s
    using assms(1,4-6) that by (intro revoke_all_deployed [of env t]) simp_all
  obtain h where h: "ie_bcrypt env pw = Some h" "ie_ok env ''SetPasswordHash''"
    using assms(2,3) by (auto simp: ResetPassword_def run_defs hashToken_def split: if_splits option.splits sum.splits prod.splits)
  define s1 where "s1 = snd (writes env ''SetPasswordHash'' (SetPasswordHash (ie_now env) (pwr_UserID r) h) st)"
  define s2 where "s2 = snd (writes env ''MarkPasswordResetUsed'' (MarkPasswordResetUsed (ie_now env) (pwr_ID r)) s1)"
  have t: "tokens s2 = tokens st" "idb_users (ist_db s2) = idb_users (ist_db s1)"
    by (simp_all add: s1_def s2_def writes_def SetPasswordHash_def MarkPasswordResetUsed_def update_user_def tokens_def)
  have "st' = snd (revoke_all env (pwr_UserID r) s2)"
    using assms(2,3) h by (auto simp: ResetPassword_def run_defs hashToken_def s1_def s2_def SetPasswordHash_def MarkPasswordResetUsed_def
        revoke_all_def split: if_splits option.splits sum.splits prod.splits)
  then have "st' = s2" using keep [OF t(1)] by simp
  moreover have "\<forall>u \<in> set (idb_users (ist_db s1)). us_ID u = pwr_UserID r \<longrightarrow> us_PasswordHash u = h"
    using h(2) by (auto simp: s1_def writes_def SetPasswordHash_def update_user_def set_update_where)
  ultimately show ?thesis using t h(1) by simp
qed

section \<open>Addresses that log in\<close>

lemma CreateEmailUser_ok:
  assumes "CreateEmailUser now h enc pw nm loc db = (Inr u, db')"
  shows "us_EmailHash u = Some h \<and> idb_users db' = idb_users db @ [u]"
  using assms by (auto simp: CreateEmailUser_def Let_def split: if_splits)

lemma sendEmailVerification_users:
  assumes "sendEmailVerification env i a st = (r, st')"
  shows "idb_users (ist_db st') = idb_users (ist_db st)"
  using assms
  by (auto simp: sendEmailVerification_def generateVerificationCode_def run_defs CreateEmailVerification_def send_mail_def Let_def
      split: option.splits sum.splits prod.splits if_splits)

text \<open>
  An address registered with a capital or a space is lost. \<^verbatim>\<open>Register\<close> files the account under the digest of the address as it was typed; every
  other operation looks for the digest of the trimmed lower-case address. When the two differ, the registration succeeds, but neither the right
  code verifies the address nor the right password logs in, with any spelling, and the address as typed cannot be registered again.
\<close>

theorem mixed_case_account_lost:
  assumes "Register env inp st = (Inr (), st')" "ie_hash env (ri_Email inp) = Some h" "\<forall>k. ie_hash e k = ie_hash env k" "ie_hash env (normal_email (ri_Email inp)) = Some h'" "h \<noteq> h'"
    "FindUserByEmailHash (ist_db st) h' = Inl ErrUserNotFound" "\<forall>n. ie_ok e n" "normal_email spelt = normal_email (ri_Email inp)"
    "validateEmail (ri_Email inp') \<and> validatePassword (ri_Password inp') \<and> ri_Email inp' = ri_Email inp"
  shows "VerifyEmail e spelt code st' = (Inl ErrEmailTokenInvalid, st') \<and> LoginEmail e spelt pw st' = (Inl ErrInvalidCredentials, st') \<and>
    Register e inp' st' = (Inl ErrEmailAlreadyExists, st')"
proof -
  obtain u where u: "us_EmailHash u = Some h" "idb_users (ist_db st') = idb_users (ist_db st) @ [u]"
  proof -
    have *: "\<exists>enc pw nm loc db1 u r s. CreateEmailUser (ie_now env) h enc pw nm loc (ist_db st) = (Inr u, db1) \<and>
       sendEmailVerification env (us_ID u) (ri_Email inp) s = (r, st') \<and> ist_db s = db1"
      using assms(1,2) by (auto simp: Register_def email_free_def run_defs Let_def split: if_splits option.splits sum.splits prod.splits) fastforce+
    then show ?thesis using that CreateEmailUser_ok sendEmailVerification_users by metis
  qed
  have none: "FindUserByEmailHash (ist_db st') h' = Inl ErrUserNotFound"
    using assms(5,6) u by (auto simp: FindUserByEmailHash_def find_None_iff find_None_iff2 split: option.splits)
  have some: "\<exists>v. FindUserByEmailHash (ist_db st') h = Inr v"
    using u by (auto simp: FindUserByEmailHash_def find_None_iff2 split: option.splits)
  have "VerifyEmail e spelt code st' = (Inl ErrEmailTokenInvalid, st')"
    using assms(3,4,7,8) none by (simp add: VerifyEmail_def run_defs)
  moreover have "LoginEmail e spelt pw st' = (Inl ErrInvalidCredentials, st')"
    using assms(3,4,7,8) none by (simp add: LoginEmail_def run_defs)
  moreover have "Register e inp' st' = (Inl ErrEmailAlreadyExists, st')"
    using assms(2,3,7,9) some by (auto simp: Register_def email_free_def run_defs Let_def)
  ultimately show ?thesis by blast
qed

section \<open>The second factor of a deleted account\<close>

lemma user_exists_ids: "user_exists i db \<longleftrightarrow> i \<in> us_ID ` set (idb_users db)"
  by (auto simp: user_exists_def find_None_iff2)

text \<open>The deletion of an account ends its sessions, but a challenge that is open still opens a new one.\<close>

lemma deleted_user_logs_in:
  assumes "DeleteMe env i st = (Inr (), st1)" "FindMFAChallenge (ist_db st) (hashToken e challenge) = Inr c" "mfc_UserID c = i"
    "\<not> mfc_ExpiresAt c < ie_now e" "ie_compare e (mfc_CodeHash c) code" "user_exists i (ist_db st)" "\<forall>n. ie_ok e n" "ie_access e i = Some acc"
    "ie_sha e (ie_raw e) \<notin> rt_TokenHash ` set (tokens st)"
  shows "\<exists>pair st2. VerifyMFAChallenge e challenge code st1 = (Inr pair, st2)"
proof -
  have d: "ist_db st1 = revoke_where (ie_now env) ''admin'' (\<lambda>t. rt_UserID t = i)
      (update_user (ie_now env) i (\<lambda>u. u\<lparr>us_Status := StatusDeleted, us_DeletedAt := Some (ie_now env)\<rparr>) (ist_db st))"
    using assms(1) by (auto simp: DeleteMe_def writes_def SoftDeleteWithRevoke_def split: if_splits)
  define st2 where "st2 = snd (ignore (writes e ''MarkMFAChallengeVerified'' (MarkMFAChallengeVerified (ie_now e) (mfc_ID c))) st1)"
  have "VerifyMFAChallenge e challenge code st1 = issueTokensForUser e i st2"
    using assms(2-5,7) d by (simp add: VerifyMFAChallenge_def run_defs FindMFAChallenge_def revoke_where_def update_user_def st2_def)
  moreover have "user_exists i (ist_db st2)"
    using assms(6) d by (simp add: st2_def ignore_def writes_def MarkMFAChallengeVerified_def revoke_where_def update_user_def user_exists_ids map_update_where
        flip: set_map)
  moreover have "rt_TokenHash ` set (tokens st2) = rt_TokenHash ` set (tokens st)"
    using d by (simp add: st2_def ignore_def writes_def MarkMFAChallengeVerified_def revoke_where_def update_user_def tokens_def revoked_rows)
  ultimately show ?thesis using issueTokens_ok [of e i acc st2] assms(7-9) by auto
qed

section \<open>The address book\<close>

lemma encryptAddressInput_pure: "\<exists>r. \<forall>s. encryptAddressInput env inp s = (r, s)"
  unfolding encryptAddressInput_def
  by (cases "ie_encrypt env (ain_Name inp)"; cases "ie_encrypt env (ain_Phone inp)"; cases "ie_encrypt env (ain_FullAddress inp)";
      cases "ie_encrypt env (ain_Neighborhood inp)"; simp add: run_defs)

lemma encryptAddressInput_row:
  assumes "encryptAddressInput env inp s = (Inr row, s)" "\<forall>p c. ie_encrypt env p = Some c \<longrightarrow> ie_decrypt env c = Some p \<and> c \<noteq> []"
  shows "ie_decrypt env (arw_NameEnc row) = Some (ain_Name inp) \<and> ie_decrypt env (arw_PhoneEnc row) = Some (ain_Phone inp) \<and>
    ie_decrypt env (arw_FullAddressEnc row) = Some (ain_FullAddress inp) \<and> ie_decrypt env (arw_NeighborhoodEnc row) = Some (ain_Neighborhood inp) \<and>
    arw_NeighborhoodEnc row \<noteq> [] \<and> arw_Label row = ain_Label inp \<and> arw_District row = ain_District inp \<and> arw_City row = ain_City inp \<and>
    arw_PostalCode row = ain_PostalCode inp \<and> arw_IsDefault row = ain_IsDefault inp"
proof -
  obtain n p f h where e: "ie_encrypt env (ain_Name inp) = Some n" "ie_encrypt env (ain_Phone inp) = Some p"
    "ie_encrypt env (ain_FullAddress inp) = Some f" "ie_encrypt env (ain_Neighborhood inp) = Some h"
    "row = \<lparr>arw_Label = ain_Label inp, arw_NameEnc = n, arw_PhoneEnc = p, arw_FullAddressEnc = f, arw_NeighborhoodEnc = h,
       arw_District = ain_District inp, arw_City = ain_City inp, arw_PostalCode = ain_PostalCode inp, arw_IsDefault = ain_IsDefault inp\<rparr>"
    using assms(1) by (auto simp: encryptAddressInput_def run_defs split: option.splits)
  then show ?thesis using assms(2) by simp
qed

text \<open>
  Addresses round trip. What is decrypted is what was encrypted, so an address that is created is read back with the fields that were
  given; and every other address of the user is no longer the default if the new one is.
\<close>

theorem address_roundtrip:
  assumes "\<forall>p c. ie_encrypt env p = Some c \<longrightarrow> ie_decrypt env c = Some p \<and> c \<noteq> []" "\<forall>n. ie_ok env n"
    "\<forall>a \<in> set (idb_addresses (ist_db st)). adr_ID a < idb_address_next (ist_db st)" "CreateAddress env userID inp st = (Inr a, st')"
  shows "GetAddress env userID (adr_ID a) st' = (Inr a, st') \<and>
    adr_Label a = ain_Label inp \<and> adr_Name a = ain_Name inp \<and> adr_Phone a = ain_Phone inp \<and> adr_FullAddress a = ain_FullAddress inp \<and>
    adr_Neighborhood a = ain_Neighborhood inp \<and> adr_District a = ain_District inp \<and> adr_City a = ain_City inp \<and>
    adr_PostalCode a = ain_PostalCode inp \<and> adr_IsDefault a = ain_IsDefault inp \<and>
    (ain_IsDefault inp \<longrightarrow> (\<forall>x \<in> set (idb_addresses (ist_db st')). adr_UserID x = userID \<and> adr_IsDefault x \<longrightarrow> adr_ID x = adr_ID a))"
proof -
  obtain row where row: "encryptAddressInput env inp s = (Inr row, s)" for s
  proof -
    obtain r where r: "\<forall>s. encryptAddressInput env inp s = (r, s)" using encryptAddressInput_pure by blast
    then show ?thesis using assms(4) that by (cases r) (auto simp: CreateAddress_def andThen_def require_def fail_def give_def split: if_splits)
  qed
  note enc = encryptAddressInput_row [OF row assms(1)]
  define st1 where "st1 = snd (clear_defaults env userID (ain_IsDefault inp) st)"
  have clear: "clear_defaults env userID (ain_IsDefault inp) st = (Inr (), st1)"
    using assms(2) by (simp add: st1_def clear_defaults_def writes_def ClearDefaultAddresses_def give_def)
  have db1: "ist_db st1 = (if ain_IsDefault inp then snd (ClearDefaultAddresses userID (ist_db st)) else ist_db st)"
    using assms(2) by (simp add: st1_def clear_defaults_def writes_def ClearDefaultAddresses_def give_def)
  have next1: "idb_address_next (ist_db st1) = idb_address_next (ist_db st)"
    and ids1: "map adr_ID (idb_addresses (ist_db st1)) = map adr_ID (idb_addresses (ist_db st))"
    by (simp_all add: db1 ClearDefaultAddresses_def map_update_where)
  have clear1: "ain_IsDefault inp \<Longrightarrow> \<forall>x \<in> set (idb_addresses (ist_db st1)). adr_UserID x = userID \<longrightarrow> \<not> adr_IsDefault x"
  proof (intro ballI impI)
    fix x
    assume d: "ain_IsDefault inp" and x: "x \<in> set (idb_addresses (ist_db st1))" "adr_UserID x = userID"
    have "x \<in> set (update_where (\<lambda>a. adr_UserID a = userID) (\<lambda>a. a\<lparr>adr_IsDefault := False\<rparr>) (idb_addresses (ist_db st)))"
      using d x(1) by (simp add: db1 ClearDefaultAddresses_def)
    then obtain y where "x = (if adr_UserID y = userID then y\<lparr>adr_IsDefault := False\<rparr> else y)" unfolding set_update_where by (rule imageE)
    then show "\<not> adr_IsDefault x" using x(2) by (simp split: if_splits)
  qed
  have ins: "andThen (writes env ''InsertAddress'' (InsertAddress (ie_now env) userID row)) (decryptAddress env) st1 = (Inr a, st')"
  proof -
    have "CreateAddress env userID inp st = andThen (writes env ''InsertAddress'' (InsertAddress (ie_now env) userID row)) (decryptAddress env) st1"
      if "require (ain_Phone inp = [] \<or> e164Regexp (ain_Phone inp)) ErrAddressInvalidPhone st = (Inr (), st)"
      unfolding CreateAddress_def by (simp add: andThen_Inr that row clear)
    then show ?thesis using assms(4) by (auto simp: CreateAddress_def andThen_def require_def fail_def give_def split: if_splits)
  qed
  define a0 where "a0 = set_address (ie_now env) row \<lparr>adr_ID = idb_address_next (ist_db st1), adr_UserID = userID, adr_Label = [], adr_Name = [],
    adr_Phone = [], adr_FullAddress = [], adr_Neighborhood = [], adr_District = [], adr_City = [], adr_PostalCode = [], adr_IsDefault = False,
    adr_CreatedAt = ie_now env, adr_UpdatedAt = ie_now env\<rparr>"
  have dec: "decryptAddress env a0 s = (Inr (a0\<lparr>adr_Name := ain_Name inp, adr_Phone := ain_Phone inp, adr_FullAddress := ain_FullAddress inp,
      adr_Neighborhood := ain_Neighborhood inp\<rparr>), s)" for s
    using enc by (simp add: decryptAddress_def run_defs a0_def set_address_def)
  have a: "a = a0\<lparr>adr_Name := ain_Name inp, adr_Phone := ain_Phone inp, adr_FullAddress := ain_FullAddress inp, adr_Neighborhood := ain_Neighborhood inp\<rparr>"
    and st': "idb_addresses (ist_db st') = idb_addresses (ist_db st1) @ [a0]"
    using ins dec by (auto simp: andThen_def writes_def InsertAddress_def a0_def [symmetric] Let_def split: if_splits)
  have id: "adr_ID a = adr_ID a0" "adr_ID a0 = idb_address_next (ist_db st1)" "adr_UserID a0 = userID" by (simp_all add: a a0_def set_address_def)
  have "adr_ID x < adr_ID a0" if "x \<in> set (idb_addresses (ist_db st1))" for x
  proof -
    have "adr_ID x \<in> set (map adr_ID (idb_addresses (ist_db st)))" using that ids1 [symmetric] by simp
    then show ?thesis using assms(3) id(2) next1 by auto
  qed
  then have "List.find (own_address userID (adr_ID a0)) (idb_addresses (ist_db st1)) = None"
    by (force simp: find_None_iff2 own_address_def)
  then have "List.find (own_address userID (adr_ID a)) (idb_addresses (ist_db st')) = Some a0"
    by (simp add: st' id find_append own_address_def)
  then have get: "GetAddress env userID (adr_ID a) st' = (Inr a, st')"
    using assms(2) dec [of st'] by (simp add: GetAddress_def andThen_def reads_def repo_GetAddress_def flip: a)
  moreover have "ain_IsDefault inp \<Longrightarrow> x \<in> set (idb_addresses (ist_db st')) \<Longrightarrow> adr_UserID x = userID \<Longrightarrow> adr_IsDefault x \<Longrightarrow> adr_ID x = adr_ID a" for x
    using clear1 st' id(1) by auto
  ultimately show ?thesis using enc by (simp add: a a0_def set_address_def)
qed

text \<open>The deployed tables, a live token and a reset that is open.\<close>

theorem password_reset_keeps_sessions_witness:
  "let st = sample_state sample_user [sample_token 1 ''r1'' None] in
   fst (ResetPassword (sample_env 5 ''1'') ''reset'' ''N3wSecret!'' st) = Inr () \<and>
   tokens (snd (ResetPassword (sample_env 5 ''1'') ''reset'' ''N3wSecret!'' st)) = tokens st"
proof -
  let ?st = "sample_state sample_user [sample_token 1 ''r1'' None]"
  have v: "validatePassword ''N3wSecret!''" by code_simp
  obtain st' where r: "ResetPassword (sample_env 5 ''1'') ''reset'' ''N3wSecret!'' ?st = (Inr (), st')"
    by (simp add: ResetPassword_def run_defs v sample_defs FindPasswordReset_def GetUser_def passwordResetTTL_def minutes_def ns_per_sec_def
        SetPasswordHash_def MarkPasswordResetUsed_def revoke_all_def update_user_def RevokeAllUserTokens_def revoked_reasons_def)
  have f: "FindPasswordReset (ist_db ?st) (hashToken (sample_env 5 ''1'') ''reset'') =
      Inr \<lparr>pwr_ID = 1, pwr_UserID = 1, pwr_TokenHash = ''reset'', pwr_ExpiresAt = passwordResetTTL, pwr_UsedAt = None, pwr_CreatedAt = 0\<rparr>"
    by (simp add: FindPasswordReset_def sample_state_def hashToken_def sample_env_def)
  have "tokens st' = tokens ?st"
    using password_reset_keeps_sessions [OF _ r f, of "sample_token 1 ''r1'' None"] by (simp add: sample_env_def sample_token_def sample_state_def tokens_def)
  then show ?thesis using r by (simp add: Let_def)
qed

theorem mixed_case_account_lost_witness:
  "let inp = \<lparr>ri_Email = ''Ada@b.co'', ri_Password = ''Passw0rd!'', ri_NameFirst = ''Ada'', ri_NameLast = [], ri_Locale = []\<rparr>;
       st = snd (Register (sample_env 5 ''1'') inp (sample_state sample_user [])) in
   LoginEmail (sample_env 6 ''2'') ''Ada@b.co'' ''Passw0rd!'' st = (Inl ErrInvalidCredentials, st)"
proof -
  let ?inp = "\<lparr>ri_Email = ''Ada@b.co'', ri_Password = ''Passw0rd!'', ri_NameFirst = ''Ada'', ri_NameLast = [], ri_Locale = []\<rparr>"
  have v: "validateEmail ''Ada@b.co''" "validatePassword ''Passw0rd!''" "\<not> validateLocale []" "normal_email ''Ada@b.co'' = ''ada@b.co''"
    by code_simp+
  obtain st' where r: "Register (sample_env 5 ''1'') ?inp (sample_state sample_user []) = (Inr (), st')"
    by (simp add: Register_def run_defs v email_free_def sample_defs FindUserByEmailHash_def CreateEmailUser_def sendEmailVerification_def
        generateVerificationCode_def CreateEmailVerification_def send_mail_def user_exists_def blank_user_def Let_def)
  show ?thesis
    using mixed_case_account_lost [OF r, of "''Ada@b.co''" "sample_env 6 ''2''" "''ada@b.co''" "''Ada@b.co''" ?inp] r
    by (simp add: Let_def v sample_defs FindUserByEmailHash_def)
qed

theorem address_roundtrip_witness:
  "let env = (sample_env 5 ''1'')\<lparr>ie_encrypt := (\<lambda>s. Some (CHR ''x'' # s)), ie_decrypt := (\<lambda>s. Some (tl s))\<rparr>;
       inp = \<lparr>ain_Label = ''home'', ain_Name = ''Ada'', ain_Phone = [], ain_FullAddress = ''Main St 1'', ain_Neighborhood = [], ain_District = ''D'',
              ain_City = ''C'', ain_PostalCode = ''34000'', ain_IsDefault = True\<rparr>;
       (r, st') = CreateAddress env 1 inp (sample_state sample_user []) in
   GetAddress env 1 1 st' = (r, st') \<and> map_sum id adr_FullAddress r = Inr ''Main St 1''"
proof -
  let ?env = "(sample_env 5 ''1'')\<lparr>ie_encrypt := (\<lambda>s. Some (CHR ''x'' # s)), ie_decrypt := (\<lambda>s. Some (tl s))\<rparr>"
  let ?inp = "\<lparr>ain_Label = ''home'', ain_Name = ''Ada'', ain_Phone = [], ain_FullAddress = ''Main St 1'', ain_Neighborhood = [], ain_District = ''D'',
              ain_City = ''C'', ain_PostalCode = ''34000'', ain_IsDefault = True\<rparr>"
  obtain a st' where r: "CreateAddress ?env 1 ?inp (sample_state sample_user []) = (Inr a, st')" and i: "adr_ID a = 1"
    by (simp add: CreateAddress_def run_defs encryptAddressInput_def clear_defaults_def ClearDefaultAddresses_def InsertAddress_def decryptAddress_def
        sample_defs user_exists_def set_address_def Let_def)
  show ?thesis
    using address_roundtrip [OF _ _ _ r] i r by (simp add: sample_env_def sample_state_def Let_def)
qed

end
