(* ===== verification/Idempotency.thy ===== *)
theory Idempotency
  imports Calendar
begin

text \<open>
  Deduplication of HTTP requests and authentication: \<^verbatim>\<open>internal/idempotency\<close>, \<^verbatim>\<open>internal/identity/middleware/auth.go\<close> and the way
  \<^verbatim>\<open>cmd/core-svc/main.go\<close> puts them together. A route of the service is a handler that may panic and changes a world of its own. The entry
  of a key in Redis is the marker of a request in flight or the response of a finished one (as a value, not as its JSON text).
\<close>

section \<open>Requests and responses\<close>

record http_request =
  rq_Header :: "string \<Rightarrow> string"
  rq_Path :: string
  rq_Body :: string

record http_response =
  hr_Status :: int
  hr_Headers :: "(string \<times> string) list"
  hr_Body :: string

text \<open>The user in the context of a request, if one was put there.\<close>

type_synonym http_context = "int option"

text \<open>The response, or none when the handler panics, and the new world.\<close>

type_synonym 'w handler = "http_request \<Rightarrow> http_context \<Rightarrow> 'w \<Rightarrow> http_response option \<times> 'w"

definition header_of :: "http_response \<Rightarrow> string \<Rightarrow> string" where
  "header_of r name = (case map_of (hr_Headers r) name of None \<Rightarrow> [] | Some v \<Rightarrow> v)"

definition http_Error :: "int \<Rightarrow> string \<Rightarrow> http_response" where
  "http_Error status msg = \<lparr>hr_Status = status, hr_Headers = [(''Content-Type'', ''text/plain; charset=utf-8'')], hr_Body = msg @ [CHR 0x0A]\<rparr>"

section \<open>Authentication\<close>

record claims =
  cl_UserID :: int
  cl_Scope :: string

definition ScopeAPI :: string where
  "ScopeAPI = ''api''"

definition UserIDFromCtx :: "http_context \<Rightarrow> int" where
  "UserIDFromCtx ctx = (case ctx of Some v \<Rightarrow> v | None \<Rightarrow> 0)"

definition bearer_prefix :: string where
  "bearer_prefix = ''Bearer ''"

definition bearerToken :: "http_request \<Rightarrow> string" where
  "bearerToken r =
     (let h = rq_Header r ''Authorization'' in
      if take (length bearer_prefix) h = bearer_prefix then drop (length bearer_prefix) h else [])"

definition RequireAuth :: "(string \<Rightarrow> claims option) \<Rightarrow> 'w handler \<Rightarrow> 'w handler" where
  "RequireAuth verify next r ctx w =
     (if bearerToken r = [] then (Some (http_Error 401 ''{\"error\":\"missing_token\"}''), w)
      else
        (case verify (bearerToken r) of
           None \<Rightarrow> (Some (http_Error 401 ''{\"error\":\"invalid_token\"}''), w)
         | Some c \<Rightarrow>
             if cl_Scope c \<noteq> ScopeAPI then (Some (http_Error 401 ''{\"error\":\"wrong_scope\"}''), w)
             else next r (Some (cl_UserID c)) w))"

definition OptionalAuth :: "(string \<Rightarrow> claims option) \<Rightarrow> 'w handler \<Rightarrow> 'w handler" where
  "OptionalAuth verify next r ctx w =
     (if bearerToken r = [] then next r ctx w
      else
        (case verify (bearerToken r) of
           None \<Rightarrow> next r ctx w
         | Some c \<Rightarrow> if cl_Scope c \<noteq> ScopeAPI then next r ctx w else next r (Some (cl_UserID c)) w))"

section \<open>Store\<close>

record cached_response =
  cr_Status :: int
  cr_ContentType :: string
  cr_Body :: string

datatype idem_entry = InFlight | Completed cached_response

text \<open>Entries with the time they expire.\<close>

type_synonym idem_store = "string \<Rightarrow> (idem_entry \<times> instant) option"

datatype idem_error = ErrInFlight | IdemStore | IdemCancelled

definition idem_Key :: "int \<Rightarrow> string \<Rightarrow> string" where
  "idem_Key userID k = ''idem:'' @ itoa userID @ '':'' @ k"

definition millis :: "int \<Rightarrow> int" where
  "millis n = n * 10 ^ 6"

definition defaultTTL :: int where "defaultTTL = 24 * 60 * 60 * ns_per_sec"
definition pollMaxDuration :: int where "pollMaxDuration = 3 * ns_per_sec"
definition pollInitialWait :: int where "pollInitialWait = millis 50"
definition pollMaxInterval :: int where "pollMaxInterval = millis 1000"

definition entry_at :: "instant \<Rightarrow> string \<Rightarrow> idem_store \<Rightarrow> idem_entry option" where
  "entry_at now key s = (case s key of Some (e, t) \<Rightarrow> if now < t then Some e else None | None \<Rightarrow> None)"

definition Acquire :: "bool \<Rightarrow> instant \<Rightarrow> string \<Rightarrow> idem_store \<Rightarrow> (idem_error + bool) \<times> idem_store" where
  "Acquire redis now key s =
     (if \<not> redis then (Inl IdemStore, s)
      else if entry_at now key s \<noteq> None then (Inr False, s)
      else (Inr True, s(key \<mapsto> (InFlight, now + defaultTTL))))"

definition Load :: "bool \<Rightarrow> instant \<Rightarrow> string \<Rightarrow> idem_store \<Rightarrow> idem_error + cached_response option" where
  "Load redis now key s =
     (if \<not> redis then Inl IdemStore
      else Inr (case entry_at now key s of Some (Completed cr) \<Rightarrow> Some cr | _ \<Rightarrow> None))"

definition Save :: "bool \<Rightarrow> instant \<Rightarrow> string \<Rightarrow> cached_response \<Rightarrow> idem_store \<Rightarrow> idem_store" where
  "Save redis now key cr s = (if redis then s(key \<mapsto> (Completed cr, now + defaultTTL)) else s)"

definition idem_Release :: "bool \<Rightarrow> string \<Rightarrow> idem_store \<Rightarrow> idem_store" where
  "idem_Release redis key s = (if redis then s(key := None) else s)"

text \<open>
  What a waiting request sees after each pause: whether it was cancelled, whether Redis answers, the clock and the store. Without a further
  observation it is still waiting (\<open>None\<close>).
\<close>

type_synonym observation = "bool \<times> bool \<times> instant \<times> idem_store"

fun poll_loop :: "instant \<Rightarrow> string \<Rightarrow> observation list \<Rightarrow> (idem_error + cached_response) option" where
  "poll_loop deadline key [] = None"
| "poll_loop deadline key ((cancelled, redis, now, s) # rest) =
     (if cancelled then Some (Inl IdemCancelled)
      else
        (case Load redis now key s of
           Inl e \<Rightarrow> Some (Inl e)
         | Inr (Some cr) \<Rightarrow> Some (Inr cr)
         | Inr None \<Rightarrow> if deadline < now then Some (Inl ErrInFlight) else poll_loop deadline key rest))"

definition Poll :: "instant \<Rightarrow> string \<Rightarrow> observation list \<Rightarrow> (idem_error + cached_response) option" where
  "Poll start key obs = poll_loop (start + pollMaxDuration) key obs"

text \<open>Observations are at least the pauses apart: 50 ms, then twice as long each time, up to a second.\<close>

fun paced :: "instant \<Rightarrow> int \<Rightarrow> observation list \<Rightarrow> bool" where
  "paced t wait [] \<longleftrightarrow> True"
| "paced t wait ((_, _, now, _) # rest) \<longleftrightarrow> t + wait \<le> now \<and> paced now (min (wait * 2) pollMaxInterval) rest"

section \<open>Middleware\<close>

text \<open>
  What the environment decides for one request: the clock when it arrives and when its response is stored, which Redis commands succeed (\<^verbatim>\<open>Save\<close>
  runs under the context of the request, so it also fails when the client has gone), what it sees while it waits.
\<close>

record idem_env =
  im_now :: instant
  im_later :: instant
  im_acquire :: bool
  im_save :: bool
  im_release :: bool
  im_polls :: "observation list"

definition recorded :: "http_response \<Rightarrow> cached_response" where
  "recorded resp = \<lparr>cr_Status = hr_Status resp, cr_ContentType = header_of resp ''Content-Type'', cr_Body = hr_Body resp\<rparr>"

definition replay :: "cached_response \<Rightarrow> http_response" where
  "replay cr =
     \<lparr>hr_Status = cr_Status cr,
      hr_Headers = (if cr_ContentType cr \<noteq> [] then [(''Content-Type'', cr_ContentType cr)] else []) @ [(''X-Idempotent-Replay'', ''true'')],
      hr_Body = cr_Body cr\<rparr>"

definition in_progress :: http_response where
  "in_progress = http_Error 409 ''{\"error\":\"idempotent_request_in_progress\"}''"

definition store_unavailable :: http_response where
  "store_unavailable = http_Error 503 ''{\"error\":\"idempotent_store_unavailable\"}''"

definition replayOrWait :: "instant \<Rightarrow> string \<Rightarrow> observation list \<Rightarrow> http_response option" where
  "replayOrWait start key obs =
     map_option (\<lambda>r. case r of Inl e \<Rightarrow> if e = ErrInFlight then in_progress else store_unavailable | Inr cr \<Rightarrow> replay cr) (Poll start key obs)"

definition Wrap :: "idem_env \<Rightarrow> (http_context \<Rightarrow> int) \<Rightarrow> 'w handler \<Rightarrow> http_request \<Rightarrow> http_context \<Rightarrow> idem_store \<times> 'w \<Rightarrow>
    http_response option \<times> idem_store \<times> 'w" where
  "Wrap env extractID next r ctx st =
     (let idemKey = rq_Header r ''Idempotency-Key''; (s, w) = st; key = idem_Key (extractID ctx) idemKey in
      if idemKey = [] then (let (resp, w') = next r ctx w in (resp, s, w'))
      else
        (case Acquire (im_acquire env) (im_now env) key s of
           (Inl _, _) \<Rightarrow> (let (resp, w') = next r ctx w in (resp, s, w'))
         | (Inr acquired, s1) \<Rightarrow>
             if \<not> acquired then (replayOrWait (im_now env) key (im_polls env), s1, w)
             else
               (case next r ctx w of
                  (None, w') \<Rightarrow> (None, idem_Release (im_release env) key s1, w')
                | (Some resp, w') \<Rightarrow> (Some resp, Save (im_save env) (im_later env) key (recorded resp) s1, w'))))"

text \<open>The server: the middleware wraps the whole multiplexer, so it sees the context of a request before any route has put a user into it.\<close>

definition core_server :: "idem_env \<Rightarrow> 'w handler \<Rightarrow> http_request \<Rightarrow> idem_store \<times> 'w \<Rightarrow> http_response option \<times> idem_store \<times> 'w" where
  "core_server env mux r st = Wrap env UserIDFromCtx mux r None st"

section \<open>Waiting ends\<close>

lemma poll_loop_late:
  assumes "d < now"
  shows "poll_loop d key (pre @ (c, redis, now, s) # rest) \<noteq> None"
proof (induction pre)
  case Nil
  then show ?case using assms by (simp split: sum.split option.split)
next
  case (Cons o' pre)
  obtain c' r' n' s' where "o' = (c', r', n', s')" by (cases o')
  then show ?case using Cons by (auto split: sum.split option.split)
qed

text \<open>
  Seven looks at the store are enough: the pauses before the seventh add up to 3.55 seconds, more than the three that are allowed.
\<close>

lemma Poll_returns:
  assumes "paced start pollInitialWait obs" "7 \<le> length obs"
  shows "Poll start key obs \<noteq> None"
proof -
  obtain a b c d e f g rest where o: "obs = a # b # c # d # e # f # g # rest"
    using assms(2) by (auto simp: numeral_eq_Suc Suc_le_length_iff)
  obtain c7 r7 n7 s7 where g: "g = (c7, r7, n7, s7)" by (cases g)
  have "start + pollMaxDuration < n7"
    using assms(1) unfolding o g
    by (cases a, cases b, cases c, cases d, cases e, cases f)
      (simp add: pollInitialWait_def pollMaxInterval_def pollMaxDuration_def millis_def ns_per_sec_def)
  from poll_loop_late [OF this, of key "[a, b, c, d, e, f]" c7 r7 s7 rest] show ?thesis by (simp add: Poll_def o g)
qed

section \<open>Interleavings\<close>

text \<open>
  The requests of one server, each in some phase, over one store; \<open>key i\<close> is the key of request \<open>i\<close> in Redis. \<open>hs_log\<close> records every handler that
  ran to its end under a key. Handlers answer what they like, and any number of them run at the same time.
\<close>

datatype reply = Answered http_response | Replayed cached_response | Refused int | Panicked

datatype phase = Arrived | Running | Waiting instant | Done reply

record http_state =
  hs_now :: instant
  hs_store :: idem_store
  hs_phase :: "nat \<Rightarrow> phase"
  hs_log :: "(string \<times> http_response) list"

definition go_on :: "http_state \<Rightarrow> nat \<Rightarrow> phase \<Rightarrow> idem_store \<Rightarrow> http_state" where
  "go_on h i ph s = h\<lparr>hs_phase := (hs_phase h)(i := ph), hs_store := s\<rparr>"

inductive http_step :: "(nat \<Rightarrow> string) \<Rightarrow> http_state \<Rightarrow> http_state \<Rightarrow> bool" for key where
  clock: "hs_now h \<le> t \<Longrightarrow> http_step key h (h\<lparr>hs_now := t\<rparr>)"
| acquired: "hs_phase h i = Arrived \<Longrightarrow> Acquire True (hs_now h) (key i) (hs_store h) = (Inr True, s) \<Longrightarrow> http_step key h (go_on h i Running s)"
| blocked: "hs_phase h i = Arrived \<Longrightarrow> Acquire True (hs_now h) (key i) (hs_store h) = (Inr False, s) \<Longrightarrow>
    http_step key h (go_on h i (Waiting (hs_now h + pollMaxDuration)) s)"
| answered: "hs_phase h i = Running \<Longrightarrow>
    http_step key h (go_on (h\<lparr>hs_log := hs_log h @ [(key i, resp)]\<rparr>) i (Done (Answered resp)) (Save saved (hs_now h) (key i) (recorded resp) (hs_store h)))"
| panicked: "hs_phase h i = Running \<Longrightarrow> http_step key h (go_on h i (Done Panicked) (idem_Release released (key i) (hs_store h)))"
| replayed: "hs_phase h i = Waiting d \<Longrightarrow> Load redis (hs_now h) (key i) (hs_store h) = Inr (Some cr) \<Longrightarrow>
    http_step key h (go_on h i (Done (Replayed cr)) (hs_store h))"
| timed_out: "hs_phase h i = Waiting d \<Longrightarrow> Load redis (hs_now h) (key i) (hs_store h) = Inr None \<Longrightarrow> d < hs_now h \<Longrightarrow>
    http_step key h (go_on h i (Done (Refused 409)) (hs_store h))"
| unavailable: "hs_phase h i = Waiting d \<Longrightarrow> http_step key h (go_on h i (Done (Refused 503)) (hs_store h))"

text \<open>What is true of a key before any of its entries has expired.\<close>

definition runs_of :: "(nat \<Rightarrow> string) \<Rightarrow> http_state \<Rightarrow> string \<Rightarrow> nat set" where
  "runs_of key h k = {i. key i = k \<and> hs_phase h i = Running}"

definition answers_of :: "http_state \<Rightarrow> string \<Rightarrow> http_response list" where
  "answers_of h k = map snd (filter (\<lambda>e. fst e = k) (hs_log h))"

definition key_ok :: "instant \<Rightarrow> (nat \<Rightarrow> string) \<Rightarrow> http_state \<Rightarrow> string \<Rightarrow> bool" where
  "key_ok t0 key h k \<longleftrightarrow>
     (case hs_store h k of
        None \<Rightarrow> runs_of key h k = {} \<and> answers_of h k = []
      | Some (InFlight, t) \<Rightarrow> t0 + defaultTTL \<le> t \<and> (runs_of key h k = {} \<and> length (answers_of h k) \<le> 1 \<or> (\<exists>i. runs_of key h k = {i}) \<and> answers_of h k = [])
      | Some (Completed cr, t) \<Rightarrow> t0 + defaultTTL \<le> t \<and> runs_of key h k = {} \<and> (\<exists>resp. answers_of h k = [resp] \<and> cr = recorded resp))"

definition replies_ok :: "(nat \<Rightarrow> string) \<Rightarrow> http_state \<Rightarrow> bool" where
  "replies_ok key h \<longleftrightarrow>
     (\<forall>i cr. hs_phase h i = Done (Replayed cr) \<longrightarrow> (\<exists>resp \<in> set (answers_of h (key i)). cr = recorded resp)) \<and>
     (\<forall>i resp. hs_phase h i = Done (Answered resp) \<longrightarrow> resp \<in> set (answers_of h (key i)))"

definition http_ok :: "instant \<Rightarrow> (nat \<Rightarrow> string) \<Rightarrow> http_state \<Rightarrow> bool" where
  "http_ok t0 key h \<longleftrightarrow> t0 \<le> hs_now h \<and> (\<forall>k. key_ok t0 key h k) \<and> replies_ok key h"

lemma go_on_simps [simp]:
  "hs_now (go_on h i ph s) = hs_now h" "hs_store (go_on h i ph s) = s" "hs_log (go_on h i ph s) = hs_log h"
  "hs_phase (go_on h i ph s) = (hs_phase h)(i := ph)" "answers_of (go_on h i ph s) k = answers_of h k"
  by (simp_all add: go_on_def answers_of_def)

lemma answers_log [simp]:
  "answers_of (h\<lparr>hs_log := hs_log h @ [(k', resp)]\<rparr>) k = answers_of h k @ (if k' = k then [resp] else [])"
  by (simp add: answers_of_def)

lemma runs_of_go_on:
  "runs_of key (go_on h i ph s) k =
     (if key i = k \<and> ph = Running then insert i (runs_of key h k) else runs_of key h k - {i})"
  by (auto simp: runs_of_def)

lemma clock_simps [simp]:
  "answers_of (h\<lparr>hs_now := t\<rparr>) k = answers_of h k" "runs_of key (h\<lparr>hs_now := t\<rparr>) k = runs_of key h k"
  by (simp_all add: answers_of_def runs_of_def)

lemma runs_of_log [simp]: "runs_of key (h\<lparr>hs_log := l\<rparr>) k = runs_of key h k"
  by (simp add: runs_of_def)

lemma key_ok_same:
  "key_ok t0 key h k \<Longrightarrow> hs_store h' k = hs_store h k \<Longrightarrow> runs_of key h' k = runs_of key h k \<Longrightarrow> answers_of h' k = answers_of h k \<Longrightarrow>
   key_ok t0 key h' k"
  by (auto simp: key_ok_def split: option.splits prod.splits idem_entry.splits)

lemma key_ok_other:
  assumes "key_ok t0 key h k" "key i \<noteq> k" "s k = hs_store h k"
  shows "key_ok t0 key (go_on h i ph s) k" "key_ok t0 key (go_on (h\<lparr>hs_log := hs_log h @ [(key i, resp)]\<rparr>) i ph s) k"
proof -
  have "i \<notin> runs_of key h k" using assms(2) by (simp add: runs_of_def)
  then have r: "runs_of key (go_on h' i ph s) k = runs_of key h k" if "runs_of key h' k = runs_of key h k" for h'
    using assms(2) that by (simp add: runs_of_go_on)
  show "key_ok t0 key (go_on h i ph s) k" "key_ok t0 key (go_on (h\<lparr>hs_log := hs_log h @ [(key i, resp)]\<rparr>) i ph s) k"
    using assms by (auto intro!: key_ok_same [OF assms(1)] r)
qed

text \<open>A request that does not run changes nothing for its key either.\<close>

lemma key_ok_idle:
  assumes "key_ok t0 key h k" "hs_phase h i \<noteq> Running" "ph \<noteq> Running"
  shows "key_ok t0 key (go_on h i ph (hs_store h)) k"
proof -
  have "runs_of key (go_on h i ph (hs_store h)) k = runs_of key h k" using assms(2,3) by (auto simp: runs_of_def)
  then show ?thesis by (intro key_ok_same [OF assms(1)]) simp_all
qed

lemma running_key:
  assumes "key_ok t0 key h (key i)" "hs_phase h i = Running"
  shows "\<exists>t. hs_store h (key i) = Some (InFlight, t) \<and> t0 + defaultTTL \<le> t \<and> runs_of key h (key i) = {i} \<and> answers_of h (key i) = []"
proof -
  have "i \<in> runs_of key h (key i)" using assms(2) by (simp add: runs_of_def)
  then show ?thesis using assms(1) by (auto simp: key_ok_def split: option.splits prod.splits idem_entry.splits)
qed

lemma key_ok_step:
  assumes "http_step key h h'" "key_ok t0 key h k" "t0 \<le> hs_now h" "hs_now h < t0 + defaultTTL" "\<forall>k. key_ok t0 key h k"
  shows "key_ok t0 key h' k"
  using assms(1)
proof (cases rule: http_step.cases)
  case (clock t)
  then show ?thesis by (intro key_ok_same [OF assms(2)]) simp_all
next
  case (acquired i s)
  then have e: "entry_at (hs_now h) (key i) (hs_store h) = None" and s: "s = (hs_store h)(key i \<mapsto> (InFlight, hs_now h + defaultTTL))"
    by (auto simp: Acquire_def split: if_splits)
  show ?thesis
  proof (cases "key i = k")
    case True
    have "hs_store h k = None"
      using e assms(2,4) True by (auto simp: entry_at_def key_ok_def split: option.splits prod.splits idem_entry.splits if_splits)
    then have "runs_of key h k = {}" "answers_of h k = []" using assms(2) by (simp_all add: key_ok_def)
    then show ?thesis using acquired(1) s True assms(3) by (simp add: key_ok_def runs_of_go_on)
  qed (use acquired(1) s assms(2) key_ok_other in simp)
next
  case (blocked i s)
  then have "s = hs_store h" by (auto simp: Acquire_def split: if_splits)
  then show ?thesis using blocked assms(2) key_ok_idle by simp
next
  case (answered i resp saved)
  show ?thesis
  proof (cases "key i = k")
    case True
    with running_key [OF _ answered(2)] assms(2) obtain t where t: "hs_store h k = Some (InFlight, t)" "t0 + defaultTTL \<le> t"
      "runs_of key h k = {i}" "answers_of h k = []" by blast
    then show ?thesis using answered(1) True assms(3) by (auto simp: key_ok_def runs_of_go_on Save_def)
  qed (use answered(1) assms(2) key_ok_other in \<open>simp add: Save_def\<close>)
next
  case (panicked i released)
  show ?thesis
  proof (cases "key i = k")
    case True
    with running_key [OF _ panicked(2)] assms(2) obtain t where t: "hs_store h k = Some (InFlight, t)" "t0 + defaultTTL \<le> t"
      "runs_of key h k = {i}" "answers_of h k = []" by blast
    then show ?thesis using panicked(1) True by (auto simp: key_ok_def runs_of_go_on idem_Release_def)
  qed (use panicked(1) assms(2) key_ok_other in \<open>simp add: idem_Release_def\<close>)
qed (use assms(2) key_ok_idle in simp_all)

lemma replies_ok_go_on:
  assumes "replies_ok key h" "\<And>k. set (answers_of h k) \<subseteq> set (answers_of h' k)" "hs_phase h' = hs_phase h"
    "\<And>cr. ph = Done (Replayed cr) \<Longrightarrow> \<exists>resp \<in> set (answers_of h' (key i)). cr = recorded resp"
    "\<And>resp. ph = Done (Answered resp) \<Longrightarrow> resp \<in> set (answers_of h' (key i))"
  shows "replies_ok key (go_on h' i ph s)"
proof -
  have "\<exists>resp \<in> set (answers_of h' (key j)). cr = recorded resp" if "((hs_phase h)(i := ph)) j = Done (Replayed cr)" for j cr
    using that assms(1,2,4) by (fastforce simp: replies_ok_def split: if_splits)
  moreover have "resp \<in> set (answers_of h' (key j))" if "((hs_phase h)(i := ph)) j = Done (Answered resp)" for j resp
    using that assms(1,2,5) by (fastforce simp: replies_ok_def split: if_splits)
  ultimately show ?thesis using assms(3) by (simp add: replies_ok_def)
qed

lemma replies_ok_step:
  assumes "http_step key h h'" "replies_ok key h" "\<forall>k. key_ok t0 key h k"
  shows "replies_ok key h'"
  using assms(1)
proof (cases rule: http_step.cases)
  case (clock t)
  then show ?thesis using assms(2) by (simp add: replies_ok_def)
next
  case (replayed i d redis cr)
  then have "entry_at (hs_now h) (key i) (hs_store h) = Some (Completed cr)"
    by (auto simp: Load_def split: if_splits option.splits idem_entry.splits)
  then obtain t where "hs_store h (key i) = Some (Completed cr, t)" by (auto simp: entry_at_def split: option.splits prod.splits if_splits)
  then have "\<exists>resp \<in> set (answers_of h (key i)). cr = recorded resp" using assms(3) [THEN spec, of "key i"] by (auto simp: key_ok_def)
  then show ?thesis unfolding replayed(1) using assms(2) by (intro replies_ok_go_on) simp_all
qed (use assms(2) in \<open>auto intro!: replies_ok_go_on\<close>)

lemma http_run_ok:
  assumes "(http_step key)\<^sup>*\<^sup>* h0 h" "http_ok t0 key h0" "hs_now h < t0 + defaultTTL"
  shows "http_ok t0 key h"
  using assms(1,3)
proof (induction rule: rtranclp_induct)
  case base
  then show ?case using assms(2) by simp
next
  case (step y z)
  have le: "hs_now y \<le> hs_now z" using step(2) by (cases rule: http_step.cases) simp_all
  then have y: "http_ok t0 key y" "hs_now y < t0 + defaultTTL" using step by simp_all
  then show ?case using le key_ok_step [OF step(2)] replies_ok_step [OF step(2)] unfolding http_ok_def by fastforce
qed

section \<open>Properties\<close>

text \<open>
  C21. A keyed request runs once. Start with no entry in Redis; then, within the 24 hours that entries live, however many requests arrive with
  whatever keys, are interleaved, panic, wait or time out, and whether responses can be stored or not: as long as \<^verbatim>\<open>Acquire\<close> gets an answer,
  at most one handler per key runs to its end, no two run at the same time, and whoever is answered under the key
  gets that handler's response or a replay of its status, content type and body.
\<close>

theorem handler_runs_once:
  assumes "(http_step key)\<^sup>*\<^sup>* \<lparr>hs_now = t0, hs_store = (\<lambda>_. None), hs_phase = (\<lambda>_. Arrived), hs_log = []\<rparr> h" "hs_now h < t0 + defaultTTL"
  shows "length (filter (\<lambda>e. fst e = k) (hs_log h)) \<le> 1 \<and>
    (\<forall>i j. key i = key j \<and> hs_phase h i = Running \<and> hs_phase h j = Running \<longrightarrow> i = j) \<and>
    (\<forall>i resp. hs_phase h i = Done (Answered resp) \<longrightarrow> (key i, resp) \<in> set (hs_log h)) \<and>
    (\<forall>i cr. hs_phase h i = Done (Replayed cr) \<longrightarrow> (\<exists>resp. (key i, resp) \<in> set (hs_log h) \<and> cr = recorded resp))"
proof -
  have ok: "http_ok t0 key h"
    by (rule http_run_ok [OF assms(1) _ assms(2)])
      (simp add: http_ok_def key_ok_def runs_of_def answers_of_def replies_ok_def)
  then have "key_ok t0 key h k" by (simp add: http_ok_def)
  then have "length (answers_of h k) \<le> 1" by (auto simp: key_ok_def split: option.splits prod.splits idem_entry.splits)
  moreover have "i = j" if "key i = key j" "hs_phase h i = Running" "hs_phase h j = Running" for i j
    using running_key [of t0 key h i] running_key [of t0 key h j] ok that unfolding http_ok_def by (metis singleton_inject)
  moreover have "(key i, resp) \<in> set (hs_log h)" if "hs_phase h i = Done (Answered resp)" for i resp
  proof -
    have "resp \<in> set (answers_of h (key i))" using ok that by (simp add: http_ok_def replies_ok_def)
    then show ?thesis by (auto simp: answers_of_def)
  qed
  moreover have "\<exists>resp. (key i, resp) \<in> set (hs_log h) \<and> cr = recorded resp" if "hs_phase h i = Done (Replayed cr)" for i cr
  proof -
    have "\<exists>resp \<in> set (answers_of h (key i)). cr = recorded resp" using ok that by (simp add: http_ok_def replies_ok_def)
    then show ?thesis by (auto simp: answers_of_def)
  qed
  ultimately show ?thesis by (auto simp: answers_of_def)
qed

theorem handler_runs_once_witness:
  "let resp = http_Error 200 ''ok'';
       h0 = \<lparr>hs_now = 0, hs_store = (\<lambda>_. None), hs_phase = (\<lambda>_. Arrived), hs_log = []\<rparr>;
       h1 = go_on h0 0 Running [''k'' \<mapsto> (InFlight, defaultTTL)];
       h2 = go_on (h1\<lparr>hs_log := [(''k'', resp)]\<rparr>) 0 (Done (Answered resp)) [''k'' \<mapsto> (Completed (recorded resp), defaultTTL)];
       h3 = go_on h2 1 (Waiting pollMaxDuration) (hs_store h2);
       h4 = go_on h3 1 (Done (Replayed (recorded resp))) (hs_store h3) in
   length (filter (\<lambda>e. fst e = ''k'') (hs_log h4)) \<le> 1 \<and> hs_phase h4 1 = Done (Replayed (recorded resp))"
proof -
  define resp where "resp = http_Error 200 ''ok''"
  define h0 where "h0 = \<lparr>hs_now = 0, hs_store = (\<lambda>_. None), hs_phase = (\<lambda>_. Arrived), hs_log = []\<rparr>"
  define h1 where "h1 = go_on h0 0 Running [''k'' \<mapsto> (InFlight, defaultTTL)]"
  define h2 where "h2 = go_on (h1\<lparr>hs_log := [(''k'', resp)]\<rparr>) 0 (Done (Answered resp)) [''k'' \<mapsto> (Completed (recorded resp), defaultTTL)]"
  define h3 where "h3 = go_on h2 1 (Waiting pollMaxDuration) (hs_store h2)"
  define h4 where "h4 = go_on h3 1 (Done (Replayed (recorded resp))) (hs_store h3)"
  let ?step = "http_step (\<lambda>_. ''k'')"
  have T: "0 < defaultTTL" by (simp add: defaultTTL_def ns_per_sec_def)
  have "?step h0 h1"
    unfolding h1_def by (rule http_step.acquired) (simp_all add: h0_def Acquire_def entry_at_def)
  moreover have "?step h1 h2"
    using http_step.answered [of h1 0 "\<lambda>_. ''k''" resp True] by (simp add: h2_def h1_def h0_def Save_def go_on_def)
  moreover have "?step h2 h3"
    using http_step.blocked [of h2 1 "\<lambda>_. ''k''" "hs_store h2"] T by (simp add: h3_def h2_def h1_def h0_def Acquire_def entry_at_def)
  moreover have "?step h3 h4"
    unfolding h4_def by (rule http_step.replayed [where redis = True and d = pollMaxDuration]) (use T in \<open>simp_all add: h3_def h2_def h1_def h0_def Load_def entry_at_def\<close>)
  ultimately have "?step\<^sup>*\<^sup>* h0 h4" by (meson converse_rtranclp_into_rtranclp r_into_rtranclp)
  moreover have "hs_now h4 < 0 + defaultTTL" using T by (simp add: h4_def h3_def h2_def h1_def h0_def)
  ultimately have "length (filter (\<lambda>e. fst e = ''k'') (hs_log h4)) \<le> 1"
    using handler_runs_once [of "\<lambda>_. ''k''" 0 h4 "''k''"] by (simp add: h0_def)
  then show ?thesis
    unfolding Let_def h4_def [symmetric] h3_def [symmetric] h2_def [symmetric] h1_def [symmetric] h0_def [symmetric] resp_def [symmetric]
    by (simp add: h4_def)
qed

lemma core_server_first:
  assumes "rq_Header r ''Idempotency-Key'' = k" "k \<noteq> []" "im_acquire env" "entry_at (im_now env) (idem_Key 0 k) s = None" "mux r None w = (Some resp, w1)"
  shows "core_server env mux r (s, w) =
    (Some resp, Save (im_save env) (im_later env) (idem_Key 0 k) (recorded resp) (s(idem_Key 0 k \<mapsto> (InFlight, im_now env + defaultTTL))), w1)"
  using assms by (simp add: core_server_def Wrap_def Acquire_def UserIDFromCtx_def Let_def)

lemma core_server_again:
  assumes "rq_Header r ''Idempotency-Key'' = k" "k \<noteq> []" "im_acquire env" "entry_at (im_now env) (idem_Key 0 k) s \<noteq> None"
  shows "core_server env mux r (s, w) = (replayOrWait (im_now env) (idem_Key 0 k) (im_polls env), s, w)"
  using assms by (auto simp: core_server_def Wrap_def Acquire_def UserIDFromCtx_def Let_def)

text \<open>
  C32. A key is shared by all users. The middleware sees every request before it is authenticated, so the user in the key is always 0. Once a
  request was answered, whoever sends the same key within 24 hours, without a token and on whatever route, gets that
  response; the route, which would have answered 401, is not asked.
\<close>

theorem replay_crosses_users:
  assumes "rq_Header r ''Idempotency-Key'' = k" "k \<noteq> []" "im_acquire env" "im_save env" "entry_at (im_now env) (idem_Key 0 k) s = None"
    "mux r None w = (Some resp, w1)" "core_server env mux r (s, w) = (Some resp, s1, w1)"
    "rq_Header r2 ''Idempotency-Key'' = k" "mux r2 = RequireAuth verify next r2" "bearerToken r2 = []"
    "im_acquire env2" "im_now env2 < im_later env + defaultTTL" "im_polls env2 = (False, True, seen, s1) # rest" "seen < im_later env + defaultTTL"
  shows "core_server env2 mux r2 (s1, w2) = (Some (replay (recorded resp)), s1, w2) \<and>
    mux r2 None w2 = (Some (http_Error 401 ''{\"error\":\"missing_token\"}''), w2)"
proof -
  have s1: "s1 = s(idem_Key 0 k \<mapsto> (Completed (recorded resp), im_later env + defaultTTL))"
    using core_server_first [of r k env s mux w resp w1] assms(1-7) by (simp add: Save_def)
  have "core_server env2 mux r2 (s1, w2) = (replayOrWait (im_now env2) (idem_Key 0 k) (im_polls env2), s1, w2)"
    by (rule core_server_again [OF assms(8,2,11)]) (use assms(12) in \<open>simp add: s1 entry_at_def\<close>)
  moreover have "replayOrWait (im_now env2) (idem_Key 0 k) (im_polls env2) = Some (replay (recorded resp))"
    using assms(13,14) by (simp add: replayOrWait_def Poll_def Load_def s1 entry_at_def)
  ultimately show ?thesis using assms(9,10) by (simp add: RequireAuth_def)
qed

text \<open>A request with the token \<open>good\<close>, then one without a token and the same key.\<close>

theorem replay_crosses_users_witness:
  "let verify = (\<lambda>t. if t = ''good'' then Some \<lparr>cl_UserID = 7, cl_Scope = ''api''\<rparr> else None);
       orders = RequireAuth verify (\<lambda>_ _ (w :: nat). (Some \<lparr>hr_Status = 200, hr_Headers = [], hr_Body = ''orders of 7''\<rparr>, w + 1));
       ask = (\<lambda>auth. \<lparr>rq_Header = (\<lambda>n. if n = ''Authorization'' then auth else if n = ''Idempotency-Key'' then ''k1'' else []), rq_Path = [], rq_Body = []\<rparr>);
       env = (\<lambda>polls. \<lparr>im_now = 0, im_later = 0, im_acquire = True, im_save = True, im_release = True, im_polls = polls\<rparr>);
       (resp, s1, w1) = core_server (env []) orders (ask ''Bearer good'') ((\<lambda>_. None), 0) in
   map_option hr_Body (fst (core_server (env [(False, True, 1, s1)]) orders (ask []) (s1, w1))) = Some ''orders of 7''"
proof -
  define verify where "verify = (\<lambda>t. if t = ''good'' then Some \<lparr>cl_UserID = 7, cl_Scope = ''api''\<rparr> else None)"
  define route where "route = (\<lambda>(_ :: http_request) (_ :: http_context) (w :: nat). (Some \<lparr>hr_Status = 200, hr_Headers = [], hr_Body = ''orders of 7''\<rparr>, w + 1))"
  define ask where "ask = (\<lambda>auth. \<lparr>rq_Header = (\<lambda>n. if n = ''Authorization'' then auth else if n = ''Idempotency-Key'' then ''k1'' else []), rq_Path = [], rq_Body = []\<rparr>)"
  define env where "env = (\<lambda>polls. \<lparr>im_now = 0, im_later = 0, im_acquire = True, im_save = True, im_release = True, im_polls = polls\<rparr>)"
  let ?resp = "\<lparr>hr_Status = 200, hr_Headers = [], hr_Body = ''orders of 7''\<rparr>"
  have a: "RequireAuth verify route (ask ''Bearer good'') None 0 = (Some ?resp, 1)"
    by (simp add: RequireAuth_def bearerToken_def bearer_prefix_def ask_def verify_def route_def ScopeAPI_def)
  obtain s1 where b: "core_server (env []) (RequireAuth verify route) (ask ''Bearer good'') ((\<lambda>_. None), 0) = (Some ?resp, s1, 1)"
    using core_server_first [of "ask ''Bearer good''" "''k1''" "env []" "\<lambda>_. None" "RequireAuth verify route" 0 ?resp 1] a
    by (simp add: ask_def env_def entry_at_def)
  have "fst (core_server (env [(False, True, 1, s1)]) (RequireAuth verify route) (ask []) (s1, 1)) = Some (replay (recorded ?resp))"
    using replay_crosses_users [OF _ _ _ _ _ a b, of "''k1''" "ask []" verify route "env [(False, True, 1, s1)]" 1 "[]" 1]
    by (simp add: ask_def env_def entry_at_def defaultTTL_def ns_per_sec_def bearerToken_def bearer_prefix_def)
  then show ?thesis
    using b unfolding Let_def route_def [symmetric] verify_def [symmetric] ask_def [symmetric] env_def [symmetric]
    by (simp add: ask_def [symmetric] env_def [symmetric] verify_def [symmetric] replay_def recorded_def)
qed

text \<open>
  For the same reason a refusal sticks: after a request with an unusable token was answered 401, the retry with a good token and the same key is
  answered 401 as well.
\<close>

lemma refusal_sticks:
  assumes "rq_Header r ''Idempotency-Key'' = k" "k \<noteq> []" "im_acquire env" "im_save env" "entry_at (im_now env) (idem_Key 0 k) s = None"
    "mux r = RequireAuth verify next r" "bearerToken r \<noteq> []" "verify (bearerToken r) = None" "core_server env mux r (s, w) = (resp, s1, w1)"
    "rq_Header r2 ''Idempotency-Key'' = k" "im_acquire env2" "im_now env2 < im_later env + defaultTTL" "im_polls env2 = (False, True, seen, s1) # rest"
    "seen < im_later env + defaultTTL"
  shows "\<exists>again. core_server env2 mux r2 (s1, w2) = (Some again, s1, w2) \<and> hr_Status again = 401"
proof -
  have m: "mux r None w = (Some (http_Error 401 ''{\"error\":\"invalid_token\"}''), w)" using assms(6-8) by (simp add: RequireAuth_def)
  have s1: "s1 = s(idem_Key 0 k \<mapsto> (Completed (recorded (http_Error 401 ''{\"error\":\"invalid_token\"}'')), im_later env + defaultTTL))"
    using core_server_first [of r k env s mux w _ w] m assms(1-5,9) by (simp add: Save_def)
  have "core_server env2 mux r2 (s1, w2) = (replayOrWait (im_now env2) (idem_Key 0 k) (im_polls env2), s1, w2)"
    by (rule core_server_again [OF assms(10,2,11)]) (use assms(12) in \<open>simp add: s1 entry_at_def\<close>)
  then show ?thesis using assms(13,14) by (simp add: replayOrWait_def Poll_def Load_def s1 entry_at_def replay_def recorded_def http_Error_def)
qed

text \<open>
  A response that could not be stored (Redis was down, or the client had gone and its context with it) leaves the key in flight: for 24 hours
  every retry waits for three seconds and is answered 409.
\<close>

lemma poll_loop_in_flight:
  assumes "\<forall>(c, redis, now, s) \<in> set obs. \<not> c \<and> redis \<and> entry_at now key s = Some InFlight" "poll_loop d key obs = Some res"
  shows "res = Inl ErrInFlight"
  using assms
proof (induction obs)
  case (Cons ob obs)
  obtain c redis now s where "ob = (c, redis, now, s)" by (cases ob)
  then show ?case using Cons by (auto simp: Load_def split: if_splits)
qed simp

lemma lost_response_blocks:
  assumes "rq_Header r ''Idempotency-Key'' = k" "k \<noteq> []" "im_acquire env" "\<not> im_save env" "entry_at (im_now env) (idem_Key 0 k) s = None"
    "mux r None w = (Some resp, w1)" "core_server env mux r (s, w) = (Some resp, s1, w1)"
    "rq_Header r2 ''Idempotency-Key'' = k" "im_acquire env2" "im_now env2 < im_now env + defaultTTL" "paced (im_now env2) pollInitialWait (im_polls env2)"
    "7 \<le> length (im_polls env2)" "\<forall>(c, redis, now, seen) \<in> set (im_polls env2). \<not> c \<and> redis \<and> seen = s1 \<and> now < im_now env + defaultTTL"
  shows "core_server env2 mux r2 (s1, w2) = (Some in_progress, s1, w2)"
proof -
  have s1: "s1 = s(idem_Key 0 k \<mapsto> (InFlight, im_now env + defaultTTL))"
    using core_server_first [of r k env s mux w resp w1] assms(1-7) by (simp add: Save_def)
  have "core_server env2 mux r2 (s1, w2) = (replayOrWait (im_now env2) (idem_Key 0 k) (im_polls env2), s1, w2)"
    by (rule core_server_again [OF assms(8,2,9)]) (use assms(10) in \<open>simp add: s1 entry_at_def\<close>)
  moreover obtain res where res: "Poll (im_now env2) (idem_Key 0 k) (im_polls env2) = Some res"
    using Poll_returns [OF assms(11,12)] by blast
  moreover have "res = Inl ErrInFlight"
    by (rule poll_loop_in_flight [OF _ res [unfolded Poll_def]]) (use assms(13) in \<open>auto simp: entry_at_def s1\<close>)
  ultimately show ?thesis by (simp add: replayOrWait_def)
qed

end
