(* ===== verification/Inbox.thy ===== *)
theory Inbox
  imports Calendar
begin

text \<open>
  The notification inbox: \<^verbatim>\<open>internal/inbox\<close>: notifications of a user, the matrix of preferences and the push tokens. A statement
  that fails changes nothing and its error is passed on; only the errors that depend on the arguments are modelled.
\<close>

section \<open>Types\<close>

record notification =
  ntf_ID :: int
  ntf_UserID :: int
  ntf_Type :: string
  ntf_TitleKey :: string
  ntf_BodyKey :: string
  ntf_BodyParams :: "(string \<times> string) list"
  ntf_DeepLink :: "string option"
  ntf_IsRead :: bool
  ntf_ReadAt :: "instant option"
  ntf_CreatedAt :: instant
  ntf_ExpiresAt :: "instant option"

record preference =
  prf_Category :: string
  prf_Channel :: string
  prf_Enabled :: bool

record push_token =
  pst_UserID :: int
  pst_Token :: string
  pst_Platform :: string
  pst_LastSeen :: instant

datatype inbox_error = ErrInvalidPreference string string | ErrInvalidPlatform string | ErrInvalidPushToken | InboxQuery

definition TypeMarketing :: string where
  "TypeMarketing = ''marketing''"

definition PrefCategories :: "string list" where
  "PrefCategories = [''order_status'', ''return_update'', ''security'', TypeMarketing, ''general'']"

definition PrefChannels :: "string list" where
  "PrefChannels = [''in_app'', ''email'', ''push'']"

definition defaultEnabled :: "string \<Rightarrow> string \<Rightarrow> bool" where
  "defaultEnabled category channel \<longleftrightarrow> category \<noteq> TypeMarketing"

definition DefaultPreferences :: "preference list" where
  "DefaultPreferences =
     concat (map (\<lambda>c. map (\<lambda>ch. \<lparr>prf_Category = c, prf_Channel = ch, prf_Enabled = defaultEnabled c ch\<rparr>) PrefChannels) PrefCategories)"

section \<open>Tables\<close>

text \<open>Stored preferences with their user; one row per user, category and channel.\<close>

record inbox_db =
  inb_notes :: "notification list"
  inb_next :: int
  inb_prefs :: "(int \<times> preference) list"
  inb_tokens :: "push_token list"

type_synonym 'a inbox_read = "inbox_db \<Rightarrow> inbox_error + 'a"
type_synonym 'a inbox_write = "inbox_db \<Rightarrow> (inbox_error + 'a) \<times> inbox_db"

definition listed :: "int \<Rightarrow> bool \<Rightarrow> notification \<Rightarrow> bool" where
  "listed userID unreadOnly n \<longleftrightarrow> ntf_UserID n = userID \<and> (unreadOnly \<longrightarrow> \<not> ntf_IsRead n)"

text \<open>Newest first, and by falling id among those of one instant.\<close>

definition newest_first :: "notification list \<Rightarrow> notification list" where
  "newest_first ns = rev (sort_key ntf_CreatedAt (sort_key ntf_ID ns))"

text \<open>PostgreSQL refuses a negative \<^verbatim>\<open>OFFSET\<close>.\<close>

definition inbox_repo_List :: "int \<Rightarrow> bool \<Rightarrow> int \<Rightarrow> int \<Rightarrow> notification list inbox_read" where
  "inbox_repo_List userID unreadOnly limit offset db =
     (if offset < 0 then Inl InboxQuery
      else Inr (take (nat limit) (drop (nat offset) (newest_first (filter (listed userID unreadOnly) (inb_notes db))))))"

definition inbox_Count :: "int \<Rightarrow> bool \<Rightarrow> inbox_db \<Rightarrow> nat" where
  "inbox_Count userID unreadOnly db = length (filter (listed userID unreadOnly) (inb_notes db))"

definition inbox_MarkRead :: "instant \<Rightarrow> int \<Rightarrow> int \<Rightarrow> inbox_db \<Rightarrow> inbox_db" where
  "inbox_MarkRead now userID i db =
     db\<lparr>inb_notes := update_where (\<lambda>n. ntf_ID n = i \<and> ntf_UserID n = userID \<and> \<not> ntf_IsRead n)
         (\<lambda>n. n\<lparr>ntf_IsRead := True, ntf_ReadAt := Some (case ntf_ReadAt n of Some t \<Rightarrow> t | None \<Rightarrow> now)\<rparr>) (inb_notes db)\<rparr>"

definition inbox_MarkAllRead :: "instant \<Rightarrow> int \<Rightarrow> inbox_db \<Rightarrow> nat \<times> inbox_db" where
  "inbox_MarkAllRead now userID db =
     (rows_affected (listed userID True) (inb_notes db),
      db\<lparr>inb_notes := update_where (listed userID True) (\<lambda>n. n\<lparr>ntf_IsRead := True, ntf_ReadAt := Some now\<rparr>) (inb_notes db)\<rparr>)"

definition ListPreferences :: "int \<Rightarrow> inbox_db \<Rightarrow> preference list" where
  "ListPreferences userID db = map snd (filter (\<lambda>(u, _). u = userID) (inb_prefs db))"

definition same_cell :: "int \<Rightarrow> preference \<Rightarrow> int \<times> preference \<Rightarrow> bool" where
  "same_cell userID p row \<longleftrightarrow> fst row = userID \<and> prf_Category (snd row) = prf_Category p \<and> prf_Channel (snd row) = prf_Channel p"

definition upsert_pref :: "int \<Rightarrow> preference \<Rightarrow> (int \<times> preference) list \<Rightarrow> (int \<times> preference) list" where
  "upsert_pref userID p rows =
     (if \<exists>row \<in> set rows. same_cell userID p row
      then update_where (same_cell userID p) (\<lambda>(u, q). (u, q\<lparr>prf_Enabled := prf_Enabled p\<rparr>)) rows else rows @ [(userID, p)])"

definition repo_UpsertPreferences :: "int \<Rightarrow> preference list \<Rightarrow> inbox_db \<Rightarrow> inbox_db" where
  "repo_UpsertPreferences userID prefs db = db\<lparr>inb_prefs := fold (upsert_pref userID) prefs (inb_prefs db)\<rparr>"

definition UpsertPushToken :: "instant \<Rightarrow> int \<Rightarrow> string \<Rightarrow> string \<Rightarrow> inbox_db \<Rightarrow> inbox_db" where
  "UpsertPushToken now userID token platform db =
     (if \<exists>t \<in> set (inb_tokens db). pst_Token t = token
      then db\<lparr>inb_tokens := update_where (\<lambda>t. pst_Token t = token) (\<lambda>t. t\<lparr>pst_UserID := userID, pst_Platform := platform, pst_LastSeen := now\<rparr>) (inb_tokens db)\<rparr>
      else db\<lparr>inb_tokens := inb_tokens db @ [\<lparr>pst_UserID = userID, pst_Token = token, pst_Platform = platform, pst_LastSeen = now\<rparr>]\<rparr>)"

definition notification_types :: "string list" where
  "notification_types = [''order_status'', ''return_update'', ''security'', TypeMarketing, ''system'']"

text \<open>The returned notification keeps the read time it was given; the row has none.\<close>

definition inbox_Insert :: "instant \<Rightarrow> notification \<Rightarrow> notification inbox_write" where
  "inbox_Insert now n db =
     (let n' = n\<lparr>ntf_ID := inb_next db, ntf_CreatedAt := now, ntf_IsRead := False\<rparr> in
      if ntf_Type n \<notin> set notification_types then (Inl InboxQuery, db)
      else (Inr n', db\<lparr>inb_notes := inb_notes db @ [n'\<lparr>ntf_ReadAt := None\<rparr>], inb_next := inb_next db + 1\<rparr>))"

section \<open>Service\<close>

definition maxPageSize :: int where
  "maxPageSize = 50"

definition inbox_List :: "int \<Rightarrow> bool \<Rightarrow> int \<Rightarrow> int \<Rightarrow> (notification list \<times> nat) inbox_read" where
  "inbox_List userID unreadOnly page pageSize db =
     (let page = (if page < 1 then 1 else page); pageSize = (if pageSize < 1 \<or> maxPageSize < pageSize then 20 else pageSize) in
      case inbox_repo_List userID unreadOnly pageSize (wrap64 ((page - 1) * pageSize)) db of
        Inl e \<Rightarrow> Inl e | Inr items \<Rightarrow> Inr (items, inbox_Count userID unreadOnly db))"

definition UnreadCount :: "int \<Rightarrow> inbox_db \<Rightarrow> nat" where
  "UnreadCount userID db = inbox_Count userID True db"

text \<open>The stored rows over the default matrix; of two rows of one cell the later would win.\<close>

definition override :: "preference list \<Rightarrow> preference \<Rightarrow> preference" where
  "override stored p =
     (case List.find (\<lambda>q. prf_Category q = prf_Category p \<and> prf_Channel q = prf_Channel p) (rev stored) of
        None \<Rightarrow> p | Some q \<Rightarrow> p\<lparr>prf_Enabled := prf_Enabled q\<rparr>)"

definition GetPreferences :: "int \<Rightarrow> inbox_db \<Rightarrow> preference list" where
  "GetPreferences userID db = map (override (ListPreferences userID db)) DefaultPreferences"

definition valid_pref :: "preference \<Rightarrow> bool" where
  "valid_pref p \<longleftrightarrow> prf_Category p \<in> set PrefCategories \<and> prf_Channel p \<in> set PrefChannels"

definition UpsertPreferences :: "int \<Rightarrow> preference list \<Rightarrow> unit inbox_write" where
  "UpsertPreferences userID prefs db =
     (case List.find (\<lambda>p. \<not> valid_pref p) prefs of
        Some p \<Rightarrow> (Inl (ErrInvalidPreference (prf_Category p) (prf_Channel p)), db)
      | None \<Rightarrow> (Inr (), repo_UpsertPreferences userID prefs db))"

definition RegisterPushToken :: "instant \<Rightarrow> int \<Rightarrow> string \<Rightarrow> string \<Rightarrow> unit inbox_write" where
  "RegisterPushToken now userID token platform db =
     (if platform \<notin> {''web'', ''android'', ''ios''} then (Inl (ErrInvalidPlatform platform), db)
      else if token = [] then (Inl ErrInvalidPushToken, db)
      else (Inr (), UpsertPushToken now userID token platform db))"

definition DeletePushToken :: "int \<Rightarrow> string \<Rightarrow> unit inbox_write" where
  "DeletePushToken userID token db =
     (if token = [] then (Inl ErrInvalidPushToken, db)
      else (Inr (), db\<lparr>inb_tokens := filter (\<lambda>t. \<not> (pst_Token t = token \<and> pst_UserID t = userID)) (inb_tokens db)\<rparr>))"

section \<open>Reading\<close>

lemma MarkAllRead_correct:
  assumes "inbox_MarkAllRead now userID db = (n, db')"
  shows "n = UnreadCount userID db" "UnreadCount userID db' = 0" "userID' \<noteq> userID \<Longrightarrow> inbox_Count userID' b db' = inbox_Count userID' b db"
    "inbox_Count userID False db' = inbox_Count userID False db"
proof -
  have d: "n = length (filter (listed userID True) (inb_notes db))"
    "inb_notes db' = update_where (listed userID True) (\<lambda>n. n\<lparr>ntf_IsRead := True, ntf_ReadAt := Some now\<rparr>) (inb_notes db)"
    using assms by (auto simp: inbox_MarkAllRead_def rows_affected_def)
  show "n = UnreadCount userID db" using d(1) by (simp add: UnreadCount_def inbox_Count_def)
  have "filter (listed userID True) (update_where (listed userID True) (\<lambda>n. n\<lparr>ntf_IsRead := True, ntf_ReadAt := Some now\<rparr>) ns) = []" for ns
    by (induction ns) (auto simp: listed_def)
  then show "UnreadCount userID db' = 0" by (simp add: UnreadCount_def inbox_Count_def d(2))
  have "length (filter (listed userID' b) (update_where (listed userID True) (\<lambda>n. n\<lparr>ntf_IsRead := True, ntf_ReadAt := Some now\<rparr>) ns)) =
      length (filter (listed userID' b) ns)" if "userID' \<noteq> userID" for ns
    using that by (induction ns) (auto simp: listed_def)
  then show "userID' \<noteq> userID \<Longrightarrow> inbox_Count userID' b db' = inbox_Count userID' b db" by (simp add: inbox_Count_def d(2))
  have "length (filter (listed userID False) (update_where (listed userID True) (\<lambda>n. n\<lparr>ntf_IsRead := True, ntf_ReadAt := Some now\<rparr>) ns)) =
      length (filter (listed userID False) ns)" for ns
    by (induction ns) (auto simp: listed_def)
  then show "inbox_Count userID False db' = inbox_Count userID False db" by (simp add: inbox_Count_def d(2))
qed

text \<open>Marking twice is marking once, and a user can only mark notifications of their own.\<close>

lemma MarkRead_idempotent: "inbox_MarkRead now' userID i (inbox_MarkRead now userID i db) = inbox_MarkRead now userID i db"
  by (auto simp: inbox_MarkRead_def update_where_def)

lemma MarkRead_own: "userID' \<noteq> userID \<Longrightarrow> filter (listed userID' b) (inb_notes (inbox_MarkRead now userID i db)) = filter (listed userID' b) (inb_notes db)"
proof -
  assume "userID' \<noteq> userID"
  then have "filter (listed userID' b) (update_where (\<lambda>n. ntf_ID n = i \<and> ntf_UserID n = userID \<and> \<not> ntf_IsRead n) (\<lambda>n. n\<lparr>ntf_IsRead := True, ntf_ReadAt := g n\<rparr>) ns) =
    filter (listed userID' b) ns" for g ns
    by (induction ns) (auto simp: listed_def)
  then show ?thesis by (simp add: inbox_MarkRead_def)
qed

text \<open>The pages of a listing, put together, are the listing.\<close>

definition page_items :: "int \<Rightarrow> bool \<Rightarrow> int \<Rightarrow> inbox_db \<Rightarrow> nat \<Rightarrow> notification list" where
  "page_items userID unread psize db p = (case inbox_List userID unread (int p + 1) psize db of Inr (items, _) \<Rightarrow> items | Inl _ \<Rightarrow> [])"

lemma page_items_drop:
  assumes "1 \<le> psize" "psize \<le> maxPageSize" "int p * psize < 2 ^ 63"
  shows "page_items userID unread psize db p = take (nat psize) (drop (p * nat psize) (newest_first (filter (listed userID unread) (inb_notes db))))"
proof -
  have nn: "\<not> int p * psize < 0" using assms(1) by (simp add: not_less)
  moreover have "wrap64 (int p * psize) = int p * psize" using assms by (intro wrap64_id) (auto simp: is_i64_def min_i64_def max_i64_def intro: order_trans [of _ 0])
  moreover have "nat (int p * psize) = p * nat psize" using assms(1) by (simp add: nat_mult_distrib)
  ultimately show ?thesis using assms by (simp add: page_items_def inbox_List_def inbox_repo_List_def)
qed

lemma pages_cover:
  assumes "1 \<le> psize" "psize \<le> maxPageSize" "int n * psize < 2 ^ 63"
  shows "concat (map (page_items userID unread psize db) [0..<n]) = take (n * nat psize) (newest_first (filter (listed userID unread) (inb_notes db)))"
  using assms(3)
proof (induction n)
  case (Suc n)
  have le: "int n * psize < 2 ^ 63" using Suc.prems assms(1) by (simp add: algebra_simps)
  have "take (n * nat psize + nat psize) xs = take (n * nat psize) xs @ take (nat psize) (drop (n * nat psize) xs)" for xs :: "notification list"
    by (rule take_add)
  then show ?case using Suc.IH [OF le] page_items_drop [OF assms(1,2) le, of userID unread db] by (simp add: add.commute)
qed simp

section \<open>Preferences\<close>

lemma override_cell: "prf_Category (override stored p) = prf_Category p \<and> prf_Channel (override stored p) = prf_Channel p"
  by (simp add: override_def split: option.split)

text \<open>A client always gets the whole matrix, in the same order.\<close>

lemma GetPreferences_grid:
  "map (\<lambda>p. (prf_Category p, prf_Channel p)) (GetPreferences userID db) = List.product PrefCategories PrefChannels"
  by (simp add: GetPreferences_def DefaultPreferences_def PrefCategories_def PrefChannels_def override_cell)

text \<open>What a preference is after its row was written: the last one given for its cell, and what it was for the other cells.\<close>

definition cell :: "preference \<Rightarrow> string \<times> string" where
  "cell p = (prf_Category p, prf_Channel p)"

definition stored_value :: "int \<Rightarrow> (int \<times> preference) list \<Rightarrow> string \<times> string \<Rightarrow> bool option" where
  "stored_value userID rows c = map_option (\<lambda>r. prf_Enabled (snd r)) (List.find (\<lambda>r. fst r = userID \<and> cell (snd r) = c) rows)"

lemma same_cell_iff: "same_cell userID p row \<longleftrightarrow> fst row = userID \<and> cell (snd row) = cell p"
  by (simp add: same_cell_def cell_def)

abbreviation write_cell :: "int \<Rightarrow> preference \<Rightarrow> (int \<times> preference) list \<Rightarrow> (int \<times> preference) list" where
  "write_cell userID p rows \<equiv> update_where (same_cell userID p) (\<lambda>(u, q). (u, q\<lparr>prf_Enabled := prf_Enabled p\<rparr>)) rows"

lemma stored_value_Cons:
  "stored_value userID (r # rows) c = (if fst r = userID \<and> cell (snd r) = c then Some (prf_Enabled (snd r)) else stored_value userID rows c)"
  by (simp add: stored_value_def)

lemma cell_update [simp]: "cell (q\<lparr>prf_Enabled := b\<rparr>) = cell q"
  by (simp add: cell_def)

lemma stored_value_other: "c \<noteq> cell p \<Longrightarrow> stored_value userID (write_cell userID p rows) c = stored_value userID rows c"
proof (induction rows)
  case (Cons r rows)
  obtain u q where "r = (u, q)" by (cases r)
  then show ?case using Cons by (simp add: stored_value_Cons same_cell_iff)
qed simp

lemma stored_value_same:
  "\<exists>row \<in> set rows. same_cell userID p row \<Longrightarrow> stored_value userID (write_cell userID p rows) (cell p) = Some (prf_Enabled p)"
proof (induction rows)
  case (Cons r rows)
  obtain u q where "r = (u, q)" by (cases r)
  then show ?case using Cons by (auto simp: stored_value_Cons same_cell_iff)
qed simp

lemma stored_value_upsert:
  "stored_value userID (upsert_pref userID p rows) c = (if c = cell p then Some (prf_Enabled p) else stored_value userID rows c)"
proof (cases "\<exists>row \<in> set rows. same_cell userID p row")
  case True
  then show ?thesis using stored_value_other stored_value_same [OF True] by (simp add: upsert_pref_def)
next
  case False
  then have "List.find (\<lambda>r. fst r = userID \<and> cell (snd r) = cell p) rows = None" by (auto simp: find_None_iff2 same_cell_iff)
  then show ?thesis using False by (auto simp: upsert_pref_def stored_value_def find_append split: option.split)
qed

lemma stored_value_fold:
  "distinct (map cell prefs) \<Longrightarrow>
   stored_value userID (fold (upsert_pref userID) prefs rows) c =
     (case map_of (map (\<lambda>p. (cell p, prf_Enabled p)) prefs) c of Some b \<Rightarrow> Some b | None \<Rightarrow> stored_value userID rows c)"
proof (induction prefs arbitrary: rows)
  case (Cons p prefs)
  then have "map_of (map (\<lambda>p. (cell p, prf_Enabled p)) prefs) (cell p) = None" by (auto simp: map_of_eq_None_iff image_iff)
  then show ?case using Cons by (auto simp: stored_value_upsert split: option.split)
qed simp

lemma override_value:
  assumes "distinct (map cell (ListPreferences userID db))"
  shows "prf_Enabled (override (ListPreferences userID db) p) =
    (case stored_value userID (inb_prefs db) (cell p) of None \<Rightarrow> prf_Enabled p | Some b \<Rightarrow> b)"
proof -
  let ?l = "ListPreferences userID db"
  have c: "(\<lambda>q. prf_Category q = prf_Category p \<and> prf_Channel q = prf_Channel p) = (\<lambda>q. cell q = cell p)" by (auto simp: cell_def fun_eq_iff)
  have s: "stored_value userID (inb_prefs db) (cell p) = map_option prf_Enabled (List.find (\<lambda>q. cell q = cell p) ?l)"
  proof -
    have "map_option (\<lambda>r. prf_Enabled (snd r)) (List.find (\<lambda>r. fst r = userID \<and> cell (snd r) = cell p) rows) =
      map_option prf_Enabled (List.find (\<lambda>q. cell q = cell p) (map snd (filter (\<lambda>(u, _). u = userID) rows)))" for rows
      by (induction rows) auto
    then show ?thesis by (simp add: stored_value_def ListPreferences_def)
  qed
  have "List.find (\<lambda>q. cell q = cell p) (rev ?l) = List.find (\<lambda>q. cell q = cell p) ?l"
  proof (cases "\<exists>q \<in> set ?l. cell q = cell p")
    case True
    then obtain q where q: "q \<in> set ?l" "cell q = cell p" by blast
    then show ?thesis using find_distinct_key [of cell ?l q] find_distinct_key [of cell "rev ?l" q] assms by (simp add: rev_map [symmetric])
  next
    case False
    then have "List.find (\<lambda>q. cell q = cell p) ?l = None" "List.find (\<lambda>q. cell q = cell p) (rev ?l) = None" by (auto simp: find_None_iff2)
    then show ?thesis by simp
  qed
  then show ?thesis by (simp add: override_def c s split: option.split)
qed

text \<open>
  What is submitted is what is read back: the cells given have the values given, and every other cell of the matrix keeps its value.
\<close>

theorem preferences_roundtrip:
  assumes "UpsertPreferences userID prefs db = (Inr (), db')" "distinct (map cell prefs)"
    "distinct (map cell (ListPreferences userID db))" "distinct (map cell (ListPreferences userID db'))" "p \<in> set (GetPreferences userID db')"
  shows "(\<forall>q \<in> set prefs. cell q = cell p \<longrightarrow> prf_Enabled p = prf_Enabled q) \<and>
    (cell p \<notin> cell ` set prefs \<longrightarrow> p \<in> set (GetPreferences userID db))"
proof -
  obtain d where d: "d \<in> set DefaultPreferences" "p = override (ListPreferences userID db') d" using assms(5) by (auto simp: GetPreferences_def)
  have cd: "cell p = cell d" using d(2) by (simp add: cell_def override_cell)
  have rows: "inb_prefs db' = fold (upsert_pref userID) prefs (inb_prefs db)"
    using assms(1) by (auto simp: UpsertPreferences_def repo_UpsertPreferences_def split: option.splits)
  have v: "stored_value userID (inb_prefs db') (cell d) =
     (case map_of (map (\<lambda>p. (cell p, prf_Enabled p)) prefs) (cell d) of Some b \<Rightarrow> Some b | None \<Rightarrow> stored_value userID (inb_prefs db) (cell d))"
    unfolding rows by (rule stored_value_fold [OF assms(2)])
  have "prf_Enabled p = prf_Enabled q" if "q \<in> set prefs" "cell q = cell p" for q
  proof -
    have "map_of (map (\<lambda>p. (cell p, prf_Enabled p)) prefs) (cell d) = Some (prf_Enabled q)"
    proof (rule map_of_is_SomeI)
      show "distinct (map fst (map (\<lambda>p. (cell p, prf_Enabled p)) prefs))" using assms(2) by (simp add: o_def)
      show "(cell d, prf_Enabled q) \<in> set (map (\<lambda>p. (cell p, prf_Enabled p)) prefs)" unfolding set_map using that cd by (intro image_eqI [of _ _ q]) simp_all
    qed
    then show ?thesis using override_value [OF assms(4), of d] d(2) v by simp
  qed
  moreover have "p \<in> set (GetPreferences userID db)" if "cell p \<notin> cell ` set prefs"
  proof -
    have "map_of (map (\<lambda>p. (cell p, prf_Enabled p)) prefs) (cell d) = None" using that cd by (auto simp: map_of_eq_None_iff image_iff)
    then have "prf_Enabled (override (ListPreferences userID db') d) = prf_Enabled (override (ListPreferences userID db) d)"
      using override_value [OF assms(4), of d] override_value [OF assms(3), of d] v by simp
    then have "p = override (ListPreferences userID db) d"
      using d(2) override_cell by (intro preference.equality) simp_all
    then show ?thesis using d(1) by (simp add: GetPreferences_def)
  qed
  ultimately show ?thesis by blast
qed

end
