(* ===== verification/Spec2Isabelle.thy ===== *)
theory Spec2Isabelle
  imports Reconcile CheckoutPaths OrderFlow ReturnFlow Payments EventDelivery Shipping Accounts Idempotency Inbox
begin

text \<open>
  Verification of the commerce and money core of the Mopro platform (the Go code under \<^verbatim>\<open>src/internal\<close> and
  \<^verbatim>\<open>src/pkg\<close>).

  \<^bold>\<open>The program.\<close> A buyer fills a cart (\<^verbatim>\<open>internal/cart\<close>, Redis), reserves its stock and checks out
  (\<^verbatim>\<open>internal/order\<close>). The checkout saga makes one order per seller and asks a payment provider for the total;
  the provider's webhook (\<^verbatim>\<open>internal/payment\<close>) marks the orders paid, a carrier's webhook or poll (\<^verbatim>\<open>internal/shipping\<close>) marks them
  delivered, and within two weeks the buyer can ask for a return, which the seller approves or rejects. Each of these
  changes writes a row into a transactional outbox (\<^verbatim>\<open>internal/outbox\<close>), and a relay publishes the rows to a Redis stream
  (\<^verbatim>\<open>internal/eventbus\<close>) that consumer groups read. On the financial side,
  consumers turn the events into money: \<^verbatim>\<open>internal/orderledger\<close> posts the captured payment, \<^verbatim>\<open>internal/cashback\<close>
  opens a cashback plan and pays it month by month, \<^verbatim>\<open>internal/sellerpayout\<close> schedules and transfers the sellers'
  nets, \<^verbatim>\<open>internal/refund\<close> credits refunds. All of them post to one double-entry ledger
  (\<^verbatim>\<open>internal/wallet\<close>), which \<^verbatim>\<open>internal/reconcile\<close> checks every week. Buyers are accounts of \<^verbatim>\<open>internal/identity\<close>: codes by phone,
  passwords, a second factor, and sessions as chains of refresh tokens.

  \<^bold>\<open>How it is modelled.\<close> A database is a record of tables (lists of rows in insertion order), an operation a function
  from such a record to a result and a new record, an error a value of a sum type. Go's 64-bit integers are \<^verbatim>\<open>int\<close> with
  \<open>wrap64\<close> written wherever the code can overflow. What the environment decides (the clock, whether a statement or
  COMMIT fails, what the provider answers, in which order Go visits a map) is an argument of the
  operation, so a theorem holds for every behaviour of the environment. A database transaction is the
  combinator \<open>with_retry\<close>: a list of outcomes of the server, the body, the checks at COMMIT, and the retry rule of
  the repository concerned.

  \<^bold>\<open>Theories\<close>, in the order of their imports.

  \<^item> \<^verbatim>\<open>Prelude\<close>: 64-bit arithmetic, decimal printing, association lists visited in any order (\<open>range_map\<close>), tables with
    fresh ids, updates of rows, JSON values.
  \<^item> \<^verbatim>\<open>Calendar\<close>: instants and civil dates, Go's \<^verbatim>\<open>AddDate\<close>, and \<^verbatim>\<open>pkg/timex\<close>: \<open>AddBusinessDays\<close> as a
    loop with a termination proof, shown to return the n-th business day.
  \<^item> \<^verbatim>\<open>Tx\<close>: transactions with retries.
  \<^item> \<^verbatim>\<open>Outbox\<close>: \<^verbatim>\<open>internal/outbox\<close>: the table, the relay (\<open>RunBatch\<close>, \<open>Run\<close>), its batch size and backoff. A published
    row is on the stream whatever fails; a healthy relay drains the table.
  \<^item> \<^verbatim>\<open>Wallet\<close>: \<^verbatim>\<open>internal/wallet\<close> and \<^verbatim>\<open>internal/ledger\<close> with the constraint trigger of
    \<^verbatim>\<open>deploy/postgres-ledger\<close>. The locale \<open>tx_ledger\<close> states what the engines rely on (a posting under a new key moves
    exactly its legs, a repeated one moves nothing); it is interpreted on \<open>PostInTx\<close> as \<open>wl\<close>. Every reachable
    ledger balances; it is append-only; a read-only ledger posts nothing.
  \<^item> \<^verbatim>\<open>Consumer\<close>: the locale \<open>idempotent_consumer\<close>: an event delivered any number of times, with other events in
    between, has the effect of one delivery. It is interpreted on the four consumers below.
  \<^item> \<^verbatim>\<open>Cashback\<close>: \<^verbatim>\<open>internal/cashback\<close>: the exact schedule of a plan, plan creation, the monthly run.
  \<^item> \<^verbatim>\<open>OrderLedger\<close>: \<^verbatim>\<open>internal/orderledger\<close> and \<^verbatim>\<open>internal/commission\<close>: the capture posting, each amount on its account, and its
    audit row.
  \<^item> \<^verbatim>\<open>Refund\<close>: \<^verbatim>\<open>internal/refund\<close>.
  \<^item> \<^verbatim>\<open>SellerPayout\<close>: \<^verbatim>\<open>internal/sellerpayout\<close>: scheduling, the three phases of the daily run, reconciliation
    with the provider, the fraud hold.
  \<^item> \<^verbatim>\<open>Reconcile\<close>: \<^verbatim>\<open>internal/reconcile\<close>: no false alarm, no silent drift, a drift halts posting.
  \<^item> \<^verbatim>\<open>Pricing\<close>: \<^verbatim>\<open>internal/order/pricing.go\<close> and \<^verbatim>\<open>coupon.go\<close>.
  \<^item> \<^verbatim>\<open>Cart\<close>: \<^verbatim>\<open>internal/cart\<close>: a reservation takes the whole cart or nothing, is undone by its release, and never
    makes a counter negative, whichever Redis command fails.
  \<^item> \<^verbatim>\<open>Orders\<close>: \<^verbatim>\<open>internal/order\<close> (repository, status machine, checkout, saga, paid and delivered events) and
    the capture hook of \<^verbatim>\<open>cmd/core-svc/main.go\<close>. The books of every order add up in every reachable state; the saga orders exactly
    the cart in Redis, split by seller, and compensates when the provider refuses.
  \<^item> \<^verbatim>\<open>CheckoutPaths\<close>: the saga and the plain checkout charge the same.
  \<^item> \<^verbatim>\<open>OrderFlow\<close>: from orders to engines: the events of the order service are decoded by the consumers as they were
    built, and the capture posting, the cashback plan and the payouts agree with the order.
  \<^item> \<^verbatim>\<open>OrderGrowth\<close>: what every order operation keeps: orders and items are only added, and their amounts never change.
  \<^item> \<^verbatim>\<open>Returns\<close>: \<^verbatim>\<open>internal/order/returns.go\<close> and \<^verbatim>\<open>returns_repository.go\<close>: return requests, the seller's decision, the refunded
    event. Every operation takes the state its reads saw beside the state it commits to.
  \<^item> \<^verbatim>\<open>ReturnFlow\<close>: runs of returns among order operations, with reads from any earlier state of the run: refunds stay within
    what the order charged, and a refunded return has exactly one event, which \<^verbatim>\<open>Refund\<close> decodes; three places where the code does not
    keep what it offers.
  \<^item> \<^verbatim>\<open>Sipay\<close>: \<^verbatim>\<open>internal/payment/{domain,errors,service}.go\<close> and \<^verbatim>\<open>internal/payment/sipay/{hmac,client,adapter}.go\<close>: signatures, token
    cache, circuit breaker, retries, the six operations. A charge is not sent blindly again; its amount survives the round trip.
  \<^item> \<^verbatim>\<open>Payments\<close>: the payments table, the webhook endpoint, the reconciler and the refund endpoint: one payment and one event
    per reference, only signed webhooks act. A capture pays the orders of its session where the payments table has no foreign key; with
    the deployed one every signed webhook is answered 500.
  \<^item> \<^verbatim>\<open>EventBus\<close>: \<^verbatim>\<open>internal/eventbus\<close> and \<^verbatim>\<open>cmd/mopro/dlq.go\<close>: stream, pending list, attempt log, dead letters, replay. The locale
    \<open>event_consumer\<close> takes a handler whose success makes an event done for good; whatever happens on the bus, an entry that was read and is still on the stream is pending,
    done or a dead letter; only a trim can lose an entry.
  \<^item> \<^verbatim>\<open>EventDelivery\<close>: the locale interpreted on the four consumers of the money engines.
  \<^item> \<^verbatim>\<open>Carriers\<close>: the carrier adapters of \<^verbatim>\<open>internal/shipping\<close>.
  \<^item> \<^verbatim>\<open>Shipping\<close>: \<^verbatim>\<open>internal/shipping/{service,repository}.go\<close> and the webhook endpoint: a carrier's delivery reaches the money
    engines, what happens when the order update fails (no poll repairs it, a repeated webhook does), and why no MNG webhook is accepted.
  \<^item> \<^verbatim>\<open>Ascii\<close>: Go's \<^verbatim>\<open>strings\<close> functions on ASCII texts.
  \<^item> \<^verbatim>\<open>Identity\<close>: \<^verbatim>\<open>internal/identity/{domain,errors,repository}.go\<close>, \<^verbatim>\<open>ratelimit\<close> and \<^verbatim>\<open>cleanup\<close>: the tables of accounts, codes,
    tokens and addresses, and the limiter.
  \<^item> \<^verbatim>\<open>Sessions\<close>: \<^verbatim>\<open>internal/identity/service.go\<close>: every operation of the service as a sequence of actions on the state.
  \<^item> \<^verbatim>\<open>SessionFlow\<close>: the service refines a specification of sessions as chains with at most one live token; a replayed token
    ends its chain; a verified address needs no code, and the lock after ten failures does not hold.
  \<^item> \<^verbatim>\<open>Accounts\<close>: requests for codes are rationed, addresses round trip; a password reset ends no session, and an address
    registered with a capital letter cannot log in.
  \<^item> \<^verbatim>\<open>Idempotency\<close>: \<^verbatim>\<open>internal/idempotency\<close>, \<^verbatim>\<open>internal/identity/middleware/auth.go\<close> and how \<^verbatim>\<open>cmd/core-svc/main.go\<close> composes
    them. Under any interleaving a keyed request runs once; but the key does not tell users apart, and a lost response blocks its key.
  \<^item> \<^verbatim>\<open>Inbox\<close>: \<^verbatim>\<open>internal/inbox\<close>: notifications, preferences, push tokens.

  \<^bold>\<open>Fuel.\<close> Two loops of the code need not end: \<open>PayMonthlyInstallments\<close> and \<open>RunDailyPayouts\<close> fetch batches until
  one is short. Their models take fuel and return \<open>None\<close> when it runs out; that no fuel is enough for a full batch of rows
  that cannot be processed is itself a theorem (\<open>cron_never_returns\<close>, \<open>daily_run_never_returns\<close>). The relay's endless
  loop runs once per element of a list of environments. All other loops are total functions.

  \<^bold>\<open>Not modelled.\<close> The XML envelopes of the two SOAP carriers. Catalog, seller back office, analytics and the other side features
  do not move money or stock; the catalog look-ups, the encryption of private fields, the digests, the signer of access tokens, and what the
  payment provider and the carriers answer are parameters. Generated code, most HTTP handlers, metrics, logging, tracing and cron scheduling
  are left out. Concurrency appears as what other transactions may have committed between two steps of an
  operation (for example the state read by a pre-check is a separate argument) and as serialization failures, not as
  interleavings of single statements; so races on the locks of single rows, as between the revocation of a chain and a rotation in it, are outside
  the model. A COMMIT that fails has changed nothing (a lost acknowledgement of a COMMIT that worked is left out), and of the monthly run a failing query
  for the due plans. The stream of \<^verbatim>\<open>Outbox\<close> is the log of what was published; trimming is in \<^verbatim>\<open>EventBus\<close>. JSON keys are
  matched in their exact case, where Go also accepts other cases.
\<close>

end
